(* ===== verification/Yams_Prelude.thy ===== *)
theory Yams_Prelude
  imports Main "HOL-Library.List_Lexorder" "HOL-Library.Multiset" "HOL-Library.Code_Target_Numeral"
begin

text \<open>
  Shared vocabulary of the development. The theory models the pieces of the Rust standard
  library that every component of Yams uses: results (\<open>Result<T, E>\<close> as a sum, \<open>Inl\<close> the
  error), fallible iteration (\<open>collect::<Result<_, _>>\<close>), three-way comparison with
  \<open>then_with\<close>, the stable \<open>sort_by\<close>, the \<open>seen.insert(key)\<close> filter that keeps the first
  element of every key, and \<open>BTreeMap\<close> as a key-sorted association list.
  Two interfaces are stated as locales and interpreted here: \<open>rust_cmp\<close> (a comparator that
  \<open>sort_by\<close> may rely on) and \<open>ordered_map\<close> (what a client may assume of a \<open>BTreeMap\<close>).
\<close>

named_theorems result_simps "rewriting of fallible computations"

section \<open>Definitions\<close>

subsection \<open>Results and fallible iteration\<close>

type_synonym ('e, 'a) result = "'e + 'a"

definition res_bind :: "('e, 'a) result \<Rightarrow> ('a \<Rightarrow> ('e, 'b) result) \<Rightarrow> ('e, 'b) result" where
  "res_bind r f = (case r of Inl e \<Rightarrow> Inl e | Inr x \<Rightarrow> f x)"

definition res_map :: "('a \<Rightarrow> 'b) \<Rightarrow> ('e, 'a) result \<Rightarrow> ('e, 'b) result" where
  "res_map f r = (case r of Inl e \<Rightarrow> Inl e | Inr x \<Rightarrow> Inr (f x))"

definition map_err :: "('e \<Rightarrow> 'f) \<Rightarrow> ('e, 'a) result \<Rightarrow> ('f, 'a) result" where
  "map_err f r = (case r of Inl e \<Rightarrow> Inl (f e) | Inr x \<Rightarrow> Inr x)"

definition is_ok :: "('e, 'a) result \<Rightarrow> bool" where
  "is_ok r = (case r of Inl _ \<Rightarrow> False | Inr _ \<Rightarrow> True)"

definition ok_or :: "'e \<Rightarrow> 'a option \<Rightarrow> ('e, 'a) result" where
  "ok_or e x = (case x of None \<Rightarrow> Inl e | Some v \<Rightarrow> Inr v)"

fun try_map :: "('a \<Rightarrow> ('e, 'b) result) \<Rightarrow> 'a list \<Rightarrow> ('e, 'b list) result" where
  "try_map f [] = Inr []"
| "try_map f (x # xs) =
     (case f x of Inl e \<Rightarrow> Inl e
      | Inr y \<Rightarrow> (case try_map f xs of Inl e \<Rightarrow> Inl e | Inr ys \<Rightarrow> Inr (y # ys)))"

fun try_fold :: "('s \<Rightarrow> 'a \<Rightarrow> ('e, 's) result) \<Rightarrow> 's \<Rightarrow> 'a list \<Rightarrow> ('e, 's) result" where
  "try_fold f s [] = Inr s"
| "try_fold f s (x # xs) = (case f s x of Inl e \<Rightarrow> Inl e | Inr s' \<Rightarrow> try_fold f s' xs)"

subsection \<open>Three-way comparison and the stable sort\<close>

datatype ordering = Less | Equal | Greater

fun rev_ord :: "ordering \<Rightarrow> ordering" where
  "rev_ord Less = Greater"
| "rev_ord Equal = Equal"
| "rev_ord Greater = Less"

definition then_with :: "ordering \<Rightarrow> ordering \<Rightarrow> ordering" where
  "then_with a b = (case a of Equal \<Rightarrow> b | _ \<Rightarrow> a)"

definition cmp :: "'a::linorder \<Rightarrow> 'a \<Rightarrow> ordering" where
  "cmp x y = (if x < y then Less else if x = y then Equal else Greater)"

fun insert_by :: "('a \<Rightarrow> 'a \<Rightarrow> ordering) \<Rightarrow> 'a \<Rightarrow> 'a list \<Rightarrow> 'a list" where
  "insert_by c x [] = [x]"
| "insert_by c x (y # ys) = (if c x y = Greater then y # insert_by c x ys else x # y # ys)"

definition sort_by :: "('a \<Rightarrow> 'a \<Rightarrow> ordering) \<Rightarrow> 'a list \<Rightarrow> 'a list" where
  "sort_by c xs = foldr (insert_by c) xs []"

subsection \<open>Keeping the first element of every key\<close>

fun retain_first :: "('a \<Rightarrow> 'k) \<Rightarrow> 'k list \<Rightarrow> 'a list \<Rightarrow> 'a list" where
  "retain_first f seen [] = []"
| "retain_first f seen (x # xs) =
     (if f x \<in> set seen then retain_first f seen xs
      else x # retain_first f (f x # seen) xs)"

subsection \<open>Ordered maps\<close>

type_synonym ('k, 'v) btree = "('k \<times> 'v) list"

fun bt_insert :: "'k::linorder \<Rightarrow> 'v \<Rightarrow> ('k, 'v) btree \<Rightarrow> ('k, 'v) btree" where
  "bt_insert k v [] = [(k, v)]"
| "bt_insert k v ((k', v') # m) =
     (if k < k' then (k, v) # (k', v') # m
      else if k = k' then (k, v) # m
      else (k', v') # bt_insert k v m)"

definition bt_get :: "('k, 'v) btree \<Rightarrow> 'k \<Rightarrow> 'v option" where
  "bt_get m k = map_of m k"

definition bt_contains :: "('k, 'v) btree \<Rightarrow> 'k \<Rightarrow> bool" where
  "bt_contains m k = (k \<in> set (map fst m))"

definition bt_keys :: "('k, 'v) btree \<Rightarrow> 'k list" where
  "bt_keys m = map fst m"

definition bt_wf :: "('k::linorder, 'v) btree \<Rightarrow> bool" where
  "bt_wf m = sorted_wrt (<) (map fst m)"

section \<open>Lemmas\<close>

subsection \<open>Results\<close>

lemma res_bind_simps [simp, result_simps]:
  "res_bind (Inl e) f = Inl e" "res_bind (Inr x) f = f x"
  by (simp_all add: res_bind_def)

lemma res_map_simps [simp, result_simps]:
  "res_map f (Inl e) = Inl e" "res_map f (Inr x) = Inr (f x)"
  by (simp_all add: res_map_def)

lemma map_err_simps [simp, result_simps]:
  "map_err f (Inl e) = Inl (f e)" "map_err f (Inr x) = Inr x"
  by (simp_all add: map_err_def)

lemma is_ok_simps [simp, result_simps]: "is_ok (Inr x)" "\<not> is_ok (Inl e)"
  by (simp_all add: is_ok_def)

lemma ok_or_simps [simp, result_simps]: "ok_or e (Some v) = Inr v" "ok_or e None = Inl e"
  by (simp_all add: ok_or_def)

lemma res_bind_Inr_iff [result_simps]:
  "res_bind r f = Inr y \<longleftrightarrow> (\<exists>x. r = Inr x \<and> f x = Inr y)"
  by (cases r) auto

lemma res_bind_Inl_iff [result_simps]:
  "res_bind r f = Inl e \<longleftrightarrow> r = Inl e \<or> (\<exists>x. r = Inr x \<and> f x = Inl e)"
  by (cases r) auto

lemma map_err_Inr_iff [simp, result_simps]: "map_err f r = Inr x \<longleftrightarrow> r = Inr x"
  by (cases r) auto

lemma map_err_Inl_iff [result_simps]: "map_err f r = Inl e \<longleftrightarrow> (\<exists>e'. r = Inl e' \<and> e = f e')"
  by (cases r) auto

lemma ok_or_Inr_iff [simp, result_simps]: "ok_or e x = Inr v \<longleftrightarrow> x = Some v"
  by (cases x) auto

lemma try_map_Inr_iff: "try_map f xs = Inr ys \<longleftrightarrow> list_all2 (\<lambda>x y. f x = Inr y) xs ys"
proof (induction xs arbitrary: ys)
  case (Cons x xs)
  show ?case
    by (cases ys; cases "f x"; cases "try_map f xs") (auto simp: Cons.IH [symmetric])
qed auto

lemma try_map_all2:
  "try_map f xs = Inr ys \<Longrightarrow> (\<And>x y. f x = Inr y \<Longrightarrow> P x y) \<Longrightarrow> list_all2 P xs ys"
  unfolding try_map_Inr_iff by (rule list_all2_mono)

lemma try_map_length: "try_map f xs = Inr ys \<Longrightarrow> length ys = length xs"
  by (auto simp: try_map_Inr_iff dest: list_all2_lengthD)

lemma try_map_Inr_set: "try_map f xs = Inr ys \<Longrightarrow> y \<in> set ys \<Longrightarrow> \<exists>x \<in> set xs. f x = Inr y"
  by (induction xs arbitrary: ys) (auto split: sum.splits)

lemma try_map_Inr_in: "try_map f xs = Inr ys \<Longrightarrow> x \<in> set xs \<Longrightarrow> \<exists>y \<in> set ys. f x = Inr y"
  by (induction xs arbitrary: ys) (auto split: sum.splits)

lemma try_map_total: "(\<And>x. x \<in> set xs \<Longrightarrow> f x = Inr (g x)) \<Longrightarrow> try_map f xs = Inr (map g xs)"
  by (induction xs) auto

lemma try_map_Inl: "try_map f xs = Inl e \<Longrightarrow> \<exists>x \<in> set xs. f x = Inl e"
  by (induction xs) (auto split: sum.splits)

lemma try_fold_inv:
  assumes "\<And>s x s'. I s \<Longrightarrow> x \<in> set xs \<Longrightarrow> f s x = Inr s' \<Longrightarrow> I s'" "I s" "try_fold f s xs = Inr s'"
  shows "I s'"
  using assms
proof (induction xs arbitrary: s)
  case (Cons x xs)
  obtain s1 where s1: "f s x = Inr s1" "try_fold f s1 xs = Inr s'" using Cons.prems(3) by (auto split: sum.splits)
  have "I s1" using Cons.prems(1) [OF Cons.prems(2) _ s1(1)] by simp
  then show ?case
  proof (rule Cons.IH [rotated, OF _ s1(2)])
    fix t y t'
    assume "I t" "y \<in> set xs" "f t y = Inr t'"
    then show "I t'" using Cons.prems(1) [of t y t'] by simp
  qed
qed simp

lemma try_map_map:
  assumes "try_map f xs = Inr ys" and "\<And>x y. f x = Inr y \<Longrightarrow> h y = g x"
  shows "map h ys = map g xs"
proof -
  have "list_all2 (\<lambda>x y. f x = Inr y) xs ys" using assms(1) by (simp add: try_map_Inr_iff)
  then show ?thesis by (induction rule: list_all2_induct) (auto simp: assms(2))
qed

subsection \<open>Lists\<close>

lemma in_set_enumerateD: "(i, x) \<in> set (enumerate n xs) \<Longrightarrow> x \<in> set xs"
  by (auto simp: in_set_enumerate_eq)

lemma map_snd_fun_enumerate [simp]: "map (\<lambda>x. f (snd x)) (enumerate n xs) = map f xs"
  by (induction xs arbitrary: n) auto

lemma filter_map_swap: "filter P (map f xs) = map f (filter (\<lambda>x. P (f x)) xs)"
  by (induction xs) auto

lemma distinct_mono_subseq: "sorted_wrt R xs \<Longrightarrow> sorted_wrt R (filter P xs)"
  by (induction xs) auto

lemma sorted_wrt_take: "sorted_wrt R xs \<Longrightarrow> sorted_wrt R (take n xs)"
  by (metis append_take_drop_id sorted_wrt_append)

lemma set_takeWhile_sat: "x \<in> set (takeWhile P xs) \<Longrightarrow> P x"
  by (auto dest: set_takeWhileD)

subsection \<open>Keeping the first element of every key\<close>

lemma retain_first_subset: "set (retain_first f seen xs) \<subseteq> set xs"
  by (induction f seen xs rule: retain_first.induct) auto

lemma retain_first_keys:
  "f ` set (retain_first f seen xs) = f ` set xs - set seen"
  by (induction f seen xs rule: retain_first.induct) auto

lemma retain_first_distinct: "distinct (map f (retain_first f seen xs))"
proof (induction f seen xs rule: retain_first.induct)
  case (2 f seen x xs)
  then show ?case
    using retain_first_keys [of f "f x # seen" xs] by (auto simp: image_iff)
qed simp

lemma retain_first_length: "length (retain_first f seen xs) \<le> length xs"
  by (induction f seen xs rule: retain_first.induct) auto

lemma retain_first_sorted: "sorted_wrt R xs \<Longrightarrow> sorted_wrt R (retain_first f seen xs)"
proof (induction f seen xs rule: retain_first.induct)
  case (2 f seen x xs)
  then show ?case using retain_first_subset [of f "f x # seen" xs] by auto
qed simp

lemma retain_first_id:
  "distinct (map f xs) \<Longrightarrow> set (map f xs) \<inter> set seen = {} \<Longrightarrow> retain_first f seen xs = xs"
  by (induction f seen xs rule: retain_first.induct) auto

lemma retain_first_best:
  assumes "sorted_wrt R xs" and "x \<in> set xs" and "f x \<notin> set seen"
  shows "\<exists>y \<in> set (retain_first f seen xs). f y = f x \<and> (y = x \<or> R y x)"
  using assms
proof (induction f seen xs rule: retain_first.induct)
  case (2 f seen z xs)
  show ?case
  proof (cases "f z = f x")
    case True
    with "2.prems" show ?thesis by auto
  next
    case False
    with "2.prems" have "x \<in> set xs" by auto
    with False "2.prems" "2.IH" show ?thesis by (cases "f z \<in> set seen") auto
  qed
qed simp

lemma retain_first_hd:
  "xs \<noteq> [] \<Longrightarrow> hd (retain_first f [] xs) = hd xs \<and> retain_first f [] xs \<noteq> []"
  by (cases xs) auto

lemma retain_first_Nil_iff: "retain_first f [] xs = [] \<longleftrightarrow> xs = []"
  by (cases xs) auto

subsection \<open>Comparators\<close>

lemma rev_ord_rev [simp]: "rev_ord (rev_ord a) = a"
  by (cases a) auto

lemma rev_ord_eq_iff [simp]:
  "rev_ord a = Greater \<longleftrightarrow> a = Less" "rev_ord a = Less \<longleftrightarrow> a = Greater" "rev_ord a = Equal \<longleftrightarrow> a = Equal"
  by (cases a; simp)+

lemma then_with_simps [simp]:
  "then_with Less b = Less" "then_with Equal b = b" "then_with Greater b = Greater"
  by (simp_all add: then_with_def)

lemma rev_ord_then_with: "rev_ord (then_with a b) = then_with (rev_ord a) (rev_ord b)"
  by (cases a) auto

lemma then_with_Greater_iff: "then_with a b = Greater \<longleftrightarrow> a = Greater \<or> (a = Equal \<and> b = Greater)"
  by (cases a) auto

lemma then_with_Equal_iff [simp]: "then_with a b = Equal \<longleftrightarrow> a = Equal \<and> b = Equal"
  by (cases a) auto

lemma cmp_iffs [simp]:
  "cmp x y = Less \<longleftrightarrow> x < y" "cmp x y = Equal \<longleftrightarrow> x = y" "cmp x y = Greater \<longleftrightarrow> y < x"
  by (auto simp: cmp_def)

text \<open>What \<open>sort_by\<close> relies on: the comparator is a total preorder.\<close>

locale rust_cmp =
  fixes c :: "'a \<Rightarrow> 'a \<Rightarrow> ordering"
  assumes cmp_refl: "c x x = Equal"
    and cmp_rev: "c y x = rev_ord (c x y)"
    and cmp_trans: "c x y \<noteq> Greater \<Longrightarrow> c y z \<noteq> Greater \<Longrightarrow> c x z \<noteq> Greater"
begin

lemma le_total: "c x y = Greater \<Longrightarrow> c y x \<noteq> Greater"
  by (simp add: cmp_rev [of x y])

lemma eq_sym: "c x y = Equal \<Longrightarrow> c y x = Equal"
  by (simp add: cmp_rev [of y x])

lemma eq_left:
  assumes "c x y \<noteq> Greater" and "c y z \<noteq> Greater" and "c x z = Equal"
  shows "c x y = Equal \<and> c y z = Equal"
proof -
  have zx: "c z x \<noteq> Greater" using eq_sym [OF assms(3)] by simp
  have "c y x \<noteq> Greater" using cmp_trans [OF assms(2) zx] .
  moreover have "c z y \<noteq> Greater" using cmp_trans [OF zx assms(1)] .
  ultimately show ?thesis
    using assms(1,2) cmp_rev [of y x] cmp_rev [of z y]
    by (cases "c x y"; cases "c y z") auto
qed

lemma set_insert_by: "set (insert_by c x xs) = insert x (set xs)"
  by (induction xs) auto

lemma insert_by_sorted:
  "sorted_wrt (\<lambda>a b. c a b \<noteq> Greater) xs \<Longrightarrow> sorted_wrt (\<lambda>a b. c a b \<noteq> Greater) (insert_by c x xs)"
proof (induction xs)
  case (Cons y ys)
  then show ?case
    using cmp_trans [of x y] le_total [of x y] by (auto simp: set_insert_by)
qed simp

lemma sort_by_sorted: "sorted_wrt (\<lambda>a b. c a b \<noteq> Greater) (sort_by c xs)"
  by (induction xs) (auto simp: sort_by_def insert_by_sorted)

lemma insert_by_stable:
  "filter (\<lambda>b. c a b = Equal) (insert_by c x xs) = filter (\<lambda>b. c a b = Equal) (x # xs)"
proof (induction xs)
  case (Cons y ys)
  have "c a x = Equal \<Longrightarrow> c x y = Greater \<Longrightarrow> c a y \<noteq> Equal"
    using cmp_trans [of x a y] eq_sym [of a x] by auto
  with Cons show ?case by auto
qed simp

lemma sort_by_stable:
  "filter (\<lambda>b. c a b = Equal) (sort_by c xs) = filter (\<lambda>b. c a b = Equal) xs"
proof (induction xs)
  case (Cons x xs)
  then show ?case
    using insert_by_stable [of a x "sort_by c xs"] by (simp add: sort_by_def)
qed (simp add: sort_by_def)

lemma sort_by_id: "sorted_wrt (\<lambda>a b. c a b \<noteq> Greater) xs \<Longrightarrow> sort_by c xs = xs"
proof (induction xs)
  case (Cons x xs)
  then have "sort_by c (x # xs) = insert_by c x xs" by (simp add: sort_by_def)
  with Cons.prems show ?case by (cases xs) auto
qed (simp add: sort_by_def)

end

lemma mset_insert_by [simp]: "mset (insert_by c x xs) = add_mset x (mset xs)"
  by (induction xs) auto

lemma mset_sort_by [simp]: "mset (sort_by c xs) = mset xs"
  by (induction xs) (auto simp: sort_by_def)

lemma set_sort_by [simp]: "set (sort_by c xs) = set xs"
  by (metis mset_sort_by set_mset_mset)

lemma length_sort_by [simp]: "length (sort_by c xs) = length xs"
  by (metis mset_sort_by size_mset)

lemma sort_by_Nil_iff [simp]: "sort_by c xs = [] \<longleftrightarrow> xs = []"
  by (metis length_0_conv length_sort_by)

lemma distinct_map_sort_by [simp]: "distinct (map f (sort_by c xs)) = distinct (map f xs)"
  by (metis mset_eq_imp_distinct_iff mset_map mset_sort_by)

lemma rust_cmp_linorder: "rust_cmp (cmp :: 'a::linorder \<Rightarrow> 'a \<Rightarrow> ordering)"
  by unfold_locales (auto simp: cmp_def split: if_splits)

lemma rust_cmp_key: "rust_cmp c \<Longrightarrow> rust_cmp (\<lambda>x y. c (f x) (f y))"
  unfolding rust_cmp_def by blast

lemma rust_cmp_flip:
  assumes "rust_cmp c"
  shows "rust_cmp (\<lambda>x y. c y x)"
proof
  fix x y z
  show "c x x = Equal" by (rule rust_cmp.cmp_refl [OF assms])
  show "c x y = rev_ord (c y x)" by (rule rust_cmp.cmp_rev [OF assms])
  show "c y x \<noteq> Greater \<Longrightarrow> c z y \<noteq> Greater \<Longrightarrow> c z x \<noteq> Greater"
    by (rule rust_cmp.cmp_trans [OF assms])
qed

lemma rust_cmp_then:
  assumes "rust_cmp c" and "rust_cmp d"
  shows "rust_cmp (\<lambda>x y. then_with (c x y) (d x y))"
proof -
  note c = rust_cmp.cmp_refl [OF assms(1)] rust_cmp.cmp_rev [OF assms(1)]
  note d = rust_cmp.cmp_refl [OF assms(2)] rust_cmp.cmp_rev [OF assms(2)]
  show ?thesis
  proof
    fix x y z
    assume xy: "then_with (c x y) (d x y) \<noteq> Greater" and yz: "then_with (c y z) (d y z) \<noteq> Greater"
    then have le: "c x y \<noteq> Greater" "c y z \<noteq> Greater" by (auto simp: then_with_Greater_iff)
    have "c x z \<noteq> Greater" using rust_cmp.cmp_trans [OF assms(1) le] .
    moreover have "d x z \<noteq> Greater" if "c x z = Equal"
      using rust_cmp.eq_left [OF assms(1) le that] xy yz rust_cmp.cmp_trans [OF assms(2)]
      by (metis then_with_simps(2))
    ultimately show "then_with (c x z) (d x z) \<noteq> Greater" by (auto simp: then_with_Greater_iff)
  qed (auto simp: c(1) d(1) rev_ord_then_with c(2) [symmetric] d(2) [symmetric])
qed

lemmas rust_cmp_intros = rust_cmp_linorder rust_cmp_key rust_cmp_flip rust_cmp_then

subsection \<open>Ordered maps\<close>

text \<open>
  The contract of a \<open>BTreeMap\<close> its clients use: lookups see the last insertion, and the keys
  come out strictly ascending.
\<close>

locale ordered_map =
  fixes empty :: "'m"
    and ins :: "'k::linorder \<Rightarrow> 'v \<Rightarrow> 'm \<Rightarrow> 'm"
    and get :: "'m \<Rightarrow> 'k \<Rightarrow> 'v option"
    and keys :: "'m \<Rightarrow> 'k list"
    and wf :: "'m \<Rightarrow> bool"
  assumes wf_empty: "wf empty"
    and wf_ins: "wf m \<Longrightarrow> wf (ins k v m)"
    and get_empty: "get empty k = None"
    and get_ins: "wf m \<Longrightarrow> get (ins k v m) = (get m)(k \<mapsto> v)"
    and keys_set: "wf m \<Longrightarrow> set (keys m) = dom (get m)"
    and keys_sorted: "wf m \<Longrightarrow> sorted_wrt (<) (keys m)"
begin

lemma keys_distinct: "wf m \<Longrightarrow> distinct (keys m)"
  using keys_sorted strict_sorted_iff by blast

lemma wf_fold: "wf m \<Longrightarrow> wf (fold (\<lambda>(k, v). ins k v) kvs m)"
  by (induction kvs arbitrary: m) (auto simp: wf_ins)

lemma get_fold:
  "wf m \<Longrightarrow> get (fold (\<lambda>(k, v). ins k v) kvs m) k = (case map_of (rev kvs) k of Some v \<Rightarrow> Some v | None \<Rightarrow> get m k)"
proof (induction kvs arbitrary: m)
  case (Cons p kvs)
  then show ?case
    by (cases p) (auto simp: wf_ins get_ins map_add_def split: option.splits)
qed simp

end

lemma bt_insert_keys: "set (map fst (bt_insert k v m)) = insert k (set (map fst m))"
  by (induction k v m rule: bt_insert.induct) auto

lemma bt_insert_wf: "bt_wf m \<Longrightarrow> bt_wf (bt_insert k v m)"
  unfolding bt_wf_def
proof (induction k v m rule: bt_insert.induct)
  case (2 k v k' v' m)
  then show ?case
    using bt_insert_keys [of k v m] by (auto simp del: set_map)
qed simp

lemma bt_insert_get: "bt_wf m \<Longrightarrow> map_of (bt_insert k v m) = (map_of m)(k \<mapsto> v)"
proof (induction k v m rule: bt_insert.induct)
  case (2 k v k' v' m)
  then show ?case by (auto simp: bt_wf_def fun_eq_iff)
qed simp

interpretation bt: ordered_map "[]" bt_insert bt_get bt_keys bt_wf
proof
  fix m :: "('k::linorder, 'v) btree" and k :: 'k and v :: 'v
  show "bt_wf ([] :: ('k, 'v) btree)" by (simp add: bt_wf_def)
  show "bt_get ([] :: ('k, 'v) btree) k = None" by (simp add: bt_get_def)
  show "bt_wf m \<Longrightarrow> bt_wf (bt_insert k v m)" by (rule bt_insert_wf)
  show "bt_wf m \<Longrightarrow> bt_get (bt_insert k v m) = (bt_get m)(k \<mapsto> v)"
    using bt_insert_get [of m k v] by (simp add: fun_eq_iff bt_get_def)
  show "bt_wf m \<Longrightarrow> set (bt_keys m) = dom (bt_get m)"
    by (simp add: bt_keys_def bt_get_def [abs_def] dom_map_of_conv_image_fst)
  show "bt_wf m \<Longrightarrow> sorted_wrt (<) (bt_keys m)" by (simp add: bt_wf_def bt_keys_def)
qed

lemma map_of_rev_distinct: "distinct (map fst xs) \<Longrightarrow> map_of (rev xs) = map_of xs"
proof (induction xs)
  case (Cons a xs)
  then have "map_of xs (fst a) = None" by (simp add: map_of_eq_None_iff)
  with Cons show ?case by (auto simp: map_add_def fun_eq_iff split: option.splits)
qed simp

lemma bt_contains_iff: "bt_contains m k \<longleftrightarrow> bt_get m k \<noteq> None"
  by (simp add: bt_contains_def bt_get_def map_of_eq_None_iff)

end
