(* ===== verification/Rust_Text.thy ===== *)
theory Rust_Text
  imports Yams_Prelude "HOL-Library.Word" "HOL-Library.Sublist"
begin

text \<open>
  Rust strings. A \<open>char\<close> is a Unicode scalar value, kept as its code point in \<open>nat\<close>; a
  \<open>str\<close> is the list of its scalar values, so \<open>chars().count()\<close> is \<open>length\<close> and byte
  lengths are computed by \<open>utf8_len\<close>. A byte offset into a Rust string is modelled by the
  scalar offset of the same boundary, which is a bijection on the boundaries the code slices at.
  The Unicode facts the code relies on and the source spells out (white space, ASCII classes)
  are defined here; the tables it takes from elsewhere (alphanumeric, lower case, general
  category) are parameters of the definitions that use them.
\<close>

section \<open>Definitions\<close>

type_synonym uchar = nat
type_synonym ustr = "uchar list"
type_synonym u8 = "8 word"

definition lit :: "string \<Rightarrow> ustr" where
  "lit s = map of_char s"

abbreviation nl :: uchar where "nl \<equiv> 10"
abbreviation cr :: uchar where "cr \<equiv> 13"
abbreviation tab :: uchar where "tab \<equiv> 9"
abbreviation sp :: uchar where "sp \<equiv> 32"
abbreviation underscore :: uchar where "underscore \<equiv> 95"
abbreviation dash :: uchar where "dash \<equiv> 45"

definition is_scalar :: "uchar \<Rightarrow> bool" where
  "is_scalar c = (c < 0xD800 \<or> (0xE000 \<le> c \<and> c \<le> 0x10FFFF))"

subsection \<open>Character classes\<close>

definition is_whitespace :: "uchar \<Rightarrow> bool" where
  "is_whitespace c =
     ((9 \<le> c \<and> c \<le> 13) \<or> c = 32 \<or> c = 0x85 \<or> c = 0xA0 \<or> c = 0x1680 \<or>
      (0x2000 \<le> c \<and> c \<le> 0x200A) \<or> c = 0x2028 \<or> c = 0x2029 \<or> c = 0x202F \<or> c = 0x205F \<or>
      c = 0x3000)"

definition is_ascii_lowercase :: "uchar \<Rightarrow> bool" where
  "is_ascii_lowercase c = (97 \<le> c \<and> c \<le> 122)"

definition is_ascii_uppercase :: "uchar \<Rightarrow> bool" where
  "is_ascii_uppercase c = (65 \<le> c \<and> c \<le> 90)"

definition is_ascii_digit :: "uchar \<Rightarrow> bool" where
  "is_ascii_digit c = (48 \<le> c \<and> c \<le> 57)"

definition is_ascii_alphabetic :: "uchar \<Rightarrow> bool" where
  "is_ascii_alphabetic c = (is_ascii_lowercase c \<or> is_ascii_uppercase c)"

definition is_ascii_alphanumeric :: "uchar \<Rightarrow> bool" where
  "is_ascii_alphanumeric c = (is_ascii_alphabetic c \<or> is_ascii_digit c)"

definition to_ascii_lowercase :: "uchar \<Rightarrow> uchar" where
  "to_ascii_lowercase c = (if is_ascii_uppercase c then c + 32 else c)"

subsection \<open>UTF-8\<close>

definition utf8_char_len :: "uchar \<Rightarrow> nat" where
  "utf8_char_len c = (if c < 0x80 then 1 else if c < 0x800 then 2 else if c < 0x10000 then 3 else 4)"

definition utf8_len :: "ustr \<Rightarrow> nat" where
  "utf8_len s = sum_list (map utf8_char_len s)"

definition utf8_char :: "uchar \<Rightarrow> u8 list" where
  "utf8_char c =
     map of_nat
      (if c < 0x80 then [c]
       else if c < 0x800 then [0xC0 + c div 64, 0x80 + c mod 64]
       else if c < 0x10000 then [0xE0 + c div 4096, 0x80 + c div 64 mod 64, 0x80 + c mod 64]
       else [0xF0 + c div 262144, 0x80 + c div 4096 mod 64, 0x80 + c div 64 mod 64, 0x80 + c mod 64])"

definition as_bytes :: "ustr \<Rightarrow> u8 list" where
  "as_bytes s = concat (map utf8_char s)"

text \<open>\<open>std::str::from_utf8\<close>: shortest forms only, no surrogates, nothing above U+10FFFF.\<close>

definition is_cont :: "nat \<Rightarrow> bool" where
  "is_cont b = (0x80 \<le> b \<and> b \<le> 0xBF)"

fun utf8_decode :: "nat list \<Rightarrow> ustr option" where
  "utf8_decode [] = Some []"
| "utf8_decode (a # r) =
     (if a < 0x80 then map_option (Cons a) (utf8_decode r)
      else if 0xC2 \<le> a \<and> a \<le> 0xDF
      then (case r of
              b # r' \<Rightarrow> if is_cont b then map_option (Cons ((a - 0xC0) * 64 + (b - 0x80))) (utf8_decode r') else None
            | _ \<Rightarrow> None)
      else if 0xE0 \<le> a \<and> a \<le> 0xEF
      then (case r of
              b # c # r' \<Rightarrow>
                if is_cont b \<and> is_cont c \<and> (a = 0xE0 \<longrightarrow> 0xA0 \<le> b) \<and> (a = 0xED \<longrightarrow> b \<le> 0x9F)
                then map_option (Cons ((a - 0xE0) * 4096 + (b - 0x80) * 64 + (c - 0x80))) (utf8_decode r') else None
            | _ \<Rightarrow> None)
      else if 0xF0 \<le> a \<and> a \<le> 0xF4
      then (case r of
              b # c # d # r' \<Rightarrow>
                if is_cont b \<and> is_cont c \<and> is_cont d \<and> (a = 0xF0 \<longrightarrow> 0x90 \<le> b) \<and> (a = 0xF4 \<longrightarrow> b \<le> 0x8F)
                then map_option (Cons ((a - 0xF0) * 262144 + (b - 0x80) * 4096 + (c - 0x80) * 64 + (d - 0x80)))
                       (utf8_decode r') else None
            | _ \<Rightarrow> None)
      else None)"

definition from_utf8 :: "u8 list \<Rightarrow> ustr option" where
  "from_utf8 bytes = utf8_decode (map unat bytes)"

subsection \<open>Trimming, joining and splitting\<close>

definition trim_start_matches :: "(uchar \<Rightarrow> bool) \<Rightarrow> ustr \<Rightarrow> ustr" where
  "trim_start_matches P s = dropWhile P s"

definition trim_end_matches :: "(uchar \<Rightarrow> bool) \<Rightarrow> ustr \<Rightarrow> ustr" where
  "trim_end_matches P s = rev (dropWhile P (rev s))"

definition trim_matches :: "(uchar \<Rightarrow> bool) \<Rightarrow> ustr \<Rightarrow> ustr" where
  "trim_matches P s = trim_end_matches P (trim_start_matches P s)"

definition trim :: "ustr \<Rightarrow> ustr" where
  "trim s = trim_matches is_whitespace s"

fun join :: "'a list \<Rightarrow> 'a list list \<Rightarrow> 'a list" where
  "join sep [] = []"
| "join sep [x] = x"
| "join sep (x # y # xs) = x @ sep @ join sep (y # xs)"

fun split_on :: "'a \<Rightarrow> 'a list \<Rightarrow> 'a list list" where
  "split_on c [] = [[]]"
| "split_on c (x # xs) =
     (if x = c then [] # split_on c xs
      else (case split_on c xs of [] \<Rightarrow> [[x]] | y # ys \<Rightarrow> (x # y) # ys))"

fun split_once :: "'a \<Rightarrow> 'a list \<Rightarrow> ('a list \<times> 'a list) option" where
  "split_once c [] = None"
| "split_once c (x # xs) =
     (if x = c then Some ([], xs)
      else map_option (\<lambda>(a, b). (x # a, b)) (split_once c xs))"

definition strip_prefix :: "'a list \<Rightarrow> 'a list \<Rightarrow> 'a list option" where
  "strip_prefix p s = (if prefix p s then Some (drop (length p) s) else None)"

text \<open>\<open>s.chars().position(..)\<close> and \<open>rposition\<close>.\<close>

fun position :: "('a \<Rightarrow> bool) \<Rightarrow> 'a list \<Rightarrow> nat option" where
  "position P [] = None"
| "position P (x # xs) = (if P x then Some 0 else map_option Suc (position P xs))"

fun rposition :: "('a \<Rightarrow> bool) \<Rightarrow> 'a list \<Rightarrow> nat option" where
  "rposition P [] = None"
| "rposition P (x # xs) =
     (case rposition P xs of Some i \<Rightarrow> Some (Suc i) | None \<Rightarrow> if P x then Some 0 else None)"

text \<open>The maximal runs between separators.\<close>

fun split_by :: "('a \<Rightarrow> bool) \<Rightarrow> 'a list \<Rightarrow> 'a list list" where
  "split_by P [] = [[]]"
| "split_by P (x # xs) =
     (if P x then [] # split_by P xs
      else (case split_by P xs of [] \<Rightarrow> [[x]] | y # ys \<Rightarrow> (x # y) # ys))"

section \<open>Lemmas\<close>

lemma lit_Nil [simp]: "lit [] = []"
  by (simp add: lit_def)

lemma lit_append: "lit (a @ b) = lit a @ lit b"
  by (simp add: lit_def)

lemma length_lit [simp]: "length (lit s) = length s"
  by (simp add: lit_def)

lemma lit_inject [simp]: "lit a = lit b \<longleftrightarrow> a = b"
  unfolding lit_def by (simp add: inj_map_eq_map inj_on_def)

subsection \<open>UTF-8 lengths\<close>

lemma utf8_len_Nil [simp]: "utf8_len [] = 0"
  by (simp add: utf8_len_def)

lemma utf8_len_append [simp]: "utf8_len (a @ b) = utf8_len a + utf8_len b"
  by (simp add: utf8_len_def)

lemma utf8_len_Cons [simp]: "utf8_len (c # s) = utf8_char_len c + utf8_len s"
  by (simp add: utf8_len_def)

lemma utf8_char_len_bounds: "1 \<le> utf8_char_len c" "utf8_char_len c \<le> 4"
  by (simp_all add: utf8_char_len_def)

lemma length_utf8_char [simp]: "length (utf8_char c) = utf8_char_len c"
  by (simp add: utf8_char_def utf8_char_len_def)

lemma length_as_bytes [simp]: "length (as_bytes s) = utf8_len s"
  by (simp add: as_bytes_def utf8_len_def length_concat comp_def)

lemma utf8_len_ge_length: "length s \<le> utf8_len s"
proof (induction s)
  case (Cons c s)
  then show ?case using utf8_char_len_bounds(1) [of c] by simp
qed simp

lemma as_bytes_append [simp]: "as_bytes (a @ b) = as_bytes a @ as_bytes b"
  by (simp add: as_bytes_def)

lemma unat_of_nat_u8: "n < 256 \<Longrightarrow> unat (of_nat n :: u8) = n"
  by (simp add: unat_of_nat take_bit_nat_eq_self)

lemma map_unat_of_nat_u8: "\<forall>n \<in> set ns. n < 256 \<Longrightarrow> map unat (map of_nat ns :: u8 list) = ns"
  by (induction ns) (simp_all add: unat_of_nat_u8 del: of_nat_add)

lemma utf8_decode_2:
  "2 \<le> a \<Longrightarrow> a < 32 \<Longrightarrow> b < 64
   \<Longrightarrow> utf8_decode ((0xC0 + a) # (0x80 + b) # r) = map_option (Cons (a * 64 + b)) (utf8_decode r)"
  by (simp add: is_cont_def)

lemma utf8_decode_3:
  "a < 16 \<Longrightarrow> b < 64 \<Longrightarrow> d < 64 \<Longrightarrow> a = 0 \<longrightarrow> 32 \<le> b \<Longrightarrow> a = 13 \<longrightarrow> b < 32
   \<Longrightarrow> utf8_decode ((0xE0 + a) # (0x80 + b) # (0x80 + d) # r)
        = map_option (Cons (a * 4096 + b * 64 + d)) (utf8_decode r)"
  by (auto simp: is_cont_def)

lemma utf8_decode_4:
  "a \<le> 4 \<Longrightarrow> b < 64 \<Longrightarrow> d < 64 \<Longrightarrow> e < 64 \<Longrightarrow> a = 0 \<longrightarrow> 16 \<le> b \<Longrightarrow> a = 4 \<longrightarrow> b < 16
   \<Longrightarrow> utf8_decode ((0xF0 + a) # (0x80 + b) # (0x80 + d) # (0x80 + e) # r)
        = map_option (Cons (a * 262144 + b * 4096 + d * 64 + e)) (utf8_decode r)"
  by (auto simp: is_cont_def)

lemma utf8_decode_char:
  assumes "is_scalar c"
  shows "utf8_decode (map unat (utf8_char c) @ r) = map_option (Cons c) (utf8_decode r)"
proof -
  consider "c < 0x80" | "0x80 \<le> c" "c < 0x800" | "0x800 \<le> c" "c < 0x10000" "c < 0xD800 \<or> 0xE000 \<le> c"
    | "0x10000 \<le> c" "c \<le> 0x10FFFF"
    using assms by (force simp: is_scalar_def)
  then show ?thesis
  proof cases
    case 1
    then show ?thesis by (simp add: utf8_char_def unat_of_nat_u8)
  next
    case 2
    have n: "2 \<le> c div 64" "c div 64 < 32" "c mod 64 < 64" "c div 64 * 64 + c mod 64 = c" using 2 by auto
    have "utf8_char c = map of_nat [0xC0 + c div 64, 0x80 + c mod 64]"
      using 2(1,2) by (simp add: utf8_char_def del: list.map of_nat_add)
    then have "map unat (utf8_char c) = [0xC0 + c div 64, 0x80 + c mod 64]"
      using n by (simp only:) (rule map_unat_of_nat_u8, fastforce intro: less_le_trans)
    then show ?thesis using utf8_decode_2 [OF n(1-3)] n(4) by simp
  next
    case 3
    let ?a = "c div 4096" and ?b = "c div 64 mod 64" and ?d = "c mod 64"
    have x: "c div 64 * 64 + ?d = c" "?a * 64 + ?b = c div 64" "?b < 64" "?d < 64"
      using div_mult2_eq [of c 64 64] by simp_all
    have n: "?a < 16" "?b < 64" "?d < 64" "?a = 0 \<longrightarrow> 32 \<le> ?b" "?a = 13 \<longrightarrow> ?b < 32"
      using 3 x by linarith+
    have v: "?a * 4096 + ?b * 64 + ?d = c" using x by linarith
    have "utf8_char c = map of_nat [0xE0 + ?a, 0x80 + ?b, 0x80 + ?d]"
      using 3(1,2) by (simp add: utf8_char_def del: list.map of_nat_add)
    then have "map unat (utf8_char c) = [0xE0 + ?a, 0x80 + ?b, 0x80 + ?d]"
      using n by (simp only:) (rule map_unat_of_nat_u8, fastforce intro: less_le_trans)
    then show ?thesis using utf8_decode_3 [OF n] v by simp
  next
    case 4
    let ?a = "c div 262144" and ?b = "c div 4096 mod 64" and ?c = "c div 64 mod 64" and ?d = "c mod 64"
    have x: "c div 64 * 64 + ?d = c" "c div 4096 * 64 + ?c = c div 64" "?a * 64 + ?b = c div 4096"
      "?b < 64" "?c < 64" "?d < 64"
      using div_mult2_eq [of c 64 64] div_mult2_eq [of c 4096 64] by simp_all
    have n: "?a \<le> 4" "?b < 64" "?c < 64" "?d < 64" "?a = 0 \<longrightarrow> 16 \<le> ?b" "?a = 4 \<longrightarrow> ?b < 16"
      using 4 x by linarith+
    have v: "?a * 262144 + ?b * 4096 + ?c * 64 + ?d = c" using x by linarith
    have "utf8_char c = map of_nat [0xF0 + ?a, 0x80 + ?b, 0x80 + ?c, 0x80 + ?d]"
      using 4(1,2) by (simp add: utf8_char_def del: list.map of_nat_add)
    then have "map unat (utf8_char c) = [0xF0 + ?a, 0x80 + ?b, 0x80 + ?c, 0x80 + ?d]"
      using n by (simp only:) (rule map_unat_of_nat_u8, fastforce intro: less_le_trans)
    then show ?thesis using utf8_decode_4 [OF n] v by simp
  qed
qed

lemma from_utf8_as_bytes: "\<forall>c \<in> set s. is_scalar c \<Longrightarrow> from_utf8 (as_bytes s) = Some s"
proof -
  have "\<forall>c \<in> set s. is_scalar c \<Longrightarrow> utf8_decode (map unat (as_bytes s)) = Some s"
    by (induction s) (auto simp: as_bytes_def utf8_decode_char simp del: utf8_decode.simps(2))
  then show "\<forall>c \<in> set s. is_scalar c \<Longrightarrow> from_utf8 (as_bytes s) = Some s" by (simp add: from_utf8_def)
qed

subsection \<open>Trimming\<close>

lemma dropWhile_suffix: "\<exists>a. xs = a @ dropWhile P xs \<and> (\<forall>x \<in> set a. P x)"
  by (metis set_takeWhileD takeWhile_dropWhile_id)

lemma trim_end_matches_decomp:
  "\<exists>b. s = trim_end_matches P s @ b \<and> (\<forall>c \<in> set b. P c)"
proof -
  obtain a where a: "rev s = a @ dropWhile P (rev s)" "\<forall>x \<in> set a. P x"
    using dropWhile_suffix [of "rev s" P] by blast
  then have "s = rev (dropWhile P (rev s)) @ rev a" by (metis rev_append rev_rev_ident)
  with a(2) show ?thesis unfolding trim_end_matches_def by (metis set_rev)
qed

lemma trim_matches_decomp:
  "\<exists>a b. s = a @ trim_matches P s @ b \<and> (\<forall>c \<in> set a. P c) \<and> (\<forall>c \<in> set b. P c)"
proof -
  obtain a where a: "s = a @ dropWhile P s" "\<forall>c \<in> set a. P c"
    using dropWhile_suffix [of s P] by blast
  obtain b where b: "dropWhile P s = trim_matches P s @ b" "\<forall>c \<in> set b. P c"
    using trim_end_matches_decomp [of "dropWhile P s" P]
    by (auto simp: trim_matches_def trim_start_matches_def)
  from a b show ?thesis by metis
qed

lemma trim_matches_eq_Nil_iff: "trim_matches P s = [] \<longleftrightarrow> (\<forall>c \<in> set s. P c)"
  by (auto simp: trim_matches_def trim_end_matches_def trim_start_matches_def dropWhile_eq_Nil_conv
           dest: set_dropWhileD)
     (metis dropWhile_eq_Nil_conv hd_dropWhile hd_in_set)

lemma trim_eq_Nil_iff: "trim s = [] \<longleftrightarrow> (\<forall>c \<in> set s. is_whitespace c)"
  by (simp add: trim_def trim_matches_eq_Nil_iff)

lemma trim_matches_hd: "trim_matches P s \<noteq> [] \<Longrightarrow> \<not> P (hd (trim_matches P s))"
proof -
  assume ne: "trim_matches P s \<noteq> []"
  obtain b where b: "dropWhile P s = trim_matches P s @ b"
    using trim_end_matches_decomp [of "dropWhile P s" P]
    by (auto simp: trim_matches_def trim_start_matches_def)
  with ne have "hd (trim_matches P s) = hd (dropWhile P s)" "dropWhile P s \<noteq> []" by auto
  then show ?thesis by (simp add: hd_dropWhile)
qed

lemma trim_matches_last: "trim_matches P s \<noteq> [] \<Longrightarrow> \<not> P (last (trim_matches P s))"
  unfolding trim_matches_def trim_end_matches_def by (simp add: last_rev hd_dropWhile)

lemma length_trim_le: "length (trim s) \<le> length s"
proof -
  obtain a b where "s = a @ trim s @ b" using trim_matches_decomp [of s is_whitespace]
    by (auto simp: trim_def)
  then have "length s = length a + length (trim s) + length b"
    by (metis add.assoc length_append)
  then show ?thesis by simp
qed

subsection \<open>Joining and splitting\<close>

lemma split_on_ne [simp]: "split_on c s \<noteq> []"
  by (induction s) (auto split: list.splits)

lemma join_Cons: "xs \<noteq> [] \<Longrightarrow> join sep (x # xs) = x @ sep @ join sep xs"
  by (cases xs) auto

lemma join_split_on [simp]: "join [c] (split_on c s) = s"
proof (induction s)
  case (Cons x s)
  then show ?case
    by (cases "split_on c s") (auto simp: join_Cons, metis append_Cons append_Nil join.simps(2) join_Cons)
qed simp

lemma split_on_no_sep: "p \<in> set (split_on c s) \<Longrightarrow> c \<notin> set p"
  by (induction s arbitrary: p) (auto split: list.splits if_splits)

lemma split_on_no_occurrence: "c \<notin> set s \<Longrightarrow> split_on c s = [s]"
  by (induction s) auto

lemma split_on_append_sep: "split_on c (a @ c # b) = split_on c a @ split_on c b"
  by (induction a) (auto split: list.splits)

lemma split_on_join:
  "xs \<noteq> [] \<Longrightarrow> (\<And>x. x \<in> set xs \<Longrightarrow> c \<notin> set x) \<Longrightarrow> split_on c (join [c] xs) = xs"
proof (induction "[c]" xs rule: join.induct)
  case (3 x y xs)
  then show ?case by (simp add: split_on_append_sep split_on_no_occurrence)
qed (auto simp: split_on_no_occurrence)

lemma split_once_Some: "split_once c s = Some (a, b) \<Longrightarrow> s = a @ c # b \<and> c \<notin> set a"
  by (induction s arbitrary: a) (auto split: if_splits)

lemma split_once_None_iff: "split_once c s = None \<longleftrightarrow> c \<notin> set s"
  by (induction s) auto

lemma split_once_first: "c \<notin> set a \<Longrightarrow> split_once c (a @ c # b) = Some (a, b)"
  by (induction a) auto

lemma split_by_ne [simp]: "split_by P s \<noteq> []"
  by (induction s) (auto split: list.splits)

lemma split_by_all: "\<forall>c \<in> set a. \<not> P c \<Longrightarrow> P c \<Longrightarrow> split_by P (a @ c # b) = a # split_by P b"
  by (induction a) auto

lemma split_by_none: "\<forall>c \<in> set a. \<not> P c \<Longrightarrow> split_by P a = [a]"
  by (induction a) auto

lemma split_by_word: "w \<in> set (split_by P s) \<Longrightarrow> x \<in> set w \<Longrightarrow> \<not> P x \<and> x \<in> set s"
proof (induction s arbitrary: w)
  case (Cons c s)
  show ?case
  proof (cases "split_by P s")
    case ys: (Cons y ys)
    have "x \<in> set y \<Longrightarrow> \<not> P x \<and> x \<in> set s" using Cons.IH [of y] ys by simp
    moreover have "w \<in> set ys \<Longrightarrow> \<not> P x \<and> x \<in> set s" using Cons.IH [of w] ys Cons.prems by simp
    moreover have "w = y \<Longrightarrow> \<not> P x \<and> x \<in> set s" using Cons.IH [of w] ys Cons.prems by simp
    ultimately show ?thesis using ys Cons.prems by (auto split: if_splits)
  qed simp
qed simp

lemma split_by_decomp:
  "(\<forall>c \<in> set s. \<not> P c) \<or> (\<exists>a c b. s = a @ c # b \<and> (\<forall>x \<in> set a. \<not> P x) \<and> P c)"
  using split_list_first_prop by (metis (no_types))

lemma split_by_join:
  assumes "P c" "\<And>t x. t \<in> set ts \<Longrightarrow> x \<in> set t \<Longrightarrow> \<not> P x"
  shows "split_by P (join [c] ts) = (if ts = [] then [[]] else ts)"
  using assms(2)
proof (induction "[c]" ts rule: join.induct)
  case (3 x y xs)
  have "\<forall>z \<in> set x. \<not> P z" using 3(2) [of x] by simp
  moreover have "split_by P (join [c] (y # xs)) = y # xs" using 3(1) 3(2) by fastforce
  ultimately show ?case using split_by_all [of x P c] assms(1) by simp
qed (auto simp: split_by_none)

lemma split_by_snoc:
  "split_by P (s @ [c]) =
     (if P c then split_by P s @ [[]] else butlast (split_by P s) @ [last (split_by P s) @ [c]])"
  by (induction s) (auto split: list.splits)

lemma join_snoc: "join d (xs @ [x]) = (if xs = [] then x else join d xs @ d @ x)"
  by (induction xs) (auto simp: join_Cons)

lemma join_Nil_iff: "(\<forall>w \<in> set ws. w \<noteq> []) \<Longrightarrow> join d ws = [] \<longleftrightarrow> ws = []"
  by (induction d ws rule: join.induct) auto

subsection \<open>Positions\<close>

lemma position_Some:
  "position P xs = Some i \<Longrightarrow> i < length xs \<and> P (xs ! i) \<and> (\<forall>j < i. \<not> P (xs ! j))"
proof (induction xs arbitrary: i)
  case (Cons x xs)
  then show ?case by (auto split: if_splits simp: nth_Cons split: nat.splits)
qed simp

lemma position_None_iff: "position P xs = None \<longleftrightarrow> (\<forall>x \<in> set xs. \<not> P x)"
  by (induction xs) auto

lemma rposition_Some:
  "rposition P xs = Some i \<Longrightarrow> i < length xs \<and> P (xs ! i) \<and> (\<forall>j < length xs. i < j \<longrightarrow> \<not> P (xs ! j))"
proof (induction xs arbitrary: i)
  case (Cons x xs)
  show ?case
  proof (cases "rposition P xs")
    case None
    then have "\<forall>y \<in> set xs. \<not> P y" by (induction xs) (auto split: option.splits)
    with Cons.prems None show ?thesis by (auto split: if_splits simp: nth_Cons split: nat.splits)
  next
    case (Some k)
    with Cons show ?thesis by (auto simp: nth_Cons split: nat.splits)
  qed
qed simp

lemma rposition_None_iff: "rposition P xs = None \<longleftrightarrow> (\<forall>x \<in> set xs. \<not> P x)"
  by (induction xs) (auto split: option.splits)

end
