(* ===== verification/Rust_Path.thy ===== *)
theory Rust_Path
  imports Rust_Text
begin

text \<open>
  Unix paths as \<open>std::path\<close> reads them: the component iterator (which drops repeated
  separators, inner and trailing \<open>.\<close> and a trailing separator), \<open>is_absolute\<close>, \<open>file_name\<close>,
  \<open>file_stem\<close> and the path collected back from its components. Paths are valid UTF-8 text here.
\<close>

section \<open>Definitions\<close>

abbreviation slash :: uchar where "slash \<equiv> 47"
abbreviation dot :: uchar where "dot \<equiv> 46"

datatype component = RootDir | CurDir | ParentDir | Normal ustr

definition is_absolute :: "ustr \<Rightarrow> bool" where
  "is_absolute p = (\<exists>r. p = slash # r)"

definition component_of :: "ustr \<Rightarrow> component" where
  "component_of s = (if s = [dot, dot] then ParentDir else Normal s)"

definition body_components :: "ustr list \<Rightarrow> component list" where
  "body_components ss = map component_of (filter (\<lambda>s. s \<noteq> [] \<and> s \<noteq> [dot]) ss)"

definition components :: "ustr \<Rightarrow> component list" where
  "components p =
     (case p of
        [] \<Rightarrow> []
      | c # r \<Rightarrow>
          if c = slash then RootDir # body_components (split_on slash r)
          else (if hd (split_on slash p) = [dot] then [CurDir] else [])
               @ body_components (split_on slash p))"

fun component_text :: "component \<Rightarrow> ustr" where
  "component_text RootDir = []"
| "component_text CurDir = [dot]"
| "component_text ParentDir = [dot, dot]"
| "component_text (Normal s) = s"

text \<open>\<open>components().collect::<PathBuf>()\<close>: push each component, one separator between two.\<close>

definition collect_path :: "component list \<Rightarrow> ustr" where
  "collect_path cs =
     (case cs of
        [] \<Rightarrow> []
      | RootDir # rest \<Rightarrow> slash # join [slash] (map component_text rest)
      | _ \<Rightarrow> join [slash] (map component_text cs))"

definition file_name :: "ustr \<Rightarrow> ustr option" where
  "file_name p =
     (case components p of [] \<Rightarrow> None
      | cs \<Rightarrow> (case last cs of Normal s \<Rightarrow> Some s | _ \<Rightarrow> None))"

text \<open>The stem ends before the last dot, unless that dot opens the name or there is none.\<close>

definition stem_of :: "ustr \<Rightarrow> ustr" where
  "stem_of name =
     (case rposition (\<lambda>c. c = dot) name of None \<Rightarrow> name
      | Some i \<Rightarrow> if i = 0 then name else take i name)"

definition file_stem :: "ustr \<Rightarrow> ustr option" where
  "file_stem p = map_option stem_of (file_name p)"

section \<open>Lemmas\<close>

lemma is_absolute_iff: "is_absolute p \<longleftrightarrow> p \<noteq> [] \<and> hd p = slash"
  by (cases p) (auto simp: is_absolute_def)

lemma is_absolute_code [code]: "is_absolute p = (case p of [] \<Rightarrow> False | c # _ \<Rightarrow> c = slash)"
  by (cases p) (auto simp: is_absolute_def)

lemma components_absolute: "is_absolute p \<Longrightarrow> \<exists>cs. components p = RootDir # cs"
  by (cases p) (auto simp: is_absolute_def components_def)

lemma body_components_no_root:
  "RootDir \<notin> set (body_components ss)" "CurDir \<notin> set (body_components ss)"
  by (auto simp: body_components_def component_of_def split: if_splits)

lemma body_components_Normal:
  "(\<forall>s \<in> set ss. s \<noteq> [] \<and> s \<noteq> [dot] \<and> s \<noteq> [dot, dot]) \<Longrightarrow> body_components ss = map Normal ss"
  by (induction ss) (auto simp: body_components_def component_of_def)

lemma body_components_normal_iff:
  "Normal s \<in> set (body_components ss) \<Longrightarrow> s \<in> set ss \<and> s \<noteq> [] \<and> s \<noteq> [dot] \<and> s \<noteq> [dot, dot]"
  by (auto simp: body_components_def component_of_def split: if_splits)

lemma length_stem_of: "length (stem_of name) \<le> length name"
  by (simp add: stem_of_def split: option.splits)

end
