(* ===== verification/Frontmatter.thy ===== *)
theory Frontmatter
  imports Rust_Path
begin

text \<open>
  Frontmatter parsing of a memory page (\<open>crates/yams-core/src/frontmatter.rs\<close>): the line
  splitter that keeps the source offset after every separator, the scalar field grammar, the
  parser with its fall-back to the untouched source, and the page title.
  The splitter is proved equal to a one-pass reading of Python's \<open>str.splitlines\<close>, the body is
  proved to be an unmodified suffix of the source, and a rendered block parses back.
\<close>

section \<open>Model\<close>

definition MAX_TITLE_CHARS :: nat where "MAX_TITLE_CHARS = 200"

record parsed_page =
  page_fields :: "(ustr, ustr) btree"
  page_body :: ustr

record line =
  content :: ustr
  separator_end :: nat

definition is_blank :: "line \<Rightarrow> bool" where
  "is_blank l = (trim (content l) = [])"

definition slice :: "'a list \<Rightarrow> nat \<Rightarrow> nat \<Rightarrow> 'a list" where
  "slice s a b = take (b - a) (drop a s)"

text \<open>\<open>str::lines\<close>: a line ends at \<open>\n\<close> or \<open>\r\n\<close>; a final unterminated line is kept whole.\<close>

definition strip_cr :: "ustr \<Rightarrow> ustr" where
  "strip_cr s = (if s \<noteq> [] \<and> last s = cr then butlast s else s)"

definition str_lines :: "ustr \<Rightarrow> ustr list" where
  "str_lines s =
     (let ss = split_on nl s
      in map strip_cr (butlast ss) @ (if last ss = [] then [] else [last ss]))"

definition explicit_separator :: "uchar \<Rightarrow> bool" where
  "explicit_separator ch =
     (ch \<in> {cr, 0x0b, 0x0c, 0x1c, 0x1d, 0x1e, 0x85, 0x2028, 0x2029})"

function explicit_loop :: "ustr \<Rightarrow> nat \<Rightarrow> nat \<Rightarrow> nat \<Rightarrow> nat \<Rightarrow> line list" where
  "explicit_loop source line_start index stop native_separator_len =
     (if index < stop then
        (if explicit_separator (source ! index)
         then \<lparr>content = slice source line_start index, separator_end = index + 1\<rparr>
              # explicit_loop source (index + 1) (index + 1) stop native_separator_len
         else explicit_loop source line_start (index + 1) stop native_separator_len)
      else if line_start < stop \<or> 0 < native_separator_len
      then [\<lparr>content = slice source line_start stop, separator_end = stop + native_separator_len\<rparr>]
      else [])"
  by pat_completeness auto
termination
  by (relation "measure (\<lambda>(_, _, index, stop, _). stop - index)") auto

definition append_explicitly_separated_lines ::
    "ustr \<Rightarrow> nat \<Rightarrow> nat \<Rightarrow> nat \<Rightarrow> line list \<Rightarrow> line list" where
  "append_explicitly_separated_lines source start stop native_separator_len lines =
     lines @ explicit_loop source start start stop native_separator_len"

definition native_separator_len :: "ustr \<Rightarrow> nat" where
  "native_separator_len rest =
     (if prefix [cr, nl] rest then 2 else if prefix [nl] rest then 1 else 0)"

fun native_loop :: "ustr \<Rightarrow> nat \<Rightarrow> line list \<Rightarrow> ustr list \<Rightarrow> line list" where
  "native_loop source cursor lines [] = lines"
| "native_loop source cursor lines (native_line # rest) =
     (let native_end = cursor + length native_line;
          sep_len = native_separator_len (drop native_end source)
      in native_loop source (native_end + sep_len)
           (append_explicitly_separated_lines source cursor native_end sep_len lines) rest)"

definition lines_with_separators :: "ustr \<Rightarrow> line list" where
  "lines_with_separators source = native_loop source 0 [] (str_lines source)"

definition legal_key :: "ustr \<Rightarrow> bool" where
  "legal_key key =
     (case key of [] \<Rightarrow> False
      | first # rest \<Rightarrow>
          (is_ascii_alphabetic first \<or> first = underscore) \<and>
          (\<forall>ch \<in> set rest. is_ascii_alphanumeric ch \<or> ch = underscore \<or> ch = dot \<or> ch = dash))"

definition field_line :: "ustr \<Rightarrow> (ustr \<times> ustr) option" where
  "field_line line =
     (case split_once 58 line of None \<Rightarrow> None
      | Some (key, value) \<Rightarrow> if legal_key key then Some (key, trim value) else None)"

definition unquote :: "ustr \<Rightarrow> ustr" where
  "unquote value =
     (if 2 \<le> length value \<and> ((hd value = 39 \<and> last value = 39) \<or> (hd value = 34 \<and> last value = 34))
      then butlast (tl value) else value)"

definition default_with_source :: "ustr \<Rightarrow> parsed_page" where
  "default_with_source source = \<lparr>page_fields = [], page_body = source\<rparr>"

text \<open>The loop over the lines between the fences; \<open>None\<close> is the early return of the source.\<close>

fun field_loop :: "(ustr, ustr) btree \<Rightarrow> line list \<Rightarrow> (ustr, ustr) btree option" where
  "field_loop fs [] = Some fs"
| "field_loop fs (l # ls) =
     (if is_blank l then None
      else if content l \<noteq> [] \<and> hd (content l) \<in> {sp, tab} then
        (if fs = [] then None else field_loop fs ls)
      else (case field_line (content l) of None \<Rightarrow> None
            | Some (key, value) \<Rightarrow> field_loop (bt_insert key (unquote value) fs) ls))"

fun body_start_loop :: "nat \<Rightarrow> line list \<Rightarrow> nat" where
  "body_start_loop start [] = start"
| "body_start_loop start (l # ls) =
     (if content l \<noteq> [] then start else body_start_loop (separator_end l) ls)"

abbreviation fence :: ustr where "fence \<equiv> [dash, dash, dash]"

abbreviation bom :: uchar where "bom \<equiv> 0xFEFF"

definition parse_source :: "ustr \<Rightarrow> ustr" where
  "parse_source source = (case strip_prefix [bom] source of None \<Rightarrow> source | Some s \<Rightarrow> s)"

definition parse_frontmatter :: "ustr \<Rightarrow> parsed_page" where
  "parse_frontmatter source =
     (let src = parse_source source; lines = lines_with_separators src
      in case lines of
           [] \<Rightarrow> default_with_source source
         | l0 # rest \<Rightarrow>
             if content l0 \<noteq> fence then default_with_source source
             else case position (\<lambda>l. content l = fence) rest of
               None \<Rightarrow> default_with_source source
             | Some i \<Rightarrow>
                 (case field_loop [] (take i rest) of
                    None \<Rightarrow> default_with_source source
                  | Some fs \<Rightarrow>
                      if fs = [] then default_with_source source
                      else \<lparr>page_fields = fs,
                            page_body = drop (body_start_loop (separator_end (rest ! i)) (drop (i + 1) rest)) src\<rparr>))"

definition truncate_chars :: "ustr \<Rightarrow> nat \<Rightarrow> ustr" where
  "truncate_chars text maximum = (if maximum < length text then take maximum text else text)"

definition filename_title :: "ustr \<Rightarrow> ustr" where
  "filename_title path =
     map (\<lambda>c. if c = dash \<or> c = underscore then sp else c)
         (case file_stem path of None \<Rightarrow> [] | Some s \<Rightarrow> s)"

definition nonempty_field :: "(ustr, ustr) btree \<Rightarrow> ustr \<Rightarrow> ustr option" where
  "nonempty_field fs k = (case bt_get fs k of Some v \<Rightarrow> if v = [] then None else Some v | None \<Rightarrow> None)"

definition title_for :: "ustr \<Rightarrow> (ustr, ustr) btree \<Rightarrow> ustr" where
  "title_for path fs =
     truncate_chars
       (case nonempty_field fs (lit ''title'') of Some v \<Rightarrow> v
        | None \<Rightarrow> (case nonempty_field fs (lit ''name'') of Some v \<Rightarrow> v
                   | None \<Rightarrow> filename_title path))
       MAX_TITLE_CHARS"

section \<open>Reference reading of the line splitter\<close>

text \<open>
  Python's \<open>splitlines(keepends=True)\<close> in one pass: every line with its separator, where
  \<open>\r\n\<close> is one separator.
\<close>

fun split_lines :: "ustr \<Rightarrow> ustr \<Rightarrow> (ustr \<times> ustr) list" where
  "split_lines cur [] = (if cur = [] then [] else [(cur, [])])"
| "split_lines cur (c # cs) =
     (if c = cr \<and> cs \<noteq> [] \<and> hd cs = nl then (cur, [cr, nl]) # split_lines [] (tl cs)
      else if c = nl \<or> explicit_separator c then (cur, [c]) # split_lines [] cs
      else split_lines (cur @ [c]) cs)"

fun with_offsets :: "nat \<Rightarrow> (ustr \<times> ustr) list \<Rightarrow> line list" where
  "with_offsets p [] = []"
| "with_offsets p ((c, s) # r) =
     \<lparr>content = c, separator_end = p + length c + length s\<rparr> # with_offsets (p + length c + length s) r"

text \<open>The lines of one native line \<open>b\<close> whose separator is \<open>sep\<close>.\<close>

fun native_pieces :: "ustr \<Rightarrow> ustr \<Rightarrow> ustr \<Rightarrow> (ustr \<times> ustr) list" where
  "native_pieces cur [] sep = (if cur \<noteq> [] \<or> sep \<noteq> [] then [(cur, sep)] else [])"
| "native_pieces cur (c # b) sep =
     (if explicit_separator c then (cur, [c]) # native_pieces [] b sep
      else native_pieces (cur @ [c]) b sep)"

section \<open>Correctness of the line splitter\<close>

declare explicit_loop.simps [simp del]

lemma slice_append_mid: "slice (pre @ cur @ post) (length pre) (length pre + length cur) = cur"
  by (simp add: slice_def)

lemma explicit_loop_native_pieces:
  assumes "source = pre @ cur @ b @ post"
  shows "explicit_loop source (length pre) (length pre + length cur) (length pre + length cur + length b) (length sep)
       = with_offsets (length pre) (native_pieces cur b sep)"
  using assms
proof (induction b arbitrary: pre cur)
  case Nil
  then show ?case
    by (subst explicit_loop.simps) (use slice_append_mid [of pre cur post] in auto)
next
  case (Cons c b)
  have nth: "source ! (length pre + length cur) = c"
    using Cons.prems by (simp add: nth_append)
  show ?case
  proof (cases "explicit_separator c")
    case True
    have "source = (pre @ cur @ [c]) @ [] @ b @ post" using Cons.prems by simp
    from Cons.IH [OF this] True nth Cons.prems show ?thesis
      by (subst explicit_loop.simps) (use slice_append_mid [of pre cur "c # b @ post"] in simp)
  next
    case False
    have "source = pre @ (cur @ [c]) @ b @ post" using Cons.prems by simp
    from Cons.IH [OF this] False nth show ?thesis by (subst explicit_loop.simps) simp
  qed
qed

lemma split_lines_native:
  assumes "nl \<notin> set b"
    and "sep = [cr, nl] \<or> (sep = [nl] \<and> (b \<noteq> [] \<longrightarrow> last b \<noteq> cr)) \<or> (sep = [] \<and> rest = [])"
  shows "split_lines cur (b @ sep @ rest) = native_pieces cur b sep @ split_lines [] rest"
  using assms
proof (induction b arbitrary: cur)
  case Nil
  then show ?case by (auto simp: explicit_separator_def)
next
  case (Cons c b)
  have IH: "split_lines cur' (b @ sep @ rest) = native_pieces cur' b sep @ split_lines [] rest" for cur'
    using Cons.prems by (intro Cons.IH) (auto split: if_splits)
  have "c \<noteq> nl" and no_crlf: "\<not> (c = cr \<and> b @ sep @ rest \<noteq> [] \<and> hd (b @ sep @ rest) = nl)"
    using Cons.prems by (cases b; auto)+
  have "split_lines cur (c # b @ sep @ rest) =
      (if explicit_separator c then (cur, [c]) # split_lines [] (b @ sep @ rest)
       else split_lines (cur @ [c]) (b @ sep @ rest))"
    using \<open>c \<noteq> nl\<close> no_crlf by (simp only: split_lines.simps) auto
  then show ?case using IH by simp
qed

lemma with_offsets_append:
  "with_offsets p (xs @ ys) =
     with_offsets p xs @ with_offsets (p + sum_list (map (\<lambda>(c, s). length c + length s) xs)) ys"
  by (induction p xs rule: with_offsets.induct) (auto simp: add.assoc)

lemma native_pieces_length:
  "sum_list (map (\<lambda>(c, s). length c + length s) (native_pieces cur b sep)) = length cur + length b + length sep"
  by (induction cur b sep rule: native_pieces.induct) auto

lemma native_step:
  assumes "source = pre @ b @ sep @ rest" and "nl \<notin> set b"
    and "sep = [cr, nl] \<or> (sep = [nl] \<and> (b \<noteq> [] \<longrightarrow> last b \<noteq> cr)) \<or> (sep = [] \<and> rest = [])"
    and "native_separator_len (sep @ rest) = length sep"
    and "\<And>ls. native_loop source (length (pre @ b @ sep)) ls (str_lines rest)
            = ls @ with_offsets (length (pre @ b @ sep)) (split_lines [] rest)"
  shows "native_loop source (length pre) lines (b # str_lines rest)
       = lines @ with_offsets (length pre) (split_lines [] (b @ sep @ rest))"
proof -
  have "drop (length pre + length b) source = sep @ rest" using assms(1) by simp
  then have sl: "native_separator_len (drop (length pre + length b) source) = length sep"
    using assms(4) by simp
  have "source = pre @ [] @ b @ (sep @ rest)" using assms(1) by simp
  from explicit_loop_native_pieces [OF this, of sep]
  have ex: "explicit_loop source (length pre) (length pre) (length pre + length b) (length sep)
      = with_offsets (length pre) (native_pieces [] b sep)" by simp
  show ?thesis
    using assms(5) split_lines_native [OF assms(2,3), of "[]"] ex
    by (simp add: sl Let_def append_explicitly_separated_lines_def with_offsets_append
        native_pieces_length add.assoc)
qed

lemma strip_cr_cases:
  "(s = strip_cr s \<and> (s \<noteq> [] \<longrightarrow> last s \<noteq> cr)) \<or> s = strip_cr s @ [cr]"
  by (auto simp: strip_cr_def) (metis append_butlast_last_id)

lemma str_lines_step: "nl \<notin> set seg \<Longrightarrow> str_lines (seg @ nl # rest) = strip_cr seg # str_lines rest"
  by (simp add: str_lines_def split_on_append_sep split_on_no_occurrence butlast_append Let_def)

lemma native_loop_split_lines:
  "source = pre @ s \<Longrightarrow> native_loop source (length pre) lines (str_lines s)
     = lines @ with_offsets (length pre) (split_lines [] s)"
proof (induction s arbitrary: pre lines rule: length_induct)
  case (1 s)
  show ?case
  proof (cases "nl \<in> set s")
    case False
    then have sl: "str_lines s = (if s = [] then [] else [s])"
      by (simp add: str_lines_def split_on_no_occurrence)
    show ?thesis
    proof (cases "s = []")
      case False
      have "native_loop source (length pre) lines (s # str_lines [])
          = lines @ with_offsets (length pre) (split_lines [] (s @ [] @ []))"
        by (rule native_step)
           (use 1 \<open>nl \<notin> set s\<close> in \<open>auto simp: str_lines_def native_separator_len_def\<close>)
      then show ?thesis using sl False by (simp add: str_lines_def)
    qed (use sl in simp)
  next
    case True
    then obtain seg rest where s: "s = seg @ nl # rest" and seg: "nl \<notin> set seg"
      by (meson split_list_first)
    have lines_s: "str_lines s = strip_cr seg # str_lines rest" using s seg by (simp add: str_lines_step)
    have len: "length rest < length s" using s by simp
    define sep where "sep = (if seg = strip_cr seg then [nl] else [cr, nl])"
    have split: "s = strip_cr seg @ sep @ rest"
      using strip_cr_cases [of seg] s by (auto simp: sep_def)
    have "native_loop source (length pre) lines (strip_cr seg # str_lines rest)
        = lines @ with_offsets (length pre) (split_lines [] (strip_cr seg @ sep @ rest))"
    proof (rule native_step)
      show "source = pre @ strip_cr seg @ sep @ rest" using 1 split by simp
      show "nl \<notin> set (strip_cr seg)" using seg by (auto simp: strip_cr_def dest: in_set_butlastD)
      show "sep = [cr, nl] \<or> (sep = [nl] \<and> (strip_cr seg \<noteq> [] \<longrightarrow> last (strip_cr seg) \<noteq> cr)) \<or>
          (sep = [] \<and> rest = [])"
        using strip_cr_cases [of seg] by (auto simp: sep_def)
      show "native_separator_len (sep @ rest) = length sep"
        by (auto simp: sep_def native_separator_len_def)
      show "native_loop source (length (pre @ strip_cr seg @ sep)) ls (str_lines rest)
          = ls @ with_offsets (length (pre @ strip_cr seg @ sep)) (split_lines [] rest)" for ls
        using "1.IH" [rule_format, OF len, of "pre @ strip_cr seg @ sep" ls] "1.prems" split by simp
    qed
    then show ?thesis using lines_s split by simp
  qed
qed

lemma lines_with_separators_eq: "lines_with_separators s = with_offsets 0 (split_lines [] s)"
  using native_loop_split_lines [of s "[]" s "[]"] by (simp add: lines_with_separators_def)

lemma split_lines_concat: "concat (map (\<lambda>(c, s). c @ s) (split_lines cur s)) = cur @ s"
  by (induction cur s rule: split_lines.induct) (auto simp: neq_Nil_conv)

section \<open>Structure of the parse\<close>

lemma with_offsets_contents: "map content (with_offsets p ls) = map fst ls"
  by (induction p ls rule: with_offsets.induct) auto

lemma with_offsets_nth:
  "i < length ls \<Longrightarrow> content (with_offsets p ls ! i) = fst (ls ! i)"
  by (metis length_map nth_map with_offsets_contents)

lemma length_with_offsets [simp]: "length (with_offsets p ls) = length ls"
  by (metis length_map with_offsets_contents)

definition lines_text :: "(ustr \<times> ustr) list \<Rightarrow> ustr" where
  "lines_text ls = concat (map (\<lambda>(c, s). c @ s) ls)"

lemma lines_text_simps [simp]:
  "lines_text [] = []" "lines_text ((c, s) # ls) = c @ s @ lines_text ls"
  "lines_text (xs @ ys) = lines_text xs @ lines_text ys"
  by (simp_all add: lines_text_def)

lemma lines_text_split_lines: "lines_text (split_lines [] s) = s"
  using split_lines_concat [of "[]" s] by (simp add: lines_text_def)

lemma with_offsets_drop:
  "with_offsets p (xs @ ys) = with_offsets p xs @ with_offsets (p + length (lines_text xs)) ys"
  by (induction p xs rule: with_offsets.induct) (auto simp: add.assoc)

lemma body_start_loop_blanks:
  "body_start_loop p (with_offsets p ls)
     = p + length (lines_text (takeWhile (\<lambda>l. fst l = []) ls))"
proof (induction p ls rule: with_offsets.induct)
  case (2 p c s r)
  then show ?case by (cases c) auto
qed simp

lemma position_map: "position P (map f xs) = position (\<lambda>x. P (f x)) xs"
  by (induction xs) auto

lemma position_content: "position (\<lambda>l. content l = x) (with_offsets p ls) = position (\<lambda>l. fst l = x) ls"
  using position_map [of "\<lambda>c. c = x" content "with_offsets p ls"] position_map [of "\<lambda>c. c = x" fst ls]
  by (simp add: with_offsets_contents)

lemma position_first: "\<forall>y \<in> set mid. \<not> P y \<Longrightarrow> P x \<Longrightarrow> position P (mid @ x # tail) = Some (length mid)"
  by (induction mid) auto

text \<open>What the parser returns once the two fences are located.\<close>

lemma parse_frontmatter_fenced:
  assumes ls: "split_lines [] (parse_source source) = (fence, s0) # mid @ (fence, s1) # tail"
    and mid: "\<forall>l \<in> set mid. fst l \<noteq> fence"
  shows "parse_frontmatter source =
      (case field_loop [] (with_offsets (3 + length s0) mid) of None \<Rightarrow> default_with_source source
       | Some fs \<Rightarrow> if fs = [] then default_with_source source
           else \<lparr>page_fields = fs, page_body = lines_text (dropWhile (\<lambda>l. fst l = []) tail)\<rparr>)"
proof -
  define p where "p = 3 + length s0"
  define q where "q = length (fence @ s0 @ lines_text mid @ fence @ s1)"
  let ?rest = "mid @ (fence, s1) # tail"
  have off: "with_offsets p ?rest =
      with_offsets p mid @ \<lparr>content = fence, separator_end = q\<rparr> # with_offsets q tail"
    by (subst with_offsets_drop) (simp add: q_def p_def numeral_3_eq_3 add_ac)
  have lws: "lines_with_separators (parse_source source)
      = \<lparr>content = fence, separator_end = p\<rparr> # with_offsets p ?rest"
    by (simp add: lines_with_separators_eq ls p_def numeral_3_eq_3)
  have pos: "position (\<lambda>l. content l = fence) (with_offsets p ?rest) = Some (length mid)"
    unfolding position_content using mid by (intro position_first) auto
  have src: "parse_source source = (fence @ s0 @ lines_text mid @ fence @ s1) @ lines_text tail"
    using lines_text_split_lines [of "parse_source source"] ls by simp
  have "lines_text tail = lines_text (takeWhile (\<lambda>l. fst l = []) tail) @ lines_text (dropWhile (\<lambda>l. fst l = []) tail)"
    by (metis lines_text_simps(3) takeWhile_dropWhile_id)
  then have "drop (body_start_loop q (with_offsets q tail)) (parse_source source)
      = lines_text (dropWhile (\<lambda>l. fst l = []) tail)"
    unfolding body_start_loop_blanks src q_def by (simp add: numeral_3_eq_3)
  moreover have "take (length mid) (with_offsets p ?rest) = with_offsets p mid"
    and "separator_end (with_offsets p ?rest ! length mid) = q"
    and "drop (Suc (length mid)) (with_offsets p ?rest) = with_offsets q tail"
    by (simp_all add: off nth_append)
  ultimately show ?thesis
    using pos by (simp add: parse_frontmatter_def lws p_def [symmetric] split: option.split)
qed

text \<open>A parse either keeps the whole source or found an opening and a closing fence.\<close>

lemma parse_frontmatter_cases:
  obtains (default) "parse_frontmatter source = default_with_source source"
  | (block) s0 mid s1 tail fs where
      "split_lines [] (parse_source source) = (fence, s0) # mid @ (fence, s1) # tail"
      "\<forall>l \<in> set mid. fst l \<noteq> fence"
      "field_loop [] (with_offsets (3 + length s0) mid) = Some fs" "fs \<noteq> []"
      "parse_frontmatter source =
         \<lparr>page_fields = fs, page_body = lines_text (dropWhile (\<lambda>l. fst l = []) tail)\<rparr>"
proof (cases "parse_frontmatter source = default_with_source source")
  case False
  define ls where "ls = split_lines [] (parse_source source)"
  obtain c0 s0 rest where ls: "ls = (c0, s0) # rest"
    using False by (cases ls) (auto simp: parse_frontmatter_def lines_with_separators_eq ls_def Let_def)
  then have lws: "lines_with_separators (parse_source source)
      = \<lparr>content = c0, separator_end = length c0 + length s0\<rparr> # with_offsets (length c0 + length s0) rest"
    by (simp add: lines_with_separators_eq ls_def)
  have c0: "c0 = fence" using False lws by (auto simp: parse_frontmatter_def Let_def split: if_splits)
  obtain i where i: "position (\<lambda>l. fst l = fence) rest = Some i"
    using False lws c0 by (cases "position (\<lambda>l. fst l = fence) rest")
      (auto simp: parse_frontmatter_def Let_def position_content)
  from position_Some [OF i] have len: "i < length rest" and ith: "fst (rest ! i) = fence"
    and before: "\<forall>j < i. fst (rest ! j) \<noteq> fence" by auto
  have rest: "rest = take i rest @ (fence, snd (rest ! i)) # drop (Suc i) rest"
    using len ith by (metis id_take_nth_drop prod.collapse)
  have mid: "\<forall>l \<in> set (take i rest). fst l \<noteq> fence" using before len by (fastforce simp: in_set_conv_nth)
  have eq: "split_lines [] (parse_source source) =
      (fence, s0) # take i rest @ (fence, snd (rest ! i)) # drop (Suc i) rest"
    using ls c0 rest by (simp add: ls_def)
  show thesis
    using block [OF eq mid] parse_frontmatter_fenced [OF eq mid] False
    by (auto split: option.splits if_splits)
qed (rule default)

lemma field_loop_legal:
  "field_loop fs ls = Some fs' \<Longrightarrow> bt_wf fs \<Longrightarrow> \<forall>k \<in> set (map fst fs). legal_key k
     \<Longrightarrow> bt_wf fs' \<and> (\<forall>k \<in> set (map fst fs'). legal_key k)"
proof (induction fs ls rule: field_loop.induct)
  case (2 fs l ls)
  have key: "legal_key k" if "field_line x = Some (k, v)" for x k v
    using that by (auto simp: field_line_def split: option.splits if_splits)
  show ?case
  proof (cases "content l \<noteq> [] \<and> hd (content l) \<in> {sp, tab}")
    case True
    with "2.prems" "2.IH"(1) show ?thesis by (simp split: if_splits del: set_map)
  next
    case False
    with "2.prems"(1) obtain k v where kv: "field_line (content l) = Some (k, v)"
      and nb: "\<not> is_blank l" and rec: "field_loop (bt_insert k (unquote v) fs) ls = Some fs'"
      by (auto split: if_splits option.splits)
    from "2.IH"(2) [OF nb False kv refl rec bt_insert_wf [OF "2.prems"(2)]] show ?thesis
      using "2.prems"(3) key [OF kv] by (simp add: bt_insert_keys del: set_map)
  qed
qed simp

section \<open>Rendered blocks\<close>

definition plain_char :: "uchar \<Rightarrow> bool" where
  "plain_char c = (c \<noteq> nl \<and> \<not> explicit_separator c)"

definition plain_value :: "ustr \<Rightarrow> bool" where
  "plain_value v = ((\<forall>c \<in> set v. plain_char c) \<and> trim v = v \<and> unquote v = v)"

text \<open>A scalar frontmatter block the way the memory format writes it, and the page after it.\<close>

definition render_block :: "(ustr \<times> ustr) list \<Rightarrow> ustr \<Rightarrow> ustr" where
  "render_block kvs rest =
     fence @ [nl] @ concat (map (\<lambda>(k, v). k @ [58, sp] @ v @ [nl]) kvs) @ fence @ [nl] @ rest"

lemma split_lines_plain:
  "\<forall>c \<in> set x. plain_char c \<Longrightarrow> split_lines cur (x @ nl # rest) = (cur @ x, [nl]) # split_lines [] rest"
proof (induction x arbitrary: cur)
  case (Cons c x)
  then show ?case by (auto simp: plain_char_def explicit_separator_def)
qed (simp add: explicit_separator_def)

lemma legal_key_chars:
  "legal_key k \<Longrightarrow> c \<in> set k \<Longrightarrow> is_ascii_alphanumeric c \<or> c = underscore \<or> c = dot \<or> c = dash"
  by (cases k) (auto simp: legal_key_def is_ascii_alphanumeric_def)

lemma legal_key_plain: "legal_key k \<Longrightarrow> c \<in> set k \<Longrightarrow> plain_char c \<and> c \<noteq> 58 \<and> \<not> is_whitespace c"
  using legal_key_chars [of k c]
  by (auto simp: plain_char_def explicit_separator_def is_whitespace_def is_ascii_alphanumeric_def
      is_ascii_alphabetic_def is_ascii_digit_def is_ascii_lowercase_def is_ascii_uppercase_def)

lemma trim_sp: "trim (sp # v) = trim v"
  by (simp add: trim_def trim_matches_def trim_start_matches_def is_whitespace_def)

lemma field_line_render:
  "legal_key k \<Longrightarrow> trim v = v \<Longrightarrow> field_line (k @ [58, sp] @ v) = Some (k, v)"
proof -
  assume k: "legal_key k" and v: "trim v = v"
  have "58 \<notin> set k" using k legal_key_plain by blast
  then have "split_once 58 (k @ 58 # sp # v) = Some (k, sp # v)" by (rule split_once_first)
  then show ?thesis using k v by (simp add: field_line_def trim_sp)
qed

lemma field_loop_render:
  assumes "\<forall>(k, v) \<in> set kvs. legal_key k \<and> plain_value v"
  shows "field_loop fs (with_offsets p (map (\<lambda>(k, v). (k @ [58, sp] @ v, [nl])) kvs))
       = Some (fold (\<lambda>(k, v). bt_insert k v) kvs fs)"
  using assms
proof (induction kvs arbitrary: fs p)
  case (Cons kv kvs)
  obtain k v where kv: "kv = (k, v)" by (cases kv)
  with Cons.prems have k: "legal_key k" and v: "trim v = v" "unquote v = v"
    by (auto simp: plain_value_def)
  then obtain c k' where kc: "k = c # k'" by (cases k) (auto simp: legal_key_def)
  have c: "\<not> is_whitespace c" "c \<noteq> sp" "c \<noteq> tab"
    using legal_key_plain [OF k, of c] kc by (auto simp: is_whitespace_def)
  have "\<not> is_blank \<lparr>content = k @ [58, sp] @ v, separator_end = n\<rparr>" for n
    using c(1) kc by (auto simp: is_blank_def trim_eq_Nil_iff)
  then show ?case
    using Cons c kv field_line_render [OF k v(1)] v(2) by (simp add: kc)
qed simp

lemma split_lines_render:
  assumes "\<forall>(k, v) \<in> set kvs. legal_key k \<and> plain_value v"
  shows "split_lines [] (concat (map (\<lambda>(k, v). k @ [58, sp] @ v @ [nl]) kvs) @ fence @ nl # rest)
       = map (\<lambda>(k, v). (k @ [58, sp] @ v, [nl])) kvs @ (fence, [nl]) # split_lines [] rest"
  using assms
proof (induction kvs)
  case Nil
  have "split_lines [] (fence @ nl # rest) = ([] @ fence, [nl]) # split_lines [] rest"
    by (rule split_lines_plain) (simp add: plain_char_def explicit_separator_def)
  then show ?case by simp
next
  case (Cons kv kvs)
  obtain k v where kv: "kv = (k, v)" by (cases kv)
  have "\<forall>c \<in> set (k @ [58, sp] @ v). plain_char c"
    using Cons.prems kv legal_key_plain [of k]
    by (auto simp: plain_value_def plain_char_def explicit_separator_def)
  from split_lines_plain [OF this, of "[]"] Cons kv show ?case by simp
qed

lemma bt_insert_ne [simp]: "bt_insert k v m \<noteq> []"
  by (induction k v m rule: bt_insert.induct) simp_all

lemma fold_bt_insert_ne: "m \<noteq> [] \<or> kvs \<noteq> [] \<Longrightarrow> fold (\<lambda>(k, v). bt_insert k v) kvs m \<noteq> []"
  by (induction kvs arbitrary: m) (simp_all split: prod.splits)

lemma prefix_render: "parse_source (render_block kvs rest) = render_block kvs rest"
  by (simp add: parse_source_def strip_prefix_def render_block_def)

lemma render_not_fence: "legal_key k \<Longrightarrow> k @ [58, sp] @ v \<noteq> fence"
  by (cases k) (auto simp: append_eq_Cons_conv Cons_eq_append_conv)

section \<open>Properties\<close>

text \<open>The line splitter of the frontmatter parser, which first splits with \<open>str::lines\<close> and then
  re-splits every native line at the remaining Python separators while it tracks byte offsets,
  returns exactly the lines of one pass of Python's \<open>splitlines\<close>, each with the offset just
  after its separator, for every source text.\<close>

lemma lines_with_separators_splitlines:
  "lines_with_separators source = with_offsets 0 (split_lines [] source)
   \<and> concat (map (\<lambda>(c, s). c @ s) (split_lines [] source)) = source"
  using lines_with_separators_eq split_lines_concat [of "[]" source] by simp

text \<open>C5: A parse that finds fields found an opening fence on the first line, the first later
  fence line as closing fence, only legal field names between them, and its body is the
  verbatim remainder of the source after the empty lines that follow the closing fence.\<close>

theorem parse_frontmatter_block:
  assumes "page_fields (parse_frontmatter source) \<noteq> []"
  shows "\<exists>s0 mid s1 blanks rest.
      split_lines [] (parse_source source) = (fence, s0) # mid @ (fence, s1) # blanks @ rest
      \<and> (\<forall>l \<in> set mid. fst l \<noteq> fence) \<and> (\<forall>l \<in> set blanks. fst l = [])
      \<and> (rest \<noteq> [] \<longrightarrow> fst (hd rest) \<noteq> [])
      \<and> page_body (parse_frontmatter source) = concat (map (\<lambda>(c, s). c @ s) rest)
      \<and> suffix (page_body (parse_frontmatter source)) source
      \<and> (\<forall>k \<in> set (map fst (page_fields (parse_frontmatter source))). legal_key k)"
proof (cases source rule: parse_frontmatter_cases)
  case default
  with assms show ?thesis by (simp add: default_with_source_def)
next
  case (block s0 mid s1 tail fs)
  let ?blanks = "takeWhile (\<lambda>l. fst l = []) tail" and ?rest = "dropWhile (\<lambda>l. fst l = []) tail"
  have "parse_source source = lines_text ((fence, s0) # mid @ (fence, s1) # ?blanks) @ lines_text ?rest"
    using lines_text_split_lines [of "parse_source source"] block(1) takeWhile_dropWhile_id [of _ tail]
    by (metis append_Cons append_assoc lines_text_simps(3))
  then have "suffix (lines_text ?rest) (parse_source source)" by (auto simp: suffix_def)
  moreover have "suffix (parse_source source) source"
    by (auto simp: parse_source_def strip_prefix_def suffix_drop split: option.splits)
  ultimately have "suffix (lines_text ?rest) source" using suffix_order.order_trans by blast
  moreover have "?rest \<noteq> [] \<longrightarrow> fst (hd ?rest) \<noteq> []" using hd_dropWhile [of "\<lambda>l. fst l = []" tail] by auto
  moreover have "\<forall>k \<in> set (map fst fs). legal_key k"
    using field_loop_legal [OF block(3)] by (simp add: bt_wf_def)
  ultimately show ?thesis
    using block by (intro exI [of _ s0] exI [of _ mid] exI [of _ s1] exI [of _ ?blanks] exI [of _ ?rest])
      (auto simp: lines_text_def dest: set_takeWhileD)
qed

text \<open>A frontmatter block rendered from legal field names and plain scalar values, followed by a
  body that does not open with an empty line, parses back to exactly those fields (the last
  value of a repeated name) and exactly that body.\<close>

lemma parse_render_block:
  assumes "kvs \<noteq> []" and "\<forall>(k, v) \<in> set kvs. legal_key k \<and> plain_value v"
    and "split_lines [] rest \<noteq> [] \<longrightarrow> fst (hd (split_lines [] rest)) \<noteq> []"
  shows "parse_frontmatter (render_block kvs rest)
       = \<lparr>page_fields = fold (\<lambda>(k, v). bt_insert k v) kvs [], page_body = rest\<rparr>"
proof -
  let ?mid = "map (\<lambda>(k, v). (k @ [58, sp] @ v, [nl])) kvs" and ?src = "render_block kvs rest"
  have sl: "split_lines [] ?src = (fence, [nl]) # ?mid @ (fence, [nl]) # split_lines [] rest"
    using split_lines_render [OF assms(2), of rest] unfolding render_block_def
    by (simp add: explicit_separator_def)
  have nf: "fst l \<noteq> fence" if "l \<in> set ?mid" for l
    using that assms(2) render_not_fence by (auto split: prod.splits)
  have fl: "field_loop [] (with_offsets n ?mid) = Some (fold (\<lambda>(k, v). bt_insert k v) kvs [])" for n
    using field_loop_render [OF assms(2)] by simp
  have fs: "fold (\<lambda>(k, v). bt_insert k v) kvs [] \<noteq> []"
    using assms(1) fold_bt_insert_ne [of "[]" kvs] by simp
  have dw: "dropWhile (\<lambda>l. fst l = []) (split_lines [] rest) = split_lines [] rest"
    using assms(3) by (cases "split_lines [] rest") auto
  have "parse_frontmatter ?src = \<lparr>page_fields = fold (\<lambda>(k, v). bt_insert k v) kvs [],
      page_body = lines_text (dropWhile (\<lambda>l. fst l = []) (split_lines [] rest))\<rparr>"
    using parse_frontmatter_fenced [of ?src "[nl]" ?mid "[nl]" "split_lines [] rest"] sl nf fl fs
    by (simp add: prefix_render del: lines_text_simps)
  then show ?thesis by (simp add: dw lines_text_split_lines)
qed

section \<open>Witnesses\<close>

definition sample_page :: ustr where
  "sample_page = render_block [(lit ''title'', lit ''Night mode''), (lit ''name'', lit ''night'')]
     (lit ''Body text'')"

lemma parse_render_block_example:
  "parse_frontmatter (render_block [(lit ''title'', lit ''Night mode'')] (lit ''Body''))
     = \<lparr>page_fields = [(lit ''title'', lit ''Night mode'')], page_body = lit ''Body''\<rparr>"
proof -
  have "\<forall>(k, v) \<in> set [(lit ''title'', lit ''Night mode'')]. legal_key k \<and> plain_value v"
    by code_simp
  moreover have "split_lines [] (lit ''Body'') \<noteq> [] \<longrightarrow> fst (hd (split_lines [] (lit ''Body''))) \<noteq> []"
    by code_simp
  ultimately show ?thesis
    using parse_render_block [of "[(lit ''title'', lit ''Night mode'')]" "lit ''Body''"] by simp
qed

theorem parse_frontmatter_block_witness:
  "page_fields (parse_frontmatter sample_page) \<noteq> []
   \<and> suffix (page_body (parse_frontmatter sample_page)) sample_page"
proof -
  have h: "page_fields (parse_frontmatter sample_page) \<noteq> []" by code_simp
  from parse_frontmatter_block [OF h] show ?thesis using h by blast
qed

end
