(* ===== verification/Chunk.thy ===== *)
theory Chunk
  imports Frontmatter
begin

text \<open>
  Splitting a page body into retrieval chunks (\<open>crates/yams-core/src/chunk.rs\<close>). The writer
  \<open>append_piece\<close> is a loop over the chunks already closed and the pending text; its checked
  subtraction \<open>MAX_CHUNK - char_count(pending)\<close> is modelled as a panic (\<open>None\<close>), and the
  theorems below show that it never happens, that every chunk respects the size bounds and that
  no visible character of the page is lost, moved or duplicated.
\<close>

section \<open>Model\<close>

definition MIN_CHUNK :: nat where "MIN_CHUNK = 400"
definition MAX_CHUNK :: nat where "MAX_CHUNK = 1200"

record chunk_rec =
  chunk_ordinal :: nat
  chunk_text :: ustr
  chunk_embed_text :: ustr

datatype chunk_error = TooManyChunks

datatype boundary = BNone | BLine | BParagraph

fun boundary_text :: "boundary \<Rightarrow> ustr" where
  "boundary_text BNone = []"
| "boundary_text BLine = [nl]"
| "boundary_text BParagraph = [nl, nl]"

definition char_count :: "ustr \<Rightarrow> nat" where
  "char_count text = length text"

definition split_prefix_chars :: "ustr \<Rightarrow> nat \<Rightarrow> ustr \<times> ustr" where
  "split_prefix_chars text n = (take n text, drop n text)"

lemma boundary_text_length: "length (boundary_text b) \<le> 2"
  by (cases b) auto

lemma boundary_len_le: "n < length (boundary_text b) \<Longrightarrow> n < 2"
  using boundary_text_length [of b] by linarith

text \<open>One run of the \<open>while\<close> loop of \<open>append_piece\<close>; resetting the boundary to \<open>""\<close> is \<open>BNone\<close>.\<close>

function append_loop :: "ustr list \<Rightarrow> ustr \<Rightarrow> boundary \<Rightarrow> ustr \<Rightarrow> (ustr list \<times> ustr) option" where
  "append_loop chunks pending b remaining =
     (if remaining = [] then Some (chunks, pending)
      else if MAX_CHUNK < char_count pending then None
      else let available = MAX_CHUNK - char_count pending;
               boundary_len = char_count (boundary_text b)
           in if available < boundary_len then append_loop (chunks @ [pending]) [] b remaining
              else let (pre, suf) = split_prefix_chars remaining (available - boundary_len);
                       pending' = pending @ boundary_text b @ pre
                   in if MIN_CHUNK \<le> char_count pending'
                      then append_loop (chunks @ [pending']) [] BNone suf
                      else append_loop chunks pending' BNone suf)"
  by pat_completeness auto
termination
proof (relation "measures [\<lambda>(_, _, _, remaining). length remaining,
    \<lambda>(_, _, b, _). length (boundary_text b), \<lambda>(_, pending, _, _). length pending]")
qed (auto simp: MAX_CHUNK_def MIN_CHUNK_def char_count_def split_prefix_chars_def dest: boundary_len_le)

definition append_piece ::
    "ustr list \<times> ustr \<Rightarrow> boundary \<times> ustr \<Rightarrow> (ustr list \<times> ustr) option" where
  "append_piece st piece = append_loop (fst st) (snd st) (fst piece) (snd piece)"

function logical_lines :: "ustr \<Rightarrow> ustr \<Rightarrow> ustr list" where
  "logical_lines cur [] = (if cur = [] then [] else [cur])"
| "logical_lines cur (c # cs) =
     (if c = nl \<or> c = cr
      then cur # (if c = cr \<and> cs \<noteq> [] \<and> hd cs = nl then logical_lines [] (tl cs) else logical_lines [] cs)
      else logical_lines (cur @ [c]) cs)"
  by pat_completeness auto
termination
  by (relation "measure (\<lambda>(_, s). length s)") auto

definition push_paragraph :: "ustr list \<Rightarrow> ustr list \<Rightarrow> ustr list" where
  "push_paragraph paragraphs lines =
     (if lines = [] then paragraphs
      else let trimmed = trim (join [nl] lines)
           in if trimmed = [] then paragraphs else paragraphs @ [trimmed])"

fun paragraph_loop :: "ustr list \<Rightarrow> ustr list \<Rightarrow> ustr list \<Rightarrow> ustr list" where
  "paragraph_loop paragraphs lines [] = push_paragraph paragraphs lines"
| "paragraph_loop paragraphs lines (l # ls) =
     (if trim l = [] then paragraph_loop (push_paragraph paragraphs lines) [] ls
      else paragraph_loop paragraphs (lines @ [l]) ls)"

definition paragraphs :: "ustr \<Rightarrow> ustr list" where
  "paragraphs text = paragraph_loop [] [] (logical_lines [] text)"

text \<open>\<open>for_each_hard_wrap\<close> as the list of the slices it visits.\<close>

fun wrap_loop :: "ustr \<Rightarrow> nat \<Rightarrow> nat list \<Rightarrow> ustr list" where
  "wrap_loop line start [] = [drop start line]"
| "wrap_loop line start (i # is) =
     (if 0 < i \<and> i mod MAX_CHUNK = 0
      then slice line start i # wrap_loop line i is
      else wrap_loop line start is)"

definition hard_wrap :: "ustr \<Rightarrow> ustr list" where
  "hard_wrap line =
     (if char_count line \<le> MAX_CHUNK then [line] else wrap_loop line 0 [0..<length line])"

text \<open>The boundary of a part: only the first part of a line carries one.\<close>

definition line_pieces :: "nat \<Rightarrow> nat \<Rightarrow> ustr \<Rightarrow> (boundary \<times> ustr) list" where
  "line_pieces paragraph_index line_index line =
     (case hard_wrap line of [] \<Rightarrow> []
      | part # parts \<Rightarrow>
          ((if 0 < line_index then BLine else if 0 < paragraph_index then BParagraph else BNone), part)
          # map (\<lambda>p. (BNone, p)) parts)"

definition paragraph_pieces :: "nat \<times> ustr \<Rightarrow> (boundary \<times> ustr) list" where
  "paragraph_pieces ip =
     concat (map (\<lambda>(li, line). line_pieces (fst ip) li line) (enumerate 0 (split_on nl (snd ip))))"

fun append_all :: "ustr list \<times> ustr \<Rightarrow> (boundary \<times> ustr) list \<Rightarrow> (ustr list \<times> ustr) option" where
  "append_all st [] = Some st"
| "append_all st (p # ps) = (case append_piece st p of None \<Rightarrow> None | Some st' \<Rightarrow> append_all st' ps)"

definition chunk :: "ustr \<Rightarrow> ustr list option" where
  "chunk text =
     (case append_all ([], []) (concat (map paragraph_pieces (enumerate 0 (paragraphs text)))) of
        None \<Rightarrow> None
      | Some (chunks, pending) \<Rightarrow> Some (if pending = [] then chunks else chunks @ [pending]))"

definition embed_text_for :: "ustr \<Rightarrow> ustr \<Rightarrow> ustr option \<Rightarrow> ustr" where
  "embed_text_for path text title =
     truncate_chars
       (case title of Some t \<Rightarrow> if t = [] then filename_title path else t
        | None \<Rightarrow> filename_title path)
       MAX_TITLE_CHARS @ [nl, nl] @ text"

definition chunks_for_page :: "ustr \<Rightarrow> ustr \<Rightarrow> (chunk_error, chunk_rec list) result option" where
  "chunks_for_page path source =
     (let page = parse_frontmatter source; title = title_for path (page_fields page)
      in map_option
           (\<lambda>cs. try_map
             (\<lambda>(i, text). if i < 2 ^ 32
                then Inr \<lparr>chunk_ordinal = i, chunk_text = text,
                          chunk_embed_text = embed_text_for path text (Some title)\<rparr>
                else Inl TooManyChunks)
             (enumerate 0 cs))
           (chunk (page_body page)))"

section \<open>The writer loop\<close>

declare append_loop.simps [simp del]

text \<open>What a run of the writer may rely on and keeps: less than \<open>MIN_CHUNK\<close> characters are pending.\<close>

definition pending_ok :: "ustr \<Rightarrow> bool" where
  "pending_ok p = (length p < MIN_CHUNK)"

definition sized :: "ustr \<Rightarrow> bool" where
  "sized c = (MIN_CHUNK \<le> length c \<and> length c \<le> MAX_CHUNK)"

definition piece_text :: "boundary \<times> ustr \<Rightarrow> ustr" where
  "piece_text p = (if snd p = [] then [] else boundary_text (fst p) @ snd p)"

lemma append_loop_correct:
  "pending_ok pending \<Longrightarrow>
   \<exists>new pending'. append_loop chunks pending b remaining = Some (chunks @ new, pending')
     \<and> pending_ok pending' \<and> (\<forall>c \<in> set new. sized c)
     \<and> concat new @ pending' = pending @ piece_text (b, remaining)"
proof (induction chunks pending b remaining rule: append_loop.induct)
  case (1 chunks pending b remaining)
  show ?case
  proof (cases "remaining = []")
    case True
    with "1.prems" show ?thesis by (subst append_loop.simps) (auto simp: piece_text_def)
  next
    case False
    let ?k = "MAX_CHUNK - length pending - length (boundary_text b)"
    let ?p = "pending @ boundary_text b @ take ?k remaining"
    have room: "\<not> MAX_CHUNK < char_count pending"
      "\<not> MAX_CHUNK - char_count pending < char_count (boundary_text b)"
      using "1.prems" boundary_text_length [of b]
      by (auto simp: pending_ok_def char_count_def MAX_CHUNK_def MIN_CHUNK_def)
    have split: "(take ?k remaining, drop ?k remaining) =
        split_prefix_chars remaining (MAX_CHUNK - char_count pending - char_count (boundary_text b))"
      by (simp add: split_prefix_chars_def char_count_def)
    have tail: "piece_text (BNone, drop ?k remaining) = drop ?k remaining"
      by (simp add: piece_text_def)
    have all: "pending @ piece_text (b, remaining) = ?p @ drop ?k remaining"
      using False by (simp add: piece_text_def)
    have le: "length ?p \<le> MAX_CHUNK"
      using room by (simp add: char_count_def)
    note step = append_loop.simps [of chunks pending b remaining]
    show ?thesis
    proof (cases "MIN_CHUNK \<le> length ?p")
      case True
      with le have sz: "sized ?p" by (simp add: sized_def)
      have ok: "pending_ok []" by (simp add: pending_ok_def MIN_CHUNK_def)
      obtain new pending' where
        r: "append_loop (chunks @ [?p]) [] BNone (drop ?k remaining) = Some ((chunks @ [?p]) @ new, pending')"
        and p: "pending_ok pending'" "\<forall>c \<in> set new. sized c" "concat new @ pending' = drop ?k remaining"
        using "1.IH"(2) [OF False room(1) refl refl room(2) split refl refl] True ok tail
        by (auto simp: char_count_def)
      have "append_loop chunks pending b remaining = Some (chunks @ (?p # new), pending')"
        using False room True r by (subst step) (simp add: split_prefix_chars_def char_count_def Let_def)
      then show ?thesis using p sz all by (intro exI [of _ "?p # new"] exI [of _ pending']) auto
    next
      case False': False
      have ok: "pending_ok ?p" using False' by (simp add: pending_ok_def)
      obtain new pending' where
        r: "append_loop chunks ?p BNone (drop ?k remaining) = Some (chunks @ new, pending')"
        and p: "pending_ok pending'" "\<forall>c \<in> set new. sized c" "concat new @ pending' = ?p @ drop ?k remaining"
        using "1.IH"(3) [OF False room(1) refl refl room(2) split refl refl] False' ok tail
        by (auto simp: char_count_def)
      have "append_loop chunks pending b remaining = Some (chunks @ new, pending')"
        using False room False' r by (subst step) (simp add: split_prefix_chars_def char_count_def Let_def)
      then show ?thesis using p all by (intro exI [of _ new] exI [of _ pending']) auto
    qed
  qed
qed

lemma append_all_correct:
  "pending_ok pending \<Longrightarrow>
   \<exists>new pending'. append_all (chunks, pending) ps = Some (chunks @ new, pending')
     \<and> pending_ok pending' \<and> (\<forall>c \<in> set new. sized c)
     \<and> concat new @ pending' = pending @ concat (map piece_text ps)"
proof (induction ps arbitrary: chunks pending)
  case (Cons p ps)
  obtain new pending' where 1: "append_piece (chunks, pending) p = Some (chunks @ new, pending')"
    "pending_ok pending'" "\<forall>c \<in> set new. sized c" "concat new @ pending' = pending @ piece_text p"
    using append_loop_correct [OF Cons.prems, of chunks "fst p" "snd p"] by (auto simp: append_piece_def)
  obtain new2 pending2 where 2: "append_all (chunks @ new, pending') ps = Some ((chunks @ new) @ new2, pending2)"
    "pending_ok pending2" "\<forall>c \<in> set new2. sized c"
    "concat new2 @ pending2 = pending' @ concat (map piece_text ps)"
    using Cons.IH [OF 1(2)] by blast
  have "concat (new @ new2) @ pending2 = pending @ concat (map piece_text (p # ps))"
    using 1(4) 2(4) by simp
  then show ?case
    using 1 2 by (intro exI [of _ "new @ new2"] exI [of _ pending2]) auto
qed auto

section \<open>Lines and paragraphs\<close>

lemma slice_drop: "start \<le> i \<Longrightarrow> slice s start i @ drop i s = drop start s"
  by (simp add: slice_def) (metis append_take_drop_id drop_drop le_add_diff_inverse2)

lemma wrap_loop_concat: "sorted (start # is) \<Longrightarrow> concat (wrap_loop line start is) = drop start line"
proof (induction line start "is" rule: wrap_loop.induct)
  case (2 line start i "is")
  then show ?case by (auto simp: slice_drop)
qed simp

lemma wrap_loop_hd: "line \<noteq> [] \<Longrightarrow> wrap_loop line 0 is \<noteq> [] \<and> hd (wrap_loop line 0 is) \<noteq> []"
  by (induction line "0::nat" "is" rule: wrap_loop.induct) (auto simp: slice_def)

lemma hard_wrap_concat: "concat (hard_wrap line) = line"
  by (simp add: hard_wrap_def wrap_loop_concat sorted_wrt_upt)

lemma hard_wrap_hd: "line \<noteq> [] \<Longrightarrow> hard_wrap line \<noteq> [] \<and> hd (hard_wrap line) \<noteq> []"
  by (simp add: hard_wrap_def wrap_loop_hd)

lemma piece_text_BNone: "concat (map piece_text (map (\<lambda>p. (BNone, p)) ps)) = concat ps"
  by (induction ps) (auto simp: piece_text_def)

lemma line_pieces_text:
  assumes "line \<noteq> []"
  shows "concat (map piece_text (line_pieces pi li line)) =
     (if 0 < li then [nl] else if 0 < pi then [nl, nl] else []) @ line"
proof -
  obtain part parts where w: "hard_wrap line = part # parts" and ne: "part \<noteq> []"
    using hard_wrap_hd [OF assms] by (cases "hard_wrap line") auto
  have "part @ concat parts = line" using hard_wrap_concat [of line] w by simp
  then show ?thesis
    using ne piece_text_BNone [of parts] by (simp add: line_pieces_def w piece_text_def comp_def)
qed

lemma join_concat: "join sep (x # xs) = x @ concat (map (\<lambda>y. sep @ y) xs)"
  by (induction xs arbitrary: x) auto

lemma enumerate_pieces:
  "\<forall>l \<in> set ls. l \<noteq> [] \<Longrightarrow> 0 < n \<Longrightarrow>
   concat (map piece_text (concat (map (\<lambda>(li, line). line_pieces pi li line) (enumerate n ls))))
     = concat (map (\<lambda>y. [nl] @ y) ls)"
proof (induction ls arbitrary: n)
  case (Cons l ls)
  then show ?case using line_pieces_text [of l pi n] by simp
qed simp

definition solid :: "ustr \<Rightarrow> bool" where
  "solid p = (\<forall>l \<in> set (split_on nl p). l \<noteq> [])"

lemma paragraph_pieces_text:
  assumes "solid p"
  shows "concat (map piece_text (paragraph_pieces (pi, p))) = (if 0 < pi then [nl, nl] else []) @ p"
proof -
  obtain l ls where ls: "split_on nl p = l # ls" by (cases "split_on nl p") auto
  have ne: "l \<noteq> []" "\<forall>x \<in> set ls. x \<noteq> []" using assms ls by (auto simp: solid_def)
  have p: "p = l @ concat (map (\<lambda>y. nl # y) ls)" using join_split_on [of nl p] ls by (simp add: join_concat)
  have "concat (map piece_text (paragraph_pieces (pi, p))) =
      (if 0 < pi then [nl, nl] else []) @ l @ concat (map (\<lambda>y. nl # y) ls)"
    using line_pieces_text [OF ne(1), of pi 0] enumerate_pieces [OF ne(2), of 1 pi]
    by (simp add: paragraph_pieces_def ls)
  with p show ?thesis by simp
qed

lemma enumerate_paragraphs:
  "\<forall>p \<in> set ps. solid p \<Longrightarrow> 0 < n \<Longrightarrow>
   concat (map piece_text (concat (map paragraph_pieces (enumerate n ps))))
     = concat (map (\<lambda>y. [nl, nl] @ y) ps)"
proof (induction ps arbitrary: n)
  case (Cons p ps)
  then show ?case using paragraph_pieces_text [of p n] by simp
qed simp

lemma all_pieces_text:
  "\<forall>p \<in> set ps. solid p \<Longrightarrow>
   concat (map piece_text (concat (map paragraph_pieces (enumerate 0 ps)))) = join [nl, nl] ps"
proof (cases ps)
  case (Cons p ps')
  assume "\<forall>p \<in> set ps. solid p"
  then show ?thesis
    using Cons paragraph_pieces_text [of p 0] enumerate_paragraphs [of ps' 1] by (simp add: join_concat)
qed simp

subsection \<open>Every line of a paragraph has text\<close>

lemma dropWhile_join:
  "\<exists>c \<in> set l. \<not> P c \<Longrightarrow> dropWhile P (join sep (l # ls)) = join sep (dropWhile P l # ls)"
  by (cases ls) (auto simp: dropWhile_append1)

lemma rev_join: "rev (join sep ls) = join (rev sep) (map rev (rev ls))"
proof (induction sep ls rule: join.induct)
  case (3 sep x y xs)
  have snoc: "zs \<noteq> [] \<Longrightarrow> join s (zs @ [z]) = join s zs @ s @ z" for s z :: "'a list" and zs
    by (induction s zs rule: join.induct) auto
  show ?case using 3 snoc [of "map rev (rev xs) @ [rev y]" "rev sep" "rev x"] by simp
qed auto

lemma trim_join:
  assumes "ls \<noteq> []" and "\<forall>l \<in> set ls. trim l \<noteq> []" and "\<forall>l \<in> set ls. nl \<notin> set l"
  shows "solid (trim (join [nl] ls))"
proof -
  have vis: "\<exists>c \<in> set l. \<not> is_whitespace c" if "l \<in> set ls" for l
    using assms(2) that by (auto simp: trim_eq_Nil_iff)
  let ?d = "dropWhile is_whitespace"
  have dvis: "\<exists>c \<in> set (?d l). \<not> is_whitespace c" if "\<exists>c \<in> set l. \<not> is_whitespace c" for l
    using that by (meson dropWhile_eq_Nil_conv hd_dropWhile hd_in_set)
  obtain l rest where ls: "ls = l # rest" using assms(1) by (cases ls) auto
  define ms where "ms = ?d l # rest"
  have start: "trim_start_matches is_whitespace (join [nl] ls) = join [nl] ms"
    using vis [of l] by (simp add: trim_start_matches_def ls ms_def dropWhile_join)
  have ms: "\<forall>m \<in> set ms. (\<exists>c \<in> set m. \<not> is_whitespace c) \<and> nl \<notin> set m"
    using vis dvis [of l] assms(3) ls by (auto simp: ms_def dest: set_dropWhileD)
  obtain ks k where k: "ms = ks @ [k]" by (metis ms_def list.distinct(1) rev_exhaust)
  have "rev (join [nl] ms) = join [nl] (rev k # map rev (rev ks))" by (simp add: rev_join k)
  then have "?d (rev (join [nl] ms)) = join [nl] (?d (rev k) # map rev (rev ks))"
    using ms k by (simp only:) (intro dropWhile_join, auto)
  then have "trim (join [nl] ls) = join [nl] (ks @ [rev (?d (rev k))])"
    by (simp add: trim_def trim_matches_def start trim_end_matches_def rev_join rev_map)
  moreover have "rev (?d (rev k)) \<noteq> []" "nl \<notin> set (rev (?d (rev k)))"
    using ms k dvis [of "rev k"] by (auto dest: set_dropWhileD)
  moreover have "split_on nl (join [nl] (ks @ [rev (?d (rev k))])) = ks @ [rev (?d (rev k))]"
    using ms k calculation(3) by (intro split_on_join) auto
  ultimately show ?thesis
    using ms k by (auto simp: solid_def)
qed

lemma logical_lines_no_nl: "nl \<notin> set cur \<Longrightarrow> l \<in> set (logical_lines cur s) \<Longrightarrow> nl \<notin> set l"
  by (induction cur s rule: logical_lines.induct) (auto split: if_splits)

lemma paragraph_loop_solid:
  assumes "\<forall>l \<in> set ls. nl \<notin> set l" and "\<forall>l \<in> set lines. trim l \<noteq> [] \<and> nl \<notin> set l"
    and "\<forall>p \<in> set ps. solid p"
  shows "\<forall>p \<in> set (paragraph_loop ps lines ls). solid p"
proof -
  have push: "\<forall>p \<in> set (push_paragraph ps' lines'). solid p"
    if "\<forall>l \<in> set lines'. trim l \<noteq> [] \<and> nl \<notin> set l" "\<forall>p \<in> set ps'. solid p" for ps' lines'
    using that trim_join [of lines'] by (auto simp: push_paragraph_def Let_def)
  show ?thesis
    using assms by (induction ps lines ls rule: paragraph_loop.induct) (auto simp: push)
qed

lemma paragraphs_solid: "\<forall>p \<in> set (paragraphs text). solid p"
  unfolding paragraphs_def by (rule paragraph_loop_solid) (use logical_lines_no_nl [of "[]"] in auto)

subsection \<open>No visible character is lost\<close>

abbreviation visible :: "uchar \<Rightarrow> bool" where "visible c \<equiv> \<not> is_whitespace c"

lemma whitespace_nl_cr [simp]: "is_whitespace nl" "is_whitespace cr"
  by (simp_all add: is_whitespace_def)

lemma visible_trim [simp]: "filter visible (trim s) = filter visible s"
proof -
  obtain a b where s: "s = a @ trim s @ b" "\<forall>c \<in> set a. is_whitespace c" "\<forall>c \<in> set b. is_whitespace c"
    using trim_matches_decomp [of s is_whitespace] unfolding trim_def by blast
  have "filter visible s = filter visible (a @ trim s @ b)" using s(1) by metis
  then show ?thesis using s(2,3) by simp
qed

lemma visible_join: "\<forall>c \<in> set sep. is_whitespace c \<Longrightarrow> filter visible (join sep xs) = filter visible (concat xs)"
  by (induction sep xs rule: join.induct) auto

lemma visible_logical_lines: "filter visible (concat (logical_lines cur s)) = filter visible (cur @ s)"
proof (induction cur s rule: logical_lines.induct)
  case (2 cur c cs)
  then show ?case by (cases cs) auto
qed simp

lemma visible_push: "filter visible (concat (push_paragraph ps ls)) = filter visible (concat ps @ concat ls)"
proof -
  have "trim (join [nl] ls) = [] \<Longrightarrow> filter visible (concat ls) = []"
    using visible_trim [of "join [nl] ls"] visible_join [of "[nl]" ls] by simp
  then show ?thesis using visible_join [of "[nl]" ls] by (simp add: push_paragraph_def Let_def)
qed

lemma visible_paragraph_loop:
  "filter visible (concat (paragraph_loop ps ls xs)) = filter visible (concat ps @ concat ls @ concat xs)"
proof (induction ps ls xs rule: paragraph_loop.induct)
  case (2 ps ls l xs)
  have "trim l = [] \<Longrightarrow> filter visible l = []" using visible_trim [of l] by simp
  with 2 show ?case by (simp add: visible_push)
qed (simp add: visible_push)

lemma visible_paragraphs: "filter visible (join [nl, nl] (paragraphs t)) = filter visible t"
  using visible_paragraph_loop [of "[]" "[]" "logical_lines [] t"] visible_logical_lines [of "[]" t]
  by (simp add: visible_join paragraphs_def)

section \<open>Properties\<close>

lemma chunk_result:
  obtains new pending where
    "append_all ([], []) (concat (map paragraph_pieces (enumerate 0 (paragraphs t)))) = Some (new, pending)"
    "pending_ok pending" "\<forall>c \<in> set new. sized c" "concat new @ pending = join [nl, nl] (paragraphs t)"
    "chunk t = Some (if pending = [] then new else new @ [pending])"
proof -
  have ok: "pending_ok []" by (simp add: pending_ok_def MIN_CHUNK_def)
  let ?ps = "concat (map paragraph_pieces (enumerate 0 (paragraphs t)))"
  from append_all_correct [OF ok, of "[]" ?ps] obtain new pending where
    r: "append_all ([], []) ?ps = Some (new, pending)" "pending_ok pending" "\<forall>c \<in> set new. sized c"
      "concat new @ pending = concat (map piece_text ?ps)" by auto
  then show thesis using that [of new pending] all_pieces_text [OF paragraphs_solid [of t]]
    by (simp add: chunk_def)
qed

text \<open>C3: Chunking always succeeds: the checked subtraction in \<open>append_piece\<close> never underflows and the
  loop terminates. The chunks concatenate to exactly the trimmed paragraphs of the t joined by
  blank lines, so every visible character of the t occurs in the chunks once and in order.\<close>

theorem chunk_preserves_text:
  "\<exists>cs. chunk t = Some cs \<and> concat cs = join [nl, nl] (paragraphs t)
        \<and> filter visible (concat cs) = filter visible t"
proof -
  obtain new pending where "concat new @ pending = join [nl, nl] (paragraphs t)"
    "chunk t = Some (if pending = [] then new else new @ [pending])"
    by (rule chunk_result [of t])
  then show ?thesis using visible_paragraphs [of t] by auto
qed

text \<open>C4: Every chunk of a text is non-empty and has at most \<open>MAX_CHUNK\<close> characters, and every chunk
  but the last has at least \<open>MIN_CHUNK\<close>.\<close>

theorem chunk_sizes:
  assumes "chunk t = Some cs"
  shows "(\<forall>c \<in> set cs. c \<noteq> [] \<and> char_count c \<le> MAX_CHUNK)
       \<and> (\<forall>c \<in> set (butlast cs). MIN_CHUNK \<le> char_count c)"
proof -
  obtain new pending where p: "pending_ok pending" and new: "\<forall>c \<in> set new. sized c"
    and cs: "chunk t = Some (if pending = [] then new else new @ [pending])"
    by (rule chunk_result [of t])
  have "sized c \<Longrightarrow> c \<noteq> []" for c by (auto simp: sized_def MIN_CHUNK_def)
  with p new cs assms show ?thesis
    by (auto simp: sized_def pending_ok_def char_count_def MIN_CHUNK_def MAX_CHUNK_def butlast_append
        dest!: in_set_butlastD split: if_splits)
qed

text \<open>\<open>chunks_for_page\<close> numbers the chunks of the page body consecutively from zero, keeps their
  t, and prefixes every embedding t with a heading of at most \<open>MAX_TITLE_CHARS\<close> characters;
  it reports \<open>TooManyChunks\<close> exactly when an ordinal would not fit into 32 bits.\<close>

lemma chunks_for_page_ordinals:
  "\<exists>cs. chunk (page_body (parse_frontmatter source)) = Some cs \<and>
     (if length cs \<le> 2 ^ 32
      then \<exists>pages. chunks_for_page path source = Some (Inr pages)
             \<and> map chunk_ordinal pages = [0..<length cs] \<and> map chunk_text pages = cs
             \<and> (\<forall>c \<in> set pages. \<exists>head. length head \<le> MAX_TITLE_CHARS
                  \<and> chunk_embed_text c = head @ [nl, nl] @ chunk_text c)
      else chunks_for_page path source = Some (Inl TooManyChunks))"
proof -
  obtain cs where cs: "chunk (page_body (parse_frontmatter source)) = Some cs"
    by (rule chunk_result)
  let ?t = "title_for path (page_fields (parse_frontmatter source))"
  let ?g = "\<lambda>(i, t). \<lparr>chunk_ordinal = i, chunk_text = t,
                chunk_embed_text = embed_text_for path t (Some ?t)\<rparr>"
  let ?f = "\<lambda>(i, t). if i < 2 ^ 32
      then Inr \<lparr>chunk_ordinal = i, chunk_text = t, chunk_embed_text = embed_text_for path t (Some ?t)\<rparr>
      else Inl TooManyChunks"
  have cfp: "chunks_for_page path source = Some (try_map ?f (enumerate 0 cs))"
    by (simp add: chunks_for_page_def Let_def cs)
  show ?thesis
  proof (cases "length cs \<le> 2 ^ 32")
    case True
    have "try_map ?f (enumerate 0 cs) = Inr (map ?g (enumerate 0 cs))"
      using True by (intro try_map_total) (auto simp: in_set_enumerate_eq)
    moreover have "\<exists>head. length head \<le> MAX_TITLE_CHARS
        \<and> embed_text_for path x (Some ?t) = head @ [nl, nl] @ x" for x
      by (auto simp: embed_text_for_def truncate_chars_def intro!: exI)
    ultimately show ?thesis
      using cs cfp True by (auto simp: comp_def case_prod_unfold)
  next
    case False
    have "\<exists>e. try_map ?f (enumerate 0 cs) = Inl e"
    proof (rule ccontr)
      assume "\<nexists>e. try_map ?f (enumerate 0 cs) = Inl e"
      then obtain ys where ys: "try_map ?f (enumerate 0 cs) = Inr ys" by (meson sumE)
      have "(2 ^ 32, cs ! (2 ^ 32)) \<in> set (enumerate 0 cs)" using False by (simp add: in_set_enumerate_eq)
      from try_map_Inr_in [OF ys this] show False by simp
    qed
    then obtain e where "try_map ?f (enumerate 0 cs) = Inl e" by blast
    then show ?thesis using cs cfp False by (cases e) auto
  qed
qed

section \<open>Witnesses\<close>

theorem chunk_sizes_witness:
  "chunk (lit ''Hello'') = Some [lit ''Hello''] \<and> char_count (lit ''Hello'') \<le> MAX_CHUNK"
proof -
  have h: "chunk (lit ''Hello'') = Some [lit ''Hello'']" by code_simp
  from chunk_sizes [OF h] show ?thesis using h by simp
qed

lemma chunks_for_page_ordinals_example:
  "\<exists>pages. chunks_for_page (lit ''/m/night-mode.md'') (lit ''Hello'') = Some (Inr pages)
     \<and> map chunk_ordinal pages = [0] \<and> map chunk_text pages = [lit ''Hello'']"
proof -
  have h: "chunk (page_body (parse_frontmatter (lit ''Hello''))) = Some [lit ''Hello'']" by code_simp
  from chunks_for_page_ordinals [of "lit ''Hello''" "lit ''/m/night-mode.md''"] show ?thesis
    by (auto simp: h)
qed

end
