(* ===== verification/Float64.thy ===== *)
theory Float64
  imports Complex_Main Yams_Prelude "HOL-Library.Log_Nat"
begin

text \<open>
  Rust's \<open>f64\<close>: IEEE 754 binary64 with round to nearest, ties to even. A finite value keeps
  its sign bit and the exact rational magnitude, so both zeros exist and every operation is the
  exact rational operation followed by one rounding (\<open>round_mag\<close>). \<open>NaN\<close> keeps only its sign:
  no code modelled here looks at a payload. \<open>f32\<close> vector components are \<open>f64\<close> values here,
  since the code widens each of them exactly (\<open>f64::from\<close>) before it computes.
\<close>

section \<open>Definitions\<close>

datatype f64 = NaN bool | Inf bool | Fin bool rat

text \<open>Rounding of a positive rational to 53 significant bits, with the subnormal floor.\<close>

definition floor_log2 :: "rat \<Rightarrow> int" where
  "floor_log2 q =
     (let (a, b) = quotient_of q; e = bitlen a - bitlen b
      in if power_int 2 e \<le> q then e else e - 1)"

definition round_half_even :: "rat \<Rightarrow> int" where
  "round_half_even q =
     (let n = \<lfloor>q\<rfloor>; d = q - of_int n
      in if d < 1/2 then n else if 1/2 < d then n + 1 else if even n then n else n + 1)"

definition ulp :: "rat \<Rightarrow> rat" where
  "ulp q = power_int 2 (max (floor_log2 q) (-1022) - 52)"

definition round_mag :: "rat \<Rightarrow> rat" where
  "round_mag q = (if q = 0 then 0 else of_int (round_half_even (q / ulp q)) * ulp q)"

definition f64_overflow :: rat where
  "f64_overflow = 2 ^ 1024"

definition f64_of_mag :: "bool \<Rightarrow> rat \<Rightarrow> f64" where
  "f64_of_mag s q = (let r = round_mag q in if f64_overflow \<le> r then Inf s else Fin s r)"

definition f64_round :: "rat \<Rightarrow> f64" where
  "f64_round q = f64_of_mag (q < 0) \<bar>q\<bar>"

definition f64_of_nat :: "nat \<Rightarrow> f64" where
  "f64_of_nat n = f64_round (of_nat n)"

fun is_finite :: "f64 \<Rightarrow> bool" where
  "is_finite (Fin s q) = True"
| "is_finite _ = False"

fun f64_val :: "f64 \<Rightarrow> rat" where
  "f64_val (Fin s q) = (if s then - q else q)"
| "f64_val _ = 0"

fun f64_add :: "f64 \<Rightarrow> f64 \<Rightarrow> f64" where
  "f64_add (NaN s) _ = NaN s"
| "f64_add _ (NaN s) = NaN s"
| "f64_add (Inf s) (Inf t) = (if s = t then Inf s else NaN False)"
| "f64_add (Inf s) (Fin _ _) = Inf s"
| "f64_add (Fin _ _) (Inf t) = Inf t"
| "f64_add (Fin s p) (Fin t q) =
     (let v = f64_val (Fin s p) + f64_val (Fin t q)
      in if v = 0 then Fin (s \<and> t) 0 else f64_round v)"

fun f64_neg :: "f64 \<Rightarrow> f64" where
  "f64_neg (NaN s) = NaN (\<not> s)"
| "f64_neg (Inf s) = Inf (\<not> s)"
| "f64_neg (Fin s q) = Fin (\<not> s) q"

definition f64_sub :: "f64 \<Rightarrow> f64 \<Rightarrow> f64" where
  "f64_sub a b = f64_add a (f64_neg b)"

fun f64_mul :: "f64 \<Rightarrow> f64 \<Rightarrow> f64" where
  "f64_mul (NaN s) _ = NaN s"
| "f64_mul _ (NaN s) = NaN s"
| "f64_mul (Inf s) (Inf t) = Inf (s \<noteq> t)"
| "f64_mul (Inf s) (Fin t q) = (if q = 0 then NaN False else Inf (s \<noteq> t))"
| "f64_mul (Fin s p) (Inf t) = (if p = 0 then NaN False else Inf (s \<noteq> t))"
| "f64_mul (Fin s p) (Fin t q) = f64_of_mag (s \<noteq> t) (p * q)"

fun f64_div :: "f64 \<Rightarrow> f64 \<Rightarrow> f64" where
  "f64_div (NaN s) _ = NaN s"
| "f64_div _ (NaN s) = NaN s"
| "f64_div (Inf s) (Inf t) = NaN False"
| "f64_div (Inf s) (Fin t q) = Inf (s \<noteq> t)"
| "f64_div (Fin s p) (Inf t) = Fin (s \<noteq> t) 0"
| "f64_div (Fin s p) (Fin t q) =
     (if q = 0 then (if p = 0 then NaN False else Inf (s \<noteq> t)) else f64_of_mag (s \<noteq> t) (p / q))"

text \<open>The correctly rounded square root, by an integer square root of the scaled operand.\<close>

fun isqrt :: "nat \<Rightarrow> nat" where
  "isqrt n = (if n = 0 then 0
     else let r = 2 * isqrt (n div 4) in if (r + 1) * (r + 1) \<le> n then r + 1 else r)"

definition sqrt_mag :: "rat \<Rightarrow> rat" where
  "sqrt_mag q =
     (if q = 0 then 0
      else let u = power_int 2 (floor_log2 q div 2 - 52);
               x = q / (u * u);
               m = int (isqrt (nat \<lfloor>x\<rfloor>));
               h = of_int m + 1/2
           in of_int (if x < h * h then m else if h * h < x then m + 1
                      else if even m then m else m + 1) * u)"

fun f64_sqrt :: "f64 \<Rightarrow> f64" where
  "f64_sqrt (NaN s) = NaN s"
| "f64_sqrt (Inf s) = (if s then NaN False else Inf False)"
| "f64_sqrt (Fin s q) = (if s \<and> q \<noteq> 0 then NaN False else Fin s (sqrt_mag q))"

subsection \<open>Comparisons\<close>

fun f64_lt :: "f64 \<Rightarrow> f64 \<Rightarrow> bool" where
  "f64_lt (NaN _) _ = False"
| "f64_lt _ (NaN _) = False"
| "f64_lt (Inf s) (Inf t) = (s \<and> \<not> t)"
| "f64_lt (Inf s) (Fin _ _) = s"
| "f64_lt (Fin _ _) (Inf t) = (\<not> t)"
| "f64_lt (Fin s p) (Fin t q) = (f64_val (Fin s p) < f64_val (Fin t q))"

fun f64_eq :: "f64 \<Rightarrow> f64 \<Rightarrow> bool" where
  "f64_eq (NaN _) _ = False"
| "f64_eq _ (NaN _) = False"
| "f64_eq (Inf s) (Inf t) = (s = t)"
| "f64_eq (Fin s p) (Fin t q) = (f64_val (Fin s p) = f64_val (Fin t q))"
| "f64_eq _ _ = False"

definition f64_le :: "f64 \<Rightarrow> f64 \<Rightarrow> bool" where
  "f64_le a b = (f64_lt a b \<or> f64_eq a b)"

text \<open>
  \<open>f64::total_cmp\<close> orders by the bit pattern: negative NaN, negative infinity, negative
  numbers, \<open>-0\<close>, \<open>+0\<close>, positive numbers, infinity, NaN. The key ranks the class first.
\<close>

fun total_key :: "f64 \<Rightarrow> int \<times> rat" where
  "total_key (NaN s) = (if s then -3 else 3, 0)"
| "total_key (Inf s) = (if s then -2 else 2, 0)"
| "total_key (Fin s q) = (if s then -1 else 1, if s then - q else q)"

definition total_cmp :: "f64 \<Rightarrow> f64 \<Rightarrow> ordering" where
  "total_cmp a b =
     then_with (cmp (fst (total_key a)) (fst (total_key b)))
               (cmp (snd (total_key a)) (snd (total_key b)))"

definition f64_clamp :: "f64 \<Rightarrow> f64 \<Rightarrow> f64 \<Rightarrow> f64" where
  "f64_clamp lo hi x = (if f64_lt x lo then lo else if f64_lt hi x then hi else x)"

text \<open>\<open>to_bits\<close> is only ever compared on finite values, where it is structural equality.\<close>

definition f64_sum :: "f64 list \<Rightarrow> f64" where
  "f64_sum xs = foldl f64_add (Fin True 0) xs"

text \<open>\<open>format!("{x:.4}").parse()\<close>: exact decimal rounding to four places, then one binary rounding.\<close>

fun round_dec4 :: "f64 \<Rightarrow> f64" where
  "round_dec4 (Fin s q) = f64_of_mag s (of_int (round_half_even (q * 10000)) / 10000)"
| "round_dec4 x = x"

definition f64_zero :: f64 where "f64_zero = Fin False 0"
definition f64_one :: f64 where "f64_one = Fin False 1"
definition f64_neg_one :: f64 where "f64_neg_one = Fin True 1"

text \<open>\<open>(lo..=hi).contains(&x)\<close>, false for NaN.\<close>

definition f64_contains :: "f64 \<Rightarrow> f64 \<Rightarrow> f64 \<Rightarrow> bool" where
  "f64_contains lo hi x = (f64_le lo x \<and> f64_le x hi)"

text \<open>A finite value the hardware can hold: a non-negative multiple of its own last place.\<close>

fun f64_wf :: "f64 \<Rightarrow> bool" where
  "f64_wf (Fin s q) = (0 \<le> q \<and> q < f64_overflow \<and> round_mag q = q)"
| "f64_wf _ = True"

section \<open>Rounding lemmas\<close>

lemma power_int_2_pos [simp]: "0 < (power_int 2 e :: rat)"
  by simp

lemma power_int_2_mono: "a \<le> b \<Longrightarrow> (power_int 2 a :: rat) \<le> power_int 2 b"
  by (intro power_int_increasing) auto

lemma power_int_2_less_iff [simp]: "(power_int 2 a :: rat) < power_int 2 b \<longleftrightarrow> a < b"
proof
  show "a < b \<Longrightarrow> (power_int 2 a :: rat) < power_int 2 b"
    by (intro power_int_strict_increasing) auto
  show "(power_int 2 a :: rat) < power_int 2 b \<Longrightarrow> a < b"
    using power_int_2_mono [of b a] by (meson leD not_le_imp_less)
qed

lemma power_int_2_le_iff [simp]: "(power_int 2 a :: rat) \<le> power_int 2 b \<longleftrightarrow> a \<le> b"
  using power_int_2_less_iff [of b a] by linarith

lemma power_int_2_Suc: "(power_int 2 (e + 1) :: rat) = 2 * power_int 2 e"
  by (simp add: power_int_add)

lemma bitlen_bounds_rat:
  assumes "0 < a"
  shows "power_int 2 (bitlen a - 1) \<le> (of_int a :: rat)" "(of_int a :: rat) < power_int 2 (bitlen a)"
proof -
  have b: "2 ^ nat (bitlen a - 1) \<le> a" "a < 2 ^ nat (bitlen a)" and p: "0 < bitlen a"
    using bitlen_bounds [OF assms] bitlen_eq_zero_iff [of a] bitlen_nonneg [of a] assms by auto
  have "(of_int (2 ^ nat (bitlen a - 1)) :: rat) \<le> of_int a" using b(1) by (simp only: of_int_le_iff)
  then show "power_int 2 (bitlen a - 1) \<le> (of_int a :: rat)" using p by (simp add: power_int_def)
  have "(of_int a :: rat) < of_int (2 ^ nat (bitlen a))" using b(2) by (simp only: of_int_less_iff)
  then show "(of_int a :: rat) < power_int 2 (bitlen a)" using p by (simp add: power_int_def)
qed

lemma floor_log2_bounds:
  assumes "0 < q"
  shows "power_int 2 (floor_log2 q) \<le> q" "q < power_int 2 (floor_log2 q + 1)"
proof -
  obtain a b where ab: "quotient_of q = (a, b)" by (cases "quotient_of q")
  have q: "q = of_int a / of_int b" and b: "0 < b"
    using ab quotient_of_div quotient_of_denom_pos by auto
  have a: "0 < a" using assms b q by (simp add: zero_less_divide_iff)
  define e where "e = bitlen a - bitlen b"
  have "q < power_int 2 (e + 1)"
  proof -
    have "q < power_int 2 (bitlen a) / power_int 2 (bitlen b - 1)"
      unfolding q by (intro frac_less bitlen_bounds_rat a b) (use a b in auto)
    also have "\<dots> = power_int 2 (e + 1)" by (simp add: e_def power_int_diff power_int_add)
    finally show ?thesis .
  qed
  moreover have "power_int 2 (e - 1) \<le> q"
  proof -
    have "power_int 2 (bitlen a - 1) / power_int 2 (bitlen b) \<le> q"
      unfolding q by (intro frac_le) (use a b bitlen_bounds_rat in \<open>auto intro: less_imp_le\<close>)
    then show ?thesis by (simp add: e_def power_int_diff)
  qed
  ultimately show "power_int 2 (floor_log2 q) \<le> q" "q < power_int 2 (floor_log2 q + 1)"
    using ab by (auto simp: floor_log2_def Let_def e_def [symmetric] split: if_splits)
qed

lemma floor_log2_unique:
  assumes "0 < q" "power_int 2 e \<le> q" "q < power_int 2 (e + 1)"
  shows "floor_log2 q = e"
proof -
  have "power_int 2 e < (power_int 2 (floor_log2 q + 1) :: rat)"
    using assms floor_log2_bounds(2) [OF assms(1)] by linarith
  moreover have "(power_int 2 (floor_log2 q) :: rat) < power_int 2 (e + 1)"
    using assms floor_log2_bounds(1) [OF assms(1)] by linarith
  ultimately show ?thesis by simp
qed

lemma floor_log2_mono: "0 < p \<Longrightarrow> p \<le> q \<Longrightarrow> floor_log2 p \<le> floor_log2 q"
proof -
  assume p: "0 < p" "p \<le> q"
  have "(power_int 2 (floor_log2 p) :: rat) < power_int 2 (floor_log2 q + 1)"
    using floor_log2_bounds(1) [of p] floor_log2_bounds(2) [of q] p by linarith
  then show ?thesis by simp
qed

lemma round_half_even_of_int [simp]: "round_half_even (of_int n) = n"
  by (simp add: round_half_even_def)

lemma round_half_even_bounds: "\<lfloor>q\<rfloor> \<le> round_half_even q" "round_half_even q \<le> \<lfloor>q\<rfloor> + 1"
  by (auto simp: round_half_even_def Let_def)

lemma round_half_even_mono: "p \<le> q \<Longrightarrow> round_half_even p \<le> round_half_even q"
proof -
  assume pq: "p \<le> q"
  have fl: "\<lfloor>p\<rfloor> \<le> \<lfloor>q\<rfloor>" using pq by (rule floor_mono)
  show ?thesis
  proof (cases "\<lfloor>p\<rfloor> = \<lfloor>q\<rfloor>")
    case True
    with pq show ?thesis by (auto simp: round_half_even_def Let_def)
  next
    case False
    with fl have "\<lfloor>p\<rfloor> + 1 \<le> \<lfloor>q\<rfloor>" by simp
    then show ?thesis using round_half_even_bounds [of p] round_half_even_bounds [of q] by linarith
  qed
qed

lemma round_half_even_le: "q \<le> of_int n \<Longrightarrow> round_half_even q \<le> n"
  using round_half_even_mono [of q "of_int n"] by simp

lemma round_half_even_ge: "of_int n \<le> q \<Longrightarrow> n \<le> round_half_even q"
  using round_half_even_mono [of "of_int n" q] by simp

lemma ulp_pos [simp]: "0 < ulp q"
  by (simp add: ulp_def)

lemma ulp_scale: "power_int 2 k / ulp q = power_int 2 (k - max (floor_log2 q) (-1022) + 52)"
  by (simp add: ulp_def power_int_diff power_int_add)

lemma pow_int_of_int: "0 \<le> k \<Longrightarrow> (power_int 2 k :: rat) = of_int (2 ^ nat k)"
  by (simp add: power_int_def)

lemma round_mag_nonneg: "0 \<le> q \<Longrightarrow> 0 \<le> round_mag q"
  using round_half_even_ge [of 0 "q / ulp q"] ulp_pos [of q]
  by (simp add: round_mag_def del: ulp_pos)

lemma round_mag_le_pow:
  assumes "0 \<le> q" "q \<le> power_int 2 k" "-1022 \<le> k"
  shows "round_mag q \<le> power_int 2 k"
proof (cases "q = 0")
  case False
  with assms have q: "0 < q" by simp
  let ?E = "max (floor_log2 q) (-1022)"
  have "(power_int 2 (floor_log2 q) :: rat) \<le> power_int 2 k"
    using floor_log2_bounds(1) [OF q] assms(2) by linarith
  with assms(3) have E: "?E \<le> k" by simp
  have "q / ulp q \<le> power_int 2 k / ulp q" using assms(2) by (simp add: divide_right_mono less_imp_le)
  also have "\<dots> = of_int (2 ^ nat (k - ?E + 52))" using E by (subst ulp_scale, subst pow_int_of_int) auto
  finally have "round_half_even (q / ulp q) \<le> 2 ^ nat (k - ?E + 52)" by (rule round_half_even_le)
  then have "(of_int (round_half_even (q / ulp q)) :: rat) \<le> of_int (2 ^ nat (k - ?E + 52))"
    by (simp only: of_int_le_iff)
  also have "\<dots> = power_int 2 k / ulp q" using E by (subst ulp_scale, subst pow_int_of_int) auto
  finally show ?thesis using q by (simp add: round_mag_def field_simps)
qed (simp add: round_mag_def)

lemma round_mag_ge_pow:
  assumes "power_int 2 k \<le> q" "-1022 \<le> k"
  shows "power_int 2 k \<le> round_mag q"
proof -
  have q: "0 < q" using assms(1) power_int_2_pos [of k] by linarith
  have "(power_int 2 k :: rat) < power_int 2 (floor_log2 q + 1)"
    using floor_log2_bounds(2) [OF q] assms(1) by linarith
  then have k: "k \<le> floor_log2 q" by simp
  with assms(2) have E: "max (floor_log2 q) (-1022) = floor_log2 q" by simp
  have "(of_int (2 ^ nat 52) :: rat) = power_int 2 (floor_log2 q) / ulp q"
    by (subst ulp_scale, simp only: E, subst pow_int_of_int [symmetric]) auto
  also have "\<dots> \<le> q / ulp q" using floor_log2_bounds(1) [OF q] by (simp add: divide_right_mono less_imp_le)
  finally have "2 ^ nat 52 \<le> round_half_even (q / ulp q)" by (rule round_half_even_ge)
  then have "(of_int (2 ^ nat 52) :: rat) \<le> of_int (round_half_even (q / ulp q))"
    by (simp only: of_int_le_iff)
  then have "power_int 2 (floor_log2 q) / ulp q \<le> of_int (round_half_even (q / ulp q))"
    by (subst ulp_scale, simp only: E, subst pow_int_of_int) auto
  then have "power_int 2 (floor_log2 q) \<le> round_mag q" using q by (simp add: round_mag_def field_simps)
  moreover have "(power_int 2 k :: rat) \<le> power_int 2 (floor_log2 q)" using k by simp
  ultimately show ?thesis by linarith
qed

lemma round_mag_mono:
  assumes "0 \<le> p" "p \<le> q"
  shows "round_mag p \<le> round_mag q"
proof (cases "p = 0")
  case True
  then show ?thesis using round_mag_nonneg [of q] assms by (simp add: round_mag_def)
next
  case False
  with assms have p: "0 < p" and q: "0 < q" by auto
  let ?E = "\<lambda>q. max (floor_log2 q) (-1022)"
  have le: "?E p \<le> ?E q" using floor_log2_mono [OF p assms(2)] by auto
  show ?thesis
  proof (cases "?E p = ?E q")
    case True
    then have u: "ulp p = ulp q" by (simp add: ulp_def)
    have "p / ulp q \<le> q / ulp q" using assms(2) by (simp add: divide_right_mono less_imp_le)
    from round_half_even_mono [OF this] show ?thesis using p q u by (simp add: round_mag_def)
  next
    case False
    with le have lt: "floor_log2 p + 1 \<le> floor_log2 q" "-1022 \<le> floor_log2 q" by auto
    have "p \<le> power_int 2 (floor_log2 q)"
      using floor_log2_bounds(2) [OF p] lt(1) power_int_2_mono [OF lt(1)] by linarith
    then have "round_mag p \<le> power_int 2 (floor_log2 q)" using assms(1) lt(2) by (intro round_mag_le_pow)
    also have "\<dots> \<le> round_mag q" using floor_log2_bounds(1) [OF q] lt(2) by (rule round_mag_ge_pow)
    finally show ?thesis .
  qed
qed

lemma round_mag_exact: "0 < q \<Longrightarrow> q / ulp q = of_int n \<Longrightarrow> round_mag q = q"
  by (simp add: round_mag_def) (metis less_irrefl nonzero_divide_eq_eq round_half_even_of_int ulp_pos)

lemma round_mag_pow: "-1022 \<le> k \<Longrightarrow> round_mag (power_int 2 k) = power_int 2 k"
  by (intro order.antisym round_mag_le_pow round_mag_ge_pow) auto

lemma round_mag_0 [simp]: "round_mag 0 = 0"
  by (simp add: round_mag_def)

lemma round_mag_1 [simp]: "round_mag 1 = 1"
  using round_mag_pow [of 0] by simp

lemma round_mag_idem:
  assumes "0 \<le> q"
  shows "round_mag (round_mag q) = round_mag q"
proof (cases "round_mag q = 0")
  case False
  let ?r = "round_mag q" and ?E = "max (floor_log2 q) (-1022)"
  have q: "0 < q" and r: "0 < ?r" using False assms round_mag_nonneg [OF assms] by (auto simp: order_less_le)
  have "q < power_int 2 (?E + 1)"
    using floor_log2_bounds(2) [OF q] power_int_2_mono [of "floor_log2 q + 1" "?E + 1"] by linarith
  then have up: "?r \<le> power_int 2 (?E + 1)" using assms by (intro round_mag_le_pow) auto
  have m: "?r = of_int (round_half_even (q / ulp q)) * ulp q" using q by (simp add: round_mag_def)
  show ?thesis
  proof (cases "?r = power_int 2 (?E + 1)")
    case True
    then show ?thesis using round_mag_pow [of "?E + 1"] by simp
  next
    case False
    with up have lt: "?r < power_int 2 (?E + 1)" by simp
    have "max (floor_log2 ?r) (-1022) = ?E"
    proof (cases "-1022 \<le> floor_log2 q")
      case True
      then have "power_int 2 (floor_log2 q) \<le> ?r" using floor_log2_bounds(1) [OF q] by (rule round_mag_ge_pow [rotated])
      with True lt have "floor_log2 ?r = floor_log2 q" by (intro floor_log2_unique r) auto
      then show ?thesis by simp
    next
      case False
      then have "?E = -1022" by simp
      moreover have "(power_int 2 (floor_log2 ?r) :: rat) < power_int 2 (?E + 1)"
        using floor_log2_bounds(1) [OF r] lt by linarith
      ultimately show ?thesis by (simp only: power_int_2_less_iff)
    qed
    then have "ulp ?r = ulp q" by (simp add: ulp_def)
    then have "?r / ulp ?r = of_int (round_half_even (q / ulp q))"
      using m by (metis less_irrefl nonzero_mult_div_cancel_right ulp_pos)
    then show ?thesis using r round_mag_exact by blast
  qed
qed simp

lemma f64_of_mag_wf [simp]: "0 \<le> q \<Longrightarrow> f64_wf (f64_of_mag s q)"
  by (simp add: f64_of_mag_def Let_def round_mag_nonneg round_mag_idem)

lemma f64_of_mag_small: "0 \<le> q \<Longrightarrow> q \<le> power_int 2 k \<Longrightarrow> -1022 \<le> k \<Longrightarrow> k < 1024
    \<Longrightarrow> f64_of_mag s q = Fin s (round_mag q) \<and> round_mag q \<le> power_int 2 k"
proof -
  assume a: "0 \<le> q" "q \<le> power_int 2 k" "-1022 \<le> k" "k < 1024"
  have r: "round_mag q \<le> power_int 2 k" using a by (intro round_mag_le_pow)
  also have "(power_int 2 k :: rat) < power_int 2 (int 1024)" using a(4) by (simp only: power_int_2_less_iff)
  also have "(power_int 2 (int 1024) :: rat) = f64_overflow" by (simp only: power_int_of_nat f64_overflow_def)
  finally have "round_mag q < f64_overflow" .
  with r show ?thesis by (simp add: f64_of_mag_def Let_def)
qed

text \<open>The overflow test by the exponent, so that evaluation never builds the bound.\<close>

lemma f64_of_mag_code [code]:
  "f64_of_mag s q = (let r = round_mag q in if r \<le> 1 \<or> floor_log2 r < 1024 then Fin s r else Inf s)"
proof -
  let ?r = "round_mag q"
  have o: "f64_overflow = power_int 2 1024" unfolding f64_overflow_def by (simp only: power_int_numeral)
  have "f64_overflow \<le> ?r \<longleftrightarrow> \<not> (?r \<le> 1 \<or> floor_log2 ?r < 1024)"
  proof (cases "?r \<le> 1")
    case True
    moreover have "(1::rat) < f64_overflow" using power_int_2_less_iff [of 0 1024] unfolding o by (simp only: power_int_0_right)
    ultimately show ?thesis by auto
  next
    case False
    then have r: "0 < ?r" by simp
    note b = floor_log2_bounds [OF r]
    show ?thesis
    proof (cases "floor_log2 ?r < 1024")
      case True
      then have "(power_int 2 (floor_log2 ?r + 1) :: rat) \<le> f64_overflow" unfolding o by (simp only: power_int_2_le_iff)
      with b True False show ?thesis by auto
    next
      case F: False
      then have "f64_overflow \<le> power_int 2 (floor_log2 ?r)" unfolding o by (simp only: power_int_2_le_iff)
      with b F False show ?thesis by auto
    qed
  qed
  then show ?thesis by (auto simp: f64_of_mag_def Let_def)
qed

lemma f64_round_wf [simp]: "f64_wf (f64_round q)"
  by (simp add: f64_round_def)

lemma f64_neg_wf [simp]: "f64_wf (f64_neg a) = f64_wf a"
  by (cases a) auto

lemma f64_add_wf [simp]: "f64_wf a \<Longrightarrow> f64_wf b \<Longrightarrow> f64_wf (f64_add a b)"
  by (cases "(a, b)" rule: f64_add.cases) (auto simp: Let_def simp del: f64_val.simps)

lemma f64_mul_wf [simp]: "f64_wf a \<Longrightarrow> f64_wf b \<Longrightarrow> f64_wf (f64_mul a b)"
  by (cases "(a, b)" rule: f64_mul.cases) (auto simp: Let_def)

lemma f64_div_wf [simp]: "f64_wf a \<Longrightarrow> f64_wf b \<Longrightarrow> f64_wf (f64_div a b)"
  by (cases "(a, b)" rule: f64_div.cases) (auto simp: Let_def)

subsection \<open>Comparison lemmas\<close>

lemma rust_cmp_total: "rust_cmp total_cmp"
  unfolding total_cmp_def
  by (rule rust_cmp_then [OF rust_cmp_key [OF rust_cmp_linorder] rust_cmp_key [OF rust_cmp_linorder]])

interpretation total: rust_cmp total_cmp
  by (rule rust_cmp_total)

lemma total_key_inj: "total_key a = total_key b \<Longrightarrow> a = b"
  by (cases a; cases b) (auto split: if_splits)

lemma total_cmp_Equal_iff [simp]: "total_cmp a b = Equal \<longleftrightarrow> a = b"
  using total_key_inj by (auto simp: total_cmp_def intro: prod_eqI)

lemma total_cmp_finite_le:
  assumes "is_finite a" "is_finite b" "f64_wf a" "f64_wf b" "total_cmp a b \<noteq> Greater"
  shows "f64_val a \<le> f64_val b"
  using assms by (cases a; cases b) (auto simp: total_cmp_def then_with_Greater_iff split: if_splits)

lemma f64_lt_finite [simp]: "is_finite a \<Longrightarrow> is_finite b \<Longrightarrow> f64_lt a b \<longleftrightarrow> f64_val a < f64_val b"
  by (cases a; cases b) auto

lemma f64_le_finite [simp]: "is_finite a \<Longrightarrow> is_finite b \<Longrightarrow> f64_le a b \<longleftrightarrow> f64_val a \<le> f64_val b"
  by (cases a; cases b) (auto simp: f64_le_def)

lemma is_finite_iff: "is_finite a \<longleftrightarrow> (\<exists>s q. a = Fin s q)"
  by (cases a) auto

lemma f64_consts [simp]:
  "is_finite f64_one" "is_finite f64_neg_one" "is_finite f64_zero"
  "f64_val f64_one = 1" "f64_val f64_neg_one = -1" "f64_val f64_zero = 0"
  "f64_wf f64_one" "f64_wf f64_neg_one" "f64_wf f64_zero"
  by (simp_all add: f64_one_def f64_neg_one_def f64_zero_def f64_overflow_def)

lemma f64_clamp_range:
  assumes "is_finite x"
  shows "is_finite (f64_clamp f64_neg_one f64_one x)"
    and "-1 \<le> f64_val (f64_clamp f64_neg_one f64_one x)"
    and "f64_val (f64_clamp f64_neg_one f64_one x) \<le> 1"
  using assms by (auto simp: f64_clamp_def)

lemma f64_clamp_wf [simp]: "f64_wf lo \<Longrightarrow> f64_wf hi \<Longrightarrow> f64_wf x \<Longrightarrow> f64_wf (f64_clamp lo hi x)"
  by (simp add: f64_clamp_def)

lemma round_dec4_range:
  assumes "is_finite x" "f64_wf x" "-1 \<le> f64_val x" "f64_val x \<le> 1"
  shows "is_finite (round_dec4 x) \<and> f64_wf (round_dec4 x)
       \<and> -1 \<le> f64_val (round_dec4 x) \<and> f64_val (round_dec4 x) \<le> 1"
proof -
  obtain s q where x: "x = Fin s q" using assms(1) by (auto simp: is_finite_iff)
  with assms have q: "0 \<le> q" "q \<le> 1" by (auto split: if_splits)
  let ?d = "of_int (round_half_even (q * 10000)) / 10000 :: rat"
  have "0 \<le> round_half_even (q * 10000)" using q by (intro round_half_even_ge) simp
  then have d0: "0 \<le> ?d" by simp
  have "round_half_even (q * 10000) \<le> 10000" using q by (intro round_half_even_le) simp
  then have "(of_int (round_half_even (q * 10000)) :: rat) \<le> of_int 10000" by (simp only: of_int_le_iff)
  then have "?d \<le> power_int 2 0" by simp
  from f64_of_mag_small [OF d0 this, of s]
  have m: "f64_of_mag s ?d = Fin s (round_mag ?d)" and le: "round_mag ?d \<le> 1" by auto
  have "0 \<le> round_mag ?d" using d0 by (rule round_mag_nonneg)
  moreover have "f64_wf (f64_of_mag s ?d)" using d0 by simp
  ultimately show ?thesis using le m by (auto simp: x)
qed

lemma f64_lt_trans: "f64_lt a b \<Longrightarrow> f64_lt b c \<Longrightarrow> f64_lt a c"
  by (cases a; cases b; cases c) (auto split: if_splits)

lemma f64_lt_irrefl [simp]: "\<not> f64_lt a a"
  by (cases a) auto

lemma f64_contains_unit_iff:
  "f64_contains f64_zero f64_one x \<longleftrightarrow> is_finite x \<and> 0 \<le> f64_val x \<and> f64_val x \<le> 1"
  by (cases x) (auto simp: f64_contains_def f64_le_def f64_zero_def f64_one_def)

lemma f64_div_unit:
  assumes "is_finite a" "is_finite b" "0 \<le> f64_val a" "f64_val a \<le> f64_val b" "0 < f64_val b"
    and "f64_wf a" "f64_wf b"
  shows "f64_contains f64_zero f64_one (f64_div a b)"
proof -
  obtain s p t q where ab: "a = Fin s p" "b = Fin t q" using assms(1,2) by (auto simp: is_finite_iff)
  with assms have t: "\<not> t" "0 < q" and p: "0 \<le> p" by (auto split: if_splits)
  have sp: "s \<Longrightarrow> p = 0" "p \<le> q" using assms ab t p by (auto split: if_splits)
  have d: "0 \<le> p / q" "p / q \<le> power_int 2 0" using p t sp by (auto simp: divide_le_eq_1)
  from f64_of_mag_small [OF d, of s] t sp(1) round_mag_nonneg [OF d(1)]
  show ?thesis by (auto simp: ab f64_contains_unit_iff)
qed

lemma f64_of_nat_finite:
  assumes "n \<le> 2 ^ 64"
  shows "is_finite (f64_of_nat n)" "0 \<le> f64_val (f64_of_nat n)" "f64_wf (f64_of_nat n)"
    and "0 < n \<Longrightarrow> 1 \<le> f64_val (f64_of_nat n)" and "f64_val (f64_of_nat n) \<le> power_int 2 64"
proof -
  have n: "(of_nat n :: rat) \<le> power_int 2 64"
    using assms by (metis of_nat_le_iff of_nat_numeral of_nat_power power_int_numeral)
  have m: "f64_of_nat n = Fin False (round_mag (of_nat n))"
    using f64_of_mag_small [OF _ n, of False] by (simp add: f64_of_nat_def f64_round_def)
  then show "is_finite (f64_of_nat n)" "0 \<le> f64_val (f64_of_nat n)"
    using round_mag_nonneg [of "of_nat n"] by auto
  show "f64_val (f64_of_nat n) \<le> power_int 2 64"
    using f64_of_mag_small [OF _ n, of False] by (simp add: m)
  show "f64_wf (f64_of_nat n)" by (simp add: f64_of_nat_def)
  show "0 < n \<Longrightarrow> 1 \<le> f64_val (f64_of_nat n)"
    using round_mag_mono [of 1 "of_nat n"] by (simp add: m)
qed

lemma f64_div_shrink:
  assumes "is_finite a" "is_finite b" "0 \<le> f64_val a" "1 \<le> f64_val b" "f64_wf a" "f64_wf b"
  shows "is_finite (f64_div a b)" "0 \<le> f64_val (f64_div a b)" "f64_val (f64_div a b) \<le> f64_val a"
proof -
  obtain s p t q where ab: "a = Fin s p" "b = Fin t q" using assms(1,2) by (auto simp: is_finite_iff)
  with assms have t: "\<not> t" "1 \<le> q" and p: "0 \<le> p" "s \<Longrightarrow> p = 0" by (auto split: if_splits)
  have "p / q \<le> p" using p t by (simp add: field_simps mult_le_cancel_left1)
  then have r: "round_mag (p / q) \<le> p" "0 \<le> round_mag (p / q)"
    using round_mag_mono [of "p / q" p] p t assms(5) by (auto simp: ab intro: round_mag_nonneg)
  have "p < f64_overflow" using assms(5) by (simp add: ab)
  with r have "f64_of_mag s (p / q) = Fin s (round_mag (p / q))" by (simp add: f64_of_mag_def)
  with t r p show "is_finite (f64_div a b)" "0 \<le> f64_val (f64_div a b)" "f64_val (f64_div a b) \<le> f64_val a"
    by (auto simp: ab)
qed

lemma f64_add_one:
  assumes "is_finite b" "0 \<le> f64_val b" "f64_val b \<le> power_int 2 64"
  shows "is_finite (f64_add f64_one b)" "1 \<le> f64_val (f64_add f64_one b)"
proof -
  obtain t q where b: "b = Fin t q" using assms(1) by (auto simp: is_finite_iff)
  let ?v = "1 + f64_val b"
  have v: "1 \<le> ?v" "?v \<le> power_int 2 65" using assms(2,3) by auto
  have "f64_add f64_one b = Fin False (round_mag ?v)"
    using v f64_of_mag_small [of ?v 65 False] by (simp add: b f64_one_def f64_round_def Let_def)
  moreover have "1 \<le> round_mag ?v" using round_mag_mono [of 1 ?v] v by simp
  ultimately show "is_finite (f64_add f64_one b)" "1 \<le> f64_val (f64_add f64_one b)" by auto
qed

lemma f64_add_nonneg:
  assumes "is_finite a" "is_finite b" "0 \<le> f64_val a" "0 \<le> f64_val b" "f64_wf a" "f64_wf b"
    and "f64_val a \<le> power_int 2 k" "f64_val b \<le> power_int 2 k" "-1022 \<le> k" "k < 1023"
  shows "is_finite (f64_add a b)" "f64_val a \<le> f64_val (f64_add a b)" "f64_val b \<le> f64_val (f64_add a b)"
    and "f64_val (f64_add a b) \<le> power_int 2 (k + 1)"
proof -
  obtain s p t q where ab: "a = Fin s p" "b = Fin t q" using assms(1,2) by (auto simp: is_finite_iff)
  let ?v = "f64_val a + f64_val b"
  have v: "0 \<le> ?v" "?v \<le> power_int 2 (k + 1)" using assms(3,4,7,8) by (auto simp: power_int_2_Suc)
  have pq: "f64_val a = p" "f64_val b = q" "0 \<le> p" "0 \<le> q"
    using assms(3-6) by (auto simp: ab split: if_splits)
  have add: "f64_val (f64_add a b) = round_mag ?v" "is_finite (f64_add a b)"
    using f64_of_mag_small [OF v, of False] assms(9,10) v(1)
    by (auto simp: ab f64_round_def Let_def simp del: f64_val.simps) auto
  have "round_mag p \<le> round_mag ?v" "round_mag q \<le> round_mag ?v"
    using pq by (auto intro!: round_mag_mono)
  moreover have "round_mag p = p" "round_mag q = q" using assms(5,6) by (auto simp: ab)
  ultimately show "is_finite (f64_add a b)" "f64_val a \<le> f64_val (f64_add a b)" "f64_val b \<le> f64_val (f64_add a b)"
    using add pq by auto
  show "f64_val (f64_add a b) \<le> power_int 2 (k + 1)"
    using f64_of_mag_small [OF v] assms(9,10) add(1) by auto
qed

lemma f64_round_le:
  assumes "is_finite a" "f64_wf a" "v \<le> f64_val a"
  shows "f64_le (f64_round v) a"
proof -
  obtain s p where a: "a = Fin s p" using assms(1) by (auto simp: is_finite_iff)
  have p: "0 \<le> p" "p < f64_overflow" "round_mag p = p" using assms(2) by (auto simp: a)
  note nn = round_mag_nonneg [of "\<bar>v\<bar>"]
  consider "0 \<le> v" "v \<le> p" "\<not> s \<or> p = 0" | "v < 0" "\<not> s \<or> p = 0" | "v < 0" "p \<le> \<bar>v\<bar>" "s"
    using assms(3) p(1) by (cases s) (auto simp: a abs_if, linarith+)
  then show ?thesis
  proof cases
    case 1
    have "round_mag v \<le> p" using round_mag_mono [of v p] 1 p by simp
    with 1 p nn show ?thesis by (auto simp: a f64_round_def f64_of_mag_def f64_le_def Let_def)
  next
    case 2
    with p nn show ?thesis by (auto simp: a f64_round_def f64_of_mag_def f64_le_def Let_def)
  next
    case 3
    have "p \<le> round_mag \<bar>v\<bar>" using round_mag_mono [of p "\<bar>v\<bar>"] 3 p by simp
    with 3 p nn show ?thesis by (auto simp: a f64_round_def f64_of_mag_def f64_le_def Let_def)
  qed
qed

lemma f64_sub_le:
  assumes "is_finite a" "is_finite b" "f64_wf a" "0 \<le> f64_val b"
  shows "f64_le (f64_sub a b) a"
proof -
  obtain s p t q where ab: "a = Fin s p" "b = Fin t q" using assms(1,2) by (auto simp: is_finite_iff)
  let ?v = "f64_val a + f64_val (f64_neg b)"
  have v: "?v \<le> f64_val a" using assms(4) by (auto simp: ab split: if_splits)
  show ?thesis
  proof (cases "?v = 0")
    case True
    then have "f64_sub a b = Fin (s \<and> \<not> t) 0" by (simp add: ab f64_sub_def Let_def)
    with True v show ?thesis by (auto simp: ab split: if_splits)
  next
    case False
    then have "f64_sub a b = f64_round ?v" by (simp add: ab f64_sub_def Let_def)
    with f64_round_le [OF assms(1,3) v] show ?thesis by simp
  qed
qed

lemma f64_mul_comm:
  assumes "is_finite a" "is_finite b"
  shows "f64_mul a b = f64_mul b a"
proof -
  obtain s p t q where ab: "a = Fin s p" "b = Fin t q" using assms by (auto simp: is_finite_iff)
  have "(s \<noteq> t) = (t \<noteq> s)" by auto
  then show ?thesis by (simp only: ab f64_mul.simps mult.commute [of p q])
qed

lemma f64_mul_comm_or:
  "f64_mul a b = f64_mul b a \<or> (\<exists>s t. f64_mul a b = NaN s \<and> f64_mul b a = NaN t)"
proof (cases "is_finite a \<and> is_finite b")
  case True
  then show ?thesis using f64_mul_comm by blast
next
  case False
  then show ?thesis by (cases a; cases b) auto
qed

lemma f64_div_NaN: "\<not> is_finite (f64_div a (NaN s))"
  by (cases a) auto

lemma f64_sum_wf: "(\<And>x. x \<in> set xs \<Longrightarrow> f64_wf x) \<Longrightarrow> f64_wf (f64_sum xs)"
proof -
  have "f64_wf a \<Longrightarrow> (\<And>x. x \<in> set xs \<Longrightarrow> f64_wf x) \<Longrightarrow> f64_wf (foldl f64_add a xs)" for a
    by (induction xs arbitrary: a) auto
  from this [of "Fin True 0"] show "(\<And>x. x \<in> set xs \<Longrightarrow> f64_wf x) \<Longrightarrow> f64_wf (f64_sum xs)"
    by (simp add: f64_sum_def f64_overflow_def)
qed

lemma f64_mul_mag_wf:
  "(\<And>s p. a = Fin s p \<Longrightarrow> 0 \<le> p) \<Longrightarrow> (\<And>s p. b = Fin s p \<Longrightarrow> 0 \<le> p) \<Longrightarrow> f64_wf (f64_mul a b)"
  by (cases "(a, b)" rule: f64_mul.cases) auto

lemma round_dec4_mono:
  assumes "is_finite a" "is_finite b" "f64_wf a" "f64_wf b" "-1 \<le> f64_val a" "f64_val b \<le> 1"
    and "f64_val a \<le> f64_val b"
  shows "f64_val (round_dec4 a) \<le> f64_val (round_dec4 b)"
proof -
  define d where "d = (\<lambda>q::rat. round_mag (of_int (round_half_even (q * 10000)) / 10000))"
  have d0: "0 \<le> d q" if "0 \<le> q" for q
    using that round_half_even_ge [of 0 "q * 10000"] by (auto simp: d_def intro!: round_mag_nonneg)
  have mono: "d p \<le> d q" if "0 \<le> p" "p \<le> q" for p q
    using that round_half_even_ge [of 0 "p * 10000"] unfolding d_def
    by (intro round_mag_mono) (auto simp: divide_le_cancel intro!: round_half_even_mono)
  have val: "f64_val (round_dec4 (Fin s q)) = (if s then - d q else d q)" if "0 \<le> q" "q \<le> 1" for s q
  proof -
    have h: "0 \<le> round_half_even (q * 10000)" "round_half_even (q * 10000) \<le> 10000"
      using that by (auto intro!: round_half_even_ge round_half_even_le)
    then have "of_int (round_half_even (q * 10000)) / 10000 \<le> (power_int 2 0 :: rat)"
      by simp
    from f64_of_mag_small [OF _ this, of s] h(1) show ?thesis by (auto simp: d_def)
  qed
  obtain s p t q where ab: "a = Fin s p" "b = Fin t q" using assms(1,2) by (auto simp: is_finite_iff)
  have pq: "0 \<le> p" "0 \<le> q" "p \<le> 1" "q \<le> 1" using assms(3-7) by (auto simp: ab split: if_splits)
  have "d 0 = 0" using round_half_even_of_int [of 0] by (simp add: d_def)
  then have "p \<le> - q \<Longrightarrow> d p = 0" using pq by (metis add.inverse_neutral neg_0_le_iff_le order.antisym order.trans)
  moreover have "p \<le> q \<or> q \<le> p" by linarith
  ultimately show ?thesis
    using assms(7) pq val [of p s] val [of q t] d0 [of p] d0 [of q] mono [of p q] mono [of q p]
    by (cases s; cases t) (auto simp: ab simp del: round_dec4.simps)
qed

subsection \<open>Square root lemmas\<close>

declare isqrt.simps [simp del]

lemma isqrt_bounds: "isqrt n * isqrt n \<le> n \<and> n < (isqrt n + 1) * (isqrt n + 1)"
proof (induction n rule: isqrt.induct)
  case (1 n)
  show ?case
  proof (cases "n = 0")
    case True
    then show ?thesis by (simp add: isqrt.simps)
  next
    case False
    let ?k = "isqrt (n div 4)"
    from 1 [OF False] have ih: "?k * ?k \<le> n div 4" "n div 4 < (?k + 1) * (?k + 1)" by auto
    have "4 * (?k * ?k) \<le> n" using ih(1) by linarith
    moreover have "n < 4 * ((?k + 1) * (?k + 1))" using ih(2) by linarith
    ultimately show ?thesis using False
      by (subst (1 2 3 4) isqrt.simps) (auto simp: Let_def algebra_simps)
  qed
qed

lemma sqrt_mag_pos: "0 < q \<Longrightarrow> 0 < sqrt_mag q"
proof -
  assume q: "0 < q"
  define u :: rat where "u = power_int 2 (floor_log2 q div 2 - 52)"
  define x where "x = q / (u * u)"
  define m where "m = int (isqrt (nat \<lfloor>x\<rfloor>))"
  have u: "0 < u" by (simp add: u_def)
  have "u * u = power_int 2 (2 * (floor_log2 q div 2) - 104)"
    by (simp add: u_def flip: power_int_add)
  also have "\<dots> \<le> power_int 2 (floor_log2 q)" by simp
  also have "\<dots> \<le> q" using q by (rule floor_log2_bounds)
  finally have "1 \<le> x" using u by (simp add: x_def)
  then have "1 \<le> nat \<lfloor>x\<rfloor>" by (simp add: le_nat_iff le_floor_iff)
  then have "isqrt (nat \<lfloor>x\<rfloor>) \<noteq> 0" using isqrt_bounds [of "nat \<lfloor>x\<rfloor>"] by (intro notI) auto
  then have m: "1 \<le> m" by (simp add: m_def)
  then show ?thesis
    using q u by (auto simp: sqrt_mag_def Let_def u_def [symmetric] x_def [symmetric] m_def [symmetric])
qed


lemma f64_sqrt_mag:
  assumes "f64_wf a" "f64_sqrt a = Fin s p"
  shows "0 \<le> p"
proof -
  have "0 \<le> q \<Longrightarrow> 0 \<le> sqrt_mag q" for q
    using sqrt_mag_pos [of q] by (cases "q = 0") (auto simp: sqrt_mag_def)
  with assms show ?thesis by (cases a) (auto split: if_splits)
qed

lemma isqrt_unique: "k * k \<le> n \<Longrightarrow> n < (k + 1) * (k + 1) \<Longrightarrow> isqrt n = k"
proof -
  assume k: "k * k \<le> n" "n < (k + 1) * (k + 1)"
  have a: "a < b + 1" if "a * a < (b + 1) * (b + 1)" for a b :: nat
    using that by (metis linorder_not_less mult_le_mono)
  show "isqrt n = k"
    using isqrt_bounds [of n] k a [of k "isqrt n"] a [of "isqrt n" k] by (metis Suc_eq_plus1 le_less_trans less_antisym less_Suc_eq not_less_eq order.strict_trans1)
qed

lemma f64_of_mag_01 [simp]: "f64_of_mag s 1 = Fin s 1" "f64_of_mag s 0 = Fin s 0"
  by (simp_all add: f64_of_mag_code)

lemma sqrt_mag_1: "sqrt_mag 1 = 1"
proof -
  have f: "floor_log2 1 = 0" by (rule floor_log2_unique) auto
  have i: "isqrt 20282409603651670423947251286016 = 4503599627370496"
    by (rule isqrt_unique) simp_all
  show ?thesis by (simp add: sqrt_mag_def f i Let_def power_int_minus)
qed

end
