(* ===== verification/Rank.thy ===== *)
theory Rank
  imports Rust_Path Float64
begin

text \<open>
  Page and chunk identities, cosine scores and the dense/lexical fusion of
  \<open>yams-core/src/rank.rs\<close>. A canonical absolute path is kept as the list of its names, which is
  how \<open>PathBuf\<close> compares: component by component, each name by its bytes. An \<open>f32\<close> vector is
  the list of its components, already widened to \<open>f64\<close>. Indexing a \<open>BTreeMap\<close> with a missing
  key panics; the model returns \<open>RankPanic\<close> there, an error the source does not have.
\<close>

section \<open>Definitions\<close>

definition RRF_K :: nat where "RRF_K = 60"
definition CANDIDATES :: nat where "CANDIDATES = 25"
definition LEXICAL_WEIGHT :: f64 where "LEXICAL_WEIGHT = f64_round (1/5)"

subsection \<open>Identities\<close>

datatype page_id = PageId (page_names: "ustr list")

instantiation page_id :: linorder
begin
definition less_eq_page_id :: "page_id \<Rightarrow> page_id \<Rightarrow> bool" where
  "less_eq_page_id a b = (page_names a \<le> page_names b)"
definition less_page_id :: "page_id \<Rightarrow> page_id \<Rightarrow> bool" where
  "less_page_id a b = (page_names a < page_names b)"
instance
  by intro_classes (auto simp: less_eq_page_id_def less_page_id_def page_id.expand)
end

datatype chunk_id = ChunkId (chunk_page: page_id) (ordinal: nat)

instantiation chunk_id :: linorder
begin
definition less_eq_chunk_id :: "chunk_id \<Rightarrow> chunk_id \<Rightarrow> bool" where
  "less_eq_chunk_id a b =
     (chunk_page a < chunk_page b \<or> chunk_page a = chunk_page b \<and> ordinal a \<le> ordinal b)"
definition less_chunk_id :: "chunk_id \<Rightarrow> chunk_id \<Rightarrow> bool" where
  "less_chunk_id a b =
     (chunk_page a < chunk_page b \<or> chunk_page a = chunk_page b \<and> ordinal a < ordinal b)"
instance
  by intro_classes (auto simp: less_eq_chunk_id_def less_chunk_id_def chunk_id.expand)
end

datatype vector_side = LeftSide | RightSide

datatype rank_error =
  NonCanonicalPagePath ustr
| DimensionMismatch nat nat
| EmptyVector vector_side
| NonFiniteComponent vector_side nat
| ZeroNorm vector_side
| NonFiniteScore
| ScoreOutsideCosineRange
| RankingWeightMismatch nat nat
| NonFiniteWeight nat
| NegativeWeight nat
| NonFiniteRrfContribution nat nat
| NonFiniteFusedTotal page_id
| RankPanic

fun normal_name :: "component \<Rightarrow> ustr option" where
  "normal_name (Normal s) = Some s"
| "normal_name _ = None"

definition from_canonical_path :: "ustr \<Rightarrow> (rank_error, page_id) result" where
  "from_canonical_path path =
     (let normalized = collect_path (components path);
          canonical_shape = (is_absolute path \<and> normalized = path
            \<and> \<not> list_ex (\<lambda>c. c = CurDir \<or> c = ParentDir) (components path))
      in if \<not> canonical_shape then Inl (NonCanonicalPagePath path)
         else Inr (PageId (List.map_filter normal_name (components path))))"

definition page_as_str :: "page_id \<Rightarrow> ustr" where
  "page_as_str p = slash # join [slash] (page_names p)"

subsection \<open>Cosine\<close>

fun squared_norm_loop :: "vector_side \<Rightarrow> nat \<Rightarrow> f64 \<Rightarrow> f64 list \<Rightarrow> (rank_error, f64) result" where
  "squared_norm_loop side index acc [] = Inr acc"
| "squared_norm_loop side index acc (v # vs) =
     (if \<not> is_finite v then Inl (NonFiniteComponent side index)
      else squared_norm_loop side (index + 1) (f64_add acc (f64_mul v v)) vs)"

definition checked_squared_norm :: "f64 list \<Rightarrow> vector_side \<Rightarrow> (rank_error, f64) result" where
  "checked_squared_norm values side =
     (if values = [] then Inl (EmptyVector side)
      else res_bind (squared_norm_loop side 0 f64_zero values) (\<lambda>squared_norm.
        if f64_eq squared_norm f64_zero then Inl (ZeroNorm side) else Inr squared_norm))"

definition cosine :: "f64 list \<Rightarrow> f64 list \<Rightarrow> (rank_error, f64) result" where
  "cosine left right =
     (if length left \<noteq> length right then Inl (DimensionMismatch (length left) (length right))
      else
        res_bind (checked_squared_norm left LeftSide) (\<lambda>left_norm.
        res_bind (checked_squared_norm right RightSide) (\<lambda>right_norm.
          let dot = f64_sum (map (\<lambda>(l, r). f64_mul l r) (zip left right));
              score = f64_div dot (f64_mul (f64_sqrt left_norm) (f64_sqrt right_norm))
          in if \<not> is_finite score then Inl NonFiniteScore
             else Inr (f64_clamp f64_neg_one f64_one score))))"

datatype normalized_score = NormalizedScore (score_get: f64)

definition normalize_score :: "f64 \<Rightarrow> (rank_error, normalized_score) result" where
  "normalize_score score =
     (if \<not> is_finite score then Inl NonFiniteScore
      else if \<not> f64_contains f64_neg_one f64_one score then Inl ScoreOutsideCosineRange
      else Inr (NormalizedScore (round_dec4 score)))"

subsection \<open>Dense ranking\<close>

record dense_candidate =
  dc_id :: chunk_id
  dc_vector :: "f64 list"

record dense_ranked_page =
  drp_chunk :: chunk_id
  drp_score :: normalized_score

record scored_chunk =
  sc_id :: chunk_id
  sc_score :: f64

definition drp_page :: "dense_ranked_page \<Rightarrow> page_id" where
  "drp_page d = chunk_page (drp_chunk d)"

definition scored_cmp :: "scored_chunk \<Rightarrow> scored_chunk \<Rightarrow> ordering" where
  "scored_cmp left right =
     then_with (total_cmp (sc_score right) (sc_score left)) (cmp (sc_id left) (sc_id right))"

definition dense_rank :: "f64 list \<Rightarrow> dense_candidate list \<Rightarrow> (rank_error, dense_ranked_page list) result" where
  "dense_rank query candidates =
     res_bind (try_map (\<lambda>c. res_map (\<lambda>s. \<lparr> sc_id = dc_id c, sc_score = s \<rparr>) (cosine query (dc_vector c))) candidates)
       (\<lambda>chunks.
          try_map (\<lambda>c. res_map (\<lambda>s. \<lparr> drp_chunk = sc_id c, drp_score = s \<rparr>) (normalize_score (sc_score c)))
            (retain_first (\<lambda>c. chunk_page (sc_id c)) [] (sort_by scored_cmp chunks)))"

subsection \<open>Reciprocal rank fusion\<close>

record rrf_contribution =
  rc_source :: nat
  rc_rank :: nat
  rc_weight :: f64
  rc_score :: f64

record rrf_score =
  rrf_total :: f64
  contributions :: "rrf_contribution list"

fun validate_weights_loop :: "nat \<Rightarrow> f64 list \<Rightarrow> (rank_error, unit) result" where
  "validate_weights_loop source [] = Inr ()"
| "validate_weights_loop source (w # ws) =
     (if \<not> is_finite w then Inl (NonFiniteWeight source)
      else if f64_lt w f64_zero then Inl (NegativeWeight source)
      else validate_weights_loop (source + 1) ws)"

definition validate_weights :: "nat \<Rightarrow> f64 list \<Rightarrow> (rank_error, unit) result" where
  "validate_weights rankings weights =
     (if rankings \<noteq> length weights then Inl (RankingWeightMismatch rankings (length weights))
      else validate_weights_loop 0 weights)"

definition rrf_weight :: "nat \<Rightarrow> f64 \<Rightarrow> nat \<Rightarrow> f64" where
  "rrf_weight rrf_k w rank = f64_div w (f64_add (f64_of_nat rrf_k) (f64_of_nat rank))"

definition rrf_step ::
  "nat \<Rightarrow> nat \<Rightarrow> f64 \<Rightarrow> (page_id, rrf_score) btree \<Rightarrow> nat \<times> page_id
     \<Rightarrow> (rank_error, (page_id, rrf_score) btree) result" where
  "rrf_step rrf_k source w scores ip =
     (let (index, page) = ip;
          rank = index + 1;
          score = rrf_weight rrf_k w rank
      in if \<not> is_finite score then Inl (NonFiniteRrfContribution source rank)
         else
           let page_score = (case bt_get scores page of Some s \<Rightarrow> s
                             | None \<Rightarrow> \<lparr> rrf_total = f64_zero, contributions = [] \<rparr>);
               total = f64_add (rrf_total page_score) score
           in if \<not> is_finite total then Inl (NonFiniteFusedTotal page)
              else Inr (bt_insert page
                \<lparr> rrf_total = total,
                  contributions = contributions page_score
                    @ [\<lparr> rc_source = source, rc_rank = rank, rc_weight = w, rc_score = score \<rparr>] \<rparr> scores))"

definition rrf_source ::
  "nat \<Rightarrow> (page_id, rrf_score) btree \<Rightarrow> nat \<times> page_id list \<times> f64
     \<Rightarrow> (rank_error, (page_id, rrf_score) btree) result" where
  "rrf_source rrf_k scores srw =
     (let (source, ranking, w) = srw
      in try_fold (rrf_step rrf_k source w) scores (enumerate 0 (retain_first (\<lambda>p. p) [] ranking)))"

definition rrf_explained ::
  "page_id list list \<Rightarrow> f64 list \<Rightarrow> nat \<Rightarrow> (rank_error, (page_id, rrf_score) btree) result" where
  "rrf_explained rankings weights rrf_k =
     res_bind (validate_weights (length rankings) weights) (\<lambda>_.
       try_fold (rrf_source rrf_k) [] (enumerate 0 (zip rankings weights)))"

definition rrf_scores ::
  "page_id list list \<Rightarrow> f64 list \<Rightarrow> nat \<Rightarrow> (rank_error, (page_id, f64) btree) result" where
  "rrf_scores rankings weights rrf_k =
     res_map (map (\<lambda>(page, score). (page, rrf_total score))) (rrf_explained rankings weights rrf_k)"

definition fused_cmp :: "page_id \<times> f64 \<Rightarrow> page_id \<times> f64 \<Rightarrow> ordering" where
  "fused_cmp left right = then_with (total_cmp (snd right) (snd left)) (cmp (fst left) (fst right))"

definition ranked_ids :: "(page_id, f64) btree \<Rightarrow> nat \<Rightarrow> page_id list" where
  "ranked_ids scores limit = map fst (take limit (sort_by fused_cmp scores))"

subsection \<open>Hybrid ranking\<close>

record hybrid_ranked_page =
  hrp_dense :: dense_ranked_page
  hrp_lexical_chunk :: "chunk_id option"
  hrp_dense_rank :: nat
  hrp_lexical_rank :: "nat option"
  hrp_fusion :: "rrf_score option"

definition hrp_page :: "hybrid_ranked_page \<Rightarrow> page_id" where
  "hrp_page h = drp_page (hrp_dense h)"

definition selected_chunk :: "hybrid_ranked_page \<Rightarrow> chunk_id" where
  "selected_chunk h =
     (case hrp_lexical_chunk h of Some c \<Rightarrow> c | None \<Rightarrow> drp_chunk (hrp_dense h))"

definition bt_collect :: "('k::linorder \<times> 'v) list \<Rightarrow> ('k, 'v) btree" where
  "bt_collect kvs = fold (\<lambda>(k, v). bt_insert k v) kvs []"

definition bt_index :: "('k, 'v) btree \<Rightarrow> 'k \<Rightarrow> (rank_error, 'v) result" where
  "bt_index m k = ok_or RankPanic (bt_get m k)"

definition dense_map :: "dense_ranked_page list \<Rightarrow> (page_id, nat \<times> dense_ranked_page) btree" where
  "dense_map dense = bt_collect (map (\<lambda>(index, page). (drp_page page, (index + 1, page))) (enumerate 0 dense))"

definition lexical_pages :: "chunk_id list \<Rightarrow> chunk_id list" where
  "lexical_pages lexical = take CANDIDATES (retain_first chunk_page [] lexical)"

definition lexical_map :: "chunk_id list \<Rightarrow> (page_id, nat \<times> chunk_id) btree" where
  "lexical_map pages = bt_collect (map (\<lambda>(index, c). (chunk_page c, (index + 1, c))) (enumerate 0 pages))"

definition hybrid_page ::
  "(page_id, nat \<times> dense_ranked_page) btree \<Rightarrow> (page_id, nat \<times> chunk_id) btree
     \<Rightarrow> (page_id, rrf_score) btree \<Rightarrow> page_id \<Rightarrow> (rank_error, hybrid_ranked_page) result" where
  "hybrid_page dense_by_page lexical_rank scores page =
     res_bind (bt_index dense_by_page page) (\<lambda>(rank, dense_page).
     res_bind (bt_index scores page) (\<lambda>score.
       Inr \<lparr> hrp_dense = dense_page,
             hrp_lexical_chunk = map_option snd (bt_get lexical_rank page),
             hrp_dense_rank = rank,
             hrp_lexical_rank = map_option fst (bt_get lexical_rank page),
             hrp_fusion = Some score \<rparr>))"

definition hybrid_rank ::
  "dense_ranked_page list \<Rightarrow> chunk_id list \<Rightarrow> nat \<Rightarrow> (rank_error, hybrid_ranked_page list) result" where
  "hybrid_rank dense lexical limit =
     (let dense_by_page = dense_map dense;
          lex_pages = lexical_pages lexical;
          lexical_rank = lexical_map lex_pages;
          usable_lexical = map chunk_page (filter (\<lambda>c. bt_contains dense_by_page (chunk_page c)) lex_pages)
      in if usable_lexical = []
         then Inr (map (\<lambda>(index, page).
                \<lparr> hrp_dense = page, hrp_lexical_chunk = None, hrp_dense_rank = index + 1,
                  hrp_lexical_rank = None, hrp_fusion = None \<rparr>) (enumerate 0 (take limit dense)))
         else
           let rankings = [map drp_page (take CANDIDATES dense), usable_lexical]
           in res_bind (rrf_explained rankings [f64_one, LEXICAL_WEIGHT] RRF_K) (\<lambda>scores.
                let order = map fst (sort_by fused_cmp (map (\<lambda>(page, score). (page, rrf_total score)) scores))
                in try_map (hybrid_page dense_by_page lexical_rank scores) (take limit order)))"

subsection \<open>Specification of the fusion\<close>

text \<open>What one source ranking contributes to a page: its first position, counted from one.\<close>

definition rrf_contrib :: "nat \<Rightarrow> page_id \<Rightarrow> nat \<times> page_id list \<times> f64 \<Rightarrow> rrf_contribution list" where
  "rrf_contrib rrf_k p srw =
     (let (source, ranking, w) = srw
      in case position (\<lambda>x. x = p) (retain_first (\<lambda>x. x) [] ranking) of
           None \<Rightarrow> []
         | Some i \<Rightarrow> [\<lparr> rc_source = source, rc_rank = i + 1, rc_weight = w, rc_score = rrf_weight rrf_k w (i + 1) \<rparr>])"

definition rrf_extend :: "rrf_score option \<Rightarrow> rrf_contribution list \<Rightarrow> rrf_score option" where
  "rrf_extend old cs =
     (if cs = [] then old
      else let s = (case old of Some s \<Rightarrow> s | None \<Rightarrow> \<lparr> rrf_total = f64_zero, contributions = [] \<rparr>)
           in Some \<lparr> rrf_total = foldl f64_add (rrf_total s) (map rc_score cs), contributions = contributions s @ cs \<rparr>)"

definition rrf_bounded :: "int \<Rightarrow> rrf_score option \<Rightarrow> bool" where
  "rrf_bounded e s =
     (case s of None \<Rightarrow> True
      | Some s \<Rightarrow> is_finite (rrf_total s) \<and> f64_wf (rrf_total s) \<and> 0 \<le> f64_val (rrf_total s)
          \<and> f64_val (rrf_total s) \<le> power_int 2 e)"

text \<open>A fused score as result selection requires it.\<close>

definition fusion_ok :: "rrf_score \<Rightarrow> bool" where
  "fusion_ok s =
     (is_finite (rrf_total s)
      \<and> (\<forall>c \<in> set (contributions s). 1 \<le> rc_rank c \<and> is_finite (rc_weight c) \<and> \<not> f64_lt (rc_weight c) f64_zero
           \<and> is_finite (rc_score c)))"

text \<open>What a hybrid result records, whichever way it was produced.\<close>

definition hybrid_row_ok :: "dense_ranked_page list \<Rightarrow> chunk_id list \<Rightarrow> hybrid_ranked_page \<Rightarrow> bool" where
  "hybrid_row_ok dense lexical h =
     (1 \<le> hrp_dense_rank h \<and> hrp_dense_rank h \<le> length dense \<and> dense ! (hrp_dense_rank h - 1) = hrp_dense h
      \<and> chunk_page (selected_chunk h) = hrp_page h
      \<and> (case hrp_lexical_rank h of
           None \<Rightarrow> hrp_lexical_chunk h = None
         | Some r \<Rightarrow> 1 \<le> r \<and> r \<le> length (lexical_pages lexical) \<and> hrp_lexical_chunk h = Some (lexical_pages lexical ! (r - 1))))"

text \<open>The order of hybrid results: by fused total and path, or by dense rank in the fallback.\<close>

definition hybrid_before :: "hybrid_ranked_page \<Rightarrow> hybrid_ranked_page \<Rightarrow> bool" where
  "hybrid_before a b =
     (case (hrp_fusion a, hrp_fusion b) of
        (Some x, Some y) \<Rightarrow> fused_cmp (hrp_page a, rrf_total x) (hrp_page b, rrf_total y) \<noteq> Greater
      | (None, None) \<Rightarrow> hrp_dense_rank a < hrp_dense_rank b
      | _ \<Rightarrow> False)"

definition fusion_order :: "(page_id, rrf_score) btree \<Rightarrow> page_id list" where
  "fusion_order scores = map fst (sort_by fused_cmp (map (\<lambda>(page, score). (page, rrf_total score)) scores))"

section \<open>Lemmas\<close>

subsection \<open>Identities\<close>

lemma map_filter_Normal: "List.map_filter normal_name (map Normal ns) = ns"
  by (induction ns) (auto simp: List.map_filter_simps)

lemma map_Normal_names:
  "\<forall>x \<in> set cs. \<exists>s. x = Normal s \<Longrightarrow> map Normal (List.map_filter normal_name cs) = cs"
  by (induction cs) (auto simp: List.map_filter_simps)

lemma from_canonical_path_Inr:
  assumes "from_canonical_path path = Inr p"
  shows "page_as_str p = path \<and> (\<forall>n \<in> set (page_names p). n \<noteq> [] \<and> n \<noteq> [dot] \<and> n \<noteq> [dot, dot] \<and> slash \<notin> set n)"
proof -
  obtain r where path: "path = slash # r"
    using assms by (auto simp: from_canonical_path_def Let_def is_absolute_def split: if_splits)
  let ?b = "body_components (split_on slash r)"
  have c: "components path = RootDir # ?b" by (simp add: path components_def)
  have nb: "\<forall>x \<in> set ?b. \<exists>s. x = Normal s"
  proof
    fix x assume "x \<in> set ?b"
    moreover have "\<not> list_ex (\<lambda>c. c = CurDir \<or> c = ParentDir) (components path)"
      using assms by (auto simp: from_canonical_path_def Let_def split: if_splits)
    ultimately have "x \<noteq> RootDir \<and> x \<noteq> CurDir \<and> x \<noteq> ParentDir"
      using body_components_no_root [of "split_on slash r"] by (auto simp: c list_ex_iff)
    then show "\<exists>s. x = Normal s" by (cases x) auto
  qed
  then have names: "map Normal (List.map_filter normal_name ?b) = ?b" by (rule map_Normal_names)
  have p: "p = PageId (List.map_filter normal_name ?b)" and q: "collect_path (components path) = path"
    using assms by (auto simp: from_canonical_path_def Let_def c List.map_filter_simps split: if_splits)
  have "map component_text ?b = List.map_filter normal_name ?b"
    by (subst names [symmetric]) (simp add: comp_def)
  with p q have str: "page_as_str p = path" by (simp add: page_as_str_def c collect_path_def)
  have "n \<in> set (page_names p) \<Longrightarrow> n \<in> set (split_on slash r) \<and> n \<noteq> [] \<and> n \<noteq> [dot] \<and> n \<noteq> [dot, dot]" for n
    using body_components_normal_iff [of n "split_on slash r"] arg_cong [OF names, of set] p by auto
  with str show ?thesis using split_on_no_sep [of _ slash r] by blast
qed

lemma from_canonical_path_str:
  assumes "page_names p \<noteq> []"
    and "\<forall>n \<in> set (page_names p). n \<noteq> [] \<and> n \<noteq> [dot] \<and> n \<noteq> [dot, dot] \<and> slash \<notin> set n"
  shows "from_canonical_path (page_as_str p) = Inr p"
proof -
  let ?n = "page_names p"
  have c: "components (page_as_str p) = RootDir # map Normal ?n"
    using assms split_on_join [of ?n slash] body_components_Normal [of ?n]
    by (simp add: page_as_str_def components_def)
  have "is_absolute (page_as_str p)" by (simp add: page_as_str_def is_absolute_def)
  moreover have "collect_path (RootDir # map Normal ?n) = page_as_str p"
    by (simp add: collect_path_def page_as_str_def comp_def)
  ultimately show ?thesis
    unfolding from_canonical_path_def Let_def c
    by (simp add: map_filter_Normal list_ex_iff List.map_filter_simps)
qed

subsection \<open>Cosine\<close>

lemma squared_norm_Inr:
  "squared_norm_loop side i acc vs = Inr n \<Longrightarrow> \<forall>v \<in> set vs. is_finite v"
  by (induction side i acc vs rule: squared_norm_loop.induct) (auto split: if_splits)

lemma squared_norm_side:
  "squared_norm_loop side i acc vs = Inr n \<Longrightarrow> squared_norm_loop side' i acc vs = Inr n"
  by (induction side i acc vs rule: squared_norm_loop.induct) (auto split: if_splits)

lemma checked_squared_norm_side:
  "checked_squared_norm vs side = Inr n \<Longrightarrow> checked_squared_norm vs side' = Inr n"
  by (auto simp: checked_squared_norm_def res_bind_Inr_iff split: if_splits dest: squared_norm_side)

lemma checked_squared_norm_finite:
  "checked_squared_norm vs side = Inr n \<Longrightarrow> vs \<noteq> [] \<and> (\<forall>v \<in> set vs. is_finite v)"
  by (auto simp: checked_squared_norm_def res_bind_Inr_iff split: if_splits dest: squared_norm_Inr)

lemma cosine_Inr:
  "cosine l r = Inr s \<longleftrightarrow> length l = length r \<and> (\<exists>a b score. checked_squared_norm l LeftSide = Inr a
     \<and> checked_squared_norm r RightSide = Inr b
     \<and> score = f64_div (f64_sum (map (\<lambda>(x, y). f64_mul x y) (zip l r))) (f64_mul (f64_sqrt a) (f64_sqrt b))
     \<and> is_finite score \<and> s = f64_clamp f64_neg_one f64_one score)"
  by (auto simp: cosine_def res_bind_Inr_iff Let_def split: if_splits)

lemma zip_mul_comm:
  assumes "\<forall>v \<in> set l. is_finite v" "\<forall>v \<in> set r. is_finite v"
  shows "map (\<lambda>(x, y). f64_mul x y) (zip l r) = map (\<lambda>(x, y). f64_mul x y) (zip r l)"
  using assms
proof (induction l arbitrary: r)
  case (Cons x l)
  then show ?case by (cases r) (auto simp: f64_mul_comm)
qed simp

lemma cosine_sym: "cosine l r = Inr s \<Longrightarrow> cosine r l = Inr s"
proof -
  assume "cosine l r = Inr s"
  then obtain a b where n: "length l = length r" "checked_squared_norm l LeftSide = Inr a"
      "checked_squared_norm r RightSide = Inr b"
      "is_finite (f64_div (f64_sum (map (\<lambda>(x, y). f64_mul x y) (zip l r))) (f64_mul (f64_sqrt a) (f64_sqrt b)))"
      "s = f64_clamp f64_neg_one f64_one
         (f64_div (f64_sum (map (\<lambda>(x, y). f64_mul x y) (zip l r))) (f64_mul (f64_sqrt a) (f64_sqrt b)))"
    by (auto simp: cosine_Inr)
  have z: "map (\<lambda>(x, y). f64_mul x y) (zip l r) = map (\<lambda>(x, y). f64_mul x y) (zip r l)"
    using checked_squared_norm_finite [OF n(2)] checked_squared_norm_finite [OF n(3)]
    by (intro zip_mul_comm) auto
  have "f64_mul (f64_sqrt a) (f64_sqrt b) = f64_mul (f64_sqrt b) (f64_sqrt a)"
    using f64_mul_comm_or [of "f64_sqrt a" "f64_sqrt b"] n(4) f64_div_NaN by metis
  with n z checked_squared_norm_side [OF n(2)] checked_squared_norm_side [OF n(3)] show ?thesis
    by (auto simp: cosine_Inr)
qed

lemma cosine_range: "cosine l r = Inr s \<Longrightarrow> is_finite s \<and> -1 \<le> f64_val s \<and> f64_val s \<le> 1"
  using f64_clamp_range by (auto simp: cosine_Inr)

lemma squared_norm_wf:
  "squared_norm_loop side i acc vs = Inr n \<Longrightarrow> f64_wf acc \<Longrightarrow> \<forall>v \<in> set vs. f64_wf v \<Longrightarrow> f64_wf n"
  by (induction side i acc vs rule: squared_norm_loop.induct) (auto split: if_splits)

lemma checked_squared_norm_wf:
  "checked_squared_norm vs side = Inr n \<Longrightarrow> \<forall>v \<in> set vs. f64_wf v \<Longrightarrow> f64_wf n"
  by (auto simp: checked_squared_norm_def res_bind_Inr_iff split: if_splits dest: squared_norm_wf)

lemma cosine_wf:
  assumes "cosine l r = Inr s" "\<forall>v \<in> set l. f64_wf v" "\<forall>v \<in> set r. f64_wf v"
  shows "f64_wf s"
proof -
  obtain a b where n: "checked_squared_norm l LeftSide = Inr a" "checked_squared_norm r RightSide = Inr b"
      "s = f64_clamp f64_neg_one f64_one
         (f64_div (f64_sum (map (\<lambda>(x, y). f64_mul x y) (zip l r))) (f64_mul (f64_sqrt a) (f64_sqrt b)))"
    using assms(1) by (auto simp: cosine_Inr)
  have "f64_wf (f64_mul (f64_sqrt a) (f64_sqrt b))"
    using f64_sqrt_mag checked_squared_norm_wf [OF n(1) assms(2)] checked_squared_norm_wf [OF n(2) assms(3)]
    by (intro f64_mul_mag_wf) blast+
  moreover have "f64_wf (f64_sum (map (\<lambda>(x, y). f64_mul x y) (zip l r)))"
    using assms(2,3) by (intro f64_sum_wf) (auto intro!: f64_mul_wf dest: set_zip_leftD set_zip_rightD)
  ultimately show ?thesis unfolding n(3) by simp
qed

lemma normalize_score_unit:
  assumes "is_finite s" "-1 \<le> f64_val s" "f64_val s \<le> 1"
  shows "normalize_score s = Inr (NormalizedScore (round_dec4 s))"
  using assms by (simp add: normalize_score_def f64_contains_def)

subsection \<open>Dense ranking\<close>

interpretation scored: rust_cmp scored_cmp
  unfolding scored_cmp_def
  by (intro rust_cmp_then rust_cmp_key [OF rust_cmp_linorder] rust_cmp_flip
      [OF rust_cmp_key [OF rust_cmp_total, of sc_score]])

interpretation fused: rust_cmp fused_cmp
  unfolding fused_cmp_def
  by (intro rust_cmp_then rust_cmp_key [OF rust_cmp_linorder] rust_cmp_flip
      [OF rust_cmp_key [OF rust_cmp_total, of snd]])

text \<open>The scored chunks of a ranking and the best chunk of every page.\<close>

lemma dense_rank_chunks:
  assumes "dense_rank q cs = Inr rs"
  obtains chunks where
    "list_all2 (\<lambda>c k. sc_id k = dc_id c \<and> cosine q (dc_vector c) = Inr (sc_score k)) cs chunks"
    "list_all2 (\<lambda>k r. drp_chunk r = sc_id k \<and> drp_score r = NormalizedScore (round_dec4 (sc_score k)))
       (retain_first (\<lambda>c. chunk_page (sc_id c)) [] (sort_by scored_cmp chunks)) rs"
proof -
  let ?f = "\<lambda>c. res_map (\<lambda>s. \<lparr> sc_id = dc_id c, sc_score = s \<rparr>) (cosine q (dc_vector c))"
  let ?g = "\<lambda>c. res_map (\<lambda>s. \<lparr> drp_chunk = sc_id c, drp_score = s \<rparr>) (normalize_score (sc_score c))"
  obtain chunks where ch: "try_map ?f cs = Inr chunks"
      "try_map ?g (retain_first (\<lambda>c. chunk_page (sc_id c)) [] (sort_by scored_cmp chunks)) = Inr rs"
    using assms by (auto simp: dense_rank_def res_bind_Inr_iff)
  have f: "?f c = Inr k \<Longrightarrow> sc_id k = dc_id c \<and> cosine q (dc_vector c) = Inr (sc_score k)" for c k
    by (cases "cosine q (dc_vector c)") auto
  have g: "?g k = Inr r \<Longrightarrow> drp_chunk r = sc_id k \<and> drp_score r = NormalizedScore (round_dec4 (sc_score k))" for k r
    by (auto simp: normalize_score_def split: if_splits)
  show thesis
    by (rule that [OF try_map_all2 [OF ch(1)] try_map_all2 [OF ch(2)]]) (use f g in blast)+
qed

lemma dense_rank_total:
  assumes "\<forall>c \<in> set cs. \<exists>s. cosine q (dc_vector c) = Inr s"
  shows "\<exists>rs. dense_rank q cs = Inr rs"
proof -
  let ?c = "\<lambda>c. \<lparr> sc_id = dc_id c, sc_score = projr (cosine q (dc_vector c)) \<rparr>"
  have 1: "try_map (\<lambda>c. res_map (\<lambda>s. \<lparr> sc_id = dc_id c, sc_score = s \<rparr>) (cosine q (dc_vector c))) cs = Inr (map ?c cs)"
    using assms by (intro try_map_total) force
  let ?k = "retain_first (\<lambda>c. chunk_page (sc_id c)) [] (sort_by scored_cmp (map ?c cs))"
  have "k \<in> set ?k \<Longrightarrow> is_finite (sc_score k) \<and> -1 \<le> f64_val (sc_score k) \<and> f64_val (sc_score k) \<le> 1" for k
    using retain_first_subset [of "\<lambda>c. chunk_page (sc_id c)" "[]" "sort_by scored_cmp (map ?c cs)"] assms cosine_range
    by fastforce
  then have "try_map (\<lambda>c. res_map (\<lambda>s. \<lparr> drp_chunk = sc_id c, drp_score = s \<rparr>) (normalize_score (sc_score c))) ?k
      = Inr (map (\<lambda>k. \<lparr> drp_chunk = sc_id k, drp_score = NormalizedScore (round_dec4 (sc_score k)) \<rparr>) ?k)"
    by (intro try_map_total) (simp add: normalize_score_unit)
  then show ?thesis unfolding dense_rank_def 1 by simp
qed

lemma list_all2_in2: "list_all2 P xs ys \<Longrightarrow> y \<in> set ys \<Longrightarrow> \<exists>x \<in> set xs. P x y"
  by (induction rule: list_all2_induct) auto

lemma list_all2_in1: "list_all2 P xs ys \<Longrightarrow> x \<in> set xs \<Longrightarrow> \<exists>y \<in> set ys. P x y"
  by (induction rule: list_all2_induct) auto

lemma list_all2_map_eq: "list_all2 P xs ys \<Longrightarrow> (\<And>x y. P x y \<Longrightarrow> f x = g y) \<Longrightarrow> map f xs = map g ys"
  by (induction rule: list_all2_induct) auto

lemma list_all2_sorted:
  "list_all2 P xs ys \<Longrightarrow> sorted_wrt R xs \<Longrightarrow>
     (\<And>x x' y y'. x \<in> set xs \<Longrightarrow> x' \<in> set xs \<Longrightarrow> P x y \<Longrightarrow> P x' y' \<Longrightarrow> R x x' \<Longrightarrow> S y y') \<Longrightarrow> sorted_wrt S ys"
proof (induction rule: list_all2_induct)
  case (Cons x xs y ys)
  then have "\<forall>y' \<in> set ys. S y y'" using list_all2_in2 [OF Cons.hyps(2)] by fastforce
  moreover have "sorted_wrt S ys" using Cons by auto
  ultimately show ?case by simp
qed simp

lemma scored_cmp_le:
  "scored_cmp a b \<noteq> Greater \<longleftrightarrow>
     total_cmp (sc_score b) (sc_score a) = Less
     \<or> sc_score a = sc_score b \<and> sc_id a \<le> sc_id b"
  unfolding scored_cmp_def then_with_Greater_iff
  by (cases "total_cmp (sc_score b) (sc_score a)") (auto simp: not_less total.cmp_refl)

lemma scored_cmp_val:
  assumes "scored_cmp a b \<noteq> Greater" "is_finite (sc_score a)" "is_finite (sc_score b)"
    "f64_wf (sc_score a)" "f64_wf (sc_score b)"
  shows "f64_val (sc_score b) \<le> f64_val (sc_score a)"
  using assms total_cmp_finite_le [of "sc_score b" "sc_score a"] unfolding scored_cmp_le by auto

lemma dense_rank_page_best:
  assumes ch: "list_all2 (\<lambda>c k. sc_id k = dc_id c \<and> cosine q (dc_vector c) = Inr (sc_score k)) cs chunks"
    and rk: "list_all2 (\<lambda>k r. drp_chunk r = sc_id k \<and> drp_score r = NormalizedScore (round_dec4 (sc_score k)))
       (retain_first (\<lambda>c. chunk_page (sc_id c)) [] (sort_by scored_cmp chunks)) rs"
    and r: "r \<in> set rs"
  shows "\<exists>c \<in> set cs. \<exists>k \<in> set chunks. dc_id c = drp_chunk r \<and> cosine q (dc_vector c) = Inr (sc_score k)
    \<and> drp_score r = NormalizedScore (round_dec4 (sc_score k))
    \<and> (\<forall>c' \<in> set cs. \<forall>s'. chunk_page (dc_id c') = drp_page r \<and> cosine q (dc_vector c') = Inr s'
         \<longrightarrow> total_cmp s' (sc_score k) = Less \<or> s' = sc_score k \<and> drp_chunk r \<le> dc_id c')"
proof -
  let ?pg = "\<lambda>k. chunk_page (sc_id k)"
  let ?s = "sort_by scored_cmp chunks"
  obtain k where k: "k \<in> set (retain_first ?pg [] ?s)" "drp_chunk r = sc_id k"
      "drp_score r = NormalizedScore (round_dec4 (sc_score k))"
    using list_all2_in2 [OF rk r] by blast
  have kc: "k \<in> set chunks" using k(1) retain_first_subset [of ?pg "[]" ?s] by auto
  obtain c where c: "c \<in> set cs" "sc_id k = dc_id c" "cosine q (dc_vector c) = Inr (sc_score k)"
    using list_all2_in2 [OF ch kc] by blast
  have "total_cmp s' (sc_score k) = Less \<or> s' = sc_score k \<and> drp_chunk r \<le> dc_id c'"
    if c': "c' \<in> set cs" "chunk_page (dc_id c') = drp_page r" "cosine q (dc_vector c') = Inr s'" for c' s'
  proof -
    obtain k' where k': "k' \<in> set ?s" "sc_id k' = dc_id c'" "sc_score k' = s'"
      using list_all2_in1 [OF ch c'(1)] c'(3) by auto
    obtain y where y: "y \<in> set (retain_first ?pg [] ?s)" "?pg y = ?pg k'" "y = k' \<or> scored_cmp y k' \<noteq> Greater"
      using retain_first_best [OF scored.sort_by_sorted k'(1), of ?pg "[]"] by auto
    have "?pg y = ?pg k" using y(2) k'(2) c'(2) k(2) by (simp add: drp_page_def)
    then have "y = k" using y(1) k(1) retain_first_distinct [of ?pg "[]" ?s] by (metis distinct_map inj_on_def)
    with y(3) scored.cmp_refl [of k'] have "scored_cmp k k' \<noteq> Greater" by auto
    then show ?thesis using k' k(2) unfolding scored_cmp_le by auto
  qed
  with c kc k show ?thesis by auto
qed

lemma dense_rank_rows:
  assumes "dense_rank q cs = Inr rs" "r \<in> set rs"
    and "\<forall>v \<in> set q. f64_wf v" "\<forall>c \<in> set cs. \<forall>v \<in> set (dc_vector c). f64_wf v"
  shows "drp_chunk r \<in> dc_id ` set cs \<and> (\<exists>n. normalize_score (score_get (drp_score r)) = Inr n)"
proof -
  obtain chunks where
    ch: "list_all2 (\<lambda>c k. sc_id k = dc_id c \<and> cosine q (dc_vector c) = Inr (sc_score k)) cs chunks" and
    rk: "list_all2 (\<lambda>k r. drp_chunk r = sc_id k \<and> drp_score r = NormalizedScore (round_dec4 (sc_score k)))
       (retain_first (\<lambda>c. chunk_page (sc_id c)) [] (sort_by scored_cmp chunks)) rs"
    using dense_rank_chunks [OF assms(1)] .
  obtain k where k: "k \<in> set chunks" "drp_chunk r = sc_id k" "drp_score r = NormalizedScore (round_dec4 (sc_score k))"
    using list_all2_in2 [OF rk assms(2)] retain_first_subset [of "\<lambda>c. chunk_page (sc_id c)" "[]" "sort_by scored_cmp chunks"]
    by auto
  obtain c where c: "c \<in> set cs" "sc_id k = dc_id c" "cosine q (dc_vector c) = Inr (sc_score k)"
    using list_all2_in2 [OF ch k(1)] by blast
  have "is_finite (round_dec4 (sc_score k)) \<and> -1 \<le> f64_val (round_dec4 (sc_score k)) \<and> f64_val (round_dec4 (sc_score k)) \<le> 1"
    using cosine_range [OF c(3)] cosine_wf [OF c(3)] assms(3,4) c(1) by (intro conjI) (auto dest!: round_dec4_range)
  with k c show ?thesis by (auto simp: normalize_score_unit)
qed

subsection \<open>Reciprocal rank fusion\<close>

lemma rrf_extend_Nil [simp]: "rrf_extend old [] = old"
  by (simp add: rrf_extend_def)

lemma rrf_extend_append: "rrf_extend (rrf_extend old a) b = rrf_extend old (a @ b)"
  by (auto simp: rrf_extend_def Let_def)

lemma rrf_step_Inr:
  assumes "rrf_step k src w m (i, p) = Inr m'" "bt_wf m"
  shows "bt_wf m' \<and> bt_get m' = (bt_get m)(p := rrf_extend (bt_get m p)
      [\<lparr> rc_source = src, rc_rank = i + 1, rc_weight = w, rc_score = rrf_weight k w (i + 1) \<rparr>])"
  using assms by (auto simp: rrf_step_def Let_def rrf_extend_def bt.wf_ins bt.get_ins fun_eq_iff
      split: if_splits option.splits)

lemma rrf_fold_Inr:
  assumes "try_fold (rrf_step k src w) m (enumerate n ps) = Inr m'" "bt_wf m" "distinct ps"
  shows "bt_wf m' \<and> (\<forall>p. bt_get m' p = rrf_extend (bt_get m p)
     (case position (\<lambda>x. x = p) ps of None \<Rightarrow> []
      | Some i \<Rightarrow> [\<lparr> rc_source = src, rc_rank = n + i + 1, rc_weight = w, rc_score = rrf_weight k w (n + i + 1) \<rparr>]))"
  using assms
proof (induction ps arbitrary: n m)
  case (Cons q ps)
  obtain m1 where m1: "rrf_step k src w m (n, q) = Inr m1" "try_fold (rrf_step k src w) m1 (enumerate (Suc n) ps) = Inr m'"
    using Cons.prems(1) by (auto split: sum.splits)
  note st = rrf_step_Inr [OF m1(1) Cons.prems(2)]
  have "position (\<lambda>x. x = q) ps = None" using Cons.prems(3) by (auto simp: position_None_iff)
  with Cons.IH [OF m1(2)] st Cons.prems(3) show ?case
    by (auto split: option.splits)
qed simp

lemma rrf_source_Inr:
  assumes "rrf_source k m srw = Inr m'" "bt_wf m"
  shows "bt_wf m' \<and> (\<forall>p. bt_get m' p = rrf_extend (bt_get m p) (rrf_contrib k p srw))"
proof -
  obtain src ranking w where srw: "srw = (src, ranking, w)" by (cases srw)
  have "distinct (retain_first (\<lambda>x. x) [] ranking)" using retain_first_distinct [of "\<lambda>x. x" "[]" ranking] by simp
  from rrf_fold_Inr [OF _ assms(2) this, of k src w 0, unfolded add_0] assms(1) show ?thesis
    by (simp add: srw rrf_source_def rrf_contrib_def)
qed

lemma rrf_sources_Inr:
  assumes "try_fold (rrf_source k) m srws = Inr m'" "bt_wf m"
  shows "bt_wf m' \<and> (\<forall>p. bt_get m' p = rrf_extend (bt_get m p) (concat (map (rrf_contrib k p) srws)))"
  using assms
proof (induction srws arbitrary: m)
  case (Cons srw srws)
  obtain m1 where m1: "rrf_source k m srw = Inr m1" "try_fold (rrf_source k) m1 srws = Inr m'"
    using Cons.prems(1) by (auto split: sum.splits)
  with rrf_source_Inr [OF m1(1) Cons.prems(2)] Cons.IH [OF m1(2)] show ?case
    by (simp add: rrf_extend_append)
qed simp

lemma rrf_weight_range:
  assumes "is_finite w" "f64_wf w" "0 \<le> f64_val w" "k \<le> 2 ^ 64" "0 < rank" "rank \<le> 2 ^ 64"
  shows "is_finite (rrf_weight k w rank)" "0 \<le> f64_val (rrf_weight k w rank)"
    "f64_val (rrf_weight k w rank) \<le> f64_val w" "f64_wf (rrf_weight k w rank)"
proof -
  note a = f64_of_nat_finite [OF assms(4)] and b = f64_of_nat_finite [OF assms(6)]
  note s = f64_add_nonneg [OF a(1) b(1) a(2) b(2) a(3) b(3) a(5) b(5)]
  have d: "is_finite (f64_add (f64_of_nat k) (f64_of_nat rank))" "1 \<le> f64_val (f64_add (f64_of_nat k) (f64_of_nat rank))"
    "f64_wf (f64_add (f64_of_nat k) (f64_of_nat rank))"
    using s(1,3) b(4) [OF assms(5)] a(3) b(3) by (auto intro: order.trans)
  show "is_finite (rrf_weight k w rank)" "0 \<le> f64_val (rrf_weight k w rank)"
    "f64_val (rrf_weight k w rank) \<le> f64_val w" "f64_wf (rrf_weight k w rank)"
    using f64_div_shrink [OF assms(1) d(1) assms(3) d(2) assms(2) d(3)] assms(2) d(3)
    by (auto simp: rrf_weight_def)
qed

lemma rrf_step_total:
  assumes w: "is_finite w" "f64_wf w" "0 \<le> f64_val w" "f64_val w \<le> 1" "k \<le> 2 ^ 64" "i < 2 ^ 64"
    and e: "0 \<le> e" "e < 1023" "rrf_bounded e (bt_get m p)" and "bt_wf m"
  shows "\<exists>m'. rrf_step k src w m (i, p) = Inr m' \<and> bt_wf m' \<and> rrf_bounded (e + 1) (bt_get m' p)
    \<and> (\<forall>q. q \<noteq> p \<longrightarrow> bt_get m' q = bt_get m q)"
proof -
  note r = rrf_weight_range [OF w(1-3) w(5), of "i + 1"]
  let ?old = "case bt_get m p of Some s \<Rightarrow> s | None \<Rightarrow> \<lparr> rrf_total = f64_zero, contributions = [] \<rparr>"
  have o: "is_finite (rrf_total ?old)" "f64_wf (rrf_total ?old)" "0 \<le> f64_val (rrf_total ?old)"
      "f64_val (rrf_total ?old) \<le> power_int 2 e"
    using e(3) by (auto simp: rrf_bounded_def split: option.splits)
  have one: "(1::rat) \<le> power_int 2 e" using e(1) power_int_2_le_iff [of 0 e] by simp
  have r': "is_finite (rrf_weight k w (i + 1))" "0 \<le> f64_val (rrf_weight k w (i + 1))"
     "f64_wf (rrf_weight k w (i + 1))" "f64_val (rrf_weight k w (i + 1)) \<le> power_int 2 e"
    using r w(4,6) one by auto
  note t = f64_add_nonneg [OF o(1) r'(1) o(3) r'(2) o(2) r'(3) o(4) r'(4)]
  have t': "is_finite (f64_add (rrf_total ?old) (rrf_weight k w (i + 1)))"
    "0 \<le> f64_val (f64_add (rrf_total ?old) (rrf_weight k w (i + 1)))"
    "f64_val (f64_add (rrf_total ?old) (rrf_weight k w (i + 1))) \<le> power_int 2 (e + 1)"
    using t e(1,2) o(3) by (auto intro: order.trans)
  show ?thesis
    using r'(1,3) t' o(2) assms(10)
    by (auto simp: rrf_step_def Let_def bt.wf_ins bt.get_ins rrf_bounded_def)
qed

lemma rrf_bounded_mono: "rrf_bounded e s \<Longrightarrow> e \<le> e' \<Longrightarrow> rrf_bounded e' s"
  using power_int_2_mono [of e e'] by (auto simp: rrf_bounded_def split: option.splits intro: order.trans)

lemma rrf_fold_total:
  assumes w: "is_finite w" "f64_wf w" "0 \<le> f64_val w" "f64_val w \<le> 1" "k \<le> 2 ^ 64" and e: "0 \<le> e" "e < 1023"
  shows "distinct ps \<Longrightarrow> n + length ps < 2 ^ 64 \<Longrightarrow> bt_wf m \<Longrightarrow> \<forall>p \<in> set ps. rrf_bounded e (bt_get m p)
    \<Longrightarrow> \<forall>p. rrf_bounded (e + 1) (bt_get m p)
    \<Longrightarrow> \<exists>m'. try_fold (rrf_step k src w) m (enumerate n ps) = Inr m' \<and> bt_wf m' \<and> (\<forall>p. rrf_bounded (e + 1) (bt_get m' p))"
proof (induction ps arbitrary: n m)
  case (Cons q ps)
  obtain m1 where m1: "rrf_step k src w m (n, q) = Inr m1" "bt_wf m1" "rrf_bounded (e + 1) (bt_get m1 q)"
      "\<forall>p. p \<noteq> q \<longrightarrow> bt_get m1 p = bt_get m p"
    using rrf_step_total [OF w _ e, of n m q src] Cons.prems by auto
  have "\<forall>p. rrf_bounded (e + 1) (bt_get m1 p)" using m1(3,4) Cons.prems(5) by metis
  moreover have "\<forall>p \<in> set ps. rrf_bounded e (bt_get m1 p)" using m1(4) Cons.prems(1,4) by auto
  ultimately show ?case using Cons.IH [of "Suc n" m1] Cons.prems(1,2) m1(1,2) by auto
qed simp

lemma rrf_sources_total:
  assumes "\<forall>(src, ranking, w) \<in> set srws. is_finite w \<and> f64_wf w \<and> 0 \<le> f64_val w \<and> f64_val w \<le> 1 \<and> length ranking < 2 ^ 64"
    and "k \<le> 2 ^ 64" "0 \<le> e" "e + int (length srws) \<le> 1023" "bt_wf m" "\<forall>p. rrf_bounded e (bt_get m p)"
  shows "\<exists>m'. try_fold (rrf_source k) m srws = Inr m'"
  using assms
proof (induction srws arbitrary: m e)
  case (Cons srw srws)
  obtain src ranking w where srw: "srw = (src, ranking, w)" by (cases srw)
  have w: "is_finite w" "f64_wf w" "0 \<le> f64_val w" "f64_val w \<le> 1" "length ranking < 2 ^ 64"
    using Cons.prems(1) by (auto simp: srw)
  have d: "distinct (retain_first (\<lambda>x. x) [] ranking)" using retain_first_distinct [of "\<lambda>x. x" "[]" ranking] by simp
  have l: "0 + length (retain_first (\<lambda>x. x) [] ranking) < 2 ^ 64"
    using w(5) retain_first_length [of "\<lambda>x. x" "[]" ranking] by linarith
  have e: "0 \<le> e" "e < 1023" using Cons.prems(3,4) by auto
  have b: "\<forall>p. rrf_bounded (e + 1) (bt_get m p)" using Cons.prems(6) rrf_bounded_mono by (metis le_add_same_cancel1 zero_le_one)
  obtain m1 where m1: "rrf_source k m srw = Inr m1" "bt_wf m1" "\<forall>p. rrf_bounded (e + 1) (bt_get m1 p)"
    using rrf_fold_total [OF w(1-4) Cons.prems(2) e d l Cons.prems(5) _ b, of src] Cons.prems(6)
    by (auto simp: srw rrf_source_def)
  show ?case using Cons.IH [of "e + 1" m1] Cons.prems m1 by auto
qed simp

lemma rrf_step_fusion_ok:
  assumes "rrf_step k src w m (i, p) = Inr m'" "bt_wf m" "is_finite w" "\<not> f64_lt w f64_zero"
    and "\<forall>q s. bt_get m q = Some s \<longrightarrow> fusion_ok s"
  shows "bt_wf m' \<and> (\<forall>q s. bt_get m' q = Some s \<longrightarrow> fusion_ok s)"
  using assms
  by (auto simp: rrf_step_def Let_def bt.wf_ins bt.get_ins fusion_ok_def simp del: f64_lt_finite
      split: if_splits option.splits)

lemma rrf_explained_fusion_ok:
  assumes "rrf_explained rankings weights k = Inr scores" "\<forall>w \<in> set weights. is_finite w \<and> \<not> f64_lt w f64_zero"
    and "bt_get scores p = Some s"
  shows "fusion_ok s"
proof -
  let ?I = "\<lambda>m. bt_wf m \<and> (\<forall>q s. bt_get m q = Some s \<longrightarrow> fusion_ok s)"
  have src: "?I m'" if "?I m" "srw \<in> set (enumerate 0 (zip rankings weights))" "rrf_source k m srw = Inr m'" for m m' srw
  proof -
    obtain src ranking w where srw: "srw = (src, ranking, w)" by (cases srw)
    have "w \<in> set weights" using that(2) unfolding srw by (auto dest!: in_set_enumerateD set_zip_rightD)
    then have w: "is_finite w" "\<not> f64_lt w f64_zero" using assms(2) by blast+
    have step: "?I m''" if "?I m1" "rrf_step k src w m1 ip = Inr m''" for m1 m'' ip
      using rrf_step_fusion_ok [of k src w m1 "fst ip" "snd ip" m''] w that by simp
    have "try_fold (rrf_step k src w) m (enumerate 0 (retain_first (\<lambda>p. p) [] ranking)) = Inr m'"
      using that(3) by (simp add: rrf_source_def srw)
    from try_fold_inv [where I = ?I, OF _ that(1) this] step show ?thesis by meson
  qed
  have start: "?I []" by (simp add: bt.wf_empty bt.get_empty)
  have "try_fold (rrf_source k) [] (enumerate 0 (zip rankings weights)) = Inr scores"
    using assms(1) by (auto simp: rrf_explained_def res_bind_Inr_iff)
  from try_fold_inv [where I = ?I, OF _ start this] src have "?I scores" by meson
  with assms(3) show ?thesis by blast
qed

lemma rrf_contrib_Nil_iff: "rrf_contrib k p (src, ranking, w) = [] \<longleftrightarrow> p \<notin> set ranking"
proof -
  have "rrf_contrib k p (src, ranking, w) = [] \<longleftrightarrow> position (\<lambda>x. x = p) (retain_first (\<lambda>x. x) [] ranking) = None"
    by (auto simp: rrf_contrib_def split: option.splits)
  then show ?thesis using retain_first_keys [of "\<lambda>x. x" "[]" ranking] by (auto simp: position_None_iff)
qed

lemma rrf_explained_get:
  assumes "rrf_explained rankings weights k = Inr scores"
  shows "bt_wf scores"
    and "bt_get scores p = rrf_extend None (concat (map (rrf_contrib k p) (enumerate 0 (zip rankings weights))))"
  using assms rrf_sources_Inr [OF _ bt.wf_empty, of k _ scores]
  by (auto simp: rrf_explained_def res_bind_Inr_iff bt.get_empty)

subsection \<open>Hybrid ranking\<close>

lemma bt_get_mem': "bt_wf m \<Longrightarrow> bt_get m k = Some w \<longleftrightarrow> (k, w) \<in> set m"
  using bt.keys_distinct [of m] by (simp add: bt_get_def bt_keys_def)

lemma bt_collect_wf [simp]: "bt_wf (bt_collect kvs)"
  unfolding bt_collect_def by (rule bt.wf_fold [OF bt.wf_empty])

lemma bt_collect_get: "bt_get (bt_collect kvs) k = map_of (rev kvs) k"
  unfolding bt_collect_def bt.get_fold [OF bt.wf_empty] by (auto simp: bt.get_empty split: option.splits)

lemma bt_collect_Some: "bt_get (bt_collect kvs) k = Some v \<Longrightarrow> (k, v) \<in> set kvs"
  unfolding bt_collect_get using map_of_SomeD by fastforce

lemma bt_collect_contains: "bt_contains (bt_collect kvs) k \<longleftrightarrow> k \<in> fst ` set kvs"
  by (auto simp: bt_contains_iff bt_collect_get map_of_eq_None_iff)

lemma dense_map_Some:
  "bt_get (dense_map dense) p = Some (r, d) \<Longrightarrow> 1 \<le> r \<and> r \<le> length dense \<and> dense ! (r - 1) = d \<and> drp_page d = p"
  unfolding dense_map_def by (auto dest!: bt_collect_Some simp: in_set_enumerate_eq)

lemma dense_map_contains: "bt_contains (dense_map dense) p \<longleftrightarrow> p \<in> drp_page ` set dense"
proof -
  have "map fst (map (\<lambda>(index, page). (drp_page page, (index + 1, page))) (enumerate 0 dense))
      = map drp_page dense"
    by (simp add: comp_def case_prod_beta)
  then have "fst ` set (map (\<lambda>(index, page). (drp_page page, (index + 1, page))) (enumerate 0 dense)) = drp_page ` set dense"
    by (metis list.set_map)
  then show ?thesis unfolding dense_map_def bt_collect_contains by simp
qed

lemma lexical_map_Some:
  "bt_get (lexical_map cs) p = Some (r, c) \<Longrightarrow> 1 \<le> r \<and> r \<le> length cs \<and> cs ! (r - 1) = c \<and> chunk_page c = p"
  unfolding lexical_map_def by (auto dest!: bt_collect_Some simp: in_set_enumerate_eq)

lemma LEXICAL_WEIGHT_unit:
  "is_finite LEXICAL_WEIGHT" "f64_wf LEXICAL_WEIGHT" "0 \<le> f64_val LEXICAL_WEIGHT" "f64_val LEXICAL_WEIGHT \<le> 1"
proof -
  show "f64_wf LEXICAL_WEIGHT" by (simp add: LEXICAL_WEIGHT_def)
qed (use f64_of_mag_small [of "1/5" 0 False] round_mag_nonneg [of "1/5"] in
      \<open>auto simp: LEXICAL_WEIGHT_def f64_round_def\<close>)

lemma hybrid_weights_valid: "validate_weights 2 [f64_one, LEXICAL_WEIGHT] = Inr ()"
  using LEXICAL_WEIGHT_unit by (simp add: validate_weights_def)

lemma hybrid_scores_total:
  assumes "length a < 2 ^ 64" "length b < 2 ^ 64"
  shows "\<exists>scores. rrf_explained [a, b] [f64_one, LEXICAL_WEIGHT] RRF_K = Inr scores"
proof -
  have "\<exists>scores. try_fold (rrf_source RRF_K) [] [(0, a, f64_one), (1, b, LEXICAL_WEIGHT)] = Inr scores"
    using LEXICAL_WEIGHT_unit assms
    by (intro rrf_sources_total [where e = 0]) (auto simp: RRF_K_def rrf_bounded_def bt.get_empty bt.wf_empty)
  then show ?thesis using hybrid_weights_valid by (simp add: rrf_explained_def numeral_2_eq_2)
qed

lemma hybrid_keys:
  assumes "rrf_explained [a, b] [f64_one, LEXICAL_WEIGHT] RRF_K = Inr scores"
  shows "p \<in> fst ` set scores \<longleftrightarrow> p \<in> set a \<union> set b"
proof -
  have "p \<in> fst ` set scores \<longleftrightarrow> bt_get scores p \<noteq> None"
    by (simp add: bt_get_def map_of_eq_None_iff)
  also have "\<dots> \<longleftrightarrow> p \<in> set a \<union> set b"
    unfolding rrf_explained_get(2) [OF assms] by (auto simp: rrf_extend_def rrf_contrib_Nil_iff Let_def)
  finally show ?thesis .
qed

lemma hybrid_page_ok:
  assumes "hybrid_page (dense_map dense) (lexical_map (lexical_pages lexical)) scores p = Inr h"
  shows "hybrid_row_ok dense lexical h \<and> hrp_page h = p \<and> hrp_fusion h = bt_get scores p \<and> hrp_fusion h \<noteq> None"
proof -
  obtain r d s where g: "bt_get (dense_map dense) p = Some (r, d)" "bt_get scores p = Some s"
      "h = \<lparr> hrp_dense = d, hrp_lexical_chunk = map_option snd (bt_get (lexical_map (lexical_pages lexical)) p),
             hrp_dense_rank = r, hrp_lexical_rank = map_option fst (bt_get (lexical_map (lexical_pages lexical)) p),
             hrp_fusion = Some s \<rparr>"
    using assms by (auto simp: hybrid_page_def bt_index_def res_bind_Inr_iff)
  show ?thesis
    using dense_map_Some [OF g(1)] g(2) lexical_map_Some [of "lexical_pages lexical" p]
    by (cases "bt_get (lexical_map (lexical_pages lexical)) p")
       (auto simp: g(3) hybrid_row_ok_def hrp_page_def selected_chunk_def drp_page_def)
qed

lemma hybrid_page_total:
  assumes "bt_contains (dense_map dense) p" "bt_get scores p \<noteq> None"
  shows "\<exists>h. hybrid_page (dense_map dense) lx scores p = Inr h"
  using assms by (auto simp: hybrid_page_def bt_index_def bt_contains_iff)

lemma fusion_order_distinct: "bt_wf scores \<Longrightarrow> distinct (fusion_order scores)"
  using bt.keys_distinct [of scores] by (simp add: fusion_order_def bt_keys_def comp_def case_prod_beta)

lemma fusion_order_set: "set (fusion_order scores) = fst ` set scores"
  by (force simp: fusion_order_def)

lemma fusion_order_sorted:
  assumes "bt_wf scores"
  shows "sorted_wrt (\<lambda>p q. \<forall>x y. bt_get scores p = Some x \<and> bt_get scores q = Some y
     \<longrightarrow> fused_cmp (p, rrf_total x) (q, rrf_total y) \<noteq> Greater) (fusion_order scores)"
proof -
  let ?l = "sort_by fused_cmp (map (\<lambda>(page, score). (page, rrf_total score)) scores)"
  have key: "a \<in> set ?l \<Longrightarrow> bt_get scores (fst a) = Some x \<Longrightarrow> rrf_total x = snd a" for a x
    using bt_get_mem' [OF assms] by clarsimp (metis option.inject)
  have "sorted_wrt (\<lambda>a b. fused_cmp a b \<noteq> Greater) ?l" by (rule fused.sort_by_sorted)
  then have "sorted_wrt (\<lambda>a b. \<forall>x y. bt_get scores (fst a) = Some x \<and> bt_get scores (fst b) = Some y
     \<longrightarrow> fused_cmp (fst a, rrf_total x) (fst b, rrf_total y) \<noteq> Greater) ?l"
  proof (rule sorted_wrt_mono_rel [rotated], intro allI impI)
    fix a b x y
    assume "a \<in> set ?l" "b \<in> set ?l" "fused_cmp a b \<noteq> Greater"
      and g: "bt_get scores (fst a) = Some x \<and> bt_get scores (fst b) = Some y"
    moreover have "rrf_total x = snd a" "rrf_total y = snd b" using key calculation(1,2) g by blast+
    ultimately show "fused_cmp (fst a, rrf_total x) (fst b, rrf_total y) \<noteq> Greater" by simp
  qed
  then show ?thesis by (simp add: fusion_order_def sorted_wrt_map)
qed

lemma hybrid_rank_fused:
  assumes "filter (\<lambda>c. bt_contains (dense_map dense) (chunk_page c)) (lexical_pages lexical) \<noteq> []"
  shows "\<exists>scores rs. bt_wf scores \<and> hybrid_rank dense lexical limit = Inr rs
    \<and> map hrp_page rs = take limit (fusion_order scores)
    \<and> (\<forall>p s. bt_get scores p = Some s \<longrightarrow> fusion_ok s)
    \<and> (\<forall>h \<in> set rs. hybrid_row_ok dense lexical h \<and> hrp_fusion h = bt_get scores (hrp_page h) \<and> hrp_fusion h \<noteq> None)"
proof -
  let ?usable = "map chunk_page (filter (\<lambda>c. bt_contains (dense_map dense) (chunk_page c)) (lexical_pages lexical))"
  let ?a = "map drp_page (take CANDIDATES dense)"
  have "length ?usable \<le> CANDIDATES"
    unfolding length_map by (rule order.trans [OF length_filter_le]) (simp add: lexical_pages_def)
  then have l: "length ?a < 2 ^ 64" "length ?usable < 2 ^ 64" by (auto simp: CANDIDATES_def)
  obtain scores where sc: "rrf_explained [?a, ?usable] [f64_one, LEXICAL_WEIGHT] RRF_K = Inr scores"
    using hybrid_scores_total [OF l] by blast
  let ?hp = "hybrid_page (dense_map dense) (lexical_map (lexical_pages lexical)) scores"
  have "\<exists>h. ?hp p = Inr h" if "p \<in> set (take limit (fusion_order scores))" for p
  proof -
    have p: "p \<in> fst ` set scores" using that set_take_subset fusion_order_set by fastforce
    then have "p \<in> set ?a \<union> set ?usable" using hybrid_keys [OF sc] by blast
    then have "bt_contains (dense_map dense) p" by (auto simp: dense_map_contains dest: in_set_takeD)
    moreover have "bt_get scores p \<noteq> None" using p by (simp add: bt_get_def map_of_eq_None_iff)
    ultimately show ?thesis by (rule hybrid_page_total)
  qed
  then have "try_map ?hp (take limit (fusion_order scores)) = Inr (map (\<lambda>p. projr (?hp p)) (take limit (fusion_order scores)))"
    by (intro try_map_total) force
  then obtain rs where rs: "try_map ?hp (take limit (fusion_order scores)) = Inr rs" by blast
  have row: "?hp p = Inr h \<Longrightarrow> hybrid_row_ok dense lexical h \<and> hrp_page h = p \<and> hrp_fusion h = bt_get scores p
      \<and> hrp_fusion h \<noteq> None" for p h
    by (rule hybrid_page_ok)
  have "hybrid_rank dense lexical limit = Inr rs"
    using assms sc rs by (simp add: hybrid_rank_def Let_def fusion_order_def)
  moreover have "map hrp_page rs = take limit (fusion_order scores)"
    using try_map_map [OF rs, of hrp_page "\<lambda>p. p"] row by simp
  moreover have "\<forall>h \<in> set rs. hybrid_row_ok dense lexical h \<and> hrp_fusion h = bt_get scores (hrp_page h) \<and> hrp_fusion h \<noteq> None"
    using try_map_Inr_set [OF rs] row by blast
  moreover have "\<forall>p s. bt_get scores p = Some s \<longrightarrow> fusion_ok s"
    using rrf_explained_fusion_ok [OF sc] LEXICAL_WEIGHT_unit by simp
  ultimately show ?thesis using rrf_explained_get(1) [OF sc] by blast
qed

lemma hybrid_rank_fallback:
  assumes "filter (\<lambda>c. bt_contains (dense_map dense) (chunk_page c)) (lexical_pages lexical) = []"
  shows "hybrid_rank dense lexical limit = Inr (map (\<lambda>(index, page).
     \<lparr> hrp_dense = page, hrp_lexical_chunk = None, hrp_dense_rank = index + 1,
       hrp_lexical_rank = None, hrp_fusion = None \<rparr>) (enumerate 0 (take limit dense)))"
  using assms by (simp add: hybrid_rank_def Let_def)

lemma fallback_rows:
  assumes "h \<in> set (map (\<lambda>(index, page).
     \<lparr> hrp_dense = page, hrp_lexical_chunk = None, hrp_dense_rank = index + 1,
       hrp_lexical_rank = None, hrp_fusion = None \<rparr>) (enumerate 0 (take limit dense)))"
  shows "hybrid_row_ok dense lexical h"
  using assms by (auto simp: in_set_enumerate_eq hybrid_row_ok_def selected_chunk_def hrp_page_def drp_page_def)

lemma hybrid_rank_total: "\<exists>rs. hybrid_rank dense lexical limit = Inr rs"
  using hybrid_rank_fallback [of dense lexical limit] hybrid_rank_fused [of dense lexical limit]
  by (cases "filter (\<lambda>c. bt_contains (dense_map dense) (chunk_page c)) (lexical_pages lexical) = []") blast+

lemma hybrid_rank_rows:
  assumes "hybrid_rank dense lexical limit = Inr rs" "h \<in> set rs"
  shows "hybrid_row_ok dense lexical h \<and> (\<forall>s. hrp_fusion h = Some s \<longrightarrow> fusion_ok s)"
proof (cases "filter (\<lambda>c. bt_contains (dense_map dense) (chunk_page c)) (lexical_pages lexical) = []")
  case True
  have h: "h \<in> set (map (\<lambda>(index, page).
     \<lparr> hrp_dense = page, hrp_lexical_chunk = None, hrp_dense_rank = index + 1,
       hrp_lexical_rank = None, hrp_fusion = None \<rparr>) (enumerate 0 (take limit dense)))"
    using assms hybrid_rank_fallback [OF True, of limit] by simp
  then have "hrp_fusion h = None" by auto
  with fallback_rows [OF h] show ?thesis by simp
next
  case False
  then show ?thesis using hybrid_rank_fused [OF False, of limit] assms by auto
qed

section \<open>Properties\<close>

text \<open>Page identities: a path is accepted exactly when it is absolute, normalized and free of
  dot components; it is then read back unchanged, and every identity made of proper names is the
  identity of its own path.\<close>

lemma page_id_roundtrip:
  "(from_canonical_path path = Inr p \<longrightarrow> page_as_str p = path)
   \<and> (page_names q \<noteq> [] \<and> (\<forall>n \<in> set (page_names q). n \<noteq> [] \<and> n \<noteq> [dot] \<and> n \<noteq> [dot, dot] \<and> slash \<notin> set n)
      \<longrightarrow> from_canonical_path (page_as_str q) = Inr q)"
  using from_canonical_path_Inr from_canonical_path_str by blast

lemma page_id_roundtrip_example:
  "from_canonical_path (lit ''/wiki/a.md'') = Inr (PageId [lit ''wiki'', lit ''a.md''])
   \<and> page_as_str (PageId [lit ''wiki'', lit ''a.md'']) = lit ''/wiki/a.md''"
proof -
  have 1: "from_canonical_path (lit ''/wiki/a.md'') = Inr (PageId [lit ''wiki'', lit ''a.md''])" by code_simp
  with page_id_roundtrip [of "lit ''/wiki/a.md''" "PageId [lit ''wiki'', lit ''a.md'']" "PageId []"]
  show ?thesis by simp
qed

text \<open>A cosine score is a finite number in the closed interval from -1 to 1 and does not
  depend on the order of the two vectors; its four-decimal public value stays in the interval.\<close>

lemma cosine_bounds:
  assumes "cosine left right = Inr s" and "\<forall>v \<in> set left. f64_wf v" and "\<forall>v \<in> set right. f64_wf v"
  shows "is_finite s \<and> -1 \<le> f64_val s \<and> f64_val s \<le> 1 \<and> cosine right left = Inr s
    \<and> (\<exists>n. normalize_score s = Inr (NormalizedScore n) \<and> is_finite n \<and> -1 \<le> f64_val n \<and> f64_val n \<le> 1)"
  using cosine_range [OF assms(1)] cosine_sym [OF assms(1)] cosine_wf [OF assms] round_dec4_range [of s]
  by (auto simp: normalize_score_unit)

lemma cosine_bounds_example:
  "cosine [Fin False 1] [Fin True 1] = Inr f64_neg_one \<and> cosine [Fin True 1] [Fin False 1] = Inr f64_neg_one"
proof -
  have 1: "cosine [Fin False 1] [Fin True 1] = Inr f64_neg_one"
    by (simp add: cosine_def checked_squared_norm_def f64_zero_def f64_sum_def f64_round_def
        sqrt_mag_1 f64_clamp_def f64_neg_one_def f64_one_def Let_def)
  show ?thesis
    using cosine_bounds [OF 1] f64_consts(7,8) 1 by (simp add: f64_neg_one_def f64_one_def)
qed

text \<open>Dense ranking succeeds whenever every cosine exists, and then lists every candidate page
  once, by non-increasing public score, each with its best chunk: no other chunk of the page has a
  larger unrounded cosine, and among equals the smaller chunk identity is shown.\<close>

lemma dense_rank_best:
  assumes "\<forall>c \<in> set cs. \<exists>s. cosine q (dc_vector c) = Inr s"
    and "\<forall>v \<in> set q. f64_wf v" and "\<forall>c \<in> set cs. \<forall>v \<in> set (dc_vector c). f64_wf v"
  shows "\<exists>rs. dense_rank q cs = Inr rs
    \<and> distinct (map drp_page rs)
    \<and> set (map drp_page rs) = set (map (\<lambda>c. chunk_page (dc_id c)) cs)
    \<and> sorted_wrt (\<lambda>a b. f64_val (score_get (drp_score b)) \<le> f64_val (score_get (drp_score a))) rs
    \<and> (\<forall>r \<in> set rs. \<exists>c \<in> set cs. \<exists>s. dc_id c = drp_chunk r \<and> cosine q (dc_vector c) = Inr s
         \<and> normalize_score s = Inr (drp_score r)
         \<and> (\<forall>c' \<in> set cs. \<forall>s'. chunk_page (dc_id c') = drp_page r \<and> cosine q (dc_vector c') = Inr s'
              \<longrightarrow> total_cmp s' s = Less \<or> s' = s \<and> drp_chunk r \<le> dc_id c'))"
proof -
  obtain rs where rs: "dense_rank q cs = Inr rs" using dense_rank_total [OF assms(1)] by blast
  obtain chunks where
    ch: "list_all2 (\<lambda>c k. sc_id k = dc_id c \<and> cosine q (dc_vector c) = Inr (sc_score k)) cs chunks" and
    rk: "list_all2 (\<lambda>k r. drp_chunk r = sc_id k \<and> drp_score r = NormalizedScore (round_dec4 (sc_score k)))
       (retain_first (\<lambda>c. chunk_page (sc_id c)) [] (sort_by scored_cmp chunks)) rs"
    using dense_rank_chunks [OF rs] .
  let ?pg = "\<lambda>k. chunk_page (sc_id k)"
  let ?k = "retain_first ?pg [] (sort_by scored_cmp chunks)"
  have sub: "set ?k \<subseteq> set chunks" using retain_first_subset [of ?pg "[]" "sort_by scored_cmp chunks"] by simp
  have srt: "sorted_wrt (\<lambda>a b. scored_cmp a b \<noteq> Greater) ?k"
    by (rule retain_first_sorted [OF scored.sort_by_sorted])
  have sc: "is_finite (sc_score k) \<and> -1 \<le> f64_val (sc_score k) \<and> f64_val (sc_score k) \<le> 1 \<and> f64_wf (sc_score k)"
    if "k \<in> set chunks" for k
    using list_all2_in2 [OF ch that] cosine_range cosine_wf assms(2,3) by blast
  have pages: "map drp_page rs = map ?pg ?k"
    by (rule list_all2_map_eq [symmetric, OF rk]) (simp add: drp_page_def)
  have "?pg ` set chunks = (\<lambda>c. chunk_page (dc_id c)) ` set cs"
    using list_all2_map_eq [OF ch, of "\<lambda>c. chunk_page (dc_id c)" ?pg] by (metis (no_types, lifting) list.set_map)
  then have set_pages: "set (map drp_page rs) = set (map (\<lambda>c. chunk_page (dc_id c)) cs)"
    using retain_first_keys [of ?pg "[]" "sort_by scored_cmp chunks"] unfolding pages by simp
  have "sorted_wrt (\<lambda>a b. f64_val (score_get (drp_score b)) \<le> f64_val (score_get (drp_score a))) rs"
    using sc sub by (intro list_all2_sorted [OF rk srt])
      (auto intro!: round_dec4_mono scored_cmp_val)
  moreover have "\<exists>c \<in> set cs. \<exists>s. dc_id c = drp_chunk r \<and> cosine q (dc_vector c) = Inr s
         \<and> normalize_score s = Inr (drp_score r)
         \<and> (\<forall>c' \<in> set cs. \<forall>s'. chunk_page (dc_id c') = drp_page r \<and> cosine q (dc_vector c') = Inr s'
              \<longrightarrow> total_cmp s' s = Less \<or> s' = s \<and> drp_chunk r \<le> dc_id c')" if r: "r \<in> set rs" for r
  proof -
    obtain c k where ck: "c \<in> set cs" "k \<in> set chunks" "dc_id c = drp_chunk r" "cosine q (dc_vector c) = Inr (sc_score k)"
        "drp_score r = NormalizedScore (round_dec4 (sc_score k))"
        "\<forall>c' \<in> set cs. \<forall>s'. chunk_page (dc_id c') = drp_page r \<and> cosine q (dc_vector c') = Inr s'
           \<longrightarrow> total_cmp s' (sc_score k) = Less \<or> s' = sc_score k \<and> drp_chunk r \<le> dc_id c'"
      using dense_rank_page_best [OF ch rk r] by blast
    moreover have "normalize_score (sc_score k) = Inr (drp_score r)"
      using sc [OF ck(2)] ck(5) by (simp add: normalize_score_unit)
    ultimately show ?thesis by blast
  qed
  moreover have "distinct (map drp_page rs)" unfolding pages by (rule retain_first_distinct)
  ultimately show ?thesis using rs set_pages by blast
qed

lemma dense_rank_best_example:
  "\<exists>rs. dense_rank [f64_one]
       [\<lparr> dc_id = ChunkId (PageId [lit ''a'']) 0, dc_vector = [f64_neg_one] \<rparr>,
        \<lparr> dc_id = ChunkId (PageId [lit ''a'']) 1, dc_vector = [f64_one] \<rparr>] = Inr rs
     \<and> distinct (map drp_page rs) \<and> set (map drp_page rs) = {PageId [lit ''a'']}"
proof -
  let ?cs = "[\<lparr> dc_id = ChunkId (PageId [lit ''a'']) 0, dc_vector = [f64_neg_one] \<rparr>,
        \<lparr> dc_id = ChunkId (PageId [lit ''a'']) 1, dc_vector = [f64_one] \<rparr>]"
  have "cosine [f64_one] [f64_neg_one] = Inr f64_neg_one" "cosine [f64_one] [f64_one] = Inr f64_one"
    by (simp_all add: cosine_def checked_squared_norm_def f64_zero_def f64_sum_def f64_round_def
        sqrt_mag_1 f64_clamp_def f64_neg_one_def f64_one_def Let_def)
  then have "\<forall>c \<in> set ?cs. \<exists>s. cosine [f64_one] (dc_vector c) = Inr s" by simp
  from dense_rank_best [OF this] show ?thesis by auto
qed

text \<open>Reciprocal rank fusion gives every page exactly the contributions of the sources that rank
  it, in source order, each at the page's first position in that source and worth
  weight / (k + rank); the total is their sum in that order and no other page has a score.\<close>

lemma rrf_explained_spec:
  assumes "rrf_explained rankings weights k = Inr scores"
  shows "bt_wf scores \<and> length weights = length rankings
    \<and> (\<forall>p. bt_get scores p =
        (let cs = concat (map (rrf_contrib k p) (enumerate 0 (zip rankings weights)))
         in if p \<in> \<Union> (set ` set rankings)
            then Some \<lparr> rrf_total = foldl f64_add f64_zero (map rc_score cs), contributions = cs \<rparr> else None))"
proof -
  have len: "length weights = length rankings"
    using assms by (auto simp: rrf_explained_def validate_weights_def res_bind_Inr_iff split: if_splits)
  have "concat (map (rrf_contrib k p) (enumerate n (zip rs ws))) = [] \<longleftrightarrow> p \<notin> \<Union> (set ` set rs)"
    if "length ws = length rs" for n p rs ws
    using that
  proof (induction rs arbitrary: n ws)
    case (Cons r rs)
    then show ?case using rrf_contrib_Nil_iff by (cases ws) auto
  qed simp
  from this [OF len] show ?thesis
    using rrf_explained_get [OF assms] len by (auto simp: rrf_extend_def Let_def)
qed

lemma rrf_explained_spec_example:
  "\<exists>scores. rrf_explained [[PageId [lit ''a'']], [PageId [lit ''b''], PageId [lit ''a'']]] [f64_one, LEXICAL_WEIGHT] RRF_K
       = Inr scores \<and> bt_wf scores \<and> bt_get scores (PageId [lit ''c'']) = None"
proof -
  obtain scores where sc: "rrf_explained [[PageId [lit ''a'']], [PageId [lit ''b''], PageId [lit ''a'']]]
      [f64_one, LEXICAL_WEIGHT] RRF_K = Inr scores"
    using hybrid_scores_total [of "[PageId [lit ''a'']]" "[PageId [lit ''b''], PageId [lit ''a'']]"] by auto
  from rrf_explained_spec [OF sc] sc show ?thesis by (auto simp: Let_def)
qed

text \<open>C9: hybrid ranking never fails and never indexes a missing page. It returns at most
  \<open>limit\<close> distinct pages of the dense ranking, each with its true dense rank, and its lexical rank
  and chunk when it has one; the rows are ordered by fused total, best first, ties by path, or by
  dense rank when no lexical page has a vector.\<close>

theorem hybrid_rank_sound:
  assumes "distinct (map drp_page dense)"
  shows "\<exists>rs. hybrid_rank dense lexical limit = Inr rs
    \<and> length rs \<le> limit \<and> distinct (map hrp_page rs)
    \<and> (\<forall>h \<in> set rs. hybrid_row_ok dense lexical h)
    \<and> sorted_wrt hybrid_before rs"
proof (cases "filter (\<lambda>c. bt_contains (dense_map dense) (chunk_page c)) (lexical_pages lexical) = []")
  case True
  let ?f = "\<lambda>(index, page). \<lparr> hrp_dense = page, hrp_lexical_chunk = None, hrp_dense_rank = index + 1,
       hrp_lexical_rank = None, hrp_fusion = None \<rparr>"
  have "map hrp_page (map ?f (enumerate 0 (take limit dense))) = take limit (map drp_page dense)"
    by (simp add: hrp_page_def comp_def case_prod_beta take_map)
  moreover have "sorted_wrt hybrid_before (map ?f (enumerate n xs))" for n xs
    by (induction xs arbitrary: n) (auto simp: hybrid_before_def in_set_enumerate_eq)
  ultimately show ?thesis
    using hybrid_rank_fallback [OF True] fallback_rows assms
    by (intro exI [of _ "map ?f (enumerate 0 (take limit dense))"]) auto
next
  case False
  obtain scores rs where r: "bt_wf scores" "hybrid_rank dense lexical limit = Inr rs"
      "map hrp_page rs = take limit (fusion_order scores)"
      "\<forall>h \<in> set rs. hybrid_row_ok dense lexical h \<and> hrp_fusion h = bt_get scores (hrp_page h) \<and> hrp_fusion h \<noteq> None"
    using hybrid_rank_fused [OF False] by blast
  have "sorted_wrt (\<lambda>p q. \<forall>x y. bt_get scores p = Some x \<and> bt_get scores q = Some y
     \<longrightarrow> fused_cmp (p, rrf_total x) (q, rrf_total y) \<noteq> Greater) (map hrp_page rs)"
    unfolding r(3) by (rule sorted_wrt_take [OF fusion_order_sorted [OF r(1)]])
  then have "sorted_wrt hybrid_before rs"
    unfolding sorted_wrt_map
  proof (rule sorted_wrt_mono_rel [rotated])
    fix a b
    assume "a \<in> set rs" "b \<in> set rs" and le: "\<forall>x y. bt_get scores (hrp_page a) = Some x \<and> bt_get scores (hrp_page b) = Some y
       \<longrightarrow> fused_cmp (hrp_page a, rrf_total x) (hrp_page b, rrf_total y) \<noteq> Greater"
    then obtain x y where "hrp_fusion a = Some x" "hrp_fusion b = Some y"
      "bt_get scores (hrp_page a) = Some x" "bt_get scores (hrp_page b) = Some y"
      using r(4) by (metis option.exhaust)
    with le show "hybrid_before a b" by (simp add: hybrid_before_def)
  qed
  moreover have "length rs \<le> limit" using arg_cong [OF r(3), of length] by simp
  moreover have "distinct (map hrp_page rs)" unfolding r(3) using fusion_order_distinct [OF r(1)] by simp
  ultimately show ?thesis using r(2,4) by blast
qed

theorem hybrid_rank_sound_witness:
  "\<exists>rs. hybrid_rank
      [\<lparr> drp_chunk = ChunkId (PageId [lit ''a'']) 0, drp_score = NormalizedScore f64_one \<rparr>,
       \<lparr> drp_chunk = ChunkId (PageId [lit ''b'']) 0, drp_score = NormalizedScore f64_zero \<rparr>]
      [ChunkId (PageId [lit ''b'']) 3] 1 = Inr rs \<and> length rs \<le> 1 \<and> sorted_wrt hybrid_before rs"
proof -
  let ?d = "[\<lparr> drp_chunk = ChunkId (PageId [lit ''a'']) 0, drp_score = NormalizedScore f64_one \<rparr>,
       \<lparr> drp_chunk = ChunkId (PageId [lit ''b'']) 0, drp_score = NormalizedScore f64_zero \<rparr>]"
  have "distinct (map drp_page ?d)" by code_simp
  from hybrid_rank_sound [OF this, of "[ChunkId (PageId [lit ''b'']) 3]" 1] show ?thesis by blast
qed

text \<open>The ranked page list of a score map holds the \<open>limit\<close> best pages, each once, best first:
  a page left out never outranks one that is listed.\<close>

lemma ranked_ids_top:
  assumes "bt_wf scores"
  shows "length (ranked_ids scores limit) = min limit (length scores)
    \<and> distinct (ranked_ids scores limit)
    \<and> set (ranked_ids scores limit) \<subseteq> set (bt_keys scores)
    \<and> (\<forall>(p, x) \<in> set scores. \<forall>(q, y) \<in> set scores.
         p \<in> set (ranked_ids scores limit) \<and> q \<notin> set (ranked_ids scores limit)
         \<longrightarrow> fused_cmp (p, x) (q, y) \<noteq> Greater)"
proof -
  let ?s = "sort_by fused_cmp scores"
  have d: "distinct (map fst ?s)" using bt.keys_distinct [OF assms] by (simp add: bt_keys_def)
  have split: "set ?s = set (take limit ?s) \<union> set (drop limit ?s)" by (metis append_take_drop_id set_append)
  have "sorted_wrt (\<lambda>a b. fused_cmp a b \<noteq> Greater) (take limit ?s @ drop limit ?s)"
    by (simp add: fused.sort_by_sorted)
  then have before: "a \<in> set (take limit ?s) \<Longrightarrow> b \<in> set (drop limit ?s) \<Longrightarrow> fused_cmp a b \<noteq> Greater" for a b
    unfolding sorted_wrt_append by blast
  have key: "a \<in> set ?s \<Longrightarrow> b \<in> set ?s \<Longrightarrow> fst a = fst b \<Longrightarrow> a = b" for a b
    using d by (meson distinct_map inj_onD)
  have "fused_cmp a b \<noteq> Greater"
    if ab: "a \<in> set scores" "b \<in> set scores" "fst a \<in> set (ranked_ids scores limit)" "fst b \<notin> set (ranked_ids scores limit)"
    for a b
  proof (rule before)
    obtain c where "c \<in> set (take limit ?s)" "fst c = fst a" using ab(3) by (auto simp: ranked_ids_def)
    then show "a \<in> set (take limit ?s)" using key [of c a] ab(1) split by auto
    show "b \<in> set (drop limit ?s)" using ab(2,4) split by (auto simp: ranked_ids_def)
  qed
  moreover have "distinct (ranked_ids scores limit)" using d by (simp add: ranked_ids_def take_map [symmetric])
  moreover have "set (ranked_ids scores limit) \<subseteq> set (bt_keys scores)"
    by (auto simp: ranked_ids_def bt_keys_def dest!: in_set_takeD)
  moreover have "length (ranked_ids scores limit) = min limit (length scores)"
    by (auto simp: ranked_ids_def min_def)
  ultimately show ?thesis by auto
qed

lemma ranked_ids_top_example:
  "ranked_ids [(PageId [lit ''a''], f64_zero), (PageId [lit ''b''], f64_one)] 1 = [PageId [lit ''b'']]
   \<and> length (ranked_ids [(PageId [lit ''a''], f64_zero), (PageId [lit ''b''], f64_one)] 1) = 1"
proof -
  have "bt_wf [(PageId [lit ''a''], f64_zero), (PageId [lit ''b''], f64_one)]" by code_simp
  from ranked_ids_top [OF this, of 1] show ?thesis by (intro conjI) (code_simp, auto)
qed

end
