(* ===== verification/Select.thy ===== *)
theory Select
  imports Rank
begin

text \<open>
  Result selection of \<open>yams-core/src/select.rs\<close>: validated controls, the unique-identifier
  rescue on bytes, collapsing to pages, the confidence gate with its verdict, and exit codes
  (\<open>yams-core/src/lib.rs\<close>). Paths are the UTF-8 strings the code compares.
\<close>

section \<open>Definitions\<close>

datatype exit_code = ExitOk | ExitEmpty | ExitUsage | ExitUnsure | ExitOperational

fun exit_code_i32 :: "exit_code \<Rightarrow> int" where
  "exit_code_i32 ExitOk = 0"
| "exit_code_i32 ExitEmpty = 1"
| "exit_code_i32 ExitUsage = 2"
| "exit_code_i32 ExitUnsure = 3"
| "exit_code_i32 ExitOperational = 4"

definition MIN_SCORE :: f64 where "MIN_SCORE = f64_round (72/100)"
definition MAX_GAP :: f64 where "MAX_GAP = f64_round (5/100)"
definition DEFAULT_K :: nat where "DEFAULT_K = 5"

datatype gate_mode = Apply | Bypass

record selection_config =
  cfg_limit :: nat
  cfg_min_score :: f64
  cfg_max_gap :: f64
  cfg_gate_mode :: gate_mode

datatype selection_error =
  NonFiniteMinScore
| MinScoreOutsideCosineRange
| NonFiniteMaxGap
| NegativeMaxGap
| MissingBaselineForCandidates
| InvalidRankSignal ustr

definition selection_config_new ::
  "nat \<Rightarrow> f64 \<Rightarrow> f64 \<Rightarrow> gate_mode \<Rightarrow> (selection_error, selection_config) result" where
  "selection_config_new limit min_score max_gap mode =
     (if \<not> is_finite min_score then Inl NonFiniteMinScore
      else if \<not> f64_contains f64_neg_one f64_one min_score then Inl MinScoreOutsideCosineRange
      else if \<not> is_finite max_gap then Inl NonFiniteMaxGap
      else if f64_lt max_gap f64_zero then Inl NegativeMaxGap
      else Inr \<lparr> cfg_limit = limit, cfg_min_score = min_score, cfg_max_gap = max_gap, cfg_gate_mode = mode \<rparr>)"

definition selection_config_default :: selection_config where
  "selection_config_default =
     \<lparr> cfg_limit = DEFAULT_K, cfg_min_score = MIN_SCORE, cfg_max_gap = MAX_GAP, cfg_gate_mode = Apply \<rparr>"

record rank_contribution =
  rk_source :: nat
  rk_rank :: nat
  rk_weight :: f64
  rk_score :: f64

record hit_explanation =
  he_dense_rank :: "nat option"
  he_bm25_rank :: "nat option"
  he_rrf_score :: "f64 option"
  he_contributions :: "rank_contribution list"

record page_labels =
  pl_corpus :: "ustr option"
  pl_status :: "ustr option"
  pl_project :: "ustr option"

record selected_chunk_rec =
  sch_ordinal :: nat
  sch_text :: ustr

record ranked_hit =
  rh_name :: ustr
  rh_path :: ustr
  rh_dense_chunk :: selected_chunk_rec
  rh_lexical_chunk :: "selected_chunk_rec option"
  rh_score :: normalized_score
  rh_final_rank :: nat
  rh_explanation :: hit_explanation
  rh_labels :: page_labels

record literal_chunk =
  lc_path :: ustr
  lc_ordinal :: nat
  lc_text :: ustr

record exact_match =
  em_path :: ustr
  em_ordinal :: nat

subsection \<open>The unique-identifier rescue\<close>

definition is_identifier_byte :: "u8 \<Rightarrow> bool" where
  "is_identifier_byte b = (is_ascii_alphanumeric (unat b) \<or> b = 95)"

fun token_loop ::
  "u8 list \<Rightarrow> nat \<Rightarrow> nat option \<Rightarrow> u8 list list \<Rightarrow> u8 list \<Rightarrow> (u8 list list \<times> nat option) option" where
  "token_loop query index start tokens [] = Some (tokens, start)"
| "token_loop query index start tokens (b # rest) =
     (if is_identifier_byte b
      then token_loop query (index + 1) (Some (case start of Some s \<Rightarrow> s | None \<Rightarrow> index)) tokens rest
      else (case start of
              None \<Rightarrow> token_loop query (index + 1) None tokens rest
            | Some token_start \<Rightarrow>
                let tokens' = tokens @ [take (index - token_start) (drop token_start query)]
                in if 1 < length tokens' then None
                   else token_loop query (index + 1) None tokens' rest))"

definition single_ascii_identifier_token :: "ustr \<Rightarrow> u8 list option" where
  "single_ascii_identifier_token query =
     (let bytes = as_bytes query
      in case token_loop bytes 0 None [] bytes of
           None \<Rightarrow> None
         | Some (tokens, start) \<Rightarrow>
             let tokens' = (case start of Some s \<Rightarrow> tokens @ [drop s bytes] | None \<Rightarrow> tokens)
             in (case tokens' of [t] \<Rightarrow> Some t | _ \<Rightarrow> None))"

definition identifier_at :: "u8 list \<Rightarrow> u8 list \<Rightarrow> nat \<Rightarrow> bool" where
  "identifier_at s token start =
     (take (length token) (drop start s) = token
      \<and> (start = 0 \<or> \<not> is_identifier_byte (s ! (start - 1)))
      \<and> (start + length token = length s \<or> \<not> is_identifier_byte (s ! (start + length token))))"

definition contains_identifier :: "ustr \<Rightarrow> u8 list \<Rightarrow> bool" where
  "contains_identifier content token =
     list_ex (identifier_at (as_bytes content) token)
       [0..<length (as_bytes content) + 1 - length token]"

definition rescue_token :: "u8 list \<Rightarrow> bool" where
  "rescue_token token =
     (let lower_camel_case = (is_ascii_lowercase (unat (hd token))
            \<and> list_ex (\<lambda>b. is_ascii_uppercase (unat b)) (tl token))
      in 95 \<in> set token \<or> list_ex (\<lambda>b. is_ascii_digit (unat b)) token \<or> lower_camel_case)"

definition literal_cmp :: "literal_chunk \<Rightarrow> literal_chunk \<Rightarrow> ordering" where
  "literal_cmp left right = then_with (cmp (lc_path left) (lc_path right)) (cmp (lc_ordinal left) (lc_ordinal right))"

definition exact_identifier_match :: "ustr \<Rightarrow> ustr option \<Rightarrow> literal_chunk list \<Rightarrow> exact_match option" where
  "exact_identifier_match query lexical_leader chunks =
     (case single_ascii_identifier_token query of
        None \<Rightarrow> None
      | Some token \<Rightarrow>
          if \<not> rescue_token token then None
          else (case sort_by literal_cmp (filter (\<lambda>c. contains_identifier (lc_text c) token) chunks) of
                  [] \<Rightarrow> None
                | first # rest \<Rightarrow>
                    if list_ex (\<lambda>c. lc_path c \<noteq> lc_path first) (first # rest) then None
                    else if lexical_leader \<noteq> Some (lc_path first) then None
                    else Some \<lparr> em_path = lc_path first, em_ordinal = lc_ordinal first \<rparr>))"

subsection \<open>Selected hits and the gate\<close>

record selected_hit_rec =
  sh_name :: ustr
  sh_path :: ustr
  sh_chunk :: selected_chunk_rec
  sh_score :: normalized_score
  sh_exact :: bool
  sh_explanation :: hit_explanation
  sh_labels :: page_labels

record gate_hit =
  gh_path :: ustr
  gh_score :: f64

definition gate_hit_of :: "selected_hit_rec \<Rightarrow> gate_hit" where
  "gate_hit_of h = \<lparr> gh_path = sh_path h, gh_score = score_get (sh_score h) \<rparr>"

datatype gate_reason = NoHits | Floor | Gap | Passed

record gate_verdict =
  gv_baseline :: f64
  gv_min_score :: f64
  gv_max_gap :: f64
  gv_no_hits :: bool
  gv_floor_fired :: bool
  gv_top :: "f64 option"
  gv_floor_dropped :: "gate_hit list"
  gv_gap_dropped :: "gate_hit list"
  gv_rescued :: "gate_hit list"

definition gate_margin :: "gate_verdict \<Rightarrow> f64" where
  "gate_margin v = f64_sub (gv_baseline v) (gv_min_score v)"

definition gate_reason_of :: "gate_verdict \<Rightarrow> gate_reason" where
  "gate_reason_of v =
     (if gv_no_hits v then NoHits else if gv_floor_fired v then Floor
      else if gv_gap_dropped v \<noteq> [] \<or> gv_rescued v \<noteq> [] then Gap else Passed)"

definition maximum_score :: "selected_hit_rec list \<Rightarrow> f64 option" where
  "maximum_score hits =
     (case map (\<lambda>h. score_get (sh_score h)) hits of
        [] \<Rightarrow> None
      | x # xs \<Rightarrow> Some (foldl (\<lambda>a b. if total_cmp a b = Greater then a else b) x xs))"

record gate_lists =
  gl_kept :: "selected_hit_rec list"
  gl_dropped :: "gate_hit list"
  gl_rescued :: "gate_hit list"

definition floor_step :: "gate_lists \<Rightarrow> selected_hit_rec \<Rightarrow> gate_lists" where
  "floor_step g h =
     (if sh_exact h
      then g\<lparr> gl_rescued := gl_rescued g @ [gate_hit_of h], gl_kept := gl_kept g @ [h] \<rparr>
      else g\<lparr> gl_dropped := gl_dropped g @ [gate_hit_of h] \<rparr>)"

definition gap_passes :: "f64 \<Rightarrow> f64 \<Rightarrow> selected_hit_rec \<Rightarrow> bool" where
  "gap_passes anchor max_gap h = f64_le (f64_sub anchor max_gap) (score_get (sh_score h))"

definition gap_step :: "f64 \<Rightarrow> f64 \<Rightarrow> gate_lists \<Rightarrow> selected_hit_rec \<Rightarrow> gate_lists" where
  "gap_step anchor max_gap g h =
     (let passes = gap_passes anchor max_gap h
      in if passes \<or> sh_exact h
         then g\<lparr> gl_rescued := gl_rescued g @ (if \<not> passes then [gate_hit_of h] else []),
                 gl_kept := gl_kept g @ [h] \<rparr>
         else g\<lparr> gl_dropped := gl_dropped g @ [gate_hit_of h] \<rparr>)"

definition no_lists :: gate_lists where
  "no_lists = \<lparr> gl_kept = [], gl_dropped = [], gl_rescued = [] \<rparr>"

definition verdict ::
  "f64 \<Rightarrow> selection_config \<Rightarrow> bool \<Rightarrow> bool \<Rightarrow> f64 option \<Rightarrow> gate_hit list \<Rightarrow> gate_hit list \<Rightarrow> gate_hit list \<Rightarrow> gate_verdict" where
  "verdict baseline config no_hits floor_fired top_score floor_dropped gap_dropped rescued =
     \<lparr> gv_baseline = baseline, gv_min_score = cfg_min_score config, gv_max_gap = cfg_max_gap config,
       gv_no_hits = no_hits, gv_floor_fired = floor_fired, gv_top = top_score,
       gv_floor_dropped = floor_dropped, gv_gap_dropped = gap_dropped, gv_rescued = rescued \<rparr>"

definition apply_gate ::
  "selected_hit_rec list \<Rightarrow> f64 \<Rightarrow> selection_config \<Rightarrow> selected_hit_rec list \<times> gate_verdict" where
  "apply_gate hits baseline config =
     (if hits = [] then ([], verdict baseline config True False None [] [] [])
      else if f64_lt baseline (cfg_min_score config)
      then let g = foldl floor_step no_lists hits
           in (gl_kept g, verdict baseline config False True (maximum_score (gl_kept g))
                 (gl_dropped g) [] (gl_rescued g))
      else let anchor = the (maximum_score hits);
               g = foldl (gap_step anchor (cfg_max_gap config)) no_lists hits
           in (gl_kept g, verdict baseline config False False (maximum_score (gl_kept g))
                 [] (gl_dropped g) (gl_rescued g)))"

subsection \<open>Selection\<close>

record selection_outcome =
  so_query :: ustr
  so_hits :: "selected_hit_rec list"
  so_applied :: bool
  so_gate :: "gate_verdict option"
  so_exit_code :: exit_code

definition validate_hit :: "ranked_hit \<Rightarrow> (selection_error, unit) result" where
  "validate_hit hit =
     (let e = rh_explanation hit;
          invalid_rank = (rh_final_rank hit = 0 \<or> he_dense_rank e = Some 0 \<or> he_bm25_rank e = Some 0
            \<or> (case he_rrf_score e of Some score \<Rightarrow> \<not> is_finite score | None \<Rightarrow> False)
            \<or> list_ex (\<lambda>c. rk_rank c = 0 \<or> \<not> is_finite (rk_weight c) \<or> f64_lt (rk_weight c) f64_zero
                 \<or> \<not> is_finite (rk_score c)) (he_contributions e))
      in if invalid_rank then Inl (InvalidRankSignal (rh_path hit)) else Inr ())"

definition selected_hit :: "exact_match option \<Rightarrow> literal_chunk list \<Rightarrow> ranked_hit \<Rightarrow> selected_hit_rec" where
  "selected_hit exact literal_chunks hit =
     (let exact_chunk =
            (case exact of
               Some m \<Rightarrow>
                 if em_path m = rh_path hit
                 then map_option (\<lambda>c. \<lparr> sch_ordinal = lc_ordinal c, sch_text = lc_text c \<rparr>)
                        (find (\<lambda>c. lc_path c = em_path m \<and> lc_ordinal c = em_ordinal m) literal_chunks)
                 else None
             | None \<Rightarrow> None);
          chunk = (case exact_chunk of Some c \<Rightarrow> c
                   | None \<Rightarrow> (case rh_lexical_chunk hit of Some c \<Rightarrow> c | None \<Rightarrow> rh_dense_chunk hit))
      in \<lparr> sh_name = rh_name hit, sh_path = rh_path hit, sh_chunk = chunk, sh_score = rh_score hit,
           sh_exact = False, sh_explanation = rh_explanation hit, sh_labels = rh_labels hit \<rparr>)"

definition hit_cmp :: "ranked_hit \<Rightarrow> ranked_hit \<Rightarrow> ordering" where
  "hit_cmp left right =
     then_with (cmp (rh_final_rank left) (rh_final_rank right))
       (then_with (cmp (rh_path left) (rh_path right))
         (cmp (sch_ordinal (rh_dense_chunk left)) (sch_ordinal (rh_dense_chunk right))))"

definition rescue_shown :: "nat \<Rightarrow> nat option \<Rightarrow> selected_hit_rec list \<Rightarrow> selected_hit_rec list" where
  "rescue_shown limit exact_position selected =
     (let shown = take limit selected
      in if 0 < limit
         then (case exact_position of
                 None \<Rightarrow> shown
               | Some i \<Rightarrow>
                   let hit = (selected ! i)\<lparr> sh_exact := True \<rparr>
                   in (case position (\<lambda>h. sh_path h = sh_path hit) shown of
                         Some j \<Rightarrow> shown[j := (shown ! j)\<lparr> sh_exact := True \<rparr>]
                       | None \<Rightarrow>
                           if length shown = limit then butlast shown @ [hit] else shown @ [hit]))
         else shown)"

definition collapse_hits :: "ranked_hit list \<Rightarrow> ranked_hit list" where
  "collapse_hits ranked = retain_first rh_path [] (sort_by hit_cmp ranked)"

definition select ::
  "ustr \<Rightarrow> normalized_score option \<Rightarrow> ranked_hit list \<Rightarrow> literal_chunk list \<Rightarrow> ustr option
     \<Rightarrow> selection_config \<Rightarrow> (selection_error, selection_outcome) result" where
  "select query baseline ranked literal_chunks lexical_leader config =
     res_bind (try_map validate_hit ranked) (\<lambda>_.
       if baseline = None \<and> ranked \<noteq> [] then Inl MissingBaselineForCandidates
       else
         let exact = exact_identifier_match query lexical_leader literal_chunks;
             selected = map (selected_hit exact literal_chunks) (collapse_hits ranked);
             exact_position = (case exact of None \<Rightarrow> None
                | Some m \<Rightarrow> position (\<lambda>h. sh_path h = em_path m) selected);
             shown = rescue_shown (cfg_limit config) exact_position selected;
             applied = (cfg_gate_mode config = Apply);
             (gated, gate) = (case baseline of
                Some b \<Rightarrow> (let (g, v) = apply_gate shown (score_get b) config in (g, Some v))
              | None \<Rightarrow> ([], None));
             hits = (if applied then gated else shown);
             code = (if hits \<noteq> [] then ExitOk else if baseline = None then ExitEmpty else ExitUnsure)
         in Inr \<lparr> so_query = query, so_hits = hits, so_applied = applied, so_gate = gate, so_exit_code = code \<rparr>)"

subsection \<open>Specification\<close>

definition identifier_runs :: "u8 list \<Rightarrow> u8 list list" where
  "identifier_runs bytes = filter (\<lambda>w. w \<noteq> []) (split_by (\<lambda>b. \<not> is_identifier_byte b) bytes)"

definition config_ok :: "selection_config \<Rightarrow> bool" where
  "config_ok config = (is_finite (cfg_max_gap config) \<and> 0 \<le> f64_val (cfg_max_gap config))"

text \<open>The single element of a list.\<close>

definition only :: "'a list \<Rightarrow> 'a option" where
  "only xs = (case xs of [x] \<Rightarrow> Some x | _ \<Rightarrow> None)"

text \<open>The token under construction, and the token chosen from a final loop state.\<close>

definition run_of :: "u8 list \<Rightarrow> nat option \<Rightarrow> u8 list" where
  "run_of seen st = (case st of None \<Rightarrow> [] | Some s \<Rightarrow> drop s seen)"

definition finish_tokens :: "u8 list \<Rightarrow> (u8 list list \<times> nat option) option \<Rightarrow> u8 list option" where
  "finish_tokens query r =
     (case r of None \<Rightarrow> None
      | Some (tokens, start) \<Rightarrow> only (case start of Some s \<Rightarrow> tokens @ [drop s query] | None \<Rightarrow> tokens))"

text \<open>Which hits the gate keeps.\<close>

definition gate_keeps :: "selected_hit_rec list \<Rightarrow> f64 \<Rightarrow> selection_config \<Rightarrow> selected_hit_rec \<Rightarrow> bool" where
  "gate_keeps hits baseline config h =
     (sh_exact h \<or> (\<not> f64_lt baseline (cfg_min_score config)
                    \<and> gap_passes (the (maximum_score hits)) (cfg_max_gap config) h))"

section \<open>Lemmas\<close>

subsection \<open>Identifier tokens\<close>

lemma only_simps [simp]: "only [] = None" "only [x] = Some x" "only (x # y # zs) = None"
  by (simp_all add: only_def)

lemma only_long: "1 < length xs \<Longrightarrow> only xs = None"
  by (cases xs; cases "tl xs") (auto simp: only_def)

lemma single_token_finish:
  "single_ascii_identifier_token q = finish_tokens (as_bytes q) (token_loop (as_bytes q) 0 None [] (as_bytes q))"
  by (simp add: single_ascii_identifier_token_def finish_tokens_def only_def Let_def split: option.splits)

lemma identifier_runs_step:
  "\<forall>b \<in> set w. is_identifier_byte b \<Longrightarrow> \<not> is_identifier_byte b \<Longrightarrow>
     identifier_runs (w @ b # rest) = (if w = [] then [] else [w]) @ identifier_runs rest"
  by (simp add: identifier_runs_def split_by_all)

lemma identifier_runs_end:
  "\<forall>b \<in> set w. is_identifier_byte b \<Longrightarrow> identifier_runs w = (if w = [] then [] else [w])"
  by (simp add: identifier_runs_def split_by_none)

lemma token_loop_runs:
  assumes "q = seen @ rest" "length tokens \<le> 1" "\<forall>s. st = Some s \<longrightarrow> s < length seen"
    "\<forall>b \<in> set (run_of seen st). is_identifier_byte b"
  shows "finish_tokens q (token_loop q (length seen) st tokens rest)
    = only (tokens @ identifier_runs (run_of seen st @ rest))"
  using assms
proof (induction rest arbitrary: seen st tokens)
  case Nil
  then show ?case
    using identifier_runs_end [OF Nil(4)]
    by (cases st) (auto simp: finish_tokens_def run_of_def)
next
  case (Cons b rest)
  show ?case
  proof (cases "is_identifier_byte b")
    case True
    let ?st = "Some (case st of Some s \<Rightarrow> s | None \<Rightarrow> length seen)"
    have run: "run_of (seen @ [b]) ?st = run_of seen st @ [b]"
      using Cons.prems(3) by (auto simp: run_of_def split: option.splits)
    have "finish_tokens q (token_loop q (length (seen @ [b])) ?st tokens rest)
        = only (tokens @ identifier_runs (run_of (seen @ [b]) ?st @ rest))"
      using Cons.prems True run by (intro Cons.IH) (auto split: option.splits)
    with True run show ?thesis by simp
  next
    case False
    show ?thesis
    proof (cases st)
      case None
      have "finish_tokens q (token_loop q (length (seen @ [b])) None tokens rest)
          = only (tokens @ identifier_runs (run_of (seen @ [b]) None @ rest))"
        using Cons.prems by (intro Cons.IH) (auto simp: run_of_def)
      with False None identifier_runs_step [of "[]" b rest] show ?thesis by (simp add: run_of_def)
    next
      case (Some s)
      let ?t = "tokens @ [run_of seen st]"
      have s: "s < length seen" using Cons.prems(3) Some by simp
      have w: "take (length seen - s) (drop s q) = run_of seen st" "run_of seen st \<noteq> []"
        using s Cons.prems(1) Some by (auto simp: run_of_def)
      have runs: "identifier_runs (run_of seen st @ b # rest) = run_of seen st # identifier_runs rest"
        using identifier_runs_step [OF Cons.prems(4) False] w(2) by simp
      show ?thesis
      proof (cases "1 < length ?t")
        case True
        then show ?thesis using False Some w runs by (simp add: finish_tokens_def only_long)
      next
        case F: False
        have "finish_tokens q (token_loop q (length (seen @ [b])) None ?t rest)
            = only (?t @ identifier_runs (run_of (seen @ [b]) None @ rest))"
          using Cons.prems F by (intro Cons.IH) (auto simp: run_of_def)
        with False Some w runs F show ?thesis by (simp add: run_of_def)
      qed
    qed
  qed
qed

lemma single_token_spec: "single_ascii_identifier_token q = only (identifier_runs (as_bytes q))"
  using token_loop_runs [of "as_bytes q" "[]" "as_bytes q" "[]" None]
  by (simp add: single_token_finish run_of_def)

subsection \<open>The gate\<close>

lemma floor_fold:
  "foldl floor_step g hits =
     g\<lparr> gl_kept := gl_kept g @ filter sh_exact hits,
        gl_dropped := gl_dropped g @ map gate_hit_of (filter (\<lambda>h. \<not> sh_exact h) hits),
        gl_rescued := gl_rescued g @ map gate_hit_of (filter sh_exact hits) \<rparr>"
  by (induction hits arbitrary: g) (auto simp: floor_step_def)

lemma gap_fold:
  "foldl (gap_step a m) g hits =
     g\<lparr> gl_kept := gl_kept g @ filter (\<lambda>h. gap_passes a m h \<or> sh_exact h) hits,
        gl_dropped := gl_dropped g @ map gate_hit_of (filter (\<lambda>h. \<not> (gap_passes a m h \<or> sh_exact h)) hits),
        gl_rescued := gl_rescued g @ map gate_hit_of (filter (\<lambda>h. \<not> gap_passes a m h \<and> sh_exact h) hits) \<rparr>"
  by (induction hits arbitrary: g) (auto simp: gap_step_def Let_def)

lemma foldl_max:
  fixes x :: f64
  defines "m \<equiv> \<lambda>a b. if total_cmp a b = Greater then a else b"
  shows "foldl m x xs \<in> set (x # xs) \<and> (\<forall>y \<in> set (x # xs). total_cmp y (foldl m x xs) \<noteq> Greater)"
proof (induction xs arbitrary: x)
  case Nil
  then show ?case by (simp add: total.cmp_refl)
next
  case (Cons z zs)
  have le: "total_cmp x (m x z) \<noteq> Greater" "total_cmp z (m x z) \<noteq> Greater"
    by (auto simp: m_def total.cmp_refl total.le_total)
  have "total_cmp (m x z) (foldl m (m x z) zs) \<noteq> Greater" using Cons [of "m x z"] by simp
  then have "total_cmp x (foldl m (m x z) zs) \<noteq> Greater" "total_cmp z (foldl m (m x z) zs) \<noteq> Greater"
    using total.cmp_trans le by blast+
  moreover have "m x z \<in> {x, z}" by (auto simp: m_def)
  ultimately show ?case using Cons [of "m x z"] by auto
qed

lemma maximum_score_Some:
  assumes "hits \<noteq> []"
  obtains h where "h \<in> set hits" "maximum_score hits = Some (score_get (sh_score h))"
    "\<And>h'. h' \<in> set hits \<Longrightarrow> total_cmp (score_get (sh_score h')) (score_get (sh_score h)) \<noteq> Greater"
proof -
  obtain x xs where x: "map (\<lambda>h. score_get (sh_score h)) hits = x # xs" using assms by (cases hits) auto
  let ?m = "foldl (\<lambda>a b. if total_cmp a b = Greater then a else b) x xs"
  have m: "maximum_score hits = Some ?m" by (simp add: maximum_score_def x)
  have "?m \<in> set (map (\<lambda>h. score_get (sh_score h)) hits)" using foldl_max [of x xs] unfolding x by blast
  moreover have "\<forall>y \<in> set (map (\<lambda>h. score_get (sh_score h)) hits). total_cmp y ?m \<noteq> Greater"
    using foldl_max [of x xs] unfolding x by blast
  ultimately show thesis using m that by (auto simp: image_iff)
qed

lemma apply_gate_kept: "fst (apply_gate hits baseline config) = filter (gate_keeps hits baseline config) hits"
  by (auto simp: apply_gate_def Let_def floor_fold gap_fold no_lists_def gate_keeps_def intro!: filter_cong)

lemma apply_gate_dropped:
  "gv_floor_dropped (snd (apply_gate hits baseline config)) @ gv_gap_dropped (snd (apply_gate hits baseline config))
     = map gate_hit_of (filter (\<lambda>h. \<not> gate_keeps hits baseline config h) hits)"
  by (auto simp: apply_gate_def Let_def floor_fold gap_fold no_lists_def gate_keeps_def verdict_def conj_commute intro!: filter_cong)

lemma gate_keeps_best:
  assumes "hits \<noteq> []" "\<not> f64_lt baseline (cfg_min_score config)" "config_ok config"
    and "\<forall>h \<in> set hits. is_finite (score_get (sh_score h)) \<and> f64_wf (score_get (sh_score h))"
  shows "\<exists>h \<in> set hits. gate_keeps hits baseline config h
     \<and> (\<forall>h' \<in> set hits. f64_val (score_get (sh_score h')) \<le> f64_val (score_get (sh_score h)))"
proof -
  obtain h where h: "h \<in> set hits" "maximum_score hits = Some (score_get (sh_score h))"
    "\<And>h'. h' \<in> set hits \<Longrightarrow> total_cmp (score_get (sh_score h')) (score_get (sh_score h)) \<noteq> Greater"
    using maximum_score_Some [OF assms(1)] by blast
  have "f64_le (f64_sub (score_get (sh_score h)) (cfg_max_gap config)) (score_get (sh_score h))"
    using assms(3,4) h(1) by (intro f64_sub_le) (auto simp: config_ok_def)
  then have "gate_keeps hits baseline config h" using assms(2) h(2) by (simp add: gate_keeps_def gap_passes_def)
  moreover have "f64_val (score_get (sh_score h')) \<le> f64_val (score_get (sh_score h))" if "h' \<in> set hits" for h'
    using total_cmp_finite_le [OF _ _ _ _ h(3) [OF that]] assms(4) that h(1) by blast
  ultimately show ?thesis using h(1) by blast
qed

subsection \<open>Rescue and collapse\<close>

interpretation hit: rust_cmp hit_cmp
  unfolding hit_cmp_def by (intro rust_cmp_then rust_cmp_key [OF rust_cmp_linorder])

interpretation literal: rust_cmp literal_cmp
  unfolding literal_cmp_def by (intro rust_cmp_then rust_cmp_key [OF rust_cmp_linorder])

lemma collapse_hits_distinct: "distinct (map rh_path (collapse_hits ranked))"
  unfolding collapse_hits_def by (rule retain_first_distinct)

lemma collapse_hits_paths: "rh_path ` set (collapse_hits ranked) = rh_path ` set ranked"
  using retain_first_keys [of rh_path "[]" "sort_by hit_cmp ranked"] by (simp add: collapse_hits_def)

lemma selected_hit_simps [simp]:
  "sh_path (selected_hit e l h) = rh_path h" "sh_score (selected_hit e l h) = rh_score h"
  "\<not> sh_exact (selected_hit e l h)"
  by (simp_all add: selected_hit_def Let_def)

text \<open>What the rescue guarantees of the hits that are shown.\<close>

lemma rescue_shown_ok:
  fixes limit :: nat
  assumes "distinct (map sh_path selected)" and "\<forall>i. pos = Some i \<longrightarrow> i < length selected"
  defines "shown \<equiv> rescue_shown limit pos selected"
  shows "length shown \<le> limit" "distinct (map sh_path shown)"
    and "set (map sh_path shown) \<subseteq> set (map sh_path selected)"
    and "pos = None \<Longrightarrow> shown = take limit selected"
    and "pos = Some i \<Longrightarrow> 0 < limit \<Longrightarrow> (selected ! i)\<lparr> sh_exact := True \<rparr> \<in> set shown"
proof -
  let ?t = "take limit selected"
  have dt: "distinct (map sh_path ?t)" using assms(1) by (simp add: take_map [symmetric])
  show "pos = None \<Longrightarrow> shown = take limit selected" by (simp add: shown_def rescue_shown_def Let_def)
  have plain: "length ?t \<le> limit" "set (map sh_path ?t) \<subseteq> set (map sh_path selected)"
    by (auto dest: in_set_takeD)
  have main: "length shown \<le> limit \<and> distinct (map sh_path shown)
      \<and> set (map sh_path shown) \<subseteq> set (map sh_path selected)
      \<and> (selected ! i)\<lparr> sh_exact := True \<rparr> \<in> set shown"
    if i: "pos = Some i" and l: "0 < limit" for i
  proof -
    let ?hit = "(selected ! i)\<lparr> sh_exact := True \<rparr>"
    have il: "i < length selected" using assms(2) i by simp
    show ?thesis
    proof (cases "position (\<lambda>h. sh_path h = sh_path ?hit) ?t")
      case (Some j)
      then have j: "j < length ?t" "sh_path (?t ! j) = sh_path (selected ! i)" using position_Some by fastforce+
      then have "map sh_path selected ! j = map sh_path selected ! i" using il by simp
      then have "j = i"
        using assms(1) il j(1) nth_eq_iff_index_eq [of "map sh_path selected" j i] by simp
      then have sh: "shown = ?t[i := ?hit]" using Some i l j(1) by (simp add: shown_def rescue_shown_def Let_def)
      have "map sh_path shown = map sh_path ?t"
        using j \<open>j = i\<close> il by (intro nth_equalityI) (auto simp: sh nth_list_update)
      with sh plain dt j(1) \<open>j = i\<close> show ?thesis by (simp add: set_update_memI)
    next
      case None
      have "limit \<le> i"
      proof (rule ccontr)
        assume "\<not> limit \<le> i"
        then have "selected ! i \<in> set ?t" using il by (metis in_set_conv_nth length_take min_less_iff_conj not_le nth_take)
        with None show False by (auto simp: position_None_iff)
      qed
      then have sh: "shown = butlast ?t @ [?hit]" using None i l il by (simp add: shown_def rescue_shown_def Let_def)
      have "sh_path ?hit \<notin> set (map sh_path ?t)" using None by (auto simp: position_None_iff)
      then have "sh_path ?hit \<notin> set (map sh_path (butlast ?t))" by (auto dest: in_set_butlastD)
      moreover have "distinct (map sh_path (butlast ?t))" using dt by (simp add: map_butlast distinct_butlast)
      moreover have "set (map sh_path (butlast ?t)) \<subseteq> set (map sh_path selected)"
        using plain(2) by (auto dest: in_set_butlastD)
      ultimately show ?thesis using sh il l by auto
    qed
  qed
  show "pos = Some i \<Longrightarrow> 0 < limit \<Longrightarrow> (selected ! i)\<lparr> sh_exact := True \<rparr> \<in> set shown" using main by blast
  have "limit = 0 \<or> pos = None \<Longrightarrow> shown = ?t" by (auto simp: shown_def rescue_shown_def Let_def)
  with main plain dt show "length shown \<le> limit" "distinct (map sh_path shown)"
    "set (map sh_path shown) \<subseteq> set (map sh_path selected)"
    by (metis bot_nat_0.not_eq_extremum option.exhaust)+
qed

lemma rescue_shown_scores:
  assumes "\<forall>i. pos = Some i \<longrightarrow> i < length selected" "h \<in> set (rescue_shown limit pos selected)"
  shows "sh_score h \<in> sh_score ` set selected"
proof -
  have t: "x \<in> set (take limit selected) \<Longrightarrow> sh_score x \<in> sh_score ` set selected" for x
    by (auto dest: in_set_takeD)
  have b: "x \<in> set (butlast (take limit selected)) \<Longrightarrow> sh_score x \<in> sh_score ` set selected" for x
    using t in_set_butlastD by fast
  show ?thesis
  proof (cases pos)
    case None
    then show ?thesis using assms(2) t by (auto simp: rescue_shown_def Let_def split: if_splits)
  next
    case (Some i)
    let ?hit = "(selected ! i)\<lparr> sh_exact := True \<rparr>"
    have i: "sh_score ?hit \<in> sh_score ` set selected" using assms(1) Some by simp
    show ?thesis
    proof (cases "position (\<lambda>h. sh_path h = sh_path ?hit) (take limit selected)")
      case None
      then show ?thesis using assms(2) Some t b i by (auto simp: rescue_shown_def Let_def split: if_splits)
    next
      case S: (Some j)
      then have "j < length (take limit selected)" using position_Some by blast
      then have "sh_score ((take limit selected ! j)\<lparr> sh_exact := True \<rparr>) \<in> sh_score ` set selected"
        using t [of "take limit selected ! j"] nth_mem by fastforce
      with S show ?thesis
        using assms(2) Some t by (auto simp: rescue_shown_def Let_def split: if_splits dest!: set_update_subset_insert [THEN subsetD])
    qed
  qed
qed

lemma select_Inr:
  assumes "select query baseline ranked chunks leader config = Inr out"
  defines "m \<equiv> exact_identifier_match query leader chunks"
  defines "selected \<equiv> map (selected_hit m chunks) (collapse_hits ranked)"
  defines "pos \<equiv> (case m of None \<Rightarrow> None | Some e \<Rightarrow> position (\<lambda>h. sh_path h = em_path e) selected)"
  defines "shown \<equiv> rescue_shown (cfg_limit config) pos selected"
  shows "\<forall>h \<in> set ranked. validate_hit h = Inr ()"
    and "baseline = None \<Longrightarrow> ranked = []"
    and "so_hits out = (if cfg_gate_mode config = Apply
           then (case baseline of None \<Rightarrow> [] | Some b \<Rightarrow> fst (apply_gate shown (score_get b) config)) else shown)"
    and "so_exit_code out = (if so_hits out \<noteq> [] then ExitOk else if baseline = None then ExitEmpty else ExitUnsure)"
    and "so_gate out = map_option (\<lambda>b. snd (apply_gate shown (score_get b) config)) baseline"
proof -
  obtain us where us: "try_map validate_hit ranked = Inr us" and nb: "\<not> (baseline = None \<and> ranked \<noteq> [])"
    using assms(1) by (auto simp: select_def res_bind_Inr_iff split: if_splits)
  show "\<forall>h \<in> set ranked. validate_hit h = Inr ()" using try_map_Inr_in [OF us] by (metis (full_types) old.unit.exhaust)
  show "baseline = None \<Longrightarrow> ranked = []" using nb by blast
  show "so_hits out = (if cfg_gate_mode config = Apply
           then (case baseline of None \<Rightarrow> [] | Some b \<Rightarrow> fst (apply_gate shown (score_get b) config)) else shown)"
    "so_exit_code out = (if so_hits out \<noteq> [] then ExitOk else if baseline = None then ExitEmpty else ExitUnsure)"
    "so_gate out = map_option (\<lambda>b. snd (apply_gate shown (score_get b) config)) baseline"
    using assms(1) us nb unfolding select_def Let_def m_def selected_def pos_def shown_def
    by (auto split: option.splits prod.splits)
qed

lemma exact_match_iff:
  "exact_identifier_match q leader chunks = Some m \<longleftrightarrow>
     (\<exists>token. single_ascii_identifier_token q = Some token \<and> rescue_token token
        \<and> leader = Some (em_path m)
        \<and> (\<exists>c \<in> set chunks. contains_identifier (lc_text c) token \<and> lc_path c = em_path m \<and> lc_ordinal c = em_ordinal m)
        \<and> (\<forall>c \<in> set chunks. contains_identifier (lc_text c) token
             \<longrightarrow> lc_path c = em_path m \<and> em_ordinal m \<le> lc_ordinal c))"
proof (cases "single_ascii_identifier_token q")
  case (Some token)
  let ?f = "filter (\<lambda>c. contains_identifier (lc_text c) token) chunks"
  let ?s = "sort_by literal_cmp ?f"
  have mem: "c \<in> set ?s \<longleftrightarrow> c \<in> set chunks \<and> contains_identifier (lc_text c) token" for c by auto
  show ?thesis
  proof (cases ?s)
    case Nil
    then have "exact_identifier_match q leader chunks = None"
      using Some unfolding exact_identifier_match_def by (simp only: option.case list.case if_cancel)
    moreover have "\<not> (\<exists>c \<in> set chunks. contains_identifier (lc_text c) token)" using Nil mem by (metis list.set(1) empty_iff)
    ultimately show ?thesis using Some by auto
  next
    case (Cons x xs)
    have "sorted_wrt (\<lambda>a b. literal_cmp a b \<noteq> Greater) (x # xs)"
      using literal.sort_by_sorted [of ?f] Cons by simp
    then have low: "c \<in> set ?s \<Longrightarrow> lc_path c = lc_path x \<Longrightarrow> lc_ordinal x \<le> lc_ordinal c" for c
      using Cons by (auto simp: literal_cmp_def then_with_Greater_iff not_less)
    have set: "set ?s = set (x # xs)" using Cons by simp
    have r: "exact_identifier_match q leader chunks = Some m \<longleftrightarrow> rescue_token token
        \<and> (\<forall>c \<in> set ?s. lc_path c = lc_path x) \<and> leader = Some (lc_path x)
        \<and> m = \<lparr> em_path = lc_path x, em_ordinal = lc_ordinal x \<rparr>"
      unfolding set using Some Cons by (auto simp: exact_identifier_match_def list_ex_iff)
    have x: "x \<in> set ?s" using Cons by simp
    have xc: "x \<in> set chunks" "contains_identifier (lc_text x) token" using x mem by blast+
    show ?thesis
    proof
      assume "exact_identifier_match q leader chunks = Some m"
      then have m: "rescue_token token" "\<forall>c \<in> set ?s. lc_path c = lc_path x" "leader = Some (lc_path x)"
        "em_path m = lc_path x" "em_ordinal m = lc_ordinal x" unfolding r by auto
      have "\<forall>c \<in> set chunks. contains_identifier (lc_text c) token \<longrightarrow> lc_path c = em_path m \<and> em_ordinal m \<le> lc_ordinal c"
        unfolding m(4,5) using mem m(2) low by blast
      with Some m xc show "\<exists>token. single_ascii_identifier_token q = Some token \<and> rescue_token token
        \<and> leader = Some (em_path m)
        \<and> (\<exists>c \<in> set chunks. contains_identifier (lc_text c) token \<and> lc_path c = em_path m \<and> lc_ordinal c = em_ordinal m)
        \<and> (\<forall>c \<in> set chunks. contains_identifier (lc_text c) token
             \<longrightarrow> lc_path c = em_path m \<and> em_ordinal m \<le> lc_ordinal c)" by metis
    next
      assume "\<exists>token. single_ascii_identifier_token q = Some token \<and> rescue_token token
        \<and> leader = Some (em_path m)
        \<and> (\<exists>c \<in> set chunks. contains_identifier (lc_text c) token \<and> lc_path c = em_path m \<and> lc_ordinal c = em_ordinal m)
        \<and> (\<forall>c \<in> set chunks. contains_identifier (lc_text c) token
             \<longrightarrow> lc_path c = em_path m \<and> em_ordinal m \<le> lc_ordinal c)"
      then obtain c where c: "rescue_token token" "leader = Some (em_path m)" "c \<in> set ?s"
        "lc_path c = em_path m" "lc_ordinal c = em_ordinal m"
        "\<forall>c \<in> set ?s. lc_path c = em_path m \<and> em_ordinal m \<le> lc_ordinal c"
        using Some mem by auto
      have px: "lc_path x = em_path m" "em_ordinal m \<le> lc_ordinal x" using c(6) x by blast+
      have "lc_ordinal x \<le> em_ordinal m" using low [OF c(3)] c(4,5) px(1) by simp
      with c px show "exact_identifier_match q leader chunks = Some m"
        unfolding r by (auto intro: exact_match.equality)
    qed
  qed
qed (simp add: exact_identifier_match_def)

lemma select_sound:
  assumes "select query baseline ranked chunks leader config = Inr out"
  shows "length (so_hits out) \<le> cfg_limit config
    \<and> distinct (map sh_path (so_hits out))
    \<and> set (map sh_path (so_hits out)) \<subseteq> set (map rh_path ranked)
    \<and> (\<forall>m. exact_identifier_match query leader chunks = Some m \<and> 0 < cfg_limit config
         \<and> em_path m \<in> set (map rh_path ranked)
         \<longrightarrow> (\<exists>h \<in> set (so_hits out). sh_path h = em_path m \<and> sh_exact h))
    \<and> (so_exit_code out = ExitOk \<longleftrightarrow> so_hits out \<noteq> [])
    \<and> (so_exit_code out = ExitEmpty \<longleftrightarrow> baseline = None)"
proof -
  define m where "m = exact_identifier_match query leader chunks"
  define selected where "selected = map (selected_hit m chunks) (collapse_hits ranked)"
  define pos where "pos = (case m of None \<Rightarrow> None | Some e \<Rightarrow> position (\<lambda>h. sh_path h = em_path e) selected)"
  define shown where "shown = rescue_shown (cfg_limit config) pos selected"
  note o = select_Inr [OF assms, folded m_def, folded selected_def, folded pos_def, folded shown_def]
  have paths: "map sh_path selected = map rh_path (collapse_hits ranked)" by (simp add: selected_def)
  have dist: "distinct (map sh_path selected)" unfolding paths by (rule collapse_hits_distinct)
  have bound: "\<forall>i. pos = Some i \<longrightarrow> i < length selected"
    using position_Some by (auto simp: pos_def split: option.splits)
  note r = rescue_shown_ok [OF dist bound, where limit = "cfg_limit config", folded shown_def]
  have sub: "set (map sh_path selected) = set (map rh_path ranked)" using collapse_hits_paths [of ranked] paths by simp
  have empty: "baseline = None \<Longrightarrow> shown = []"
    using o(2) r(3) sub by (metis map_is_Nil_conv set_empty subset_empty list.set(1) list.simps(8))
  have hits: "\<exists>P. so_hits out = filter P shown \<and> (\<forall>h. sh_exact h \<longrightarrow> P h)"
  proof (cases "cfg_gate_mode config = Apply")
    case True
    show ?thesis
    proof (cases baseline)
      case None
      with True o(3) empty show ?thesis by (intro exI [of _ "\<lambda>_. True"]) simp
    next
      case (Some b)
      with True o(3) show ?thesis
        by (intro exI [of _ "gate_keeps shown (score_get b) config"]) (simp add: apply_gate_kept gate_keeps_def)
    qed
  qed (use o(3) in \<open>auto intro!: exI [of _ "\<lambda>_. True"]\<close>)
  then obtain P where P: "so_hits out = filter P shown" "\<forall>h. sh_exact h \<longrightarrow> P h" by blast
  have "length (so_hits out) \<le> cfg_limit config" unfolding P(1) using r(1) length_filter_le [of P shown] by (rule order.trans [rotated])
  moreover have "distinct (map sh_path (so_hits out))" unfolding P(1) by (rule distinct_map_filter [OF r(2)])
  moreover have "set (map sh_path (so_hits out)) \<subseteq> set (map rh_path ranked)" using r(3) sub P(1) by auto
  moreover have "\<exists>h \<in> set (so_hits out). sh_path h = em_path e \<and> sh_exact h"
    if e: "m = Some e" "0 < cfg_limit config" "em_path e \<in> set (map rh_path ranked)" for e
  proof -
    have "em_path e \<in> set (map sh_path selected)" using e(3) sub by simp
    then obtain i where i: "pos = Some i"
      using e(1) by (cases pos) (auto simp: pos_def position_None_iff)
    then have "sh_path (selected ! i) = em_path e" using e(1) position_Some by (auto simp: pos_def)
    with r(5) [OF i e(2)] P show ?thesis by (intro bexI [of _ "(selected ! i)\<lparr> sh_exact := True \<rparr>"]) auto
  qed
  moreover have "so_exit_code out = ExitEmpty \<longleftrightarrow> baseline = None" using o(4) empty P(1) by (auto split: if_splits)
  ultimately show ?thesis using o(4) unfolding m_def by auto
qed

section \<open>Properties\<close>

text \<open>C10: the gate splits the shown hits: those it keeps stay in order, and every other hit is named
  once in the verdict's drop lists. An exact hit is never dropped. When the corpus baseline reaches
  the floor, the best-scored hit is always kept, so the gate never empties a non-empty result there;
  below the floor only exact hits survive.\<close>

theorem apply_gate_partition:
  assumes "apply_gate hits baseline config = (kept, v)"
  shows "kept = filter (gate_keeps hits baseline config) hits
    \<and> gv_floor_dropped v @ gv_gap_dropped v = map gate_hit_of (filter (\<lambda>h. \<not> gate_keeps hits baseline config h) hits)
    \<and> (\<forall>h \<in> set hits. sh_exact h \<longrightarrow> h \<in> set kept)
    \<and> (gate_reason_of v = NoHits \<longleftrightarrow> hits = [])
    \<and> (gate_reason_of v = Floor \<longleftrightarrow> hits \<noteq> [] \<and> f64_lt baseline (cfg_min_score config))
    \<and> (f64_lt baseline (cfg_min_score config) \<longrightarrow> kept = filter sh_exact hits)
    \<and> (hits \<noteq> [] \<and> \<not> f64_lt baseline (cfg_min_score config) \<and> config_ok config
        \<and> (\<forall>h \<in> set hits. is_finite (score_get (sh_score h)) \<and> f64_wf (score_get (sh_score h)))
       \<longrightarrow> (\<exists>h \<in> set kept. \<forall>h' \<in> set hits. f64_val (score_get (sh_score h')) \<le> f64_val (score_get (sh_score h))))"
proof -
  have k: "kept = filter (gate_keeps hits baseline config) hits" using apply_gate_kept [of hits baseline config] assms by simp
  have d: "gv_floor_dropped v @ gv_gap_dropped v = map gate_hit_of (filter (\<lambda>h. \<not> gate_keeps hits baseline config h) hits)"
    using apply_gate_dropped [of hits baseline config] assms by simp
  have "gate_reason_of v = NoHits \<longleftrightarrow> hits = []"
    "gate_reason_of v = Floor \<longleftrightarrow> hits \<noteq> [] \<and> f64_lt baseline (cfg_min_score config)"
    using assms by (auto simp: apply_gate_def Let_def verdict_def gate_reason_of_def split: if_splits)
  then show ?thesis using k d gate_keeps_best [of hits baseline config]
    by (auto simp: gate_keeps_def intro!: filter_cong)
qed

theorem apply_gate_partition_witness:
  "\<exists>kept v. apply_gate [\<lparr> sh_name = [], sh_path = lit ''p'', sh_chunk = \<lparr> sch_ordinal = 0, sch_text = [] \<rparr>,
       sh_score = NormalizedScore f64_one, sh_exact = True,
       sh_explanation = \<lparr> he_dense_rank = None, he_bm25_rank = None, he_rrf_score = None, he_contributions = [] \<rparr>,
       sh_labels = \<lparr> pl_corpus = None, pl_status = None, pl_project = None \<rparr> \<rparr>] f64_neg_one selection_config_default = (kept, v)
     \<and> length kept = 1 \<and> gate_reason_of v \<noteq> NoHits"
proof -
  let ?h = "\<lparr> sh_name = [], sh_path = lit ''p'', sh_chunk = \<lparr> sch_ordinal = 0, sch_text = [] \<rparr>,
       sh_score = NormalizedScore f64_one, sh_exact = True,
       sh_explanation = \<lparr> he_dense_rank = None, he_bm25_rank = None, he_rrf_score = None, he_contributions = [] \<rparr>,
       sh_labels = \<lparr> pl_corpus = None, pl_status = None, pl_project = None \<rparr> \<rparr>"
  obtain kept v where g: "apply_gate [?h] f64_neg_one selection_config_default = (kept, v)" by force
  from apply_gate_partition [OF this] g show ?thesis by (auto simp: gate_keeps_def)
qed

text \<open>C11: a selection shows at most \<open>limit\<close> pages, each once and each from the ranked input. A unique
  identifier match whose page is ranked is always shown, marked exact, even past the limit and
  through the gate. The exit code is Ok exactly when hits remain, Empty when the corpus had no
  baseline, and Unsure when the gate or the limit removed everything.\<close>

theorem select_shows_exact:
  assumes "select query baseline ranked chunks leader config = Inr out"
  shows "length (so_hits out) \<le> cfg_limit config
    \<and> distinct (map sh_path (so_hits out))
    \<and> set (map sh_path (so_hits out)) \<subseteq> set (map rh_path ranked)
    \<and> (\<forall>m. exact_identifier_match query leader chunks = Some m \<and> 0 < cfg_limit config
         \<and> em_path m \<in> set (map rh_path ranked)
         \<longrightarrow> (\<exists>h \<in> set (so_hits out). sh_path h = em_path m \<and> sh_exact h))
    \<and> (so_exit_code out = ExitOk \<longleftrightarrow> so_hits out \<noteq> [])
    \<and> (so_exit_code out = ExitEmpty \<longleftrightarrow> baseline = None)"
  by (rule select_sound [OF assms])

theorem select_shows_exact_witness:
  "\<exists>out. select (lit ''fooBar'') (Some (NormalizedScore f64_one))
      [\<lparr> rh_name = [], rh_path = lit ''a'', rh_dense_chunk = \<lparr> sch_ordinal = 0, sch_text = [] \<rparr>,
         rh_lexical_chunk = None, rh_score = NormalizedScore f64_one, rh_final_rank = 1,
         rh_explanation = \<lparr> he_dense_rank = None, he_bm25_rank = None, he_rrf_score = None, he_contributions = [] \<rparr>,
         rh_labels = \<lparr> pl_corpus = None, pl_status = None, pl_project = None \<rparr> \<rparr>,
       \<lparr> rh_name = [], rh_path = lit ''b'', rh_dense_chunk = \<lparr> sch_ordinal = 0, sch_text = [] \<rparr>,
         rh_lexical_chunk = None, rh_score = NormalizedScore f64_zero, rh_final_rank = 2,
         rh_explanation = \<lparr> he_dense_rank = None, he_bm25_rank = None, he_rrf_score = None, he_contributions = [] \<rparr>,
         rh_labels = \<lparr> pl_corpus = None, pl_status = None, pl_project = None \<rparr> \<rparr>]
      [\<lparr> lc_path = lit ''b'', lc_ordinal = 2, lc_text = lit ''call fooBar()'' \<rparr>] (Some (lit ''b''))
      \<lparr> cfg_limit = 1, cfg_min_score = f64_zero, cfg_max_gap = f64_zero, cfg_gate_mode = Apply \<rparr> = Inr out
    \<and> (\<exists>h \<in> set (so_hits out). sh_path h = lit ''b'' \<and> sh_exact h) \<and> so_exit_code out = ExitOk"
proof -
  let ?x = "\<lparr> he_dense_rank = None, he_bm25_rank = None, he_rrf_score = None, he_contributions = [] \<rparr>"
  let ?l = "\<lparr> pl_corpus = None, pl_status = None, pl_project = None \<rparr>"
  let ?a = "\<lparr> rh_name = [], rh_path = lit ''a'', rh_dense_chunk = \<lparr> sch_ordinal = 0, sch_text = [] \<rparr>,
         rh_lexical_chunk = None, rh_score = NormalizedScore f64_one, rh_final_rank = 1, rh_explanation = ?x, rh_labels = ?l \<rparr>"
  let ?b = "\<lparr> rh_name = [], rh_path = lit ''b'', rh_dense_chunk = \<lparr> sch_ordinal = 0, sch_text = [] \<rparr>,
         rh_lexical_chunk = None, rh_score = NormalizedScore f64_zero, rh_final_rank = 2, rh_explanation = ?x, rh_labels = ?l \<rparr>"
  let ?cs = "[\<lparr> lc_path = lit ''b'', lc_ordinal = 2, lc_text = lit ''call fooBar()'' \<rparr>]"
  let ?cfg = "\<lparr> cfg_limit = 1, cfg_min_score = f64_zero, cfg_max_gap = f64_zero, cfg_gate_mode = Apply \<rparr>"
  let ?s = "select (lit ''fooBar'') (Some (NormalizedScore f64_one)) [?a, ?b] ?cs (Some (lit ''b'')) ?cfg"
  have "is_ok ?s" by code_simp
  then obtain out where out: "?s = Inr out" by (auto simp: is_ok_def split: sum.splits)
  have 2: "exact_identifier_match (lit ''fooBar'') (Some (lit ''b'')) ?cs = Some \<lparr> em_path = lit ''b'', em_ordinal = 2 \<rparr>"
    by code_simp
  show ?thesis using select_shows_exact [OF out] out 2 by auto
qed

text \<open>The unique-identifier rescue fires exactly for a query with one ASCII identifier run that has
  an underscore, a digit or lower camel case, when all chunks that contain it as a whole identifier
  are on the page the lexical ranking puts first; it names the lowest such chunk.\<close>

lemma exact_identifier_match_spec:
  "exact_identifier_match q leader chunks = Some m \<longleftrightarrow>
     (\<exists>token. identifier_runs (as_bytes q) = [token] \<and> rescue_token token
        \<and> leader = Some (em_path m)
        \<and> \<lparr> em_path = em_path m, em_ordinal = em_ordinal m \<rparr>
            \<in> (\<lambda>c. \<lparr> em_path = lc_path c, em_ordinal = lc_ordinal c \<rparr>) ` {c \<in> set chunks. contains_identifier (lc_text c) token}
        \<and> filter (\<lambda>c. contains_identifier (lc_text c) token \<and> \<not> (lc_path c = em_path m \<and> em_ordinal m \<le> lc_ordinal c)) chunks = [])"
proof -
  have "only xs = Some t \<longleftrightarrow> xs = [t]" for xs :: "u8 list list" and t
    by (auto simp: only_def split: list.splits)
  moreover have "(\<lparr> em_path = em_path m, em_ordinal = em_ordinal m \<rparr>
      \<in> (\<lambda>c. \<lparr> em_path = lc_path c, em_ordinal = lc_ordinal c \<rparr>) ` {c \<in> set chunks. contains_identifier (lc_text c) token})
    = (\<exists>c \<in> set chunks. contains_identifier (lc_text c) token \<and> lc_path c = em_path m \<and> lc_ordinal c = em_ordinal m)" for token
    by (auto simp: image_iff)
  moreover have "(filter (\<lambda>c. contains_identifier (lc_text c) token \<and> \<not> (lc_path c = em_path m \<and> em_ordinal m \<le> lc_ordinal c)) chunks = [])
    = (\<forall>c \<in> set chunks. contains_identifier (lc_text c) token \<longrightarrow> lc_path c = em_path m \<and> em_ordinal m \<le> lc_ordinal c)" for token
    unfolding filter_empty_conv by blast
  ultimately show ?thesis unfolding exact_match_iff single_token_spec by presburger
qed

end
