(* ===== verification/Snippet.thy ===== *)
theory Snippet
  imports Rust_Text Float64
begin

text \<open>
  Query terms, rarity weights and the display window of \<open>yams-core/src/snippet.rs\<close>.
  The Unicode tables behind \<open>char::is_alphanumeric\<close> and \<open>char::to_lowercase\<close> are the record
  \<open>unicode\<close>, and the platform's \<open>f64::ln_1p\<close> is an argument of \<open>term_weights\<close>. Byte order of
  UTF-8 strings (\<open>BTreeMap<String, _>\<close>, \<open>str::cmp\<close>) is the order of their scalar values.
\<close>

section \<open>Definitions\<close>

record unicode =
  alphanumeric :: "uchar \<Rightarrow> bool"
  lowercase :: "uchar \<Rightarrow> uchar list"

definition SNIPPET_WIDTH :: nat where "SNIPPET_WIDTH = 280"
definition SNIPPET_GAIN :: f64 where "SNIPPET_GAIN = Fin False (3/4)"

definition STOPWORDS :: "ustr list" where
  "STOPWORDS = map lit
    [''a'', ''an'', ''and'', ''are'', ''as'', ''at'', ''be'', ''but'', ''by'', ''for'', ''from'', ''has'',
     ''have'', ''how'', ''i'', ''if'', ''in'', ''into'', ''is'', ''it'', ''its'', ''of'', ''on'', ''or'',
     ''that'', ''the'', ''their'', ''then'', ''there'', ''these'', ''they'', ''this'', ''to'', ''was'',
     ''were'', ''what'', ''when'', ''where'', ''which'', ''who'', ''why'', ''will'', ''with'', ''you'',
     ''your'', ''do'', ''does'', ''did'', ''not'', ''no'', ''any'', ''all'', ''my'', ''me'', ''we'',
     ''our'', ''us'', ''can'', ''could'', ''should'', ''would'', ''about'', ''after'', ''before'',
     ''over'', ''under'', ''more'', ''most'', ''some'', ''such'', ''only'', ''own'', ''same'', ''so'',
     ''than'', ''too'', ''very'', ''just'', ''now'', ''yet'', ''still'', ''get'', ''got'', ''make'',
     ''made'', ''use'', ''used'', ''using'']"

record term_frequency =
  tf_term :: ustr
  matching_chunks :: nat

record snippet_statistics =
  total_chunks :: nat
  frequencies :: "term_frequency list"

record weighted_term =
  wt_term :: ustr
  weight :: f64

record snippet_rec =
  snippet_text :: ustr
  clipped_start :: bool
  clipped_end :: bool

datatype snippet_error =
  ZeroWidth
| InvalidGain
| InvalidTerm ustr
| InvalidWeight ustr
| FrequencyExceedsTotal ustr nat nat
| ConflictingWeight ustr

definition is_identifier :: "unicode \<Rightarrow> uchar \<Rightarrow> bool" where
  "is_identifier U c = (alphanumeric U c \<or> c = underscore)"

subsection \<open>Query terms\<close>

definition query_step :: "unicode \<Rightarrow> ustr list \<times> ustr \<Rightarrow> uchar \<Rightarrow> ustr list \<times> ustr" where
  "query_step U st c =
     (let (tokens, current) = st
      in if alphanumeric U c \<or> c = underscore
         then (tokens, current @ filter (\<lambda>f. alphanumeric U f \<or> f = underscore) (lowercase U c))
         else (if 1 < length current then tokens @ [current] else tokens, []))"

definition query_tokens :: "unicode \<Rightarrow> ustr \<Rightarrow> ustr list" where
  "query_tokens U query = fst (foldl (query_step U) ([], []) (query @ [sp]))"

definition query_terms :: "unicode \<Rightarrow> ustr \<Rightarrow> ustr list" where
  "query_terms U query =
     (let tokens = query_tokens U query;
          content = filter (\<lambda>t. t \<notin> set STOPWORDS) tokens;
          selected = (if content = [] then tokens else content)
      in retain_first (\<lambda>t. t) [] selected)"

subsection \<open>Rarity weights\<close>

definition validate_term :: "unicode \<Rightarrow> ustr \<Rightarrow> (snippet_error, unit) result" where
  "validate_term U t =
     (if length t < 2 \<or> \<not> list_all (\<lambda>c. alphanumeric U c \<or> c = underscore) t
      then Inl (InvalidTerm t) else Inr ())"

definition fold_lower :: "unicode \<Rightarrow> ustr \<Rightarrow> ustr" where
  "fold_lower U t = concat (map (lowercase U) t)"

definition term_weights ::
  "unicode \<Rightarrow> (f64 \<Rightarrow> f64) \<Rightarrow> snippet_statistics \<Rightarrow> (snippet_error, weighted_term list) result" where
  "term_weights U ln_1p statistics =
     (if total_chunks statistics = 0 then Inr []
      else
        let total = f64_of_nat (total_chunks statistics); ceiling = ln_1p total
        in try_map (\<lambda>frequency.
             res_bind (validate_term U (tf_term frequency)) (\<lambda>_.
               if matching_chunks frequency > total_chunks statistics
               then Inl (FrequencyExceedsTotal (tf_term frequency) (matching_chunks frequency)
                          (total_chunks statistics))
               else
                 let matching = f64_of_nat (matching_chunks frequency)
                 in Inr \<lparr> wt_term = fold_lower U (tf_term frequency),
                          weight = f64_div (ln_1p (f64_div total (f64_add f64_one matching))) ceiling \<rparr>))
           (frequencies statistics))"

subsection \<open>The display window\<close>

definition is_python_whitespace :: "uchar \<Rightarrow> bool" where
  "is_python_whitespace c = (is_whitespace c \<or> (0x1C \<le> c \<and> c \<le> 0x1F))"

definition collapse_step :: "ustr \<times> bool \<Rightarrow> uchar \<Rightarrow> ustr \<times> bool" where
  "collapse_step st c =
     (let (collapsed, pending_space) = st
      in if is_python_whitespace c then (collapsed, collapsed \<noteq> [])
         else (collapsed @ (if pending_space then [sp] else []) @ [c], False))"

definition collapse_python_whitespace :: "ustr \<Rightarrow> ustr" where
  "collapse_python_whitespace s = fst (foldl collapse_step ([], False) s)"

definition canonical_step ::
  "unicode \<Rightarrow> (ustr, f64) btree \<Rightarrow> weighted_term \<Rightarrow> (snippet_error, (ustr, f64) btree) result" where
  "canonical_step U canonical t =
     res_bind (validate_term U (wt_term t)) (\<lambda>_.
       if \<not> is_finite (weight t) \<or> \<not> f64_contains f64_zero f64_one (weight t)
       then Inl (InvalidWeight (wt_term t))
       else
         let name = fold_lower U (wt_term t)
         in case bt_get canonical name of
              Some existing \<Rightarrow>
                if existing \<noteq> weight t then Inl (ConflictingWeight name)
                else Inr (bt_insert name (weight t) canonical)
            | None \<Rightarrow> Inr (bt_insert name (weight t) canonical))"

definition canonical_terms :: "unicode \<Rightarrow> weighted_term list \<Rightarrow> (snippet_error, weighted_term list) result" where
  "canonical_terms U terms =
     res_map (map (\<lambda>(t, w). \<lparr> wt_term = t, weight = w \<rparr>)) (try_fold (canonical_step U) [] terms)"

record span =
  span_start :: nat
  span_end :: nat
  span_term :: nat

definition span_at :: "unicode \<Rightarrow> uchar list \<Rightarrow> uchar list \<Rightarrow> nat \<Rightarrow> bool" where
  "span_at U s needle start =
     (let fin = start + length needle
      in \<not> (0 < start \<and> is_identifier U (s ! (start - 1)))
       \<and> \<not> (fin < length s \<and> is_identifier U (s ! fin))
       \<and> list_all (\<lambda>(actual, expected). lowercase U actual = lowercase U expected)
           (zip (take (length needle) (drop start s)) needle))"

definition term_spans :: "unicode \<Rightarrow> uchar list \<Rightarrow> weighted_term list \<Rightarrow> span list" where
  "term_spans U s terms =
     concat (map (\<lambda>(term_index, weighted).
       if f64_le (weight weighted) f64_zero then []
       else
         let needle = wt_term weighted
         in if length s < length needle then []
            else map (\<lambda>start. \<lparr> span_start = start, span_end = start + length needle, span_term = term_index \<rparr>)
                   (filter (span_at U s needle) [0..<Suc (length s - length needle)]))
       (enumerate 0 terms))"

definition snap :: "uchar list \<Rightarrow> nat \<Rightarrow> nat \<Rightarrow> nat \<times> nat" where
  "snap s start0 width =
     (let start = (if 0 < start0
                   then (case rposition (\<lambda>c. c = sp) (take start0 s) of None \<Rightarrow> 0 | Some space \<Rightarrow> space + 1)
                   else start0);
          fin = min (length s) (start + width)
      in (start,
          if fin < length s
          then (case rposition (\<lambda>c. c = sp) (take (fin + 1 - start) (drop start s)) of
                  Some relative_space \<Rightarrow>
                    (let space = start + relative_space in if start < space then space else fin)
                | None \<Rightarrow> fin)
          else fin))"

definition window_score :: "nat \<Rightarrow> nat \<Rightarrow> weighted_term list \<Rightarrow> span list \<Rightarrow> f64" where
  "window_score start fin terms spans =
     f64_sum (map (\<lambda>(_, t). weight t)
       (filter (\<lambda>(t, _). list_ex (\<lambda>s. span_term s = t \<and> start \<le> span_start s \<and> span_end s \<le> fin) spans)
         (enumerate 0 terms)))"

definition make_snippet :: "uchar list \<Rightarrow> nat \<Rightarrow> nat \<Rightarrow> snippet_rec" where
  "make_snippet s start fin =
     \<lparr> snippet_text = take (fin - start) (drop start s), clipped_start = (0 < start),
       clipped_end = (fin < length s) \<rparr>"

definition span_cmp :: "weighted_term list \<Rightarrow> span \<Rightarrow> span \<Rightarrow> ordering" where
  "span_cmp terms a b =
     then_with (cmp (span_start a) (span_start b))
       (then_with (cmp (span_end a) (span_end b))
         (cmp (wt_term (terms ! span_term a)) (wt_term (terms ! span_term b))))"

definition candidate :: "uchar list \<Rightarrow> nat \<Rightarrow> span \<Rightarrow> nat \<times> nat" where
  "candidate s width spn =
     (let span_width = span_end spn - span_start spn;
          centered = min (span_start spn - (width - span_width) div 2) (length s - width)
      in snap s centered width)"

definition choose_step ::
  "uchar list \<Rightarrow> nat \<Rightarrow> weighted_term list \<Rightarrow> span list \<Rightarrow> f64 \<Rightarrow> snippet_rec option \<times> f64 \<Rightarrow> span
     \<Rightarrow> snippet_rec option \<times> f64" where
  "choose_step s width terms spans bar st spn =
     (let (chosen, chosen_score) = st;
          (start, fin) = candidate s width spn;
          candidate_score = window_score start fin terms spans
      in if f64_lt bar candidate_score \<and> f64_lt chosen_score candidate_score
         then (Some (make_snippet s start fin), candidate_score)
         else (chosen, chosen_score))"

definition snippet ::
  "unicode \<Rightarrow> ustr \<Rightarrow> weighted_term list \<Rightarrow> nat \<Rightarrow> f64 \<Rightarrow> (snippet_error, snippet_rec) result" where
  "snippet U s terms0 width gain =
     (if width = 0 then Inl ZeroWidth
      else if \<not> is_finite gain \<or> \<not> f64_contains f64_zero f64_one gain then Inl InvalidGain
      else
        res_bind (canonical_terms U terms0) (\<lambda>terms.
          let collapsed = collapse_python_whitespace s
          in if length collapsed \<le> width
             then Inr \<lparr> snippet_text = collapsed, clipped_start = False, clipped_end = False \<rparr>
             else
               let spans = sort_by (span_cmp terms) (term_spans U collapsed terms);
                   (head_start, head_end) = snap collapsed 0 width;
                   head = make_snippet collapsed head_start head_end
               in if spans = [] then Inr head
                  else
                    let head_score = window_score head_start head_end terms spans;
                        bar = f64_add head_score gain;
                        (chosen, _) = foldl (choose_step collapsed width terms spans bar) (None, head_score) spans
                    in Inr (case chosen of Some c \<Rightarrow> c | None \<Rightarrow> head)))"

subsection \<open>Specification\<close>

definition fold_token :: "unicode \<Rightarrow> ustr \<Rightarrow> ustr" where
  "fold_token U w = filter (is_identifier U) (fold_lower U w)"

definition spec_tokens :: "unicode \<Rightarrow> ustr \<Rightarrow> ustr list" where
  "spec_tokens U query =
     filter (\<lambda>t. 1 < length t) (map (fold_token U) (split_by (\<lambda>c. \<not> is_identifier U c) query))"

text \<open>The white-space words of a text, the reference for the collapsing loop.\<close>

definition words :: "ustr \<Rightarrow> ustr list" where
  "words s = filter (\<lambda>w. w \<noteq> []) (split_by is_python_whitespace s)"

text \<open>A window the code may show: the snapped window at some offset.\<close>

definition is_window :: "uchar list \<Rightarrow> nat \<Rightarrow> nat \<times> nat \<Rightarrow> bool" where
  "is_window s width w = (\<exists>i < length s. w = snap s i width)"

text \<open>What the platform logarithm must give on non-negative finite arguments.\<close>

definition log_like :: "(f64 \<Rightarrow> f64) \<Rightarrow> bool" where
  "log_like ln_1p =
     ((\<forall>x. is_finite x \<and> 0 \<le> f64_val x \<and> f64_wf x \<longrightarrow> is_finite (ln_1p x) \<and> 0 \<le> f64_val (ln_1p x) \<and> f64_wf (ln_1p x))
      \<and> (\<forall>x y. is_finite x \<and> is_finite y \<and> 0 \<le> f64_val x \<and> f64_val x \<le> f64_val y \<and> f64_wf x \<and> f64_wf y
           \<longrightarrow> f64_val (ln_1p x) \<le> f64_val (ln_1p y))
      \<and> (\<forall>x. is_finite x \<and> 1 \<le> f64_val x \<and> f64_wf x \<longrightarrow> 0 < f64_val (ln_1p x)))"

text \<open>A table with the documented facts the proofs use: ASCII case folding on letters and digits.\<close>

definition ascii_unicode :: unicode where
  "ascii_unicode = \<lparr> alphanumeric = is_ascii_alphanumeric, lowercase = (\<lambda>c. [to_ascii_lowercase c]) \<rparr>"

section \<open>Lemmas\<close>

subsection \<open>Tokens\<close>

lemma fold_token_Nil [simp]: "fold_token U [] = []"
  by (simp add: fold_token_def fold_lower_def)

lemma fold_token_append: "fold_token U (a @ b) = fold_token U a @ fold_token U b"
  by (simp add: fold_token_def fold_lower_def)

lemma query_step_simps:
  "is_identifier U c \<Longrightarrow> query_step U (ts, cur) c = (ts, cur @ fold_token U [c])"
  "\<not> is_identifier U c \<Longrightarrow>
     query_step U (ts, cur) c = (ts @ filter (\<lambda>t. 1 < length t) [cur], [])"
  by (auto simp: query_step_def is_identifier_def [abs_def] fold_token_def fold_lower_def)

lemma query_loop_run:
  "\<forall>c \<in> set a. is_identifier U c \<Longrightarrow> foldl (query_step U) (ts, cur) a = (ts, cur @ fold_token U a)"
proof (induction a arbitrary: cur)
  case (Cons c a)
  then show ?case using fold_token_append [of U "[c]" a] by (simp add: query_step_simps)
qed simp

lemma query_loop:
  assumes "\<not> is_identifier U sp"
  shows "foldl (query_step U) (ts, []) (s @ [sp]) = (ts @ spec_tokens U s, [])"
proof (induction "length s" arbitrary: s ts rule: less_induct)
  case less
  let ?P = "\<lambda>c. \<not> is_identifier U c"
  consider "\<forall>c \<in> set s. \<not> ?P c"
    | a c b where "s = a @ c # b" "\<forall>x \<in> set a. \<not> ?P x" "?P c"
    using split_by_decomp [of s ?P] by blast
  then show ?case
  proof cases
    case 1
    then show ?thesis
      using assms by (simp add: query_loop_run query_step_simps spec_tokens_def split_by_none)
  next
    case 2
    then show ?thesis
      using less [of b]
      by (simp add: query_loop_run query_step_simps spec_tokens_def split_by_all)
  qed
qed

lemma query_tokens_spec: "\<not> is_identifier U sp \<Longrightarrow> query_tokens U s = spec_tokens U s"
  using query_loop [of U "[]" s] by (simp add: query_tokens_def)

lemma spec_tokens_wf: "t \<in> set (spec_tokens U s) \<Longrightarrow> 2 \<le> length t \<and> (\<forall>c \<in> set t. is_identifier U c)"
  by (auto simp: spec_tokens_def fold_token_def)

lemma fold_token_id:
  "(\<forall>c \<in> set t. is_identifier U c \<and> lowercase U c = [c]) \<Longrightarrow> fold_token U t = t"
  by (induction t) (auto simp: fold_token_def fold_lower_def)

lemma query_terms_wf:
  assumes "\<not> is_identifier U sp" and "t \<in> set (query_terms U s)"
  shows "2 \<le> length t \<and> (\<forall>c \<in> set t. is_identifier U c) \<and> t \<in> set (spec_tokens U s)"
proof -
  have "t \<in> set (spec_tokens U s)"
    using assms retain_first_subset [of "\<lambda>t. t" "[]"]
    by (fastforce simp: query_terms_def query_tokens_spec Let_def split: if_splits)
  then show ?thesis using spec_tokens_wf by blast
qed

subsection \<open>Collapsed text\<close>

lemma words_ne: "w \<in> set (words s) \<Longrightarrow> w \<noteq> []"
  by (simp add: words_def)

lemma collapse_loop:
  "foldl collapse_step ([], False) s
     = (join [sp] (words s), last (split_by is_python_whitespace s) = [] \<and> words s \<noteq> [])"
proof (induction s rule: rev_induct)
  case Nil
  then show ?case by (simp add: words_def)
next
  case (snoc c s)
  obtain B l where B: "split_by is_python_whitespace s = B @ [l]"
    by (metis append_butlast_last_id split_by_ne)
  have ne: "join [sp] (words s) = [] \<longleftrightarrow> words s = []" by (rule join_Nil_iff) (simp add: words_ne)
  show ?case
  proof (cases "is_python_whitespace c")
    case True
    then show ?thesis using snoc ne by (simp add: collapse_step_def words_def split_by_snoc)
  next
    case False
    then show ?thesis
      using snoc ne by (simp add: collapse_step_def words_def split_by_snoc B join_snoc)
  qed
qed

lemma collapse_words: "collapse_python_whitespace s = join [sp] (words s)"
  by (simp add: collapse_python_whitespace_def collapse_loop)

subsection \<open>Windows\<close>

lemma snap_bounds:
  assumes "snap s i width = (b, e)" and "i < length s" and "0 < width"
  shows "b \<le> i" "b < e" "e \<le> length s" "e \<le> b + width"
    and "0 < b \<Longrightarrow> s ! (b - 1) = sp"
    and "e < length s \<Longrightarrow> s ! e = sp \<or> e = b + width"
proof -
  let ?S = "\<lambda>c. c = sp"
  have b: "b = (if 0 < i then (case rposition ?S (take i s) of None \<Rightarrow> 0 | Some k \<Rightarrow> k + 1) else i)"
    using assms(1) by (simp add: snap_def Let_def)
  have bi: "b \<le> i \<and> (0 < b \<longrightarrow> s ! (b - 1) = sp)"
    using assms(2) b by (auto split: option.splits if_splits dest!: rposition_Some)
  define f where "f = min (length s) (b + width)"
  have e: "e = (if f < length s then (case rposition ?S (take (f + 1 - b) (drop b s)) of
            Some k \<Rightarrow> if b < b + k then b + k else f | None \<Rightarrow> f) else f)"
    using assms(1) unfolding snap_def Let_def b [symmetric] f_def by simp
  have bf: "b < f" "f \<le> length s" "f \<le> b + width" using bi assms(2,3) by (auto simp: f_def)
  have "(e = f \<or> b < e \<and> e \<le> f \<and> s ! e = sp)"
    using e bf by (auto split: option.splits if_splits dest!: rposition_Some)
  then show "b < e" "e \<le> length s" "e \<le> b + width" "e < length s \<Longrightarrow> s ! e = sp \<or> e = b + width"
    using bf by (auto simp: f_def)
  show "b \<le> i" "0 < b \<Longrightarrow> s ! (b - 1) = sp" using bi by auto
qed

lemma term_spans_bounds:
  "x \<in> set (term_spans U s terms) \<Longrightarrow>
     span_start x \<le> span_end x \<and> span_end x \<le> length s \<and> span_term x < length terms
     \<and> span_at U s (wt_term (terms ! span_term x)) (span_start x)
     \<and> span_end x = span_start x + length (wt_term (terms ! span_term x))"
  by (auto simp: term_spans_def Let_def in_set_enumerate_eq split: if_splits)

lemma candidate_window: "0 < width \<Longrightarrow> width < length s \<Longrightarrow> is_window s width (candidate s width x)"
  by (auto simp: is_window_def candidate_def Let_def intro!: exI [of _ "min _ _"])

lemma make_snippet_window:
  assumes "is_window s width w" and "0 < width"
  shows "\<exists>a b. s = a @ snippet_text (make_snippet s (fst w) (snd w)) @ b
    \<and> snippet_text (make_snippet s (fst w) (snd w)) \<noteq> []
    \<and> length (snippet_text (make_snippet s (fst w) (snd w))) \<le> width
    \<and> clipped_start (make_snippet s (fst w) (snd w)) = (a \<noteq> [])
    \<and> clipped_end (make_snippet s (fst w) (snd w)) = (b \<noteq> [])
    \<and> (a \<noteq> [] \<longrightarrow> last a = sp)
    \<and> (b \<noteq> [] \<longrightarrow> hd b = sp \<or> length (snippet_text (make_snippet s (fst w) (snd w))) = width)"
proof -
  obtain i where i: "i < length s" "snap s i width = (fst w, snd w)"
    using assms(1) by (auto simp: is_window_def)
  note n = snap_bounds [OF i(2,1) assms(2)]
  let ?b = "fst w" and ?e = "snd w"
  have "s = take ?b s @ take (?e - ?b) (drop ?b s) @ drop ?e s"
    using n(2) by (metis append_take_drop_id drop_drop le_add_diff_inverse2 less_imp_le)
  moreover have "last (take ?b s) = sp" if "?b \<noteq> 0"
  proof -
    have "?b - 1 < length s" "length (take ?b s) = ?b" using n(1) i(1) by auto
    then have "last (take ?b s) = s ! (?b - 1)" using that by (subst last_conv_nth) auto
    with n(5) that show ?thesis by simp
  qed
  moreover have "?e < length s \<Longrightarrow> hd (drop ?e s) = sp \<or> ?e - ?b = width"
    using n(6) by (auto simp: hd_drop_conv_nth)
  ultimately show ?thesis
    using n(1-4) i(1)
    by (intro exI [of _ "take ?b s"] exI [of _ "drop ?e s"]) (auto simp: make_snippet_def)
qed

lemma choose_loop:
  fixes s width terms spans
  defines "score \<equiv> \<lambda>x. window_score (fst (candidate s width x)) (snd (candidate s width x)) terms spans"
  assumes "foldl (choose_step s width terms spans bar) (None, head_score) xs = (c, best)"
  shows "(c = None \<and> best = head_score
      \<or> (\<exists>x \<in> set xs. c = Some (make_snippet s (fst (candidate s width x)) (snd (candidate s width x)))
           \<and> best = score x \<and> f64_lt bar best))
    \<and> (\<forall>x \<in> set xs. \<not> (f64_lt bar (score x) \<and> f64_lt best (score x)))"
  using assms(2)
proof (induction xs arbitrary: c best rule: rev_induct)
  case (snoc y ys)
  obtain c' best' where st: "foldl (choose_step s width terms spans bar) (None, head_score) ys = (c', best')"
    by force
  note ih = snoc.IH [OF st]
  have step: "choose_step s width terms spans bar (c', best') y = (c, best)" using snoc.prems st by simp
  show ?case
  proof (cases "f64_lt bar (score y) \<and> f64_lt best' (score y)")
    case True
    with step have "best = score y" "c = Some (make_snippet s (fst (candidate s width y)) (snd (candidate s width y)))"
      by (auto simp: choose_step_def score_def Let_def split: prod.splits)
    moreover have "\<forall>x \<in> set ys. \<not> (f64_lt bar (score x) \<and> f64_lt (score y) (score x))"
      using ih True f64_lt_trans by blast
    ultimately show ?thesis using True by simp
  next
    case False
    with step have "best = best'" "c = c'"
      by (auto simp: choose_step_def score_def Let_def split: prod.splits if_splits)
    with False ih show ?thesis by auto
  qed
qed simp

lemma snippet_cut:
  assumes "canonical_terms U terms = Inr ts" and "0 < width"
    and "width < length (collapse_python_whitespace s)"
    and "snippet U s terms width gain = Inr r"
  defines "c \<equiv> collapse_python_whitespace s"
  defines "spans \<equiv> sort_by (span_cmp ts) (term_spans U c ts)"
  defines "score \<equiv> \<lambda>w. window_score (fst w) (snd w) ts spans"
  shows "\<exists>w. (w = snap c 0 width \<or> w \<in> candidate c width ` set spans \<and> f64_lt (f64_add (score (snap c 0 width)) gain) (score w))
    \<and> r = make_snippet c (fst w) (snd w)
    \<and> (\<forall>x \<in> set spans. let v = score (candidate c width x)
         in \<not> (f64_lt (f64_add (score (snap c 0 width)) gain) v \<and> f64_lt (score w) v))"
proof -
  let ?h = "snap c 0 width" and ?bar = "f64_add (score (snap c 0 width)) gain"
  have g: "is_finite gain" "f64_contains f64_zero f64_one gain"
    using assms(4) by (auto simp: snippet_def split: if_splits)
  show ?thesis
  proof (cases "spans = []")
    case True
    then have "r = make_snippet c (fst ?h) (snd ?h)"
      using assms(1-4) g by (auto simp: snippet_def Let_def c_def [symmetric] spans_def split: prod.splits)
    with True show ?thesis by auto
  next
    case False
    obtain ch best where ch: "foldl (choose_step c width ts spans ?bar) (None, score ?h) spans = (ch, best)"
      by force
    have r: "r = (case ch of Some x \<Rightarrow> x | None \<Rightarrow> make_snippet c (fst ?h) (snd ?h))"
      using assms(1-4) g False ch
      by (auto simp: snippet_def Let_def c_def [symmetric] spans_def score_def split: prod.splits option.splits)
    note best = choose_loop [OF ch, folded score_def]
    show ?thesis
    proof (cases ch)
      case None
      with best r show ?thesis by (intro exI [of _ ?h]) (auto simp: Let_def score_def)
    next
      case (Some y)
      with best obtain x where "x \<in> set spans" "best = score (candidate c width x)" "f64_lt ?bar best"
        "y = make_snippet c (fst (candidate c width x)) (snd (candidate c width x))"
        by (auto simp: score_def)
      with best r Some show ?thesis
        by (intro exI [of _ "candidate c width x"]) (auto simp: Let_def score_def)
    qed
  qed
qed

lemma snippet_is_window:
  assumes "snippet U s terms width gain = Inr r" "canonical_terms U terms = Inr ts" "0 < width"
    "\<not> length (join [sp] (words s)) \<le> width"
  shows "\<exists>x. is_window (join [sp] (words s)) width x \<and> r = make_snippet (join [sp] (words s)) (fst x) (snd x)"
proof -
  have "0 < length (join [sp] (words s))" using assms(3,4) by linarith
  then have "is_window (join [sp] (words s)) width (snap (join [sp] (words s)) 0 width)"
    by (auto simp: is_window_def)
  then show ?thesis
    using snippet_cut [OF assms(2,3) _ assms(1)] candidate_window [OF assms(3)] assms(4)
    unfolding collapse_words by (metis imageE not_le)
qed

subsection \<open>Canonical terms\<close>

lemma validate_term_Inr [simp]:
  "validate_term U t = Inr u \<longleftrightarrow> 2 \<le> length t \<and> (\<forall>c \<in> set t. is_identifier U c)"
  by (auto simp: validate_term_def is_identifier_def list_all_iff)

lemma canonical_step_Inr:
  "canonical_step U m t = Inr m' \<longleftrightarrow>
     2 \<le> length (wt_term t) \<and> (\<forall>c \<in> set (wt_term t). is_identifier U c)
     \<and> f64_contains f64_zero f64_one (weight t)
     \<and> bt_get m (fold_lower U (wt_term t)) \<in> {None, Some (weight t)}
     \<and> m' = bt_insert (fold_lower U (wt_term t)) (weight t) m"
  by (auto simp: canonical_step_def res_bind_Inr_iff Let_def f64_contains_unit_iff
      split: option.splits if_splits)

lemma canonical_loop:
  "bt_wf m \<Longrightarrow> try_fold (canonical_step U) m ts = Inr m' \<Longrightarrow>
     bt_wf m'
     \<and> (\<forall>k w. bt_get m' k = Some w \<longleftrightarrow>
          bt_get m k = Some w \<or> (\<exists>t \<in> set ts. fold_lower U (wt_term t) = k \<and> weight t = w))
     \<and> (\<forall>t \<in> set ts. validate_term U (wt_term t) = Inr () \<and> f64_contains f64_zero f64_one (weight t))"
proof (induction ts arbitrary: m)
  case (Cons t ts)
  obtain m1 where m1: "canonical_step U m t = Inr m1" "try_fold (canonical_step U) m1 ts = Inr m'"
    using Cons.prems by (auto split: sum.splits)
  note step = m1(1) [unfolded canonical_step_Inr]
  have wf1: "bt_wf m1" using step bt.wf_ins [OF Cons.prems(1)] by simp
  have get1: "bt_get m1 k = Some w \<longleftrightarrow> bt_get m k = Some w \<or> fold_lower U (wt_term t) = k \<and> weight t = w" for k w
    using step bt.get_ins [OF Cons.prems(1)] by auto
  show ?case using Cons.IH [OF wf1 m1(2)] step get1 by auto
qed simp

lemma bt_get_mem: "bt_wf m \<Longrightarrow> bt_get m k = Some w \<longleftrightarrow> (k, w) \<in> set m"
  using bt.keys_distinct [of m] by (simp add: bt_get_def bt_keys_def)

lemma canonical_terms_Inr:
  assumes "canonical_terms U ts = Inr cs"
  shows "sorted_wrt (<) (map wt_term cs)"
    and "(\<exists>c \<in> set cs. wt_term c = k \<and> weight c = w) \<longleftrightarrow>
           (\<exists>t \<in> set ts. fold_lower U (wt_term t) = k \<and> weight t = w)"
    and "\<forall>t \<in> set ts. validate_term U (wt_term t) = Inr () \<and> f64_contains f64_zero f64_one (weight t)"
proof -
  let ?f = "\<lambda>(t, w). \<lparr> wt_term = t, weight = w \<rparr>"
  obtain m where m: "try_fold (canonical_step U) [] ts = Inr m" "cs = map ?f m"
    using assms by (auto simp: canonical_terms_def res_map_def split: sum.splits)
  have l: "bt_wf m"
    "bt_get m k = Some w \<longleftrightarrow> (\<exists>t \<in> set ts. fold_lower U (wt_term t) = k \<and> weight t = w)"
    "\<forall>t \<in> set ts. validate_term U (wt_term t) = Inr () \<and> f64_contains f64_zero f64_one (weight t)"
    using canonical_loop [OF bt.wf_empty m(1)] by (auto simp: bt.get_empty)
  have "map wt_term cs = map fst m" by (auto simp: m(2))
  with l(1) show "sorted_wrt (<) (map wt_term cs)" by (simp add: bt_wf_def)
  show "(\<exists>c \<in> set cs. wt_term c = k \<and> weight c = w) \<longleftrightarrow>
           (\<exists>t \<in> set ts. fold_lower U (wt_term t) = k \<and> weight t = w)"
    unfolding l(2) [symmetric] bt_get_mem [OF l(1)] m(2) by force
  show "\<forall>t \<in> set ts. validate_term U (wt_term t) = Inr () \<and> f64_contains f64_zero f64_one (weight t)"
    by (rule l(3))
qed

subsection \<open>Rarity weights\<close>

lemma rarity_unit:
  assumes "log_like ln_1p" "0 < n" "n \<le> 2 ^ 64" "m \<le> n"
  shows "f64_contains f64_zero f64_one
    (f64_div (ln_1p (f64_div (f64_of_nat n) (f64_add f64_one (f64_of_nat m)))) (ln_1p (f64_of_nat n)))"
proof -
  note l = assms(1) [unfolded log_like_def]
  have m: "m \<le> 2 ^ 64" using assms by simp
  let ?t = "f64_of_nat n" and ?d = "f64_add f64_one (f64_of_nat m)"
  note t = f64_of_nat_finite [OF assms(3)]
  note mf = f64_of_nat_finite [OF m]
  note d = f64_add_one [OF mf(1,2,5)]
  have dw: "f64_wf ?d" using mf(3) by simp
  note q = f64_div_shrink [OF t(1) d(1) t(2) d(2) t(3) dw]
  have qw: "f64_wf (f64_div ?t ?d)" using t(3) dw by simp
  show ?thesis
    using l t(1-3) t(4) [OF assms(2)] q qw by (intro f64_div_unit) auto
qed

lemma snippet_window_ok:
  assumes "snippet U s terms width gain = Inr r"
  shows "\<exists>a b. join [sp] (words s) = a @ snippet_text r @ b
    \<and> length (snippet_text r) \<le> width
    \<and> clipped_start r = (a \<noteq> []) \<and> clipped_end r = (b \<noteq> [])
    \<and> (a \<noteq> [] \<longrightarrow> last a = sp)
    \<and> (b \<noteq> [] \<longrightarrow> hd b = sp \<or> length (snippet_text r) = width)
    \<and> (snippet_text r = [] \<longleftrightarrow> words s = [])"
proof -
  let ?c = "join [sp] (words s)"
  have ne: "?c = [] \<longleftrightarrow> words s = []" by (rule join_Nil_iff) (simp add: words_ne)
  obtain ts where w: "0 < width" and ts: "canonical_terms U terms = Inr ts"
    using assms by (auto simp: snippet_def res_bind_Inr_iff split: if_splits)
  show ?thesis
  proof (cases "length ?c \<le> width")
    case True
    then have "r = \<lparr> snippet_text = ?c, clipped_start = False, clipped_end = False \<rparr>"
      using assms ts w by (simp add: snippet_def collapse_words split: if_splits)
    with True ne show ?thesis by (intro exI [of _ "[]"]) simp
  next
    case False
    have "\<exists>x. is_window ?c width x \<and> r = make_snippet ?c (fst x) (snd x)"
      using assms ts w False by (rule snippet_is_window)
    then show ?thesis using make_snippet_window [OF _ w] False ne by (metis list.size(3) zero_le)
  qed
qed

lemma snippet_width: "snippet U s terms width gain = Inr r \<Longrightarrow> length (snippet_text r) \<le> width"
  using snippet_window_ok by blast

lemma term_weights_ok:
  assumes "log_like ln_1p" and "0 < total_chunks st" and "total_chunks st < 2 ^ 64"
    and "\<forall>f \<in> set (frequencies st). validate_term U (tf_term f) = Inr () \<and> matching_chunks f \<le> total_chunks st"
  shows "\<exists>ws. term_weights U ln_1p st = Inr ws
    \<and> map wt_term ws = map (\<lambda>f. fold_lower U (tf_term f)) (frequencies st)
    \<and> (\<forall>w \<in> set ws. f64_contains f64_zero f64_one (weight w))"
proof -
  let ?n = "total_chunks st"
  let ?w = "\<lambda>f. f64_div (ln_1p (f64_div (f64_of_nat ?n) (f64_add f64_one (f64_of_nat (matching_chunks f)))))
                 (ln_1p (f64_of_nat ?n))"
  let ?g = "\<lambda>f. \<lparr> wt_term = fold_lower U (tf_term f), weight = ?w f \<rparr>"
  have "term_weights U ln_1p st = Inr (map ?g (frequencies st))"
    using assms(2,4) unfolding term_weights_def Let_def by (auto simp del: validate_term_Inr intro!: try_map_total)
  moreover have "f64_contains f64_zero f64_one (?w f)" if "f \<in> set (frequencies st)" for f
    using that assms by (intro rarity_unit) auto
  ultimately show ?thesis by (auto simp: comp_def)
qed

lemma canonical_loop_total:
  assumes "bt_wf m" "distinct (map (\<lambda>t. fold_lower U (wt_term t)) ts)"
    and "\<forall>t \<in> set ts. validate_term U (wt_term t) = Inr () \<and> f64_contains f64_zero f64_one (weight t)
          \<and> bt_get m (fold_lower U (wt_term t)) = None"
  shows "\<exists>m'. try_fold (canonical_step U) m ts = Inr m'"
  using assms
proof (induction ts arbitrary: m)
  case (Cons t ts)
  let ?m = "bt_insert (fold_lower U (wt_term t)) (weight t) m"
  have ne: "fold_lower U (wt_term t') \<noteq> fold_lower U (wt_term t)" if "t' \<in> set ts" for t'
    using Cons.prems(2) that by (metis (mono_tags, lifting) distinct.simps(2) image_eqI list.set_map list.simps(9))
  have "canonical_step U m t = Inr ?m" using Cons.prems(3) by (simp add: canonical_step_Inr)
  moreover have "\<exists>m'. try_fold (canonical_step U) ?m ts = Inr m'"
    using Cons.prems ne by (intro Cons.IH) (auto simp: bt.wf_ins bt.get_ins simp del: validate_term_Inr)
  ultimately show ?case by simp
qed simp

lemma canonical_terms_total:
  assumes "distinct (map (\<lambda>t. fold_lower U (wt_term t)) ts)"
    and "\<forall>t \<in> set ts. validate_term U (wt_term t) = Inr () \<and> f64_contains f64_zero f64_one (weight t)"
  shows "\<exists>cs. canonical_terms U ts = Inr cs"
  using canonical_loop_total [OF bt.wf_empty assms(1)] assms(2)
  by (auto simp: canonical_terms_def bt.get_empty)

lemma snippet_total:
  assumes "canonical_terms U ts = Inr cs" "0 < width" "f64_contains f64_zero f64_one gain"
  shows "\<exists>r. snippet U s ts width gain = Inr r"
proof -
  have "is_finite gain" using assms(3) by (simp add: f64_contains_unit_iff)
  with assms show ?thesis by (auto simp: snippet_def Let_def split: prod.splits)
qed

lemma fold_lower_id: "\<forall>c \<in> set t. lowercase U c = [c] \<Longrightarrow> fold_lower U t = t"
  by (induction t) (auto simp: fold_lower_def)

section \<open>Properties\<close>

text \<open>C7: the token loop computes the maximal identifier runs, case folded, of at least two
  characters. The query terms are those tokens without repetition, in first-occurrence order;
  stop words are dropped exactly when a content word remains.\<close>

theorem query_terms_spec:
  assumes "\<not> alphanumeric U sp"
  shows "query_tokens U q = spec_tokens U q
    \<and> query_terms U q = retain_first (\<lambda>t. t) []
        (if \<forall>t \<in> set (spec_tokens U q). t \<in> set STOPWORDS then spec_tokens U q
         else filter (\<lambda>t. t \<notin> set STOPWORDS) (spec_tokens U q))
    \<and> distinct (query_terms U q)
    \<and> (\<forall>t \<in> set (query_terms U q). validate_term U t = Inr ())
    \<and> (query_terms U q = [] \<longleftrightarrow> spec_tokens U q = [])"
proof -
  have i: "\<not> is_identifier U sp" using assms by (simp add: is_identifier_def)
  note tok = query_tokens_spec [OF i]
  let ?sel = "if \<forall>t \<in> set (spec_tokens U q). t \<in> set STOPWORDS then spec_tokens U q
         else filter (\<lambda>t. t \<notin> set STOPWORDS) (spec_tokens U q)"
  have qt: "query_terms U q = retain_first (\<lambda>t. t) [] ?sel"
    by (simp add: query_terms_def tok filter_empty_conv Let_def)
  have "?sel = [] \<longleftrightarrow> spec_tokens U q = []" by (auto simp: filter_empty_conv)
  then have "query_terms U q = [] \<longleftrightarrow> spec_tokens U q = []"
    unfolding qt retain_first_Nil_iff .
  moreover have "distinct (query_terms U q)"
    using retain_first_distinct [of "\<lambda>t. t" "[]" ?sel] unfolding qt by simp
  moreover have "\<forall>t \<in> set (query_terms U q). validate_term U t = Inr ()"
    using query_terms_wf [OF i, of _ q] by simp
  ultimately show ?thesis using tok qt by blast
qed

theorem query_terms_spec_witness:
  "query_terms ascii_unicode (lit ''The Vector and the vector_index'') = [lit ''vector'', lit ''vector_index'']
   \<and> distinct (query_terms ascii_unicode (lit ''The Vector and the vector_index''))"
proof (intro conjI)
  have "\<not> alphanumeric ascii_unicode sp" by code_simp
  from query_terms_spec [OF this]
  show "distinct (query_terms ascii_unicode (lit ''The Vector and the vector_index''))" by blast
qed code_simp

text \<open>Extracting the terms of a query made of its own terms gives the same terms, so the
  lexical index and the snippet weights work on one canonical term set.\<close>

lemma query_terms_roundtrip:
  assumes "\<not> alphanumeric U sp"
    and "\<forall>t \<in> set (query_terms U q). \<forall>c \<in> set t. lowercase U c = [c]"
  shows "query_terms U (join [sp] (query_terms U q)) = query_terms U q"
proof -
  let ?ts = "query_terms U q"
  have i: "\<not> is_identifier U sp" using assms by (simp add: is_identifier_def)
  have wf: "t \<in> set ?ts \<Longrightarrow> 2 \<le> length t \<and> (\<forall>c \<in> set t. is_identifier U c)" for t
    using query_terms_wf [OF i] by blast
  have "split_by (\<lambda>c. \<not> is_identifier U c) (join [sp] ?ts) = (if ?ts = [] then [[]] else ?ts)"
    using split_by_join [of "\<lambda>c. \<not> is_identifier U c" sp ?ts] i wf by blast
  moreover have "map (fold_token U) ?ts = ?ts"
    using assms(2) wf by (intro map_idI fold_token_id) auto
  moreover have "filter (\<lambda>t. 1 < length t) ?ts = ?ts" using wf by (force simp: filter_id_conv)
  ultimately have tok: "spec_tokens U (join [sp] ?ts) = ?ts" by (simp add: spec_tokens_def)
  have "filter (\<lambda>t. t \<notin> set STOPWORDS) ?ts = [] \<or> filter (\<lambda>t. t \<notin> set STOPWORDS) ?ts = ?ts"
    using retain_first_subset [of "\<lambda>t. t" "[]"]
    by (fastforce simp: query_terms_def Let_def filter_empty_conv filter_id_conv split: if_splits)
  moreover have "retain_first (\<lambda>t. t) [] ?ts = ?ts"
    using retain_first_distinct [of "\<lambda>t. t" "[]"]
    by (intro retain_first_id) (auto simp: query_terms_def Let_def)
  ultimately show ?thesis
    unfolding query_terms_def [of U "join [sp] ?ts"] query_tokens_spec [OF i] tok Let_def by auto
qed

lemma query_terms_roundtrip_example:
  "query_terms ascii_unicode (join [sp] (query_terms ascii_unicode (lit ''Sort the Keys'')))
     = query_terms ascii_unicode (lit ''Sort the Keys'')"
proof (rule query_terms_roundtrip)
  show "\<not> alphanumeric ascii_unicode sp" by code_simp
  show "\<forall>t \<in> set (query_terms ascii_unicode (lit ''Sort the Keys'')).
      \<forall>c \<in> set t. lowercase ascii_unicode c = [c]" by code_simp
qed

text \<open>C8: a snippet is a contiguous piece of the text's words joined by single spaces, never
  longer than the width and never empty unless the text is blank. It starts at a word, ends
  before a space or uses the full width, and the two flags say exactly which sides are cut.\<close>

theorem snippet_window:
  assumes "snippet U s terms width gain = Inr r"
  shows "\<exists>a b. join [sp] (words s) = a @ snippet_text r @ b
    \<and> length (snippet_text r) \<le> width
    \<and> clipped_start r = (a \<noteq> []) \<and> clipped_end r = (b \<noteq> [])
    \<and> (a \<noteq> [] \<longrightarrow> last a = sp)
    \<and> (b \<noteq> [] \<longrightarrow> hd b = sp \<or> length (snippet_text r) = width)
    \<and> (snippet_text r = [] \<longleftrightarrow> words s = [])"
  by (rule snippet_window_ok [OF assms])

theorem snippet_window_witness:
  "\<exists>a b. join [sp] (words (lit ''one  two three four'')) = a @ lit ''two three'' @ b
     \<and> a \<noteq> [] \<and> b \<noteq> [] \<and> last a = sp \<and> hd b = sp"
proof -
  have "snippet ascii_unicode (lit ''one  two three four'') [\<lparr> wt_term = lit ''three'', weight = f64_one \<rparr>] 10 f64_zero
      = Inr \<lparr> snippet_text = lit ''two three'', clipped_start = True, clipped_end = True \<rparr>" by code_simp
  from snippet_window [OF this] show ?thesis by auto
qed

text \<open>When the text is too long, the snippet is the head window or a window around a term
  occurrence that beats the head by more than the gain; no candidate that clears the bar has a
  larger score than the window shown.\<close>

lemma snippet_best_window:
  assumes "canonical_terms U terms = Inr ts" and "0 < width"
    and "width < length (collapse_python_whitespace s)"
    and "snippet U s terms width gain = Inr r"
    and "c = collapse_python_whitespace s"
    and "spans = sort_by (span_cmp ts) (term_spans U c ts)"
    and "score = (\<lambda>w. window_score (fst w) (snd w) ts spans)"
    and "bar = f64_add (score (snap c 0 width)) gain"
  shows "\<exists>w. (w = snap c 0 width \<or> w \<in> candidate c width ` set spans \<and> f64_lt bar (score w))
    \<and> r = make_snippet c (fst w) (snd w)
    \<and> (\<forall>x \<in> set spans. f64_lt bar (score (candidate c width x))
         \<longrightarrow> \<not> f64_lt (score w) (score (candidate c width x)))"
  using snippet_cut [OF assms(1-4)] unfolding assms(5-8) Let_def by blast

lemma snippet_best_window_example:
  "\<exists>w. make_snippet (lit ''one two three four'') 4 13 = make_snippet (lit ''one two three four'') (fst w) (snd w)
     \<and> (w = snap (lit ''one two three four'') 0 10
        \<or> w \<in> range (candidate (lit ''one two three four'') 10))"
proof -
  let ?t = "[\<lparr> wt_term = lit ''three'', weight = f64_one \<rparr>]" and ?s = "lit ''one two three four''"
  have 1: "canonical_terms ascii_unicode ?t = Inr ?t" by code_simp
  have 2: "(10::nat) < length (collapse_python_whitespace ?s)" by code_simp
  have 3: "snippet ascii_unicode ?s ?t 10 f64_zero = Inr (make_snippet ?s 4 13)" by code_simp
  have 4: "collapse_python_whitespace ?s = ?s" by code_simp
  from snippet_best_window [OF 1 _ 2 3 refl refl refl refl] show ?thesis unfolding 4 by auto
qed

text \<open>Rarity weights: with counts that never exceed the total, every term gets a weight, in
  order and under its lower-case name, and each weight lies in the closed unit interval, so the
  snippet chooser never rejects it. \<open>log_like\<close> is what the platform's \<open>ln_1p\<close> must satisfy.\<close>

lemma term_weights_unit:
  assumes "log_like ln_1p" and "0 < total_chunks st" and "total_chunks st < 2 ^ 64"
    and "\<forall>f \<in> set (frequencies st). validate_term U (tf_term f) = Inr () \<and> matching_chunks f \<le> total_chunks st"
  shows "\<exists>ws. term_weights U ln_1p st = Inr ws
    \<and> map wt_term ws = map (\<lambda>f. fold_lower U (tf_term f)) (frequencies st)
    \<and> (\<forall>w \<in> set ws. f64_contains f64_zero f64_one (weight w))"
  by (rule term_weights_ok [OF assms])

lemma term_weights_unit_example:
  "\<exists>ws. term_weights ascii_unicode (\<lambda>x. x)
       \<lparr> total_chunks = 4, frequencies = [\<lparr> tf_term = lit ''Key'', matching_chunks = 1 \<rparr>] \<rparr> = Inr ws
     \<and> map wt_term ws = [lit ''key''] \<and> (\<forall>w \<in> set ws. f64_contains f64_zero f64_one (weight w))"
proof -
  let ?st = "\<lparr> total_chunks = 4, frequencies = [\<lparr> tf_term = lit ''Key'', matching_chunks = 1 \<rparr>] \<rparr>"
  have 1: "log_like (\<lambda>x. x)" by (simp add: log_like_def)
  have 2: "validate_term ascii_unicode (lit ''Key'') = Inr ()" by code_simp
  have 3: "fold_lower ascii_unicode (lit ''Key'') = lit ''key''" by code_simp
  show ?thesis using term_weights_unit [OF 1, of ?st ascii_unicode] 2 3 by simp
qed

text \<open>The canonical term list is strictly ordered by name and holds exactly the folded names
  with their weights; every accepted input term is a lexical token with a weight in the unit
  interval, and two inputs that fold to one name agree on the weight.\<close>

lemma canonical_terms_sound:
  assumes "canonical_terms U ts = Inr cs"
  shows "sorted_wrt (<) (map wt_term cs)
    \<and> {(wt_term c, weight c) | c. c \<in> set cs} = {(fold_lower U (wt_term t), weight t) | t. t \<in> set ts}
    \<and> (\<forall>t \<in> set ts. validate_term U (wt_term t) = Inr () \<and> f64_contains f64_zero f64_one (weight t))"
  using canonical_terms_Inr [OF assms] by (auto simp: set_eq_iff) (metis+)?

lemma canonical_terms_sound_example:
  "sorted_wrt (<) (map wt_term [\<lparr> wt_term = lit ''ab'', weight = f64_one \<rparr>, \<lparr> wt_term = lit ''zz'', weight = f64_zero \<rparr>])"
proof -
  have "canonical_terms ascii_unicode [\<lparr> wt_term = lit ''ZZ'', weight = f64_zero \<rparr>,
      \<lparr> wt_term = lit ''ab'', weight = f64_one \<rparr>, \<lparr> wt_term = lit ''zz'', weight = f64_zero \<rparr>]
    = Inr [\<lparr> wt_term = lit ''ab'', weight = f64_one \<rparr>, \<lparr> wt_term = lit ''zz'', weight = f64_zero \<rparr>]"
    by code_simp
  from canonical_terms_sound [OF this] show ?thesis by blast
qed

end
