(* ===== verification/Search.thy ===== *)
theory Search
  imports Select Snippet
begin

text \<open>
  The composition of one search response, \<open>yams-core/src/search.rs\<close>: validation of the loaded
  metadata, dense and lexical candidates and snippet statistics, then ranking, selection, gating and
  snippets. The expectation that a validated selection stays valid when the gate is bypassed is a
  branch of the model (\<open>SearchPanic\<close>), shown to be unreachable for validated controls.
\<close>

section \<open>Definitions\<close>

record page_metadata =
  pm_id :: page_id
  pm_name :: ustr
  pm_labels :: page_labels

record chunk_metadata =
  cm_id :: chunk_id
  cm_text :: ustr

record lexical_score =
  ls_id :: chunk_id
  ls_bm25 :: f64
  ls_rank :: nat

record search_request =
  sr_query :: ustr
  sr_query_embedding :: "f64 list"
  sr_pages :: "page_metadata list"
  sr_chunks :: "chunk_metadata list"
  sr_dense :: "dense_candidate list"
  sr_lexical :: "lexical_score list"
  sr_statistics :: snippet_statistics
  sr_selection :: selection_config

record search_hit =
  srh_name :: ustr
  srh_path :: ustr
  srh_score :: normalized_score
  srh_text :: ustr
  srh_snippet :: ustr
  srh_clipped_start :: bool
  srh_clipped_end :: bool
  srh_corpus :: "ustr option"
  srh_status :: "ustr option"
  srh_project :: "ustr option"
  srh_exact :: bool

record search_explanation =
  sx_query :: ustr
  sx_applied :: bool
  sx_gate :: "gate_verdict option"
  sx_hits :: "(ustr, hit_explanation) btree"

record search_response =
  sp_query :: ustr
  sp_hits :: "search_hit list"
  sp_explanation :: search_explanation
  sp_exit_code :: exit_code

datatype search_error =
  SearchRank rank_error
| SearchSelection selection_error
| SearchSnippet snippet_error
| MissingPageMetadata page_id
| DuplicatePageMetadata page_id
| MissingChunkMetadata chunk_id
| DuplicateChunkMetadata chunk_id
| DuplicateDenseCandidate chunk_id
| MissingDenseCandidate chunk_id
| DuplicateLexicalCandidate chunk_id
| NonFiniteBm25 chunk_id
| InvalidLexicalRank chunk_id nat nat
| LexicalOrder chunk_id chunk_id
| SnippetChunkCountMismatch nat nat
| SnippetTermsMismatch "ustr list" "ustr list"
| DuplicateSnippetTerm ustr
| SearchPanic

subsection \<open>Validation\<close>

definition page_step ::
  "(page_id, page_metadata) btree \<Rightarrow> page_metadata \<Rightarrow> (search_error, (page_id, page_metadata) btree) result" where
  "page_step m page =
     (if bt_contains m (pm_id page) then Inl (DuplicatePageMetadata (pm_id page))
      else Inr (bt_insert (pm_id page) page m))"

definition chunk_step ::
  "(page_id, page_metadata) btree \<Rightarrow> (chunk_id, chunk_metadata) btree \<Rightarrow> chunk_metadata
     \<Rightarrow> (search_error, (chunk_id, chunk_metadata) btree) result" where
  "chunk_step pages m chunk =
     (if \<not> bt_contains pages (chunk_page (cm_id chunk)) then Inl (MissingPageMetadata (chunk_page (cm_id chunk)))
      else if bt_contains m (cm_id chunk) then Inl (DuplicateChunkMetadata (cm_id chunk))
      else Inr (bt_insert (cm_id chunk) chunk m))"

definition dense_step ::
  "(chunk_id, chunk_metadata) btree \<Rightarrow> (chunk_id, unit) btree \<Rightarrow> dense_candidate
     \<Rightarrow> (search_error, (chunk_id, unit) btree) result" where
  "dense_step chunks seen cand =
     (if \<not> bt_contains chunks (dc_id cand) then Inl (MissingChunkMetadata (dc_id cand))
      else if bt_contains seen (dc_id cand) then Inl (DuplicateDenseCandidate (dc_id cand))
      else Inr (bt_insert (dc_id cand) () seen))"

definition validate_dense ::
  "dense_candidate list \<Rightarrow> (chunk_id, chunk_metadata) btree \<Rightarrow> (search_error, unit) result" where
  "validate_dense dense chunks =
     res_bind (try_fold (dense_step chunks) [] dense) (\<lambda>seen.
       case find (\<lambda>chunk. \<not> bt_contains seen chunk) (bt_keys chunks) of
         Some missing \<Rightarrow> Inl (MissingDenseCandidate missing)
       | None \<Rightarrow> Inr ())"

type_synonym lexical_state = "(chunk_id, unit) btree \<times> (f64 \<times> chunk_id) option"

definition lexical_step ::
  "(chunk_id, chunk_metadata) btree \<Rightarrow> lexical_state \<Rightarrow> nat \<times> lexical_score \<Rightarrow> (search_error, lexical_state) result" where
  "lexical_step chunks st ic =
     (let (seen, previous) = st; (index, cand) = ic; expected = index + 1; cid = ls_id cand
      in if \<not> is_finite (ls_bm25 cand) then Inl (NonFiniteBm25 cid)
         else if ls_rank cand \<noteq> expected then Inl (InvalidLexicalRank cid expected (ls_rank cand))
         else if \<not> bt_contains chunks cid then Inl (MissingChunkMetadata cid)
         else if bt_contains seen cid then Inl (DuplicateLexicalCandidate cid)
         else (case previous of
                 Some (previous_score, previous_id) \<Rightarrow>
                   if f64_lt (ls_bm25 cand) previous_score then Inl (LexicalOrder previous_id cid)
                   else Inr (bt_insert cid () seen, Some (ls_bm25 cand, cid))
               | None \<Rightarrow> Inr (bt_insert cid () seen, Some (ls_bm25 cand, cid))))"

definition validate_lexical ::
  "lexical_score list \<Rightarrow> (chunk_id, chunk_metadata) btree \<Rightarrow> (search_error, unit) result" where
  "validate_lexical lexical chunks =
     res_map (\<lambda>_. ()) (try_fold (lexical_step chunks) ([], None) (enumerate 0 lexical))"

definition statistics_step ::
  "(ustr, unit) btree \<Rightarrow> term_frequency \<Rightarrow> (search_error, (ustr, unit) btree) result" where
  "statistics_step actual frequency =
     (let t = map to_ascii_lowercase (tf_term frequency)
      in if bt_contains actual t then Inl (DuplicateSnippetTerm t) else Inr (bt_insert t () actual))"

definition validate_statistics ::
  "unicode \<Rightarrow> ustr \<Rightarrow> snippet_statistics \<Rightarrow> nat \<Rightarrow> (search_error, unit) result" where
  "validate_statistics U query statistics chunk_count =
     (if total_chunks statistics \<noteq> chunk_count
      then Inl (SnippetChunkCountMismatch chunk_count (total_chunks statistics))
      else res_bind (try_fold statistics_step [] (frequencies statistics)) (\<lambda>actual.
        if total_chunks statistics = 0 then Inr ()
        else let expected = fold (\<lambda>t. bt_insert t ()) (query_terms U query) []
             in if bt_keys expected \<noteq> bt_keys actual
                then Inl (SnippetTermsMismatch (bt_keys expected) (bt_keys actual)) else Inr ()))"

subsection \<open>Composition\<close>

definition search_chunk ::
  "(chunk_id, chunk_metadata) btree \<Rightarrow> chunk_id \<Rightarrow> (search_error, selected_chunk_rec) result" where
  "search_chunk chunks cid =
     (case bt_get chunks cid of
        None \<Rightarrow> Inl (MissingChunkMetadata cid)
      | Some chunk \<Rightarrow> Inr \<lparr> sch_ordinal = ordinal cid, sch_text = cm_text chunk \<rparr>)"

definition explanation_of :: "hybrid_ranked_page \<Rightarrow> hit_explanation" where
  "explanation_of hit =
     \<lparr> he_dense_rank = Some (hrp_dense_rank hit), he_bm25_rank = hrp_lexical_rank hit,
       he_rrf_score = map_option rrf_total (hrp_fusion hit),
       he_contributions =
         (case hrp_fusion hit of None \<Rightarrow> []
          | Some score \<Rightarrow> map (\<lambda>c. \<lparr> rk_source = rc_source c, rk_rank = rc_rank c, rk_weight = rc_weight c,
                                     rk_score = rc_score c \<rparr>) (contributions score)) \<rparr>"

definition ranked_hit_of ::
  "(page_id, page_metadata) btree \<Rightarrow> (chunk_id, chunk_metadata) btree \<Rightarrow> nat \<times> hybrid_ranked_page
     \<Rightarrow> (search_error, ranked_hit) result" where
  "ranked_hit_of pages chunks ih =
     (let (index, hit) = ih
      in res_bind (ok_or (MissingPageMetadata (hrp_page hit)) (bt_get pages (hrp_page hit))) (\<lambda>page.
         res_bind (search_chunk chunks (drp_chunk (hrp_dense hit))) (\<lambda>dense_chunk.
         res_bind (case hrp_lexical_chunk hit of None \<Rightarrow> Inr None
                   | Some cid \<Rightarrow> res_map Some (search_chunk chunks cid)) (\<lambda>lexical_chunk.
           Inr \<lparr> rh_name = pm_name page, rh_path = page_as_str (pm_id page), rh_dense_chunk = dense_chunk,
                 rh_lexical_chunk = lexical_chunk, rh_score = drp_score (hrp_dense hit),
                 rh_final_rank = index + 1, rh_explanation = explanation_of hit, rh_labels = pm_labels page \<rparr>))))"

definition lexical_leader_of :: "dense_ranked_page list \<Rightarrow> chunk_id list \<Rightarrow> ustr option" where
  "lexical_leader_of dense lexical =
     map_option (\<lambda>c. page_as_str (chunk_page c))
       (find (\<lambda>c. chunk_page c \<in> set (map drp_page dense)) (take CANDIDATES (retain_first chunk_page [] lexical)))"

definition search_hit_of ::
  "unicode \<Rightarrow> weighted_term list \<Rightarrow> selected_hit_rec \<Rightarrow> (search_error, search_hit) result" where
  "search_hit_of U weights hit =
     res_bind (map_err SearchSnippet (snippet U (sch_text (sh_chunk hit)) weights SNIPPET_WIDTH SNIPPET_GAIN)) (\<lambda>window.
     res_bind (map_err SearchRank (normalize_score (score_get (sh_score hit)))) (\<lambda>score.
       Inr \<lparr> srh_name = sh_name hit, srh_path = sh_path hit, srh_score = score,
             srh_text = sch_text (sh_chunk hit), srh_snippet = snippet_text window,
             srh_clipped_start = clipped_start window, srh_clipped_end = clipped_end window,
             srh_corpus = pl_corpus (sh_labels hit), srh_status = pl_status (sh_labels hit),
             srh_project = pl_project (sh_labels hit), srh_exact = sh_exact hit \<rparr>))"

definition empty_response :: "ustr \<Rightarrow> gate_mode \<Rightarrow> search_response" where
  "empty_response query mode =
     \<lparr> sp_query = query, sp_hits = [],
       sp_explanation = \<lparr> sx_query = query, sx_applied = (mode = Apply), sx_gate = None, sx_hits = [] \<rparr>,
       sp_exit_code = ExitEmpty \<rparr>"

definition compose_validated ::
  "unicode \<Rightarrow> (f64 \<Rightarrow> f64) \<Rightarrow> search_request \<Rightarrow> (page_id, page_metadata) btree
     \<Rightarrow> (chunk_id, chunk_metadata) btree \<Rightarrow> dense_ranked_page list \<Rightarrow> (search_error, search_response) result" where
  "compose_validated U ln_1p request page_by_id chunk_by_id dense =
     (let lexical = map ls_id (sr_lexical request);
          cfg = sr_selection request;
          query = sr_query request
      in res_bind (map_err SearchRank (hybrid_rank dense lexical (length dense + CANDIDATES))) (\<lambda>rows.
         res_bind (try_map (ranked_hit_of page_by_id chunk_by_id) (enumerate 0 rows)) (\<lambda>ranked.
           let literal = map (\<lambda>c. \<lparr> lc_path = page_as_str (chunk_page (cm_id c)), lc_ordinal = ordinal (cm_id c),
                                    lc_text = cm_text c \<rparr>) (sr_chunks request);
               leader = lexical_leader_of dense lexical
           in res_bind (map_err (\<lambda>_. SearchPanic)
                (selection_config_new (cfg_limit cfg) (cfg_min_score cfg) (cfg_max_gap cfg) Bypass)) (\<lambda>bypass.
              let baseline = (case dense of [] \<Rightarrow> None | d # _ \<Rightarrow> Some (drp_score d))
              in res_bind (map_err SearchSelection (select query baseline ranked literal leader bypass)) (\<lambda>ungated.
                 res_bind (if cfg_gate_mode cfg = Bypass then Inr ungated
                           else map_err SearchSelection (select query baseline ranked literal leader cfg)) (\<lambda>outcome.
                 res_bind (map_err SearchSnippet (term_weights U ln_1p (sr_statistics request))) (\<lambda>weights.
                 res_bind (try_map (search_hit_of U weights) (so_hits outcome)) (\<lambda>hits.
                   Inr \<lparr> sp_query = query, sp_hits = hits,
                         sp_explanation =
                           \<lparr> sx_query = query, sx_applied = so_applied outcome, sx_gate = so_gate outcome,
                             sx_hits = bt_collect (map (\<lambda>h. (sh_path h, sh_explanation h)) (so_hits ungated)) \<rparr>,
                         sp_exit_code = so_exit_code outcome \<rparr>))))))))"

definition compose_search ::
  "unicode \<Rightarrow> (f64 \<Rightarrow> f64) \<Rightarrow> search_request \<Rightarrow> (search_error, search_response) result" where
  "compose_search U ln_1p request =
     res_bind (try_fold page_step [] (sr_pages request)) (\<lambda>page_by_id.
     res_bind (try_fold (chunk_step page_by_id) [] (sr_chunks request)) (\<lambda>chunk_by_id.
     res_bind (validate_dense (sr_dense request) chunk_by_id) (\<lambda>_.
     res_bind (validate_lexical (sr_lexical request) chunk_by_id) (\<lambda>_.
     res_bind (validate_statistics U (sr_query request) (sr_statistics request) (length (sr_chunks request))) (\<lambda>_.
     res_bind (map_err SearchRank (dense_rank (sr_query_embedding request) (sr_dense request))) (\<lambda>dense.
       if dense = [] then Inr (empty_response (sr_query request) (cfg_gate_mode (sr_selection request)))
       else compose_validated U ln_1p request page_by_id chunk_by_id dense))))))"

subsection \<open>Specification\<close>

text \<open>A request whose parts the validators accept and whose vectors can be compared.\<close>

definition request_valid ::
  "unicode \<Rightarrow> search_request \<Rightarrow> (page_id, page_metadata) btree \<Rightarrow> (chunk_id, chunk_metadata) btree \<Rightarrow> bool" where
  "request_valid U request pages chunks =
     (try_fold page_step [] (sr_pages request) = Inr pages
      \<and> try_fold (chunk_step pages) [] (sr_chunks request) = Inr chunks
      \<and> validate_dense (sr_dense request) chunks = Inr ()
      \<and> validate_lexical (sr_lexical request) chunks = Inr ()
      \<and> validate_statistics U (sr_query request) (sr_statistics request) (length (sr_chunks request)) = Inr ()
      \<and> is_ok (selection_config_new (cfg_limit (sr_selection request)) (cfg_min_score (sr_selection request))
                 (cfg_max_gap (sr_selection request)) (cfg_gate_mode (sr_selection request)))
      \<and> (\<forall>v \<in> set (sr_query_embedding request). f64_wf v)
      \<and> (\<forall>c \<in> set (sr_dense request). (\<exists>s. cosine (sr_query_embedding request) (dc_vector c) = Inr s)
           \<and> (\<forall>v \<in> set (dc_vector c). f64_wf v))
      \<and> total_chunks (sr_statistics request) < 2 ^ 64
      \<and> (\<forall>f \<in> set (frequencies (sr_statistics request)). validate_term U (tf_term f) = Inr ()
           \<and> matching_chunks f \<le> total_chunks (sr_statistics request)
           \<and> (\<forall>c \<in> set (tf_term f). lowercase U c = [c])))"

text \<open>A small request that passes every check.\<close>

definition sample_request :: search_request where
  "sample_request =
     \<lparr> sr_query = lit ''keys'', sr_query_embedding = [f64_one],
       sr_pages = [\<lparr> pm_id = PageId [lit ''a''], pm_name = lit ''A'',
                     pm_labels = \<lparr> pl_corpus = None, pl_status = None, pl_project = None \<rparr> \<rparr>],
       sr_chunks = [\<lparr> cm_id = ChunkId (PageId [lit ''a'']) 0, cm_text = lit ''sort keys'' \<rparr>],
       sr_dense = [\<lparr> dc_id = ChunkId (PageId [lit ''a'']) 0, dc_vector = [f64_one] \<rparr>],
       sr_lexical = [\<lparr> ls_id = ChunkId (PageId [lit ''a'']) 0, ls_bm25 = f64_neg_one, ls_rank = 1 \<rparr>],
       sr_statistics = \<lparr> total_chunks = 1, frequencies = [\<lparr> tf_term = lit ''keys'', matching_chunks = 1 \<rparr>] \<rparr>,
       sr_selection = \<lparr> cfg_limit = 3, cfg_min_score = f64_zero, cfg_max_gap = f64_zero, cfg_gate_mode = Apply \<rparr> \<rparr>"

section \<open>Lemmas\<close>

subsection \<open>Validation\<close>

lemma bt_insert_contains: "bt_wf m \<Longrightarrow> bt_contains (bt_insert k v m) q \<longleftrightarrow> q = k \<or> bt_contains m q"
  by (auto simp: bt_contains_iff bt.get_ins)

lemma page_fold:
  assumes "try_fold page_step m ps = Inr m'" "bt_wf m"
  shows "bt_wf m' \<and> distinct (map pm_id ps)
    \<and> (\<forall>k x. bt_get m' k = Some x \<longleftrightarrow> bt_get m k = Some x \<or> x \<in> set ps \<and> pm_id x = k)
    \<and> (\<forall>p \<in> set ps. \<not> bt_contains m (pm_id p))"
  using assms
proof (induction ps arbitrary: m)
  case (Cons p ps)
  obtain m1 where m1: "page_step m p = Inr m1" "try_fold page_step m1 ps = Inr m'"
    using Cons.prems(1) by (auto split: sum.splits)
  have st: "\<not> bt_contains m (pm_id p)" "m1 = bt_insert (pm_id p) p m"
    using m1(1) by (auto simp: page_step_def split: if_splits)
  have wf1: "bt_wf m1" using st Cons.prems(2) by (simp add: bt.wf_ins)
  note ih = Cons.IH [OF m1(2) wf1]
  have "\<forall>q \<in> set ps. \<not> bt_contains m (pm_id q) \<and> pm_id q \<noteq> pm_id p"
    using ih st(2) Cons.prems(2) by (auto simp: bt_insert_contains)
  moreover have "bt_get m1 k = Some x \<longleftrightarrow> bt_get m k = Some x \<or> x = p \<and> pm_id x = k" for k x
    using st Cons.prems(2) by (auto simp: bt.get_ins bt_contains_iff)
  ultimately show ?case using ih st by auto
qed simp

lemma chunk_fold:
  assumes "try_fold (chunk_step pages) m cs = Inr m'" "bt_wf m"
  shows "bt_wf m' \<and> distinct (map cm_id cs)
    \<and> (\<forall>k x. bt_get m' k = Some x \<longleftrightarrow> bt_get m k = Some x \<or> x \<in> set cs \<and> cm_id x = k)
    \<and> (\<forall>c \<in> set cs. \<not> bt_contains m (cm_id c) \<and> bt_contains pages (chunk_page (cm_id c)))"
  using assms
proof (induction cs arbitrary: m)
  case (Cons p ps)
  obtain m1 where m1: "chunk_step pages m p = Inr m1" "try_fold (chunk_step pages) m1 ps = Inr m'"
    using Cons.prems(1) by (auto split: sum.splits)
  have st: "\<not> bt_contains m (cm_id p)" "m1 = bt_insert (cm_id p) p m" "bt_contains pages (chunk_page (cm_id p))"
    using m1(1) by (auto simp: chunk_step_def split: if_splits)
  have wf1: "bt_wf m1" using st Cons.prems(2) by (simp add: bt.wf_ins)
  note ih = Cons.IH [OF m1(2) wf1]
  have "\<forall>q \<in> set ps. \<not> bt_contains m (cm_id q) \<and> cm_id q \<noteq> cm_id p"
    using ih st(2) Cons.prems(2) by (auto simp: bt_insert_contains)
  moreover have "bt_get m1 k = Some x \<longleftrightarrow> bt_get m k = Some x \<or> x = p \<and> cm_id x = k" for k x
    using st Cons.prems(2) by (auto simp: bt.get_ins bt_contains_iff)
  ultimately show ?case using ih st by auto
qed simp

lemma dense_fold:
  assumes "try_fold (dense_step chunks) m ds = Inr m'" "bt_wf m"
  shows "bt_wf m' \<and> (\<forall>k. bt_contains m' k \<longleftrightarrow> bt_contains m k \<or> k \<in> dc_id ` set ds)
    \<and> distinct (map dc_id ds) \<and> (\<forall>d \<in> set ds. bt_contains chunks (dc_id d) \<and> \<not> bt_contains m (dc_id d))"
  using assms
proof (induction ds arbitrary: m)
  case (Cons d ds)
  obtain m1 where m1: "dense_step chunks m d = Inr m1" "try_fold (dense_step chunks) m1 ds = Inr m'"
    using Cons.prems(1) by (auto split: sum.splits)
  have st: "bt_contains chunks (dc_id d)" "\<not> bt_contains m (dc_id d)" "m1 = bt_insert (dc_id d) () m"
    using m1(1) by (auto simp: dense_step_def split: if_splits)
  have wf1: "bt_wf m1" using st Cons.prems(2) by (simp add: bt.wf_ins)
  show ?case using Cons.IH [OF m1(2) wf1] st Cons.prems(2) by (auto simp: bt_insert_contains)
qed simp

lemma validate_dense_Inr:
  assumes "validate_dense ds chunks = Inr u"
  shows "distinct (map dc_id ds)" "set (map dc_id ds) = set (bt_keys chunks)"
proof -
  obtain m where m: "try_fold (dense_step chunks) [] ds = Inr m" "find (\<lambda>c. \<not> bt_contains m c) (bt_keys chunks) = None"
    using assms by (auto simp: validate_dense_def res_bind_Inr_iff split: option.splits)
  note f = dense_fold [OF m(1) bt.wf_empty]
  have e: "\<not> bt_contains ([] :: (chunk_id, unit) btree) k" for k by (simp add: bt_contains_def)
  have "\<forall>c \<in> set (bt_keys chunks). c \<in> dc_id ` set ds" using m(2) f e by (auto simp: find_None_iff)
  moreover have "\<forall>d \<in> set ds. dc_id d \<in> set (bt_keys chunks)" using f by (auto simp: bt_contains_def bt_keys_def)
  ultimately show "set (map dc_id ds) = set (bt_keys chunks)" by auto
  show "distinct (map dc_id ds)" using f by blast
qed

lemma lexical_fold:
  assumes "try_fold (lexical_step chunks) st (enumerate n ls) = Inr st'"
  shows "\<forall>l \<in> set ls. bt_contains chunks (ls_id l) \<and> is_finite (ls_bm25 l)"
    and "map ls_rank ls = [Suc n ..< Suc n + length ls]"
  using assms
proof (induction ls arbitrary: st n)
  case (Cons l ls)
  {
    case 1
    then obtain st1 where s: "lexical_step chunks st (n, l) = Inr st1" "try_fold (lexical_step chunks) st1 (enumerate (Suc n) ls) = Inr st'"
      by (auto split: sum.splits)
    then have "bt_contains chunks (ls_id l) \<and> is_finite (ls_bm25 l)"
      by (auto simp: lexical_step_def Let_def split: if_splits prod.splits)
    with Cons.IH(1) [OF s(2)] show ?case by simp
  next
    case 2
    then obtain st1 where s: "lexical_step chunks st (n, l) = Inr st1" "try_fold (lexical_step chunks) st1 (enumerate (Suc n) ls) = Inr st'"
      by (auto split: sum.splits)
    then have "ls_rank l = Suc n" by (auto simp: lexical_step_def Let_def split: if_splits prod.splits)
    moreover have "[Suc n ..< Suc n + length (l # ls)] = Suc n # [Suc (Suc n) ..< Suc (Suc n) + length ls]"
      by (subst upt_conv_Cons) auto
    ultimately show ?case using Cons.IH(2) [OF s(2)] by (simp del: upt_Suc)
  }
qed auto

lemma validate_lexical_Inr:
  "validate_lexical ls chunks = Inr u \<Longrightarrow> l \<in> set ls \<Longrightarrow> bt_contains chunks (ls_id l)"
  using lexical_fold(1) [of chunks "([], None)" 0 ls]
  by (auto simp: validate_lexical_def res_map_def split: sum.splits)

lemma statistics_fold:
  assumes "try_fold statistics_step m fs = Inr m'" "bt_wf m"
  shows "distinct (map tf_term fs) \<and> (\<forall>f \<in> set fs. \<not> bt_contains m (map to_ascii_lowercase (tf_term f)))"
  using assms
proof (induction fs arbitrary: m)
  case (Cons f fs)
  obtain m1 where m1: "statistics_step m f = Inr m1" "try_fold statistics_step m1 fs = Inr m'"
    using Cons.prems(1) by (auto split: sum.splits)
  have st: "\<not> bt_contains m (map to_ascii_lowercase (tf_term f))" "m1 = bt_insert (map to_ascii_lowercase (tf_term f)) () m"
    using m1(1) by (auto simp: statistics_step_def Let_def split: if_splits)
  have wf1: "bt_wf m1" using st Cons.prems(2) by (simp add: bt.wf_ins)
  show ?case using Cons.IH [OF m1(2) wf1] st Cons.prems(2) by (auto simp: bt_insert_contains)
qed simp

subsection \<open>Composition\<close>

lemma search_chunk_total: "bt_contains chunks c \<Longrightarrow> \<exists>s. search_chunk chunks c = Inr s"
  by (auto simp: search_chunk_def bt_contains_iff)

lemma ranked_hit_of_total:
  assumes "bt_contains pages (hrp_page h)" "bt_contains chunks (drp_chunk (hrp_dense h))"
    "\<forall>c. hrp_lexical_chunk h = Some c \<longrightarrow> bt_contains chunks c"
  shows "\<exists>r. ranked_hit_of pages chunks (i, h) = Inr r"
proof -
  obtain p where p: "bt_get pages (hrp_page h) = Some p" using assms(1) by (auto simp: bt_contains_iff)
  obtain d where d: "search_chunk chunks (drp_chunk (hrp_dense h)) = Inr d" using search_chunk_total [OF assms(2)] by blast
  show ?thesis
  proof (cases "hrp_lexical_chunk h")
    case None
    with p d show ?thesis by (simp add: ranked_hit_of_def)
  next
    case (Some c)
    then obtain l where "search_chunk chunks c = Inr l" using search_chunk_total assms(3) by blast
    with Some p d show ?thesis by (simp add: ranked_hit_of_def)
  qed
qed

lemma ranked_hit_of_Inr:
  assumes "ranked_hit_of pages chunks (i, h) = Inr r"
  shows "\<exists>p. bt_get pages (hrp_page h) = Some p \<and> rh_path r = page_as_str (pm_id p)"
    "rh_score r = drp_score (hrp_dense h)" "rh_final_rank r = i + 1" "rh_explanation r = explanation_of h"
  using assms by (auto simp: ranked_hit_of_def res_bind_Inr_iff)

lemma hybrid_row_lexical:
  assumes "hybrid_row_ok dense lexical h" "hrp_lexical_chunk h = Some c"
  shows "c \<in> set lexical"
proof -
  obtain r where r: "1 \<le> r" "r \<le> length (lexical_pages lexical)" "c = lexical_pages lexical ! (r - 1)"
    using assms by (auto simp: hybrid_row_ok_def split: option.splits)
  then have "c \<in> set (lexical_pages lexical)" by simp
  then show ?thesis using retain_first_subset [of chunk_page "[]" lexical] by (auto simp: lexical_pages_def dest!: in_set_takeD)
qed

lemma explanation_valid:
  assumes "hybrid_row_ok dense lexical h" "\<forall>s. hrp_fusion h = Some s \<longrightarrow> fusion_ok s"
    and "rh_explanation r = explanation_of h" "0 < rh_final_rank r"
  shows "validate_hit r = Inr ()"
proof -
  have "hrp_lexical_rank h \<noteq> Some 0" "0 < hrp_dense_rank h"
    using assms(1) by (auto simp: hybrid_row_ok_def split: option.splits)
  then show ?thesis
    using assms(2-4)
    by (cases "hrp_fusion h")
       (auto simp: validate_hit_def explanation_of_def Let_def list_ex_iff fusion_ok_def simp del: f64_lt_finite)
qed

lemma select_total:
  assumes "\<forall>h \<in> set ranked. validate_hit h = Inr ()" "baseline \<noteq> None"
  shows "\<exists>out. select query baseline ranked chunks leader config = Inr out"
proof -
  have "try_map validate_hit ranked = Inr (map (\<lambda>_. ()) ranked)" using assms(1) by (intro try_map_total) auto
  then show ?thesis using assms(2) by (auto simp: select_def Let_def split: prod.splits)
qed

text \<open>The bypassed selection shows every hit that any gate may keep.\<close>

lemma select_shown:
  assumes "select query baseline ranked chunks leader config = Inr out"
    and "select query baseline ranked chunks leader config' = Inr out'"
    and "cfg_limit config' = cfg_limit config" "cfg_gate_mode config' = Bypass"
  shows "set (so_hits out) \<subseteq> set (so_hits out')"
  using select_Inr(3) [OF assms(1)] select_Inr(3) [OF assms(2)] assms(3,4)
  by (cases baseline) (auto simp: apply_gate_kept)

lemma select_hit_scores:
  assumes "select query baseline ranked chunks leader config = Inr out" "h \<in> set (so_hits out)"
  shows "\<exists>r \<in> set ranked. sh_score h = rh_score r"
proof -
  define m where "m = exact_identifier_match query leader chunks"
  define selected where "selected = map (selected_hit m chunks) (collapse_hits ranked)"
  define pos where "pos = (case m of None \<Rightarrow> None | Some e \<Rightarrow> position (\<lambda>h. sh_path h = em_path e) selected)"
  define shown where "shown = rescue_shown (cfg_limit config) pos selected"
  note o = select_Inr(3) [OF assms(1), folded m_def, folded selected_def, folded pos_def, folded shown_def]
  have "h \<in> set shown" using assms(2) o by (cases baseline) (auto simp: apply_gate_kept split: if_splits)
  moreover have "\<forall>i. pos = Some i \<longrightarrow> i < length selected"
    using position_Some by (auto simp: pos_def split: option.splits)
  ultimately have "sh_score h \<in> sh_score ` set selected"
    unfolding shown_def using rescue_shown_scores by blast
  then show ?thesis
    using retain_first_subset [of rh_path "[]" "sort_by hit_cmp ranked"] by (auto simp: selected_def collapse_hits_def)
qed

lemma search_hit_of_Inr:
  assumes "search_hit_of U weights hit = Inr r"
  shows "srh_path r = sh_path hit" "srh_exact r = sh_exact hit" "srh_text r = sch_text (sh_chunk hit)"
    "\<exists>w. snippet U (srh_text r) weights SNIPPET_WIDTH SNIPPET_GAIN = Inr w \<and> srh_snippet r = snippet_text w"
  using assms by (auto simp: search_hit_of_def res_bind_Inr_iff)

text \<open>What a successful composition went through.\<close>

lemma compose_validated_Inr:
  assumes "compose_validated U ln_1p request pages chunks dense = Inr resp" "dense \<noteq> []"
  obtains rows ranked bypass ungated outcome weights where
    "hybrid_rank dense (map ls_id (sr_lexical request)) (length dense + CANDIDATES) = Inr rows"
    "try_map (ranked_hit_of pages chunks) (enumerate 0 rows) = Inr ranked"
    "selection_config_new (cfg_limit (sr_selection request)) (cfg_min_score (sr_selection request))
       (cfg_max_gap (sr_selection request)) Bypass = Inr bypass"
    "select (sr_query request) (Some (drp_score (hd dense))) ranked
       (map (\<lambda>c. \<lparr> lc_path = page_as_str (chunk_page (cm_id c)), lc_ordinal = ordinal (cm_id c), lc_text = cm_text c \<rparr>)
         (sr_chunks request)) (lexical_leader_of dense (map ls_id (sr_lexical request))) bypass = Inr ungated"
    "(if cfg_gate_mode (sr_selection request) = Bypass then Inr ungated
      else select (sr_query request) (Some (drp_score (hd dense))) ranked
       (map (\<lambda>c. \<lparr> lc_path = page_as_str (chunk_page (cm_id c)), lc_ordinal = ordinal (cm_id c), lc_text = cm_text c \<rparr>)
         (sr_chunks request)) (lexical_leader_of dense (map ls_id (sr_lexical request))) (sr_selection request)) = Inr outcome"
    "term_weights U ln_1p (sr_statistics request) = Inr weights"
    "try_map (search_hit_of U weights) (so_hits outcome) = Inr (sp_hits resp)"
    "sp_exit_code resp = so_exit_code outcome"
    "sx_hits (sp_explanation resp) = bt_collect (map (\<lambda>h. (sh_path h, sh_explanation h)) (so_hits ungated))"
proof -
  obtain d ds where d: "dense = d # ds" using assms(2) by (cases dense) auto
  let ?lit = "map (\<lambda>c. \<lparr> lc_path = page_as_str (chunk_page (cm_id c)), lc_ordinal = ordinal (cm_id c), lc_text = cm_text c \<rparr>)
         (sr_chunks request)"
  let ?sel = "\<lambda>ranked. select (sr_query request) (Some (drp_score d)) ranked ?lit
     (lexical_leader_of dense (map ls_id (sr_lexical request)))"
  obtain rows ranked bypass ungated outcome weights hits where g:
    "hybrid_rank dense (map ls_id (sr_lexical request)) (length dense + CANDIDATES) = Inr rows"
    "try_map (ranked_hit_of pages chunks) (enumerate 0 rows) = Inr ranked"
    "selection_config_new (cfg_limit (sr_selection request)) (cfg_min_score (sr_selection request))
       (cfg_max_gap (sr_selection request)) Bypass = Inr bypass"
    "?sel ranked bypass = Inr ungated"
    "(if cfg_gate_mode (sr_selection request) = Bypass then Inr ungated
      else map_err SearchSelection (?sel ranked (sr_selection request))) = Inr outcome"
    "term_weights U ln_1p (sr_statistics request) = Inr weights"
    "try_map (search_hit_of U weights) (so_hits outcome) = Inr hits"
    "resp = \<lparr> sp_query = sr_query request, sp_hits = hits,
       sp_explanation = \<lparr> sx_query = sr_query request, sx_applied = so_applied outcome, sx_gate = so_gate outcome,
         sx_hits = bt_collect (map (\<lambda>h. (sh_path h, sh_explanation h)) (so_hits ungated)) \<rparr>,
       sp_exit_code = so_exit_code outcome \<rparr>"
    using assms(1) unfolding compose_validated_def Let_def res_bind_Inr_iff map_err_Inr_iff d list.case sum.inject by blast
  have g5: "(if cfg_gate_mode (sr_selection request) = Bypass then Inr ungated
      else ?sel ranked (sr_selection request)) = Inr outcome"
    using g(5) by (auto split: if_splits)
  have hd: "hd dense = d" by (simp add: d)
  show thesis
    by (rule that [OF g(1-3), unfolded hd, OF g(4) g5 g(6)]) (use g(7,8) in simp_all)
qed

lemma compose_validated_ok:
  fixes ranked :: "ranked_hit list"
  assumes "dense \<noteq> []"
    "hybrid_rank dense (map ls_id (sr_lexical request)) (length dense + CANDIDATES) = Inr rows"
    "try_map (ranked_hit_of pages chunks) (enumerate 0 rows) = Inr ranked"
    "selection_config_new (cfg_limit (sr_selection request)) (cfg_min_score (sr_selection request))
       (cfg_max_gap (sr_selection request)) Bypass = Inr bypass"
    "term_weights U ln_1p (sr_statistics request) = Inr ws"
  and sel: "\<And>cfg. \<exists>out. select (sr_query request) (Some (drp_score (hd dense))) ranked
       (map (\<lambda>c. \<lparr> lc_path = page_as_str (chunk_page (cm_id c)), lc_ordinal = ordinal (cm_id c), lc_text = cm_text c \<rparr>)
         (sr_chunks request)) (lexical_leader_of dense (map ls_id (sr_lexical request))) cfg = Inr out"
  and hits: "\<And>cfg out. select (sr_query request) (Some (drp_score (hd dense))) ranked
       (map (\<lambda>c. \<lparr> lc_path = page_as_str (chunk_page (cm_id c)), lc_ordinal = ordinal (cm_id c), lc_text = cm_text c \<rparr>)
         (sr_chunks request)) (lexical_leader_of dense (map ls_id (sr_lexical request))) cfg = Inr out
       \<Longrightarrow> \<exists>hs. try_map (search_hit_of U ws) (so_hits out) = Inr hs"
  shows "\<exists>resp. compose_validated U ln_1p request pages chunks dense = Inr resp"
proof -
  obtain d ds where d: "dense = d # ds" using assms(1) by (cases dense) auto
  have hd: "hd dense = d" "(case dense of [] \<Rightarrow> None | d # _ \<Rightarrow> Some (drp_score d)) = Some (drp_score d)"
    by (simp_all add: d)
  let ?sel = "\<lambda>cfg. select (sr_query request) (Some (drp_score d)) ranked
       (map (\<lambda>c. \<lparr> lc_path = page_as_str (chunk_page (cm_id c)), lc_ordinal = ordinal (cm_id c), lc_text = cm_text c \<rparr>)
         (sr_chunks request)) (lexical_leader_of dense (map ls_id (sr_lexical request))) cfg"
  obtain u where u: "?sel bypass = Inr u" using sel unfolding hd by blast
  obtain o' where o: "?sel (sr_selection request) = Inr o'" using sel unfolding hd by blast
  obtain hu ho where "try_map (search_hit_of U ws) (so_hits u) = Inr hu" "try_map (search_hit_of U ws) (so_hits o') = Inr ho"
    using hits unfolding hd using u o by meson
  with assms(2-5) u o show ?thesis
    unfolding compose_validated_def Let_def hd by (cases "cfg_gate_mode (sr_selection request) = Bypass") simp_all
qed

lemma compose_search_Inr:
  assumes "compose_search U ln_1p request = Inr resp"
  obtains pages chunks dense where
    "try_fold page_step [] (sr_pages request) = Inr pages"
    "try_fold (chunk_step pages) [] (sr_chunks request) = Inr chunks"
    "validate_dense (sr_dense request) chunks = Inr ()"
    "validate_lexical (sr_lexical request) chunks = Inr ()"
    "dense_rank (sr_query_embedding request) (sr_dense request) = Inr dense"
    "dense = [] \<Longrightarrow> resp = empty_response (sr_query request) (cfg_gate_mode (sr_selection request))"
    "dense \<noteq> [] \<Longrightarrow> compose_validated U ln_1p request pages chunks dense = Inr resp"
  using assms unfolding compose_search_def res_bind_Inr_iff map_err_Inr_iff
  by (auto split: if_splits intro: that)

lemma rows_paths:
  assumes "try_map (ranked_hit_of pages chunks) (enumerate 0 rows) = Inr ranked" "r \<in> set ranked"
  shows "\<exists>p k. bt_get pages k = Some p \<and> rh_path r = page_as_str (pm_id p)"
  using try_map_Inr_set [OF assms] ranked_hit_of_Inr(1) by (metis prod.exhaust)

subsection \<open>Totality\<close>

lemma valid_rows:
  assumes v: "request_valid U request pages chunks"
    and d: "dense_rank (sr_query_embedding request) (sr_dense request) = Inr dense"
    and rows: "hybrid_rank dense (map ls_id (sr_lexical request)) limit = Inr rows"
  obtains ranked where "try_map (ranked_hit_of pages chunks) (enumerate 0 rows) = Inr ranked"
    "\<forall>r \<in> set ranked. validate_hit r = Inr () \<and> (\<exists>n. normalize_score (score_get (rh_score r)) = Inr n)"
proof -
  have dr: "drp_chunk r \<in> dc_id ` set (sr_dense request) \<and> (\<exists>n. normalize_score (score_get (drp_score r)) = Inr n)"
    if "r \<in> set dense" for r
    using dense_rank_rows [OF d that] v by (auto simp: request_valid_def)
  have keys: "dc_id ` set (sr_dense request) = set (bt_keys chunks)"
    using validate_dense_Inr(2) [of "sr_dense request" chunks "()"] v by (simp add: request_valid_def)
  note cf = chunk_fold [of pages "[]" "sr_chunks request" chunks, OF _ bt.wf_empty]
  have chunk_pages: "bt_contains pages (chunk_page c)" if "bt_contains chunks c" for c
    using that cf v by (auto simp: request_valid_def bt_contains_iff [of chunks] bt.get_empty)
  have row: "hybrid_row_ok dense (map ls_id (sr_lexical request)) h" "\<forall>s. hrp_fusion h = Some s \<longrightarrow> fusion_ok s"
    if "h \<in> set rows" for h
    using hybrid_rank_rows [OF rows that] by auto
  have hd: "hrp_dense h \<in> set dense" if "h \<in> set rows" for h
    using row(1) [OF that] by (auto simp: hybrid_row_ok_def) (metis One_nat_def Suc_le_lessD Suc_pred nth_mem)
  have tot: "\<exists>r. ranked_hit_of pages chunks (i, h) = Inr r" if h: "h \<in> set rows" for i h
  proof (rule ranked_hit_of_total)
    show c: "bt_contains chunks (drp_chunk (hrp_dense h))"
      using dr [OF hd [OF h]] keys by (auto simp: bt_contains_def bt_keys_def)
    show "bt_contains pages (hrp_page h)" using chunk_pages [OF c] by (simp add: hrp_page_def drp_page_def)
    show "\<forall>c. hrp_lexical_chunk h = Some c \<longrightarrow> bt_contains chunks c"
      using hybrid_row_lexical [OF row(1) [OF h]] validate_lexical_Inr [of "sr_lexical request" chunks "()"] v
      by (auto simp: request_valid_def)
  qed
  have "try_map (ranked_hit_of pages chunks) (enumerate 0 rows)
      = Inr (map (\<lambda>ih. projr (ranked_hit_of pages chunks ih)) (enumerate 0 rows))"
  proof (rule try_map_total)
    fix ih assume "ih \<in> set (enumerate 0 rows)"
    then obtain r where "ranked_hit_of pages chunks ih = Inr r" using tot in_set_enumerateD by (metis prod.exhaust)
    then show "ranked_hit_of pages chunks ih = Inr (projr (ranked_hit_of pages chunks ih))" by simp
  qed
  then obtain ranked where ranked: "try_map (ranked_hit_of pages chunks) (enumerate 0 rows) = Inr ranked" by blast
  have "validate_hit r = Inr () \<and> (\<exists>n. normalize_score (score_get (rh_score r)) = Inr n)" if r: "r \<in> set ranked" for r
  proof -
    obtain i h where ih: "(i, h) \<in> set (enumerate 0 rows)" "ranked_hit_of pages chunks (i, h) = Inr r"
      using try_map_Inr_set [OF ranked r] by (metis prod.exhaust)
    then have h: "h \<in> set rows" by (blast dest: in_set_enumerateD)
    show ?thesis
      using explanation_valid [OF row(1) [OF h] row(2) [OF h], of r] ranked_hit_of_Inr(2-4) [OF ih(2)] dr [OF hd [OF h]] by simp
  qed
  with ranked show thesis using that by blast
qed

lemma valid_weights:
  assumes "request_valid U request pages chunks" "log_like ln_1p" "sr_chunks request \<noteq> []"
  shows "\<exists>ws cs. term_weights U ln_1p (sr_statistics request) = Inr ws \<and> canonical_terms U ws = Inr cs"
proof -
  let ?st = "sr_statistics request"
  have st: "\<forall>f \<in> set (frequencies ?st). validate_term U (tf_term f) = Inr () \<and> matching_chunks f \<le> total_chunks ?st
      \<and> (\<forall>c \<in> set (tf_term f). lowercase U c = [c])" "total_chunks ?st < 2 ^ 64"
    and vs: "validate_statistics U (sr_query request) ?st (length (sr_chunks request)) = Inr ()"
    using assms(1) by (auto simp: request_valid_def)
  have tot: "total_chunks ?st = length (sr_chunks request)" using vs by (auto simp: validate_statistics_def split: if_splits)
  have dist: "distinct (map tf_term (frequencies ?st))"
    using vs statistics_fold [OF _ bt.wf_empty, of "frequencies ?st"]
    by (auto simp: validate_statistics_def res_bind_Inr_iff split: if_splits)
  have fl: "fold_lower U (tf_term f) = tf_term f" if "f \<in> set (frequencies ?st)" for f
    using st(1) that by (intro fold_lower_id) blast
  obtain ws where ws: "term_weights U ln_1p ?st = Inr ws"
      "map wt_term ws = map (\<lambda>f. fold_lower U (tf_term f)) (frequencies ?st)"
      "\<forall>w \<in> set ws. f64_contains f64_zero f64_one (weight w)"
    using term_weights_ok [OF assms(2), of ?st U] tot assms(3) st by auto
  have names: "map wt_term ws = map tf_term (frequencies ?st)" unfolding ws(2) using fl by simp
  have w: "\<exists>f \<in> set (frequencies ?st). wt_term t = tf_term f" if "t \<in> set ws" for t
    using that arg_cong [OF names, of set] by force
  then have idw: "fold_lower U (wt_term t) = wt_term t" if "t \<in> set ws" for t using fl that by metis
  have "map (\<lambda>t. fold_lower U (wt_term t)) ws = map wt_term ws" using idw by simp
  then have "distinct (map (\<lambda>t. fold_lower U (wt_term t)) ws)" using dist names by metis
  moreover have "\<forall>t \<in> set ws. validate_term U (wt_term t) = Inr ()" using w st(1) by metis
  ultimately show ?thesis using canonical_terms_total [of U ws] ws by blast
qed

lemma compose_search_valid:
  assumes v: "request_valid U request pages chunks" and l: "log_like ln_1p"
  shows "\<exists>resp. compose_search U ln_1p request = Inr resp"
proof -
  obtain dense where d: "dense_rank (sr_query_embedding request) (sr_dense request) = Inr dense"
    using dense_rank_total [of "sr_dense request" "sr_query_embedding request"] v unfolding request_valid_def by blast
  show ?thesis
  proof (cases "dense = []")
    case True
    with d v show ?thesis by (auto simp: compose_search_def request_valid_def)
  next
    case False
    let ?cfg = "sr_selection request"
    obtain rows where rows: "hybrid_rank dense (map ls_id (sr_lexical request)) (length dense + CANDIDATES) = Inr rows"
      using hybrid_rank_total by blast
    obtain ranked where ranked: "try_map (ranked_hit_of pages chunks) (enumerate 0 rows) = Inr ranked"
      "\<forall>r \<in> set ranked. validate_hit r = Inr () \<and> (\<exists>n. normalize_score (score_get (rh_score r)) = Inr n)"
      using valid_rows [OF v d rows] .
    obtain bypass where b: "selection_config_new (cfg_limit ?cfg) (cfg_min_score ?cfg) (cfg_max_gap ?cfg) Bypass = Inr bypass"
      using v by (auto simp: request_valid_def selection_config_new_def is_ok_def split: if_splits)
    have cs: "sr_chunks request \<noteq> []"
    proof -
      obtain r where "r \<in> set dense" using False by (cases dense) auto
      then have "sr_dense request \<noteq> []" using dense_rank_rows [OF d] v by (auto simp: request_valid_def)
      then show ?thesis
        using v validate_dense_Inr(2) [of "sr_dense request" chunks "()"] by (auto simp: request_valid_def bt_keys_def)
    qed
    obtain ws cns where w: "term_weights U ln_1p (sr_statistics request) = Inr ws" "canonical_terms U ws = Inr cns"
      using valid_weights [OF v l cs] by blast
    have gain: "f64_contains f64_zero f64_one SNIPPET_GAIN" by (simp add: SNIPPET_GAIN_def f64_contains_unit_iff)
    let ?sel = "\<lambda>cfg. select (sr_query request) (Some (drp_score (hd dense))) ranked
       (map (\<lambda>c. \<lparr> lc_path = page_as_str (chunk_page (cm_id c)), lc_ordinal = ordinal (cm_id c), lc_text = cm_text c \<rparr>)
         (sr_chunks request)) (lexical_leader_of dense (map ls_id (sr_lexical request))) cfg"
    have sel: "\<exists>out. ?sel cfg = Inr out" for cfg using ranked(2) by (intro select_total) auto
    have hits: "\<exists>hs. try_map (search_hit_of U ws) (so_hits out) = Inr hs" if o: "?sel cfg = Inr out" for cfg out
    proof -
      have "\<exists>x. search_hit_of U ws h = Inr x" if h: "h \<in> set (so_hits out)" for h
      proof -
        obtain n where n: "normalize_score (score_get (sh_score h)) = Inr n"
          using select_hit_scores [OF o h] ranked(2) by metis
        obtain s where "snippet U (sch_text (sh_chunk h)) ws SNIPPET_WIDTH SNIPPET_GAIN = Inr s"
          using snippet_total [OF w(2) _ gain] by (metis SNIPPET_WIDTH_def zero_less_numeral)
        with n show ?thesis by (simp add: search_hit_of_def)
      qed
      then have "try_map (search_hit_of U ws) (so_hits out) = Inr (map (\<lambda>h. projr (search_hit_of U ws h)) (so_hits out))"
        by (intro try_map_total) force
      then show ?thesis by blast
    qed
    have "\<exists>resp. compose_validated U ln_1p request pages chunks dense = Inr resp"
      using False rows ranked(1) b w(1) sel hits by (rule compose_validated_ok)
    with False d v show ?thesis by (auto simp: compose_search_def request_valid_def)
  qed
qed

lemma sample_valid:
  "request_valid ascii_unicode sample_request
     [(PageId [lit ''a''], hd (sr_pages sample_request))]
     [(ChunkId (PageId [lit ''a'']) 0, hd (sr_chunks sample_request))]"
proof -
  let ?p = "[(PageId [lit ''a''], hd (sr_pages sample_request))]"
  let ?c = "[(ChunkId (PageId [lit ''a'']) 0, hd (sr_chunks sample_request))]"
  have 1: "try_fold page_step [] (sr_pages sample_request) = Inr ?p"
    "try_fold (chunk_step ?p) [] (sr_chunks sample_request) = Inr ?c"
    "validate_dense (sr_dense sample_request) ?c = Inr ()"
    "validate_lexical (sr_lexical sample_request) ?c = Inr ()"
    "validate_statistics ascii_unicode (sr_query sample_request) (sr_statistics sample_request) 1 = Inr ()"
    "validate_term ascii_unicode (lit ''keys'') = Inr ()"
    "\<forall>c \<in> set (lit ''keys''). lowercase ascii_unicode c = [c]"
    by code_simp+
  have 2: "cosine [f64_one] [f64_one] = Inr f64_one"
    by (simp add: cosine_def checked_squared_norm_def f64_zero_def f64_sum_def f64_round_def
        sqrt_mag_1 f64_clamp_def f64_neg_one_def f64_one_def Let_def)
  have 3: "is_ok (selection_config_new 3 f64_zero f64_zero Apply)"
    by (simp add: selection_config_new_def f64_contains_def)
  show ?thesis using 1 2 3 unfolding request_valid_def by (simp add: sample_request_def)
qed

section \<open>Properties\<close>

text \<open>C2: a search response shows at most \<open>limit\<close> hits with distinct paths, all of them paths of pages
  in the request; every hit has an entry in the explanation and a snippet of at most the snippet
  width; the exit code is Ok exactly when hits are shown.\<close>

theorem compose_search_response:
  assumes "compose_search U ln_1p request = Inr resp"
  shows "length (sp_hits resp) \<le> cfg_limit (sr_selection request)
    \<and> distinct (map srh_path (sp_hits resp))
    \<and> set (map srh_path (sp_hits resp)) \<subseteq> (\<lambda>p. page_as_str (pm_id p)) ` set (sr_pages request)
    \<and> (\<forall>h \<in> set (sp_hits resp). bt_contains (sx_hits (sp_explanation resp)) (srh_path h)
         \<and> length (srh_snippet h) \<le> SNIPPET_WIDTH)
    \<and> (sp_exit_code resp = ExitOk \<longleftrightarrow> sp_hits resp \<noteq> [])"
proof -
  obtain pages chunks dense where c:
    "try_fold page_step [] (sr_pages request) = Inr pages"
    "dense = [] \<Longrightarrow> resp = empty_response (sr_query request) (cfg_gate_mode (sr_selection request))"
    "dense \<noteq> [] \<Longrightarrow> compose_validated U ln_1p request pages chunks dense = Inr resp"
    using compose_search_Inr [OF assms] by metis
  show ?thesis
  proof (cases "dense = []")
    case True
    with c(2) show ?thesis by (simp add: empty_response_def)
  next
    case False
    show ?thesis
    proof (rule compose_validated_Inr [OF c(3) [OF False] False])
      fix rows ranked bypass ungated outcome weights
      let ?cfg = "sr_selection request"
      let ?lit = "map (\<lambda>c. \<lparr> lc_path = page_as_str (chunk_page (cm_id c)), lc_ordinal = ordinal (cm_id c), lc_text = cm_text c \<rparr>)
         (sr_chunks request)"
      let ?sel = "\<lambda>cfg. select (sr_query request) (Some (drp_score (hd dense))) ranked ?lit
         (lexical_leader_of dense (map ls_id (sr_lexical request))) cfg"
      assume a: "try_map (ranked_hit_of pages chunks) (enumerate 0 rows) = Inr ranked"
        "selection_config_new (cfg_limit ?cfg) (cfg_min_score ?cfg) (cfg_max_gap ?cfg) Bypass = Inr bypass"
        "?sel bypass = Inr ungated"
        "(if cfg_gate_mode ?cfg = Bypass then Inr ungated else ?sel ?cfg) = Inr outcome"
        "try_map (search_hit_of U weights) (so_hits outcome) = Inr (sp_hits resp)"
        "sp_exit_code resp = so_exit_code outcome"
        "sx_hits (sp_explanation resp) = bt_collect (map (\<lambda>h. (sh_path h, sh_explanation h)) (so_hits ungated))"
      have b: "cfg_limit bypass = cfg_limit ?cfg" "cfg_gate_mode bypass = Bypass"
        using a(2) by (auto simp: selection_config_new_def split: if_splits)
      obtain cfg where cfg: "?sel cfg = Inr outcome" "cfg_limit cfg = cfg_limit ?cfg"
        using a(3,4) b(1) by (cases "cfg_gate_mode ?cfg = Bypass") auto
      note o = select_sound [OF cfg(1)]
      have paths: "map srh_path (sp_hits resp) = map sh_path (so_hits outcome)"
        by (rule try_map_map [OF a(5)]) (rule search_hit_of_Inr(1))
      have sub: "set (so_hits outcome) \<subseteq> set (so_hits ungated)"
        using select_shown [OF cfg(1) a(3)] b cfg(2) by simp
      have len: "length (sp_hits resp) = length (so_hits outcome)" using try_map_length [OF a(5)] .
      have "set (map rh_path ranked) \<subseteq> (\<lambda>p. page_as_str (pm_id p)) ` set (sr_pages request)"
        using rows_paths [OF a(1)] page_fold [OF c(1) bt.wf_empty] by (fastforce simp: bt.get_empty)
      then have "set (map srh_path (sp_hits resp)) \<subseteq> (\<lambda>p. page_as_str (pm_id p)) ` set (sr_pages request)"
        using o unfolding paths by blast
      moreover have "bt_contains (sx_hits (sp_explanation resp)) (srh_path h) \<and> length (srh_snippet h) \<le> SNIPPET_WIDTH"
        if h: "h \<in> set (sp_hits resp)" for h
      proof
        obtain g where g: "g \<in> set (so_hits outcome)" "search_hit_of U weights g = Inr h"
          using try_map_Inr_set [OF a(5) h] by blast
        show "bt_contains (sx_hits (sp_explanation resp)) (srh_path h)"
          using g sub search_hit_of_Inr(1) [OF g(2)] unfolding a(7) bt_collect_contains by force
        show "length (srh_snippet h) \<le> SNIPPET_WIDTH"
          using search_hit_of_Inr(4) [OF g(2)] snippet_width by metis
      qed
      moreover have "length (sp_hits resp) \<le> cfg_limit ?cfg" "distinct (map srh_path (sp_hits resp))"
        using o unfolding len paths cfg(2) by blast+
      moreover have "sp_exit_code resp = ExitOk \<longleftrightarrow> sp_hits resp \<noteq> []"
      proof -
        have "so_exit_code outcome = ExitOk \<longleftrightarrow> so_hits outcome \<noteq> []" using o by blast
        then show ?thesis unfolding a(6) using len by (metis length_0_conv)
      qed
      ultimately show ?thesis by blast
    qed
  qed
qed



theorem compose_search_response_witness:
  "\<exists>resp. compose_search ascii_unicode (\<lambda>x. x) sample_request = Inr resp \<and> length (sp_hits resp) \<le> 3
     \<and> distinct (map srh_path (sp_hits resp))"
proof -
  obtain resp where r: "compose_search ascii_unicode (\<lambda>x. x) sample_request = Inr resp"
    using compose_search_valid [OF sample_valid, of "\<lambda>x. x"] by (auto simp: log_like_def)
  from compose_search_response [OF r] r show ?thesis by (auto simp: sample_request_def)
qed

end
