(* ===== verification/Message.thy ===== *)
theory Message
  imports Rust_Path
begin

text \<open>
  The protocol vocabulary of \<open>yams-protocol/src/message.rs\<close>: bounds, typed operations, the
  derivation of an operation from debug arguments, and the four messages. Durations are in
  nanoseconds.
\<close>

section \<open>Definitions\<close>

definition PROTOCOL_VERSION :: nat where "PROTOCOL_VERSION = 4"
definition ADMISSION_TIMEOUT :: nat where "ADMISSION_TIMEOUT = 2 * 10 ^ 9"
definition COMPLETION_TIMEOUT :: nat where "COMPLETION_TIMEOUT = 10 * 60 * 10 ^ 9"
definition MAX_REQUEST_BYTES :: nat where "MAX_REQUEST_BYTES = 64 * 1024"
definition MAX_RESPONSE_BYTES :: nat where "MAX_RESPONSE_BYTES = 8 * 1024 * 1024"
definition MAX_ARGUMENTS :: nat where "MAX_ARGUMENTS = 256"
definition MAX_ARGUMENT_BYTES :: nat where "MAX_ARGUMENT_BYTES = 16 * 1024"

datatype operation_kind = OpSearch | OpAll | OpIndex | OpStats | OpProjects | OpGc

record service_operation =
  op_kind :: operation_kind
  op_query :: ustr
  op_k :: ustr
  op_json :: bool
  op_full :: bool
  op_no_gate :: bool
  op_explain :: bool
  op_min_score :: "ustr option"
  op_max_gap :: "ustr option"
  op_project :: "ustr option"

fun kind_as_str :: "operation_kind \<Rightarrow> ustr" where
  "kind_as_str OpSearch = lit ''search''"
| "kind_as_str OpAll = lit ''all''"
| "kind_as_str OpIndex = lit ''index''"
| "kind_as_str OpStats = lit ''stats''"
| "kind_as_str OpProjects = lit ''projects''"
| "kind_as_str OpGc = lit ''gc''"

definition kind_parse :: "ustr \<Rightarrow> operation_kind option" where
  "kind_parse s =
     (if s = lit ''search'' then Some OpSearch
      else if s = lit ''all'' then Some OpAll
      else if s = lit ''index'' then Some OpIndex
      else if s = lit ''stats'' then Some OpStats
      else if s = lit ''projects'' then Some OpProjects
      else if s = lit ''gc'' then Some OpGc
      else None)"

definition default_operation :: service_operation where
  "default_operation =
     \<lparr> op_kind = OpSearch, op_query = [], op_k = lit ''5'', op_json = False, op_full = False,
       op_no_gate = False, op_explain = False, op_min_score = None, op_max_gap = None, op_project = None \<rparr>"

definition head_option :: "'a list \<Rightarrow> 'a option" where
  "head_option xs = (case xs of [] \<Rightarrow> None | x # _ \<Rightarrow> Some x)"

function argv_loop :: "bool \<Rightarrow> service_operation \<Rightarrow> ustr list \<Rightarrow> service_operation" where
  "argv_loop after_separator op [] = op"
| "argv_loop after_separator op (a # rest) =
     (if after_separator then argv_loop True (op\<lparr> op_query := a \<rparr>) rest
      else if a = lit ''--'' then argv_loop True op rest
      else if a = lit ''--all'' then argv_loop False (op\<lparr> op_kind := OpAll \<rparr>) rest
      else if a = lit ''--index'' then argv_loop False (op\<lparr> op_kind := OpIndex \<rparr>) rest
      else if a = lit ''--stats'' then argv_loop False (op\<lparr> op_kind := OpStats \<rparr>) rest
      else if a = lit ''--projects'' then argv_loop False (op\<lparr> op_kind := OpProjects \<rparr>) rest
      else if a = lit ''--gc'' then argv_loop False (op\<lparr> op_kind := OpGc \<rparr>) rest
      else if a = lit ''--json'' then argv_loop False (op\<lparr> op_json := True \<rparr>) rest
      else if a = lit ''--full'' then argv_loop False (op\<lparr> op_full := True \<rparr>) rest
      else if a = lit ''--no-gate'' then argv_loop False (op\<lparr> op_no_gate := True \<rparr>) rest
      else if a = lit ''--explain'' then argv_loop False (op\<lparr> op_explain := True \<rparr>) rest
      else if a = lit ''-k''
      then argv_loop False (case rest of [] \<Rightarrow> op | v # _ \<Rightarrow> op\<lparr> op_k := v \<rparr>) (drop 1 rest)
      else if a = lit ''--min-score'' then argv_loop False (op\<lparr> op_min_score := head_option rest \<rparr>) (drop 1 rest)
      else if a = lit ''--max-gap'' then argv_loop False (op\<lparr> op_max_gap := head_option rest \<rparr>) (drop 1 rest)
      else if a = lit ''--project'' then argv_loop False (op\<lparr> op_project := head_option rest \<rparr>) (drop 1 rest)
      else if \<not> prefix [dash] a then argv_loop False (op\<lparr> op_query := a \<rparr>) rest
      else argv_loop False op rest)"
  by pat_completeness auto
termination by (relation "measure (\<lambda>(_, _, argv). length argv)") auto

definition operation_from_argv :: "ustr list \<Rightarrow> service_operation option" where
  "operation_from_argv argv =
     (if list_ex (\<lambda>a. a = lit ''--write'') argv then None
      else Some (argv_loop False default_operation argv))"

record request =
  rq_operation :: service_operation
  rq_argv :: "ustr list"
  rq_cwd :: ustr

definition request_from_argv :: "ustr list \<Rightarrow> ustr \<Rightarrow> request option" where
  "request_from_argv argv cwd =
     map_option (\<lambda>op. \<lparr> rq_operation = op, rq_argv = argv, rq_cwd = cwd \<rparr>) (operation_from_argv argv)"

record accepted =
  ac_request_id :: ustr

record completed =
  co_request_id :: ustr
  co_exit_code :: nat
  co_stdout :: ustr
  co_stderr :: ustr

record rejected =
  rj_code :: ustr
  rj_message :: ustr

datatype message = MRequest request | MAccepted accepted | MCompleted completed | MRejected rejected

subsection \<open>Specification\<close>

text \<open>Every string an operation carries, apart from the default \<open>-k\<close>, was an argument.\<close>

definition strings_from :: "ustr set \<Rightarrow> service_operation \<Rightarrow> bool" where
  "strings_from S op =
     (op_query op \<in> insert [] S \<and> op_k op \<in> insert (lit ''5'') S
      \<and> set_option (op_min_score op) \<subseteq> S \<and> set_option (op_max_gap op) \<subseteq> S \<and> set_option (op_project op) \<subseteq> S)"

section \<open>Lemmas\<close>

lemma kind_parse_as_str [simp]: "kind_parse (kind_as_str k) = Some k"
  by (cases k) (simp_all add: kind_parse_def)

lemma kind_parse_Some: "kind_parse s = Some k \<Longrightarrow> s = kind_as_str k"
  by (auto simp: kind_parse_def split: if_splits)

lemma strings_from_mono: "S \<subseteq> T \<Longrightarrow> strings_from S op \<Longrightarrow> strings_from T op"
  by (auto simp: strings_from_def)

lemma head_option_set: "set_option (head_option xs) \<subseteq> set xs"
  by (cases xs) (auto simp: head_option_def)

lemma argv_loop_strings: "strings_from S op \<Longrightarrow> set argv \<subseteq> S \<Longrightarrow> strings_from S (argv_loop sep op argv)"
proof (induction sep op argv rule: argv_loop.induct)
  case (2 sep op a rest)
  have tls: "set (drop 1 rest) \<subseteq> S" "set rest \<subseteq> S" "a \<in> S"
    using "2.prems"(2) by (auto dest: in_set_dropD)
  have hdo: "set_option (head_option rest) \<subseteq> S" using head_option_set [of rest] tls(2) by blast
  have k: "strings_from S (case rest of [] \<Rightarrow> op | v # _ \<Rightarrow> op\<lparr> op_k := v \<rparr>)"
    using "2.prems" by (auto simp: strings_from_def split: list.splits)
  show ?case
    using 2 tls hdo k by (simp add: strings_from_def)
qed simp

section \<open>Properties\<close>

text \<open>An operation is derived from every argument vector except those with \<open>--write\<close>, which
  no service operation can express; the query, \<open>-k\<close>, scores and project it carries are arguments of
  that vector (or the defaults), and operation kinds round-trip through their wire spelling.\<close>

lemma operation_from_argv_sound:
  "(operation_from_argv argv = None \<longleftrightarrow> lit ''--write'' \<in> set argv)
   \<and> (case operation_from_argv argv of None \<Rightarrow> True | Some op \<Rightarrow> strings_from (set argv) op)
   \<and> (kind_parse s = Some kind \<longleftrightarrow> s = kind_as_str kind)"
proof -
  have "strings_from (set argv) (argv_loop False default_operation argv)"
    by (rule argv_loop_strings) (simp_all add: strings_from_def default_operation_def)
  then show ?thesis using kind_parse_Some by (auto simp: operation_from_argv_def list_ex_iff)
qed

end
