(* ===== verification/Json_Wire.thy ===== *)
theory Json_Wire
  imports Message
begin

text \<open>
  The strict JSON layer of \<open>yams-protocol/src/json.rs\<close>. The JSON library \<open>serde_json\<close> is not part
  of the repository: it is the parameter \<open>json_lib\<close>, which says in which chunks a value is written
  and what a visitor sees of a text. What a visitor sees is a \<open>jval\<close>: a syntax error is \<open>JBad\<close>, and
  an array or object that breaks off carries the items read so far and the flag \<open>False\<close>.
\<close>

section \<open>Definitions\<close>

subsection \<open>Errors and the JSON library\<close>

datatype io_kind = Interrupted | WouldBlock | TimedOut | WriteZero | InvalidInput | OtherKind nat

datatype protocol_error =
    InvalidUtf8 | InvalidJson | MessageMustBeObject | DuplicateField | UnknownField | FieldsDoNotMatch
  | UnsupportedVersion | InvalidRequestType | UnknownResponseType | CwdNotAbsolute | EmptyRequestId
  | EmptyRejectionCode | TooManyArguments | ArgumentTooLarge | FrameTooLarge nat nat | TruncatedFrame
  | FrameDeadlineExceeded | ResponseDeadlineAfterRequestDelivery | FrameAlreadyComplete | FrameInputTooLong
  | Io io_kind

datatype jval =
    JNull | JBool bool | JInt int | JFloat | JStr ustr
  | JArr "jval list" bool | JObj "(ustr \<times> jval) list" bool | JBad

text \<open>\<open>write_json v\<close>: the chunks \<open>to_writer\<close> writes and whether it succeeds;
  \<open>read_json text\<close>: the value of a document and whether only whitespace follows it.\<close>

record json_lib =
  write_json :: "jval \<Rightarrow> u8 list list \<times> bool"
  read_json :: "ustr \<Rightarrow> jval \<times> bool"

text \<open>The rendered \<open>serde_json::Error\<close> starts with one of the two sentinels or with neither.\<close>

datatype json_error = DuplicateSentinel | UnknownSentinel | OtherJson

fun classify_json_error :: "json_error \<Rightarrow> protocol_error" where
  "classify_json_error DuplicateSentinel = DuplicateField"
| "classify_json_error UnknownSentinel = UnknownField"
| "classify_json_error OtherJson = InvalidJson"

subsection \<open>Typed reads\<close>

definition next_u8 :: "jval \<Rightarrow> (json_error, nat) result" where
  "next_u8 v = (case v of JInt i \<Rightarrow> if 0 \<le> i \<and> i < 256 then Inr (nat i) else Inl OtherJson | _ \<Rightarrow> Inl OtherJson)"

definition next_bool :: "jval \<Rightarrow> (json_error, bool) result" where
  "next_bool v = (case v of JBool b \<Rightarrow> Inr b | _ \<Rightarrow> Inl OtherJson)"

definition next_string :: "jval \<Rightarrow> (json_error, ustr) result" where
  "next_string v = (case v of JStr s \<Rightarrow> Inr s | _ \<Rightarrow> Inl OtherJson)"

definition next_strings :: "jval \<Rightarrow> (json_error, ustr list) result" where
  "next_strings v =
     (case v of
        JArr items complete \<Rightarrow>
          res_bind (try_map next_string items) (\<lambda>strings. if complete then Inr strings else Inl OtherJson)
      | _ \<Rightarrow> Inl OtherJson)"

definition read_once :: "'v option \<Rightarrow> (jval \<Rightarrow> (json_error, 'v) result) \<Rightarrow> jval \<Rightarrow> (json_error, 'v option) result" where
  "read_once slot next_value v = (if slot \<noteq> None then Inl DuplicateSentinel else res_map Some (next_value v))"

text \<open>\<open>deserialize_map\<close>: the visitor runs over the entries, then the object must be closed.\<close>

definition deserialize_map :: "('r \<Rightarrow> ustr \<times> jval \<Rightarrow> (json_error, 'r) result) \<Rightarrow> 'r \<Rightarrow> jval \<Rightarrow> (json_error, 'r) result" where
  "deserialize_map visit start v =
     (case v of
        JObj entries complete \<Rightarrow>
          res_bind (try_fold visit start entries) (\<lambda>raw. if complete then Inr raw else Inl OtherJson)
      | _ \<Rightarrow> Inl OtherJson)"

subsection \<open>Raw operations and messages\<close>

record raw_operation =
  ro_kind :: "ustr option"
  ro_query :: "ustr option"
  ro_k :: "ustr option"
  ro_json :: "bool option"
  ro_full :: "bool option"
  ro_no_gate :: "bool option"
  ro_explain :: "bool option"
  ro_min_score :: "ustr option"
  ro_max_gap :: "ustr option"
  ro_project :: "ustr option"

definition raw_operation_default :: raw_operation where
  "raw_operation_default =
     \<lparr> ro_kind = None, ro_query = None, ro_k = None, ro_json = None, ro_full = None, ro_no_gate = None,
       ro_explain = None, ro_min_score = None, ro_max_gap = None, ro_project = None \<rparr>"

definition visit_operation :: "raw_operation \<Rightarrow> ustr \<times> jval \<Rightarrow> (json_error, raw_operation) result" where
  "visit_operation raw entry = (case entry of (key, v) \<Rightarrow>
     if key = lit ''kind'' then res_map (\<lambda>x. raw\<lparr> ro_kind := x \<rparr>) (read_once (ro_kind raw) next_string v)
     else if key = lit ''query'' then res_map (\<lambda>x. raw\<lparr> ro_query := x \<rparr>) (read_once (ro_query raw) next_string v)
     else if key = lit ''k'' then res_map (\<lambda>x. raw\<lparr> ro_k := x \<rparr>) (read_once (ro_k raw) next_string v)
     else if key = lit ''json'' then res_map (\<lambda>x. raw\<lparr> ro_json := x \<rparr>) (read_once (ro_json raw) next_bool v)
     else if key = lit ''full'' then res_map (\<lambda>x. raw\<lparr> ro_full := x \<rparr>) (read_once (ro_full raw) next_bool v)
     else if key = lit ''no_gate'' then res_map (\<lambda>x. raw\<lparr> ro_no_gate := x \<rparr>) (read_once (ro_no_gate raw) next_bool v)
     else if key = lit ''explain'' then res_map (\<lambda>x. raw\<lparr> ro_explain := x \<rparr>) (read_once (ro_explain raw) next_bool v)
     else if key = lit ''min_score''
     then res_map (\<lambda>x. raw\<lparr> ro_min_score := x \<rparr>) (read_once (ro_min_score raw) next_string v)
     else if key = lit ''max_gap'' then res_map (\<lambda>x. raw\<lparr> ro_max_gap := x \<rparr>) (read_once (ro_max_gap raw) next_string v)
     else if key = lit ''project'' then res_map (\<lambda>x. raw\<lparr> ro_project := x \<rparr>) (read_once (ro_project raw) next_string v)
     else Inl UnknownSentinel)"

definition next_operation :: "jval \<Rightarrow> (json_error, raw_operation) result" where
  "next_operation v = deserialize_map visit_operation raw_operation_default v"

record raw_message =
  rm_version :: "nat option"
  rm_type :: "ustr option"
  rm_argv :: "ustr list option"
  rm_cwd :: "ustr option"
  rm_operation :: "raw_operation option"
  rm_request_id :: "ustr option"
  rm_exit_code :: "nat option"
  rm_stdout :: "ustr option"
  rm_stderr :: "ustr option"
  rm_code :: "ustr option"
  rm_message :: "ustr option"

definition raw_message_default :: raw_message where
  "raw_message_default =
     \<lparr> rm_version = None, rm_type = None, rm_argv = None, rm_cwd = None, rm_operation = None,
       rm_request_id = None, rm_exit_code = None, rm_stdout = None, rm_stderr = None, rm_code = None,
       rm_message = None \<rparr>"

definition visit_message :: "raw_message \<Rightarrow> ustr \<times> jval \<Rightarrow> (json_error, raw_message) result" where
  "visit_message raw entry = (case entry of (key, v) \<Rightarrow>
     if key = lit ''version'' then res_map (\<lambda>x. raw\<lparr> rm_version := x \<rparr>) (read_once (rm_version raw) next_u8 v)
     else if key = lit ''type'' then res_map (\<lambda>x. raw\<lparr> rm_type := x \<rparr>) (read_once (rm_type raw) next_string v)
     else if key = lit ''argv'' then res_map (\<lambda>x. raw\<lparr> rm_argv := x \<rparr>) (read_once (rm_argv raw) next_strings v)
     else if key = lit ''cwd'' then res_map (\<lambda>x. raw\<lparr> rm_cwd := x \<rparr>) (read_once (rm_cwd raw) next_string v)
     else if key = lit ''operation''
     then res_map (\<lambda>x. raw\<lparr> rm_operation := x \<rparr>) (read_once (rm_operation raw) next_operation v)
     else if key = lit ''request_id''
     then res_map (\<lambda>x. raw\<lparr> rm_request_id := x \<rparr>) (read_once (rm_request_id raw) next_string v)
     else if key = lit ''exit_code'' then res_map (\<lambda>x. raw\<lparr> rm_exit_code := x \<rparr>) (read_once (rm_exit_code raw) next_u8 v)
     else if key = lit ''stdout'' then res_map (\<lambda>x. raw\<lparr> rm_stdout := x \<rparr>) (read_once (rm_stdout raw) next_string v)
     else if key = lit ''stderr'' then res_map (\<lambda>x. raw\<lparr> rm_stderr := x \<rparr>) (read_once (rm_stderr raw) next_string v)
     else if key = lit ''code'' then res_map (\<lambda>x. raw\<lparr> rm_code := x \<rparr>) (read_once (rm_code raw) next_string v)
     else if key = lit ''message'' then res_map (\<lambda>x. raw\<lparr> rm_message := x \<rparr>) (read_once (rm_message raw) next_string v)
     else Inl UnknownSentinel)"

definition deserialize_message :: "jval \<Rightarrow> (json_error, raw_message) result" where
  "deserialize_message v = deserialize_map visit_message raw_message_default v"

subsection \<open>Wire values\<close>

definition optional_field :: "string \<Rightarrow> ustr option \<Rightarrow> (ustr \<times> jval) list" where
  "optional_field name x = (case x of None \<Rightarrow> [] | Some s \<Rightarrow> [(lit name, JStr s)])"

definition operation_wire :: "service_operation \<Rightarrow> jval" where
  "operation_wire op = JObj
     ([(lit ''kind'', JStr (kind_as_str (op_kind op))), (lit ''query'', JStr (op_query op)), (lit ''k'', JStr (op_k op)),
       (lit ''json'', JBool (op_json op)), (lit ''full'', JBool (op_full op)), (lit ''no_gate'', JBool (op_no_gate op)),
       (lit ''explain'', JBool (op_explain op))]
      @ optional_field ''min_score'' (op_min_score op) @ optional_field ''max_gap'' (op_max_gap op)
      @ optional_field ''project'' (op_project op)) True"

definition request_wire :: "request \<Rightarrow> jval" where
  "request_wire r = JObj
     [(lit ''version'', JInt (int PROTOCOL_VERSION)), (lit ''type'', JStr (lit ''request'')),
      (lit ''operation'', operation_wire (rq_operation r)), (lit ''argv'', JArr (map JStr (rq_argv r)) True),
      (lit ''cwd'', JStr (rq_cwd r))] True"

definition accepted_wire :: "accepted \<Rightarrow> jval" where
  "accepted_wire a = JObj
     [(lit ''version'', JInt (int PROTOCOL_VERSION)), (lit ''type'', JStr (lit ''accepted'')),
      (lit ''request_id'', JStr (ac_request_id a))] True"

definition completed_wire :: "completed \<Rightarrow> jval" where
  "completed_wire c = JObj
     [(lit ''version'', JInt (int PROTOCOL_VERSION)), (lit ''type'', JStr (lit ''completed'')),
      (lit ''request_id'', JStr (co_request_id c)), (lit ''exit_code'', JInt (int (co_exit_code c))),
      (lit ''stdout'', JStr (co_stdout c)), (lit ''stderr'', JStr (co_stderr c))] True"

definition rejected_wire :: "rejected \<Rightarrow> jval" where
  "rejected_wire r = JObj
     [(lit ''version'', JInt (int PROTOCOL_VERSION)), (lit ''type'', JStr (lit ''rejected'')),
      (lit ''code'', JStr (rj_code r)), (lit ''message'', JStr (rj_message r))] True"

subsection \<open>The bounded writer\<close>

definition USIZE_MAX :: nat where "USIZE_MAX = 2 ^ 64 - 1"

record bounded_writer =
  bw_bytes :: "u8 list"
  bw_written :: nat
  bw_limit :: nat

definition bounded_new :: "nat \<Rightarrow> bounded_writer" where
  "bounded_new limit = \<lparr> bw_bytes = [], bw_written = 0, bw_limit = limit \<rparr>"

definition bounded_write :: "bounded_writer \<Rightarrow> u8 list \<Rightarrow> bounded_writer" where
  "bounded_write w input =
     (let written = min (bw_written w + length input) USIZE_MAX;
          retained = min (bw_limit w - length (bw_bytes w)) (length input)
      in w\<lparr> bw_written := written, bw_bytes := bw_bytes w @ take retained input \<rparr>)"

text \<open>\<open>Write::write_all\<close> on this writer: one \<open>write\<close> takes all, and none is made for no bytes.\<close>

definition bounded_write_all :: "bounded_writer \<Rightarrow> u8 list \<Rightarrow> bounded_writer" where
  "bounded_write_all w input = (if input = [] then w else bounded_write w input)"

definition encode_bounded :: "json_lib \<Rightarrow> jval \<Rightarrow> nat \<Rightarrow> (protocol_error, u8 list) result" where
  "encode_bounded lib v limit =
     (let (chunks, ok) = write_json lib v;
          w = foldl bounded_write_all (bounded_new limit) chunks
      in if \<not> ok then Inl InvalidJson
         else if bw_written w > limit then Inl (FrameTooLarge (bw_written w) limit)
         else Inr (bw_bytes w))"

subsection \<open>Validation\<close>

definition validate_request :: "request \<Rightarrow> (protocol_error, unit) result" where
  "validate_request r =
     (if length (rq_argv r) > MAX_ARGUMENTS then Inl TooManyArguments
      else if list_ex (\<lambda>a. utf8_len a > MAX_ARGUMENT_BYTES) (rq_argv r) then Inl ArgumentTooLarge
      else if \<not> is_absolute (rq_cwd r) then Inl CwdNotAbsolute
      else Inr ())"

definition validate_request_id :: "ustr \<Rightarrow> (protocol_error, unit) result" where
  "validate_request_id i = (if i = [] then Inl EmptyRequestId else Inr ())"

definition MAX_JSON_NESTING :: nat where "MAX_JSON_NESTING = 128"

definition quote_byte :: u8 where "quote_byte = 0x22"
definition backslash_byte :: u8 where "backslash_byte = 0x5C"
definition opens_nesting :: "u8 \<Rightarrow> bool" where "opens_nesting b = (b = 0x7B \<or> b = 0x5B)"
definition closes_nesting :: "u8 \<Rightarrow> bool" where "closes_nesting b = (b = 0x7D \<or> b = 0x5D)"

fun nesting_loop :: "nat \<Rightarrow> bool \<Rightarrow> bool \<Rightarrow> u8 list \<Rightarrow> (protocol_error, unit) result" where
  "nesting_loop depth in_string escaped [] = Inr ()"
| "nesting_loop depth in_string escaped (b # body) =
     (if in_string then
        (if escaped then nesting_loop depth True False body
         else if b = backslash_byte then nesting_loop depth True True body
         else if b = quote_byte then nesting_loop depth False escaped body
         else nesting_loop depth True escaped body)
      else if b = quote_byte then nesting_loop depth True escaped body
      else if opens_nesting b then
        (if depth + 1 > USIZE_MAX then Inl InvalidJson
         else if depth + 1 > MAX_JSON_NESTING then Inl InvalidJson
         else nesting_loop (depth + 1) False escaped body)
      else if closes_nesting b then nesting_loop (depth - 1) False escaped body
      else nesting_loop depth False escaped body)"

definition validate_nesting :: "u8 list \<Rightarrow> (protocol_error, unit) result" where
  "validate_nesting body = nesting_loop 0 False False body"

definition validate_version :: "raw_message \<Rightarrow> (protocol_error, unit) result" where
  "validate_version raw =
     (if rm_version raw = Some PROTOCOL_VERSION
      then (if rm_type raw \<noteq> None then Inr () else Inl FieldsDoNotMatch)
      else Inl UnsupportedVersion)"

definition has_nonaccepted_fields :: "raw_message \<Rightarrow> bool" where
  "has_nonaccepted_fields raw =
     (rm_argv raw \<noteq> None \<or> rm_cwd raw \<noteq> None \<or> rm_operation raw \<noteq> None \<or> rm_exit_code raw \<noteq> None
      \<or> rm_stdout raw \<noteq> None \<or> rm_stderr raw \<noteq> None \<or> rm_code raw \<noteq> None \<or> rm_message raw \<noteq> None)"

subsection \<open>Encoding and decoding\<close>

definition encode :: "json_lib \<Rightarrow> message \<Rightarrow> (protocol_error, u8 list) result" where
  "encode lib m =
     (case m of
        MRequest r \<Rightarrow> res_bind (validate_request r) (\<lambda>_. encode_bounded lib (request_wire r) MAX_REQUEST_BYTES)
      | MAccepted a \<Rightarrow>
          res_bind (validate_request_id (ac_request_id a)) (\<lambda>_. encode_bounded lib (accepted_wire a) MAX_RESPONSE_BYTES)
      | MCompleted c \<Rightarrow>
          res_bind (validate_request_id (co_request_id c)) (\<lambda>_. encode_bounded lib (completed_wire c) MAX_RESPONSE_BYTES)
      | MRejected r \<Rightarrow>
          if rj_code r = [] then Inl EmptyRejectionCode else encode_bounded lib (rejected_wire r) MAX_RESPONSE_BYTES)"

definition is_ascii_whitespace :: "u8 \<Rightarrow> bool" where
  "is_ascii_whitespace b = (b = 0x20 \<or> b = 0x09 \<or> b = 0x0A \<or> b = 0x0C \<or> b = 0x0D)"

definition decode_object :: "json_lib \<Rightarrow> u8 list \<Rightarrow> nat \<Rightarrow> (protocol_error, raw_message) result" where
  "decode_object lib body limit =
     (if length body > limit then Inl (FrameTooLarge (length body) limit)
      else res_bind (ok_or InvalidUtf8 (from_utf8 body)) (\<lambda>doc.
           res_bind (validate_nesting body) (\<lambda>_.
           if (case find (\<lambda>b. \<not> is_ascii_whitespace b) body of None \<Rightarrow> False | Some b \<Rightarrow> b \<noteq> 0x7B)
           then Inl MessageMustBeObject
           else (case read_json lib doc of (v, only_space_left) \<Rightarrow>
             res_bind (map_err classify_json_error (deserialize_message v)) (\<lambda>raw.
             if only_space_left then Inr raw else Inl (classify_json_error OtherJson))))))"

definition decode_operation :: "raw_operation \<Rightarrow> (protocol_error, service_operation) result" where
  "decode_operation raw =
     (if ro_kind raw = None \<or> ro_query raw = None \<or> ro_k raw = None \<or> ro_json raw = None \<or> ro_full raw = None
         \<or> ro_no_gate raw = None \<or> ro_explain raw = None
      then Inl FieldsDoNotMatch
      else res_bind (ok_or FieldsDoNotMatch (kind_parse (the (ro_kind raw)))) (\<lambda>kind.
           if utf8_len (the (ro_query raw)) > MAX_ARGUMENT_BYTES then Inl ArgumentTooLarge
           else Inr \<lparr> op_kind = kind, op_query = the (ro_query raw), op_k = the (ro_k raw),
                      op_json = the (ro_json raw), op_full = the (ro_full raw), op_no_gate = the (ro_no_gate raw),
                      op_explain = the (ro_explain raw), op_min_score = ro_min_score raw,
                      op_max_gap = ro_max_gap raw, op_project = ro_project raw \<rparr>))"

definition decode_request :: "json_lib \<Rightarrow> u8 list \<Rightarrow> (protocol_error, message) result" where
  "decode_request lib body =
     res_bind (decode_object lib body MAX_REQUEST_BYTES) (\<lambda>raw.
     res_bind (validate_version raw) (\<lambda>_.
     if rm_type raw \<noteq> Some (lit ''request'') then Inl InvalidRequestType
     else if rm_argv raw = None \<or> rm_cwd raw = None \<or> rm_operation raw = None \<or> rm_request_id raw \<noteq> None
             \<or> rm_exit_code raw \<noteq> None \<or> rm_stdout raw \<noteq> None \<or> rm_stderr raw \<noteq> None \<or> rm_code raw \<noteq> None
             \<or> rm_message raw \<noteq> None
     then Inl FieldsDoNotMatch
     else res_bind (decode_operation (the (rm_operation raw))) (\<lambda>op.
          let r = \<lparr> rq_operation = op, rq_argv = the (rm_argv raw), rq_cwd = the (rm_cwd raw) \<rparr>
          in res_bind (validate_request r) (\<lambda>_. Inr (MRequest r)))))"

definition decode_response :: "json_lib \<Rightarrow> u8 list \<Rightarrow> (protocol_error, message) result" where
  "decode_response lib body =
     res_bind (decode_object lib body MAX_RESPONSE_BYTES) (\<lambda>raw.
     res_bind (validate_version raw) (\<lambda>_.
     case rm_type raw of
       None \<Rightarrow> Inl FieldsDoNotMatch
     | Some t \<Rightarrow>
         if t = lit ''accepted'' then
           (if rm_request_id raw = None \<or> has_nonaccepted_fields raw then Inl FieldsDoNotMatch
            else let i = the (rm_request_id raw)
                 in res_bind (validate_request_id i) (\<lambda>_. Inr (MAccepted \<lparr> ac_request_id = i \<rparr>)))
         else if t = lit ''completed'' then
           (if rm_request_id raw = None \<or> rm_exit_code raw = None \<or> rm_stdout raw = None \<or> rm_stderr raw = None
               \<or> rm_argv raw \<noteq> None \<or> rm_cwd raw \<noteq> None \<or> rm_operation raw \<noteq> None \<or> rm_code raw \<noteq> None
               \<or> rm_message raw \<noteq> None
            then Inl FieldsDoNotMatch
            else let i = the (rm_request_id raw)
                 in res_bind (validate_request_id i) (\<lambda>_. Inr (MCompleted
                      \<lparr> co_request_id = i, co_exit_code = the (rm_exit_code raw), co_stdout = the (rm_stdout raw),
                        co_stderr = the (rm_stderr raw) \<rparr>)))
         else if t = lit ''rejected'' then
           (if rm_code raw = None \<or> rm_message raw = None \<or> rm_argv raw \<noteq> None \<or> rm_cwd raw \<noteq> None
               \<or> rm_operation raw \<noteq> None \<or> rm_request_id raw \<noteq> None \<or> rm_exit_code raw \<noteq> None
               \<or> rm_stdout raw \<noteq> None \<or> rm_stderr raw \<noteq> None
            then Inl FieldsDoNotMatch
            else if the (rm_code raw) = [] then Inl EmptyRejectionCode
            else Inr (MRejected \<lparr> rj_code = the (rm_code raw), rj_message = the (rm_message raw) \<rparr>))
         else Inl UnknownResponseType))"

subsection \<open>Specification\<close>

text \<open>The reference for \<open>validate_nesting\<close>: the bytes outside string literals, and how deep the
  brackets among them go.\<close>

fun outside_strings :: "bool \<Rightarrow> bool \<Rightarrow> u8 list \<Rightarrow> u8 list" where
  "outside_strings in_string escaped [] = []"
| "outside_strings False escaped (b # bs) =
     (if b = quote_byte then outside_strings True False bs else b # outside_strings False False bs)"
| "outside_strings True escaped (b # bs) =
     outside_strings (escaped \<or> b \<noteq> quote_byte) (\<not> escaped \<and> b = backslash_byte) bs"

fun deepest :: "nat \<Rightarrow> u8 list \<Rightarrow> nat" where
  "deepest d [] = d"
| "deepest d (b # bs) =
     (if opens_nesting b then deepest (d + 1) bs
      else if closes_nesting b then max d (deepest (d - 1) bs)
      else deepest d bs)"

fun jdepth :: "jval \<Rightarrow> nat" where
  "jdepth (JArr vs c) = Suc (foldr max (map jdepth vs) 0)"
| "jdepth (JObj es c) = Suc (foldr max (map (\<lambda>e. jdepth (snd e)) es) 0)"
| "jdepth v = 0"

text \<open>What is relied on of \<open>serde_json\<close> for a value \<open>v\<close>: it writes a UTF-8 text that starts with
  the brace of the object, opens no more brackets outside strings than the value nests, and reads
  back as \<open>v\<close> with nothing left over.\<close>

definition json_faithful :: "json_lib \<Rightarrow> jval \<Rightarrow> bool" where
  "json_faithful lib v =
     (\<exists>chunks doc. write_json lib v = (chunks, True) \<and> concat chunks = as_bytes doc
        \<and> (\<forall>c \<in> set doc. is_scalar c) \<and> prefix (lit ''{'') doc
        \<and> deepest 0 (outside_strings False False (as_bytes doc)) \<le> jdepth v
        \<and> read_json lib doc = (v, True))"

definition message_wire :: "message \<Rightarrow> jval" where
  "message_wire m =
     (case m of MRequest r \<Rightarrow> request_wire r | MAccepted a \<Rightarrow> accepted_wire a
      | MCompleted c \<Rightarrow> completed_wire c | MRejected r \<Rightarrow> rejected_wire r)"

definition message_limit :: "message \<Rightarrow> nat" where
  "message_limit m = (case m of MRequest _ \<Rightarrow> MAX_REQUEST_BYTES | _ \<Rightarrow> MAX_RESPONSE_BYTES)"

definition decode_for :: "message \<Rightarrow> json_lib \<Rightarrow> u8 list \<Rightarrow> (protocol_error, message) result" where
  "decode_for m = (case m of MRequest _ \<Rightarrow> decode_request | _ \<Rightarrow> decode_response)"

text \<open>An exit code is a \<open>u8\<close>, and a query that is one of the arguments is bounded like them.\<close>

definition message_bounded :: "message \<Rightarrow> bool" where
  "message_bounded m =
     (case m of MRequest r \<Rightarrow> utf8_len (op_query (rq_operation r)) \<le> MAX_ARGUMENT_BYTES
      | MCompleted c \<Rightarrow> co_exit_code c < 256 | _ \<Rightarrow> True)"

definition message_valid :: "message \<Rightarrow> bool" where
  "message_valid m =
     (message_bounded m \<and>
      (case m of
         MRequest r \<Rightarrow> length (rq_argv r) \<le> MAX_ARGUMENTS \<and> (\<forall>a \<in> set (rq_argv r). utf8_len a \<le> MAX_ARGUMENT_BYTES)
           \<and> is_absolute (rq_cwd r)
       | MAccepted a \<Rightarrow> ac_request_id a \<noteq> []
       | MCompleted c \<Rightarrow> co_request_id c \<noteq> []
       | MRejected r \<Rightarrow> rj_code r \<noteq> []))"

definition message_fields :: "message \<Rightarrow> ustr set" where
  "message_fields m = lit ` ({''version'', ''type''} \<union>
     (case m of MRequest _ \<Rightarrow> {''operation'', ''argv'', ''cwd''}
      | MAccepted _ \<Rightarrow> {''request_id''}
      | MCompleted _ \<Rightarrow> {''request_id'', ''exit_code'', ''stdout'', ''stderr''}
      | MRejected _ \<Rightarrow> {''code'', ''message''}))"

text \<open>The names of the slots a visitor has filled.\<close>

definition filled_slots :: "(string \<times> bool) list \<Rightarrow> ustr set" where
  "filled_slots slots = {lit n | n. (n, True) \<in> set slots}"

definition message_slots :: "raw_message \<Rightarrow> (string \<times> bool) list" where
  "message_slots raw =
     [(''version'', rm_version raw \<noteq> None), (''type'', rm_type raw \<noteq> None), (''argv'', rm_argv raw \<noteq> None),
      (''cwd'', rm_cwd raw \<noteq> None), (''operation'', rm_operation raw \<noteq> None),
      (''request_id'', rm_request_id raw \<noteq> None), (''exit_code'', rm_exit_code raw \<noteq> None),
      (''stdout'', rm_stdout raw \<noteq> None), (''stderr'', rm_stderr raw \<noteq> None), (''code'', rm_code raw \<noteq> None),
      (''message'', rm_message raw \<noteq> None)]"

section \<open>Lemmas\<close>

subsection \<open>Nesting\<close>

lemma deepest_ge: "d \<le> deepest d bs"
  by (induction bs arbitrary: d) (auto intro: Suc_leD)

lemma nesting_loop_deepest:
  assumes "depth \<le> MAX_JSON_NESTING" "in_string \<or> \<not> escaped"
  shows "nesting_loop depth in_string escaped body
    = (if deepest depth (outside_strings in_string escaped body) \<le> MAX_JSON_NESTING then Inr () else Inl InvalidJson)"
  using assms
proof (induction depth in_string escaped body rule: nesting_loop.induct)
  case (2 depth in_string escaped b body)
  have "\<not> opens_nesting quote_byte" "\<not> closes_nesting quote_byte"
    by (simp_all add: opens_nesting_def closes_nesting_def quote_byte_def)
  moreover have "MAX_JSON_NESTING < USIZE_MAX" by (simp add: MAX_JSON_NESTING_def USIZE_MAX_def)
  moreover have "quote_byte \<noteq> backslash_byte" by (simp add: quote_byte_def backslash_byte_def)
  ultimately show ?case
    using 2 deepest_ge [of "Suc depth" "outside_strings False False body"]
    by (cases in_string; cases escaped) (auto)
qed simp

lemma validate_nesting_deepest:
  "validate_nesting body
   = (if deepest 0 (outside_strings False False body) \<le> MAX_JSON_NESTING then Inr () else Inl InvalidJson)"
  unfolding validate_nesting_def by (rule nesting_loop_deepest) simp_all

subsection \<open>The bounded writer\<close>

lemma bounded_fold:
  assumes "bw_limit w \<le> USIZE_MAX" "bw_bytes w = take (bw_limit w) sofar" "bw_written w = min (length sofar) USIZE_MAX"
  shows "foldl bounded_write_all w chunks
    = w\<lparr> bw_bytes := take (bw_limit w) (sofar @ concat chunks),
         bw_written := min (length (sofar @ concat chunks)) USIZE_MAX \<rparr>"
  using assms
proof (induction chunks arbitrary: w sofar)
  case (Cons chunk chunks)
  let ?w = "bounded_write_all w chunk"
  have w: "bw_limit ?w = bw_limit w" "bw_bytes ?w = take (bw_limit w) (sofar @ chunk)"
    "bw_written ?w = min (length (sofar @ chunk)) USIZE_MAX"
    using Cons.prems by (auto simp: bounded_write_all_def bounded_write_def Let_def min_def)
  have "w\<lparr> bw_bytes := b, bw_written := n \<rparr> = ?w\<lparr> bw_bytes := b, bw_written := n \<rparr>" for b n
    using w(1) by (cases w; cases ?w) simp
  with Cons.IH [of ?w "sofar @ chunk"] w Cons.prems(1) show ?case by simp
qed (cases w, simp)

lemma bounded_run:
  "limit \<le> USIZE_MAX \<Longrightarrow> foldl bounded_write_all (bounded_new limit) chunks
   = \<lparr> bw_bytes = take limit (concat chunks), bw_written = min (length (concat chunks)) USIZE_MAX, bw_limit = limit \<rparr>"
  using bounded_fold [of "bounded_new limit" "[]" chunks] by (simp add: bounded_new_def)

lemma encode_bounded_run:
  assumes "limit < USIZE_MAX" "write_json lib v = (chunks, True)"
  shows "encode_bounded lib v limit
    = (if length (concat chunks) \<le> limit then Inr (concat chunks)
       else Inl (FrameTooLarge (min (length (concat chunks)) USIZE_MAX) limit))"
  using assms by (auto simp: encode_bounded_def bounded_run min_def)

lemma limits_small: "MAX_REQUEST_BYTES < USIZE_MAX" "MAX_RESPONSE_BYTES < USIZE_MAX" "message_limit m < USIZE_MAX"
  by (simp_all add: MAX_REQUEST_BYTES_def MAX_RESPONSE_BYTES_def USIZE_MAX_def message_limit_def split: message.split)

subsection \<open>Reading back wire values\<close>

lemma next_simps [simp]:
  "next_string (JStr s) = Inr s" "next_bool (JBool b) = Inr b"
  "next_u8 (JInt (int n)) = (if n < 256 then Inr n else Inl OtherJson)"
  by (simp_all add: next_string_def next_bool_def next_u8_def)

lemma next_strings_wire [simp]: "next_strings (JArr (map JStr ss) True) = Inr ss"
proof -
  have "try_map next_string (map JStr ss) = Inr ss" by (induction ss) simp_all
  then show ?thesis by (simp add: next_strings_def)
qed

lemma read_once_empty [simp]: "read_once None next_value v = res_map Some (next_value v)"
  by (simp add: read_once_def)

lemma next_operation_wire:
  "next_operation (operation_wire op) = Inr
     \<lparr> ro_kind = Some (kind_as_str (op_kind op)), ro_query = Some (op_query op), ro_k = Some (op_k op),
       ro_json = Some (op_json op), ro_full = Some (op_full op), ro_no_gate = Some (op_no_gate op),
       ro_explain = Some (op_explain op), ro_min_score = op_min_score op, ro_max_gap = op_max_gap op,
       ro_project = op_project op \<rparr>"
  by (cases "op_min_score op"; cases "op_max_gap op"; cases "op_project op")
     (simp_all add: next_operation_def operation_wire_def deserialize_map_def optional_field_def
        raw_operation_default_def visit_operation_def)

lemma operation_eta:
  "\<lparr> op_kind = op_kind op, op_query = op_query op, op_k = op_k op, op_json = op_json op, op_full = op_full op,
     op_no_gate = op_no_gate op, op_explain = op_explain op, op_min_score = op_min_score op,
     op_max_gap = op_max_gap op, op_project = op_project op \<rparr> = op"
  by simp

lemma request_eta: "\<lparr> rq_operation = rq_operation r, rq_argv = rq_argv r, rq_cwd = rq_cwd r \<rparr> = r"
  by simp

lemmas message_wires = request_wire_def accepted_wire_def completed_wire_def rejected_wire_def

lemma deserialize_request_wire:
  "deserialize_message (request_wire r) = Inr (raw_message_default
     \<lparr> rm_version := Some PROTOCOL_VERSION, rm_type := Some (lit ''request''),
       rm_operation := (case next_operation (operation_wire (rq_operation r)) of Inl _ \<Rightarrow> None | Inr op \<Rightarrow> Some op),
       rm_argv := Some (rq_argv r), rm_cwd := Some (rq_cwd r) \<rparr>)"
  by (simp add: deserialize_message_def deserialize_map_def message_wires visit_message_def raw_message_default_def
        PROTOCOL_VERSION_def next_operation_wire next_u8_def)

lemma deserialize_accepted_wire:
  "deserialize_message (accepted_wire a) = Inr (raw_message_default
     \<lparr> rm_version := Some PROTOCOL_VERSION, rm_type := Some (lit ''accepted''),
       rm_request_id := Some (ac_request_id a) \<rparr>)"
  by (simp add: deserialize_message_def deserialize_map_def message_wires visit_message_def raw_message_default_def
        PROTOCOL_VERSION_def next_u8_def)

lemma deserialize_completed_wire:
  "co_exit_code c < 256 \<Longrightarrow> deserialize_message (completed_wire c) = Inr (raw_message_default
     \<lparr> rm_version := Some PROTOCOL_VERSION, rm_type := Some (lit ''completed''),
       rm_request_id := Some (co_request_id c), rm_exit_code := Some (co_exit_code c),
       rm_stdout := Some (co_stdout c), rm_stderr := Some (co_stderr c) \<rparr>)"
  by (simp add: deserialize_message_def deserialize_map_def message_wires visit_message_def raw_message_default_def
        PROTOCOL_VERSION_def next_u8_def)

lemma deserialize_rejected_wire:
  "deserialize_message (rejected_wire r) = Inr (raw_message_default
     \<lparr> rm_version := Some PROTOCOL_VERSION, rm_type := Some (lit ''rejected''),
       rm_code := Some (rj_code r), rm_message := Some (rj_message r) \<rparr>)"
  by (simp add: deserialize_message_def deserialize_map_def message_wires visit_message_def raw_message_default_def
        PROTOCOL_VERSION_def next_u8_def)

lemma message_wire_depth: "jdepth (message_wire m) \<le> MAX_JSON_NESTING"
proof -
  have strs: "foldr max (map (jdepth \<circ> JStr) ss) 0 = 0" for ss by (induction ss) simp_all
  show ?thesis
    by (cases m) (simp_all add: message_wire_def message_wires operation_wire_def optional_field_def strs
                    MAX_JSON_NESTING_def split: option.split)
qed

lemma encode_Inr:
  assumes "json_faithful lib (message_wire m)" "encode lib m = Inr body"
  shows "\<exists>doc. body = as_bytes doc \<and> length body \<le> message_limit m \<and> (\<forall>c \<in> set doc. is_scalar c)
    \<and> prefix (lit ''{'') doc \<and> validate_nesting body = Inr () \<and> read_json lib doc = (message_wire m, True)"
proof -
  obtain chunks doc where c: "write_json lib (message_wire m) = (chunks, True)" "concat chunks = as_bytes doc"
    "\<forall>c \<in> set doc. is_scalar c" "prefix (lit ''{'') doc" "read_json lib doc = (message_wire m, True)"
    "deepest 0 (outside_strings False False (as_bytes doc)) \<le> jdepth (message_wire m)"
    using assms(1) by (auto simp: json_faithful_def)
  have "encode_bounded lib (message_wire m) (message_limit m) = Inr body"
    using assms(2) by (auto simp: encode_def message_wire_def message_limit_def result_simps
                         split: message.splits if_splits)
  then have "body = as_bytes doc" "length body \<le> message_limit m"
    using encode_bounded_run [OF limits_small(3) [of m] c(1), unfolded c(2)] by (auto split: if_splits)
  moreover have "validate_nesting (as_bytes doc) = Inr ()"
    using c(6) message_wire_depth [of m] by (simp add: validate_nesting_deepest)
  ultimately show ?thesis using c by blast
qed

lemma decode_object_doc:
  assumes "length (as_bytes doc) \<le> limit" "\<forall>c \<in> set doc. is_scalar c" "prefix (lit ''{'') doc"
    "validate_nesting (as_bytes doc) = Inr ()" "read_json lib doc = (v, True)"
  shows "decode_object lib (as_bytes doc) limit = map_err classify_json_error (deserialize_message v)"
proof -
  obtain rest where "doc = 123 # rest" using assms(3) by (auto simp: prefix_def lit_def)
  then have "as_bytes doc = 0x7B # as_bytes rest" by (simp add: as_bytes_def utf8_char_def)
  then have "find (\<lambda>b. \<not> is_ascii_whitespace b) (as_bytes doc) = Some 0x7B" by (simp add: is_ascii_whitespace_def)
  then show ?thesis
    using assms(1,2,4,5) by (cases "deserialize_message v") (simp_all add: decode_object_def from_utf8_as_bytes)
qed

lemma decode_encode:
  assumes "json_faithful lib (message_wire m)" "message_bounded m" "encode lib m = Inr body"
  shows "decode_for m lib body = Inr m"
proof -
  obtain doc where d: "body = as_bytes doc" "length (as_bytes doc) \<le> message_limit m" "\<forall>c \<in> set doc. is_scalar c"
    "prefix (lit ''{'') doc" "validate_nesting (as_bytes doc) = Inr ()" "read_json lib doc = (message_wire m, True)"
    using encode_Inr [OF assms(1,3)] by auto
  note obj = decode_object_doc [OF d(2-6)]
  show ?thesis
  proof (cases m)
    case (MRequest r)
    then have "decode_object lib body MAX_REQUEST_BYTES = map_err classify_json_error (deserialize_message (request_wire r))"
      "validate_request r = Inr ()" "utf8_len (op_query (rq_operation r)) \<le> MAX_ARGUMENT_BYTES"
      using obj assms(2,3) d(1)
      by (auto simp: message_limit_def message_wire_def message_bounded_def encode_def result_simps)
    then show ?thesis
      using MRequest by (simp add: decode_for_def decode_request_def deserialize_request_wire next_operation_wire
        decode_operation_def validate_version_def raw_message_default_def Let_def operation_eta request_eta)
  next
    case (MAccepted a)
    then have "decode_object lib body MAX_RESPONSE_BYTES = map_err classify_json_error (deserialize_message (accepted_wire a))"
      "validate_request_id (ac_request_id a) = Inr ()"
      using obj assms(3) d(1) by (auto simp: message_limit_def message_wire_def encode_def result_simps)
    then show ?thesis
      using MAccepted by (simp add: decode_for_def decode_response_def deserialize_accepted_wire
        validate_version_def raw_message_default_def has_nonaccepted_fields_def)
  next
    case (MCompleted c)
    then have "decode_object lib body MAX_RESPONSE_BYTES = map_err classify_json_error (deserialize_message (completed_wire c))"
      "validate_request_id (co_request_id c) = Inr ()" "co_exit_code c < 256"
      using obj assms(2,3) d(1)
      by (auto simp: message_limit_def message_wire_def message_bounded_def encode_def result_simps)
    then show ?thesis
      using MCompleted by (simp add: decode_for_def decode_response_def deserialize_completed_wire
        validate_version_def raw_message_default_def)
  next
    case (MRejected r)
    then have "decode_object lib body MAX_RESPONSE_BYTES = map_err classify_json_error (deserialize_message (rejected_wire r))"
      "rj_code r \<noteq> []"
      using obj assms(3) d(1) by (auto simp: message_limit_def message_wire_def encode_def split: if_splits)
    then show ?thesis
      using MRejected by (simp add: decode_for_def decode_response_def deserialize_rejected_wire
        validate_version_def raw_message_default_def)
  qed
qed

subsection \<open>Strictness\<close>

lemma read_once_Inr: "read_once slot next_value v = Inr x \<Longrightarrow> slot = None \<and> x \<noteq> None"
  by (cases "next_value v") (auto simp: read_once_def split: if_splits)

lemma filled_Cons: "filled_slots ((n, b) # slots) = (if b then insert (lit n) (filled_slots slots) else filled_slots slots)"
  by (auto simp: filled_slots_def)

lemma filled_Nil: "filled_slots [] = {}"
  by (simp add: filled_slots_def)

lemma filled_message:
  "key \<in> filled_slots (message_slots raw) \<longleftrightarrow>
     (key = lit ''version'' \<and> rm_version raw \<noteq> None) \<or> (key = lit ''type'' \<and> rm_type raw \<noteq> None)
     \<or> (key = lit ''argv'' \<and> rm_argv raw \<noteq> None) \<or> (key = lit ''cwd'' \<and> rm_cwd raw \<noteq> None)
     \<or> (key = lit ''operation'' \<and> rm_operation raw \<noteq> None) \<or> (key = lit ''request_id'' \<and> rm_request_id raw \<noteq> None)
     \<or> (key = lit ''exit_code'' \<and> rm_exit_code raw \<noteq> None) \<or> (key = lit ''stdout'' \<and> rm_stdout raw \<noteq> None)
     \<or> (key = lit ''stderr'' \<and> rm_stderr raw \<noteq> None) \<or> (key = lit ''code'' \<and> rm_code raw \<noteq> None)
     \<or> (key = lit ''message'' \<and> rm_message raw \<noteq> None)"
  by (auto simp: message_slots_def filled_Cons filled_Nil)

lemma res_map_Inr_iff: "res_map f r = Inr y \<longleftrightarrow> (\<exists>x. r = Inr x \<and> y = f x)"
  by (cases r) auto

lemma visit_message_keys:
  assumes "visit_message raw (key, v) = Inr raw'"
  shows "key = lit ''version'' \<or> key = lit ''type'' \<or> key = lit ''argv'' \<or> key = lit ''cwd''
    \<or> key = lit ''operation'' \<or> key = lit ''request_id'' \<or> key = lit ''exit_code'' \<or> key = lit ''stdout''
    \<or> key = lit ''stderr'' \<or> key = lit ''code'' \<or> key = lit ''message''"
  using assms by (rule contrapos_pp) (simp add: visit_message_def)

lemma visit_message_filled:
  assumes "visit_message raw (key, v) = Inr raw'"
  shows "key \<notin> filled_slots (message_slots raw) \<and> filled_slots (message_slots raw') = insert key (filled_slots (message_slots raw))"
  unfolding set_eq_iff insert_iff filled_message
  apply (insert visit_message_keys [OF assms] assms)
  apply (elim disjE; simp add: visit_message_def res_map_Inr_iff del: not_None_eq)
   apply (elim exE conjE, drule read_once_Inr, simp del: not_None_eq)
  apply (elim exE conjE, drule read_once_Inr, simp del: not_None_eq, rule allI, satx)+
  done

lemma visit_fold_filled:
  "try_fold visit_message raw entries = Inr raw'
   \<Longrightarrow> distinct (map fst entries) \<and> set (map fst entries) \<inter> filled_slots (message_slots raw) = {}
       \<and> filled_slots (message_slots raw') = filled_slots (message_slots raw) \<union> set (map fst entries)"
proof (induction entries arbitrary: raw)
  case (Cons e entries)
  obtain key v where e: "e = (key, v)" by (cases e)
  obtain raw1 where r: "visit_message raw e = Inr raw1" "try_fold visit_message raw1 entries = Inr raw'"
    using Cons.prems by (auto split: sum.splits)
  show ?case using Cons.IH [OF r(2)] visit_message_filled [OF r(1) [unfolded e]] e by auto
qed simp

lemma decode_object_Inr:
  assumes "decode_object lib body limit = Inr raw"
  shows "length body \<le> limit \<and> (\<exists>doc entries. from_utf8 body = Some doc
    \<and> deepest 0 (outside_strings False False body) \<le> MAX_JSON_NESTING
    \<and> read_json lib doc = (JObj entries True, True) \<and> distinct (map fst entries)
    \<and> filled_slots (message_slots raw) = set (map fst entries))"
proof -
  obtain doc v where d: "length body \<le> limit" "from_utf8 body = Some doc" "validate_nesting body = Inr ()"
    "read_json lib doc = (v, True)" "deserialize_message v = Inr raw"
    using assms by (auto simp: decode_object_def result_simps split: if_splits prod.splits option.splits)
  obtain entries where e: "v = JObj entries True" "try_fold visit_message raw_message_default entries = Inr raw"
    using d(5) by (auto simp: deserialize_message_def deserialize_map_def result_simps split: jval.splits if_splits)
  have "filled_slots (message_slots raw_message_default) = {}"
    by (simp add: message_slots_def filled_Cons filled_Nil raw_message_default_def)
  then show ?thesis
    using d e(1) visit_fold_filled [OF e(2)] by (auto simp: validate_nesting_deepest split: if_splits)
qed

lemma u8_fields:
  assumes "decode_object lib body limit = Inr raw"
  shows "pred_option (\<lambda>n. n < 256) (rm_exit_code raw)"
proof -
  have next_ok: "next_u8 v = Inr n \<Longrightarrow> n < 256" for v n by (auto simp: next_u8_def split: jval.splits if_splits)
  have step: "pred_option (\<lambda>n. n < 256) (rm_exit_code s')"
    if "pred_option (\<lambda>n. n < 256) (rm_exit_code s)" "visit_message s e = Inr s'" for s e s'
    using that by (cases e) (auto simp: visit_message_def res_map_Inr_iff read_once_def dest: next_ok split: if_splits)
  obtain v where v: "deserialize_message v = Inr raw"
    using assms by (auto simp: decode_object_def result_simps split: if_splits prod.splits option.splits)
  obtain entries where "try_fold visit_message raw_message_default entries = Inr raw"
    using v by (auto simp: deserialize_message_def deserialize_map_def result_simps split: jval.splits if_splits)
  from try_fold_inv [OF _ _ this, of "\<lambda>s. pred_option (\<lambda>n. n < 256) (rm_exit_code s)"] step show ?thesis
    by (auto simp: raw_message_default_def)
qed

lemma decode_operation_query:
  "decode_operation raw = Inr op \<Longrightarrow> utf8_len (op_query op) \<le> MAX_ARGUMENT_BYTES"
  by (auto simp: decode_operation_def result_simps split: if_splits)

lemma validate_request_Inr_iff:
  "validate_request r = Inr () \<longleftrightarrow> length (rq_argv r) \<le> MAX_ARGUMENTS
     \<and> (\<forall>a \<in> set (rq_argv r). utf8_len a \<le> MAX_ARGUMENT_BYTES) \<and> is_absolute (rq_cwd r)"
  by (auto simp: validate_request_def list_ex_iff not_le)

lemma decode_request_Inr:
  assumes "decode_request lib body = Inr m"
  shows "\<exists>raw r. m = MRequest r \<and> decode_object lib body MAX_REQUEST_BYTES = Inr raw
    \<and> filled_slots (message_slots raw) = message_fields m \<and> message_valid m"
proof -
  obtain raw op where r: "decode_object lib body MAX_REQUEST_BYTES = Inr raw"
    "validate_version raw = Inr ()" "rm_type raw = Some (lit ''request'')" "rm_argv raw \<noteq> None" "rm_cwd raw \<noteq> None"
    "rm_operation raw \<noteq> None" "rm_request_id raw = None" "rm_exit_code raw = None" "rm_stdout raw = None"
    "rm_stderr raw = None" "rm_code raw = None" "rm_message raw = None"
    "decode_operation (the (rm_operation raw)) = Inr op"
    "m = MRequest \<lparr> rq_operation = op, rq_argv = the (rm_argv raw), rq_cwd = the (rm_cwd raw) \<rparr>"
    "validate_request \<lparr> rq_operation = op, rq_argv = the (rm_argv raw), rq_cwd = the (rm_cwd raw) \<rparr> = Inr ()"
    using assms by (auto simp: decode_request_def result_simps Let_def split: if_splits)
  have "filled_slots (message_slots raw) = message_fields m"
    using r(2-12,14) by (auto simp: message_slots_def filled_Cons filled_Nil message_fields_def validate_version_def split: if_splits)
  moreover have "message_valid m"
    using r(13-15) by (auto simp: message_valid_def message_bounded_def validate_request_Inr_iff dest: decode_operation_query)
  ultimately show ?thesis using r(1,14) by blast
qed

lemma decode_response_Inr:
  assumes "decode_response lib body = Inr m"
  shows "\<exists>raw. decode_object lib body MAX_RESPONSE_BYTES = Inr raw
    \<and> filled_slots (message_slots raw) = message_fields m \<and> message_valid m \<and> (\<forall>r. m \<noteq> MRequest r)"
proof -
  obtain raw t where r: "decode_object lib body MAX_RESPONSE_BYTES = Inr raw" "validate_version raw = Inr ()"
    "rm_type raw = Some t"
    using assms by (auto simp: decode_response_def result_simps split: option.splits)
  have ver: "rm_version raw = Some PROTOCOL_VERSION" using r(2) by (auto simp: validate_version_def split: if_splits)
  have code: "pred_option (\<lambda>n. n < 256) (rm_exit_code raw)" by (rule u8_fields [OF r(1)])
  note slots = message_slots_def filled_Cons filled_Nil message_fields_def message_valid_def message_bounded_def
  consider "t = lit ''accepted''" | "t = lit ''completed''" | "t = lit ''rejected''"
    using assms r by (auto simp: decode_response_def split: if_splits)
  then show ?thesis
  proof cases
    case 1
    then have "\<not> has_nonaccepted_fields raw" "rm_request_id raw \<noteq> None"
      "validate_request_id (the (rm_request_id raw)) = Inr ()" "m = MAccepted \<lparr> ac_request_id = the (rm_request_id raw) \<rparr>"
      using assms r by (auto simp: decode_response_def result_simps Let_def split: if_splits)
    then show ?thesis
      using r(1,3) ver by (auto simp: slots has_nonaccepted_fields_def validate_request_id_def split: if_splits)
  next
    case 2
    then have "rm_request_id raw \<noteq> None" "rm_exit_code raw \<noteq> None" "rm_stdout raw \<noteq> None" "rm_stderr raw \<noteq> None"
      "rm_argv raw = None" "rm_cwd raw = None" "rm_operation raw = None" "rm_code raw = None" "rm_message raw = None"
      "validate_request_id (the (rm_request_id raw)) = Inr ()"
      "m = MCompleted \<lparr> co_request_id = the (rm_request_id raw), co_exit_code = the (rm_exit_code raw),
         co_stdout = the (rm_stdout raw), co_stderr = the (rm_stderr raw) \<rparr>"
      using assms r by (auto simp: decode_response_def result_simps Let_def split: if_splits)
    then show ?thesis
      using r(1,3) ver code by (auto simp: slots validate_request_id_def split: if_splits)
  next
    case 3
    then have "rm_code raw \<noteq> None" "rm_message raw \<noteq> None" "rm_argv raw = None" "rm_cwd raw = None"
      "rm_operation raw = None" "rm_request_id raw = None" "rm_exit_code raw = None" "rm_stdout raw = None"
      "rm_stderr raw = None" "the (rm_code raw) \<noteq> []"
      "m = MRejected \<lparr> rj_code = the (rm_code raw), rj_message = the (rm_message raw) \<rparr>"
      using assms r by (auto simp: decode_response_def result_simps Let_def split: if_splits)
    then show ?thesis using r(1,3) ver by (auto simp: slots split: if_splits)
  qed
qed

subsection \<open>A concrete library for examples\<close>

definition sample_lib :: "jval \<Rightarrow> ustr \<Rightarrow> json_lib" where
  "sample_lib v doc =
     \<lparr> write_json = (\<lambda>w. if w = v then ([as_bytes doc], True) else ([], False)),
       read_json = (\<lambda>d. if d = doc then (v, True) else (JBad, False)) \<rparr>"

definition sample_accepted :: message where
  "sample_accepted = MAccepted \<lparr> ac_request_id = lit ''a'' \<rparr>"

text \<open>Documents are spelled with \<open>^\<close> for the quotation mark.\<close>

definition json_doc :: "string \<Rightarrow> ustr" where
  "json_doc s = lit (map (\<lambda>c. if c = CHR ''^'' then CHR 0x22 else c) s)"

definition sample_accepted_doc :: ustr where
  "sample_accepted_doc = json_doc ''{^version^:4,^type^:^accepted^,^request_id^:^a^}''"

definition sample_request_message :: message where
  "sample_request_message = MRequest
     \<lparr> rq_operation = default_operation\<lparr> op_query := lit ''q'' \<rparr>, rq_argv = [lit ''q''], rq_cwd = lit ''/'' \<rparr>"

definition sample_request_doc :: ustr where
  "sample_request_doc = json_doc (''{^version^:4,^type^:^request^,^operation^:{^kind^:^search^,^query^:^q^,^k^:^5^,''
     @ ''^json^:false,^full^:false,^no_gate^:false,^explain^:false},^argv^:[^q^],^cwd^:^/^}'')"

abbreviation sample_request_lib :: json_lib where
  "sample_request_lib \<equiv> sample_lib (message_wire sample_request_message) sample_request_doc"

abbreviation sample_accepted_lib :: json_lib where
  "sample_accepted_lib \<equiv> sample_lib (message_wire sample_accepted) sample_accepted_doc"

lemma sample_lib_faithful:
  assumes "deepest 0 (outside_strings False False (as_bytes doc)) \<le> jdepth v"
    "\<forall>c \<in> set doc. is_scalar c" "prefix (lit ''{'') doc"
  shows "json_faithful (sample_lib v doc) v"
  unfolding json_faithful_def
  by (intro exI [of _ "[as_bytes doc]"] exI [of _ doc]) (use assms in \<open>simp add: sample_lib_def\<close>)

lemma sample_accepted_faithful: "json_faithful sample_accepted_lib (message_wire sample_accepted)"
  by (rule sample_lib_faithful; code_simp)

lemma sample_request_faithful: "json_faithful sample_request_lib (message_wire sample_request_message)"
  by (rule sample_lib_faithful; code_simp)

lemma sample_accepted_encode: "encode sample_accepted_lib sample_accepted = Inr (as_bytes sample_accepted_doc)"
  by code_simp

lemma sample_request_encode: "encode sample_request_lib sample_request_message = Inr (as_bytes sample_request_doc)"
  by code_simp

section \<open>Properties\<close>

text \<open>The bounded writer returns exactly the serialized bytes when they fit the limit, and
  otherwise \<open>FrameTooLarge\<close> with the (saturated) full size; at no point during serialization does
  it retain more than \<open>limit\<close> bytes.\<close>

lemma encode_bounded_exact:
  assumes "limit < USIZE_MAX" "write_json lib v = (chunks, True)"
  shows "encode_bounded lib v limit
      = (if length (concat chunks) \<le> limit then Inr (concat chunks)
         else Inl (FrameTooLarge (min (length (concat chunks)) USIZE_MAX) limit))
    \<and> length (bw_bytes (foldl bounded_write_all (bounded_new limit) (take n chunks))) \<le> limit"
  using encode_bounded_run [OF assms] assms(1) by (simp add: bounded_run)

lemma encode_bounded_exact_example:
  "encode_bounded sample_accepted_lib (message_wire sample_accepted) 4 = Inl (FrameTooLarge 48 4)"
proof -
  have "write_json sample_accepted_lib (message_wire sample_accepted) = ([as_bytes sample_accepted_doc], True)"
    by (simp add: sample_lib_def)
  moreover have "4 < USIZE_MAX" by (simp add: USIZE_MAX_def)
  moreover have "length (concat [as_bytes sample_accepted_doc]) = 48" by code_simp
  ultimately show ?thesis using encode_bounded_exact [of 4 sample_accepted_lib "message_wire sample_accepted" _ 1]
    by (simp add: USIZE_MAX_def)
qed



text \<open>C13: a body is accepted as a request only if it is within the size and nesting bounds and its
  document is one complete JSON object whose keys, without duplicates, are exactly the fields of a
  request; the message then satisfies every bound of the protocol.\<close>

theorem decode_request_strict:
  assumes "decode_request lib body = Inr m"
  shows "length body \<le> MAX_REQUEST_BYTES \<and> deepest 0 (outside_strings False False body) \<le> MAX_JSON_NESTING
    \<and> (\<exists>doc entries. from_utf8 body = Some doc \<and> read_json lib doc = (JObj entries True, True)
         \<and> distinct (map fst entries) \<and> set (map fst entries) = message_fields m)
    \<and> (\<exists>r. m = MRequest r) \<and> message_valid m"
  using decode_request_Inr [OF assms] decode_object_Inr by metis

theorem decode_request_strict_witness:
  "decode_request sample_request_lib (as_bytes sample_request_doc) = Inr sample_request_message
   \<and> message_valid sample_request_message"
proof -
  have "decode_request sample_request_lib (as_bytes sample_request_doc) = Inr sample_request_message"
    using decode_encode [OF sample_request_faithful _ sample_request_encode]
    by (simp add: sample_request_message_def message_bounded_def decode_for_def MAX_ARGUMENT_BYTES_def lit_def utf8_char_len_def)
  with decode_request_strict [OF this] show ?thesis by blast
qed

text \<open>The same for responses, which are never requests.\<close>

lemma decode_response_strict:
  assumes "decode_response lib body = Inr m"
  shows "length body \<le> MAX_RESPONSE_BYTES \<and> deepest 0 (outside_strings False False body) \<le> MAX_JSON_NESTING
    \<and> (\<exists>doc entries. from_utf8 body = Some doc \<and> read_json lib doc = (JObj entries True, True)
         \<and> distinct (map fst entries) \<and> set (map fst entries) = message_fields m)
    \<and> (\<forall>r. m \<noteq> MRequest r) \<and> message_valid m"
  using decode_response_Inr [OF assms] decode_object_Inr by metis

lemma decode_response_strict_example:
  "decode_response sample_accepted_lib (as_bytes sample_accepted_doc) = Inr sample_accepted
   \<and> message_valid sample_accepted"
proof -
  have "decode_response sample_accepted_lib (as_bytes sample_accepted_doc) = Inr sample_accepted"
    using decode_encode [OF sample_accepted_faithful _ sample_accepted_encode]
    by (simp add: sample_accepted_def message_bounded_def decode_for_def)
  with decode_response_strict [OF this] show ?thesis by blast
qed

text \<open>The single pass of \<open>validate_nesting\<close> accepts a body exactly when the brackets outside its
  string literals never nest deeper than 128.\<close>

lemma validate_nesting_reference:
  "validate_nesting body
   = (if deepest 0 (outside_strings False False body) \<le> MAX_JSON_NESTING then Inr () else Inl InvalidJson)"
  by (rule validate_nesting_deepest)

end
