(* ===== verification/Transport.thy ===== *)
theory Transport
  imports Json_Wire
begin

text \<open>
  The byte streams \<open>yams-protocol/src/frame.rs\<close> works on. What the operating system answers is data
  of the stream: a script of read results (data as it arrives, or an error), of how many bytes each
  \<open>write\<close> takes, of the outcome of each control call and \<open>poll\<close>, and of how much time has passed at
  each \<open>Instant::now()\<close>. Every finite behaviour of a socket is one such script; an exhausted script
  means end of file, unlimited writes, successful control calls, an expired \<open>poll\<close> and a still clock.
  Times are nanoseconds. \<open>Vec<u8>\<close> as a writer is the stream with empty scripts.
\<close>

section \<open>Definitions\<close>

datatype read_event = RData "u8 list" | RErr io_kind
datatype write_event = WTake nat | WErr io_kind
datatype poll_event = PReady | PExpired | PIntr | PErr io_kind

record stream =
  st_reads :: "read_event list"
  st_writes :: "write_event list"
  st_sent :: "u8 list"
  st_control :: "io_kind option list"
  st_polls :: "poll_event list"
  st_read_timeout :: "nat option"
  st_write_timeout :: "nat option"
  st_nonblocking :: bool
  st_now :: nat
  st_ticks :: "nat list"

definition plain_stream :: stream where
  "plain_stream =
     \<lparr> st_reads = [], st_writes = [], st_sent = [], st_control = [], st_polls = [], st_read_timeout = None,
       st_write_timeout = None, st_nonblocking = False, st_now = 0, st_ticks = [] \<rparr>"

subsection \<open>System calls\<close>

fun read_events :: "nat \<Rightarrow> read_event list \<Rightarrow> (io_kind, u8 list) result \<times> read_event list" where
  "read_events n [] = (Inr [], [])"
| "read_events n (RErr k # es) = (Inl k, es)"
| "read_events n (RData bs # es) =
     (if length bs \<le> n then (Inr bs, es) else (Inr (take n bs), RData (drop n bs) # es))"

definition sys_read :: "nat \<Rightarrow> stream \<Rightarrow> (io_kind, u8 list) result \<times> stream" where
  "sys_read n s = (case read_events n (st_reads s) of (r, es) \<Rightarrow> (r, s\<lparr> st_reads := es \<rparr>))"

text \<open>\<open>Write::write\<close> of a non-empty buffer: the number of bytes taken.\<close>

definition sys_write :: "u8 list \<Rightarrow> stream \<Rightarrow> (io_kind, nat) result \<times> stream" where
  "sys_write input s =
     (case st_writes s of
        [] \<Rightarrow> (Inr (length input), s\<lparr> st_sent := st_sent s @ input \<rparr>)
      | WErr k # ws \<Rightarrow> (Inl k, s\<lparr> st_writes := ws \<rparr>)
      | WTake n # ws \<Rightarrow>
          (Inr (min n (length input)), s\<lparr> st_writes := ws, st_sent := st_sent s @ take n input \<rparr>))"

definition sys_now :: "stream \<Rightarrow> nat \<times> stream" where
  "sys_now s =
     (case st_ticks s of
        [] \<Rightarrow> (st_now s, s)
      | t # ts \<Rightarrow> (st_now s + t, s\<lparr> st_now := st_now s + t, st_ticks := ts \<rparr>))"

definition sys_control :: "(stream \<Rightarrow> stream) \<Rightarrow> stream \<Rightarrow> (io_kind, unit) result \<times> stream" where
  "sys_control f s =
     (case st_control s of
        [] \<Rightarrow> (Inr (), f s)
      | None # cs \<Rightarrow> (Inr (), f (s\<lparr> st_control := cs \<rparr>))
      | Some k # cs \<Rightarrow> (Inl k, s\<lparr> st_control := cs \<rparr>))"

definition set_read_timeout :: "nat option \<Rightarrow> stream \<Rightarrow> (io_kind, unit) result \<times> stream" where
  "set_read_timeout t = sys_control (\<lambda>s. s\<lparr> st_read_timeout := t \<rparr>)"

definition set_write_timeout :: "nat option \<Rightarrow> stream \<Rightarrow> (io_kind, unit) result \<times> stream" where
  "set_write_timeout t = sys_control (\<lambda>s. s\<lparr> st_write_timeout := t \<rparr>)"

definition set_nonblocking :: "bool \<Rightarrow> stream \<Rightarrow> (io_kind, unit) result \<times> stream" where
  "set_nonblocking b = sys_control (\<lambda>s. s\<lparr> st_nonblocking := b \<rparr>)"

text \<open>Reporting a timeout is a control call that may fail as well.\<close>

definition get_timeout :: "(stream \<Rightarrow> nat option) \<Rightarrow> stream \<Rightarrow> (io_kind, nat option) result \<times> stream" where
  "get_timeout f s = (case sys_control id s of (r, s') \<Rightarrow> (res_map (\<lambda>_. f s') r, s'))"

definition sys_poll :: "stream \<Rightarrow> poll_event \<times> stream" where
  "sys_poll s = (case st_polls s of [] \<Rightarrow> (PExpired, s) | p # ps \<Rightarrow> (p, s\<lparr> st_polls := ps \<rparr>))"

subsection \<open>Sequencing\<close>

definition io_bind ::
  "('e, 'a) result \<times> stream \<Rightarrow> ('a \<Rightarrow> stream \<Rightarrow> ('e, 'b) result \<times> stream) \<Rightarrow> ('e, 'b) result \<times> stream" where
  "io_bind m f = (case m of (Inl e, s) \<Rightarrow> (Inl e, s) | (Inr x, s) \<Rightarrow> f x s)"

definition io_err :: "(io_kind, 'a) result \<times> stream \<Rightarrow> (protocol_error, 'a) result \<times> stream" where
  "io_err m = (case m of (r, s) \<Rightarrow> (map_err Io r, s))"

text \<open>The timeout a transfer borrows: the one in force and whether it was replaced.\<close>

record borrowed =
  bo_current :: "nat option"
  bo_changed :: bool

definition borrow_timeout ::
  "(nat option \<Rightarrow> stream \<Rightarrow> (io_kind, unit) result \<times> stream) \<Rightarrow> nat \<Rightarrow> borrowed \<Rightarrow> stream
   \<Rightarrow> (protocol_error, unit) result \<times> borrowed \<times> stream" where
  "borrow_timeout set_timeout timeout b s =
     (if bo_current b \<noteq> Some timeout
      then (case set_timeout (Some timeout) s of
              (Inl k, s') \<Rightarrow> (Inl (Io k), b, s')
            | (Inr _, s') \<Rightarrow> (Inr (), \<lparr> bo_current = Some timeout, bo_changed = True \<rparr>, s'))
      else (Inr (), b, s))"

subsection \<open>Waiting\<close>

lemma sys_poll_load: "sys_poll s = (PIntr, s') \<Longrightarrow> length (st_polls s') < length (st_polls s)"
  by (auto simp: sys_poll_def split: list.splits)

text \<open>\<open>poll_until\<close> hands the remaining time to \<open>poll\<close> and waits again after an interruption.\<close>

function poll_until :: "nat \<Rightarrow> stream \<Rightarrow> (protocol_error, unit) result \<times> stream" where
  "poll_until deadline s =
     (case sys_now s of (now, s) \<Rightarrow>
      if deadline \<le> now then (Inl FrameDeadlineExceeded, s)
      else (case sys_poll s of
              (PExpired, s) \<Rightarrow> (Inl FrameDeadlineExceeded, s)
            | (PReady, s) \<Rightarrow> (Inr (), s)
            | (PIntr, s) \<Rightarrow> poll_until deadline s
            | (PErr k, s) \<Rightarrow> (Inl (Io k), s)))"
  by pat_completeness auto
termination
  by (relation "measure (\<lambda>(_, s). length (st_polls s))")
     (auto dest!: sys_poll_load [OF sym] simp: sys_now_def split: list.splits)

declare poll_until.simps [simp del]

subsection \<open>Measures and contents\<close>

fun event_load :: "read_event \<Rightarrow> nat" where
  "event_load (RData bs) = Suc (length bs)"
| "event_load (RErr k) = 1"

definition read_load :: "stream \<Rightarrow> nat" where
  "read_load s = sum_list (map event_load (st_reads s))"

text \<open>A script that delivers its data with no end of file and no error but interruptions, and the
  data it delivers.\<close>

definition clean_reads :: "read_event list \<Rightarrow> bool" where
  "clean_reads es = (\<forall>e \<in> set es. case e of RData bs \<Rightarrow> bs \<noteq> [] | RErr k \<Rightarrow> k = Interrupted)"

fun payload :: "read_event list \<Rightarrow> u8 list" where
  "payload [] = []"
| "payload (RData bs # es) = bs @ payload es"
| "payload (RErr k # es) = payload es"

definition clean_writes :: "write_event list \<Rightarrow> bool" where
  "clean_writes ws = (\<forall>w \<in> set ws. case w of WTake n \<Rightarrow> 0 < n | WErr k \<Rightarrow> k = Interrupted)"

section \<open>Lemmas\<close>

lemma io_bind_simps [simp]: "io_bind (Inl e, s) f = (Inl e, s)" "io_bind (Inr x, s) f = f x s"
  by (simp_all add: io_bind_def)

lemma io_err_simps [simp]: "io_err (Inl k, s) = (Inl (Io k), s)" "io_err (Inr x, s) = (Inr x, s)"
  by (simp_all add: io_err_def)

lemma read_events_load:
  assumes "read_events n es = (r, es')" "r \<noteq> Inr []"
  shows "sum_list (map event_load es') < sum_list (map event_load es)"
  using assms by (induction n es rule: read_events.induct) (auto split: if_splits)

lemma sys_read_load:
  assumes "sys_read n s = (r, s')" "r \<noteq> Inr []"
  shows "read_load s' < read_load s"
  using assms by (auto simp: sys_read_def read_load_def dest: read_events_load split: prod.splits)

lemma sys_write_load:
  assumes "sys_write input s = (r, s')"
  shows "case r of Inl k \<Rightarrow> length (st_writes s') < length (st_writes s) \<and> st_sent s' = st_sent s
    | Inr n \<Rightarrow> n \<le> length input \<and> length (st_writes s') \<le> length (st_writes s) \<and> st_sent s' = st_sent s @ take n input"
  using assms by (auto simp: sys_write_def min_def split: list.splits write_event.splits)

lemma read_events_length: "read_events n es = (Inr bs, es') \<Longrightarrow> length bs \<le> n"
  by (induction n es rule: read_events.induct) (auto split: if_splits)

lemma read_events_Inr_payload: "read_events n es = (Inr bs, es') \<Longrightarrow> payload es = bs @ payload es'"
  by (induction n es rule: read_events.induct) (auto split: if_splits)

lemma read_events_clean:
  assumes "read_events n es = (r, es')" "clean_reads es" "0 < n"
  shows "clean_reads es' \<and>
    (case r of Inl k \<Rightarrow> k = Interrupted \<and> payload es' = payload es
     | Inr bs \<Rightarrow> payload es = bs @ payload es' \<and> (bs = [] \<longleftrightarrow> payload es = []) \<and> length bs \<le> n)"
  using assms by (induction n es rule: read_events.induct) (auto simp: clean_reads_def split: if_splits)

lemma sys_now_mono: "sys_now s = (t, s') \<Longrightarrow> st_now s \<le> t \<and> st_now s' = t"
  by (auto simp: sys_now_def split: list.splits)

lemma sys_now_fields [simp]:
  assumes "sys_now s = (t, s')"
  shows "st_reads s' = st_reads s" "st_writes s' = st_writes s" "st_sent s' = st_sent s"
    "st_control s' = st_control s" "st_polls s' = st_polls s" "st_read_timeout s' = st_read_timeout s"
    "st_write_timeout s' = st_write_timeout s" "st_nonblocking s' = st_nonblocking s"
  using assms by (auto simp: sys_now_def split: list.splits)

lemma borrow_timeout_reads:
  "borrow_timeout set_read_timeout t b s = (r, b', s') \<Longrightarrow> st_reads s' = st_reads s"
  by (auto simp: borrow_timeout_def set_read_timeout_def sys_control_def
           split: if_splits list.splits option.splits prod.splits sum.splits)

lemma borrow_timeout_writes:
  "borrow_timeout set_write_timeout t b s = (r, b', s')
   \<Longrightarrow> st_writes s' = st_writes s \<and> st_sent s' = st_sent s"
  by (auto simp: borrow_timeout_def set_write_timeout_def sys_control_def
           split: if_splits list.splits option.splits prod.splits sum.splits)

lemma sys_poll_fields:
  "sys_poll s = (p, s') \<Longrightarrow> st_reads s' = st_reads s \<and> st_writes s' = st_writes s \<and> st_sent s' = st_sent s
     \<and> st_now s' = st_now s"
  by (auto simp: sys_poll_def split: list.splits)

lemma poll_until_fields:
  "poll_until deadline s = (r, s') \<Longrightarrow> st_reads s' = st_reads s \<and> st_writes s' = st_writes s \<and> st_sent s' = st_sent s"
proof (induction deadline s rule: poll_until.induct)
  case (1 deadline s)
  obtain now s1 where n: "sys_now s = (now, s1)" by (cases "sys_now s")
  obtain p s2 where p: "sys_poll s1 = (p, s2)" by (cases "sys_poll s1")
  show ?case
    using 1 n p sys_now_fields [OF n] sys_poll_fields [OF p]
    by (cases p) (auto simp: poll_until.simps [of deadline s] split: if_splits)
qed

end
