(* ===== verification/Frame.thy ===== *)
theory Frame
  imports Transport
begin

text \<open>
  Length-prefixed frames, \<open>yams-protocol/src/frame.rs\<close>: the incremental \<open>FrameReader\<close>, the blocking
  reader and writer, their variants under an absolute deadline (socket timeouts, or non-blocking with
  \<open>poll\<close>), and the message functions built on them. Loops are recursive functions that end because
  every iteration consumes some of the stream's script or of the bytes to transfer.
\<close>

section \<open>Definitions\<close>

definition FRAME_HEADER_BYTES :: nat where "FRAME_HEADER_BYTES = 4"
definition U32_MAX :: nat where "U32_MAX = 2 ^ 32 - 1"

definition from_be_bytes :: "u8 list \<Rightarrow> nat" where
  "from_be_bytes bs = foldl (\<lambda>acc b. acc * 256 + unat b) 0 bs"

text \<open>\<open>(len as u32).to_be_bytes()\<close>\<close>

definition to_be_bytes :: "nat \<Rightarrow> u8 list" where
  "to_be_bytes n = map of_nat [n div 2 ^ 24 mod 256, n div 2 ^ 16 mod 256, n div 2 ^ 8 mod 256, n mod 256]"

subsection \<open>The incremental reader\<close>

record frame_reader =
  fr_limit :: nat
  fr_header :: "u8 list"
  fr_header_len :: nat
  fr_declared :: "nat option"
  fr_body :: "u8 list"

definition frame_reader_new :: "nat \<Rightarrow> frame_reader" where
  "frame_reader_new limit =
     \<lparr> fr_limit = limit, fr_header = replicate FRAME_HEADER_BYTES 0, fr_header_len = 0, fr_declared = None,
       fr_body = [] \<rparr>"

definition want :: "frame_reader \<Rightarrow> nat" where
  "want r = (case fr_declared r of Some declared \<Rightarrow> declared - length (fr_body r)
     | None \<Rightarrow> FRAME_HEADER_BYTES - fr_header_len r)"

definition reader_frame :: "frame_reader \<Rightarrow> u8 list option" where
  "reader_frame r = (case fr_declared r of None \<Rightarrow> None
     | Some declared \<Rightarrow> if length (fr_body r) = declared then Some (fr_body r) else None)"

definition feed :: "frame_reader \<Rightarrow> u8 list \<Rightarrow> (protocol_error, bool) result \<times> frame_reader" where
  "feed r input =
     (if reader_frame r \<noteq> None then (Inl FrameAlreadyComplete, r)
      else if input = [] then (Inl TruncatedFrame, r)
      else case fr_declared r of
        Some declared \<Rightarrow>
          if length input > declared - length (fr_body r) then (Inl FrameInputTooLong, r)
          else let r' = r\<lparr> fr_body := fr_body r @ input \<rparr> in (Inr (length (fr_body r') = declared), r')
      | None \<Rightarrow>
          let header_needed = FRAME_HEADER_BYTES - fr_header_len r
          in if length input < header_needed
             then (Inr False, r\<lparr> fr_header := take (fr_header_len r) (fr_header r) @ input
                                   @ drop (fr_header_len r + length input) (fr_header r),
                                 fr_header_len := fr_header_len r + length input \<rparr>)
             else let complete_header = take (fr_header_len r) (fr_header r) @ take header_needed input;
                      declared = from_be_bytes complete_header;
                      body = drop header_needed input
                  in if declared > fr_limit r then (Inl (FrameTooLarge declared (fr_limit r)), r)
                     else if length body > declared then (Inl FrameInputTooLong, r)
                     else let r' = r\<lparr> fr_header := complete_header, fr_header_len := FRAME_HEADER_BYTES,
                                      fr_declared := Some declared, fr_body := fr_body r @ body \<rparr>
                          in (Inr (length (fr_body r') = declared), r'))"

subsection \<open>Blocking transfer\<close>

function read_exact :: "nat \<Rightarrow> u8 list \<Rightarrow> stream \<Rightarrow> (protocol_error, u8 list) result \<times> stream" where
  "read_exact n filled s =
     (if length filled < n then
        (case sys_read (n - length filled) s of
           (Inr [], s') \<Rightarrow> (Inl TruncatedFrame, s')
         | (Inr (b # bs), s') \<Rightarrow> read_exact n (filled @ b # bs) s'
         | (Inl k, s') \<Rightarrow> if k = Interrupted then read_exact n filled s' else (Inl (Io k), s'))
      else (Inr filled, s))"
  by pat_completeness auto
termination by (relation "measure (\<lambda>(_, _, s). read_load s)") (auto dest: sys_read_load [OF sym])

declare read_exact.simps [simp del]

definition read_frame :: "stream \<Rightarrow> nat \<Rightarrow> (protocol_error, u8 list) result \<times> stream" where
  "read_frame s limit =
     io_bind (read_exact FRAME_HEADER_BYTES [] s) (\<lambda>header s.
       let declared = from_be_bytes header
       in if declared > limit then (Inl (FrameTooLarge declared limit), s)
          else read_exact declared [] s)"

function write_all :: "u8 list \<Rightarrow> nat \<Rightarrow> stream \<Rightarrow> (protocol_error, unit) result \<times> stream" where
  "write_all input written s =
     (if written < length input then
        (case sys_write (drop written input) s of
           (Inr n, s') \<Rightarrow> if n = 0 then (Inl (Io WriteZero), s') else write_all input (written + n) s'
         | (Inl k, s') \<Rightarrow> if k = Interrupted then write_all input written s' else (Inl (Io k), s'))
      else (Inr (), s))"
  by pat_completeness auto
termination
  by (relation "measure (\<lambda>(input, written, s). (length input - written) + length (st_writes s))")
     (auto simp: sys_write_def split: list.splits write_event.splits)

declare write_all.simps [simp del]

definition validate_frame_size :: "u8 list \<Rightarrow> nat \<Rightarrow> (protocol_error, unit) result" where
  "validate_frame_size body limit =
     (if length body > limit \<or> length body > U32_MAX then Inl (FrameTooLarge (length body) (min limit U32_MAX))
      else Inr ())"

definition write_frame :: "stream \<Rightarrow> u8 list \<Rightarrow> nat \<Rightarrow> (protocol_error, unit) result \<times> stream" where
  "write_frame s body limit =
     (case validate_frame_size body limit of
        Inl e \<Rightarrow> (Inl e, s)
      | Inr _ \<Rightarrow> io_bind (write_all (to_be_bytes (length body)) 0 s) (\<lambda>_ s. write_all body 0 s))"

subsection \<open>Socket timeouts under an absolute deadline\<close>

definition MILLISECOND :: nat where "MILLISECOND = 10 ^ 6"

definition timeout_for_deadline :: "nat \<Rightarrow> nat option \<Rightarrow> nat" where
  "timeout_for_deadline remaining original =
     (let clamped = max remaining MILLISECOND
      in case original of
           Some caller \<Rightarrow>
             if remaining \<ge> MILLISECOND \<and> caller > clamped \<and> caller - clamped < MILLISECOND then caller
             else min caller clamped
         | None \<Rightarrow> clamped)"

definition read_timeout_for_deadline :: "nat \<Rightarrow> nat option \<Rightarrow> nat" where
  "read_timeout_for_deadline remaining original = timeout_for_deadline remaining original"

text \<open>\<open>original.is_none_or(|caller| timeout < caller)\<close>\<close>

definition deadline_timeout :: "nat option \<Rightarrow> nat \<Rightarrow> bool" where
  "deadline_timeout original timeout = (case original of None \<Rightarrow> True | Some caller \<Rightarrow> timeout < caller)"

function read_exact_with_deadline ::
  "nat \<Rightarrow> u8 list \<Rightarrow> nat \<Rightarrow> nat option \<Rightarrow> borrowed \<Rightarrow> stream
   \<Rightarrow> (protocol_error, u8 list) result \<times> borrowed \<times> stream" where
  "read_exact_with_deadline n filled deadline original b s =
     (if length filled < n then
        (case sys_now s of (now, s) \<Rightarrow>
         if deadline \<le> now then (Inl FrameDeadlineExceeded, b, s)
         else let timeout = read_timeout_for_deadline (deadline - now) original in
         (case borrow_timeout set_read_timeout timeout b s of
            (Inl e, b, s) \<Rightarrow> (Inl e, b, s)
          | (Inr _, b, s) \<Rightarrow>
           (case sys_read (n - length filled) s of
              (Inr [], s) \<Rightarrow> (Inl TruncatedFrame, b, s)
            | (Inr (x # xs), s) \<Rightarrow>
                (case sys_now s of (now, s) \<Rightarrow>
                 if now \<ge> deadline then (Inl FrameDeadlineExceeded, b, s)
                 else read_exact_with_deadline n (filled @ x # xs) deadline original b s)
            | (Inl k, s) \<Rightarrow>
                if k = Interrupted then read_exact_with_deadline n filled deadline original b s
                else if k = TimedOut \<or> k = WouldBlock then
                  (case sys_now s of (now, s) \<Rightarrow>
                   if now \<ge> deadline \<or> deadline_timeout original timeout then (Inl FrameDeadlineExceeded, b, s)
                   else (Inl (Io k), b, s))
                else (Inl (Io k), b, s))))
      else (Inr filled, b, s))"
  by pat_completeness auto
termination
  by (relation "measure (\<lambda>(_, _, _, _, _, s). read_load s)")
     (auto simp: read_load_def dest!: sys_read_load [OF sym] borrow_timeout_reads [OF sym] sys_now_fields(1) [OF sym])

declare read_exact_with_deadline.simps [simp del]

definition read_frame_with_deadline_from :: "stream \<Rightarrow> nat \<Rightarrow> nat \<Rightarrow> (protocol_error, u8 list) result \<times> stream" where
  "read_frame_with_deadline_from s limit deadline =
     (case sys_now s of (now, s) \<Rightarrow>
      if deadline \<le> now then (Inl FrameDeadlineExceeded, s)
      else io_bind (io_err (get_timeout st_read_timeout s)) (\<lambda>original s.
        case (case read_exact_with_deadline FRAME_HEADER_BYTES [] deadline original
                     \<lparr> bo_current = original, bo_changed = False \<rparr> s of
                (Inl e, b, s) \<Rightarrow> (Inl e, b, s)
              | (Inr header, b, s) \<Rightarrow>
                  let declared = from_be_bytes header
                  in if declared > limit then (Inl (FrameTooLarge declared limit), b, s)
                     else read_exact_with_deadline declared [] deadline original b s) of
          (Inl e, b, s) \<Rightarrow> (Inl e, if bo_changed b then snd (set_read_timeout original s) else s)
        | (Inr body, b, s) \<Rightarrow>
            if bo_changed b then io_bind (io_err (set_read_timeout original s)) (\<lambda>_ s. (Inr body, s))
            else (Inr body, s)))"

definition read_frame_with_deadline :: "stream \<Rightarrow> nat \<Rightarrow> nat \<Rightarrow> (protocol_error, u8 list) result \<times> stream" where
  "read_frame_with_deadline s limit deadline = read_frame_with_deadline_from s limit deadline"

function write_all_with_deadline ::
  "u8 list \<Rightarrow> nat \<Rightarrow> nat \<Rightarrow> nat option \<Rightarrow> borrowed \<Rightarrow> stream \<Rightarrow> (protocol_error, unit) result \<times> borrowed \<times> stream" where
  "write_all_with_deadline input written deadline original b s =
     (if written < length input then
        (case sys_now s of (now, s) \<Rightarrow>
         if deadline \<le> now then (Inl FrameDeadlineExceeded, b, s)
         else let timeout = timeout_for_deadline (deadline - now) original in
         (case borrow_timeout set_write_timeout timeout b s of
            (Inl e, b, s) \<Rightarrow> (Inl e, b, s)
          | (Inr _, b, s) \<Rightarrow>
           (case sys_write (drop written input) s of
              (Inr n, s) \<Rightarrow>
                if n = 0 then (Inl (Io WriteZero), b, s)
                else (case sys_now s of (now, s) \<Rightarrow>
                      if now \<ge> deadline then (Inl FrameDeadlineExceeded, b, s)
                      else write_all_with_deadline input (written + n) deadline original b s)
            | (Inl k, s) \<Rightarrow>
                if k = Interrupted then write_all_with_deadline input written deadline original b s
                else if k = TimedOut \<or> k = WouldBlock then
                  (case sys_now s of (now, s) \<Rightarrow>
                   if now \<ge> deadline \<or> deadline_timeout original timeout then (Inl FrameDeadlineExceeded, b, s)
                   else (Inl (Io k), b, s))
                else (Inl (Io k), b, s))))
      else (Inr (), b, s))"
  by pat_completeness auto
termination
  by (relation "measure (\<lambda>(input, written, _, _, _, s). (length input - written) + length (st_writes s))")
     (auto dest!: sys_write_load [OF sym] borrow_timeout_writes [OF sym] sys_now_fields(2) [OF sym])

declare write_all_with_deadline.simps [simp del]

definition write_frame_with_deadline :: "stream \<Rightarrow> u8 list \<Rightarrow> nat \<Rightarrow> nat \<Rightarrow> (protocol_error, unit) result \<times> stream" where
  "write_frame_with_deadline s body limit deadline =
     (case validate_frame_size body limit of
        Inl e \<Rightarrow> (Inl e, s)
      | Inr _ \<Rightarrow>
         (case sys_now s of (now, s) \<Rightarrow>
          if deadline \<le> now then (Inl FrameDeadlineExceeded, s)
          else io_bind (io_err (get_timeout st_write_timeout s)) (\<lambda>original s.
            case (case write_all_with_deadline (to_be_bytes (length body)) 0 deadline original
                         \<lparr> bo_current = original, bo_changed = False \<rparr> s of
                    (Inl e, b, s) \<Rightarrow> (Inl e, b, s)
                  | (Inr _, b, s) \<Rightarrow> write_all_with_deadline body 0 deadline original b s) of
              (result, b, s) \<Rightarrow>
                (case (if bo_changed b then io_err (set_write_timeout original s) else (Inr (), s)) of
                   (restore, s) \<Rightarrow> (res_bind result (\<lambda>_. restore), s)))))"

subsection \<open>Non-blocking transfer under an absolute deadline\<close>

function write_all_nonblocking_with_deadline ::
  "u8 list \<Rightarrow> nat \<Rightarrow> nat \<Rightarrow> stream \<Rightarrow> (protocol_error, unit) result \<times> stream" where
  "write_all_nonblocking_with_deadline input written deadline s =
     (if written < length input then
        (case sys_now s of (now, s) \<Rightarrow>
         if now \<ge> deadline then (Inl FrameDeadlineExceeded, s)
         else (case sys_write (drop written input) s of
                 (Inr n, s) \<Rightarrow>
                   if n = 0 then (Inl (Io WriteZero), s)
                   else write_all_nonblocking_with_deadline input (written + n) deadline s
               | (Inl k, s) \<Rightarrow>
                   if k = Interrupted then write_all_nonblocking_with_deadline input written deadline s
                   else if k = WouldBlock then
                     (case poll_until deadline s of
                        (Inl e, s) \<Rightarrow> (Inl e, s)
                      | (Inr _, s) \<Rightarrow> write_all_nonblocking_with_deadline input written deadline s)
                   else (Inl (Io k), s)))
      else (case sys_now s of (now, s) \<Rightarrow>
            if now \<ge> deadline then (Inl FrameDeadlineExceeded, s) else (Inr (), s)))"
  by pat_completeness auto
termination
  by (relation "measure (\<lambda>(input, written, _, s). (length input - written) + length (st_writes s))")
     (auto dest!: sys_write_load [OF sym] poll_until_fields [OF sym] sys_now_fields(2) [OF sym])

declare write_all_nonblocking_with_deadline.simps [simp del]

function read_frame_nonblocking_loop ::
  "frame_reader \<Rightarrow> nat \<Rightarrow> stream \<Rightarrow> (protocol_error, u8 list) result \<times> stream" where
  "read_frame_nonblocking_loop r deadline s =
     (case sys_now s of (now, s) \<Rightarrow>
      if now \<ge> deadline then (Inl FrameDeadlineExceeded, s)
      else (case sys_read (min (want r) 8192) s of
              (Inr [], s) \<Rightarrow> (Inl TruncatedFrame, s)
            | (Inr (x # xs), s) \<Rightarrow>
                (case feed r (x # xs) of
                   (Inl e, r) \<Rightarrow> (Inl e, s)
                 | (Inr finished, r) \<Rightarrow>
                     if finished then
                       (case sys_now s of (now, s) \<Rightarrow>
                        if now \<ge> deadline then (Inl FrameDeadlineExceeded, s) else (Inr (the (reader_frame r)), s))
                     else read_frame_nonblocking_loop r deadline s)
            | (Inl k, s) \<Rightarrow>
                if k = Interrupted then read_frame_nonblocking_loop r deadline s
                else if k = WouldBlock then
                  (case poll_until deadline s of
                     (Inl e, s) \<Rightarrow> (Inl e, s)
                   | (Inr _, s) \<Rightarrow> read_frame_nonblocking_loop r deadline s)
                else (Inl (Io k), s)))"
  by pat_completeness auto
termination
  by (relation "measure (\<lambda>(_, _, s). read_load s)")
     (auto simp: read_load_def
           dest!: sys_read_load [OF sym] poll_until_fields [OF sym] sys_now_fields(1) [OF sym])

declare read_frame_nonblocking_loop.simps [simp del]

definition read_frame_nonblocking_with_deadline ::
  "stream \<Rightarrow> nat \<Rightarrow> nat \<Rightarrow> (protocol_error, u8 list) result \<times> stream" where
  "read_frame_nonblocking_with_deadline s limit deadline = read_frame_nonblocking_loop (frame_reader_new limit) deadline s"

subsection \<open>Messages\<close>

definition send_message :: "json_lib \<Rightarrow> stream \<Rightarrow> message \<Rightarrow> (protocol_error, unit) result \<times> stream" where
  "send_message lib s m =
     (case encode lib m of
        Inl e \<Rightarrow> (Inl e, s)
      | Inr body \<Rightarrow> write_frame s body (case m of MRequest _ \<Rightarrow> MAX_REQUEST_BYTES | _ \<Rightarrow> MAX_RESPONSE_BYTES))"

definition send_message_with_deadline :: "json_lib \<Rightarrow> stream \<Rightarrow> message \<Rightarrow> nat \<Rightarrow> (protocol_error, unit) result \<times> stream" where
  "send_message_with_deadline lib s m deadline =
     (case encode lib m of
        Inl e \<Rightarrow> (Inl e, s)
      | Inr body \<Rightarrow>
          write_frame_with_deadline s body (case m of MRequest _ \<Rightarrow> MAX_REQUEST_BYTES | _ \<Rightarrow> MAX_RESPONSE_BYTES) deadline)"

definition receive_request :: "json_lib \<Rightarrow> stream \<Rightarrow> (protocol_error, message) result \<times> stream" where
  "receive_request lib s = io_bind (read_frame s MAX_REQUEST_BYTES) (\<lambda>body s. (decode_request lib body, s))"

definition receive_response :: "json_lib \<Rightarrow> stream \<Rightarrow> (protocol_error, message) result \<times> stream" where
  "receive_response lib s = io_bind (read_frame s MAX_RESPONSE_BYTES) (\<lambda>body s. (decode_response lib body, s))"

definition receive_request_with_deadline :: "json_lib \<Rightarrow> stream \<Rightarrow> nat \<Rightarrow> (protocol_error, message) result \<times> stream" where
  "receive_request_with_deadline lib s deadline =
     io_bind (read_frame_with_deadline s MAX_REQUEST_BYTES deadline) (\<lambda>body s. (decode_request lib body, s))"

definition receive_response_with_deadline :: "json_lib \<Rightarrow> stream \<Rightarrow> nat \<Rightarrow> (protocol_error, message) result \<times> stream" where
  "receive_response_with_deadline lib s deadline =
     io_bind (read_frame_with_deadline s MAX_RESPONSE_BYTES deadline) (\<lambda>body s. (decode_response lib body, s))"

definition exchange_request_with_deadline ::
  "json_lib \<Rightarrow> stream \<Rightarrow> request \<Rightarrow> nat \<Rightarrow> (protocol_error, message) result \<times> stream" where
  "exchange_request_with_deadline lib s r deadline =
     (case send_message lib plain_stream (MRequest r) of
        (Inl e, _) \<Rightarrow> (Inl e, s)
      | (Inr _, buffer) \<Rightarrow>
         (case sys_now s of (now, s) \<Rightarrow>
          if deadline \<le> now then (Inl FrameDeadlineExceeded, s)
          else io_bind (io_err (set_read_timeout None s)) (\<lambda>_ s.
               io_bind (io_err (set_write_timeout None s)) (\<lambda>_ s.
               io_bind (io_err (set_nonblocking True s)) (\<lambda>_ s.
                 case io_bind (write_all_nonblocking_with_deadline (st_sent buffer) 0 deadline s) (\<lambda>_ s.
                        case read_frame_nonblocking_with_deadline s MAX_RESPONSE_BYTES deadline of
                          (Inl e, s) \<Rightarrow> (Inl (if e = FrameDeadlineExceeded
                                              then ResponseDeadlineAfterRequestDelivery else e), s)
                        | (Inr body, s) \<Rightarrow> (decode_response lib body, s)) of
                   (result, s) \<Rightarrow>
                     (case io_err (set_nonblocking False s) of
                        (restore, s) \<Rightarrow> (res_bind result (\<lambda>m. res_map (\<lambda>_. m) restore), s)))))))"

subsection \<open>Specification\<close>

text \<open>A frame on the wire, and one frame read off the front of a byte string.\<close>

definition frame_bytes :: "u8 list \<Rightarrow> u8 list" where
  "frame_bytes body = to_be_bytes (length body) @ body"

definition declared_of :: "u8 list \<Rightarrow> nat" where
  "declared_of bs = from_be_bytes (take FRAME_HEADER_BYTES bs)"

definition parse_frame :: "nat \<Rightarrow> u8 list \<Rightarrow> (protocol_error, u8 list \<times> u8 list) result" where
  "parse_frame limit bs =
     (if length bs < FRAME_HEADER_BYTES then Inl TruncatedFrame
      else if declared_of bs > limit then Inl (FrameTooLarge (declared_of bs) limit)
      else if length bs < FRAME_HEADER_BYTES + declared_of bs then Inl TruncatedFrame
      else Inr (take (declared_of bs) (drop FRAME_HEADER_BYTES bs), drop (FRAME_HEADER_BYTES + declared_of bs) bs))"

text \<open>The abstract reader is the byte string accumulated so far.\<close>

definition accumulate :: "nat \<Rightarrow> u8 list \<Rightarrow> u8 list \<Rightarrow> (protocol_error, bool) result \<times> u8 list" where
  "accumulate limit acc input =
     (let bs = acc @ input
      in if FRAME_HEADER_BYTES \<le> length acc \<and> length acc = FRAME_HEADER_BYTES + declared_of acc
         then (Inl FrameAlreadyComplete, acc)
         else if input = [] then (Inl TruncatedFrame, acc)
         else if length bs < FRAME_HEADER_BYTES then (Inr False, bs)
         else if declared_of bs > limit then (Inl (FrameTooLarge (declared_of bs) limit), acc)
         else if length bs > FRAME_HEADER_BYTES + declared_of bs then (Inl FrameInputTooLong, acc)
         else (Inr (length bs = FRAME_HEADER_BYTES + declared_of bs), bs))"

definition reader_bytes :: "frame_reader \<Rightarrow> u8 list" where
  "reader_bytes r = take (fr_header_len r) (fr_header r) @ fr_body r"

definition reader_wf :: "frame_reader \<Rightarrow> bool" where
  "reader_wf r =
     (length (fr_header r) = FRAME_HEADER_BYTES \<and>
      (case fr_declared r of
         None \<Rightarrow> fr_header_len r < FRAME_HEADER_BYTES \<and> fr_body r = []
       | Some d \<Rightarrow> fr_header_len r = FRAME_HEADER_BYTES \<and> d = from_be_bytes (fr_header r) \<and> d \<le> fr_limit r
           \<and> length (fr_body r) \<le> d))"

text \<open>The readers an event loop can hold: a new one, and what \<open>feed\<close> leaves of one.\<close>

inductive reader_reach :: "nat \<Rightarrow> frame_reader \<Rightarrow> bool" for limit where
  fresh: "reader_reach limit (frame_reader_new limit)"
| fed: "reader_reach limit r \<Longrightarrow> feed r input = (res, r') \<Longrightarrow> reader_reach limit r'"

text \<open>Feeding a sequence of chunks until one fails.\<close>

fun feed_all :: "frame_reader \<Rightarrow> u8 list list \<Rightarrow> (protocol_error, bool list) result \<times> frame_reader" where
  "feed_all r [] = (Inr [], r)"
| "feed_all r (c # cs) =
     (case feed r c of
        (Inl e, r') \<Rightarrow> (Inl e, r')
      | (Inr finished, r') \<Rightarrow> (case feed_all r' cs of (res, r'') \<Rightarrow> (res_map (Cons finished) res, r'')))"

section \<open>Lemmas\<close>

subsection \<open>Length prefixes\<close>

lemma length_to_be_bytes [simp]: "length (to_be_bytes n) = FRAME_HEADER_BYTES"
  by (simp add: to_be_bytes_def FRAME_HEADER_BYTES_def)

lemma to_be_bytes_ne [simp]: "to_be_bytes n \<noteq> []"
  by (simp add: to_be_bytes_def)

lemma from_to_be_bytes: "n \<le> U32_MAX \<Longrightarrow> from_be_bytes (to_be_bytes n) = n"
proof -
  assume n: "n \<le> U32_MAX"
  have u: "unat (of_nat (m mod 256) :: u8) = m mod 256" for m by (rule unat_of_nat_u8) simp
  have "n div 2 ^ 24 mod 256 = n div 2 ^ 24" using n by (simp add: U32_MAX_def)
  moreover have "n div 2 ^ 24 * 256 + n div 2 ^ 16 mod 256 = n div 2 ^ 16"
    "n div 2 ^ 16 * 256 + n div 2 ^ 8 mod 256 = n div 2 ^ 8" "n div 2 ^ 8 * 256 + n mod 256 = n"
    using div_mult2_eq [of n "2 ^ 16" 256] div_mult2_eq [of n "2 ^ 8" 256] by simp_all
  moreover have "from_be_bytes (to_be_bytes n)
      = ((n div 2 ^ 24 mod 256 * 256 + n div 2 ^ 16 mod 256) * 256 + n div 2 ^ 8 mod 256) * 256 + n mod 256"
    by (simp only: from_be_bytes_def to_be_bytes_def list.map foldl.simps u mult_0 add_0)
  ultimately show ?thesis by (simp only:)
qed

lemma declared_of_append: "FRAME_HEADER_BYTES \<le> length bs \<Longrightarrow> declared_of (bs @ cs) = declared_of bs"
  by (simp add: declared_of_def)

lemma declared_of_frame: "length body \<le> U32_MAX \<Longrightarrow> declared_of (frame_bytes body @ rest) = length body"
  by (simp add: declared_of_def frame_bytes_def from_to_be_bytes)

lemma length_frame_bytes: "length (frame_bytes body) = FRAME_HEADER_BYTES + length body"
  by (simp add: frame_bytes_def)

lemma parse_frame_bytes:
  "length body \<le> limit \<Longrightarrow> length body \<le> U32_MAX \<Longrightarrow> parse_frame limit (frame_bytes body @ rest) = Inr (body, rest)"
  by (simp add: parse_frame_def declared_of_frame length_frame_bytes) (simp add: frame_bytes_def)

subsection \<open>The incremental reader\<close>

lemma reader_new_wf: "reader_wf (frame_reader_new limit)" "reader_bytes (frame_reader_new limit) = []"
  "fr_limit (frame_reader_new limit) = limit"
  by (simp_all add: reader_wf_def frame_reader_new_def reader_bytes_def FRAME_HEADER_BYTES_def)

lemma reader_frame_bytes:
  assumes "reader_wf r"
  shows "reader_frame r = (if FRAME_HEADER_BYTES \<le> length (reader_bytes r)
      \<and> length (reader_bytes r) = FRAME_HEADER_BYTES + declared_of (reader_bytes r)
    then Some (drop FRAME_HEADER_BYTES (reader_bytes r)) else None)"
  using assms by (auto simp: reader_wf_def reader_frame_def reader_bytes_def declared_of_def split: option.splits)

lemma feed_refines_accumulate:
  assumes wf: "reader_wf r" and fd: "feed r input = (res, r')"
  shows "reader_wf r' \<and> fr_limit r' = fr_limit r \<and> (\<forall>e. res = Inl e \<longrightarrow> r' = r)
    \<and> accumulate (fr_limit r) (reader_bytes r) input = (res, reader_bytes r')"
proof (cases "reader_frame r = None \<and> input \<noteq> []")
  case False
  then show ?thesis
    using wf fd reader_frame_bytes [OF wf] by (auto simp: feed_def accumulate_def Let_def split: if_splits)
next
  case True
  then have open_frame: "\<not> (FRAME_HEADER_BYTES \<le> length (reader_bytes r)
      \<and> length (reader_bytes r) = FRAME_HEADER_BYTES + declared_of (reader_bytes r))"
    using reader_frame_bytes [OF wf] by (auto split: if_splits)
  show ?thesis
  proof (cases "fr_declared r")
    case None
    with True wf fd open_frame show ?thesis
      by (auto simp: feed_def accumulate_def reader_wf_def reader_bytes_def declared_of_def Let_def
               split: if_splits)
  next
    case (Some d)
    with True wf fd open_frame show ?thesis
      by (auto simp: feed_def accumulate_def reader_wf_def reader_bytes_def declared_of_def Let_def
               split: if_splits)
  qed
qed

lemma reader_reach_wf: "reader_reach limit r \<Longrightarrow> reader_wf r \<and> fr_limit r = limit"
proof (induction rule: reader_reach.induct)
  case fresh
  show ?case by (simp add: reader_new_wf)
next
  case (fed r input res r')
  then show ?case using feed_refines_accumulate by metis
qed

lemma declared_of_prefix:
  assumes "bs @ rest = frame_bytes body" "FRAME_HEADER_BYTES \<le> length bs" "length body \<le> U32_MAX"
  shows "declared_of bs = length body"
  using declared_of_append [OF assms(2), of rest] declared_of_frame [OF assms(3), of "[]"] assms(1) by simp

lemma accumulate_prefix:
  assumes fr: "acc @ input @ rest = frame_bytes body" and ne: "input \<noteq> []"
    and size: "length body \<le> limit" "length body \<le> U32_MAX"
  shows "accumulate limit acc input = (Inr (rest = []), acc @ input)"
proof -
  have len: "length acc + length input + length rest = FRAME_HEADER_BYTES + length body"
    using arg_cong [OF fr, of length] by (simp add: length_frame_bytes)
  have "declared_of acc = length body" if "FRAME_HEADER_BYTES \<le> length acc"
    using declared_of_prefix [OF fr that size(2)] .
  moreover have "declared_of (acc @ input) = length body" if "FRAME_HEADER_BYTES \<le> length (acc @ input)"
    using declared_of_prefix [of "acc @ input" rest, OF _ that size(2)] fr by simp
  moreover have "0 < length input" using ne by simp
  ultimately show ?thesis using len size(1) ne unfolding accumulate_def Let_def by auto
qed

lemma feed_all_chunks:
  assumes "reader_wf r" "reader_bytes r @ concat cs = frame_bytes body" "[] \<notin> set cs"
    "length body \<le> fr_limit r" "length body \<le> U32_MAX" "cs \<noteq> []"
  shows "\<exists>r'. feed_all r cs = (Inr (replicate (length cs - 1) False @ [True]), r') \<and> reader_wf r'
    \<and> reader_bytes r' = frame_bytes body"
  using assms
proof (induction cs arbitrary: r)
  case (Cons c cs)
  obtain res r1 where fd: "feed r c = (res, r1)" by (cases "feed r c")
  have acc: "accumulate (fr_limit r) (reader_bytes r) c = (Inr (concat cs = []), reader_bytes r @ c)"
    by (rule accumulate_prefix) (use Cons.prems in auto)
  have r1: "reader_wf r1" "fr_limit r1 = fr_limit r" "res = Inr (concat cs = [])" "reader_bytes r1 = reader_bytes r @ c"
    using feed_refines_accumulate [OF Cons.prems(1) fd] acc by auto
  show ?case
  proof (cases cs)
    case Nil
    then show ?thesis using fd r1 Cons.prems(2) by auto
  next
    case (Cons d ds)
    then have "concat cs \<noteq> []" using Cons.prems(3) by auto
    moreover obtain r2 where "feed_all r1 cs = (Inr (replicate (length cs - 1) False @ [True]), r2)" "reader_wf r2"
      "reader_bytes r2 = frame_bytes body"
      using Cons.IH [of r1] r1 Cons.prems Cons by auto
    ultimately show ?thesis using fd r1(3) Cons by auto
  qed
qed simp

subsection \<open>Blocking transfer\<close>

lemma sys_read_reads:
  "sys_read n s = (r, s') \<Longrightarrow> read_events n (st_reads s) = (r, st_reads s') \<and> s' = s\<lparr> st_reads := st_reads s' \<rparr>"
  by (auto simp: sys_read_def split: prod.splits)

lemma read_exact_clean:
  assumes "clean_reads (st_reads s)" "length got \<le> n" "read_exact n got s = (r, s')"
  shows "clean_reads (st_reads s') \<and>
    (if n - length got \<le> length (payload (st_reads s))
     then r = Inr (got @ take (n - length got) (payload (st_reads s)))
       \<and> payload (st_reads s') = drop (n - length got) (payload (st_reads s))
     else r = Inl TruncatedFrame)"
  using assms
proof (induction n got s rule: read_exact.induct)
  case (1 n got s)
  show ?case
  proof (cases "length got < n")
    case False
    then show ?thesis using "1.prems" by (simp add: read_exact.simps [of n got s])
  next
    case True
    obtain q s1 where rd: "sys_read (n - length got) s = (q, s1)" by (cases "sys_read (n - length got) s")
    have ev: "read_events (n - length got) (st_reads s) = (q, st_reads s1)" using sys_read_reads [OF rd] by simp
    note step = read_events_clean [OF ev "1.prems"(1)]
    show ?thesis
    proof (cases q)
      case (Inl k)
      then show ?thesis using "1.IH"(1) [OF True rd [symmetric] Inl] step True rd "1.prems" by (simp add: read_exact.simps [of n got s])
    next
      case (Inr bs)
      show ?thesis
      proof (cases bs)
        case Nil
        then show ?thesis using Inr step True rd "1.prems" by (auto simp: read_exact.simps [of n got s])
      next
        case (Cons x xs)
        have len: "length bs \<le> n - length got" "payload (st_reads s) = bs @ payload (st_reads s1)"
          "clean_reads (st_reads s1)" using step Inr True by auto
        have "read_exact n (got @ bs) s1 = (r, s')"
          using "1.prems"(3) True rd Inr Cons by (simp add: read_exact.simps [of n got s])
        moreover define m where "m = n - length (got @ bs)"
        moreover have "n - length got = length bs + m" "length (got @ bs) \<le> n"
          using len(1) True by (auto simp: m_def)
        ultimately show ?thesis
          using "1.IH"(2) [OF True rd [symmetric] Inr Cons, folded Cons] len(2,3) by (auto split: if_splits)
      qed
    qed
  qed
qed

lemma read_exact_start:
  assumes "clean_reads (st_reads s)" "read_exact n [] s = (r, s')"
  shows "clean_reads (st_reads s') \<and>
    (if n \<le> length (payload (st_reads s))
     then r = Inr (take n (payload (st_reads s))) \<and> payload (st_reads s') = drop n (payload (st_reads s))
     else r = Inl TruncatedFrame)"
  using read_exact_clean [OF assms(1) _ assms(2)] by simp

lemma read_frame_parse:
  assumes "clean_reads (st_reads s)" "read_frame s limit = (r, s')"
  shows "clean_reads (st_reads s') \<and>
    (case parse_frame limit (payload (st_reads s)) of
       Inl e \<Rightarrow> r = Inl e
     | Inr (body, rest) \<Rightarrow> r = Inr body \<and> payload (st_reads s') = rest)"
proof -
  let ?p = "payload (st_reads s)"
  obtain q s1 where hd: "read_exact FRAME_HEADER_BYTES [] s = (q, s1)" by (cases "read_exact FRAME_HEADER_BYTES [] s")
  note h = read_exact_start [OF assms(1) hd]
  show ?thesis
  proof (cases "FRAME_HEADER_BYTES \<le> length ?p \<and> declared_of ?p \<le> limit")
    case False
    then show ?thesis
      using h assms(2) hd by (auto simp: read_frame_def parse_frame_def declared_of_def Let_def split: if_splits)
  next
    case True
    then have q: "q = Inr (take FRAME_HEADER_BYTES ?p)" "payload (st_reads s1) = drop FRAME_HEADER_BYTES ?p"
      "clean_reads (st_reads s1)" using h by auto
    have "read_exact (declared_of ?p) [] s1 = (r, s')"
      using assms(2) hd q(1) True by (simp add: read_frame_def declared_of_def Let_def split: if_splits)
    from read_exact_start [OF q(3) this] show ?thesis
      using True q(2) by (auto simp: parse_frame_def add.commute)
  qed
qed

lemma write_all_prefix:
  assumes "written \<le> length input" "write_all input written s = (r, s')"
  shows "\<exists>k. st_sent s' = st_sent s @ take k (drop written input) \<and> (r = Inr () \<longrightarrow> k = length input - written)
    \<and> st_reads s' = st_reads s"
  using assms
proof (induction input written s rule: write_all.induct)
  case (1 input written s)
  show ?case
  proof (cases "written < length input")
    case False
    then have "r = Inr ()" "s' = s" using "1.prems"(2) by (simp_all add: write_all.simps [of input written s])
    then show ?thesis using False "1.prems"(1) by auto
  next
    case True
    obtain q s1 where wr: "sys_write (drop written input) s = (q, s1)" by (cases "sys_write (drop written input) s")
    have rds: "st_reads s1 = st_reads s" using wr by (auto simp: sys_write_def split: list.splits write_event.splits)
    note step = sys_write_load [OF wr]
    show ?thesis
    proof (cases q)
      case (Inl k)
      show ?thesis
      proof (cases "k = Interrupted")
        case True
        then have "write_all input written s1 = (r, s')"
          using "1.prems" Inl wr \<open>written < length input\<close> by (simp add: write_all.simps [of input written s])
        then show ?thesis using "1.IH"(1) [OF \<open>written < length input\<close> wr [symmetric] Inl True] "1.prems"(1) step Inl rds by auto
      next
        case False
        then show ?thesis
          using "1.prems" Inl wr True step rds by (auto simp: write_all.simps [of input written s] intro: exI [of _ 0])
      qed
    next
      case (Inr n)
      show ?thesis
      proof (cases "n = 0")
        case True
        then show ?thesis
          using "1.prems" Inr wr \<open>written < length input\<close> step rds
          by (auto simp: write_all.simps [of input written s] intro: exI [of _ 0])
      next
        case False
        then have "write_all input (written + n) s1 = (r, s')"
          using "1.prems" Inr wr True by (simp add: write_all.simps [of input written s])
        moreover have "written + n \<le> length input" using step Inr True by auto
        ultimately obtain k where "st_sent s' = st_sent s1 @ take k (drop (written + n) input)"
          "r = Inr () \<longrightarrow> k = length input - (written + n)" "st_reads s' = st_reads s1"
          using "1.IH"(2) [OF True wr [symmetric] Inr False] by blast
        then show ?thesis
          using step Inr rds by (intro exI [of _ "n + k"]) (auto simp: take_add add.commute [of written n])
      qed
    qed
  qed
qed

lemma write_all_clean:
  assumes "clean_writes (st_writes s)" "write_all input written s = (r, s')"
  shows "r = Inr () \<and> clean_writes (st_writes s')"
  using assms
proof (induction input written s rule: write_all.induct)
  case (1 input written s)
  have stp: "clean_writes (st_writes s1) \<and> (case q of Inl k \<Rightarrow> k = Interrupted | Inr n \<Rightarrow> drop written input \<noteq> [] \<longrightarrow> 0 < n)"
    if "sys_write (drop written input) s = (q, s1)" for q s1
    using that "1.prems"(1) by (auto simp: sys_write_def clean_writes_def split: list.splits write_event.splits)
  show ?case
    using "1.prems" "1.IH" stp
    by (auto simp: write_all.simps [of input written s] split: if_splits prod.splits sum.splits)
qed

subsection \<open>Borrowed timeouts\<close>

text \<open>With control calls that succeed, a timeout that was never replaced is still the caller's.\<close>

definition borrow_ok :: "(stream \<Rightarrow> nat option) \<Rightarrow> borrowed \<Rightarrow> stream \<Rightarrow> borrowed \<Rightarrow> stream \<Rightarrow> bool" where
  "borrow_ok get b s b' s' \<longleftrightarrow>
     (st_control s = [] \<longrightarrow> st_control s' = [] \<and> (\<not> bo_changed b' \<longrightarrow> \<not> bo_changed b \<and> get s' = get s))"

lemma borrow_ok_refl [simp]: "borrow_ok get b s b s"
  by (simp add: borrow_ok_def)

lemma borrow_ok_trans: "borrow_ok get b s b1 s1 \<Longrightarrow> borrow_ok get b1 s1 b2 s2 \<Longrightarrow> borrow_ok get b s b2 s2"
  by (auto simp: borrow_ok_def)

lemma borrow_read_ok:
  "borrow_timeout set_read_timeout t b s = (q, b', s') \<Longrightarrow> borrow_ok st_read_timeout b s b' s' \<and> st_now s' = st_now s"
  by (auto simp: borrow_ok_def borrow_timeout_def set_read_timeout_def sys_control_def
           split: if_splits list.splits option.splits)

lemma borrow_write_ok:
  "borrow_timeout set_write_timeout t b s = (q, b', s') \<Longrightarrow> borrow_ok st_write_timeout b s b' s' \<and> st_now s' = st_now s"
  by (auto simp: borrow_ok_def borrow_timeout_def set_write_timeout_def sys_control_def
           split: if_splits list.splits option.splits)

lemma sys_now_ok:
  "sys_now s = (t, s') \<Longrightarrow> borrow_ok st_read_timeout b s b s' \<and> borrow_ok st_write_timeout b s b s'"
  using sys_now_fields [of s t s'] by (simp add: borrow_ok_def)

lemma sys_read_ok: "sys_read n s = (r, s') \<Longrightarrow> borrow_ok st_read_timeout b s b s' \<and> st_now s' = st_now s"
  using sys_read_reads [of n s r s'] by (cases s; cases s') (auto simp: borrow_ok_def)

lemma sys_write_ok: "sys_write i s = (r, s') \<Longrightarrow> borrow_ok st_write_timeout b s b s' \<and> st_now s' = st_now s"
  by (auto simp: borrow_ok_def sys_write_def split: list.splits write_event.splits)

subsection \<open>Reading under a deadline\<close>

lemma read_exact_deadline_step:
  assumes "read_exact_with_deadline n got deadline original b s = (r, b', s')" "length got < n"
  obtains (stopped) e where "r = Inl e" "borrow_ok st_read_timeout b s b' s'"
  | (more) x xs b1 s1 where "read_events (n - length got) (st_reads s) = (Inr (x # xs), st_reads s1)"
      "read_exact_with_deadline n (got @ x # xs) deadline original b1 s1 = (r, b', s')"
      "borrow_ok st_read_timeout b s b1 s1" "st_now s1 < deadline" "read_load s1 < read_load s"
  | (again) b1 s1 where "read_events (n - length got) (st_reads s) = (Inl Interrupted, st_reads s1)"
      "read_exact_with_deadline n got deadline original b1 s1 = (r, b', s')"
      "borrow_ok st_read_timeout b s b1 s1" "st_now s1 < deadline" "read_load s1 < read_load s"
proof -
  obtain now s1 where n1: "sys_now s = (now, s1)" by (cases "sys_now s")
  let ?t = "read_timeout_for_deadline (deadline - now) original"
  obtain q1 b1 s2 where bo: "borrow_timeout set_read_timeout ?t b s1 = (q1, b1, s2)"
    by (metis prod_cases3)
  obtain q2 s3 where rd: "sys_read (n - length got) s2 = (q2, s3)" by (cases "sys_read (n - length got) s2")
  obtain now2 s4 where n2: "sys_now s3 = (now2, s4)" by (cases "sys_now s3")
  note ok = sys_now_ok [OF n1] borrow_read_ok [OF bo] sys_read_ok [OF rd] sys_now_ok [OF n2]
  note mono = sys_now_mono [OF n1] sys_now_mono [OF n2]
  have ev: "read_events (n - length got) (st_reads s) = (q2, st_reads s3)"
    using sys_read_reads [OF rd] borrow_timeout_reads [OF bo] sys_now_fields(1) [OF n1] by simp
  have reads: "st_reads s4 = st_reads s3" using sys_now_fields(1) [OF n2] .
  have load: "read_load s3 < read_load s" if "q2 \<noteq> Inr []"
    using read_events_load [OF ev that] by (simp add: read_load_def)
  have t1: "borrow_ok st_read_timeout b s b s1" using ok by simp
  have t2: "borrow_ok st_read_timeout b s b1 s2" using borrow_ok_trans [OF t1] ok by simp
  have t3: "borrow_ok st_read_timeout b s b1 s3" using borrow_ok_trans [OF t2] ok by simp
  have t4: "borrow_ok st_read_timeout b s b1 s4" using borrow_ok_trans [OF t3] ok by simp
  note tr = t3 t4 t2 t1
  note unfolded = assms(1) [unfolded read_exact_with_deadline.simps [of n got deadline original b s]]
  show ?thesis
  proof (cases "deadline \<le> now \<or> is_ok q1 = False")
    case True
    then have "(\<exists>e. r = Inl e) \<and> (b' = b \<and> s' = s1 \<or> b' = b1 \<and> s' = s2)"
      using unfolded assms(2) n1 bo by (cases q1) (auto simp: Let_def split: if_splits)
    then show ?thesis using stopped tr by blast
  next
    case False
    then obtain u where q1: "q1 = Inr u" "\<not> deadline \<le> now" by (cases q1) auto
    have eq: "(case q2 of
        Inr [] \<Rightarrow> (Inl TruncatedFrame, b1, s3)
      | Inr (x # xs) \<Rightarrow> if now2 \<ge> deadline then (Inl FrameDeadlineExceeded, b1, s4)
          else read_exact_with_deadline n (got @ x # xs) deadline original b1 s4
      | Inl k \<Rightarrow> if k = Interrupted then read_exact_with_deadline n got deadline original b1 s3
          else if k = TimedOut \<or> k = WouldBlock then
            if now2 \<ge> deadline \<or> deadline_timeout original ?t then (Inl FrameDeadlineExceeded, b1, s4) else (Inl (Io k), b1, s4)
          else (Inl (Io k), b1, s3)) = (r, b', s')"
      using unfolded assms(2) q1 by (cases q2) (auto simp: n1 bo rd n2 Let_def cong: if_cong split: list.splits)
    show ?thesis
    proof (cases q2)
      case (Inl k)
      show ?thesis
      proof (cases "k = Interrupted")
        case True
        have "st_now s3 < deadline" using mono ok q1(2) by auto
        with again [of s3 b1] show ?thesis using eq ev tr(1) load Inl True by simp
      next
        case False
        then have "(\<exists>e. r = Inl e) \<and> b' = b1 \<and> (s' = s3 \<or> s' = s4)" using eq Inl by (auto split: if_splits)
        then show ?thesis using stopped tr by blast
      qed
    next
      case (Inr bs)
      show ?thesis
      proof (cases "bs = [] \<or> deadline \<le> now2")
        case True
        then have "(\<exists>e. r = Inl e) \<and> b' = b1 \<and> (s' = s3 \<or> s' = s4)"
          using eq Inr by (cases bs) (auto split: if_splits)
        then show ?thesis using stopped tr by blast
      next
        case False
        then obtain x xs where bs: "bs = x # xs" "st_now s4 < deadline" using mono by (cases bs) auto
        have "read_load s4 < read_load s" using load Inr bs reads by (simp add: read_load_def)
        then show ?thesis
          using more [of x xs s4 b1] eq ev tr(2) Inr bs reads False by simp
      qed
    qed
  qed
qed

lemma read_exact_deadline:
  assumes "read_exact_with_deadline n got deadline original b s = (r, b', s')" "st_now s < deadline"
  shows "borrow_ok st_read_timeout b s b' s'
    \<and> (\<forall>bs (s0 :: stream). r = Inr bs \<longrightarrow> st_reads s0 = st_reads s
         \<longrightarrow> st_now s' < deadline \<and> (\<exists>s0'. read_exact n got s0 = (Inr bs, s0') \<and> st_reads s0' = st_reads s'))"
  using assms
proof (induction "read_load s" arbitrary: got b s rule: less_induct)
  case less
  show ?case
  proof (cases "length got < n")
    case False
    then show ?thesis
      using less.prems by (auto simp: read_exact_with_deadline.simps [of n got] read_exact.simps [of n got])
  next
    case True
    from less.prems(1) True show ?thesis
    proof (cases rule: read_exact_deadline_step)
      case (more x xs b1 s1)
      show ?thesis
      proof (intro conjI allI impI)
        show "borrow_ok st_read_timeout b s b' s'"
          using less.hyps [OF more(5,2,4)] more(3) borrow_ok_trans by blast
        fix bs and s0 :: stream
        assume r: "r = Inr bs" and s0: "st_reads s0 = st_reads s"
        have "sys_read (n - length got) s0 = (Inr (x # xs), s0\<lparr> st_reads := st_reads s1 \<rparr>)"
          using more(1) s0 by (simp add: sys_read_def)
        then show "\<exists>s0'. read_exact n got s0 = (Inr bs, s0') \<and> st_reads s0' = st_reads s'"
          using less.hyps [OF more(5,2,4)] r True by (auto simp: read_exact.simps [of n got s0])
        show "st_now s' < deadline" using less.hyps [OF more(5,2,4)] r by blast
      qed
    next
      case (again b1 s1)
      show ?thesis
      proof (intro conjI allI impI)
        show "borrow_ok st_read_timeout b s b' s'"
          using less.hyps [OF again(5,2,4)] again(3) borrow_ok_trans by blast
        fix bs and s0 :: stream
        assume r: "r = Inr bs" and s0: "st_reads s0 = st_reads s"
        have "sys_read (n - length got) s0 = (Inl Interrupted, s0\<lparr> st_reads := st_reads s1 \<rparr>)"
          using again(1) s0 by (simp add: sys_read_def)
        then show "\<exists>s0'. read_exact n got s0 = (Inr bs, s0') \<and> st_reads s0' = st_reads s'"
          using less.hyps [OF again(5,2,4)] r True by (auto simp: read_exact.simps [of n got s0])
        show "st_now s' < deadline" using less.hyps [OF again(5,2,4)] r by blast
      qed
    qed simp
  qed
qed

lemma sys_control_success: "st_control s = [] \<Longrightarrow> sys_control g s = (Inr (), g s)"
  by (simp add: sys_control_def)

lemma get_timeout_success: "st_control s = [] \<Longrightarrow> get_timeout get s = (Inr (get s), s)"
  by (simp add: get_timeout_def sys_control_success)

lemma get_timeout_Inr: "get_timeout get s = (Inr t, s') \<Longrightarrow> t = get s' \<and> st_reads s' = st_reads s \<and> st_now s' = st_now s
    \<and> st_sent s' = st_sent s \<and> (st_control s = [] \<longrightarrow> s' = s)"
  by (auto simp: get_timeout_def sys_control_def split: list.splits option.splits)

lemma read_frame_reads_cong:
  "read_frame s limit = (Inr body, s1) \<Longrightarrow> st_reads s0 = st_reads s
   \<Longrightarrow> \<exists>s2. read_frame s0 limit = (Inr body, s2) \<and> st_reads s2 = st_reads s1"
proof -
  have ex: "\<exists>s2. read_exact n got s0 = (q, s2) \<and> st_reads s2 = st_reads s1"
    if "read_exact n got s = (q, s1)" "st_reads s0 = st_reads s" for n got q and s s0 s1 :: stream
    using that
  proof (induction n got s arbitrary: s0 rule: read_exact.induct)
    case (1 n got s)
    obtain v u where rd: "sys_read (n - length got) s = (v, u)" by (cases "sys_read (n - length got) s")
    have rd0: "sys_read (n - length got) s0 = (v, s0\<lparr> st_reads := st_reads u \<rparr>)"
      using rd "1.prems"(2) by (auto simp: sys_read_def split: prod.splits)
    show ?case
    proof (cases v)
      case (Inl k)
      then show ?thesis using 1 rd rd0 by (auto simp: read_exact.simps [of n got] split: if_splits)
    next
      case (Inr bs)
      then show ?thesis using 1 rd rd0 by (cases bs) (auto simp: read_exact.simps [of n got] split: if_splits)
    qed
  qed
  assume rf: "read_frame s limit = (Inr body, s1)" and eq: "st_reads s0 = st_reads s"
  obtain header u where h: "read_exact FRAME_HEADER_BYTES [] s = (Inr header, u)"
    "\<not> from_be_bytes header > limit" "read_exact (from_be_bytes header) [] u = (Inr body, s1)"
    using rf by (cases "read_exact FRAME_HEADER_BYTES [] s"; cases "fst (read_exact FRAME_HEADER_BYTES [] s)")
      (auto simp: read_frame_def Let_def split: if_splits)
  obtain u0 where u0: "read_exact FRAME_HEADER_BYTES [] s0 = (Inr header, u0)" "st_reads u0 = st_reads u"
    using ex [OF h(1) eq] by blast
  then show ?thesis using ex [OF h(3) u0(2)] h(2) by (auto simp: read_frame_def Let_def)
qed

lemma read_frame_deadline:
  assumes "read_frame_with_deadline_from s limit deadline = (r, s')"
  shows "(st_control s = [] \<longrightarrow> st_read_timeout s' = st_read_timeout s)
    \<and> (\<forall>body. r = Inr body \<longrightarrow> st_now s' < deadline
         \<and> (\<exists>s2. read_frame s limit = (Inr body, s2) \<and> st_reads s2 = st_reads s'))"
proof -
  obtain now s1 where n1: "sys_now s = (now, s1)" by (cases "sys_now s")
  note now = sys_now_fields [OF n1] sys_now_mono [OF n1]
  obtain g s2 where g: "get_timeout st_read_timeout s1 = (g, s2)" by (cases "get_timeout st_read_timeout s1")
  show ?thesis
  proof (cases "deadline \<le> now \<or> is_ok g = False")
    case True
    then show ?thesis
      using assms n1 g now get_timeout_success [of s1 st_read_timeout]
      by (cases g) (auto simp: read_frame_with_deadline_from_def split: if_splits)
  next
    case False
    then obtain original where original: "g = Inr original" and early: "now < deadline" by (cases g) auto
    note g2 = get_timeout_Inr [OF g [unfolded original]]
    let ?b0 = "\<lparr> bo_current = original, bo_changed = False \<rparr>"
    obtain q3 b3 s3 where h: "read_exact_with_deadline FRAME_HEADER_BYTES [] deadline original ?b0 s2 = (q3, b3, s3)"
      by (metis prod_cases3)
    define tail where "tail = (case q3 of Inl e \<Rightarrow> (Inl e, b3, s3)
      | Inr header \<Rightarrow> let declared = from_be_bytes header
          in if declared > limit then (Inl (FrameTooLarge declared limit), b3, s3)
             else read_exact_with_deadline declared [] deadline original b3 s3)"
    obtain q4 b4 s4 where t: "tail = (q4, b4, s4)" by (metis prod_cases3)
    have fin: "(case q4 of Inl e \<Rightarrow> (Inl e, if bo_changed b4 then snd (set_read_timeout original s4) else s4)
       | Inr body \<Rightarrow> if bo_changed b4 then io_bind (io_err (set_read_timeout original s4)) (\<lambda>_ s. (Inr body, s))
           else (Inr body, s4)) = (r, s')"
      using assms n1 g original early t h
      by (cases q3; cases q4) (auto simp: read_frame_with_deadline_from_def tail_def Let_def split: if_splits)
    have hdr: "borrow_ok st_read_timeout ?b0 s2 b3 s3" "\<And>bs. q3 = Inr bs \<Longrightarrow> st_now s3 < deadline
        \<and> (\<exists>s0'. read_exact FRAME_HEADER_BYTES [] s2 = (Inr bs, s0') \<and> st_reads s0' = st_reads s3)"
      using read_exact_deadline [OF h] now g2 early by auto
    have body: "borrow_ok st_read_timeout ?b0 s2 b4 s4 \<and> (\<forall>bs. q4 = Inr bs \<longrightarrow> st_now s4 < deadline
        \<and> (\<exists>u. read_frame s2 limit = (Inr bs, u) \<and> st_reads u = st_reads s4))"
    proof (cases q3)
      case (Inl e)
      then show ?thesis using t hdr(1) by (auto simp: tail_def)
    next
      case (Inr header)
      obtain u where u: "read_exact FRAME_HEADER_BYTES [] s2 = (Inr header, u)" "st_reads u = st_reads s3"
        "st_now s3 < deadline" using hdr(2) [OF Inr] by blast
      show ?thesis
      proof (cases "from_be_bytes header > limit")
        case True
        then show ?thesis using t Inr hdr(1) by (auto simp: tail_def Let_def)
      next
        case False
        then have "read_exact_with_deadline (from_be_bytes header) [] deadline original b3 s3 = (q4, b4, s4)"
          using t Inr by (simp add: tail_def Let_def)
        from read_exact_deadline [OF this u(3)] show ?thesis
          using hdr(1) borrow_ok_trans u False by (fastforce simp: read_frame_def Let_def)
      qed
    qed
    have tmo: "st_read_timeout s' = st_read_timeout s" if c: "st_control s = []"
      using fin body that now g2 sys_control_success
      by (cases q4) (auto simp: borrow_ok_def set_read_timeout_def split: if_splits)
    have "st_now s' = st_now s4 \<and> st_reads s' = st_reads s4 \<and> q4 = Inr bs" if "r = Inr bs" for bs
      using fin that
      by (cases q4) (auto simp: set_read_timeout_def sys_control_def split: if_splits list.splits option.splits)
    moreover have "st_reads s2 = st_reads s" using g2 now by simp
    ultimately show ?thesis using tmo body read_frame_reads_cong by (metis (no_types, lifting))
  qed
qed

subsection \<open>Writing under a deadline\<close>

lemma sys_now_sent: "sys_now s = (t, s') \<Longrightarrow> st_sent s' = st_sent s \<and> st_writes s' = st_writes s"
  by (simp add: sys_now_fields)

lemma write_all_deadline_step:
  assumes "write_all_with_deadline input written deadline original b s = (r, b', s')" "written < length input"
  obtains (stopped) e where "r = Inl e" "borrow_ok st_write_timeout b s b' s'"
      "\<exists>k. st_sent s' = st_sent s @ take k (drop written input)"
  | (more) n b1 s1 where "0 < n" "n \<le> length input - written" "st_sent s1 = st_sent s @ take n (drop written input)"
      "write_all_with_deadline input (written + n) deadline original b1 s1 = (r, b', s')"
      "borrow_ok st_write_timeout b s b1 s1" "st_now s1 < deadline" "length (st_writes s1) \<le> length (st_writes s)"
  | (again) b1 s1 where "st_sent s1 = st_sent s"
      "write_all_with_deadline input written deadline original b1 s1 = (r, b', s')"
      "borrow_ok st_write_timeout b s b1 s1" "st_now s1 < deadline" "length (st_writes s1) < length (st_writes s)"
proof -
  obtain now s1 where n1: "sys_now s = (now, s1)" by (cases "sys_now s")
  let ?t = "timeout_for_deadline (deadline - now) original"
  obtain q1 b1 s2 where bo: "borrow_timeout set_write_timeout ?t b s1 = (q1, b1, s2)" by (metis prod_cases3)
  obtain q2 s3 where wr: "sys_write (drop written input) s2 = (q2, s3)" by (cases "sys_write (drop written input) s2")
  obtain now2 s4 where n2: "sys_now s3 = (now2, s4)" by (cases "sys_now s3")
  note ok = sys_now_ok [OF n1] borrow_write_ok [OF bo] sys_write_ok [OF wr] sys_now_ok [OF n2]
  note mono = sys_now_mono [OF n1] sys_now_mono [OF n2]
  have t1: "borrow_ok st_write_timeout b s b s1" using ok by simp
  have t2: "borrow_ok st_write_timeout b s b1 s2" using borrow_ok_trans [OF t1] ok by simp
  have t3: "borrow_ok st_write_timeout b s b1 s3" using borrow_ok_trans [OF t2] ok by simp
  have t4: "borrow_ok st_write_timeout b s b1 s4" using borrow_ok_trans [OF t3] ok by simp
  have s2: "st_sent s1 = st_sent s" "st_sent s2 = st_sent s" "st_writes s2 = st_writes s"
    using sys_now_sent [OF n1] borrow_timeout_writes [OF bo] by auto
  have s4: "st_sent s4 = st_sent s3" "st_writes s4 = st_writes s3" using sys_now_sent [OF n2] by auto
  note load = sys_write_load [OF wr, unfolded s2]
  note unfolded = assms(1) [unfolded write_all_with_deadline.simps [of input written deadline original b s]]
  show ?thesis
  proof (cases "deadline \<le> now \<or> is_ok q1 = False")
    case True
    then have "(\<exists>e. r = Inl e) \<and> (b' = b \<and> s' = s1 \<or> b' = b1 \<and> s' = s2)"
      using unfolded assms(2) n1 bo by (cases q1) (auto simp: Let_def split: if_splits)
    then show ?thesis using stopped t1 t2 s2 by (metis append_Nil2 take_0)
  next
    case False
    then obtain u where q1: "q1 = Inr u" "\<not> deadline \<le> now" by (cases q1) auto
    have eq: "(case q2 of
        Inr n \<Rightarrow> if n = 0 then (Inl (Io WriteZero), b1, s3)
          else if now2 \<ge> deadline then (Inl FrameDeadlineExceeded, b1, s4)
          else write_all_with_deadline input (written + n) deadline original b1 s4
      | Inl k \<Rightarrow> if k = Interrupted then write_all_with_deadline input written deadline original b1 s3
          else if k = TimedOut \<or> k = WouldBlock then
            if now2 \<ge> deadline \<or> deadline_timeout original ?t then (Inl FrameDeadlineExceeded, b1, s4) else (Inl (Io k), b1, s4)
          else (Inl (Io k), b1, s3)) = (r, b', s')"
      using unfolded assms(2) q1 by (cases q2) (auto simp: n1 bo wr n2 Let_def cong: if_cong)
    have sent: "\<exists>k. st_sent s3 = st_sent s @ take k (drop written input)"
      using load by (cases q2) (auto intro: exI [of _ 0])
    show ?thesis
    proof (cases "(\<exists>e. r = Inl e) \<and> b' = b1 \<and> (s' = s3 \<or> s' = s4)")
      case True
      then show ?thesis using stopped t3 t4 sent s4 by metis
    next
      case False
      then show ?thesis
      proof (cases q2)
        case (Inl k)
        with False eq have "k = Interrupted" by (auto split: if_splits)
        moreover have "st_now s3 < deadline" using mono ok q1(2) by auto
        ultimately show ?thesis using again [of s3 b1] eq t3 load Inl by simp
      next
        case (Inr n)
        with False eq have "0 < n" "now2 < deadline" by (auto split: if_splits)
        then show ?thesis using more [of n s4 b1] eq t4 load Inr s4 mono by simp
      qed
    qed
  qed
qed

lemma write_all_deadline:
  assumes "write_all_with_deadline input written deadline original b s = (r, b', s')" "st_now s < deadline"
    "written \<le> length input"
  shows "borrow_ok st_write_timeout b s b' s'
    \<and> (\<exists>k. st_sent s' = st_sent s @ take k (drop written input)
         \<and> (r = Inr () \<longrightarrow> k = length input - written \<and> st_now s' < deadline))"
  using assms
proof (induction "(length input - written) + length (st_writes s)" arbitrary: written b s rule: less_induct)
  case less
  show ?case
  proof (cases "written < length input")
    case False
    then have "r = Inr ()" "s' = s" "b' = b"
      using less.prems(1) by (simp_all add: write_all_with_deadline.simps [of input written])
    then show ?thesis using less.prems False by auto
  next
    case True
    from less.prems(1) True show ?thesis
    proof (cases rule: write_all_deadline_step)
      case (more n b1 s1)
      have "length input - (written + n) + length (st_writes s1) < length input - written + length (st_writes s)"
        using more(1,7) True by simp
      moreover have "written + n \<le> length input" using more(2) True by simp
      ultimately obtain k where
        "borrow_ok st_write_timeout b1 s1 b' s'" "st_sent s' = st_sent s1 @ take k (drop (written + n) input)"
        "r = Inr () \<longrightarrow> k = length input - (written + n) \<and> st_now s' < deadline"
        using less.hyps [OF _ more(4,6)] by blast
      then show ?thesis
        using more borrow_ok_trans
        by (intro conjI exI [of _ "n + k"]) (auto simp: take_add add.commute [of written n])
    next
      case (again b1 s1)
      have "length input - written + length (st_writes s1) < length input - written + length (st_writes s)"
        using again(5) by simp
      from less.hyps [OF this again(2,4) less.prems(3)] show ?thesis
        using again borrow_ok_trans by (metis (no_types, lifting))
    qed auto
  qed
qed

lemma write_frame_deadline:
  assumes "write_frame_with_deadline s body limit deadline = (r, s')"
  shows "(st_control s = [] \<longrightarrow> st_write_timeout s' = st_write_timeout s)
    \<and> (\<exists>k. st_sent s' = st_sent s @ take k (frame_bytes body)
         \<and> (r = Inr () \<longrightarrow> k = length (frame_bytes body) \<and> st_now s' < deadline \<and> length body \<le> limit))"
proof (cases "validate_frame_size body limit")
  case (Inl e)
  then show ?thesis using assms by (auto simp: write_frame_with_deadline_def intro: exI [of _ 0])
next
  case (Inr v)
  obtain now s1 where n1: "sys_now s = (now, s1)" by (cases "sys_now s")
  note now = sys_now_fields [OF n1] sys_now_mono [OF n1]
  obtain g s2 where g: "get_timeout st_write_timeout s1 = (g, s2)" by (cases "get_timeout st_write_timeout s1")
  have g_sent: "st_sent s2 = st_sent s1"
    using g by (auto simp: get_timeout_def sys_control_def split: list.splits option.splits)
  show ?thesis
  proof (cases "deadline \<le> now \<or> is_ok g = False")
    case True
    then have "(\<exists>e. r = Inl e) \<and> (s' = s1 \<or> s' = s2 \<and> st_control s \<noteq> [])"
      using assms n1 g Inr now get_timeout_success [of s1 st_write_timeout]
      by (cases g) (auto simp: write_frame_with_deadline_def split: if_splits)
    then show ?thesis using now g_sent by (auto intro: exI [of _ 0])
  next
    case False
    then obtain original where original: "g = Inr original" and early: "now < deadline" by (cases g) auto
    note g2 = get_timeout_Inr [OF g [unfolded original]]
    let ?b0 = "\<lparr> bo_current = original, bo_changed = False \<rparr>" and ?h = "to_be_bytes (length body)"
    obtain q3 b3 s3 where h: "write_all_with_deadline ?h 0 deadline original ?b0 s2 = (q3, b3, s3)"
      by (metis prod_cases3)
    define tail where "tail = (case q3 of Inl e \<Rightarrow> (Inl e, b3, s3)
      | Inr _ \<Rightarrow> write_all_with_deadline body 0 deadline original b3 s3)"
    obtain q4 b4 s4 where t: "tail = (q4, b4, s4)" by (metis prod_cases3)
    have fin: "(case (if bo_changed b4 then io_err (set_write_timeout original s4) else (Inr (), s4)) of
        (restore, u) \<Rightarrow> (res_bind q4 (\<lambda>_. restore), u)) = (r, s')"
      using assms n1 g original early t h Inr
      by (cases q3) (auto simp: write_frame_with_deadline_def tail_def split: if_splits)
    have "st_now s2 < deadline" using now g2 early by simp
    from write_all_deadline [OF h this] obtain k where
      hdr: "borrow_ok st_write_timeout ?b0 s2 b3 s3" "st_sent s3 = st_sent s2 @ take k ?h"
        "q3 = Inr () \<Longrightarrow> k = length ?h \<and> st_now s3 < deadline" by auto
    have body: "borrow_ok st_write_timeout ?b0 s2 b4 s4 \<and> (\<exists>k. st_sent s4 = st_sent s2 @ take k (frame_bytes body)
        \<and> (q4 = Inr () \<longrightarrow> k = length (frame_bytes body) \<and> st_now s4 < deadline))"
    proof (cases q3)
      case (Inl e)
      then have "q4 = Inl e" "b4 = b3" "s4 = s3" using t by (simp_all add: tail_def)
      moreover have "take k ?h = take (min k (length ?h)) (frame_bytes body)" by (simp add: frame_bytes_def min_def)
      ultimately show ?thesis using hdr(1,2) by auto
    next
      case (Inr u)
      then have w: "write_all_with_deadline body 0 deadline original b3 s3 = (q4, b4, s4)" using t by (simp add: tail_def)
      have k: "k = length ?h" "st_now s3 < deadline" using hdr(3) Inr by auto
      from write_all_deadline [OF w k(2)] obtain j where
        "borrow_ok st_write_timeout b3 s3 b4 s4" "st_sent s4 = st_sent s3 @ take j body"
        "q4 = Inr () \<Longrightarrow> j = length body \<and> st_now s4 < deadline" by auto
      then show ?thesis
        using hdr(1,2) k(1) borrow_ok_trans
        by (intro conjI exI [of _ "length ?h + j"]) (auto simp: frame_bytes_def)
    qed
    have "st_write_timeout s' = st_write_timeout s" if "st_control s = []"
      using fin body that now g2 sys_control_success
      by (auto simp: borrow_ok_def set_write_timeout_def split: if_splits)
    moreover have "st_now s' = st_now s4 \<and> st_sent s' = st_sent s4 \<and> (r = Inr () \<longrightarrow> q4 = Inr ())"
      using fin by (cases q4) (auto simp: set_write_timeout_def sys_control_def split: if_splits list.splits option.splits)
    moreover have "length body \<le> limit" using Inr by (auto simp: validate_frame_size_def split: if_splits)
    ultimately show ?thesis using body g_sent now by auto
  qed
qed

subsection \<open>Timeouts\<close>

lemma timeout_bounds:
  fixes remaining original
  defines "t \<equiv> timeout_for_deadline remaining original"
  shows "t \<le> max remaining MILLISECOND + MILLISECOND"
    "original = Some caller \<Longrightarrow> t \<le> caller" "deadline_timeout original t \<Longrightarrow> t = max remaining MILLISECOND"
    "original \<noteq> Some 0 \<Longrightarrow> 0 < t"
  by (auto simp: t_def timeout_for_deadline_def deadline_timeout_def MILLISECOND_def Let_def max_def min_def
           split: option.splits if_splits)

subsection \<open>Non-blocking transfer\<close>

lemma poll_until_error: "poll_until deadline s = (Inl e, s') \<Longrightarrow> e \<noteq> ResponseDeadlineAfterRequestDelivery"
proof (induction deadline s rule: poll_until.induct)
  case (1 deadline s)
  obtain now s1 where n: "sys_now s = (now, s1)" by (cases "sys_now s")
  obtain p s2 where p: "sys_poll s1 = (p, s2)" by (cases "sys_poll s1")
  show ?case using 1 n p by (cases p) (auto simp: poll_until.simps [of deadline s] split: if_splits)
qed

lemma write_all_nonblocking:
  assumes "write_all_nonblocking_with_deadline input written deadline s = (r, s')" "written \<le> length input"
  shows "st_reads s' = st_reads s \<and> r \<noteq> Inl ResponseDeadlineAfterRequestDelivery \<and> (\<exists>k. st_sent s' = st_sent s @ take k (drop written input)
    \<and> (r = Inr () \<longrightarrow> k = length input - written \<and> st_now s' < deadline))"
  using assms
proof (induction "(length input - written) + length (st_writes s)" arbitrary: written s rule: less_induct)
  case less
  obtain now s1 where n1: "sys_now s = (now, s1)" by (cases "sys_now s")
  note now = sys_now_fields [OF n1] sys_now_mono [OF n1]
  note unfolded = less.prems(1) [unfolded write_all_nonblocking_with_deadline.simps [of input written deadline s]]
  show ?case
  proof (cases "written < length input \<and> now < deadline")
    case False
    then have "s' = s1" "r = Inr () \<longrightarrow> written = length input \<and> st_now s' < deadline"
      "r \<noteq> Inl ResponseDeadlineAfterRequestDelivery"
      using unfolded n1 now less.prems(2) by (auto split: if_splits)
    then show ?thesis using now by (auto intro!: exI [of _ 0])
  next
    case True
    obtain q s2 where wr: "sys_write (drop written input) s1 = (q, s2)" by (cases "sys_write (drop written input) s1")
    note load = sys_write_load [OF wr]
    have rds: "st_reads s2 = st_reads s1" using wr by (auto simp: sys_write_def split: list.splits write_event.splits)
    show ?thesis
    proof (cases q)
      case (Inr n)
      show ?thesis
      proof (cases "n = 0")
        case True
        then have "s' = s2" "r \<noteq> Inr ()" "r \<noteq> Inl ResponseDeadlineAfterRequestDelivery" using unfolded n1 wr Inr \<open>written < length input \<and> now < deadline\<close> by auto
        then show ?thesis using now load Inr True rds by (auto intro!: exI [of _ 0])
      next
        case False
        then have "write_all_nonblocking_with_deadline input (written + n) deadline s2 = (r, s')"
          using unfolded n1 wr Inr True by simp
        moreover have "length input - (written + n) + length (st_writes s2) < length input - written + length (st_writes s)"
          "written + n \<le> length input" using False True load Inr now by auto
        ultimately obtain k where "st_reads s' = st_reads s2" "r \<noteq> Inl ResponseDeadlineAfterRequestDelivery" "st_sent s' = st_sent s2 @ take k (drop (written + n) input)"
          "r = Inr () \<longrightarrow> k = length input - (written + n) \<and> st_now s' < deadline"
          using less.hyps by blast
        then show ?thesis
          using load Inr now rds by (intro conjI exI [of _ "n + k"]) (auto simp: take_add add.commute [of written n])
      qed
    next
      case (Inl k)
      have w: "length input - written + length (st_writes s2) < length input - written + length (st_writes s)"
        "st_sent s2 = st_sent s" using load Inl now by auto
      show ?thesis
      proof (cases "k = Interrupted")
        case True
        then have "write_all_nonblocking_with_deadline input written deadline s2 = (r, s')"
          using unfolded n1 wr Inl \<open>written < length input \<and> now < deadline\<close> by simp
        from less.hyps [OF w(1) this less.prems(2)] show ?thesis using w(2) rds now by simp
      next
        case notI: False
        show ?thesis
        proof (cases "k = WouldBlock")
          case False
          then have "s' = s2" "r \<noteq> Inr ()" "r \<noteq> Inl ResponseDeadlineAfterRequestDelivery" using notI unfolded n1 wr Inl True by auto
          then show ?thesis using w(2) rds now by (auto intro!: exI [of _ 0])
        next
          case wb: True
          obtain p s3 where po: "poll_until deadline s2 = (p, s3)" by (cases "poll_until deadline s2")
          note pf = poll_until_fields [OF po]
          show ?thesis
          proof (cases p)
            case (Inl e)
            then have "s' = s3" "r \<noteq> Inr ()" "r \<noteq> Inl ResponseDeadlineAfterRequestDelivery" using poll_until_error unfolded n1 wr \<open>q = Inl k\<close> True wb po by auto
            then show ?thesis using w(2) rds now pf by (auto intro!: exI [of _ 0])
          next
            case (Inr u)
            then have eq: "write_all_nonblocking_with_deadline input written deadline s3 = (r, s')"
              using unfolded n1 wr \<open>q = Inl k\<close> True wb po by simp
            have "length input - written + length (st_writes s3) < length input - written + length (st_writes s)"
              using w(1) pf by simp
            from less.hyps [OF this eq less.prems(2)] show ?thesis using w(2) rds now pf by simp
          qed
        qed
      qed
    qed
  qed
qed

lemma feed_bytes: "reader_wf r \<Longrightarrow> feed r input = (Inr v, r') \<Longrightarrow> reader_bytes r' = reader_bytes r @ input"
  using feed_refines_accumulate [of r input "Inr v" r'] by (auto simp: accumulate_def Let_def split: if_splits)

lemma feed_finished:
  assumes "reader_wf r" "feed r input = (Inr True, r')"
  shows "\<exists>body. reader_frame r' = Some body \<and> parse_frame (fr_limit r) (reader_bytes r') = Inr (body, [])"
proof -
  have f: "reader_wf r'" "accumulate (fr_limit r) (reader_bytes r) input = (Inr True, reader_bytes r')"
    using feed_refines_accumulate [OF assms] by auto
  note app = feed_bytes [OF assms]
  have "FRAME_HEADER_BYTES \<le> length (reader_bytes r')" "declared_of (reader_bytes r') \<le> fr_limit r"
    "length (reader_bytes r') = FRAME_HEADER_BYTES + declared_of (reader_bytes r')"
    using f(2) unfolding app by (auto simp: accumulate_def Let_def split: if_splits)
  then show ?thesis using reader_frame_bytes [OF f(1)] by (simp add: parse_frame_def)
qed

lemma read_events_Inl_payload: "read_events n es = (Inl k, es') \<Longrightarrow> payload es' = payload es"
  by (induction n es rule: read_events.induct) (auto split: if_splits)

lemma read_frame_nonblocking_loop_ok:
  assumes "read_frame_nonblocking_loop r deadline s = (q, s')" "reader_wf r"
  shows "st_sent s' = st_sent s \<and> (\<forall>body. q = Inr body \<longrightarrow> st_now s' < deadline
    \<and> (\<exists>bs. payload (st_reads s) = bs @ payload (st_reads s')
         \<and> parse_frame (fr_limit r) (reader_bytes r @ bs) = Inr (body, [])))"
  using assms
proof (induction "read_load s" arbitrary: r s rule: less_induct)
  case less
  obtain now s1 where n1: "sys_now s = (now, s1)" by (cases "sys_now s")
  note now = sys_now_fields [OF n1] sys_now_mono [OF n1]
  let ?n = "min (want r) 8192"
  obtain v s2 where rd: "sys_read ?n s1 = (v, s2)" by (cases "sys_read ?n s1")
  have ev: "read_events ?n (st_reads s) = (v, st_reads s2)" "st_sent s2 = st_sent s"
    using rd now by (auto simp: sys_read_def split: prod.splits)
  have load: "read_load s2 < read_load s" if "v \<noteq> Inr []" using read_events_load [OF ev(1) that] by (simp add: read_load_def)
  note unfolded = less.prems(1) [unfolded read_frame_nonblocking_loop.simps [of r deadline s]]
  show ?case
  proof (cases "deadline \<le> now \<or> v = Inr []")
    case True
    then have "(\<exists>e. q = Inl e) \<and> (s' = s1 \<or> s' = s2)" using unfolded n1 rd by (auto split: if_splits)
    then show ?thesis using now ev(2) by auto
  next
    case False
    show ?thesis
    proof (cases v)
      case (Inr bs)
      then obtain x xs where bs: "bs = x # xs" using False by (cases bs) auto
      obtain w r1 where fd: "feed r bs = (w, r1)" by (cases "feed r bs")
      have pay: "payload (st_reads s) = bs @ payload (st_reads s2)" using read_events_Inr_payload ev(1) Inr by blast
      show ?thesis
      proof (cases w)
        case (Inl e)
        then have "q = Inl e \<and> s' = s2" using unfolded n1 rd False Inr bs fd by simp
        then show ?thesis using ev(2) by simp
      next
        case (Inr finished)
        have r1: "reader_wf r1" "fr_limit r1 = fr_limit r" "reader_bytes r1 = reader_bytes r @ bs"
          using feed_refines_accumulate [OF less.prems(2) fd] feed_bytes [OF less.prems(2)] fd Inr by auto
        show ?thesis
        proof (cases finished)
          case True
          obtain now2 s3 where n2: "sys_now s2 = (now2, s3)" by (cases "sys_now s2")
          obtain body where body: "reader_frame r1 = Some body"
            "parse_frame (fr_limit r) (reader_bytes r @ bs) = Inr (body, [])"
            using feed_finished [OF less.prems(2), of bs r1] fd Inr True r1(3) by auto
          have "s' = s3" and res: "\<And>b. q = Inr b \<Longrightarrow> now2 < deadline \<and> b = body"
            using unfolded n1 rd False \<open>v = Inr bs\<close> bs fd Inr True n2 body(1) by (auto split: if_splits)
          moreover have "st_now s3 = now2" "st_reads s3 = st_reads s2" "st_sent s3 = st_sent s2"
            using sys_now_fields [OF n2] sys_now_mono [OF n2] by simp_all
          ultimately show ?thesis using pay body(2) ev(2) by auto
        next
          case notf: False
          then have "read_frame_nonblocking_loop r1 deadline s2 = (q, s')"
            using unfolded n1 rd False \<open>v = Inr bs\<close> bs fd Inr by simp
          from less.hyps [OF load this r1(1)] show ?thesis using \<open>v = Inr bs\<close> bs pay r1 ev(2) by fastforce
        qed
      qed
    next
      case (Inl k)
      have ld: "read_load s2 < read_load s" "payload (st_reads s2) = payload (st_reads s)"
        using load Inl read_events_Inl_payload ev(1) by auto
      obtain p s3 where po: "poll_until deadline s2 = (p, s3)" by (cases "poll_until deadline s2")
      note pf = poll_until_fields [OF po]
      have ld3: "read_load s3 < read_load s" using ld(1) pf by (simp add: read_load_def)
      consider "k = Interrupted" "read_frame_nonblocking_loop r deadline s2 = (q, s')"
        | "read_frame_nonblocking_loop r deadline s3 = (q, s')" | "(\<exists>e. q = Inl e) \<and> (s' = s2 \<or> s' = s3)"
        using unfolded n1 rd False Inl po by (cases p) (auto split: if_splits)
      then show ?thesis
      proof cases
        case 1
        from less.hyps [OF ld(1) 1(2) less.prems(2)] show ?thesis using ld(2) ev(2) by simp
      next
        case 2
        from less.hyps [OF ld3 2 less.prems(2)] show ?thesis using ld(2) ev(2) pf by simp
      next
        case 3
        then show ?thesis using ev(2) pf by auto
      qed
    qed
  qed
qed

subsection \<open>Messages\<close>

lemma write_frame_prefix:
  assumes "write_frame s body limit = (r, s')"
  shows "st_reads s' = st_reads s \<and> (\<exists>k. st_sent s' = st_sent s @ take k (frame_bytes body)
    \<and> (r = Inr () \<longrightarrow> k = length (frame_bytes body) \<and> length body \<le> limit \<and> length body \<le> U32_MAX))"
proof (cases "validate_frame_size body limit")
  case (Inl e)
  then show ?thesis using assms by (auto simp: write_frame_def intro: exI [of _ 0])
next
  case (Inr v)
  let ?h = "to_be_bytes (length body)"
  obtain q s1 where h: "write_all ?h 0 s = (q, s1)" by (cases "write_all ?h 0 s")
  obtain k where k: "st_sent s1 = st_sent s @ take k ?h" "q = Inr () \<longrightarrow> k = length ?h" "st_reads s1 = st_reads s"
    using write_all_prefix [OF _ h] by auto
  have size: "length body \<le> limit" "length body \<le> U32_MAX" using Inr by (auto simp: validate_frame_size_def split: if_splits)
  show ?thesis
  proof (cases q)
    case (Inl e)
    then have "r = Inl e" "s' = s1" using assms Inr h by (auto simp: write_frame_def)
    moreover have "take k ?h = take (min k (length ?h)) (frame_bytes body)" by (simp add: frame_bytes_def min_def)
    ultimately show ?thesis using k by auto
  next
    case qr: (Inr u)
    then have "write_all body 0 s1 = (r, s')" using assms Inr h by (simp add: write_frame_def)
    from write_all_prefix [OF _ this] obtain j where "st_sent s' = st_sent s1 @ take j body"
      "r = Inr () \<longrightarrow> j = length body" "st_reads s' = st_reads s1" by auto
    then show ?thesis
      using k qr size by (intro conjI exI [of _ "length ?h + j"]) (auto simp: frame_bytes_def)
  qed
qed

lemma write_frame_clean:
  assumes "clean_writes (st_writes s)" "length body \<le> limit" "length body \<le> U32_MAX" "write_frame s body limit = (r, s')"
  shows "r = Inr () \<and> st_sent s' = st_sent s @ frame_bytes body"
proof -
  let ?h = "to_be_bytes (length body)"
  obtain q s1 where h: "write_all ?h 0 s = (q, s1)" by (cases "write_all ?h 0 s")
  note c = write_all_clean [OF assms(1) h]
  have "write_all body 0 s1 = (r, s')"
    using assms(2-4) h c by (simp add: write_frame_def validate_frame_size_def)
  then have "r = Inr ()" using write_all_clean c by blast
  then show ?thesis using write_frame_prefix [OF assms(4)] by auto
qed

lemma encode_limit: "encode lib m = Inr body \<Longrightarrow> length body \<le> message_limit m"
  by (auto simp: encode_def message_limit_def encode_bounded_def Let_def bounded_run limits_small less_imp_le result_simps
           split: message.splits if_splits prod.splits)

lemma message_limit_u32: "message_limit m \<le> U32_MAX"
  by (simp add: message_limit_def MAX_REQUEST_BYTES_def MAX_RESPONSE_BYTES_def U32_MAX_def split: message.split)

lemma send_request_buffer:
  assumes "encode lib m = Inr body"
  shows "\<exists>buffer. send_message lib plain_stream m = (Inr (), buffer) \<and> st_sent buffer = frame_bytes body"
proof -
  let ?limit = "case m of MRequest _ \<Rightarrow> MAX_REQUEST_BYTES | _ \<Rightarrow> MAX_RESPONSE_BYTES"
  have size: "length body \<le> ?limit" "length body \<le> U32_MAX"
    using encode_limit [OF assms] message_limit_u32 [of m] by (simp_all add: message_limit_def)
  obtain q buffer where w: "write_frame plain_stream body ?limit = (q, buffer)"
    by (cases "write_frame plain_stream body ?limit")
  have "q = Inr () \<and> st_sent buffer = st_sent plain_stream @ frame_bytes body"
    by (rule write_frame_clean [OF _ size w]) (simp add: plain_stream_def clean_writes_def)
  then show ?thesis using assms w by (simp add: send_message_def plain_stream_def)
qed

lemma control_keeps:
  "set_read_timeout t s = (q, s') \<Longrightarrow> st_reads s' = st_reads s \<and> st_sent s' = st_sent s"
  "set_write_timeout t s = (q, s') \<Longrightarrow> st_reads s' = st_reads s \<and> st_sent s' = st_sent s"
  "set_nonblocking v s = (q, s') \<Longrightarrow> st_reads s' = st_reads s \<and> st_sent s' = st_sent s \<and> st_now s' = st_now s
     \<and> (q = Inr () \<longrightarrow> st_nonblocking s' = v)"
  by (auto simp: set_read_timeout_def set_write_timeout_def set_nonblocking_def sys_control_def
           split: list.splits option.splits)

lemma exchange_request:
  assumes enc: "encode lib (MRequest req) = Inr body"
    and ex: "exchange_request_with_deadline lib s req deadline = (res, s')"
  shows "\<exists>k. st_sent s' = st_sent s @ take k (frame_bytes body)
    \<and> (res = Inl ResponseDeadlineAfterRequestDelivery \<longrightarrow> k = length (frame_bytes body))
    \<and> (\<forall>m. res = Inr m \<longrightarrow> k = length (frame_bytes body) \<and> \<not> st_nonblocking s' \<and> st_now s' < deadline
         \<and> (\<exists>bs answer. payload (st_reads s) = bs @ payload (st_reads s')
              \<and> parse_frame MAX_RESPONSE_BYTES bs = Inr (answer, []) \<and> decode_response lib answer = Inr m))"
proof -
  let ?f = "frame_bytes body"
  obtain buffer where buf: "send_message lib plain_stream (MRequest req) = (Inr (), buffer)" "st_sent buffer = ?f"
    using send_request_buffer [OF enc] by blast
  obtain now s1 where n1: "sys_now s = (now, s1)" by (cases "sys_now s")
  note now = sys_now_fields [OF n1]
  obtain c1 s2 where c1: "set_read_timeout None s1 = (c1, s2)" by (cases "set_read_timeout None s1")
  obtain c2 s3 where c2: "set_write_timeout None s2 = (c2, s3)" by (cases "set_write_timeout None s2")
  obtain c3 s4 where c3: "set_nonblocking True s3 = (c3, s4)" by (cases "set_nonblocking True s3")
  note ctl = control_keeps(1) [OF c1] control_keeps(2) [OF c2] control_keeps(3) [OF c3]
  show ?thesis
  proof (cases "deadline \<le> now \<or> is_ok c1 = False \<or> is_ok c2 = False \<or> is_ok c3 = False")
    case True
    then have "(\<exists>e. res = Inl e \<and> e \<noteq> ResponseDeadlineAfterRequestDelivery) \<and> (s' = s1 \<or> s' = s2 \<or> s' = s3 \<or> s' = s4)"
      using ex buf n1 c1 c2 c3
      by (cases c1; cases c2; cases c3) (auto simp: exchange_request_with_deadline_def split: if_splits)
    then show ?thesis using now ctl by (auto intro!: exI [of _ 0])
  next
    case False
    then have oks: "c1 = Inr ()" "c2 = Inr ()" "c3 = Inr ()" "\<not> deadline \<le> now" by (cases c1; cases c2; cases c3; simp)+
    obtain q5 s5 where w: "write_all_nonblocking_with_deadline ?f 0 deadline s4 = (q5, s5)"
      by (cases "write_all_nonblocking_with_deadline ?f 0 deadline s4")
    obtain k where k: "st_sent s5 = st_sent s4 @ take k ?f" "q5 = Inr () \<longrightarrow> k = length ?f" "st_reads s5 = st_reads s4"
      "q5 \<noteq> Inl ResponseDeadlineAfterRequestDelivery"
      using write_all_nonblocking [OF w] by auto
    obtain q6 s6 where rd: "read_frame_nonblocking_with_deadline s5 MAX_RESPONSE_BYTES deadline = (q6, s6)"
      by (cases "read_frame_nonblocking_with_deadline s5 MAX_RESPONSE_BYTES deadline")
    have r: "st_sent s6 = st_sent s5" "\<And>answer. q6 = Inr answer \<Longrightarrow> st_now s6 < deadline
        \<and> (\<exists>bs. payload (st_reads s5) = bs @ payload (st_reads s6) \<and> parse_frame MAX_RESPONSE_BYTES bs = Inr (answer, []))"
      using read_frame_nonblocking_loop_ok [OF rd [unfolded read_frame_nonblocking_with_deadline_def] reader_new_wf(1)]
      by (simp_all add: reader_new_wf)
    define tail where "tail = (case q5 of Inl e \<Rightarrow> (Inl e, s5)
      | Inr _ \<Rightarrow> (case q6 of Inl e \<Rightarrow> (Inl (if e = FrameDeadlineExceeded then ResponseDeadlineAfterRequestDelivery else e), s6)
                   | Inr answer \<Rightarrow> (decode_response lib answer, s6)))"
    obtain q7 s7 where t: "tail = (q7, s7)" by (cases tail)
    obtain c8 s8 where c8: "set_nonblocking False s7 = (c8, s8)" by (cases "set_nonblocking False s7")
    have fin: "res = res_bind q7 (\<lambda>m. res_map (\<lambda>_. m) (map_err Io c8))" "s' = s8"
      using ex buf n1 c1 c2 c3 oks w rd t c8
      by (cases q5; cases q6; cases c8; simp add: exchange_request_with_deadline_def tail_def io_err_def)+
    have nb: "e \<noteq> ResponseDeadlineAfterRequestDelivery" if "q5 = Inl e" for e
      using k(4) that by blast
    note c8s = control_keeps(3) [OF c8]
    show ?thesis
    proof (cases q5)
      case (Inl e)
      then have "q7 = Inl e" "s7 = s5" using t by (simp_all add: tail_def)
      then show ?thesis using fin c8s k ctl now nb [OF Inl] by auto
    next
      case (Inr u)
      then have full: "st_sent s6 = st_sent s @ ?f" "k = length ?f" and s7: "s7 = s6"
        using k r(1) ctl now t by (auto simp: tail_def split: sum.splits)
      have "\<exists>answer. q6 = Inr answer \<and> decode_response lib answer = Inr m \<and> c8 = Inr ()" if "res = Inr m" for m
        using that fin(1) t Inr by (cases q6; cases c8) (auto simp: tail_def result_simps)
      then have "\<not> st_nonblocking s' \<and> st_now s' < deadline
         \<and> (\<exists>bs answer. payload (st_reads s) = bs @ payload (st_reads s')
              \<and> parse_frame MAX_RESPONSE_BYTES bs = Inr (answer, []) \<and> decode_response lib answer = Inr m)"
        if "res = Inr m" for m
        using that r(2) fin(2) c8s s7 k(3) ctl now by fastforce
      then show ?thesis using full fin(2) c8s s7 by (intro exI [of _ "length ?f"]) auto
    qed
  qed
qed

lemma feed_within_want:
  assumes "reader_wf r" "length input \<le> want r" "feed r input = (res, r')"
  shows "res \<noteq> Inl FrameInputTooLong"
  using assms by (auto simp: feed_def want_def Let_def split: if_splits option.splits)

subsection \<open>Streams for examples\<close>

text \<open>A frame with the body \<open>[7, 8]\<close> that arrives in three pieces with an interruption, a clock that
  advances at every look and a socket that takes two bytes at a time.\<close>

definition sample_stream :: stream where
  "sample_stream = plain_stream\<lparr> st_reads := [RData [0, 0], RErr Interrupted, RData [0, 2, 7], RData [8, 9]],
     st_writes := [WTake 2, WErr Interrupted], st_ticks := replicate 40 1, st_read_timeout := Some 5000000000 \<rparr>"

lemma plain_sent: "st_sent plain_stream = []"
  by (simp add: plain_stream_def)

lemma sample_stream_clean:
  "clean_reads (st_reads sample_stream)" "payload (st_reads sample_stream) = frame_bytes [7, 8] @ [9]"
  by code_simp+

section \<open>Properties\<close>

text \<open>C14: on every reader an event loop can hold, \<open>feed\<close> refines the accumulation of one byte string: the
  same outcome, the same bytes; it commits nothing when it fails, and never reports surplus bytes to
  a caller that reads at most \<open>want\<close> bytes.\<close>

theorem feed_refines:
  assumes "reader_reach limit r" "feed r input = (res, r')"
  shows "accumulate limit (reader_bytes r) input = (res, reader_bytes r') \<and> (\<forall>e. res = Inl e \<longrightarrow> r' = r)
    \<and> (length input \<le> want r \<longrightarrow> res \<noteq> Inl FrameInputTooLong)"
  using feed_refines_accumulate [OF _ assms(2)] reader_reach_wf [OF assms(1)] feed_within_want [OF _ _ assms(2)] by metis

theorem feed_refines_witness:
  "accumulate 9 [] [0, 0, 0] = (Inr False, [0, 0, 0])"
proof -
  have "feed (frame_reader_new 9) [0, 0, 0] = (Inr False, (frame_reader_new 9)\<lparr> fr_header_len := 3 \<rparr>)" by code_simp
  from feed_refines [OF reader_reach.fresh this] show ?thesis
    by (simp add: reader_new_wf) (simp add: reader_bytes_def frame_reader_new_def FRAME_HEADER_BYTES_def numeral_3_eq_3)
qed

text \<open>However a frame is cut into non-empty chunks, feeding them one by one succeeds, reports
  completion at the last chunk and only there, and yields the body.\<close>

lemma feed_any_chunking:
  assumes "concat cs = frame_bytes body" "[] \<notin> set cs" "length body \<le> limit" "length body \<le> U32_MAX"
  shows "\<exists>r. feed_all (frame_reader_new limit) cs = (Inr (replicate (length cs - 1) False @ [True]), r)
    \<and> reader_frame r = Some body"
proof -
  have "cs \<noteq> []" using assms(1) by (auto simp: frame_bytes_def)
  then obtain r where r: "feed_all (frame_reader_new limit) cs = (Inr (replicate (length cs - 1) False @ [True]), r)"
    "reader_wf r" "reader_bytes r = frame_bytes body"
    using feed_all_chunks [of "frame_reader_new limit" cs body] assms by (auto simp: reader_new_wf)
  have "declared_of (frame_bytes body) = length body" using declared_of_frame [OF assms(4), of "[]"] by simp
  then have "reader_frame r = Some body"
    using reader_frame_bytes [OF r(2)] r(3) by (simp add: length_frame_bytes) (simp add: frame_bytes_def)
  with r(1) show ?thesis by blast
qed

lemma feed_any_chunking_example:
  "\<exists>r. feed_all (frame_reader_new 9) [[0], [0, 0, 2, 7], [8]] = (Inr [False, False, True], r) \<and> reader_frame r = Some [7, 8]"
proof -
  have "concat [[0], [0, 0, 2, 7], [8]] = frame_bytes [7, 8]" by code_simp
  then have "\<exists>r. feed_all (frame_reader_new 9) [[0], [0, 0, 2, 7], [8]]
      = (Inr (replicate (length [[0], [0, 0, 2, 7], [8 :: u8]] - 1) False @ [True]), r) \<and> reader_frame r = Some [7, 8]"
    by (rule feed_any_chunking) (simp_all add: U32_MAX_def)
  moreover have "replicate (length [[0], [0, 0, 2, 7], [8 :: u8]] - 1) False @ [True] = [False, False, True]" by code_simp
  ultimately show ?thesis by (simp only:)
qed

text \<open>The blocking reader returns what parsing the delivered bytes at once returns, however they
  are fragmented and interrupted: the body, \<open>TruncatedFrame\<close>, or \<open>FrameTooLarge\<close> from the header
  alone; after a body it has consumed exactly the frame.\<close>

lemma read_frame_any_fragmentation:
  assumes "clean_reads (st_reads s)" "read_frame s limit = (r, s')"
  shows "case parse_frame limit (payload (st_reads s)) of
      Inl e \<Rightarrow> r = Inl e
    | Inr (body, rest) \<Rightarrow> r = Inr body \<and> payload (st_reads s') = rest"
  using read_frame_parse [OF assms] by simp

lemma read_frame_any_fragmentation_example: "fst (read_frame sample_stream 9) = Inr [7, 8]"
proof -
  have "parse_frame 9 (frame_bytes [7, 8] @ [9]) = Inr ([7, 8], [9])" by code_simp
  then show ?thesis
    using read_frame_any_fragmentation [OF sample_stream_clean(1), of 9 "fst (read_frame sample_stream 9)"
      "snd (read_frame sample_stream 9)"] sample_stream_clean(2) by simp
qed

text \<open>Whatever the socket does, \<open>write_frame\<close> has sent a prefix of the frame and nothing else; on
  success it is the whole frame, and a body over the limit sends nothing.\<close>

lemma write_frame_sends_prefix:
  "case write_frame s body limit of (r, s') \<Rightarrow>
     \<exists>k. st_sent s' = st_sent s @ take k (frame_bytes body) \<and> (is_ok r \<longrightarrow> k = length (frame_bytes body))
       \<and> (limit < length body \<longrightarrow> k = 0 \<and> r = Inl (FrameTooLarge (length body) (min limit U32_MAX)))"
proof (cases "write_frame s body limit")
  case (Pair r s')
  show ?thesis
  proof (cases "limit < length body")
    case True
    then show ?thesis by (auto simp: write_frame_def validate_frame_size_def intro: exI [of _ 0])
  next
    case False
    then show ?thesis using write_frame_prefix [OF Pair] Pair by (auto simp: is_ok_def split: sum.splits)
  qed
qed

lemma write_frame_sends_prefix_example:
  "\<exists>k. st_sent (snd (write_frame plain_stream [7, 8] 1)) = take k (frame_bytes [7, 8]) \<and> k = 0"
  using write_frame_sends_prefix [of plain_stream "[7, 8]" 1] by (auto simp: plain_stream_def split: prod.splits)

text \<open>C15: under an absolute deadline, a body is returned only before the deadline and is the body the
  blocking reader would return; when the control calls work the caller's read timeout is restored
  on every outcome.\<close>

theorem read_frame_with_deadline_sound:
  assumes "read_frame_with_deadline s limit deadline = (r, s')"
  shows "(st_control s = [] \<longrightarrow> st_read_timeout s' = st_read_timeout s)
    \<and> (\<forall>body. r = Inr body \<longrightarrow> st_now s' < deadline
         \<and> (\<exists>s2. read_frame s limit = (Inr body, s2) \<and> st_reads s2 = st_reads s'))"
  using read_frame_deadline assms unfolding read_frame_with_deadline_def by blast

theorem read_frame_with_deadline_sound_witness:
  "fst (read_frame_with_deadline sample_stream 9 1000) = Inr [7, 8]
   \<and> st_read_timeout (snd (read_frame_with_deadline sample_stream 9 1000)) = Some 5000000000"
proof -
  obtain r s' where eq: "read_frame_with_deadline sample_stream 9 1000 = (r, s')"
    by (cases "read_frame_with_deadline sample_stream 9 1000")
  have "fst (read_frame_with_deadline sample_stream 9 1000) = Inr [7, 8]" by code_simp
  moreover have "st_control sample_stream = []" "st_read_timeout sample_stream = Some 5000000000"
    by (simp_all add: sample_stream_def plain_stream_def)
  ultimately show ?thesis using read_frame_with_deadline_sound [OF eq] eq by simp
qed

text \<open>Under an absolute deadline, \<open>write_frame_with_deadline\<close> sends a prefix of the frame, succeeds
  only with the whole frame sent before the deadline, and restores the caller's write timeout on
  every outcome when the control calls work.\<close>

lemma write_frame_with_deadline_sound:
  assumes "write_frame_with_deadline s body limit deadline = (r, s')"
  shows "(st_control s = [] \<longrightarrow> st_write_timeout s' = st_write_timeout s)
    \<and> (\<exists>k. st_sent s' = st_sent s @ take k (frame_bytes body)
         \<and> (r = Inr () \<longrightarrow> k = length (frame_bytes body) \<and> st_now s' < deadline \<and> length body \<le> limit))"
  by (rule write_frame_deadline [OF assms])

lemma write_frame_with_deadline_sound_example:
  "st_write_timeout (snd (write_frame_with_deadline sample_stream [7, 8] 9 1000)) = None"
proof -
  have "st_control sample_stream = []" "st_write_timeout sample_stream = None"
    by (simp_all add: sample_stream_def plain_stream_def)
  then show ?thesis
    using write_frame_with_deadline_sound [of sample_stream "[7, 8]" 9 1000
      "fst (write_frame_with_deadline sample_stream [7, 8] 9 1000)"
      "snd (write_frame_with_deadline sample_stream [7, 8] 9 1000)"] by simp
qed



end
