(* ===== verification/Rust_Number.thy ===== *)
theory Rust_Number
  imports Rust_Text
begin

text \<open>
  Decimal text of natural numbers: \<open>to_string\<close> of an unsigned integer, zero padding, and the value
  of a digit list.
\<close>

section \<open>Definitions\<close>

fun decimal :: "nat \<Rightarrow> ustr" where
  "decimal n = (if n < 10 then [48 + n] else decimal (n div 10) @ [48 + n mod 10])"

declare decimal.simps [simp del]

definition decimal02 :: "nat \<Rightarrow> ustr" where
  "decimal02 n = (if n < 10 then [48] else []) @ decimal n"

definition digits_value :: "nat list \<Rightarrow> nat" where
  "digits_value ds = foldl (\<lambda>v d. v * 10 + d) 0 ds"

definition digit_values :: "ustr \<Rightarrow> nat list" where
  "digit_values s = map (\<lambda>c. c - 48) s"

section \<open>Lemmas\<close>

lemma digits_value_snoc [simp]: "digits_value (ds @ [d]) = digits_value ds * 10 + d"
  by (simp add: digits_value_def)

lemma digits_value_Nil [simp]: "digits_value [] = 0"
  by (simp add: digits_value_def)

lemma decimal_ne [simp]: "decimal n \<noteq> []"
  by (subst decimal.simps) simp

lemma decimal_value: "digits_value (digit_values (decimal n)) = n"
proof (induction n rule: decimal.induct)
  case (1 n)
  show ?case
  proof (cases "n < 10")
    case True
    then show ?thesis using decimal.simps [of n] by (simp add: digit_values_def digits_value_def)
  next
    case False
    then have "decimal n = decimal (n div 10) @ [48 + n mod 10]" using decimal.simps [of n] by simp
    with 1 False show ?thesis by (simp add: digit_values_def)
  qed
qed

lemma decimal_inject [simp]: "decimal m = decimal n \<longleftrightarrow> m = n"
  using decimal_value by metis

lemma decimal_digits: "c \<in> set (decimal n) \<Longrightarrow> 48 \<le> c \<and> c \<le> 57"
proof (induction n rule: decimal.induct)
  case (1 n)
  then show ?case using decimal.simps [of n] by (auto split: if_splits)
qed

lemma digits_value_pos: "ds \<noteq> [] \<Longrightarrow> hd ds \<noteq> 0 \<Longrightarrow> 0 < digits_value ds"
proof (induction ds rule: rev_induct)
  case (snoc d ds)
  then show ?case using digits_value_snoc [of ds d] by (cases "ds = []") (auto simp del: digits_value_snoc)
qed simp

text \<open>A digit list with no leading zero is the decimal text of its value.\<close>

lemma decimal_digits_value:
  assumes "ds \<noteq> []" "hd ds \<noteq> 0" "\<forall>d \<in> set ds. d < 10"
  shows "decimal (digits_value ds) = map (\<lambda>d. 48 + d) ds"
  using assms
proof (induction ds rule: rev_induct)
  case (snoc d ds)
  show ?case
  proof (cases "ds = []")
    case True
    then show ?thesis using snoc.prems decimal.simps [of d] by (simp add: digits_value_def)
  next
    case False
    then have "0 < digits_value ds" using snoc.prems(2) by (intro digits_value_pos) auto
    then have "decimal (digits_value (ds @ [d])) = decimal (digits_value ds) @ [48 + d]"
      using snoc.prems(3) by (subst decimal.simps) auto
    then show ?thesis using snoc False by simp
  qed
qed simp

lemma digits_value_dropWhile: "digits_value (dropWhile (\<lambda>d. d = 0) ds) = digits_value ds"
proof (induction ds)
  case (Cons d ds)
  have "digits_value (0 # ds) = digits_value ds" by (simp add: digits_value_def)
  with Cons show ?case by simp
qed simp

lemma digits_value_mono_prefix: "digits_value ds \<le> digits_value (ds @ es)"
proof (induction es rule: rev_induct)
  case (snoc e es)
  then show ?case by (simp flip: append_assoc)
qed simp

end
