(* ===== verification/Sanitize.thy ===== *)
theory Sanitize
  imports Rust_Text
begin

text \<open>
  The terminal sanitizer of \<open>yams-core/src/sanitize.rs\<close>. The general category table comes from
  the crate \<open>unicode_general_category\<close>; the predicate \<open>is_format\<close> (category \<open>Format\<close>) is a
  parameter. What the code relies on is that no printable ASCII character is in it.
\<close>

section \<open>Definitions\<close>

datatype terminal_text = Inline | Multiline | RenderedFrame

datatype cow = Borrowed ustr | Owned ustr

fun cow_str :: "cow \<Rightarrow> ustr" where
  "cow_str (Borrowed s) = s"
| "cow_str (Owned s) = s"

abbreviation esc :: uchar where "esc \<equiv> 27"

definition SAFE_STYLES :: "ustr list" where
  "SAFE_STYLES = [esc # lit ''[0m'', esc # lit ''[1m'', esc # lit ''[4m'']"

definition is_unsafe_control :: "(uchar \<Rightarrow> bool) \<Rightarrow> uchar \<Rightarrow> bool" where
  "is_unsafe_control is_format c = (c \<le> 0x1F \<or> (0x7F \<le> c \<and> c \<le> 0x9F) \<or> is_format c)"

definition layout_allowed :: "terminal_text \<Rightarrow> uchar \<Rightarrow> bool" where
  "layout_allowed context_ty c = (context_ty \<noteq> Inline \<and> (c = tab \<or> c = nl))"

definition safe_style :: "terminal_text \<Rightarrow> ustr \<Rightarrow> ustr option" where
  "safe_style context_ty remainder =
     (if context_ty = RenderedFrame then find (\<lambda>style. prefix style remainder) SAFE_STYLES else None)"

function sanitize_loop :: "(uchar \<Rightarrow> bool) \<Rightarrow> terminal_text \<Rightarrow> ustr \<Rightarrow> ustr" where
  "sanitize_loop is_format t [] = []"
| "sanitize_loop is_format t (c # rest) =
     (case safe_style t (c # rest) of
        Some style \<Rightarrow> style @ sanitize_loop is_format t (drop (length style) (c # rest))
      | None \<Rightarrow>
          if is_unsafe_control is_format c
          then (if layout_allowed t c then [c] else []) @ sanitize_loop is_format t rest
          else c # sanitize_loop is_format t rest)"
  by pat_completeness auto
termination
proof (relation "measure (\<lambda>(_, _, s). length s)")
  fix is_format :: "uchar \<Rightarrow> bool" and t c rest style
  assume "safe_style t (c # rest) = Some style"
  then have "0 < length style"
    by (auto simp: safe_style_def SAFE_STYLES_def find_Some_iff split: if_splits)
  then show "((is_format, t, drop (length style) (c # rest)), (is_format, t, c # rest))
      \<in> measure (\<lambda>(_, _, s). length s)" by simp
qed auto

definition sanitize_terminal :: "(uchar \<Rightarrow> bool) \<Rightarrow> ustr \<Rightarrow> terminal_text \<Rightarrow> cow" where
  "sanitize_terminal is_format input t =
     (let output = sanitize_loop is_format t input
      in if output = input then Borrowed input else Owned output)"

subsection \<open>Specification\<close>

text \<open>A character the sanitizer lets through on its own.\<close>

definition passes :: "(uchar \<Rightarrow> bool) \<Rightarrow> terminal_text \<Rightarrow> uchar \<Rightarrow> bool" where
  "passes is_format t c = ((32 \<le> c \<and> (c < 127 \<or> 159 < c) \<and> \<not> is_format c) \<or> (t \<noteq> Inline \<and> (c = tab \<or> c = nl)))"

text \<open>Tokens of a safe frame: a style, or one character that passes.\<close>

inductive safe_frame :: "(uchar \<Rightarrow> bool) \<Rightarrow> terminal_text \<Rightarrow> ustr \<Rightarrow> bool" for is_format t where
  safe_nil: "safe_frame is_format t []"
| safe_style_tok: "t = RenderedFrame \<Longrightarrow> style \<in> set SAFE_STYLES \<Longrightarrow> safe_frame is_format t s
    \<Longrightarrow> safe_frame is_format t (style @ s)"
| safe_char: "passes is_format t c \<Longrightarrow> safe_frame is_format t s \<Longrightarrow> safe_frame is_format t (c # s)"

section \<open>Lemmas\<close>

lemma passes_iff: "passes is_format t c \<longleftrightarrow> \<not> is_unsafe_control is_format c \<or> layout_allowed t c"
  by (auto simp: passes_def is_unsafe_control_def layout_allowed_def)

lemma safe_style_Some:
  "safe_style t s = Some style \<Longrightarrow> t = RenderedFrame \<and> style \<in> set SAFE_STYLES \<and> prefix style s"
  by (auto simp: safe_style_def find_Some_iff split: if_splits)

lemma SAFE_STYLES_ne: "style \<in> set SAFE_STYLES \<Longrightarrow> style \<noteq> []"
  by (auto simp: SAFE_STYLES_def)

lemma cow_str_sanitize: "cow_str (sanitize_terminal f s t) = sanitize_loop f t s"
  by (simp add: sanitize_terminal_def Let_def)

lemma safe_style_plain: "t \<noteq> RenderedFrame \<Longrightarrow> safe_style t s = None"
  by (simp add: safe_style_def)

lemma safe_style_not_esc: "c \<noteq> esc \<Longrightarrow> safe_style t (c # s) = None"
  by (auto simp: safe_style_def SAFE_STYLES_def)

lemma passes_not_esc: "passes f t c \<Longrightarrow> c \<noteq> esc"
  by (auto simp: passes_iff is_unsafe_control_def layout_allowed_def)

lemma safe_style_append:
  "style \<in> set SAFE_STYLES \<Longrightarrow> safe_style RenderedFrame (style @ s) = Some style"
  by (auto simp: safe_style_def SAFE_STYLES_def lit_def)

lemma sanitize_loop_passes:
  "passes f t c \<Longrightarrow> sanitize_loop f t (c # s) = c # sanitize_loop f t s"
  by (simp add: safe_style_not_esc passes_not_esc) (auto simp: passes_iff)

lemma sanitize_loop_style:
  assumes "style \<in> set SAFE_STYLES"
  shows "sanitize_loop f RenderedFrame (style @ s) = style @ sanitize_loop f RenderedFrame s"
proof -
  obtain c r where cr: "style @ s = c # r" using SAFE_STYLES_ne [OF assms] by (cases style) auto
  have "safe_style RenderedFrame (c # r) = Some style" using safe_style_append [OF assms] cr by metis
  moreover have "drop (length style) (c # r) = s" using cr by (metis append_eq_conv_conj)
  ultimately show ?thesis unfolding cr by simp
qed

lemma sanitize_loop_plain:
  "t \<noteq> RenderedFrame \<Longrightarrow> sanitize_loop f t s = filter (passes f t) s"
  by (induction s) (auto simp: safe_style_plain passes_iff)

lemma sanitize_loop_frame: "safe_frame f t (sanitize_loop f t s)"
proof (induction f t s rule: sanitize_loop.induct)
  case (2 f t c rest)
  show ?case
  proof (cases "safe_style t (c # rest)")
    case (Some style)
    with 2(3) safe_style_Some [OF Some] show ?thesis by (simp add: safe_style_tok del: drop.simps)
  next
    case None
    with 2(1,2) show ?thesis by (auto simp: passes_iff intro!: safe_char)
  qed
qed (simp add: safe_nil)

lemma sanitize_loop_fixed: "safe_frame f t s \<Longrightarrow> sanitize_loop f t s = s"
proof (induction rule: safe_frame.induct)
  case (safe_style_tok style s)
  then show ?case using sanitize_loop_style by simp
next
  case (safe_char c s)
  then show ?case using sanitize_loop_passes by simp
qed simp

lemma sanitize_loop_subseq: "subseq (sanitize_loop f t s) s"
proof (induction f t s rule: sanitize_loop.induct)
  case (2 f t c rest)
  show ?case
  proof (cases "safe_style t (c # rest)")
    case (Some style)
    then obtain r where r: "c # rest = style @ r" using safe_style_Some prefixE by blast
    have d: "drop (length style) (c # rest) = r" by (metis r append_eq_conv_conj)
    then have "sanitize_loop f t (c # rest) = style @ sanitize_loop f t r" using Some by simp
    moreover have "subseq (sanitize_loop f t r) r" using 2(3) [OF Some] d by simp
    ultimately show ?thesis using r by (metis subseq_append')
  next
    case None
    with 2(1,2) show ?thesis by auto
  qed
qed simp

lemma style_tail_passes:
  assumes "\<And>c. 32 \<le> c \<Longrightarrow> c < 127 \<Longrightarrow> \<not> f c" and "style \<in> set SAFE_STYLES"
  shows "\<exists>r. style = esc # r \<and> (\<forall>c \<in> set r. passes f t c)"
  using assms(2) assms(1) by (auto simp: SAFE_STYLES_def lit_def passes_iff is_unsafe_control_def)

lemma safe_frame_esc:
  assumes ascii: "\<And>c. 32 \<le> c \<Longrightarrow> c < 127 \<Longrightarrow> \<not> f c"
  shows "safe_frame f t s \<Longrightarrow> s = a @ c # b \<Longrightarrow> \<not> passes f t c
    \<Longrightarrow> t = RenderedFrame \<and> (\<exists>style \<in> set SAFE_STYLES. prefix style (c # b))"
proof (induction arbitrary: a rule: safe_frame.induct)
  case (safe_style_tok style s)
  obtain r where r: "style = esc # r" "\<forall>c \<in> set r. passes f t c"
    using style_tail_passes [of f style t] ascii safe_style_tok.hyps(2) by blast
  show ?case
  proof (cases "length style \<le> length a")
    case True
    then obtain a' where "a = style @ a'"
      using safe_style_tok.prems(1) by (metis append_eq_append_conv_if append_eq_conv_conj)
    with safe_style_tok show ?thesis by auto
  next
    case False
    show ?thesis
    proof (cases a)
      case Nil
      with safe_style_tok.prems(1) have "prefix style (c # b)" by (metis append_Nil prefixI)
      with safe_style_tok.hyps show ?thesis by blast
    next
      case (Cons x a')
      have "c = style ! length a"
        using safe_style_tok.prems(1) False by (metis nth_append nth_append_length not_le)
      then have "c \<in> set r" using Cons False r(1) by simp
      with r(2) safe_style_tok.prems(2) show ?thesis by blast
    qed
  qed
next
  case (safe_char c' s)
  then show ?case by (cases a) auto
qed simp

section \<open>Properties\<close>



text \<open>Sanitizing twice is sanitizing once, in every context, and the borrowed value is
  returned exactly when the input was already safe.\<close>

lemma sanitize_terminal_idempotent:
  "sanitize_terminal is_format (cow_str (sanitize_terminal is_format input t)) t
     = Borrowed (cow_str (sanitize_terminal is_format input t))
   \<and> (sanitize_terminal is_format input t = Borrowed input \<longleftrightarrow> safe_frame is_format t input)"
proof -
  have "sanitize_loop is_format t (sanitize_loop is_format t input) = sanitize_loop is_format t input"
    by (rule sanitize_loop_fixed [OF sanitize_loop_frame])
  moreover have "sanitize_loop is_format t input = input \<longleftrightarrow> safe_frame is_format t input"
    using sanitize_loop_frame [of is_format t input] sanitize_loop_fixed by metis
  ultimately show ?thesis by (auto simp: sanitize_terminal_def Let_def)
qed

end
