(* ===== verification/Cli_Args.thy ===== *)
theory Cli_Args
  imports Rust_Number Sanitize Json_Wire Select
begin

text \<open>
  Command-line parsing, \<open>yams-cli/src/args.rs\<close>: the argparse-compatible normalisation in front of
  Clap, Python's integer and float syntax, and the validation of the parsed arguments. Clap, the
  Unicode category tables, the shortest float printer \<open>ryu\<close> and the JSON printer are parameters
  (\<open>cli_lib\<close>). An \<open>OsString\<close> is UTF-8 text or other bytes.
\<close>

section \<open>Definitions\<close>

subsection \<open>Requests and completions\<close>

datatype os_string = Utf8 ustr | NotUtf8 "u8 list"

fun os_to_str :: "os_string \<Rightarrow> ustr option" where
  "os_to_str (Utf8 s) = Some s"
| "os_to_str (NotUtf8 _) = None"

datatype direct_operation = DSearch | DAll | DWrite | DIndex | DStats | DProjects | DGc

fun direct_operation_text :: "direct_operation \<Rightarrow> ustr" where
  "direct_operation_text DSearch = lit ''search''"
| "direct_operation_text DAll = lit ''all-project search''"
| "direct_operation_text DWrite = lit ''write''"
| "direct_operation_text DIndex = lit ''index''"
| "direct_operation_text DStats = lit ''stats''"
| "direct_operation_text DProjects = lit ''projects''"
| "direct_operation_text DGc = lit ''garbage collection''"

record direct_request =
  dr_operation :: direct_operation
  dr_project :: "os_string option"
  dr_query :: "ustr option"
  dr_k :: nat
  dr_requested_k :: ustr
  dr_json :: bool
  dr_full :: bool
  dr_no_gate :: bool
  dr_explain :: bool
  dr_min_score :: "f64 option"
  dr_max_gap :: "f64 option"

record direct_completion =
  dc_exit_code :: exit_code
  dc_stdout :: ustr
  dc_stderr :: ustr

text \<open>What the code takes from elsewhere: the categories Format and DecimalNumber, JSON text of a
  value, \<open>ryu\<close>'s text of a finite float, Clap's long help, the package version, and the lossy text
  of an argument that is not UTF-8.\<close>

record cli_lib =
  cl_format :: "uchar \<Rightarrow> bool"
  cl_decimal :: "uchar \<Rightarrow> bool"
  cl_json :: "jval \<Rightarrow> ustr"
  cl_ryu :: "f64 \<Rightarrow> ustr"
  cl_help :: ustr
  cl_version :: ustr
  cl_lossy :: "u8 list \<Rightarrow> ustr"

definition inline_text :: "cli_lib \<Rightarrow> ustr \<Rightarrow> ustr" where
  "inline_text L s = cow_str (sanitize_terminal (cl_format L) s Inline)"

definition multiline_text :: "cli_lib \<Rightarrow> ustr \<Rightarrow> ustr" where
  "multiline_text L s = cow_str (sanitize_terminal (cl_format L) s Multiline)"

definition hex_digit :: "nat \<Rightarrow> uchar" where
  "hex_digit n = (if n < 10 then 48 + n else 87 + n)"

text \<open>\<open>{:04x}\<close> of a code point below \<open>0x10000\<close>\<close>

definition hex04 :: "nat \<Rightarrow> ustr" where
  "hex04 n = [hex_digit (n div 4096 mod 16), hex_digit (n div 256 mod 16), hex_digit (n div 16 mod 16), hex_digit (n mod 16)]"

definition escape_c1 :: "uchar \<Rightarrow> ustr" where
  "escape_c1 c = (if 0x7F \<le> c \<and> c \<le> 0x9F then lit [CHR 0x5C, CHR ''u''] @ hex04 c else [c])"

definition compact_json_line :: "cli_lib \<Rightarrow> jval \<Rightarrow> ustr" where
  "compact_json_line L v = concat (map escape_c1 (cl_json L v)) @ [nl]"

definition machine_failure :: "cli_lib \<Rightarrow> exit_code \<Rightarrow> ustr \<Rightarrow> ustr \<Rightarrow> direct_completion" where
  "machine_failure L exit_code msg hint =
     \<lparr> dc_exit_code = exit_code,
       dc_stdout = compact_json_line L (JObj [(lit ''ok'', JBool False), (lit ''exit'', JInt (exit_code_i32 exit_code)),
         (lit ''error'', JStr msg), (lit ''hint'', JStr hint)] True),
       dc_stderr = [] \<rparr>"

definition completion_usage :: "cli_lib \<Rightarrow> ustr \<Rightarrow> bool \<Rightarrow> ustr \<Rightarrow> direct_completion" where
  "completion_usage L msg writes hint =
     (if writes then
        \<lparr> dc_exit_code = ExitUsage,
          dc_stdout = compact_json_line L (JObj [(lit ''ok'', JBool False), (lit ''exit'', JInt (exit_code_i32 ExitUsage)),
            (lit ''error'', JStr msg), (lit ''hint'', JStr hint)] True),
          dc_stderr = [] \<rparr>
      else \<lparr> dc_exit_code = ExitUsage, dc_stdout = [], dc_stderr = inline_text L msg @ [nl] \<rparr>)"

definition parser_usage :: "cli_lib \<Rightarrow> ustr \<Rightarrow> bool \<Rightarrow> direct_completion" where
  "parser_usage L msg writes =
     (if writes then completion_usage L msg True (lit ''fix the invocation and retry'')
      else \<lparr> dc_exit_code = ExitUsage, dc_stdout = [],
             dc_stderr = lit ''error: '' @ inline_text L msg @ [nl, nl] @ lit ''Usage: yams [OPTIONS] [QUERY]...'' @ [nl] \<rparr>)"

definition completion_help :: "cli_lib \<Rightarrow> exit_code \<Rightarrow> direct_completion" where
  "completion_help L exit_code = \<lparr> dc_exit_code = exit_code, dc_stdout = multiline_text L (cl_help L), dc_stderr = [] \<rparr>"

definition completion_version :: "cli_lib \<Rightarrow> direct_completion" where
  "completion_version L = \<lparr> dc_exit_code = ExitOk, dc_stdout = lit ''yams '' @ cl_version L @ [nl], dc_stderr = [] \<rparr>"

definition completion_operational :: "cli_lib \<Rightarrow> ustr \<Rightarrow> direct_completion" where
  "completion_operational L msg = \<lparr> dc_exit_code = ExitOperational, dc_stdout = [], dc_stderr = inline_text L msg @ [nl] \<rparr>"

definition operational_for_mode :: "cli_lib \<Rightarrow> ustr \<Rightarrow> bool \<Rightarrow> direct_completion" where
  "operational_for_mode L msg writes =
     (if writes then machine_failure L ExitOperational msg (lit ''retry after fixing the runtime failure'')
      else completion_operational L msg)"

definition completion_configuration :: "cli_lib \<Rightarrow> ustr \<Rightarrow> bool \<Rightarrow> direct_completion" where
  "completion_configuration L msg writes = completion_usage L msg writes (lit ''fix the configuration and retry'')"

datatype parse_outcome = ParseRequest direct_request | ParseCompletion direct_completion | ParsePanic

subsection \<open>Python numbers\<close>

definition is_python_number_whitespace :: "uchar \<Rightarrow> bool" where
  "is_python_number_whitespace c =
     ((0x09 \<le> c \<and> c \<le> 0x0D) \<or> c = 0x20 \<or> c = 0x85 \<or> c = 0xA0 \<or> c = 0x1680 \<or> (0x2000 \<le> c \<and> c \<le> 0x200A)
      \<or> c = 0x2028 \<or> c = 0x2029 \<or> c = 0x202F \<or> c = 0x205F \<or> c = 0x3000)"

definition is_python_string_whitespace :: "uchar \<Rightarrow> bool" where
  "is_python_string_whitespace c = (is_python_number_whitespace c \<or> (0x1C \<le> c \<and> c \<le> 0x1F))"

fun block_start :: "(uchar \<Rightarrow> bool) \<Rightarrow> nat \<Rightarrow> nat" where
  "block_start D 0 = 0"
| "block_start D (Suc n) = (if \<not> is_scalar n \<or> \<not> D n then Suc n else block_start D n)"

definition decimal_digit :: "(uchar \<Rightarrow> bool) \<Rightarrow> uchar \<Rightarrow> nat option" where
  "decimal_digit D c = (if \<not> D c then None else Some ((c - block_start D c) mod 10))"

record count_argument =
  ct_saturated :: nat
  ct_canonical :: ustr
  ct_less_than_one :: bool

definition MAX_INT_DIGITS :: nat where "MAX_INT_DIGITS = 4300"

fun int_loop :: "(uchar \<Rightarrow> bool) \<Rightarrow> nat list \<Rightarrow> bool \<Rightarrow> ustr \<Rightarrow> nat list option" where
  "int_loop D normalized previous_was_digit [] = (if previous_was_digit then Some normalized else None)"
| "int_loop D normalized previous_was_digit (c # cs) =
     (if c = underscore then (if previous_was_digit then int_loop D normalized False cs else None)
      else case decimal_digit D c of
             None \<Rightarrow> None
           | Some d \<Rightarrow> if length (normalized @ [d]) > MAX_INT_DIGITS then None
                       else int_loop D (normalized @ [d]) True cs)"

definition saturating_step :: "nat \<Rightarrow> nat \<Rightarrow> nat" where
  "saturating_step v d = (if v * 10 > USIZE_MAX then USIZE_MAX else if v * 10 + d > USIZE_MAX then USIZE_MAX else v * 10 + d)"

definition split_sign :: "ustr \<Rightarrow> bool \<times> ustr" where
  "split_sign v = (case strip_prefix [dash] v of Some r \<Rightarrow> (True, r)
     | None \<Rightarrow> (case strip_prefix (lit ''+'') v of Some r \<Rightarrow> (False, r) | None \<Rightarrow> (False, v)))"

definition parse_python_int :: "(uchar \<Rightarrow> bool) \<Rightarrow> ustr \<Rightarrow> count_argument option" where
  "parse_python_int D value =
     (case split_sign (trim_matches is_python_number_whitespace value) of (negative, digits) \<Rightarrow>
      if digits = [] then None
      else case int_loop D [] False digits of
        None \<Rightarrow> None
      | Some normalized \<Rightarrow>
          let significant = dropWhile (\<lambda>d. d = 0) normalized in
          if significant = [] then Some \<lparr> ct_saturated = 0, ct_canonical = lit ''0'', ct_less_than_one = True \<rparr>
          else let magnitude = map (\<lambda>d. 48 + d) significant in
          if negative then Some \<lparr> ct_saturated = 0, ct_canonical = dash # magnitude, ct_less_than_one = True \<rparr>
          else Some \<lparr> ct_saturated = foldl saturating_step 0 significant, ct_canonical = magnitude, ct_less_than_one = False \<rparr>)"

text \<open>\<open>valid_decimal_float_shape\<close>: optional sign, digits, fraction, exponent, and nothing else.\<close>

definition skip_sign :: "ustr \<Rightarrow> ustr" where
  "skip_sign v = (case v of c # r \<Rightarrow> if c = 43 \<or> c = 45 then r else v | [] \<Rightarrow> [])"

definition valid_decimal_float_shape :: "ustr \<Rightarrow> bool" where
  "valid_decimal_float_shape value =
     (let v1 = skip_sign value;
          integer_digits = length (takeWhile is_ascii_digit v1);
          v2 = dropWhile is_ascii_digit v1;
          (fraction_digits, v3) =
            (case v2 of c # r \<Rightarrow> if c = 46 then (length (takeWhile is_ascii_digit r), dropWhile is_ascii_digit r) else (0, v2)
             | [] \<Rightarrow> (0, []))
      in if integer_digits + fraction_digits = 0 then False
         else case v3 of
                [] \<Rightarrow> True
              | c # r \<Rightarrow> if c = 101 \<or> c = 69
                          then let r1 = skip_sign r in takeWhile is_ascii_digit r1 \<noteq> [] \<and> dropWhile is_ascii_digit r1 = []
                          else False)"

text \<open>\<open>str::parse::<f64>\<close> of a text of that shape: the nearest float, with the sign of zero.\<close>

definition ascii_value :: "ustr \<Rightarrow> nat" where
  "ascii_value s = digits_value (digit_values s)"

definition parse_f64 :: "ustr \<Rightarrow> f64" where
  "parse_f64 value =
     (let v1 = skip_sign value;
          ints = takeWhile is_ascii_digit v1;
          v2 = dropWhile is_ascii_digit v1;
          (frac, v3) =
            (case v2 of c # r \<Rightarrow> if c = 46 then (takeWhile is_ascii_digit r, dropWhile is_ascii_digit r) else ([], v2)
             | [] \<Rightarrow> ([], []));
          exponent = (case v3 of [] \<Rightarrow> 0
             | c # r \<Rightarrow> (if prefix [dash] r then - 1 else 1) * int (ascii_value (skip_sign r)))
      in f64_of_mag (prefix [dash] value)
           (of_nat (ascii_value (ints @ frac)) * power_int 10 (exponent - int (length frac))))"

fun float_loop :: "(uchar \<Rightarrow> bool) \<Rightarrow> uchar option \<Rightarrow> ustr \<Rightarrow> ustr option" where
  "float_loop D previous [] = Some []"
| "float_loop D previous (c # cs) =
     (case decimal_digit D c of
        Some d \<Rightarrow> map_option (Cons (48 + d)) (float_loop D (Some c) cs)
      | None \<Rightarrow>
          if c = underscore then
            (if previous \<noteq> None \<and> cs \<noteq> [] \<and> decimal_digit D (the previous) \<noteq> None \<and> decimal_digit D (hd cs) \<noteq> None
             then float_loop D (Some c) cs else None)
          else if c = 43 \<or> c = 45 \<or> c = 46 \<or> c = 101 \<or> c = 69 then map_option (Cons c) (float_loop D (Some c) cs)
          else None)"

definition parse_python_float :: "(uchar \<Rightarrow> bool) \<Rightarrow> ustr \<Rightarrow> f64 option" where
  "parse_python_float D text0 =
     (let value = trim_matches is_python_number_whitespace text0 in
      if value = [] then None
      else case split_sign value of (negative, magnitude_text) \<Rightarrow>
        let special = map to_ascii_lowercase magnitude_text in
        if special = lit ''nan'' then Some (NaN negative)
        else if special = lit ''inf'' \<or> special = lit ''infinity'' then Some (Inf negative)
        else case float_loop D None value of
               None \<Rightarrow> None
             | Some normalized \<Rightarrow> if \<not> valid_decimal_float_shape normalized then None else Some (parse_f64 normalized))"

text \<open>The messages of the two value parsers.\<close>

definition escape_quotes :: "ustr \<Rightarrow> ustr" where
  "escape_quotes value = concat (map (\<lambda>c. if c = 92 then [92, 92] else if c = 39 then [92, 39] else [c]) value)"

definition invalid_numeric_value :: "ustr \<Rightarrow> ustr \<Rightarrow> ustr" where
  "invalid_numeric_value kind value = lit ''invalid '' @ kind @ lit '' value: '' @ [39] @ escape_quotes value @ [39]"

definition count_from_str :: "(uchar \<Rightarrow> bool) \<Rightarrow> ustr \<Rightarrow> (ustr, count_argument) result" where
  "count_from_str D value =
     (case parse_python_int D value of Some v \<Rightarrow> Inr v | None \<Rightarrow> Inl (invalid_numeric_value (lit ''int'') value))"

definition float_from_str :: "(uchar \<Rightarrow> bool) \<Rightarrow> ustr \<Rightarrow> (ustr, f64) result" where
  "float_from_str D value =
     (case parse_python_float D value of Some v \<Rightarrow> Inr v | None \<Rightarrow> Inl (invalid_numeric_value (lit ''float'') value))"

text \<open>\<open>i32::from_str\<close> on the exponent \<open>ryu\<close> prints; \<open>None\<close> is the panic of \<open>expect\<close>.\<close>

definition parse_i32 :: "ustr \<Rightarrow> int option" where
  "parse_i32 s =
     (let r = skip_sign s; v = (if prefix [dash] s then - 1 else 1) * int (ascii_value r)
      in if r \<noteq> [] \<and> list_all is_ascii_digit r \<and> - (2 ^ 31) \<le> v \<and> v < 2 ^ 31 then Some v else None)"

definition format_python_exponent :: "ustr \<Rightarrow> ustr \<Rightarrow> ustr option" where
  "format_python_exponent mantissa exponent =
     map_option (\<lambda>e. if e < 0 then mantissa @ lit ''e-'' @ decimal02 (nat (- e)) else mantissa @ lit ''e+'' @ decimal02 (nat e))
       (parse_i32 exponent)"

definition is_sign_negative :: "f64 \<Rightarrow> bool" where
  "is_sign_negative v = (case v of NaN s \<Rightarrow> s | Inf s \<Rightarrow> s | Fin s _ \<Rightarrow> s)"

definition python_float_repr :: "cli_lib \<Rightarrow> f64 \<Rightarrow> ustr option" where
  "python_float_repr L v =
     (case v of
        NaN _ \<Rightarrow> Some (lit ''nan'')
      | Inf s \<Rightarrow> Some (if s then lit ''-inf'' else lit ''inf'')
      | Fin s q \<Rightarrow>
          let rendered = cl_ryu L v in
          (case split_once 101 rendered of
             Some (mantissa, exponent) \<Rightarrow> format_python_exponent mantissa exponent
           | None \<Rightarrow>
               let magnitude_text = (case strip_prefix [dash] rendered of Some r \<Rightarrow> r | None \<Rightarrow> rendered) in
               (case (if q \<noteq> 0 then strip_prefix (lit ''0.'') magnitude_text else None) of
                  None \<Rightarrow> Some rendered
                | Some fraction \<Rightarrow>
                    (case position (\<lambda>c. c \<noteq> 48) fraction of
                       None \<Rightarrow> Some rendered
                     | Some first_nonzero \<Rightarrow>
                         if first_nonzero + 1 > 4 then
                           let significant = drop first_nonzero fraction;
                               sign = (if is_sign_negative v then [dash] else []);
                               mantissa = (if tl significant = [] then sign @ [hd significant]
                                           else sign @ [hd significant] @ lit ''.'' @ tl significant)
                           in format_python_exponent mantissa (dash # decimal (first_nonzero + 1))
                         else Some rendered))))"

subsection \<open>Normalisation\<close>

definition LONG_OPTIONS :: "ustr list" where
  "LONG_OPTIONS = map lit [''--help'', ''--version'', ''--json'', ''--full'', ''--index'', ''--write'', ''--stats'',
     ''--project'', ''--all'', ''--projects'', ''--no-gate'', ''--explain'', ''--min-score'', ''--max-gap'', ''--gc'']"

definition is_python_negative_number :: "(uchar \<Rightarrow> bool) \<Rightarrow> ustr \<Rightarrow> bool" where
  "is_python_negative_number D argument =
     (case strip_prefix [dash] argument of
        None \<Rightarrow> False
      | Some rest \<Rightarrow>
          if rest \<noteq> [] \<and> list_all (\<lambda>c. decimal_digit D c \<noteq> None) rest then True
          else case split_once 46 rest of
                 None \<Rightarrow> False
               | Some (integer, fraction) \<Rightarrow>
                   fraction \<noteq> [] \<and> \<not> list_ex (\<lambda>c. c = 46) fraction \<and> list_all (\<lambda>c. decimal_digit D c \<noteq> None) integer
                   \<and> list_all (\<lambda>c. decimal_digit D c \<noteq> None) fraction)"

definition is_argparse_option_looking :: "(uchar \<Rightarrow> bool) \<Rightarrow> ustr \<Rightarrow> bool" where
  "is_argparse_option_looking D argument =
     (argument \<noteq> [dash] \<and> prefix [dash] argument
      \<and> (prefix (lit ''-h'') argument \<or> prefix (lit ''-k'') argument
         \<or> (\<not> list_ex (\<lambda>c. c = sp) argument \<and> \<not> is_python_negative_number D argument)))"

definition placeholder :: "nat \<Rightarrow> ustr" where
  "placeholder d = [0xE000] @ lit ''yams-argument-'' @ decimal d @ [0xE001]"

lemma placeholder_inject [simp]: "placeholder m = placeholder n \<longleftrightarrow> m = n"
  by (simp add: placeholder_def)

lemma finite_placeholders: "finite {k. d \<le> k \<and> Utf8 (placeholder k) \<in> set reserved}"
proof -
  have "finite ((\<lambda>k. Utf8 (placeholder k)) -` set reserved)" by (rule finite_vimageI) (auto intro: injI)
  then show ?thesis by (rule rev_finite_subset) auto
qed

text \<open>\<open>fresh_placeholder\<close>: the discriminator is a \<open>u64\<close> that an argument vector cannot exhaust (it grows
  by at most one for each reserved argument and each call).\<close>

function fresh_placeholder :: "os_string list \<Rightarrow> nat \<Rightarrow> ustr \<times> os_string list \<times> nat" where
  "fresh_placeholder reserved d =
     (if Utf8 (placeholder d) \<in> set reserved then fresh_placeholder reserved (d + 1)
      else (placeholder d, Utf8 (placeholder d) # reserved, d + 1))"
  by pat_completeness auto
termination
proof (relation "measure (\<lambda>(reserved, d). card {k. d \<le> k \<and> Utf8 (placeholder k) \<in> set reserved})")
  fix reserved d
  assume "Utf8 (placeholder d) \<in> set reserved"
  moreover define A where "A = (\<lambda>d. {k. d \<le> k \<and> Utf8 (placeholder k) \<in> set reserved})"
  ultimately have "A (d + 1) \<subseteq> A d" "d \<in> A d" "d \<notin> A (d + 1)" by auto
  then have "A (d + 1) \<subset> A d" by blast
  then have "card (A (d + 1)) < card (A d)" by (rule psubset_card_mono [rotated]) (simp add: A_def finite_placeholders)
  then show "((reserved, d + 1), reserved, d)
      \<in> measure (\<lambda>(reserved, d). card {k. d \<le> k \<and> Utf8 (placeholder k) \<in> set reserved})"
    by (simp add: A_def)
qed simp

declare fresh_placeholder.simps [simp del]

record norm_state =
  ns_arguments :: "os_string list"
  ns_reserved :: "os_string list"
  ns_positional :: "(ustr \<times> ustr) list"
  ns_unknown :: "(ustr \<times> ustr) list"
  ns_pending :: "ustr option"
  ns_discriminator :: nat
  ns_options :: bool

definition push_arg :: "os_string \<Rightarrow> norm_state \<Rightarrow> norm_state" where
  "push_arg a st = st\<lparr> ns_arguments := ns_arguments st @ [a] \<rparr>"

definition replace_unknown :: "ustr \<Rightarrow> norm_state \<Rightarrow> norm_state" where
  "replace_unknown t st =
     (case fresh_placeholder (ns_reserved st) (ns_discriminator st) of (p, reserved, d) \<Rightarrow>
        push_arg (Utf8 p) (st\<lparr> ns_reserved := reserved, ns_discriminator := d, ns_unknown := (p, t) # ns_unknown st \<rparr>))"

definition replace_positional :: "ustr \<Rightarrow> norm_state \<Rightarrow> norm_state" where
  "replace_positional t st =
     (case fresh_placeholder (ns_reserved st) (ns_discriminator st) of (p, reserved, d) \<Rightarrow>
        push_arg (Utf8 p) (st\<lparr> ns_reserved := reserved, ns_discriminator := d, ns_positional := (p, t) # ns_positional st \<rparr>))"

definition explicit_help_error :: "ustr \<Rightarrow> ustr" where
  "explicit_help_error explicit =
     lit ''argument -h/--help: ignored explicit argument '' @ lit [CHR 0x27] @ explicit @ lit [CHR 0x27]"

text \<open>What happens at \<open>-h...\<close>; the loop always ends there.\<close>

definition help_stop :: "(uchar \<Rightarrow> bool) \<Rightarrow> ustr \<Rightarrow> os_string list \<Rightarrow> norm_state \<Rightarrow> norm_state" where
  "help_stop D help_tail rest st =
     (case strip_prefix (lit ''='') help_tail of
        Some explicit \<Rightarrow> st\<lparr> ns_pending := Some (explicit_help_error explicit) \<rparr>
      | None \<Rightarrow>
          if prefix [dash] help_tail then st\<lparr> ns_pending := Some (explicit_help_error help_tail) \<rparr>
          else if help_tail = lit ''k''
                  \<and> (case rest of [] \<Rightarrow> True | v # _ \<Rightarrow> (case os_to_str v of None \<Rightarrow> False | Some t \<Rightarrow> is_argparse_option_looking D t))
          then push_arg (Utf8 (lit ''--json'')) (push_arg (Utf8 (lit ''-k'')) st)
          else push_arg (Utf8 (lit ''-h'')) st)"

datatype canonical_step = Canonical ustr | Replaced norm_state | Stopped norm_state

definition long_canonical :: "ustr \<Rightarrow> norm_state \<Rightarrow> canonical_step" where
  "long_canonical t st =
     (let (name, value) = (case split_once 61 t of None \<Rightarrow> (t, None) | Some (n, v) \<Rightarrow> (n, Some v));
          suffix_text = (case value of None \<Rightarrow> [] | Some v \<Rightarrow> 61 # v)
      in if list_ex (\<lambda>option. option = name) LONG_OPTIONS then Canonical (name @ suffix_text)
         else case filter (\<lambda>option. prefix name option) LONG_OPTIONS of
                [] \<Rightarrow> Replaced (replace_unknown t st)
              | [resolved] \<Rightarrow> Canonical (resolved @ suffix_text)
              | many \<Rightarrow> Stopped (st\<lparr> ns_pending := Some (lit ''ambiguous option: '' @ name @ lit '' could match ''
                          @ join (lit '', '') many) \<rparr>))"

definition canonical_of :: "(uchar \<Rightarrow> bool) \<Rightarrow> ustr \<Rightarrow> norm_state \<Rightarrow> canonical_step" where
  "canonical_of D t st =
     (if prefix (lit ''--'') t then long_canonical t st
      else if prefix (lit ''-k'') t then Canonical t
      else if is_argparse_option_looking D t then Replaced (replace_unknown t st)
      else if t = lit ''index'' then Canonical (lit ''--index'')
      else if t \<noteq> [dash] \<and> prefix [dash] t \<and> (is_python_negative_number D t \<or> list_ex (\<lambda>c. c = sp) t)
      then Replaced (replace_positional t st)
      else Canonical t)"

definition needs_separated_value :: "ustr \<Rightarrow> bool" where
  "needs_separated_value c = (c = lit ''-k'' \<or> c = lit ''--project'' \<or> c = lit ''--min-score'' \<or> c = lit ''--max-gap'')"

function normalize_loop :: "(uchar \<Rightarrow> bool) \<Rightarrow> norm_state \<Rightarrow> os_string list \<Rightarrow> norm_state" where
  "normalize_loop D st [] = st"
| "normalize_loop D st (argument # rest) =
     (if \<not> ns_options st then normalize_loop D (push_arg argument st) rest
      else if argument = Utf8 (lit ''--'')
      then normalize_loop D (push_arg argument (st\<lparr> ns_options := False \<rparr>)) rest
      else case os_to_str argument of
        None \<Rightarrow> normalize_loop D (push_arg argument st) rest
      | Some t \<Rightarrow>
          if t = lit ''-h'' then push_arg argument st
          else case strip_prefix (lit ''-h'') t of
            Some help_tail \<Rightarrow> help_stop D help_tail rest st
          | None \<Rightarrow>
             (case canonical_of D t st of
                Stopped st' \<Rightarrow> st'
              | Replaced st' \<Rightarrow> normalize_loop D st' rest
              | Canonical c \<Rightarrow>
                  if c = lit ''--help'' \<or> c = lit ''--version'' then push_arg (Utf8 c) st
                  else if \<not> needs_separated_value c then normalize_loop D (push_arg (Utf8 c) st) rest
                  else (case rest of
                     [] \<Rightarrow> push_arg (Utf8 c) st
                   | value # rest' \<Rightarrow>
                      (case os_to_str value of
                         None \<Rightarrow> normalize_loop D (push_arg value (push_arg (Utf8 c) st)) rest'
                       | Some v \<Rightarrow>
                           if prefix [dash] v \<and> \<not> is_argparse_option_looking D v
                           then normalize_loop D (push_arg (Utf8 (c @ lit ''='' @ v)) st) rest'
                           else if is_argparse_option_looking D v
                           then push_arg (Utf8 (lit ''--json'')) (push_arg (Utf8 c) st)
                           else normalize_loop D (push_arg value (push_arg (Utf8 c) st)) rest'))))"
  by pat_completeness auto
termination by (relation "measure (\<lambda>(_, _, raw). length raw)") auto

definition normalize_start :: "os_string list \<Rightarrow> norm_state" where
  "normalize_start raw =
     \<lparr> ns_arguments = [Utf8 (lit ''yams'')], ns_reserved = raw, ns_positional = [], ns_unknown = [],
       ns_pending = None, ns_discriminator = 0, ns_options = True \<rparr>"

definition normalize_arguments :: "(uchar \<Rightarrow> bool) \<Rightarrow> os_string list \<Rightarrow> norm_state" where
  "normalize_arguments D raw = normalize_loop D (normalize_start raw) (drop 1 raw)"

subsection \<open>Interrupted queries\<close>

definition original_query_argument :: "cli_lib \<Rightarrow> norm_state \<Rightarrow> os_string \<Rightarrow> ustr" where
  "original_query_argument L n argument =
     (let rendered = (case argument of Utf8 s \<Rightarrow> s | NotUtf8 b \<Rightarrow> cl_lossy L b)
      in case map_of (ns_positional n) rendered of
           Some t \<Rightarrow> t
         | None \<Rightarrow> (case map_of (ns_unknown n) rendered of Some t \<Rightarrow> t | None \<Rightarrow> rendered))"

definition recognized_option_needs_value :: "ustr \<Rightarrow> bool option" where
  "recognized_option_needs_value argument =
     (if argument = lit ''-k'' then Some True
      else if prefix (lit ''-k'') argument then Some False
      else let (name, attached_value) = (case split_once 61 argument of None \<Rightarrow> (argument, False) | Some (n, _) \<Rightarrow> (n, True))
           in if list_ex (\<lambda>option. option = name) LONG_OPTIONS
              then Some (\<not> attached_value \<and> (name = lit ''--project'' \<or> name = lit ''--min-score'' \<or> name = lit ''--max-gap''))
              else None)"

record query_scan =
  qs_options :: bool
  qs_needs_value :: bool
  qs_started :: bool
  qs_interrupted :: bool
  qs_unexpected :: "ustr list"

definition query_scan_step :: "cli_lib \<Rightarrow> norm_state \<Rightarrow> query_scan \<Rightarrow> os_string \<Rightarrow> query_scan" where
  "query_scan_step L n q argument =
     (if \<not> qs_options q then
        (if qs_interrupted q then q\<lparr> qs_unexpected := qs_unexpected q @ [original_query_argument L n argument] \<rparr> else q)
      else if qs_needs_value q then q\<lparr> qs_needs_value := False \<rparr>
      else case os_to_str argument of
        None \<Rightarrow> q\<lparr> qs_started := True \<rparr>
      | Some t \<Rightarrow>
          (case map_of (ns_unknown n) t of
             Some original \<Rightarrow> q\<lparr> qs_unexpected := qs_unexpected q @ [original],
                                qs_interrupted := (qs_interrupted q \<or> qs_started q) \<rparr>
           | None \<Rightarrow>
               if t = lit ''--'' then
                 q\<lparr> qs_options := False,
                    qs_unexpected := (if qs_interrupted q then qs_unexpected q @ [lit ''--''] else qs_unexpected q) \<rparr>
               else case recognized_option_needs_value t of
                 Some needs_value \<Rightarrow> q\<lparr> qs_interrupted := (qs_interrupted q \<or> qs_started q), qs_needs_value := needs_value \<rparr>
               | None \<Rightarrow>
                   if qs_interrupted q
                   then q\<lparr> qs_unexpected := qs_unexpected q @ [original_query_argument L n argument] \<rparr>
                   else q\<lparr> qs_started := True \<rparr>))"

definition interrupted_query_message :: "cli_lib \<Rightarrow> norm_state \<Rightarrow> ustr option" where
  "interrupted_query_message L n =
     (let q = foldl (query_scan_step L n)
                \<lparr> qs_options = True, qs_needs_value = False, qs_started = False, qs_interrupted = False, qs_unexpected = [] \<rparr>
                (drop 1 (ns_arguments n))
      in if qs_unexpected q \<noteq> [] then Some (lit ''unrecognized arguments: '' @ join [sp] (qs_unexpected q)) else None)"

definition selects_write :: "os_string list \<Rightarrow> bool" where
  "selects_write raw =
     list_ex (\<lambda>argument. case os_to_str argument of
         None \<Rightarrow> False
       | Some t \<Rightarrow> let name = (case split_once 61 t of None \<Rightarrow> t | Some (n, _) \<Rightarrow> n)
                   in utf8_len name > 2 \<and> prefix name (lit ''--write''))
       (takeWhile (\<lambda>argument. argument \<noteq> Utf8 (lit ''--'')) (drop 1 raw))"

subsection \<open>Clap\<close>

record cli_args =
  ca_query :: "ustr list"
  ca_k :: "count_argument option"
  ca_version :: bool
  ca_json :: bool
  ca_full :: bool
  ca_index :: bool
  ca_write :: bool
  ca_stats :: bool
  ca_project :: "os_string option"
  ca_all :: bool
  ca_projects :: bool
  ca_no_gate :: bool
  ca_explain :: bool
  ca_min_score :: "f64 option"
  ca_max_gap :: "f64 option"
  ca_gc :: bool

datatype clap_kind = DisplayHelp | ValueValidation | TooManyValues | UnknownArgument | InvalidValue | OtherClapKind

record clap_error =
  cx_kind :: clap_kind
  cx_argument :: "ustr option"
  cx_value :: "ustr option"
  cx_source :: "ustr option"
  cx_rendered :: ustr

definition rsplit_once_str :: "ustr \<Rightarrow> ustr \<Rightarrow> (ustr \<times> ustr) option" where
  "rsplit_once_str pat s =
     (case filter (\<lambda>i. prefix pat (drop i s)) (rev [0..<Suc (length s)]) of
        [] \<Rightarrow> None
      | i # _ \<Rightarrow> Some (take i s, drop (i + length pat) s))"

definition quoted :: "ustr \<Rightarrow> ustr" where
  "quoted s = lit [CHR 0x27] @ s @ lit [CHR 0x27]"

definition clap_fallback :: "ustr \<Rightarrow> ustr" where
  "clap_fallback rendered =
     (let body = (case strip_prefix (lit ''error: '') rendered of Some r \<Rightarrow> r | None \<Rightarrow> rendered);
          message_text = (case rsplit_once_str ([nl, nl] @ lit ''Usage: yams '') body of
             Some (m, _) \<Rightarrow> m
           | None \<Rightarrow> (case rsplit_once_str ([nl, nl] @ lit ''For more information'') body of
               Some (m, _) \<Rightarrow> m | None \<Rightarrow> body))
      in trim_end_matches (\<lambda>c. c = nl) message_text)"

definition clap_message :: "clap_error \<Rightarrow> os_string list \<Rightarrow> ustr" where
  "clap_message e raw =
     (let fallback = clap_fallback (cx_rendered e) in
      case cx_kind e of
        ValueValidation \<Rightarrow>
          (case (cx_argument e, cx_value e, cx_source e) of
             (Some a, Some v, Some src) \<Rightarrow> lit ''invalid value '' @ quoted v @ lit '' for '' @ quoted a @ lit '': '' @ src
           | _ \<Rightarrow> fallback)
      | TooManyValues \<Rightarrow>
          (case (cx_argument e, cx_value e) of
             (Some a, Some v) \<Rightarrow>
               lit ''unexpected value '' @ quoted v @ lit '' for '' @ quoted a @ lit '' found; no more were expected''
           | _ \<Rightarrow> fallback)
      | UnknownArgument \<Rightarrow>
          (case cx_argument e of
             Some a \<Rightarrow>
               (case find (\<lambda>c. prefix a c) (List.map_filter os_to_str (drop 1 raw)) of
                  Some raw_argument \<Rightarrow> lit ''unexpected argument '' @ quoted raw_argument @ lit '' found''
                | None \<Rightarrow> lit ''unexpected argument '' @ quoted a @ lit '' found'')
           | None \<Rightarrow> fallback)
      | InvalidValue \<Rightarrow>
          (case (cx_argument e, cx_value e) of
             (Some a, Some v) \<Rightarrow>
               if v = [] then lit ''a value is required for '' @ quoted a @ lit '' but none was supplied''
               else lit ''invalid value '' @ quoted v @ lit '' for '' @ quoted a
           | _ \<Rightarrow> fallback)
      | _ \<Rightarrow> fallback)"

subsection \<open>Validation\<close>

definition args_operation :: "cli_args \<Rightarrow> direct_operation" where
  "args_operation args =
     (if ca_index args then DIndex else if ca_write args then DWrite else if ca_stats args then DStats
      else if ca_all args then DAll else if ca_projects args then DProjects else if ca_gc args then DGc else DSearch)"

definition selected_operations :: "cli_args \<Rightarrow> ustr list" where
  "selected_operations args =
     map fst (filter snd [(lit ''--index'', ca_index args), (lit ''--write'', ca_write args), (lit ''--stats'', ca_stats args),
       (lit ''--all'', ca_all args), (lit ''--projects'', ca_projects args), (lit ''--gc'', ca_gc args)])"

fun operation_flag :: "direct_operation \<Rightarrow> ustr" where
  "operation_flag DSearch = lit ''search''"
| "operation_flag DAll = lit ''all''"
| "operation_flag DWrite = lit ''write''"
| "operation_flag DIndex = lit ''index''"
| "operation_flag DStats = lit ''stats''"
| "operation_flag DProjects = lit ''projects''"
| "operation_flag DGc = lit ''gc''"

definition is_search :: "direct_operation \<Rightarrow> bool" where
  "is_search op = (op = DSearch \<or> op = DAll)"

definition usage_outcome :: "cli_lib \<Rightarrow> ustr \<Rightarrow> bool \<Rightarrow> parse_outcome" where
  "usage_outcome L msg writes = ParseCompletion (completion_usage L msg writes (lit ''fix the invocation and retry''))"

definition usage_float :: "cli_lib \<Rightarrow> ustr \<Rightarrow> f64 \<Rightarrow> bool \<Rightarrow> parse_outcome" where
  "usage_float L msg v writes =
     (case python_float_repr L v of None \<Rightarrow> ParsePanic | Some t \<Rightarrow> usage_outcome L (msg @ t) writes)"

definition min_score_bad :: "f64 \<Rightarrow> bool" where
  "min_score_bad v = (\<not> is_finite v \<or> \<not> f64_contains f64_neg_one f64_one v)"

definition max_gap_bad :: "f64 \<Rightarrow> bool" where
  "max_gap_bad v = (\<not> is_finite v \<or> f64_lt v f64_zero)"

definition write_conflicts :: "cli_args \<Rightarrow> ustr" where
  "write_conflicts args =
     join (lit '', '') (map fst (filter snd [(lit ''--index'', ca_index args), (lit ''--stats'', ca_stats args),
       (lit ''--all'', ca_all args), (lit ''--projects'', ca_projects args), (lit ''--gc'', ca_gc args)]))"

definition blank_query :: "ustr \<Rightarrow> bool" where
  "blank_query q = (trim_matches is_python_string_whitespace q = [])"

text \<open>The first part of \<open>validate\<close>: values and flag combinations that do not depend on the operation.\<close>

definition validate_values :: "cli_lib \<Rightarrow> cli_args \<Rightarrow> bool \<Rightarrow> parse_outcome option" where
  "validate_values L args writes =
     (if ca_version args then Some (ParseCompletion (completion_version L))
      else if (case ca_min_score args of None \<Rightarrow> False | Some v \<Rightarrow> min_score_bad v)
      then Some (usage_float L (lit ''--min-score must be within [-1.0, 1.0], the range of a cosine similarity; got '')
             (the (ca_min_score args)) writes)
      else if (case ca_max_gap args of None \<Rightarrow> False | Some v \<Rightarrow> max_gap_bad v)
      then Some (usage_float L (lit ''--max-gap must be 0.0 or greater; got '') (the (ca_max_gap args)) writes)
      else if (case ca_k args of None \<Rightarrow> False | Some v \<Rightarrow> ct_less_than_one v)
      then Some (usage_outcome L (lit ''-k must be 1 or greater; got '' @ ct_canonical (the (ca_k args))) writes)
      else if ca_no_gate args \<and> \<not> ca_explain args \<and> (ca_min_score args \<noteq> None \<or> ca_max_gap args \<noteq> None)
      then Some (usage_outcome L (lit (''--min-score/--max-gap do nothing with --no-gate: the gate does not run, so they can ''
             @ ''neither filter nor annotate. Add --explain to see what they would have done, or drop --no-gate to apply them.'')) writes)
      else if ca_explain args \<and> ca_all args
      then Some (usage_outcome L (lit (''--explain covers one project at a time: every project has its own gate baseline, so ''
             @ ''one verdict cannot describe them. Drop --all '') @ [0x2014] @ lit '' with --project PATH to pick a different one.'') writes)
      else if length (selected_operations args) > 1
      then Some (if ca_write args
             then ParseCompletion (completion_usage L (lit ''--write cannot be combined with '' @ write_conflicts args) True
                    (lit ''run the write on its own''))
             else usage_outcome L (lit ''choose exactly one operation; cannot combine ''
                    @ join (lit '', '') (selected_operations args)) False)
      else None)"

text \<open>The second part: what the selected operation accepts.\<close>

definition validate_operation :: "cli_lib \<Rightarrow> cli_args \<Rightarrow> bool \<Rightarrow> parse_outcome option" where
  "validate_operation L args writes =
     (let op = args_operation args; query = join [sp] (ca_query args) in
      if ca_project args \<noteq> None \<and> (op = DAll \<or> op = DProjects \<or> op = DGc)
      then Some (usage_outcome L (lit ''--project is not valid with --'' @ operation_flag op) writes)
      else if ca_json args \<and> op = DWrite then Some (usage_outcome L (lit ''--json has no effect with --write'') True)
      else if ca_k args \<noteq> None \<and> \<not> is_search op then Some (usage_outcome L (lit ''-k is only valid with search'') writes)
      else if ca_full args \<and> \<not> is_search op then Some (usage_outcome L (lit ''--full is only valid with search'') writes)
      else case find (\<lambda>(selected, name). selected \<and> \<not> is_search op)
             [(ca_no_gate args, lit ''--no-gate''), (ca_explain args, lit ''--explain''),
              (ca_min_score args \<noteq> None, lit ''--min-score''), (ca_max_gap args \<noteq> None, lit ''--max-gap'')] of
        Some (_, name) \<Rightarrow> Some (usage_outcome L (name @ lit '' is only valid with search'') writes)
      | None \<Rightarrow>
          if \<not> is_search op \<and> ca_query args \<noteq> []
          then Some (usage_outcome L (lit ''--'' @ operation_flag op @ lit '' does not accept query text'') writes)
          else if op = DAll \<and> blank_query query then Some (usage_outcome L (lit ''--all needs a query'') writes)
          else if op = DSearch \<and> ca_query args = [] then Some (ParseCompletion (completion_help L ExitUsage))
          else if op = DSearch \<and> blank_query query
          then Some (usage_outcome L (lit ''empty query: nothing to search for'') writes)
          else None)"

definition accepted_request :: "cli_args \<Rightarrow> direct_request" where
  "accepted_request args =
     \<lparr> dr_operation = args_operation args, dr_project = ca_project args,
       dr_query = (if is_search (args_operation args) then Some (join [sp] (ca_query args)) else None),
       dr_k = (case ca_k args of None \<Rightarrow> 5 | Some v \<Rightarrow> ct_saturated v),
       dr_requested_k = (case ca_k args of None \<Rightarrow> lit ''5'' | Some v \<Rightarrow> ct_canonical v),
       dr_json = ca_json args, dr_full = ca_full args, dr_no_gate = ca_no_gate args, dr_explain = ca_explain args,
       dr_min_score = ca_min_score args, dr_max_gap = ca_max_gap args \<rparr>"

definition validate_args :: "cli_lib \<Rightarrow> cli_args \<Rightarrow> bool \<Rightarrow> parse_outcome" where
  "validate_args L args writes =
     (case validate_values L args writes of
        Some outcome \<Rightarrow> outcome
      | None \<Rightarrow>
         (case validate_operation L args writes of
            Some outcome \<Rightarrow> outcome
          | None \<Rightarrow> ParseRequest (accepted_request args)))"

definition parse_direct_request ::
  "cli_lib \<Rightarrow> (os_string list \<Rightarrow> (clap_error, cli_args) result) \<Rightarrow> os_string list \<Rightarrow> parse_outcome" where
  "parse_direct_request L clap raw =
     (let writes = selects_write raw; n = normalize_arguments (cl_decimal L) raw
      in case clap (ns_arguments n) of
           Inl e \<Rightarrow>
             if cx_kind e = DisplayHelp
             then ParseCompletion \<lparr> dc_exit_code = ExitOk, dc_stdout = multiline_text L (cx_rendered e), dc_stderr = [] \<rparr>
             else ParseCompletion (parser_usage L (clap_message e raw) writes)
         | Inr args0 \<Rightarrow>
             (case ns_pending n of
                Some msg \<Rightarrow> ParseCompletion (parser_usage L msg writes)
              | None \<Rightarrow>
                 let args = args0\<lparr> ca_query := map (\<lambda>q. case map_of (ns_positional n) q of Some t \<Rightarrow> t | None \<Rightarrow> q) (ca_query args0) \<rparr>
                 in case interrupted_query_message L n of
                      Some msg \<Rightarrow> ParseCompletion (parser_usage L msg writes)
                    | None \<Rightarrow> validate_args L args writes))"

subsection \<open>Specification\<close>

text \<open>Python's integer literals: decimal digits with single underscores between them.\<close>

definition int_reference :: "(uchar \<Rightarrow> bool) \<Rightarrow> ustr \<Rightarrow> nat list option" where
  "int_reference D s =
     (if (\<forall>part \<in> set (split_on underscore s). part \<noteq> [] \<and> (\<forall>c \<in> set part. decimal_digit D c \<noteq> None))
         \<and> length (filter (\<lambda>c. c \<noteq> underscore) s) \<le> MAX_INT_DIGITS
      then Some (map (\<lambda>c. the (decimal_digit D c)) (filter (\<lambda>c. c \<noteq> underscore) s)) else None)"

definition count_of :: "bool \<Rightarrow> nat \<Rightarrow> count_argument" where
  "count_of negative n =
     \<lparr> ct_saturated = (if negative then 0 else min n USIZE_MAX),
       ct_canonical = (if negative \<and> 0 < n then [dash] else []) @ decimal n,
       ct_less_than_one = (negative \<or> n = 0) \<rparr>"

definition direct_request_valid :: "direct_request \<Rightarrow> bool" where
  "direct_request_valid r =
     (1 \<le> dr_k r \<and> (\<exists>m. dr_requested_k r = decimal m \<and> dr_k r = min m USIZE_MAX)
      \<and> (case dr_query r of None \<Rightarrow> \<not> is_search (dr_operation r)
           | Some q \<Rightarrow> is_search (dr_operation r) \<and> (\<exists>c \<in> set q. \<not> is_python_string_whitespace c))
      \<and> (\<forall>v. dr_min_score r = Some v \<longrightarrow> is_finite v \<and> - 1 \<le> f64_val v \<and> f64_val v \<le> 1)
      \<and> (\<forall>v. dr_max_gap r = Some v \<longrightarrow> is_finite v \<and> 0 \<le> f64_val v)
      \<and> (\<not> is_search (dr_operation r) \<longrightarrow> dr_k r = 5 \<and> \<not> dr_full r \<and> \<not> dr_no_gate r \<and> \<not> dr_explain r
           \<and> dr_min_score r = None \<and> dr_max_gap r = None)
      \<and> (dr_project r \<noteq> None \<longrightarrow> dr_operation r \<in> {DSearch, DWrite, DIndex, DStats})
      \<and> (dr_explain r \<longrightarrow> dr_operation r \<noteq> DAll) \<and> (dr_json r \<longrightarrow> dr_operation r \<noteq> DWrite)
      \<and> (dr_no_gate r \<and> \<not> dr_explain r \<longrightarrow> dr_min_score r = None \<and> dr_max_gap r = None))"

text \<open>What is relied on of Clap: a count it returns was read by \<open>CountArgument::from_str\<close>.\<close>

definition clap_counts :: "(uchar \<Rightarrow> bool) \<Rightarrow> (os_string list \<Rightarrow> (clap_error, cli_args) result) \<Rightarrow> bool" where
  "clap_counts D clap =
     (\<forall>a args v. clap a = Inr args \<longrightarrow> ca_k args = Some v \<longrightarrow> (\<exists>t. count_from_str D t = Inr v))"

text \<open>Text without C0, DEL or C1 controls except tab and newline.\<close>

definition printable :: "uchar \<Rightarrow> bool" where
  "printable c = (c = tab \<or> c = nl \<or> (32 \<le> c \<and> (c < 127 \<or> 159 < c)))"

text \<open>What is relied on of the JSON printer: control characters below space are escaped; and of the
  package version: it is printable.\<close>

definition cli_lib_ok :: "cli_lib \<Rightarrow> bool" where
  "cli_lib_ok L = ((\<forall>v. \<forall>c \<in> set (cl_json L v). 32 \<le> c) \<and> (\<forall>c \<in> set (cl_version L). printable c))"

definition completion_printable :: "direct_completion \<Rightarrow> bool" where
  "completion_printable c = (\<forall>x \<in> set (dc_stdout c @ dc_stderr c). printable x)"

section \<open>Lemmas\<close>

subsection \<open>Integers\<close>

lemma int_loop_reference:
  "length acc \<le> MAX_INT_DIGITS \<Longrightarrow>
   int_loop D acc prev s =
     (if (\<forall>part \<in> set (tl (split_on underscore s)). part \<noteq> [] \<and> (\<forall>c \<in> set part. decimal_digit D c \<noteq> None))
         \<and> (hd (split_on underscore s) = [] \<longrightarrow> prev) \<and> (\<forall>c \<in> set (hd (split_on underscore s)). decimal_digit D c \<noteq> None)
         \<and> length acc + length (filter (\<lambda>c. c \<noteq> underscore) s) \<le> MAX_INT_DIGITS
      then Some (acc @ map (\<lambda>c. the (decimal_digit D c)) (filter (\<lambda>c. c \<noteq> underscore) s)) else None)"
proof (induction s arbitrary: acc prev)
  case (Cons c cs)
  obtain h t where ht: "split_on underscore cs = h # t" by (cases "split_on underscore cs") auto
  show ?case
  proof (cases "c = underscore")
    case True
    then show ?thesis using Cons ht by auto
  next
    case False
    then show ?thesis using Cons ht by (cases "decimal_digit D c") auto
  qed
qed simp

lemma int_loop_int_reference: "int_loop D [] False s = int_reference D s"
proof -
  obtain h t where "split_on underscore s = h # t" by (cases "split_on underscore s") auto
  then show ?thesis by (auto simp: int_loop_reference [of "[]"] int_reference_def)
qed

lemma decimal_digit_less: "decimal_digit D c = Some d \<Longrightarrow> d < 10"
  by (auto simp: decimal_digit_def split: if_splits)

lemma int_reference_digits: "int_reference D s = Some ds \<Longrightarrow> \<forall>d \<in> set ds. d < 10"
proof
  fix d assume r: "int_reference D s = Some ds" and "d \<in> set ds"
  then obtain c where c: "c \<in> set s" "c \<noteq> underscore" "d = the (decimal_digit D c)"
    by (auto simp: int_reference_def split: if_splits)
  have "\<exists>part \<in> set (split_on underscore s). c \<in> set part"
    using c by (induction s) (auto split: list.splits)
  then have "decimal_digit D c \<noteq> None" using r by (auto simp: int_reference_def split: if_splits)
  then show "d < 10" using c(3) decimal_digit_less by fastforce
qed

lemma int_reference_ne: "int_reference D s = Some ds \<Longrightarrow> s \<noteq> [] \<and> ds \<noteq> []"
proof -
  assume r: "int_reference D s = Some ds"
  show ?thesis
  proof (cases "filter (\<lambda>c. c \<noteq> underscore) s")
    case Nil
    then have "\<exists>part \<in> set (split_on underscore s). part = []" by (induction s) (auto split: if_splits)
    with r show ?thesis by (auto simp: int_reference_def split: if_splits)
  next
    case (Cons c cs)
    with r show ?thesis by (auto simp: int_reference_def split: if_splits)
  qed
qed

lemma saturating_fold: "foldl saturating_step 0 ds = min (digits_value ds) USIZE_MAX"
proof (induction ds rule: rev_induct)
  case (snoc d ds)
  then show ?case by (auto simp: saturating_step_def min_def)
qed simp

lemma parse_python_int_reference:
  "parse_python_int D value =
     (case split_sign (trim_matches is_python_number_whitespace value) of (negative, digits) \<Rightarrow>
        map_option (\<lambda>ds. count_of negative (digits_value ds)) (int_reference D digits))"
proof -
  obtain neg digits where sd: "split_sign (trim_matches is_python_number_whitespace value) = (neg, digits)" by fastforce
  show ?thesis
  proof (cases "int_reference D digits")
    case None
    then show ?thesis by (simp add: parse_python_int_def sd int_loop_int_reference)
  next
    case (Some ds)
    let ?sig = "dropWhile (\<lambda>d. d = 0) ds"
    have dg: "digits \<noteq> []" and small: "\<forall>d \<in> set ?sig. d < 10"
      using int_reference_ne [OF Some] int_reference_digits [OF Some] set_dropWhileD by fast+
    have val: "digits_value ?sig = digits_value ds" by (rule digits_value_dropWhile)
    show ?thesis
    proof (cases "?sig = []")
      case True
      with val have "digits_value ds = 0" by simp
      then show ?thesis
        using True dg Some decimal.simps [of 0]
        by (simp add: parse_python_int_def sd int_loop_int_reference count_of_def lit_def)
    next
      case False
      then have "hd ?sig \<noteq> 0" using hd_dropWhile by force
      then have "0 < digits_value ds" "decimal (digits_value ds) = map (\<lambda>d. 48 + d) ?sig"
        using digits_value_pos decimal_digits_value [OF False _ small] False val by (metis)+
      then show ?thesis
        using False dg Some val
        by (simp add: parse_python_int_def sd int_loop_int_reference count_of_def saturating_fold Let_def
            del: dropWhile_eq_Nil_conv)
    qed
  qed
qed

lemma parse_python_int_count: "parse_python_int D value = Some v \<Longrightarrow> \<exists>negative n. v = count_of negative n"
  by (auto simp: parse_python_int_reference split: prod.splits)

lemma count_of_positive: "\<not> ct_less_than_one (count_of negative n) \<Longrightarrow> \<not> negative \<and> 0 < n"
  by (simp add: count_of_def)

subsection \<open>Normalisation\<close>

lemma fresh_placeholder_fresh:
  "fresh_placeholder reserved d = (p, reserved', d') \<Longrightarrow> Utf8 p \<notin> set reserved \<and> reserved' = Utf8 p # reserved"
proof (induction reserved d rule: fresh_placeholder.induct)
  case (1 reserved d)
  then show ?case using fresh_placeholder.simps [of reserved d] by (auto split: if_splits)
qed

text \<open>The invariant of the normalisation loop: the placeholders handed out so far are distinct, none of
  them is an argument of the user, and each stands for one that is.\<close>

definition norm_inv :: "os_string list \<Rightarrow> norm_state \<Rightarrow> bool" where
  "norm_inv raw st =
     (set raw \<subseteq> set (ns_reserved st) \<and> distinct (map fst (ns_positional st @ ns_unknown st))
      \<and> (\<forall>(p, t) \<in> set (ns_positional st @ ns_unknown st).
           Utf8 p \<in> set (ns_reserved st) \<and> Utf8 p \<notin> set raw \<and> Utf8 t \<in> set raw \<and> Utf8 p \<in> set (ns_arguments st)))"

lemma norm_inv_start: "norm_inv raw (normalize_start raw)"
  by (simp add: norm_inv_def normalize_start_def)

lemma norm_inv_push [simp]: "norm_inv raw st \<Longrightarrow> norm_inv raw (push_arg a st)"
  by (auto simp: norm_inv_def push_arg_def)

lemma norm_inv_fields [simp]:
  "norm_inv raw (st\<lparr> ns_pending := m \<rparr>) = norm_inv raw st"
  "norm_inv raw (st\<lparr> ns_options := b \<rparr>) = norm_inv raw st"
  by (auto simp: norm_inv_def)

lemma norm_inv_replace:
  assumes "norm_inv raw st" "Utf8 t \<in> set raw"
  shows "norm_inv raw (replace_unknown t st)" "norm_inv raw (replace_positional t st)"
proof -
  obtain p reserved d where f: "fresh_placeholder (ns_reserved st) (ns_discriminator st) = (p, reserved, d)"
    by (cases "fresh_placeholder (ns_reserved st) (ns_discriminator st)") auto
  have new: "Utf8 p \<notin> set (ns_reserved st)" "reserved = Utf8 p # ns_reserved st"
    using fresh_placeholder_fresh [OF f] by auto
  then have "p \<notin> fst ` set (ns_positional st @ ns_unknown st)" using assms(1) by (auto simp: norm_inv_def)
  with new f assms show "norm_inv raw (replace_unknown t st)" "norm_inv raw (replace_positional t st)"
    by (auto simp: norm_inv_def replace_unknown_def replace_positional_def push_arg_def)
qed

lemma norm_inv_canonical:
  assumes "norm_inv raw st" "Utf8 t \<in> set raw"
  shows "canonical_of D t st = Replaced st' \<Longrightarrow> norm_inv raw st'" "canonical_of D t st = Stopped st' \<Longrightarrow> norm_inv raw st'"
  using norm_inv_replace [OF assms] assms(1)
  by (auto simp: canonical_of_def long_canonical_def Let_def split: if_splits list.splits prod.splits)

lemma norm_inv_help: "norm_inv raw st \<Longrightarrow> norm_inv raw (help_stop D h rest st)"
  by (auto simp: help_stop_def split: option.splits)

lemma os_to_str_Some [simp]: "os_to_str a = Some t \<longleftrightarrow> a = Utf8 t"
  by (cases a) auto

lemma norm_inv_loop: "norm_inv raw st \<Longrightarrow> set args \<subseteq> set raw \<Longrightarrow> norm_inv raw (normalize_loop D st args)"
proof (induction D st args rule: normalize_loop.induct)
  case (2 D st argument rest)
  show ?case
  proof (cases "\<not> ns_options st \<or> argument = Utf8 (lit ''--'') \<or> os_to_str argument = None")
    case True
    then show ?thesis using "2.IH"(1-3) "2.prems" by (auto split: option.splits)
  next
    case False
    then obtain t where t: "ns_options st" "t \<noteq> lit ''--''" "argument = Utf8 t" by (cases argument) auto
    then have raw: "Utf8 t \<in> set raw" using "2.prems"(2) by simp
    show ?thesis
    proof (cases "t = lit ''-h'' \<or> strip_prefix (lit ''-h'') t \<noteq> None")
      case True
      then show ?thesis using t "2.prems"(1) norm_inv_help by (auto split: option.splits)
    next
      case plain: False
      show ?thesis
      proof (cases "canonical_of D t st")
        case (Canonical c)
        show ?thesis
        proof (cases "c = lit ''--help'' \<or> c = lit ''--version'' \<or> \<not> needs_separated_value c \<or> rest = []")
          case True
          then show ?thesis using t plain Canonical "2.IH"(4) "2.prems" by auto
        next
          case False
          then obtain v rest' where "rest = v # rest'" by (cases rest) auto
          then show ?thesis
            using t plain Canonical False "2.IH"(5-7) "2.prems" by (cases v) auto
        qed
      next
        case (Replaced st')
        then show ?thesis using t plain "2.IH"(8) "2.prems" norm_inv_canonical(1) [OF "2.prems"(1) raw] by auto
      next
        case (Stopped st')
        then show ?thesis using t plain norm_inv_canonical(2) [OF "2.prems"(1) raw] by auto
      qed
    qed
  qed
qed simp

subsection \<open>Validation\<close>

lemma selected_one:
  "\<not> length (selected_operations args) > 1 \<Longrightarrow> ca_all args \<longleftrightarrow> args_operation args = DAll"
  by (auto simp: selected_operations_def args_operation_def split: if_splits)

lemma min_score_ok: "\<not> min_score_bad v \<Longrightarrow> is_finite v \<and> - 1 \<le> f64_val v \<and> f64_val v \<le> 1"
  by (cases v) (auto simp: min_score_bad_def f64_contains_def f64_neg_one_def)

lemma max_gap_ok: "\<not> max_gap_bad v \<Longrightarrow> is_finite v \<and> 0 \<le> f64_val v"
  by (cases v) (auto simp: max_gap_bad_def)

lemma validate_values_request: "validate_values L args writes \<noteq> Some (ParseRequest r)"
  by (auto simp: validate_values_def usage_float_def usage_outcome_def split: option.splits if_splits)

lemma validate_operation_request: "validate_operation L args writes \<noteq> Some (ParseRequest r)"
  by (auto simp: validate_operation_def usage_outcome_def Let_def split: option.splits if_splits)

lemma accepted_k:
  assumes "validate_values L args writes = None" "\<And>v. ca_k args = Some v \<Longrightarrow> \<exists>t. parse_python_int D t = Some v"
  shows "\<exists>m. dr_requested_k (accepted_request args) = decimal m \<and> 0 < m \<and> dr_k (accepted_request args) = min m USIZE_MAX"
proof (cases "ca_k args")
  case None
  have "decimal 5 = lit ''5''" by (simp add: decimal.simps lit_def)
  with None show ?thesis by (intro exI [of _ 5]) (simp add: accepted_request_def USIZE_MAX_def)
next
  case (Some v)
  obtain negative n where v: "v = count_of negative n" using assms(2) [OF Some] parse_python_int_count by blast
  have "\<not> ct_less_than_one v" using assms(1) Some by (auto simp: validate_values_def split: if_splits)
  with v have "\<not> negative \<and> 0 < n" using count_of_positive by blast
  with Some v show ?thesis by (auto simp: accepted_request_def count_of_def)
qed

lemma validate_values_None:
  assumes "validate_values L args writes = None"
  shows "\<And>v. ca_min_score args = Some v \<Longrightarrow> \<not> min_score_bad v" "\<And>v. ca_max_gap args = Some v \<Longrightarrow> \<not> max_gap_bad v"
    and "ca_no_gate args \<Longrightarrow> \<not> ca_explain args \<Longrightarrow> ca_min_score args = None \<and> ca_max_gap args = None"
    and "\<not> (ca_explain args \<and> ca_all args)" "\<not> length (selected_operations args) > 1"
  using assms by (auto simp: validate_values_def simp del: One_nat_def split: if_splits)

lemma validate_operation_None:
  assumes "validate_operation L args writes = None"
  shows "ca_project args \<noteq> None \<Longrightarrow> args_operation args \<notin> {DAll, DProjects, DGc}"
    and "ca_json args \<Longrightarrow> args_operation args \<noteq> DWrite"
    and "\<not> is_search (args_operation args) \<Longrightarrow> ca_k args = None \<and> \<not> ca_full args \<and> \<not> ca_no_gate args
           \<and> \<not> ca_explain args \<and> ca_min_score args = None \<and> ca_max_gap args = None \<and> ca_query args = []"
    and "is_search (args_operation args) \<Longrightarrow> \<not> blank_query (join [sp] (ca_query args))"
  using assms by (auto simp: validate_operation_def is_search_def Let_def split: if_splits option.splits)

lemma accepted_request_valid:
  assumes v: "validate_values L args writes = None" and o: "validate_operation L args writes = None"
    and k: "\<And>v. ca_k args = Some v \<Longrightarrow> \<exists>t. parse_python_int D t = Some v"
  shows "direct_request_valid (accepted_request args)"
proof -
  obtain m where m: "dr_requested_k (accepted_request args) = decimal m" "0 < m" "dr_k (accepted_request args) = min m USIZE_MAX"
    using accepted_k [OF v k] by blast
  have one: "1 \<le> dr_k (accepted_request args)" using m by (simp add: USIZE_MAX_def)
  have query: "is_search (args_operation args) \<Longrightarrow> \<exists>c \<in> set (join [sp] (ca_query args)). \<not> is_python_string_whitespace c"
    using validate_operation_None(4) [OF o] by (auto simp: blank_query_def trim_matches_eq_Nil_iff)
  note vs = validate_values_None [OF v] and os = validate_operation_None [OF o]
  have floats: "\<forall>v. ca_min_score args = Some v \<longrightarrow> is_finite v \<and> - 1 \<le> f64_val v \<and> f64_val v \<le> 1"
      "\<forall>v. ca_max_gap args = Some v \<longrightarrow> is_finite v \<and> 0 \<le> f64_val v"
    using vs(1,2) min_score_ok max_gap_ok by blast+
  have shape: "ca_project args \<noteq> None \<Longrightarrow> args_operation args \<in> {DSearch, DWrite, DIndex, DStats}"
      "ca_explain args \<Longrightarrow> args_operation args \<noteq> DAll"
    using os(1) vs(4) selected_one [OF vs(5)] by (cases "args_operation args"; auto)+
  show ?thesis
    unfolding direct_request_valid_def
  proof (intro conjI)
    show "\<exists>m. dr_requested_k (accepted_request args) = decimal m \<and> dr_k (accepted_request args) = min m USIZE_MAX"
      using m by blast
  qed (use one query floats shape os(2,3) vs(3) in \<open>auto simp: accepted_request_def split: if_splits\<close>)
qed

lemma parse_direct_request_valid:
  assumes "clap_counts (cl_decimal L) clap" "parse_direct_request L clap raw = ParseRequest r"
  shows "direct_request_valid r"
proof -
  obtain args0 where c: "clap (ns_arguments (normalize_arguments (cl_decimal L) raw)) = Inr args0"
    using assms(2) by (cases "clap (ns_arguments (normalize_arguments (cl_decimal L) raw))")
      (auto simp: parse_direct_request_def Let_def split: if_splits)
  then obtain q where va: "validate_args L (args0\<lparr> ca_query := q \<rparr>) (selects_write raw) = ParseRequest r"
    using assms(2) by (auto simp: parse_direct_request_def Let_def split: option.splits)
  then have r: "r = accepted_request (args0\<lparr> ca_query := q \<rparr>)"
      "validate_values L (args0\<lparr> ca_query := q \<rparr>) (selects_write raw) = None"
      "validate_operation L (args0\<lparr> ca_query := q \<rparr>) (selects_write raw) = None"
    using validate_values_request validate_operation_request by (auto simp: validate_args_def split: option.splits)
  have "\<And>v. ca_k (args0\<lparr> ca_query := q \<rparr>) = Some v \<Longrightarrow> \<exists>t. parse_python_int (cl_decimal L) t = Some v"
    using assms(1) c by (fastforce simp: clap_counts_def count_from_str_def split: option.splits)
  with r show ?thesis using accepted_request_valid by blast
qed

subsection \<open>Output\<close>

lemma nl_printable [simp]: "printable nl"
  by (simp add: printable_def)

lemma inline_text_printable: "c \<in> set (inline_text L s) \<Longrightarrow> printable c"
  by (auto simp: inline_text_def cow_str_sanitize sanitize_loop_plain passes_def printable_def)

lemma multiline_text_printable: "c \<in> set (multiline_text L s) \<Longrightarrow> printable c"
  by (auto simp: multiline_text_def cow_str_sanitize sanitize_loop_plain passes_def printable_def)

lemma hex_digit_printable: "n < 16 \<Longrightarrow> printable (hex_digit n)"
  by (auto simp: hex_digit_def printable_def)

lemma escape_c1_printable:
  assumes "32 \<le> c" "x \<in> set (escape_c1 c)"
  shows "printable x"
proof (cases "0x7F \<le> c \<and> c \<le> 0x9F")
  case True
  then have "x \<in> set (lit [CHR 0x5C, CHR ''u'']) \<or> (\<exists>n. n < 16 \<and> x = hex_digit n)"
    using assms(2) by (force simp: escape_c1_def hex04_def)
  then show ?thesis using hex_digit_printable by (auto simp: printable_def lit_def)
qed (use assms in \<open>auto simp: escape_c1_def printable_def\<close>)

lemma compact_json_line_printable:
  "cli_lib_ok L \<Longrightarrow> c \<in> set (compact_json_line L v) \<Longrightarrow> printable c"
  unfolding compact_json_line_def cli_lib_ok_def by (auto intro: escape_c1_printable)

lemma lit_printable: "list_all (\<lambda>c. 32 \<le> (of_char c :: nat) \<and> (of_char c :: nat) < 127) s \<Longrightarrow> x \<in> set (lit s) \<Longrightarrow> printable x"
  by (auto simp: lit_def printable_def list_all_iff)

text \<open>Every completion the parser builds.\<close>

definition parser_completion :: "direct_completion \<Rightarrow> bool" where
  "parser_completion c = (completion_printable c \<and> dc_exit_code c \<in> {ExitOk, ExitUsage})"

lemma completion_usage_ok: "cli_lib_ok L \<Longrightarrow> parser_completion (completion_usage L msg writes hint)"
  using compact_json_line_printable inline_text_printable
  by (auto simp: parser_completion_def completion_usage_def completion_printable_def)

lemma parser_usage_ok: "cli_lib_ok L \<Longrightarrow> parser_completion (parser_usage L msg writes)"
  using completion_usage_ok inline_text_printable
  by (auto simp: parser_usage_def parser_completion_def completion_printable_def intro: lit_printable [rotated])

lemma completion_help_ok: "code \<in> {ExitOk, ExitUsage} \<Longrightarrow> parser_completion (completion_help L code)"
  using multiline_text_printable by (auto simp: parser_completion_def completion_help_def completion_printable_def)

lemma completion_version_ok: "cli_lib_ok L \<Longrightarrow> parser_completion (completion_version L)"
  by (auto simp: parser_completion_def completion_version_def completion_printable_def cli_lib_ok_def
      intro: lit_printable [rotated])

lemma usage_outcome_ok: "cli_lib_ok L \<Longrightarrow> usage_outcome L msg writes = ParseCompletion c \<Longrightarrow> parser_completion c"
  using completion_usage_ok by (auto simp: usage_outcome_def)

lemma usage_float_ok: "cli_lib_ok L \<Longrightarrow> usage_float L msg v writes = ParseCompletion c \<Longrightarrow> parser_completion c"
  using usage_outcome_ok by (auto simp: usage_float_def split: option.splits)

lemmas completion_ok = completion_usage_ok parser_usage_ok completion_help_ok completion_version_ok
  usage_outcome_ok usage_float_ok

lemma validate_values_completion:
  "cli_lib_ok L \<Longrightarrow> validate_values L args writes = Some (ParseCompletion c) \<Longrightarrow> parser_completion c"
  unfolding validate_values_def by (auto intro: completion_ok split: if_splits)

lemma validate_operation_completion:
  "cli_lib_ok L \<Longrightarrow> validate_operation L args writes = Some (ParseCompletion c) \<Longrightarrow> parser_completion c"
  unfolding validate_operation_def Let_def by (auto intro: completion_ok split: if_splits option.splits)

lemma parse_completion_ok:
  assumes "cli_lib_ok L" "parse_direct_request L clap raw = ParseCompletion c"
  shows "parser_completion c"
proof (cases "clap (ns_arguments (normalize_arguments (cl_decimal L) raw))")
  case (Inl e)
  have "parser_completion \<lparr> dc_exit_code = ExitOk, dc_stdout = multiline_text L (cx_rendered e), dc_stderr = [] \<rparr>"
    using multiline_text_printable by (auto simp: parser_completion_def completion_printable_def)
  with Inl assms parser_usage_ok show ?thesis by (auto simp: parse_direct_request_def Let_def split: if_splits)
next
  case (Inr args0)
  then show ?thesis
    using assms validate_values_completion validate_operation_completion parser_usage_ok
    by (fastforce simp: parse_direct_request_def Let_def validate_args_def split: option.splits)
qed

section \<open>Properties\<close>

text \<open>\<open>-k\<close> reads an integer as Python does. After trimming and one optional sign, the text is accepted
  exactly when its underscore-separated parts are non-empty runs of decimal digits of any script, at
  most 4300 digits in all; the canonical text is the decimal text of the value, and the count is the
  value saturated at \<open>usize::MAX\<close>, never wrapped.\<close>

lemma parse_python_int_is_python:
  "parse_python_int D value =
     (case split_sign (trim_matches is_python_number_whitespace value) of (negative, digits) \<Rightarrow>
        map_option (\<lambda>ds. count_of negative (digits_value ds)) (int_reference D digits))"
  by (rule parse_python_int_reference)

text \<open>Normalisation hides an argument from Clap only behind a fresh placeholder: the placeholders are
  distinct, none equals an argument the user gave, each stands for one the user did give, and each is
  among the arguments Clap sees, so restoring them cannot touch the user's own text.\<close>

lemma normalize_arguments_placeholders:
  assumes "n = normalize_arguments D raw"
  shows "distinct (map fst (ns_positional n @ ns_unknown n))
    \<and> (\<forall>(p, t) \<in> set (ns_positional n @ ns_unknown n).
         Utf8 p \<notin> set raw \<and> Utf8 t \<in> set raw \<and> Utf8 p \<in> set (ns_arguments n))"
proof -
  have "norm_inv raw n"
    unfolding assms normalize_arguments_def
    by (rule norm_inv_loop [OF norm_inv_start set_drop_subset])
  then show ?thesis by (auto simp: norm_inv_def)
qed

definition ascii_decimal :: "uchar \<Rightarrow> bool" where
  "ascii_decimal c = (48 \<le> c \<and> c \<le> 57)"

lemma normalize_arguments_placeholders_example:
  "ns_positional (normalize_arguments ascii_decimal [Utf8 (lit ''yams''), Utf8 (lit ''-3''), Utf8 (placeholder 0)])
     = [(placeholder 1, lit ''-3'')]
   \<and> Utf8 (placeholder 1) \<notin> set [Utf8 (lit ''yams''), Utf8 (lit ''-3''), Utf8 (placeholder 0)]"
proof -
  let ?raw = "[Utf8 (lit ''yams''), Utf8 (lit ''-3''), Utf8 (placeholder 0)]"
  have p: "ns_positional (normalize_arguments ascii_decimal ?raw) = [(placeholder 1, lit ''-3'')]" by code_simp
  then show ?thesis using normalize_arguments_placeholders [OF refl, of ascii_decimal ?raw] by auto
qed

text \<open>C17: every request that parsing accepts is valid: a count of at least one that is the requested
  count saturated, a query with visible text exactly for the two search operations, thresholds that are
  finite and in range, search options and projects only on operations that take them, no explanation
  over all projects, no JSON on a write, and no thresholds that nothing would read.\<close>

theorem parse_direct_request_accepts_valid:
  assumes "clap_counts (cl_decimal L) clap" and "parse_direct_request L clap raw = ParseRequest r"
  shows "direct_request_valid r"
  by (rule parse_direct_request_valid [OF assms])

definition demo_lib :: cli_lib where
  "demo_lib = \<lparr> cl_format = (\<lambda>c. c = 0xAD), cl_decimal = ascii_decimal, cl_json = (\<lambda>_. lit ''{}''),
     cl_ryu = (\<lambda>_. lit ''1.5''), cl_help = lit ''help'', cl_version = lit ''0.1'', cl_lossy = (\<lambda>_. [0xFFFD]) \<rparr>"

definition demo_clap :: "os_string list \<Rightarrow> (clap_error, cli_args) result" where
  "demo_clap arguments = Inr \<lparr> ca_query = List.map_filter os_to_str (drop 1 arguments),
     ca_k = parse_python_int ascii_decimal (lit '' 0_7 ''), ca_version = False, ca_json = True, ca_full = False, ca_index = False,
     ca_write = False, ca_stats = False, ca_project = None, ca_all = False, ca_projects = False, ca_no_gate = False,
     ca_explain = False, ca_min_score = None, ca_max_gap = None, ca_gc = False \<rparr>"

theorem parse_direct_request_accepts_valid_witness:
  "\<exists>r. parse_direct_request demo_lib demo_clap [Utf8 (lit ''yams''), Utf8 (lit ''-3''), Utf8 (lit ''degrees'')] = ParseRequest r
     \<and> dr_query r = Some (lit ''-3 degrees'') \<and> dr_k r = 7 \<and> direct_request_valid r"
proof -
  let ?r = "\<lparr> dr_operation = DSearch, dr_project = None, dr_query = Some (lit ''-3 degrees''), dr_k = 7,
     dr_requested_k = lit ''7'', dr_json = True, dr_full = False, dr_no_gate = False, dr_explain = False,
     dr_min_score = None, dr_max_gap = None \<rparr>"
  have p: "parse_direct_request demo_lib demo_clap [Utf8 (lit ''yams''), Utf8 (lit ''-3''), Utf8 (lit ''degrees'')]
      = ParseRequest ?r" by code_simp
  have "clap_counts (cl_decimal demo_lib) demo_clap"
    by (auto simp: clap_counts_def demo_clap_def demo_lib_def count_from_str_def
        intro!: exI [of _ "lit '' 0_7 ''"])
  then have "direct_request_valid ?r" using p by (rule parse_direct_request_accepts_valid)
  with p show ?thesis by auto
qed

text \<open>C18: whatever the arguments are, a completion of the parser exits with success or usage and prints
  no control character but tab and newline, on either stream, in the machine mode of \<open>--write\<close> too.\<close>

theorem parse_direct_request_prints_safely:
  assumes "cli_lib_ok L" and "parse_direct_request L clap raw = ParseCompletion c"
  shows "(\<forall>x \<in> set (dc_stdout c @ dc_stderr c). x = tab \<or> x = nl \<or> (32 \<le> x \<and> (x < 127 \<or> 159 < x)))
    \<and> dc_exit_code c \<in> {ExitOk, ExitUsage}"
  using parse_completion_ok [OF assms] by (simp add: parser_completion_def completion_printable_def printable_def)

theorem parse_direct_request_prints_safely_witness:
  "\<exists>c. parse_direct_request demo_lib demo_clap [Utf8 (lit ''yams''), Utf8 (lit ''--wat'' @ [27, 0x9B, 0xAD])] = ParseCompletion c
     \<and> dc_exit_code c = ExitUsage \<and> dc_stderr c \<noteq> []
     \<and> (\<forall>x \<in> set (dc_stdout c @ dc_stderr c). x = tab \<or> x = nl \<or> (32 \<le> x \<and> (x < 127 \<or> 159 < x)))"
proof -
  let ?c = "\<lparr> dc_exit_code = ExitUsage, dc_stdout = [],
     dc_stderr = lit ''error: unrecognized arguments: --wat'' @ [nl, nl] @ lit ''Usage: yams [OPTIONS] [QUERY]...'' @ [nl] \<rparr>"
  have p: "parse_direct_request demo_lib demo_clap [Utf8 (lit ''yams''), Utf8 (lit ''--wat'' @ [27, 0x9B, 0xAD])]
      = ParseCompletion ?c" by code_simp
  have "cli_lib_ok demo_lib" by (auto simp: cli_lib_ok_def demo_lib_def lit_def printable_def)
  from parse_direct_request_prints_safely [OF this p] p show ?thesis by auto
qed

end
