(* ===== verification/Client.thy ===== *)
theory Client
  imports Frame Cli_Args
begin

text \<open>
  The service client: peer validation (\<open>yams-protocol/src/peer.rs\<close>), the staged client of the command
  line (\<open>yams-cli/src/client.rs\<close>), the blocking client of \<open>yams-runtime/src/lib.rs\<close>, and the service's
  way back from a typed operation to a request (\<open>direct_request_from_operation\<close> of
  \<open>yams-cli/src/lib.rs\<close>). The clock, the socket and every answer of the system come from the scripts of
  \<open>Transport\<close>; what the operating system answers to \<open>socket\<close> and \<open>connect\<close> is a \<open>connect_script\<close>. Texts
  that the standard library prints (I/O errors, floats) are parameters (\<open>client_lib\<close>).
\<close>

section \<open>Definitions\<close>

record client_lib =
  cb_cli :: cli_lib
  cb_json :: json_lib
  cb_io_text :: "io_kind \<Rightarrow> ustr"
  cb_kind_debug :: "io_kind \<Rightarrow> ustr"
  cb_show_f64 :: "f64 \<Rightarrow> ustr"

subsection \<open>Error texts\<close>

fun protocol_error_text :: "client_lib \<Rightarrow> protocol_error \<Rightarrow> ustr" where
  "protocol_error_text L InvalidUtf8 = lit ''invalid UTF-8''"
| "protocol_error_text L InvalidJson = lit ''invalid JSON''"
| "protocol_error_text L MessageMustBeObject = lit ''message must be a JSON object''"
| "protocol_error_text L DuplicateField = lit ''duplicate JSON field''"
| "protocol_error_text L UnknownField = lit ''unknown JSON field''"
| "protocol_error_text L FieldsDoNotMatch = lit ''message fields do not match its type''"
| "protocol_error_text L UnsupportedVersion = lit ''unsupported protocol version''"
| "protocol_error_text L InvalidRequestType = lit ''invalid request type''"
| "protocol_error_text L UnknownResponseType = lit ''unknown response type''"
| "protocol_error_text L CwdNotAbsolute = lit ''cwd must be an absolute path''"
| "protocol_error_text L EmptyRequestId = lit ''request_id must be a nonempty string''"
| "protocol_error_text L EmptyRejectionCode = lit ''rejection code must be a nonempty string''"
| "protocol_error_text L TooManyArguments = lit ''too many arguments''"
| "protocol_error_text L ArgumentTooLarge = lit ''argument too large''"
| "protocol_error_text L (FrameTooLarge declared limit) =
     lit ''frame too large: '' @ decimal declared @ lit '' > '' @ decimal limit"
| "protocol_error_text L TruncatedFrame = lit ''truncated frame''"
| "protocol_error_text L FrameDeadlineExceeded = lit ''frame deadline exceeded''"
| "protocol_error_text L ResponseDeadlineAfterRequestDelivery = lit ''response deadline exceeded after request delivery''"
| "protocol_error_text L FrameAlreadyComplete = lit ''frame is already complete''"
| "protocol_error_text L FrameInputTooLong = lit ''frame input exceeds declared length''"
| "protocol_error_text L (Io kind) = lit ''protocol I/O failed ('' @ cb_kind_debug L kind @ lit '')''"

subsection \<open>Peer credentials\<close>

datatype peer_error = PeerUnavailable io_kind | PeerMismatch nat nat | PeerIo io_kind

fun peer_error_text :: "client_lib \<Rightarrow> peer_error \<Rightarrow> ustr" where
  "peer_error_text L (PeerUnavailable k) = lit ''peer credentials are unavailable: '' @ cb_io_text L k"
| "peer_error_text L (PeerMismatch expected actual) =
     lit ''peer uid '' @ decimal actual @ lit '' does not match expected uid '' @ decimal expected"
| "peer_error_text L (PeerIo k) = lit ''peer credential lookup failed: '' @ cb_io_text L k"

text \<open>\<open>euid\<close> is the effective user of the process, \<open>peer_uid\<close> what the credential provider answers.\<close>

definition validate_peer_with :: "nat \<Rightarrow> (peer_error, nat) result \<Rightarrow> (peer_error, unit) result" where
  "validate_peer_with euid peer_uid =
     res_bind peer_uid (\<lambda>actual. if actual = euid then Inr () else Inl (PeerMismatch euid actual))"

subsection \<open>Connecting\<close>

datatype errno = NOENT | CONNREFUSED | TIMEDOUT | INPROGRESS | AGAIN | ErrnoOther nat

datatype connect_outcome = Connected | Absent | ConnectFailed io_kind

record connect_script =
  cs_address :: "errno option"
  cs_socket :: "errno option"
  cs_connect :: "errno option"
  cs_socket_error :: "(errno, errno option) result"
  cs_kind :: "errno \<Rightarrow> io_kind"

definition is_absent_errno :: "errno \<Rightarrow> bool" where
  "is_absent_errno e = (e = NOENT \<or> e = CONNREFUSED \<or> e = TIMEDOUT)"

datatype socket_error_status = SocketReady | SocketAbsent | SocketFailed errno

definition classify_socket_error :: "(errno, errno option) result \<Rightarrow> socket_error_status" where
  "classify_socket_error r =
     (case r of
        Inr None \<Rightarrow> SocketReady
      | Inr (Some e) \<Rightarrow> if is_absent_errno e then SocketAbsent else SocketFailed e
      | Inl e \<Rightarrow> SocketFailed e)"

definition finish_connected :: "nat \<Rightarrow> stream \<Rightarrow> connect_outcome \<times> stream" where
  "finish_connected deadline s =
     (case sys_now s of (now, s) \<Rightarrow>
      if deadline \<le> now then (Absent, s)
      else (case set_nonblocking False s of
              (Inl k, s) \<Rightarrow> (ConnectFailed k, s)
            | (Inr _, s) \<Rightarrow>
                (case sys_now s of (now, s) \<Rightarrow> if deadline \<le> now then (Absent, s) else (Connected, s))))"

lemma sys_poll_shrinks: "sys_poll s = (p, s') \<Longrightarrow> p \<noteq> PExpired \<Longrightarrow> length (st_polls s') < length (st_polls s)"
  by (auto simp: sys_poll_def split: list.splits)

lemma sys_read_polls: "sys_read n s = (v, s') \<Longrightarrow> st_polls s' = st_polls s"
  by (auto simp: sys_read_def split: prod.splits)

lemma now_poll_load:
  assumes "(now, s1) = sys_now s" "(p, s2) = sys_poll s1" "p \<noteq> PExpired"
  shows "length (st_polls s2) < length (st_polls s)"
  using sys_poll_shrinks [OF assms(2) [symmetric] assms(3)] sys_now_fields(5) [OF assms(1) [symmetric]] by argo

lemma now_poll_read_load:
  assumes "(now, s1) = sys_now s" "(p, s2) = sys_poll s1" "p \<noteq> PExpired" "(v, s3) = sys_read n s2"
  shows "length (st_polls s3) < length (st_polls s)"
  using now_poll_load [OF assms(1-3)] sys_read_polls [OF assms(4) [symmetric]] by argo

function poll_connected :: "connect_script \<Rightarrow> nat \<Rightarrow> stream \<Rightarrow> connect_outcome \<times> stream" where
  "poll_connected c deadline s =
     (case sys_now s of (now, s) \<Rightarrow>
      if deadline \<le> now then (Absent, s)
      else (case sys_poll s of
              (PExpired, s) \<Rightarrow> (Absent, s)
            | (PReady, s) \<Rightarrow>
                (case classify_socket_error (cs_socket_error c) of
                   SocketReady \<Rightarrow> finish_connected deadline s
                 | SocketAbsent \<Rightarrow> (Absent, s)
                 | SocketFailed e \<Rightarrow> (ConnectFailed (cs_kind c e), s))
            | (PIntr, s) \<Rightarrow> poll_connected c deadline s
            | (PErr k, s) \<Rightarrow> (ConnectFailed k, s)))"
  by pat_completeness auto
termination
  by (relation "measure (\<lambda>(_, _, s). length (st_polls s))") (auto intro: now_poll_load)

declare poll_connected.simps [simp del]

definition connect_system :: "connect_script \<Rightarrow> nat \<Rightarrow> stream \<Rightarrow> connect_outcome \<times> stream" where
  "connect_system c deadline s =
     (case sys_now s of (now, s) \<Rightarrow>
      if deadline \<le> now then (Absent, s)
      else case cs_address c of
        Some e \<Rightarrow> (ConnectFailed (cs_kind c e), s)
      | None \<Rightarrow>
         (case cs_socket c of
            Some e \<Rightarrow> (ConnectFailed (cs_kind c e), s)
          | None \<Rightarrow>
             (case set_nonblocking True s of
                (Inl k, s) \<Rightarrow> (ConnectFailed k, s)
              | (Inr _, s) \<Rightarrow>
                 (case cs_connect c of
                    None \<Rightarrow> finish_connected deadline s
                  | Some e \<Rightarrow>
                      if is_absent_errno e then (Absent, s)
                      else if e = INPROGRESS \<or> e = AGAIN then poll_connected c deadline s
                      else (ConnectFailed (cs_kind c e), s)))))"

subsection \<open>Requests\<close>

fun service_kind :: "direct_operation \<Rightarrow> operation_kind option" where
  "service_kind DSearch = Some OpSearch"
| "service_kind DAll = Some OpAll"
| "service_kind DIndex = Some OpIndex"
| "service_kind DStats = Some OpStats"
| "service_kind DProjects = Some OpProjects"
| "service_kind DGc = Some OpGc"
| "service_kind DWrite = None"

text \<open>\<open>path.to_str()?\<close> inside an optional path\<close>

definition project_text :: "os_string option \<Rightarrow> ustr option option" where
  "project_text p = (case p of None \<Rightarrow> Some None | Some path \<Rightarrow> map_option Some (os_to_str path))"

definition service_operation_of :: "client_lib \<Rightarrow> direct_request \<Rightarrow> service_operation option" where
  "service_operation_of L r =
     (case service_kind (dr_operation r) of
        None \<Rightarrow> None
      | Some kind \<Rightarrow>
         (case project_text (dr_project r) of
            None \<Rightarrow> None
          | Some project \<Rightarrow>
              Some \<lparr> op_kind = kind, op_query = (case dr_query r of None \<Rightarrow> [] | Some q \<Rightarrow> q),
                     op_k = decimal (dr_k r), op_json = dr_json r, op_full = dr_full r, op_no_gate = dr_no_gate r,
                     op_explain = dr_explain r, op_min_score = map_option (cb_show_f64 L) (dr_min_score r),
                     op_max_gap = map_option (cb_show_f64 L) (dr_max_gap r), op_project = project \<rparr>))"

fun operation_argv :: "direct_operation \<Rightarrow> ustr list option" where
  "operation_argv DSearch = Some []"
| "operation_argv DAll = Some [lit ''--all'']"
| "operation_argv DWrite = None"
| "operation_argv DIndex = Some [lit ''--index'']"
| "operation_argv DStats = Some [lit ''--stats'']"
| "operation_argv DProjects = Some [lit ''--projects'']"
| "operation_argv DGc = Some [lit ''--gc'']"

definition flag_argv :: "bool \<Rightarrow> char list \<Rightarrow> ustr list" where
  "flag_argv b name = (if b then [lit name] else [])"

definition option_argv :: "char list \<Rightarrow> ustr option \<Rightarrow> ustr list" where
  "option_argv name v = (case v of None \<Rightarrow> [] | Some t \<Rightarrow> [lit name, t])"

definition request_argv :: "client_lib \<Rightarrow> direct_request \<Rightarrow> ustr list option" where
  "request_argv L r =
     (case operation_argv (dr_operation r) of
        None \<Rightarrow> None
      | Some argv \<Rightarrow>
         (case project_text (dr_project r) of
            None \<Rightarrow> None
          | Some project \<Rightarrow>
              Some (argv @ flag_argv (dr_json r) ''--json'' @ flag_argv (dr_full r) ''--full''
                @ flag_argv (dr_no_gate r) ''--no-gate'' @ flag_argv (dr_explain r) ''--explain''
                @ (if dr_k r \<noteq> 5 then [lit ''-k'', dr_requested_k r] else [])
                @ option_argv ''--min-score'' (map_option (cb_show_f64 L) (dr_min_score r))
                @ option_argv ''--max-gap'' (map_option (cb_show_f64 L) (dr_max_gap r))
                @ option_argv ''--project'' project @ option_argv ''--'' (dr_query r))))"

subsection \<open>Completion\<close>

definition stop_nonblocking :: "stream \<Rightarrow> stream" where
  "stop_nonblocking s = snd (set_nonblocking False s)"

function completion_loop :: "json_lib \<Rightarrow> frame_reader \<Rightarrow> nat \<Rightarrow> stream \<Rightarrow> (protocol_error, message) result \<times> stream" where
  "completion_loop lib r deadline s =
     (case reader_frame r of
        Some body \<Rightarrow> (decode_response lib body, stop_nonblocking s)
      | None \<Rightarrow>
         (case sys_now s of (now, s) \<Rightarrow>
          if deadline \<le> now then (Inl FrameDeadlineExceeded, stop_nonblocking s)
          else (case sys_poll s of
                  (PExpired, s) \<Rightarrow> (Inl FrameDeadlineExceeded, stop_nonblocking s)
                | (PReady, s) \<Rightarrow>
                    (case sys_read 8192 s of
                       (Inr [], s) \<Rightarrow> (Inl TruncatedFrame, stop_nonblocking s)
                     | (Inr (x # xs), s) \<Rightarrow>
                         (case feed r (x # xs) of
                            (Inl e, r) \<Rightarrow> (Inl e, stop_nonblocking s)
                          | (Inr finished, r) \<Rightarrow> completion_loop lib r deadline s)
                     | (Inl k, s) \<Rightarrow>
                         if k = Interrupted then completion_loop lib r deadline s
                         else if k = WouldBlock then completion_loop lib r deadline s
                         else (Inl (Io k), stop_nonblocking s))
                | (PIntr, s) \<Rightarrow> completion_loop lib r deadline s
                | (PErr k, s) \<Rightarrow> (Inl (Io k), stop_nonblocking s))))"
  by pat_completeness auto
termination
  by (relation "measure (\<lambda>(_, _, _, s). length (st_polls s))") (auto intro: now_poll_load now_poll_read_load)

declare completion_loop.simps [simp del]

definition receive_completion :: "json_lib \<Rightarrow> stream \<Rightarrow> nat \<Rightarrow> (protocol_error, message) result \<times> stream" where
  "receive_completion lib s deadline =
     io_bind (io_err (set_nonblocking True s)) (\<lambda>_ s. completion_loop lib (frame_reader_new MAX_RESPONSE_BYTES) deadline s)"

definition exit_code_from_service :: "nat \<Rightarrow> exit_code" where
  "exit_code_from_service code =
     (if code = 0 then ExitOk else if code = 1 then ExitEmpty else if code = 2 then ExitUsage
      else if code = 3 then ExitUnsure else ExitOperational)"

subsection \<open>The command-line client\<close>

definition HANDSHAKE_TIMEOUT :: nat where "HANDSHAKE_TIMEOUT = ADMISSION_TIMEOUT"

type_synonym service_result = "(direct_completion, direct_completion) result option"

definition client_operational :: "client_lib \<Rightarrow> ustr \<Rightarrow> service_result" where
  "client_operational L msg = Some (Inl (completion_operational (cb_cli L) msg))"

definition await_completion :: "client_lib \<Rightarrow> ustr \<Rightarrow> stream \<Rightarrow> service_result \<times> stream" where
  "await_completion L accepted_id s =
     (case sys_now s of (now, s) \<Rightarrow>
      case receive_completion (cb_json L) s (now + COMPLETION_TIMEOUT) of
        (Inr (MCompleted c), s) \<Rightarrow>
          if co_request_id c = accepted_id
          then (Some (Inr \<lparr> dc_exit_code = exit_code_from_service (co_exit_code c), dc_stdout = co_stdout c,
                            dc_stderr = co_stderr c \<rparr>), s)
          else (client_operational L (lit ''service completion request ID did not match''), s)
      | (Inr _, s) \<Rightarrow> (client_operational L (lit ''service sent an invalid completion''), s)
      | (Inl e, s) \<Rightarrow> (client_operational L (lit ''service completion failed: '' @ protocol_error_text L e), s))"

definition try_service_with ::
  "client_lib \<Rightarrow> nat \<Rightarrow> (stream \<Rightarrow> (peer_error, nat) result) \<Rightarrow> (nat \<Rightarrow> stream \<Rightarrow> connect_outcome \<times> stream)
   \<Rightarrow> direct_request \<Rightarrow> os_string \<Rightarrow> stream \<Rightarrow> service_result \<times> stream" where
  "try_service_with L euid peer connector r cwd s =
     (if (case dr_query r of None \<Rightarrow> False | Some q \<Rightarrow> utf8_len q > MAX_ARGUMENT_BYTES) then (None, s)
      else case sys_now s of (now, s) \<Rightarrow>
        let deadline = now + HANDSHAKE_TIMEOUT in
        case connector deadline s of
          (Absent, s) \<Rightarrow> (None, s)
        | (ConnectFailed k, s) \<Rightarrow> (client_operational L (lit ''service connection failed: '' @ cb_io_text L k), s)
        | (Connected, s) \<Rightarrow>
           (case validate_peer_with euid (peer s) of
              Inl e \<Rightarrow> (client_operational L (lit ''service peer rejected: '' @ peer_error_text L e), s)
            | Inr _ \<Rightarrow>
               (case service_operation_of L r of
                  None \<Rightarrow> (client_operational L (lit ''service request could not be encoded''), s)
                | Some op \<Rightarrow>
                   (case request_argv L r of
                      None \<Rightarrow> (client_operational L (lit ''service request could not be encoded''), s)
                    | Some argv \<Rightarrow>
                       (case os_to_str cwd of
                          None \<Rightarrow> (client_operational L (lit ''working directory is not valid UTF-8''), s)
                        | Some cwd_text \<Rightarrow>
                           (case exchange_request_with_deadline (cb_json L) s
                                   \<lparr> rq_operation = op, rq_argv = argv, rq_cwd = cwd_text \<rparr> deadline of
                              (Inr (MAccepted a), s) \<Rightarrow> await_completion L (ac_request_id a) s
                            | (Inr (MRejected j), s) \<Rightarrow>
                                (client_operational L (lit ''service rejected request ('' @ rj_code j @ lit ''): '' @ rj_message j), s)
                            | (Inr _, s) \<Rightarrow> (client_operational L (lit ''service did not accept request''), s)
                            | (Inl e, s) \<Rightarrow>
                                if e = FrameDeadlineExceeded then (None, s)
                                else (client_operational L (lit ''service acceptance failed: '' @ protocol_error_text L e), s)))))))"

subsection \<open>The runtime client\<close>

datatype ipc_error =
    IpcIo io_kind | IpcProtocol protocol_error | IpcPeer peer_error | IpcRejected ustr ustr | NotAccepted | RequestIdMismatch

text \<open>\<open>runtime_connect\<close>: \<open>opened\<close> is what \<open>UnixStream::connect\<close> answers.\<close>

definition runtime_connect ::
  "client_lib \<Rightarrow> nat \<Rightarrow> (stream \<Rightarrow> (peer_error, nat) result) \<Rightarrow> (io_kind, unit) result \<Rightarrow> request \<Rightarrow> nat \<Rightarrow> stream
   \<Rightarrow> (ipc_error, completed) result \<times> stream" where
  "runtime_connect L euid peer opened req timeout s =
     (case opened of
        Inl k \<Rightarrow> (Inl (IpcIo k), s)
      | Inr _ \<Rightarrow>
         (case validate_peer_with euid (peer s) of
            Inl e \<Rightarrow> (Inl (IpcPeer e), s)
          | Inr _ \<Rightarrow>
             (case sys_now s of (now, s) \<Rightarrow>
              case exchange_request_with_deadline (cb_json L) s req (now + timeout) of
                (Inl e, s) \<Rightarrow> (Inl (IpcProtocol e), s)
              | (Inr (MAccepted a), s) \<Rightarrow>
                 (case sys_now s of (now, s) \<Rightarrow>
                  case receive_completion (cb_json L) s (now + COMPLETION_TIMEOUT) of
                    (Inl e, s) \<Rightarrow> (Inl (IpcProtocol e), s)
                  | (Inr (MCompleted c), s) \<Rightarrow>
                      if co_request_id c = ac_request_id a then (Inr c, s) else (Inl RequestIdMismatch, s)
                  | (Inr _, s) \<Rightarrow> (Inl NotAccepted, s))
              | (Inr (MRejected j), s) \<Rightarrow> (Inl (IpcRejected (rj_code j) (rj_message j)), s)
              | (Inr _, s) \<Rightarrow> (Inl NotAccepted, s))))"

subsection \<open>The service side of a request\<close>

text \<open>\<open>usize::from_str\<close>: an optional plus sign and ASCII digits, in range.\<close>

definition parse_usize :: "ustr \<Rightarrow> nat option" where
  "parse_usize s =
     (let digits = (case strip_prefix (lit ''+'') s of Some r \<Rightarrow> r | None \<Rightarrow> s)
      in if digits \<noteq> [] \<and> list_all is_ascii_digit digits \<and> ascii_value digits \<le> USIZE_MAX
         then Some (ascii_value digits) else None)"

fun direct_kind :: "operation_kind \<Rightarrow> direct_operation" where
  "direct_kind OpSearch = DSearch"
| "direct_kind OpAll = DAll"
| "direct_kind OpIndex = DIndex"
| "direct_kind OpStats = DStats"
| "direct_kind OpProjects = DProjects"
| "direct_kind OpGc = DGc"

text \<open>\<open>f64::from_str\<close> is the parameter \<open>read_f64\<close>.\<close>

definition parse_threshold ::
  "cli_lib \<Rightarrow> (ustr \<Rightarrow> f64 option) \<Rightarrow> char list \<Rightarrow> ustr option \<Rightarrow> (direct_completion, f64 option) result" where
  "parse_threshold C read_f64 name v =
     (case v of
        None \<Rightarrow> Inr None
      | Some t \<Rightarrow>
         (case read_f64 t of
            None \<Rightarrow> Inl (completion_operational C (lit ''invalid --'' @ lit name @ lit '' '' @ quoted t))
          | Some x \<Rightarrow> Inr (Some x)))"

definition direct_request_from_operation ::
  "cli_lib \<Rightarrow> (ustr \<Rightarrow> f64 option) \<Rightarrow> service_operation \<Rightarrow> (direct_completion, direct_request) result" where
  "direct_request_from_operation C read_f64 op =
     (case parse_usize (op_k op) of
        None \<Rightarrow> Inl (completion_operational C (lit ''invalid -k '' @ quoted (op_k op)))
      | Some k \<Rightarrow>
          res_bind (parse_threshold C read_f64 ''min-score'' (op_min_score op)) (\<lambda>min_score.
          res_bind (parse_threshold C read_f64 ''max-gap'' (op_max_gap op)) (\<lambda>max_gap.
          Inr \<lparr> dr_operation = direct_kind (op_kind op), dr_project = map_option Utf8 (op_project op),
                dr_query = (if op_query op = [] then None else Some (op_query op)), dr_k = k,
                dr_requested_k = op_k op, dr_json = op_json op, dr_full = op_full op, dr_no_gate = op_no_gate op,
                dr_explain = op_explain op, dr_min_score = min_score, dr_max_gap = max_gap \<rparr>)))"

section \<open>Lemmas\<close>

subsection \<open>Completion\<close>

lemma reader_frame_parse:
  assumes "reader_wf r" "reader_frame r = Some body"
  shows "parse_frame (fr_limit r) (reader_bytes r) = Inr (body, [])"
  using assms reader_frame_bytes [OF assms(1)]
  by (auto simp: parse_frame_def reader_wf_def reader_bytes_def declared_of_def reader_frame_def split: if_splits option.splits)

lemma stop_nonblocking_keeps:
  "st_reads (stop_nonblocking s) = st_reads s" "st_sent (stop_nonblocking s) = st_sent s"
  by (cases "set_nonblocking False s"; use control_keeps(3) in \<open>force simp: stop_nonblocking_def\<close>)+

lemma completion_loop_ok:
  assumes "completion_loop lib r deadline s = (q, s')" "reader_wf r"
  shows "st_sent s' = st_sent s \<and> (\<forall>m. q = Inr m \<longrightarrow> (\<exists>bs body. payload (st_reads s) = bs @ payload (st_reads s')
      \<and> parse_frame (fr_limit r) (reader_bytes r @ bs) = Inr (body, []) \<and> decode_response lib body = Inr m))"
  using assms
proof (induction "length (st_polls s)" arbitrary: r s rule: less_induct)
  case less
  obtain now s1 where n1: "sys_now s = (now, s1)" by (cases "sys_now s")
  obtain p s2 where p: "sys_poll s1 = (p, s2)" by (cases "sys_poll s1")
  obtain v s3 where rd: "sys_read 8192 s2 = (v, s3)" by (cases "sys_read 8192 s2")
  have s2: "st_reads s2 = st_reads s" "st_sent s2 = st_sent s"
    using sys_now_fields [OF n1] sys_poll_fields [OF p] by simp_all
  have ev: "read_events 8192 (st_reads s) = (v, st_reads s3)" "st_sent s3 = st_sent s"
    using rd s2 by (auto simp: sys_read_def split: prod.splits)
  note load = now_poll_load [OF n1 [symmetric] p [symmetric]] now_poll_read_load [OF n1 [symmetric] p [symmetric] _ rd [symmetric]]
  note unfolded = less.prems(1) [unfolded completion_loop.simps [of lib r deadline s]]
  note stop = stop_nonblocking_keeps
  show ?case
  proof (cases "reader_frame r")
    case (Some body)
    then have "q = decode_response lib body" "s' = stop_nonblocking s" using unfolded by simp_all
    then show ?thesis using reader_frame_parse [OF less.prems(2) Some] stop by auto
  next
    case None
    consider (stopped) e x where "q = Inl e" "s' = stop_nonblocking x" "x \<in> {s1, s2, s3}"
      | (waited) "p = PIntr" "completion_loop lib r deadline s2 = (q, s')"
      | (fed) bs finished r1 where "p = PReady" "v = Inr bs" "feed r bs = (Inr finished, r1)" "completion_loop lib r1 deadline s3 = (q, s')"
      | (again) k where "p = PReady" "v = Inl k" "completion_loop lib r deadline s3 = (q, s')"
      using unfolded None n1 p rd
      by (cases p) (auto split: if_splits sum.splits list.splits prod.splits)
    then show ?thesis
    proof cases
      case stopped
      then show ?thesis using stop s2 ev(2) sys_now_fields [OF n1] by auto
    next
      case waited
      from less.hyps [OF load(1) waited(2) less.prems(2)] show ?thesis using waited s2 by simp
    next
      case fed
      have r1: "reader_wf r1" "fr_limit r1 = fr_limit r" "reader_bytes r1 = reader_bytes r @ bs"
        using feed_refines_accumulate [OF less.prems(2) fed(3)] feed_bytes [OF less.prems(2) fed(3)] by auto
      have "payload (st_reads s) = bs @ payload (st_reads s3)" using read_events_Inr_payload ev(1) fed(2) by blast
      with less.hyps [OF load(2) fed(4) r1(1)] show ?thesis using fed(1) r1 ev(2) by fastforce
    next
      case again
      have "payload (st_reads s3) = payload (st_reads s)" using read_events_Inl_payload ev(1) again(2) by blast
      with less.hyps [OF load(2) again(3) less.prems(2)] show ?thesis using again(1) ev(2) by simp
    qed
  qed
qed

lemma receive_completion_ok:
  assumes "receive_completion lib s deadline = (q, s')"
  shows "st_sent s' = st_sent s \<and> (\<forall>m. q = Inr m \<longrightarrow> (\<exists>bs body. payload (st_reads s) = bs @ payload (st_reads s')
      \<and> parse_frame MAX_RESPONSE_BYTES bs = Inr (body, []) \<and> decode_response lib body = Inr m))"
proof -
  obtain c s1 where c: "set_nonblocking True s = (c, s1)" by (cases "set_nonblocking True s")
  note k = control_keeps(3) [OF c]
  show ?thesis
  proof (cases c)
    case (Inl e)
    then show ?thesis using assms c k by (auto simp: receive_completion_def)
  next
    case (Inr u)
    then have "completion_loop lib (frame_reader_new MAX_RESPONSE_BYTES) deadline s1 = (q, s')"
      using assms c by (simp add: receive_completion_def)
    from completion_loop_ok [OF this reader_new_wf(1)] show ?thesis using k by (simp add: reader_new_wf)
  qed
qed

text \<open>One complete response frame read off a stream.\<close>

definition response_read :: "json_lib \<Rightarrow> stream \<Rightarrow> stream \<Rightarrow> message \<Rightarrow> bool" where
  "response_read lib s s' m \<longleftrightarrow>
     (\<exists>bs body. payload (st_reads s) = bs @ payload (st_reads s')
        \<and> parse_frame MAX_RESPONSE_BYTES bs = Inr (body, []) \<and> decode_response lib body = Inr m)"

lemma receive_completion_read:
  "receive_completion lib s deadline = (Inr m, s') \<Longrightarrow> st_sent s' = st_sent s \<and> response_read lib s s' m"
  using receive_completion_ok by (force simp: response_read_def)

lemma exchange_read:
  assumes "encode lib (MRequest req) = Inr body" "exchange_request_with_deadline lib s req deadline = (Inr m, s')"
  shows "st_sent s' = st_sent s @ frame_bytes body \<and> response_read lib s s' m"
  using exchange_request [OF assms] by (auto simp: response_read_def)

lemma exchange_encodes:
  "exchange_request_with_deadline lib s req deadline = (Inr m, s') \<Longrightarrow> \<exists>body. encode lib (MRequest req) = Inr body"
  by (cases "encode lib (MRequest req)") (auto simp: exchange_request_with_deadline_def send_message_def)

lemma sys_now_read: "sys_now s = (t, s') \<Longrightarrow> response_read lib s' s'' m = response_read lib s s'' m"
  using sys_now_fields(1) by (simp add: response_read_def)

subsection \<open>Connecting\<close>

lemma finish_connected_ok:
  "finish_connected deadline s = (o', s') \<Longrightarrow> st_sent s' = st_sent s \<and> st_reads s' = st_reads s
     \<and> (o' = Connected \<longrightarrow> st_now s' < deadline \<and> \<not> st_nonblocking s')"
proof -
  assume f: "finish_connected deadline s = (o', s')"
  obtain now s1 where n1: "sys_now s = (now, s1)" by (cases "sys_now s")
  obtain c s2 where c: "set_nonblocking False s1 = (c, s2)" by (cases "set_nonblocking False s1")
  obtain now2 s3 where n2: "sys_now s2 = (now2, s3)" by (cases "sys_now s2")
  show ?thesis
    using f n1 c n2 sys_now_fields [OF n1] sys_now_fields [OF n2] sys_now_mono [OF n2] control_keeps(3) [OF c]
    by (cases c) (auto simp: finish_connected_def split: if_splits)
qed

lemma poll_connected_ok:
  "poll_connected c deadline s = (o', s') \<Longrightarrow> st_sent s' = st_sent s \<and> st_reads s' = st_reads s
     \<and> (o' = Connected \<longrightarrow> st_now s' < deadline \<and> \<not> st_nonblocking s')"
proof (induction c deadline s rule: poll_connected.induct)
  case (1 c deadline s)
  obtain now s1 where n1: "sys_now s = (now, s1)" by (cases "sys_now s")
  obtain p s2 where p: "sys_poll s1 = (p, s2)" by (cases "sys_poll s1")
  have k: "st_sent s2 = st_sent s" "st_reads s2 = st_reads s" "st_sent s1 = st_sent s" "st_reads s1 = st_reads s"
    using sys_now_fields [OF n1] sys_poll_fields [OF p] by simp_all
  note unfolded = "1.prems" [unfolded poll_connected.simps [of c deadline s]]
  show ?case
  proof (cases "deadline \<le> now \<or> p = PExpired \<or> (\<exists>e. p = PErr e)")
    case True
    then show ?thesis using unfolded n1 p k by (auto split: if_splits)
  next
    case False
    then consider "p = PIntr" | "p = PReady" by (cases p) auto
    then show ?thesis
    proof cases
      case 1
      then have "poll_connected c deadline s2 = (o', s')" using unfolded n1 p False by simp
      moreover have "\<not> deadline \<le> now" using False by simp
      ultimately show ?thesis using "1.IH" [OF n1 [symmetric] _ p [symmetric] 1] k by metis
    next
      case 2
      then have "finish_connected deadline s2 = (o', s') \<or> o' \<noteq> Connected \<and> s' = s2"
        using unfolded n1 p False by (auto split: socket_error_status.splits)
      then show ?thesis using k finish_connected_ok by metis
    qed
  qed
qed

lemma connect_system_ok:
  assumes "connect_system c deadline s = (o', s')"
  shows "st_sent s' = st_sent s \<and> st_reads s' = st_reads s
     \<and> (o' = Connected \<longrightarrow> st_now s' < deadline \<and> \<not> st_nonblocking s')"
proof -
  obtain now s1 where n1: "sys_now s = (now, s1)" by (cases "sys_now s")
  obtain q s2 where q: "set_nonblocking True s1 = (q, s2)" by (cases "set_nonblocking True s1")
  have k: "st_sent s1 = st_sent s" "st_reads s1 = st_reads s" "st_sent s2 = st_sent s" "st_reads s2 = st_reads s"
    using sys_now_fields [OF n1] control_keeps(3) [OF q] by simp_all
  consider "o' \<noteq> Connected" "s' = s1 \<or> s' = s2" | "finish_connected deadline s2 = (o', s')" | "poll_connected c deadline s2 = (o', s')"
    using assms n1 q unfolding connect_system_def
    by (cases q; cases "cs_address c"; cases "cs_socket c"; cases "cs_connect c") (auto split: if_splits)
  then show ?thesis
  proof cases
    case 1
    then show ?thesis using k by auto
  next
    case 2
    from finish_connected_ok [OF 2] show ?thesis using k by simp
  next
    case 3
    from poll_connected_ok [OF 3] show ?thesis using k by simp
  qed
qed

subsection \<open>Requests\<close>

lemma parse_usize_decimal: "n \<le> USIZE_MAX \<Longrightarrow> parse_usize (decimal n) = Some n"
proof -
  assume n: "n \<le> USIZE_MAX"
  have digits: "\<forall>c \<in> set (decimal n). is_ascii_digit c" using decimal_digits by (simp add: is_ascii_digit_def)
  have "hd (decimal n) \<in> set (decimal n)" by simp
  from decimal_digits [OF this] have "hd (decimal n) \<noteq> 43" by simp
  then have "strip_prefix (lit ''+'') (decimal n) = None" by (cases "decimal n") (auto simp: strip_prefix_def lit_def)
  then show ?thesis using n digits by (simp add: parse_usize_def ascii_value_def decimal_value list_all_iff)
qed

lemma direct_service_kind: "service_kind op = Some k \<Longrightarrow> direct_kind k = op"
  by (cases op) auto

lemma parse_threshold_show:
  "(\<And>x. v = Some x \<Longrightarrow> read_f64 (show x) = Some x) \<Longrightarrow> parse_threshold C read_f64 name (map_option show v) = Inr v"
  by (cases v) (auto simp: parse_threshold_def)

text \<open>What is relied on of the standard library's floats: a finite one that was printed is read back.\<close>

definition f64_text_ok :: "(f64 \<Rightarrow> ustr) \<Rightarrow> (ustr \<Rightarrow> f64 option) \<Rightarrow> bool" where
  "f64_text_ok show read \<longleftrightarrow> (\<forall>x. is_finite x \<longrightarrow> read (show x) = Some x)"

lemma request_roundtrip:
  assumes valid: "direct_request_valid r" and op: "service_operation_of L r = Some op"
    and floats: "f64_text_ok (cb_show_f64 L) read_f64"
  shows "direct_request_from_operation C read_f64 op = Inr (r\<lparr> dr_requested_k := decimal (dr_k r) \<rparr>)"
proof -
  obtain kind project where kp: "service_kind (dr_operation r) = Some kind" "project_text (dr_project r) = Some project"
    using op by (auto simp: service_operation_of_def split: option.splits)
  have proj: "map_option Utf8 project = dr_project r"
    using kp(2) by (auto simp: project_text_def split: option.splits)
  have k: "parse_usize (decimal (dr_k r)) = Some (dr_k r)"
    using valid by (intro parse_usize_decimal) (auto simp: direct_request_valid_def)
  have query: "(let q = (case dr_query r of None \<Rightarrow> [] | Some q \<Rightarrow> q) in if q = [] then None else Some q) = dr_query r"
    using valid by (auto simp: direct_request_valid_def split: option.splits)
  have finite: "\<And>x. dr_min_score r = Some x \<Longrightarrow> is_finite x" "\<And>x. dr_max_gap r = Some x \<Longrightarrow> is_finite x"
    using valid unfolding direct_request_valid_def by blast+
  have thresholds: "parse_threshold C read_f64 n (map_option (cb_show_f64 L) (dr_min_score r)) = Inr (dr_min_score r)"
      "parse_threshold C read_f64 n (map_option (cb_show_f64 L) (dr_max_gap r)) = Inr (dr_max_gap r)" for n
    using finite floats by (auto intro!: parse_threshold_show simp: f64_text_ok_def)
  show ?thesis
    using op kp direct_service_kind [OF kp(1)] k proj query thresholds
    by (auto simp: service_operation_of_def direct_request_from_operation_def Let_def intro!: direct_request.equality)
qed

text \<open>Reading back the arguments, one group at a time.\<close>

lemma argv_loop_flags:
  "argv_loop False op (flag_argv b ''--json'' @ rest) = argv_loop False (op\<lparr> op_json := op_json op \<or> b \<rparr>) rest"
  "argv_loop False op (flag_argv b ''--full'' @ rest) = argv_loop False (op\<lparr> op_full := op_full op \<or> b \<rparr>) rest"
  "argv_loop False op (flag_argv b ''--no-gate'' @ rest) = argv_loop False (op\<lparr> op_no_gate := op_no_gate op \<or> b \<rparr>) rest"
  "argv_loop False op (flag_argv b ''--explain'' @ rest) = argv_loop False (op\<lparr> op_explain := op_explain op \<or> b \<rparr>) rest"
  by (cases b; simp add: flag_argv_def lit_def)+

lemma argv_loop_options:
  "argv_loop False op ([lit ''-k'', t] @ rest) = argv_loop False (op\<lparr> op_k := t \<rparr>) rest"
  "argv_loop False op (option_argv ''--min-score'' v @ rest)
     = argv_loop False (case v of None \<Rightarrow> op | Some t \<Rightarrow> op\<lparr> op_min_score := Some t \<rparr>) rest"
  "argv_loop False op (option_argv ''--max-gap'' v @ rest)
     = argv_loop False (case v of None \<Rightarrow> op | Some t \<Rightarrow> op\<lparr> op_max_gap := Some t \<rparr>) rest"
  "argv_loop False op (option_argv ''--project'' v @ rest)
     = argv_loop False (case v of None \<Rightarrow> op | Some t \<Rightarrow> op\<lparr> op_project := Some t \<rparr>) rest"
  "argv_loop False op (option_argv ''--'' v) = (case v of None \<Rightarrow> op | Some t \<Rightarrow> op\<lparr> op_query := t \<rparr>)"
  by (cases v; simp add: option_argv_def lit_def head_option_def)+

lemma op_kind_same: "op_kind op = k \<Longrightarrow> op\<lparr> op_kind := k \<rparr> = op"
  by (rule service_operation.equality) simp_all

lemma argv_loop_operation:
  "operation_argv d = Some argv \<Longrightarrow> service_kind d = Some kind \<Longrightarrow> op_kind op = OpSearch \<Longrightarrow>
   argv_loop False op (argv @ rest) = argv_loop False (op\<lparr> op_kind := kind \<rparr>) rest"
  by (cases d) (auto simp: lit_def op_kind_same)

lemma request_argv_operation:
  assumes valid: "direct_request_valid r" and op: "service_operation_of L r = Some op" and argv: "request_argv L r = Some argv"
    and service: "lit ''--write'' \<notin> set argv"
  shows "operation_from_argv argv = Some (op\<lparr> op_k := dr_requested_k r \<rparr>)"
proof -
  obtain kind project first where kp: "service_kind (dr_operation r) = Some kind"
      "project_text (dr_project r) = Some project" "operation_argv (dr_operation r) = Some first"
    using op argv by (auto simp: service_operation_of_def request_argv_def split: option.splits)
  have k5: "dr_requested_k r = lit ''5''" if "dr_k r = 5"
  proof -
    obtain m where m: "dr_requested_k r = decimal m" "dr_k r = min m USIZE_MAX"
      using valid by (auto simp: direct_request_valid_def)
    then have "m = 5" using that by (auto simp: min_def USIZE_MAX_def split: if_splits)
    then show ?thesis using m by (simp add: decimal.simps lit_def)
  qed
  have "operation_from_argv argv = Some (argv_loop False default_operation argv)"
    using service by (auto simp: operation_from_argv_def list_ex_iff)
  also have "argv_loop False default_operation argv = op\<lparr> op_k := dr_requested_k r \<rparr>"
  proof (cases "dr_k r = 5")
    case True
    then show ?thesis
      using argv op kp k5 argv_loop_operation [OF kp(3,1), of default_operation]
      by (auto simp: request_argv_def service_operation_of_def argv_loop_flags argv_loop_options default_operation_def
          intro!: service_operation.equality split: option.splits)
  next
    case False
    then show ?thesis
      using argv op kp argv_loop_operation [OF kp(3,1), of default_operation] argv_loop_options(1) [simplified]
      by (auto simp: request_argv_def service_operation_of_def argv_loop_flags argv_loop_options default_operation_def
          intro!: service_operation.equality split: option.splits)
  qed
  finally show ?thesis .
qed

subsection \<open>The client\<close>

lemma await_completion_ok:
  assumes "await_completion L accepted_id s = (Some (Inr c), s')"
  shows "st_sent s' = st_sent s \<and> (\<exists>d. response_read (cb_json L) s s' (MCompleted d) \<and> co_request_id d = accepted_id
    \<and> c = \<lparr> dc_exit_code = exit_code_from_service (co_exit_code d), dc_stdout = co_stdout d, dc_stderr = co_stderr d \<rparr>)"
proof -
  obtain now s1 where n: "sys_now s = (now, s1)" by (cases "sys_now s")
  obtain q s2 where q: "receive_completion (cb_json L) s1 (now + COMPLETION_TIMEOUT) = (q, s2)"
    by (cases "receive_completion (cb_json L) s1 (now + COMPLETION_TIMEOUT)")
  obtain d where d: "q = Inr (MCompleted d)" "co_request_id d = accepted_id" "s' = s2"
      "c = \<lparr> dc_exit_code = exit_code_from_service (co_exit_code d), dc_stdout = co_stdout d, dc_stderr = co_stderr d \<rparr>"
    using assms n q by (cases q) (auto simp: await_completion_def client_operational_def split: message.splits if_splits)
  from receive_completion_read [OF q [unfolded d(1)]]
  show ?thesis using d sys_now_fields(3) [OF n] sys_now_read [OF n] by auto
qed

lemma validate_peer_Inr: "validate_peer_with euid u = Inr x \<longleftrightarrow> u = Inr euid"
  by (cases u) (auto simp: validate_peer_with_def result_simps)

text \<open>The stages a successful exchange went through.\<close>

definition request_served ::
  "json_lib \<Rightarrow> nat \<Rightarrow> (stream \<Rightarrow> (peer_error, nat) result) \<Rightarrow> request \<Rightarrow> completed \<Rightarrow> stream \<Rightarrow> stream \<Rightarrow> bool" where
  "request_served lib euid peer req d s s' \<longleftrightarrow>
     (\<exists>body s1. peer s = Inr euid \<and> encode lib (MRequest req) = Inr body \<and> st_sent s' = st_sent s @ frame_bytes body
        \<and> response_read lib s s1 (MAccepted \<lparr> ac_request_id = co_request_id d \<rparr>) \<and> response_read lib s1 s' (MCompleted d))"

lemma try_service_ok:
  assumes "try_service_with L euid peer connector r cwd s = (Some (Inr c), s')"
  shows "\<exists>now s0 s1 op argv cwd_text d. sys_now s = (now, s0) \<and> connector (now + HANDSHAKE_TIMEOUT) s0 = (Connected, s1)
    \<and> service_operation_of L r = Some op \<and> request_argv L r = Some argv \<and> cwd = Utf8 cwd_text
    \<and> request_served (cb_json L) euid peer \<lparr> rq_operation = op, rq_argv = argv, rq_cwd = cwd_text \<rparr> d s1 s'
    \<and> c = \<lparr> dc_exit_code = exit_code_from_service (co_exit_code d), dc_stdout = co_stdout d, dc_stderr = co_stderr d \<rparr>"
proof -
  obtain now s0 where n: "sys_now s = (now, s0)" by (cases "sys_now s")
  obtain o1 s1 where cn: "connector (now + HANDSHAKE_TIMEOUT) s0 = (o1, s1)" by (cases "connector (now + HANDSHAKE_TIMEOUT) s0")
  note A = assms [unfolded try_service_with_def client_operational_def Let_def]
  have o1: "o1 = Connected" using A n cn by (cases o1) (auto split: if_splits)
  obtain u where u: "validate_peer_with euid (peer s1) = Inr u"
    using A n cn o1 by (cases "validate_peer_with euid (peer s1)") (auto split: if_splits)
  obtain op argv cwd_text where built: "service_operation_of L r = Some op" "request_argv L r = Some argv" "cwd = Utf8 cwd_text"
    using A n cn o1 u
    by (cases "service_operation_of L r"; cases "request_argv L r"; cases "os_to_str cwd") (auto split: if_splits)
  let ?req = "\<lparr> rq_operation = op, rq_argv = argv, rq_cwd = cwd_text \<rparr>"
  obtain q s2 where ex: "exchange_request_with_deadline (cb_json L) s1 ?req (now + HANDSHAKE_TIMEOUT) = (q, s2)"
    by (cases "exchange_request_with_deadline (cb_json L) s1 ?req (now + HANDSHAKE_TIMEOUT)")
  obtain a where a: "q = Inr (MAccepted a)" "await_completion L (ac_request_id a) s2 = (Some (Inr c), s')"
    using A n cn o1 u built ex by (cases q) (auto split: if_splits message.splits)
  obtain body where body: "encode (cb_json L) (MRequest ?req) = Inr body" using exchange_encodes ex a(1) by metis
  from exchange_read [OF body ex [unfolded a(1)]] await_completion_ok [OF a(2)] obtain d where
    "request_served (cb_json L) euid peer ?req d s1 s'"
    "c = \<lparr> dc_exit_code = exit_code_from_service (co_exit_code d), dc_stdout = co_stdout d, dc_stderr = co_stderr d \<rparr>"
    using body u validate_peer_Inr unfolding request_served_def by (metis accepted.surjective old.unit.exhaust)
  with n cn o1 built show ?thesis by blast
qed

subsection \<open>An exchange for examples\<close>

definition demo_request :: direct_request where
  "demo_request = \<lparr> dr_operation = DSearch, dr_project = None, dr_query = Some (lit ''q''), dr_k = 7,
     dr_requested_k = lit ''7'', dr_json = False, dr_full = True, dr_no_gate = False, dr_explain = False,
     dr_min_score = Some f64_one, dr_max_gap = None \<rparr>"

definition demo_request_doc :: ustr where
  "demo_request_doc = json_doc (''{^version^:4,^type^:^request^,^operation^:{^kind^:^search^,^query^:^q^,^k^:^7^,''
     @ ''^json^:false,^full^:true,^no_gate^:false,^explain^:false,^min_score^:^1^},''
     @ ''^argv^:[^--full^,^-k^,^7^,^--min-score^,^1^,^--^,^q^],^cwd^:^/^}'')"

definition demo_completed :: completed where
  "demo_completed = \<lparr> co_request_id = lit ''a'', co_exit_code = 3, co_stdout = lit ''out'', co_stderr = [] \<rparr>"

definition demo_completed_doc :: ustr where
  "demo_completed_doc = json_doc ''{^version^:4,^type^:^completed^,^request_id^:^a^,^exit_code^:3,^stdout^:^out^,^stderr^:^^}''"

definition demo_json :: json_lib where
  "demo_json =
     \<lparr> write_json = (\<lambda>w. ([as_bytes demo_request_doc], True)),
       read_json = (\<lambda>d. if d = sample_accepted_doc then (message_wire sample_accepted, True)
                        else if d = demo_completed_doc then (message_wire (MCompleted demo_completed), True) else (JBad, False)) \<rparr>"

definition demo_client :: client_lib where
  "demo_client = \<lparr> cb_cli = demo_lib, cb_json = demo_json, cb_io_text = (\<lambda>_. lit ''io''), cb_kind_debug = (\<lambda>_. lit ''Kind''),
     cb_show_f64 = (\<lambda>_. lit ''1'') \<rparr>"

definition demo_script :: connect_script where
  "demo_script = \<lparr> cs_address = None, cs_socket = None, cs_connect = None, cs_socket_error = Inr None, cs_kind = (\<lambda>_. OtherKind 0) \<rparr>"

text \<open>The service answers in two frames, the second in two pieces.\<close>

definition demo_stream :: stream where
  "demo_stream = plain_stream
     \<lparr> st_reads := [RData (frame_bytes (as_bytes sample_accepted_doc)), RErr WouldBlock,
         RData (take 9 (frame_bytes (as_bytes demo_completed_doc))), RData (drop 9 (frame_bytes (as_bytes demo_completed_doc)))],
       st_polls := [PReady, PIntr, PReady, PReady] \<rparr>"

text \<open>A clock that reaches the handshake deadline between the last byte of the request and the check
  that follows it.\<close>

definition late_stream :: stream where
  "late_stream = plain_stream\<lparr> st_ticks := [0, 0, 0, 0, 0, 0, HANDSHAKE_TIMEOUT] \<rparr>"

section \<open>Properties\<close>

text \<open>C19: the command-line client reports a completion only after it connected, the peer's user was its
  own, every byte of the encoded request was sent, and two complete response frames were read: an
  acceptance and a completion with the same request id, whose output and mapped exit status it
  returns.\<close>

theorem try_service_completes:
  assumes "try_service_with L euid peer connector r cwd s = (Some (Inr c), s')"
  shows "\<exists>now s0 s1 op argv cwd_text d. sys_now s = (now, s0) \<and> connector (now + HANDSHAKE_TIMEOUT) s0 = (Connected, s1)
    \<and> service_operation_of L r = Some op \<and> request_argv L r = Some argv \<and> cwd = Utf8 cwd_text
    \<and> request_served (cb_json L) euid peer \<lparr> rq_operation = op, rq_argv = argv, rq_cwd = cwd_text \<rparr> d s1 s'
    \<and> c = \<lparr> dc_exit_code = exit_code_from_service (co_exit_code d), dc_stdout = co_stdout d, dc_stderr = co_stderr d \<rparr>"
  by (rule try_service_ok [OF assms])

theorem try_service_completes_witness:
  "\<exists>s1 op argv d s'. request_served demo_json 7 (\<lambda>_. Inr 7)
      \<lparr> rq_operation = op, rq_argv = argv, rq_cwd = lit ''/'' \<rparr> d s1 s' \<and> co_stdout d = lit ''out''"
proof -
  let ?c = "\<lparr> dc_exit_code = ExitUnsure, dc_stdout = lit ''out'', dc_stderr = [] \<rparr>"
  let ?t = "try_service_with demo_client 7 (\<lambda>_. Inr 7) (connect_system demo_script) demo_request (Utf8 (lit ''/'')) demo_stream"
  have "fst ?t = Some (Inr ?c)" by code_simp
  then have "?t = (Some (Inr ?c), snd ?t)" by (metis prod.collapse)
  from try_service_completes [OF this] obtain s1 op argv d where
    "request_served (cb_json demo_client) 7 (\<lambda>_. Inr 7) \<lparr> rq_operation = op, rq_argv = argv, rq_cwd = lit ''/'' \<rparr> d s1 (snd ?t)"
    "co_stdout d = lit ''out''" by auto
  moreover have "cb_json demo_client = demo_json" by (simp add: demo_client_def)
  ultimately show ?thesis by metis
qed

text \<open>\<open>try_service\<close> is documented to return \<open>None\<close> only when no request could have been delivered.
  It does not keep that: when the deadline passes between the last byte of the request and the check
  after it, the service holds the complete request and the client still answers \<open>None\<close>, which makes the
  caller execute the operation a second time itself.\<close>

lemma try_service_none_after_delivery:
  "fst (try_service_with demo_client 7 (\<lambda>_. Inr 7) (connect_system demo_script) demo_request (Utf8 (lit ''/'')) late_stream) = None
   \<and> st_sent (snd (try_service_with demo_client 7 (\<lambda>_. Inr 7) (connect_system demo_script) demo_request (Utf8 (lit ''/'')) late_stream))
     = frame_bytes (as_bytes demo_request_doc)"
  by code_simp

text \<open>A connection is reported only before the deadline and in blocking mode, and connecting neither
  sends nor consumes a byte, whatever the system answers.\<close>

lemma connect_system_bounded:
  assumes "connect_system c deadline s = (result, s')"
  shows "st_sent s' = st_sent s \<and> st_reads s' = st_reads s
    \<and> (result = Connected \<longrightarrow> st_now s' < deadline \<and> \<not> st_nonblocking s')"
  by (rule connect_system_ok [OF assms])

lemma connect_system_bounded_example:
  "\<exists>s'. connect_system (demo_script\<lparr> cs_connect := Some INPROGRESS \<rparr>) 5 (demo_stream\<lparr> st_ticks := [1, 1, 1] \<rparr>) = (Connected, s')
     \<and> st_now s' < 5 \<and> \<not> st_nonblocking s'"
proof -
  let ?t = "connect_system (demo_script\<lparr> cs_connect := Some INPROGRESS \<rparr>) 5 (demo_stream\<lparr> st_ticks := [1, 1, 1] \<rparr>)"
  have "fst ?t = Connected" by code_simp
  then have t: "?t = (Connected, snd ?t)" by (metis prod.collapse)
  from connect_system_bounded [OF t] t show ?thesis by blast
qed

text \<open>A valid request survives the trip to the service: the operation the client sends is read back
  by the service as the same request, with the requested count replaced by the saturated one.\<close>

lemma service_request_roundtrip:
  assumes "direct_request_valid r" and "service_operation_of L r = Some op"
    and "f64_text_ok (cb_show_f64 L) read_f64"
  shows "direct_request_from_operation C read_f64 op = Inr (r\<lparr> dr_requested_k := decimal (dr_k r) \<rparr>)"
  by (rule request_roundtrip [OF assms])

text \<open>The debug arguments of a request denote the same operation as the typed one, with the
  requested count in place of the saturated one, unless one of them is \<open>--write\<close>.\<close>

lemma request_argv_denotes_operation:
  assumes "direct_request_valid r" "service_operation_of L r = Some op" "request_argv L r = Some argv"
    and "lit ''--write'' \<notin> set argv"
  shows "operation_from_argv argv = Some (op\<lparr> op_k := dr_requested_k r \<rparr>)"
  by (rule request_argv_operation [OF assms])

lemma demo_request_valid: "direct_request_valid demo_request"
proof -
  have "lit ''7'' = decimal 7" by (simp add: decimal.simps lit_def)
  then show ?thesis
    by (auto simp: direct_request_valid_def demo_request_def is_search_def USIZE_MAX_def is_python_string_whitespace_def
        is_python_number_whitespace_def lit_def intro!: exI [of _ 7])
qed

text \<open>A faithful, if unusual, text for floats: sign, numerator and denominator as characters.\<close>

definition demo_show :: "f64 \<Rightarrow> ustr" where
  "demo_show x = (case x of Fin s q \<Rightarrow> (case quotient_of q of (a, b) \<Rightarrow> [of_bool s, of_bool (a < 0), nat \<bar>a\<bar>, nat b]) | _ \<Rightarrow> [])"

definition demo_read :: "ustr \<Rightarrow> f64 option" where
  "demo_read t = (case t of [s, g, a, b] \<Rightarrow> Some (Fin (s = 1) (Fract ((if g = 1 then - 1 else 1) * int a) (int b))) | _ \<Rightarrow> None)"

lemma demo_text_ok: "f64_text_ok demo_show demo_read"
  unfolding f64_text_ok_def
proof (intro allI impI)
  fix x assume "is_finite x"
  then obtain s q where x: "x = Fin s q" by (cases x) auto
  obtain a b where q: "quotient_of q = (a, b)" by (cases "quotient_of q")
  then have "q = Fract a b" "0 < b" using quotient_of_div quotient_of_denom_pos by (auto simp: Fract_of_int_quotient)
  with x q show "demo_read (demo_show x) = Some x" by (simp add: demo_show_def demo_read_def)
qed

lemma service_request_roundtrip_example:
  "\<exists>op. service_operation_of (demo_client\<lparr> cb_show_f64 := demo_show \<rparr>) demo_request = Some op
     \<and> direct_request_from_operation demo_lib demo_read op = Inr (demo_request\<lparr> dr_requested_k := decimal 7 \<rparr>)"
proof -
  let ?L = "demo_client\<lparr> cb_show_f64 := demo_show \<rparr>"
  obtain op where op: "service_operation_of ?L demo_request = Some op"
    by (simp add: service_operation_of_def demo_request_def project_text_def)
  have "f64_text_ok (cb_show_f64 ?L) demo_read" using demo_text_ok by simp
  from service_request_roundtrip [OF demo_request_valid op this] op show ?thesis by (simp add: demo_request_def)
qed

lemma request_argv_denotes_operation_example:
  "operation_from_argv [lit ''--full'', lit ''-k'', lit ''7'', lit ''--min-score'', lit ''1'', lit ''--'', lit ''q'']
     = map_option (op_k_update (\<lambda>_. lit ''7'')) (service_operation_of demo_client demo_request)"
proof -
  let ?argv = "[lit ''--full'', lit ''-k'', lit ''7'', lit ''--min-score'', lit ''1'', lit ''--'', lit ''q'']"
  obtain op where op: "service_operation_of demo_client demo_request = Some op"
    by (simp add: service_operation_of_def demo_request_def project_text_def)
  have argv: "request_argv demo_client demo_request = Some ?argv" by code_simp
  have "lit ''--write'' \<notin> set ?argv" by (simp add: lit_def)
  from request_argv_denotes_operation [OF demo_request_valid op argv this] op
  show ?thesis by (simp add: demo_request_def)
qed

end
