(* ===== verification/Channel.thy ===== *)
theory Channel
  imports Client
begin

text \<open>
  Messages over a channel: what a sender and a receiver of messages promise each other as a locale,
  and its two instances, requests and responses over frames. The lemmas of the locale give the
  delivery of whole sequences of messages, in order and with nothing left over.
\<close>

section \<open>Definitions\<close>

text \<open>Sending and receiving sequences.\<close>

fun send_all ::
  "(stream \<Rightarrow> 'm \<Rightarrow> ('e, unit) result \<times> stream) \<Rightarrow> stream \<Rightarrow> 'm list \<Rightarrow> ('e, unit) result \<times> stream" where
  "send_all send s [] = (Inr (), s)"
| "send_all send s (m # ms) = io_bind (send s m) (\<lambda>_ s. send_all send s ms)"

fun receive_all :: "(stream \<Rightarrow> ('e, 'm) result \<times> stream) \<Rightarrow> stream \<Rightarrow> nat \<Rightarrow> ('e, 'm list) result \<times> stream" where
  "receive_all receive s 0 = (Inr [], s)"
| "receive_all receive s (Suc n) =
     io_bind (receive s) (\<lambda>m s. io_bind (receive_all receive s n) (\<lambda>ms s. (Inr (m # ms), s)))"

text \<open>A message that can travel: its JSON text is faithful, it is within the bounds and it encodes.\<close>

definition sendable :: "json_lib \<Rightarrow> message \<Rightarrow> bool" where
  "sendable lib m \<longleftrightarrow> json_faithful lib (message_wire m) \<and> message_bounded m \<and> is_ok (encode lib m)"

definition message_frame :: "json_lib \<Rightarrow> message \<Rightarrow> u8 list" where
  "message_frame lib m = (case encode lib m of Inr body \<Rightarrow> frame_bytes body | Inl _ \<Rightarrow> [])"

definition is_request :: "message \<Rightarrow> bool" where
  "is_request m = (case m of MRequest _ \<Rightarrow> True | _ \<Rightarrow> False)"

section \<open>The interface\<close>

locale message_channel =
  fixes send :: "stream \<Rightarrow> 'm \<Rightarrow> ('e, unit) result \<times> stream"
    and receive :: "stream \<Rightarrow> ('e, 'm) result \<times> stream"
    and wire :: "'m \<Rightarrow> u8 list"
    and ok :: "'m \<Rightarrow> bool"
  assumes send_ok: "ok m \<Longrightarrow> clean_writes (st_writes s) \<Longrightarrow>
      \<exists>s'. send s m = (Inr (), s') \<and> st_sent s' = st_sent s @ wire m \<and> clean_writes (st_writes s')"
    and receive_ok: "ok m \<Longrightarrow> clean_reads (st_reads t) \<Longrightarrow> payload (st_reads t) = wire m @ rest \<Longrightarrow>
      \<exists>t'. receive t = (Inr m, t') \<and> payload (st_reads t') = rest \<and> clean_reads (st_reads t')"
begin

lemma send_all_ok:
  "\<forall>m \<in> set ms. ok m \<Longrightarrow> clean_writes (st_writes s) \<Longrightarrow>
   \<exists>s'. send_all send s ms = (Inr (), s') \<and> st_sent s' = st_sent s @ concat (map wire ms)"
proof (induction ms arbitrary: s)
  case (Cons m ms)
  then obtain s1 where s1: "send s m = (Inr (), s1)" "st_sent s1 = st_sent s @ wire m" "clean_writes (st_writes s1)"
    using send_ok [of m s] by auto
  from Cons.IH [OF _ s1(3)] Cons.prems(1) s1 show ?case by auto
qed simp

lemma receive_all_ok:
  "\<forall>m \<in> set ms. ok m \<Longrightarrow> clean_reads (st_reads t) \<Longrightarrow> payload (st_reads t) = concat (map wire ms) @ rest \<Longrightarrow>
   \<exists>t'. receive_all receive t (length ms) = (Inr ms, t') \<and> payload (st_reads t') = rest"
proof (induction ms arbitrary: t)
  case (Cons m ms)
  then obtain t1 where t1: "receive t = (Inr m, t1)" "payload (st_reads t1) = concat (map wire ms) @ rest" "clean_reads (st_reads t1)"
    using receive_ok [of m t "concat (map wire ms) @ rest"] by auto
  from Cons.IH [OF _ t1(3,2)] Cons.prems(1) t1(1) show ?case by auto
qed simp

lemma delivers:
  assumes "\<forall>m \<in> set ms. ok m" "clean_writes (st_writes s)" "clean_reads (st_reads t)"
    and "payload (st_reads t) = drop (length (st_sent s)) (st_sent (snd (send_all send s ms))) @ rest"
  shows "fst (send_all send s ms) = Inr ()
    \<and> (\<exists>t'. receive_all receive t (length ms) = (Inr ms, t') \<and> payload (st_reads t') = rest)"
proof -
  obtain s' where s': "send_all send s ms = (Inr (), s')" "st_sent s' = st_sent s @ concat (map wire ms)"
    using send_all_ok [OF assms(1,2)] by blast
  with assms(4) have "payload (st_reads t) = concat (map wire ms) @ rest" by simp
  from receive_all_ok [OF assms(1,3) this] s'(1) show ?thesis by simp
qed

end

section \<open>Messages over frames\<close>

lemma write_frame_clean_writes:
  assumes "clean_writes (st_writes s)" "length body \<le> limit" "length body \<le> U32_MAX" "write_frame s body limit = (r, s')"
  shows "clean_writes (st_writes s')"
proof -
  let ?h = "to_be_bytes (length body)"
  obtain q s1 where h: "write_all ?h 0 s = (q, s1)" by (cases "write_all ?h 0 s")
  note c = write_all_clean [OF assms(1) h]
  have "write_all body 0 s1 = (r, s')"
    using assms(2-4) h c by (simp add: write_frame_def validate_frame_size_def)
  then show ?thesis using write_all_clean c by blast
qed

lemma send_message_ok:
  assumes "sendable lib m" "clean_writes (st_writes s)"
  shows "\<exists>s'. send_message lib s m = (Inr (), s') \<and> st_sent s' = st_sent s @ message_frame lib m \<and> clean_writes (st_writes s')"
proof -
  obtain body where body: "encode lib m = Inr body" using assms(1) by (auto simp: sendable_def is_ok_def split: sum.splits)
  let ?limit = "case m of MRequest _ \<Rightarrow> MAX_REQUEST_BYTES | _ \<Rightarrow> MAX_RESPONSE_BYTES"
  have size: "length body \<le> ?limit" "length body \<le> U32_MAX"
    using encode_limit [OF body] message_limit_u32 [of m] by (simp_all add: message_limit_def)
  obtain r s' where w: "write_frame s body ?limit = (r, s')" by (cases "write_frame s body ?limit")
  from write_frame_clean [OF assms(2) size w] write_frame_clean_writes [OF assms(2) size w] w body
  show ?thesis by (simp add: send_message_def message_frame_def)
qed

lemma read_frame_ok:
  assumes "sendable lib m" "clean_reads (st_reads t)" "payload (st_reads t) = message_frame lib m @ rest"
  shows "\<exists>body t'. encode lib m = Inr body \<and> read_frame t (message_limit m) = (Inr body, t')
    \<and> payload (st_reads t') = rest \<and> clean_reads (st_reads t')"
proof -
  obtain body where body: "encode lib m = Inr body" using assms(1) by (auto simp: sendable_def is_ok_def split: sum.splits)
  have size: "length body \<le> message_limit m" "length body \<le> U32_MAX"
    using encode_limit [OF body] message_limit_u32 [of m] by simp_all
  obtain r t' where rd: "read_frame t (message_limit m) = (r, t')" by (cases "read_frame t (message_limit m)")
  have "parse_frame (message_limit m) (payload (st_reads t)) = Inr (body, rest)"
    using assms(3) body parse_frame_bytes [OF size] by (simp add: message_frame_def)
  with read_frame_parse [OF assms(2) rd] rd body show ?thesis by auto
qed

lemma receive_request_ok:
  assumes "sendable lib m" "is_request m" "clean_reads (st_reads t)" "payload (st_reads t) = message_frame lib m @ rest"
  shows "\<exists>t'. receive_request lib t = (Inr m, t') \<and> payload (st_reads t') = rest \<and> clean_reads (st_reads t')"
proof -
  obtain r where m: "m = MRequest r" using assms(2) by (cases m) (auto simp: is_request_def)
  obtain body t' where b: "encode lib m = Inr body" "read_frame t (message_limit m) = (Inr body, t')"
      "payload (st_reads t') = rest" "clean_reads (st_reads t')"
    using read_frame_ok [OF assms(1,3,4)] by blast
  have "decode_for m lib body = Inr m" using assms(1) b(1) by (intro decode_encode) (auto simp: sendable_def)
  with b m show ?thesis by (simp add: receive_request_def message_limit_def decode_for_def)
qed

lemma receive_response_ok:
  assumes "sendable lib m" "\<not> is_request m" "clean_reads (st_reads t)" "payload (st_reads t) = message_frame lib m @ rest"
  shows "\<exists>t'. receive_response lib t = (Inr m, t') \<and> payload (st_reads t') = rest \<and> clean_reads (st_reads t')"
proof -
  obtain body t' where b: "encode lib m = Inr body" "read_frame t (message_limit m) = (Inr body, t')"
      "payload (st_reads t') = rest" "clean_reads (st_reads t')"
    using read_frame_ok [OF assms(1,3,4)] by blast
  have "decode_for m lib body = Inr m" using assms(1) b(1) by (intro decode_encode) (auto simp: sendable_def)
  with b assms(2) show ?thesis
    by (cases m) (auto simp: receive_response_def message_limit_def decode_for_def is_request_def)
qed

interpretation requests: message_channel "send_message lib" "receive_request lib" "message_frame lib"
    "\<lambda>m. sendable lib m \<and> is_request m" for lib
  using send_message_ok receive_request_ok by unfold_locales blast+

interpretation responses: message_channel "send_message lib" "receive_response lib" "message_frame lib"
    "\<lambda>m. sendable lib m \<and> \<not> is_request m" for lib
  using send_message_ok receive_response_ok by unfold_locales blast+

section \<open>Properties\<close>

text \<open>C20: any sequence of responses that the service sends is received by the client as the same
  sequence, in order and with nothing left over, however the socket splits the writes and the reads.\<close>

theorem responses_delivered:
  assumes "\<forall>m \<in> set ms. sendable lib m \<and> \<not> is_request m" "clean_writes (st_writes s)" "clean_reads (st_reads t)"
    and "payload (st_reads t) = drop (length (st_sent s)) (st_sent (snd (send_all (send_message lib) s ms)))"
  shows "fst (send_all (send_message lib) s ms) = Inr ()
    \<and> (\<exists>t'. receive_all (receive_response lib) t (length ms) = (Inr ms, t') \<and> payload (st_reads t') = [])"
  by (rule responses.delivers) (use assms in auto)

theorem responses_delivered_witness:
  "\<exists>t'. receive_all (receive_response sample_accepted_lib)
      (plain_stream\<lparr> st_reads := map (\<lambda>b. RData [b]) (st_sent (snd (send_all (send_message sample_accepted_lib) plain_stream
         [sample_accepted, sample_accepted]))) \<rparr>) 2 = (Inr [sample_accepted, sample_accepted], t')"
proof -
  let ?lib = sample_accepted_lib
  let ?ms = "[sample_accepted, sample_accepted]"
  let ?sent = "st_sent (snd (send_all (send_message ?lib) plain_stream ?ms))"
  let ?t = "plain_stream\<lparr> st_reads := map (\<lambda>b. RData [b]) ?sent \<rparr>"
  have ok: "sendable ?lib sample_accepted \<and> \<not> is_request sample_accepted"
    using sample_accepted_faithful sample_accepted_encode
    by (simp add: sendable_def is_ok_def message_bounded_def sample_accepted_def is_request_def)
  have bytes: "payload (map (\<lambda>b. RData [b]) bs) = bs" for bs by (induction bs) auto
  have "clean_reads (st_reads ?t)" by (auto simp: clean_reads_def)
  moreover have "clean_writes (st_writes plain_stream)" by (simp add: plain_stream_def clean_writes_def)
  ultimately show ?thesis
    using responses_delivered [of ?ms ?lib plain_stream ?t] ok bytes by (auto simp: plain_sent eval_nat_numeral)
qed

text \<open>A request the client sends is received by the service as that request.\<close>

lemma requests_delivered:
  assumes "\<forall>m \<in> set ms. sendable lib m \<and> is_request m" "clean_writes (st_writes s)" "clean_reads (st_reads t)"
    and "payload (st_reads t) = drop (length (st_sent s)) (st_sent (snd (send_all (send_message lib) s ms))) @ rest"
  shows "fst (send_all (send_message lib) s ms) = Inr ()
    \<and> (\<exists>t'. receive_all (receive_request lib) t (length ms) = (Inr ms, t') \<and> payload (st_reads t') = rest)"
  by (rule requests.delivers [OF assms])

end
