(* ===== verification/Service.thy ===== *)
theory Service
  imports Channel
begin

text \<open>
  The service loop of \<open>yams-service/src/service.rs\<close>: admission of connections, the execution of one
  request, cooperative shutdown and idle expiry, and the argument parser of \<open>yams-service/src/lib.rs\<close>.
  One iteration of \<open>serve_until\<close> is composed of the stages of the code, each a function on the loop's
  state. What other threads and the system do comes from scripts: whether shutdown was requested when
  the token is looked at, how many workers finished before a drain, what \<open>accept\<close> answers, the clock,
  and failing waits. A script that ends means: shutdown requested, every worker finished, nothing to
  accept, a still clock, no failure. Worker threads run \<open>execute_request\<close> on their own stream; the
  loop records what it hands to them (\<open>sv_started\<close>) and the streams it refused (\<open>sv_refused\<close>).
\<close>

section \<open>Definitions\<close>

definition MAX_STREAM_BYTES :: nat where "MAX_STREAM_BYTES = 4 * 1024 * 1024"
definition MAX_ACTIVE_REQUESTS :: nat where "MAX_ACTIVE_REQUESTS = 8"
definition MAX_PENDING_ADMISSIONS :: nat where "MAX_PENDING_ADMISSIONS = 64"
definition REQUEST_FRAME_DEADLINE :: nat where "REQUEST_FRAME_DEADLINE = ADMISSION_TIMEOUT"
definition SHUTDOWN_POLL_BOUND :: nat where "SHUTDOWN_POLL_BOUND = 250 * 10 ^ 6"
definition DRAIN_BOUND :: nat where "DRAIN_BOUND = 30 * 10 ^ 9"

record execution_output =
  eo_exit_code :: nat
  eo_stdout :: ustr
  eo_stderr :: ustr

datatype service_error =
    SvIo io_kind | SvProtocol protocol_error | SvPeer peer_error | SvNotAccepted | SvRejected ustr ustr | SvRequestIdMismatch

definition sv_io :: "(io_kind, 'a) result \<times> stream \<Rightarrow> (service_error, 'a) result \<times> stream" where
  "sv_io m = (case m of (r, s) \<Rightarrow> (map_err SvIo r, s))"

definition sv_protocol :: "(protocol_error, 'a) result \<times> stream \<Rightarrow> (service_error, 'a) result \<times> stream" where
  "sv_protocol m = (case m of (r, s) \<Rightarrow> (map_err SvProtocol r, s))"

subsection \<open>One request\<close>

text \<open>\<open>{:016x}\<close> of a \<open>u64\<close>\<close>

definition hex16 :: "nat \<Rightarrow> ustr" where
  "hex16 n = map (\<lambda>i. hex_digit (n div 16 ^ i mod 16)) (rev [0..<16])"

definition output_limit_completion :: "ustr \<Rightarrow> completed" where
  "output_limit_completion request_id =
     \<lparr> co_request_id = request_id, co_exit_code = 4, co_stdout = [], co_stderr = lit ''yams: output limit'' @ [nl] \<rparr>"

definition bounded_completion :: "ustr \<Rightarrow> execution_output \<Rightarrow> completed" where
  "bounded_completion request_id output =
     (if utf8_len (eo_stdout output) > MAX_STREAM_BYTES \<or> utf8_len (eo_stderr output) > MAX_STREAM_BYTES
      then output_limit_completion request_id
      else \<lparr> co_request_id = request_id, co_exit_code = eo_exit_code output, co_stdout = eo_stdout output,
             co_stderr = eo_stderr output \<rparr>)"

text \<open>A send with a fresh deadline.\<close>

definition send_within :: "json_lib \<Rightarrow> nat \<Rightarrow> stream \<Rightarrow> message \<Rightarrow> (protocol_error, unit) result \<times> stream" where
  "send_within lib timeout s m = (case sys_now s of (now, s) \<Rightarrow> send_message_with_deadline lib s m (now + timeout))"

text \<open>The handler returns its output, or \<open>None\<close> when it panics. \<open>counter\<close> is the value
  \<open>NEXT_REQUEST_ID.fetch_add\<close> returned.\<close>

definition handler_output :: "(request \<Rightarrow> execution_output option) \<Rightarrow> request \<Rightarrow> execution_output" where
  "handler_output handler req =
     (case handler req of
        Some output \<Rightarrow> output
      | None \<Rightarrow> \<lparr> eo_exit_code = 4, eo_stdout = [], eo_stderr = lit ''request execution panicked'' @ [nl] \<rparr>)"

definition execute_request ::
  "json_lib \<Rightarrow> nat \<Rightarrow> nat \<Rightarrow> (request \<Rightarrow> execution_output option) \<Rightarrow> request \<Rightarrow> stream
   \<Rightarrow> (service_error, unit) result \<times> stream" where
  "execute_request lib timeout counter handler req s =
     io_bind (sv_io (set_nonblocking False s)) (\<lambda>_ s.
     io_bind (sv_io (set_write_timeout (Some timeout) s)) (\<lambda>_ s.
     let request_id = hex16 counter in
     io_bind (sv_protocol (send_within lib timeout s (MAccepted \<lparr> ac_request_id = request_id \<rparr>))) (\<lambda>_ s.
       case send_within lib timeout s (MCompleted (bounded_completion request_id (handler_output handler req))) of
         (Inr _, s) \<Rightarrow> (Inr (), s)
       | (Inl (FrameTooLarge declared limit), s) \<Rightarrow>
           sv_protocol (send_within lib timeout s (MCompleted (output_limit_completion request_id)))
       | (Inl e, s) \<Rightarrow> (Inl (SvProtocol e), s))))"

definition rejection :: "char list \<Rightarrow> char list \<Rightarrow> message" where
  "rejection code msg = MRejected \<lparr> rj_code = lit code, rj_message = lit msg \<rparr>"

text \<open>\<open>serve_stream\<close>: one accepted connection, blocking.\<close>

definition serve_stream ::
  "json_lib \<Rightarrow> nat \<Rightarrow> nat \<Rightarrow> (request \<Rightarrow> execution_output option) \<Rightarrow> nat \<Rightarrow> (peer_error, nat) result \<Rightarrow> stream
   \<Rightarrow> (service_error, unit) result \<times> stream" where
  "serve_stream lib timeout counter handler euid peer_uid s =
     io_bind (sv_io (set_nonblocking False s)) (\<lambda>_ s.
       case validate_peer_with euid peer_uid of
         Inl e \<Rightarrow> (Inl (SvPeer e), s)
       | Inr _ \<Rightarrow>
           io_bind (sv_io (set_read_timeout (Some timeout) s)) (\<lambda>_ s.
           io_bind (sv_io (set_write_timeout (Some timeout) s)) (\<lambda>_ s.
             case sys_now s of (now, s) \<Rightarrow>
             case receive_request_with_deadline lib s (now + timeout) of
               (Inr (MRequest req), s) \<Rightarrow> execute_request lib timeout counter handler req s
             | (Inr _, s) \<Rightarrow> (Inl SvNotAccepted, s)
             | (Inl e, s) \<Rightarrow>
                 (Inl (SvProtocol e), snd (send_within lib timeout s (rejection ''invalid_request'' ''request rejected''))))))"

subsection \<open>Admission\<close>

record admission =
  ad_stream :: stream
  ad_reader :: frame_reader
  ad_expires :: nat

datatype admission_poll = Incomplete | Complete request | Failed | Expired

lemma feed_empty: "fst (feed r []) \<noteq> Inr v"
  by (simp add: feed_def)

function admission_loop :: "json_lib \<Rightarrow> frame_reader \<Rightarrow> stream \<Rightarrow> admission_poll \<times> frame_reader \<times> stream" where
  "admission_loop lib r s =
     (case reader_frame r of
        Some body \<Rightarrow>
          ((case decode_request lib body of Inr (MRequest req) \<Rightarrow> Complete req | _ \<Rightarrow> Failed), r, s)
      | None \<Rightarrow>
         (case sys_read (min (want r) 8192) s of
            (Inr bs, s) \<Rightarrow>
              (case feed r bs of
                 (Inr finished, r) \<Rightarrow> admission_loop lib r s
               | (Inl e, r) \<Rightarrow> (Failed, r, s))
          | (Inl k, s) \<Rightarrow>
              if k = Interrupted then admission_loop lib r s
              else if k = WouldBlock then (Incomplete, r, s)
              else (Failed, r, s)))"
  by pat_completeness auto
termination
proof (relation "measure (\<lambda>(_, _, s). read_load s)")
  fix lib r s v s1 bs q r1 finished
  assume rd: "(v, s1) = sys_read (min (want r) 8192) s" "v = Inr bs" and fd: "(q, r1) = feed r bs" "q = Inr finished"
  have "bs \<noteq> []"
  proof
    assume "bs = []"
    with fd feed_empty [of r finished] show False by (metis fst_conv)
  qed
  with sys_read_load [OF rd(1) [symmetric]] rd(2) show "((lib, r1, s1), lib, r, s) \<in> measure (\<lambda>(_, _, s). read_load s)"
    by (simp add: read_load_def)
next
  fix lib r s v s1 k
  assume rd: "(v, s1) = sys_read (min (want r) 8192) s" "v = Inl k"
  with sys_read_load [OF rd(1) [symmetric]] show "((lib, r, s1), lib, r, s) \<in> measure (\<lambda>(_, _, s). read_load s)"
    by (simp add: read_load_def)
qed simp

declare admission_loop.simps [simp del]

definition poll_admission :: "json_lib \<Rightarrow> admission \<Rightarrow> admission_poll \<times> admission" where
  "poll_admission lib a =
     (case admission_loop lib (ad_reader a) (ad_stream a) of
        (outcome, r, s) \<Rightarrow> (outcome, a\<lparr> ad_reader := r, ad_stream := s \<rparr>))"

definition poll_live_admission :: "json_lib \<Rightarrow> admission \<Rightarrow> admission_poll \<times> admission" where
  "poll_live_admission lib a =
     (case sys_now (ad_stream a) of (now, s) \<Rightarrow>
      let a = a\<lparr> ad_stream := s \<rparr> in
      if ad_expires a \<le> now then (Expired, a)
      else (case poll_admission lib a of (outcome, a) \<Rightarrow>
            case sys_now (ad_stream a) of (now, s) \<Rightarrow>
            let a = a\<lparr> ad_stream := s \<rparr> in
            if ad_expires a \<le> now \<and> (case outcome of Incomplete \<Rightarrow> True | Complete _ \<Rightarrow> True | _ \<Rightarrow> False) then (Expired, a)
            else (outcome, a)))"

definition reject_bounded :: "json_lib \<Rightarrow> stream \<Rightarrow> char list \<Rightarrow> char list \<Rightarrow> stream" where
  "reject_bounded lib s code msg =
     (case set_nonblocking False s of
        (Inl _, s) \<Rightarrow> s
      | (Inr _, s) \<Rightarrow> snd (send_within lib REQUEST_FRAME_DEADLINE s (rejection code msg)))"

subsection \<open>The loop's state\<close>

record loop_stats =
  ls_accepted :: nat
  ls_rejected :: nat
  ls_completed :: nat
  ls_workers_stuck :: bool

text \<open>What \<open>accept\<close> answers: a stream with the verdict on its peer, nothing, or a failure.\<close>

datatype accept_event = Accepts stream bool | AcceptBlocks | AcceptFails io_kind

record service_state =
  sv_active :: nat
  sv_pending :: "admission list"
  sv_stats :: loop_stats
  sv_shutdown_at :: "nat option"
  sv_idle_since :: nat
  sv_closed :: bool
  sv_started :: "(stream \<times> request) list"
  sv_refused :: "stream list"
  sv_looks :: "bool list"
  sv_finished :: "nat list"
  sv_accepts :: "accept_event list"
  sv_waits :: "io_kind option list"
  sv_now :: nat
  sv_ticks :: "nat list"

definition clock_now :: "service_state \<Rightarrow> nat \<times> service_state" where
  "clock_now s =
     (case sv_ticks s of
        [] \<Rightarrow> (sv_now s, s)
      | t # ts \<Rightarrow> (sv_now s + t, s\<lparr> sv_now := sv_now s + t, sv_ticks := ts \<rparr>))"

text \<open>A look at the shutdown token. \<open>request\<close> closes it for good; other threads close it between looks.\<close>

definition token_request :: "service_state \<Rightarrow> service_state" where
  "token_request s = s\<lparr> sv_closed := True \<rparr>"

definition token_requested :: "service_state \<Rightarrow> bool \<times> service_state" where
  "token_requested s =
     (case sv_looks s of
        [] \<Rightarrow> (True, s\<lparr> sv_closed := True \<rparr>)
      | b # bs \<Rightarrow> (sv_closed s \<or> b, s\<lparr> sv_closed := sv_closed s \<or> b, sv_looks := bs \<rparr>))"

definition try_reserve_execution :: "service_state \<Rightarrow> bool \<times> service_state" where
  "try_reserve_execution s = (case token_requested s of (requested, s) \<Rightarrow> (\<not> requested, s))"

definition count_accepted :: "service_state \<Rightarrow> service_state" where
  "count_accepted s = s\<lparr> sv_stats := (sv_stats s)\<lparr> ls_accepted := ls_accepted (sv_stats s) + 1 \<rparr> \<rparr>"

definition count_rejected :: "nat \<Rightarrow> service_state \<Rightarrow> service_state" where
  "count_rejected n s = s\<lparr> sv_stats := (sv_stats s)\<lparr> ls_rejected := ls_rejected (sv_stats s) + n \<rparr> \<rparr>"

text \<open>\<open>reject_bounded\<close> of a stream, with its count.\<close>

definition refuse :: "json_lib \<Rightarrow> stream \<Rightarrow> char list \<Rightarrow> char list \<Rightarrow> service_state \<Rightarrow> service_state" where
  "refuse lib st code msg s = count_rejected 1 (s\<lparr> sv_refused := sv_refused s @ [reject_bounded lib st code msg] \<rparr>)"

definition spawn_execution :: "stream \<Rightarrow> request \<Rightarrow> service_state \<Rightarrow> service_state" where
  "spawn_execution st req s = s\<lparr> sv_started := sv_started s @ [(st, req)], sv_active := sv_active s + 1 \<rparr>"

subsection \<open>Stages of one iteration\<close>

text \<open>Draining the completion channel: each worker reports once, so at most the active ones do.\<close>

definition drain_done :: "service_state \<Rightarrow> bool \<times> service_state" where
  "drain_done s =
     (let n = (case sv_finished s of [] \<Rightarrow> sv_active s | k # _ \<Rightarrow> min k (sv_active s))
      in (0 < n, s\<lparr> sv_active := sv_active s - n, sv_finished := tl (sv_finished s),
                    sv_stats := (sv_stats s)\<lparr> ls_completed := ls_completed (sv_stats s) + n \<rparr> \<rparr>))"

datatype stage = Restart | Proceed bool | Abort io_kind

definition remove_at :: "nat \<Rightarrow> 'a list \<Rightarrow> 'a list" where
  "remove_at i xs = take i xs @ drop (Suc i) xs"

text \<open>What happens to a complete request: execution if a slot is free and the token is open, refusal
  otherwise. \<open>False\<close> is the restart after a failed reservation.\<close>

definition admit_request :: "json_lib \<Rightarrow> stream \<Rightarrow> request \<Rightarrow> service_state \<Rightarrow> bool \<times> service_state" where
  "admit_request lib st req s =
     (if sv_active s < MAX_ACTIVE_REQUESTS
      then (case try_reserve_execution s of
              (False, s) \<Rightarrow> (False, count_rejected 1 s)
            | (True, s) \<Rightarrow> (True, spawn_execution st req s))
      else (True, refuse lib st ''busy'' ''service has eight active requests'' s))"

lemma token_requested_pending: "token_requested s = (b, s') \<Longrightarrow> sv_pending s' = sv_pending s"
  by (auto simp: token_requested_def split: list.splits)

lemma refuse_pending [simp]: "sv_pending (refuse lib st code msg s) = sv_pending s"
  by (simp add: refuse_def count_rejected_def)

lemma admit_request_pending: "admit_request lib st req s = (b, s') \<Longrightarrow> sv_pending s' = sv_pending s"
  by (auto simp: admit_request_def try_reserve_execution_def count_rejected_def spawn_execution_def
      split: if_splits prod.splits bool.splits dest: token_requested_pending)

lemma length_remove_at: "i < length xs \<Longrightarrow> length (remove_at i xs) = length xs - 1"
  by (simp add: remove_at_def)

lemma poll_pending_shrinks:
  assumes "i < length (sv_pending s)" "(b, s1) = token_requested (s\<lparr> sv_pending := (sv_pending s)[i := a] \<rparr>)"
  shows "length (sv_pending s1) = length (sv_pending s)"
    and "length (remove_at i (sv_pending s1)) < length (sv_pending s)"
    and "(c, s2) = admit_request lib st req (s1\<lparr> sv_pending := remove_at i (sv_pending s1) \<rparr>)
      \<Longrightarrow> length (sv_pending s2) < length (sv_pending s)"
proof -
  show len: "length (sv_pending s1) = length (sv_pending s)" using token_requested_pending [OF assms(2) [symmetric]] by simp
  then show "length (remove_at i (sv_pending s1)) < length (sv_pending s)" using assms(1) by (simp add: length_remove_at)
  then show "length (sv_pending s2) < length (sv_pending s)"
    if "(c, s2) = admit_request lib st req (s1\<lparr> sv_pending := remove_at i (sv_pending s1) \<rparr>)"
    using admit_request_pending [OF that [symmetric]] by simp
qed

function poll_pending :: "json_lib \<Rightarrow> nat \<Rightarrow> bool \<Rightarrow> service_state \<Rightarrow> stage \<times> service_state" where
  "poll_pending lib index progressed s =
     (if index < length (sv_pending s) then
        (case poll_live_admission lib (sv_pending s ! index) of (outcome, a) \<Rightarrow>
         case token_requested (s\<lparr> sv_pending := (sv_pending s)[index := a] \<rparr>) of
           (True, s) \<Rightarrow> (Restart, s)
         | (False, s) \<Rightarrow>
            (case outcome of
               Incomplete \<Rightarrow> poll_pending lib (index + 1) progressed s
             | Expired \<Rightarrow>
                 poll_pending lib index True
                   (refuse lib (ad_stream a) ''invalid_request'' ''request frame did not arrive before the timeout''
                      (s\<lparr> sv_pending := remove_at index (sv_pending s) \<rparr>))
             | Complete req \<Rightarrow>
                 (case admit_request lib (ad_stream a) req (s\<lparr> sv_pending := remove_at index (sv_pending s) \<rparr>) of
                    (False, s) \<Rightarrow> (Restart, s)
                  | (True, s) \<Rightarrow> poll_pending lib index True s)
             | Failed \<Rightarrow>
                 poll_pending lib index True
                   (refuse lib (ad_stream a) ''invalid_request'' ''request rejected''
                      (s\<lparr> sv_pending := remove_at index (sv_pending s) \<rparr>))))
      else (Proceed progressed, s))"
  by pat_completeness auto
termination
proof (relation "measure (\<lambda>(_, index, _, s). length (sv_pending s) - index)", goal_cases)
  case (2 lib index progressed s x a xa s1)
  then show ?case using poll_pending_shrinks(1) [of index s xa s1 a] by simp
next
  case (3 lib index progressed s x a xa s1 req c s2)
  then have "length (sv_pending s2) < length (sv_pending s)" "index < length (sv_pending s)"
    using poll_pending_shrinks(3) [of index s xa s1 a c s2 lib "ad_stream a" req] by simp_all
  then show ?case by simp
next
  case (4 lib index progressed s x a xa s1)
  then show ?case using poll_pending_shrinks(2) [of index s xa s1 a] by simp
next
  case (5 lib index progressed s x a xa s1)
  then show ?case using poll_pending_shrinks(2) [of index s xa s1 a] by simp
qed simp

declare poll_pending.simps [simp del]

definition accept_stage :: "json_lib \<Rightarrow> bool \<Rightarrow> service_state \<Rightarrow> stage \<times> service_state" where
  "accept_stage lib progressed s =
     (case sv_accepts s of
        [] \<Rightarrow> (Proceed progressed, s)
      | AcceptBlocks # es \<Rightarrow> (Proceed progressed, s\<lparr> sv_accepts := es \<rparr>)
      | AcceptFails k # es \<Rightarrow> (Abort k, s\<lparr> sv_accepts := es \<rparr>)
      | Accepts st peer_valid # es \<Rightarrow>
         (case sys_now st of (accepted_at, st) \<Rightarrow>
          let s = count_accepted (s\<lparr> sv_accepts := es \<rparr>) in
          if \<not> peer_valid then (Proceed progressed, count_rejected 1 s)
          else (case set_nonblocking True st of
                  (Inl k, st) \<Rightarrow> (Abort k, s)
                | (Inr _, st) \<Rightarrow>
                   (case poll_live_admission lib \<lparr> ad_stream = st, ad_reader = frame_reader_new MAX_REQUEST_BYTES,
                           ad_expires = accepted_at + REQUEST_FRAME_DEADLINE \<rparr> of (outcome, a) \<Rightarrow>
                    case token_requested s of
                      (True, s) \<Rightarrow> (Restart, count_rejected 1 s)
                    | (False, s) \<Rightarrow>
                       (case outcome of
                          Complete req \<Rightarrow>
                            (case admit_request lib (ad_stream a) req s of
                               (False, s) \<Rightarrow> (Restart, s)
                             | (True, s) \<Rightarrow> (Proceed True, s))
                        | Failed \<Rightarrow> (Proceed True, refuse lib (ad_stream a) ''invalid_request'' ''request rejected'' s)
                        | Expired \<Rightarrow>
                            (Proceed True, refuse lib (ad_stream a) ''invalid_request''
                               ''request frame did not arrive before the timeout'' s)
                        | Incomplete \<Rightarrow>
                            let s = (if length (sv_pending s) = MAX_PENDING_ADMISSIONS
                                     then refuse lib (ad_stream (hd (sv_pending s))) ''busy'' ''service has too many unfinished requests''
                                            (s\<lparr> sv_pending := tl (sv_pending s) \<rparr>)
                                     else s)
                            in (Proceed True, s\<lparr> sv_pending := sv_pending s @ [a] \<rparr>))))))"

definition idle_stage :: "nat option \<Rightarrow> bool \<Rightarrow> service_state \<Rightarrow> stage \<times> service_state" where
  "idle_stage idle_timeout progressed s =
     (case clock_now s of (now, s) \<Rightarrow>
      if sv_active s = 0 \<and> sv_pending s = [] then
        let s = (if progressed then s\<lparr> sv_idle_since := now \<rparr> else s) in
        if (case idle_timeout of None \<Rightarrow> False | Some timeout \<Rightarrow> timeout \<le> now - sv_idle_since s)
        then (Restart, token_request s)
        else (Proceed progressed, s)
      else (Proceed progressed, s\<lparr> sv_idle_since := now \<rparr>))"

text \<open>The time the loop waits for an event.\<close>

definition service_poll_timeout :: "admission list \<Rightarrow> nat option \<Rightarrow> nat \<Rightarrow> nat \<Rightarrow> nat \<Rightarrow> nat" where
  "service_poll_timeout pending idle_timeout idle_since now idle_now =
     (let wait = fold (\<lambda>a wait. let remaining = ad_expires a - now
                               in Some (case wait of None \<Rightarrow> remaining | Some current \<Rightarrow> min current remaining)) pending None;
          wait = (if pending = [] then
                    (case idle_timeout of
                       None \<Rightarrow> wait
                     | Some idle \<Rightarrow> let remaining = idle - (idle_now - idle_since)
                                    in Some (case wait of None \<Rightarrow> remaining | Some current \<Rightarrow> min current remaining))
                  else wait)
      in min (case wait of None \<Rightarrow> SHUTDOWN_POLL_BOUND | Some w \<Rightarrow> w) SHUTDOWN_POLL_BOUND)"

definition wait_for_service_event :: "service_state \<Rightarrow> (io_kind, unit) result \<times> service_state" where
  "wait_for_service_event s =
     (case sv_waits s of
        [] \<Rightarrow> (Inr (), s)
      | None # ws \<Rightarrow> (Inr (), s\<lparr> sv_waits := ws \<rparr>)
      | Some k # ws \<Rightarrow> (Inl k, s\<lparr> sv_waits := ws \<rparr>))"

text \<open>After shutdown was requested: pending connections are dropped and the workers drained; \<open>True\<close>
  ends the loop.\<close>

definition shutdown_stage :: "service_state \<Rightarrow> bool \<times> service_state" where
  "shutdown_stage s =
     (case clock_now s of (now, s) \<Rightarrow>
      let since = (case sv_shutdown_at s of None \<Rightarrow> now | Some t \<Rightarrow> t);
          s = (count_rejected (length (sv_pending s)) s)\<lparr> sv_shutdown_at := Some since, sv_pending := [] \<rparr>
      in if sv_active s = 0 then (True, s)
         else (case clock_now s of (now, s) \<Rightarrow>
               if DRAIN_BOUND \<le> now - since
               then (True, s\<lparr> sv_stats := (sv_stats s)\<lparr> ls_workers_stuck := True \<rparr> \<rparr>)
               else (False, s)))"

datatype control = Again | Stopped | Aborted io_kind

definition after_accept :: "nat option \<Rightarrow> bool \<Rightarrow> service_state \<Rightarrow> control \<times> service_state" where
  "after_accept idle_timeout progressed s =
     (case idle_stage idle_timeout progressed s of
        (Proceed progressed, s) \<Rightarrow>
          if progressed then (Again, s)
          else (case wait_for_service_event s of (Inl k, s) \<Rightarrow> (Aborted k, s) | (Inr _, s) \<Rightarrow> (Again, s))
      | (_, s) \<Rightarrow> (Again, s))"

definition after_poll :: "json_lib \<Rightarrow> nat option \<Rightarrow> bool \<Rightarrow> service_state \<Rightarrow> control \<times> service_state" where
  "after_poll lib idle_timeout progressed s =
     (case token_requested s of
        (True, s) \<Rightarrow> (Again, s)
      | (False, s) \<Rightarrow>
         (case accept_stage lib progressed s of
            (Abort k, s) \<Rightarrow> (Aborted k, s)
          | (Restart, s) \<Rightarrow> (Again, s)
          | (Proceed progressed, s) \<Rightarrow> after_accept idle_timeout progressed s))"

definition iteration :: "json_lib \<Rightarrow> nat option \<Rightarrow> service_state \<Rightarrow> control \<times> service_state" where
  "iteration lib idle_timeout s =
     (case drain_done s of (progressed, s) \<Rightarrow>
      case token_requested s of
        (True, s) \<Rightarrow> (case shutdown_stage s of (stop, s) \<Rightarrow> (if stop then Stopped else Again, s))
      | (False, s) \<Rightarrow>
         (case poll_pending lib 0 progressed s of
            (Proceed progressed, s) \<Rightarrow> after_poll lib idle_timeout progressed s
          | (_, s) \<Rightarrow> (Again, s)))"

subsection \<open>The scripts shrink\<close>

definition script_load :: "service_state \<Rightarrow> nat" where
  "script_load s = length (sv_looks s) + length (sv_finished s)"

lemma token_requested_load:
  "token_requested s = (b, s') \<Longrightarrow> script_load s' \<le> script_load s \<and> sv_finished s' = sv_finished s \<and> sv_active s' = sv_active s
     \<and> (\<not> b \<longrightarrow> script_load s' < script_load s)"
  by (auto simp: token_requested_def script_load_def split: list.splits)

lemma clock_now_load: "clock_now s = (t, s') \<Longrightarrow> script_load s' = script_load s \<and> sv_active s' = sv_active s"
  by (auto simp: clock_now_def script_load_def split: list.splits)

lemma refuse_load [simp]: "script_load (refuse lib st code msg s) = script_load s"
  by (simp add: refuse_def count_rejected_def script_load_def)

lemma field_load [simp]:
  "script_load (s\<lparr> sv_pending := p \<rparr>) = script_load s" "script_load (s\<lparr> sv_accepts := e \<rparr>) = script_load s"
  "script_load (s\<lparr> sv_waits := w \<rparr>) = script_load s" "script_load (s\<lparr> sv_idle_since := i \<rparr>) = script_load s"
  "script_load (s\<lparr> sv_stats := x \<rparr>) = script_load s" "script_load (s\<lparr> sv_shutdown_at := y \<rparr>) = script_load s"
  "script_load (count_rejected n s) = script_load s" "script_load (count_accepted s) = script_load s"
  "script_load (spawn_execution st req s) = script_load s" "script_load (token_request s) = script_load s"
  by (simp_all add: script_load_def count_rejected_def count_accepted_def spawn_execution_def token_request_def)

lemma admit_request_load: "admit_request lib st req s = (b, s') \<Longrightarrow> script_load s' \<le> script_load s"
  by (auto simp: admit_request_def try_reserve_execution_def split: if_splits prod.splits bool.splits
      dest!: token_requested_load)

text \<open>What the three moves of the polling loop keep, the loop keeps.\<close>

lemma poll_pending_invariant:
  assumes look: "\<And>s i a outcome b s1. P s \<Longrightarrow> i < length (sv_pending s) \<Longrightarrow> poll_live_admission lib (sv_pending s ! i) = (outcome, a)
      \<Longrightarrow> token_requested (s\<lparr> sv_pending := (sv_pending s)[i := a] \<rparr>) = (b, s1) \<Longrightarrow> P s1"
    and drops: "\<And>s i st code msg. P s \<Longrightarrow> i < length (sv_pending s)
      \<Longrightarrow> P (refuse lib st code msg (s\<lparr> sv_pending := remove_at i (sv_pending s) \<rparr>))"
    and admits: "\<And>s i st req b s1. P s \<Longrightarrow> i < length (sv_pending s)
      \<Longrightarrow> admit_request lib st req (s\<lparr> sv_pending := remove_at i (sv_pending s) \<rparr>) = (b, s1) \<Longrightarrow> P s1"
  shows "poll_pending lib i progressed s = (c, s') \<Longrightarrow> P s \<Longrightarrow> P s'"
proof (induction "length (sv_pending s) - i" arbitrary: i progressed s rule: less_induct)
  case less
  note unfolded = less.prems(1) [unfolded poll_pending.simps [of lib i progressed s]]
  show ?case
  proof (cases "i < length (sv_pending s)")
    case False
    then show ?thesis using unfolded less.prems(2) by simp
  next
    case True
    obtain outcome a where po: "poll_live_admission lib (sv_pending s ! i) = (outcome, a)" by fastforce
    obtain b s1 where tk: "token_requested (s\<lparr> sv_pending := (sv_pending s)[i := a] \<rparr>) = (b, s1)" by fastforce
    let ?s2 = "s1\<lparr> sv_pending := remove_at i (sv_pending s1) \<rparr>"
    have P1: "P s1" by (rule look [OF less.prems(2) True po tk])
    note len = poll_pending_shrinks [OF True tk [symmetric]]
    have i1: "i < length (sv_pending s1)" using True len(1) by simp
    consider "s' = s1" | "poll_pending lib (i + 1) progressed s1 = (c, s')"
      | code msg where "poll_pending lib i True (refuse lib (ad_stream a) code msg ?s2) = (c, s')"
      | req ok s3 where "admit_request lib (ad_stream a) req ?s2 = (ok, s3)"
          "s' = s3 \<or> poll_pending lib i True s3 = (c, s')"
      using unfolded True po tk by (auto split: bool.splits admission_poll.splits prod.splits)
    then show ?thesis
    proof cases
      case 1
      with P1 show ?thesis by simp
    next
      case 2
      show ?thesis by (rule less.hyps [OF _ 2 P1]) (use True len(1) in simp)
    next
      case 3
      show ?thesis by (rule less.hyps [OF _ 3 drops [OF P1 i1]]) (use True len(2) in simp)
    next
      case 4
      have "P s3" by (rule admits [OF P1 i1 4(1)])
      with 4 less.hyps [of s3 i] len(3) [OF 4(1) [symmetric]] True show ?thesis by fastforce
    qed
  qed
qed

lemma poll_pending_load: "poll_pending lib i progressed s = (c, s') \<Longrightarrow> script_load s' \<le> script_load s"
  by (rule poll_pending_invariant [where P = "\<lambda>x. script_load x \<le> script_load s"])
     (auto dest!: token_requested_load admit_request_load intro: le_trans)

lemma accept_stage_load: "accept_stage lib progressed s = (c, s') \<Longrightarrow> script_load s' \<le> script_load s"
  by (auto simp: accept_stage_def Let_def split: list.splits accept_event.splits prod.splits if_splits sum.splits bool.splits
      admission_poll.splits dest!: token_requested_load admit_request_load)

lemma after_accept_load: "after_accept idle_timeout progressed s = (c, s') \<Longrightarrow> script_load s' \<le> script_load s"
  by (auto simp: after_accept_def idle_stage_def wait_for_service_event_def Let_def
      split: prod.splits stage.splits if_splits list.splits option.splits dest!: clock_now_load)

lemma after_poll_load: "after_poll lib idle_timeout progressed s = (c, s') \<Longrightarrow> script_load s' \<le> script_load s"
  by (auto simp: after_poll_def split: prod.splits bool.splits stage.splits
      dest!: token_requested_load accept_stage_load after_accept_load)

lemma shutdown_stage_again:
  "shutdown_stage s = (False, s') \<Longrightarrow> script_load s' = script_load s \<and> sv_active s \<noteq> 0"
  by (auto simp: shutdown_stage_def Let_def count_rejected_def split: prod.splits if_splits dest!: clock_now_load)

lemma iteration_load: "iteration lib idle_timeout s = (Again, s') \<Longrightarrow> script_load s' < script_load s"
proof -
  assume it: "iteration lib idle_timeout s = (Again, s')"
  obtain progressed s1 where dr: "drain_done s = (progressed, s1)" by fastforce
  obtain b s2 where tk: "token_requested s1 = (b, s2)" by fastforce
  have fin: "sv_finished s1 = tl (sv_finished s)" "sv_looks s1 = sv_looks s" "sv_finished s = [] \<Longrightarrow> sv_active s1 = 0"
    using dr by (auto simp: drain_done_def Let_def)
  show ?thesis
  proof (cases b)
    case True
    then have sh: "shutdown_stage s2 = (False, s')"
      using it dr tk by (auto simp: iteration_def split: prod.splits if_splits)
    from shutdown_stage_again [OF this] have "script_load s' = script_load s2" "sv_active s2 \<noteq> 0" by auto
    moreover have "sv_finished s \<noteq> []" using calculation(2) token_requested_load [OF tk] fin(3) by auto
    ultimately show ?thesis using token_requested_load [OF tk] fin(1,2) by (cases "sv_finished s") (auto simp: script_load_def)
  next
    case False
    then have "script_load s2 < script_load s"
      using token_requested_load [OF tk] fin(1,2) by (auto simp: script_load_def)
    moreover have "script_load s' \<le> script_load s2"
      using it dr tk False by (auto simp: iteration_def split: prod.splits stage.splits
        dest!: poll_pending_load after_poll_load)
    ultimately show ?thesis by simp
  qed
qed

function serve_loop :: "json_lib \<Rightarrow> nat option \<Rightarrow> service_state \<Rightarrow> (io_kind, unit) result \<times> service_state" where
  "serve_loop lib idle_timeout s =
     (case iteration lib idle_timeout s of
        (Again, s) \<Rightarrow> serve_loop lib idle_timeout s
      | (Stopped, s) \<Rightarrow> (Inr (), s)
      | (Aborted k, s) \<Rightarrow> (Inl k, s))"
  by pat_completeness auto
termination
  by (relation "measure (\<lambda>(_, _, s). script_load s)") (auto dest: iteration_load [OF sym])

declare serve_loop.simps [simp del]

text \<open>\<open>setup\<close> is a failure of the listener, the pipe or its flags before the loop; \<open>scripts\<close> holds the
  behaviour of the environment, its other fields are what the code initializes.\<close>

definition serve_start :: "service_state \<Rightarrow> service_state" where
  "serve_start scripts =
     (case clock_now (scripts\<lparr> sv_active := 0, sv_pending := [], sv_shutdown_at := None, sv_started := [], sv_refused := [],
        sv_stats := \<lparr> ls_accepted = 0, ls_rejected = 0, ls_completed = 0, ls_workers_stuck = False \<rparr> \<rparr>) of
        (now, s) \<Rightarrow> s\<lparr> sv_idle_since := now \<rparr>)"

definition serve_until ::
  "json_lib \<Rightarrow> nat option \<Rightarrow> io_kind option \<Rightarrow> service_state \<Rightarrow> (service_error, loop_stats) result \<times> service_state" where
  "serve_until lib idle_timeout setup scripts =
     (case setup of
        Some k \<Rightarrow> (Inl (SvIo k), scripts)
      | None \<Rightarrow>
         (case serve_loop lib idle_timeout (serve_start scripts) of
            (Inl k, s) \<Rightarrow> (Inl (SvIo k), s)
          | (Inr _, s) \<Rightarrow> (Inr (sv_stats s), s)))"

section \<open>Lemmas\<close>

subsection \<open>Accounting\<close>

definition admission_ok :: "admission \<Rightarrow> bool" where
  "admission_ok a \<longleftrightarrow> reader_wf (ad_reader a) \<and> fr_limit (ad_reader a) = MAX_REQUEST_BYTES"

text \<open>The books of the loop with \<open>d\<close> connections in hand: every accepted connection is rejected,
  completed, running, pending or in hand; the bounds hold; and each execution was started once.\<close>

definition balanced :: "nat \<Rightarrow> service_state \<Rightarrow> bool" where
  "balanced d s \<longleftrightarrow>
     ls_accepted (sv_stats s) = ls_rejected (sv_stats s) + ls_completed (sv_stats s) + sv_active s + length (sv_pending s) + d
     \<and> sv_active s \<le> MAX_ACTIVE_REQUESTS \<and> length (sv_pending s) \<le> MAX_PENDING_ADMISSIONS
     \<and> length (sv_started s) = ls_completed (sv_stats s) + sv_active s \<and> (\<forall>a \<in> set (sv_pending s). admission_ok a)"

lemma balanced_token: "token_requested s = (b, s') \<Longrightarrow> balanced d s' = balanced d s"
  by (auto simp: token_requested_def balanced_def split: list.splits)

lemma balanced_clock: "clock_now s = (t, s') \<Longrightarrow> balanced d s' = balanced d s"
  by (auto simp: clock_now_def balanced_def split: list.splits)

lemma balanced_fields [simp]:
  "balanced d (s\<lparr> sv_accepts := e \<rparr>) = balanced d s" "balanced d (s\<lparr> sv_waits := w \<rparr>) = balanced d s"
  "balanced d (s\<lparr> sv_idle_since := i \<rparr>) = balanced d s" "balanced d (s\<lparr> sv_shutdown_at := y \<rparr>) = balanced d s"
  "balanced d (token_request s) = balanced d s"
  by (simp_all add: balanced_def token_request_def)

lemma balanced_accept: "balanced d s \<Longrightarrow> balanced (Suc d) (count_accepted s)"
  by (simp add: balanced_def count_accepted_def)

lemma balanced_reject: "balanced (Suc d) s \<Longrightarrow> balanced d (count_rejected 1 s)"
  by (simp add: balanced_def count_rejected_def)

lemma balanced_refuse: "balanced (Suc d) s \<Longrightarrow> balanced d (refuse lib st code msg s)"
  by (simp add: balanced_def refuse_def count_rejected_def)

lemma balanced_admit:
  assumes "balanced (Suc d) s" "admit_request lib st req s = (b, s')"
  shows "balanced d s'"
proof (cases "sv_active s < MAX_ACTIVE_REQUESTS")
  case True
  obtain c s1 where tk: "token_requested s = (c, s1)" by fastforce
  have "balanced (Suc d) s1" "sv_active s1 = sv_active s"
    using assms(1) balanced_token [OF tk] token_requested_load [OF tk] by auto
  then show ?thesis
    using assms(2) True tk
    by (cases c) (auto simp: admit_request_def try_reserve_execution_def balanced_def spawn_execution_def count_rejected_def)
qed (use assms balanced_refuse in \<open>auto simp: admit_request_def\<close>)

lemma set_remove_at: "set (remove_at i xs) \<subseteq> set xs"
  by (auto simp: remove_at_def dest: in_set_takeD in_set_dropD)

lemma balanced_remove: "balanced d s \<Longrightarrow> i < length (sv_pending s) \<Longrightarrow> balanced (Suc d) (s\<lparr> sv_pending := remove_at i (sv_pending s) \<rparr>)"
  using set_remove_at [of i "sv_pending s"] by (auto simp: balanced_def length_remove_at)

lemma balanced_push:
  "balanced (Suc d) s \<Longrightarrow> length (sv_pending s) < MAX_PENDING_ADMISSIONS \<Longrightarrow> admission_ok a
   \<Longrightarrow> balanced d (s\<lparr> sv_pending := sv_pending s @ [a] \<rparr>)"
  by (auto simp: balanced_def)

lemma balanced_update: "balanced d s \<Longrightarrow> admission_ok a \<Longrightarrow> balanced d (s\<lparr> sv_pending := (sv_pending s)[i := a] \<rparr>)"
  by (auto simp: balanced_def dest: set_update_subset_insert [THEN subsetD])

lemma balanced_drain: "balanced d s \<Longrightarrow> drain_done s = (b, s') \<Longrightarrow> balanced d s'"
  by (auto simp: drain_done_def balanced_def Let_def split: list.splits)

lemma balanced_shutdown: "balanced 0 s \<Longrightarrow> shutdown_stage s = (b, s') \<Longrightarrow> balanced 0 s'"
proof -
  assume bal: "balanced 0 s" and sh: "shutdown_stage s = (b, s')"
  obtain now s1 where n1: "clock_now s = (now, s1)" by fastforce
  have b1: "balanced 0 s1" using bal balanced_clock [OF n1] by simp
  define s2 where "s2 = (count_rejected (length (sv_pending s1)) s1)\<lparr> sv_shutdown_at :=
      Some (case sv_shutdown_at s1 of None \<Rightarrow> now | Some t \<Rightarrow> t), sv_pending := [] \<rparr>"
  have b2: "balanced 0 s2" using b1 by (auto simp: balanced_def s2_def count_rejected_def)
  obtain now2 s3 where n2: "clock_now s2 = (now2, s3)" by fastforce
  have "balanced 0 s3" using b2 balanced_clock [OF n2] by simp
  then show ?thesis
    using sh n1 n2 b2 by (auto simp: shutdown_stage_def Let_def s2_def [symmetric] balanced_def split: if_splits)
qed

lemma admission_loop_ok:
  assumes "admission_loop lib r s = (outcome, r', s')" "reader_wf r"
  shows "reader_wf r' \<and> fr_limit r' = fr_limit r \<and> st_now s' = st_now s
    \<and> (\<forall>req. outcome = Complete req \<longrightarrow> (\<exists>bs body. payload (st_reads s) = bs @ payload (st_reads s')
         \<and> parse_frame (fr_limit r) (reader_bytes r @ bs) = Inr (body, []) \<and> decode_request lib body = Inr (MRequest req)))"
  using assms
proof (induction "read_load s" arbitrary: r s rule: less_induct)
  case less
  let ?n = "min (want r) 8192"
  obtain v s1 where rd: "sys_read ?n s = (v, s1)" by fastforce
  have ev: "read_events ?n (st_reads s) = (v, st_reads s1)" "st_now s1 = st_now s"
    using rd by (auto simp: sys_read_def split: prod.splits)
  have load: "read_load s1 < read_load s" if "v \<noteq> Inr []" using sys_read_load [OF rd that] .
  note unfolded = less.prems(1) [unfolded admission_loop.simps [of lib r s]]
  show ?case
  proof (cases "reader_frame r")
    case (Some body)
    then have "r' = r" "s' = s" "\<And>req. outcome = Complete req \<Longrightarrow> decode_request lib body = Inr (MRequest req)"
      using unfolded by (auto split: sum.splits message.splits)
    then show ?thesis using less.prems(2) reader_frame_parse [OF less.prems(2) Some] by auto
  next
    case None
    consider (failed) k where "outcome = Failed \<or> outcome = Incomplete" "v = Inl k" "r' = r" "s' = s1"
      | (refused) bs e where "outcome = Failed" "v = Inr bs" "feed r bs = (Inl e, r')" "s' = s1"
      | (again) k where "v = Inl k" "admission_loop lib r s1 = (outcome, r', s')"
      | (fed) bs finished r1 where "v = Inr bs" "feed r bs = (Inr finished, r1)" "admission_loop lib r1 s1 = (outcome, r', s')"
      using unfolded None rd by (auto split: sum.splits prod.splits if_splits)
    then show ?thesis
    proof cases
      case failed
      then show ?thesis using less.prems(2) ev(2) by auto
    next
      case refused
      then show ?thesis using feed_refines_accumulate [OF less.prems(2) refused(3)] less.prems(2) ev(2) by auto
    next
      case again
      have "payload (st_reads s1) = payload (st_reads s)" using read_events_Inl_payload ev(1) again(1) by blast
      with less.hyps [OF load again(2) less.prems(2)] again(1) ev(2) show ?thesis by simp
    next
      case fed
      have r1: "reader_wf r1" "fr_limit r1 = fr_limit r" "reader_bytes r1 = reader_bytes r @ bs"
        using feed_refines_accumulate [OF less.prems(2) fed(2)] feed_bytes [OF less.prems(2) fed(2)] by auto
      have "bs \<noteq> []" using fed(2) feed_empty [of r finished] by (metis fst_conv)
      moreover have "payload (st_reads s) = bs @ payload (st_reads s1)" using read_events_Inr_payload ev(1) fed(1) by blast
      ultimately show ?thesis
        using less.hyps [OF load fed(3) r1(1)] fed(1) r1 ev(2) by fastforce
    qed
  qed
qed

lemma poll_live_admission_ok:
  assumes ok: "admission_ok a" and po: "poll_live_admission lib a = (outcome, a')"
  shows "admission_ok a' \<and> ad_expires a' = ad_expires a
    \<and> (\<forall>req. outcome = Complete req \<longrightarrow> st_now (ad_stream a') < ad_expires a
         \<and> (\<exists>bs body. payload (st_reads (ad_stream a)) = bs @ payload (st_reads (ad_stream a'))
              \<and> parse_frame MAX_REQUEST_BYTES (reader_bytes (ad_reader a) @ bs) = Inr (body, [])
              \<and> decode_request lib body = Inr (MRequest req)))"
proof -
  obtain now s1 where n1: "sys_now (ad_stream a) = (now, s1)" by fastforce
  obtain o2 r2 s2 where lp: "admission_loop lib (ad_reader a) s1 = (o2, r2, s2)" by (metis prod_cases3)
  obtain now3 s3 where n3: "sys_now s2 = (now3, s3)" by fastforce
  have wf: "reader_wf (ad_reader a)" "fr_limit (ad_reader a) = MAX_REQUEST_BYTES" using ok by (auto simp: admission_ok_def)
  note l = admission_loop_ok [OF lp wf(1)]
  show ?thesis
    using po n1 lp n3 l wf sys_now_fields(1) [OF n1] sys_now_fields(1) [OF n3] sys_now_mono [OF n3]
    by (auto simp: poll_live_admission_def poll_admission_def admission_ok_def Let_def split: if_splits)
qed

lemma balanced_poll: "poll_pending lib i progressed s = (c, s') \<Longrightarrow> balanced 0 s \<Longrightarrow> balanced 0 s'"
proof (rule poll_pending_invariant [where P = "balanced 0"])
  fix s i a outcome b s1
  assume bal: "balanced 0 s" and i: "i < length (sv_pending s)" and po: "poll_live_admission lib (sv_pending s ! i) = (outcome, a)"
    and tk: "token_requested (s\<lparr> sv_pending := (sv_pending s)[i := a] \<rparr>) = (b, s1)"
  have "admission_ok (sv_pending s ! i)" using bal i by (auto simp: balanced_def)
  with poll_live_admission_ok [OF this po] show "balanced 0 s1" using balanced_token [OF tk] balanced_update [OF bal] by simp
qed (use balanced_remove balanced_refuse balanced_admit in \<open>blast+\<close>)

lemma admission_new_ok: "admission_ok \<lparr> ad_stream = st, ad_reader = frame_reader_new MAX_REQUEST_BYTES, ad_expires = t \<rparr>"
  by (simp add: admission_ok_def reader_new_wf)

lemma balanced_incomplete:
  assumes "balanced (Suc 0) s" "admission_ok a"
  shows "balanced 0 (let s = (if length (sv_pending s) = MAX_PENDING_ADMISSIONS
       then refuse lib st code msg (s\<lparr> sv_pending := tl (sv_pending s) \<rparr>) else s) in s\<lparr> sv_pending := sv_pending s @ [a] \<rparr>)"
proof (cases "length (sv_pending s) = MAX_PENDING_ADMISSIONS")
  case True
  then have i: "0 < length (sv_pending s)" by (simp add: MAX_PENDING_ADMISSIONS_def)
  have tl: "remove_at 0 (sv_pending s) = tl (sv_pending s)" by (simp add: remove_at_def drop_Suc)
  have "balanced (Suc 0) (refuse lib st code msg (s\<lparr> sv_pending := tl (sv_pending s) \<rparr>))"
    using balanced_refuse [OF balanced_remove [OF assms(1) i]] tl by simp
  from balanced_push [OF this _ assms(2)] True i show ?thesis by simp
next
  case False
  then have "length (sv_pending s) < MAX_PENDING_ADMISSIONS" using assms(1) by (auto simp: balanced_def)
  from balanced_push [OF assms(1) this assms(2)] False show ?thesis by simp
qed

lemma balanced_accept_stage:
  assumes st: "accept_stage lib progressed s = (c, s')" and bal: "balanced 0 s" and go: "\<And>k. c \<noteq> Abort k"
  shows "balanced 0 s'"
proof (cases "\<exists>stream valid es. sv_accepts s = Accepts stream valid # es")
  case False
  then show ?thesis using st bal go by (auto simp: accept_stage_def split: list.splits accept_event.splits)
next
  case True
  then obtain stream valid es where ac: "sv_accepts s = Accepts stream valid # es" by blast
  obtain t st1 where n1: "sys_now stream = (t, st1)" by fastforce
  obtain q st2 where nb: "set_nonblocking True st1 = (q, st2)" by fastforce
  let ?new = "\<lparr> ad_stream = st2, ad_reader = frame_reader_new MAX_REQUEST_BYTES, ad_expires = t + REQUEST_FRAME_DEADLINE \<rparr>"
  obtain outcome a where po: "poll_live_admission lib ?new = (outcome, a)" by fastforce
  define s1 where "s1 = count_accepted (s\<lparr> sv_accepts := es \<rparr>)"
  obtain b s2 where tk: "token_requested s1 = (b, s2)" by fastforce
  have b1: "balanced (Suc 0) s1" using balanced_accept [of 0 "s\<lparr> sv_accepts := es \<rparr>"] bal by (simp add: s1_def)
  then have b2: "balanced (Suc 0) s2" using balanced_token [OF tk] by simp
  have ok: "admission_ok a" using poll_live_admission_ok [OF admission_new_ok po] by simp
  note unfolded = st [unfolded accept_stage_def ac list.case accept_event.case n1 prod.case Let_def s1_def [symmetric]]
  show ?thesis
  proof (cases "valid \<and> \<not> b \<and> (\<exists>u. q = Inr u)")
    case False
    then show ?thesis
      using unfolded nb po tk go balanced_reject [OF b1] balanced_reject [OF b2]
      by (cases q) (auto split: if_splits)
  next
    case True
    then have r: "(c, s') = (case outcome of
         Complete req \<Rightarrow> (case admit_request lib (ad_stream a) req s2 of (False, s) \<Rightarrow> (Restart, s) | (True, s) \<Rightarrow> (Proceed True, s))
       | Failed \<Rightarrow> (Proceed True, refuse lib (ad_stream a) ''invalid_request'' ''request rejected'' s2)
       | Expired \<Rightarrow> (Proceed True, refuse lib (ad_stream a) ''invalid_request''
           ''request frame did not arrive before the timeout'' s2)
       | Incomplete \<Rightarrow> (Proceed True, let s = (if length (sv_pending s2) = MAX_PENDING_ADMISSIONS
             then refuse lib (ad_stream (hd (sv_pending s2))) ''busy'' ''service has too many unfinished requests''
                    (s2\<lparr> sv_pending := tl (sv_pending s2) \<rparr>) else s2) in s\<lparr> sv_pending := sv_pending s @ [a] \<rparr>))"
      using unfolded nb po tk by (auto simp: Let_def split: admission_poll.splits)
    show ?thesis
    proof (cases outcome)
      case (Complete req)
      obtain d s3 where ad: "admit_request lib (ad_stream a) req s2 = (d, s3)" by fastforce
      with r Complete have "s' = s3" by (cases d) auto
      with balanced_admit [OF b2 ad] show ?thesis by simp
    qed (use r balanced_refuse [OF b2] balanced_incomplete [OF b2 ok] in auto)
  qed
qed

lemma balanced_after_accept: "after_accept idle_timeout progressed s = (c, s') \<Longrightarrow> balanced 0 s \<Longrightarrow> balanced 0 s'"
  by (auto simp: after_accept_def idle_stage_def wait_for_service_event_def Let_def
      split: prod.splits stage.splits if_splits list.splits option.splits dest!: balanced_clock [where d = 0])

lemma balanced_after_poll:
  "after_poll lib idle_timeout progressed s = (c, s') \<Longrightarrow> balanced 0 s \<Longrightarrow> \<forall>k. c \<noteq> Aborted k \<Longrightarrow> balanced 0 s'"
  by (auto simp: after_poll_def split: prod.splits bool.splits stage.splits
      dest!: balanced_token [where d = 0] balanced_accept_stage balanced_after_accept)

lemma balanced_iteration:
  assumes "iteration lib idle_timeout s = (c, s')" "balanced 0 s" "\<forall>k. c \<noteq> Aborted k"
  shows "balanced 0 s'"
proof -
  obtain progressed s1 where dr: "drain_done s = (progressed, s1)" by fastforce
  obtain b s2 where tk: "token_requested s1 = (b, s2)" by fastforce
  have b2: "balanced 0 s2" using balanced_token [OF tk] balanced_drain [OF assms(2) dr] by simp
  obtain p s3 where po: "poll_pending lib 0 progressed s2 = (p, s3)" by fastforce
  obtain stop s4 where sh: "shutdown_stage s2 = (stop, s4)" by fastforce
  show ?thesis
  proof (cases b)
    case True
    then show ?thesis using assms(1) dr tk sh balanced_shutdown [OF b2 sh] by (simp add: iteration_def)
  next
    case False
    then have "s' = s3 \<or> (\<exists>progressed. after_poll lib idle_timeout progressed s3 = (c, s'))"
      using assms(1) dr tk po by (auto simp: iteration_def split: stage.splits)
    then show ?thesis using balanced_poll [OF po b2] balanced_after_poll assms(3) by blast
  qed
qed

text \<open>How the loop ends: with nothing pending, and with nothing running unless workers were stuck.\<close>

lemma iteration_stops:
  assumes "iteration lib idle_timeout s = (Stopped, s')"
  shows "sv_pending s' = [] \<and> sv_closed s' \<and> (sv_active s' = 0 \<or> ls_workers_stuck (sv_stats s'))"
proof -
  obtain progressed s1 where dr: "drain_done s = (progressed, s1)" by fastforce
  obtain b s2 where tk: "token_requested s1 = (b, s2)" by fastforce
  have not_poll: "after_poll lib idle_timeout p x \<noteq> (Stopped, s')" for p x
    by (auto simp: after_poll_def after_accept_def split: prod.splits bool.splits stage.splits sum.splits if_splits)
  have b: "b" using assms dr tk not_poll by (auto simp: iteration_def split: prod.splits stage.splits bool.splits)
  then have sh: "shutdown_stage s2 = (True, s')"
    using assms dr tk by (auto simp: iteration_def split: prod.splits if_splits)
  have "sv_closed s2" using tk b by (auto simp: token_requested_def split: list.splits)
  with sh show ?thesis
    by (auto simp: shutdown_stage_def Let_def count_rejected_def clock_now_def split: prod.splits if_splits list.splits)
qed

lemma serve_loop_balanced:
  assumes "serve_loop lib idle_timeout s = (Inr u, s')" "balanced 0 s"
  shows "balanced 0 s' \<and> sv_pending s' = [] \<and> sv_closed s' \<and> (sv_active s' = 0 \<or> ls_workers_stuck (sv_stats s'))"
  using assms
proof (induction lib idle_timeout s rule: serve_loop.induct)
  case (1 lib idle_timeout s)
  obtain c s1 where it: "iteration lib idle_timeout s = (c, s1)" by fastforce
  note unfolded = "1.prems"(1) [unfolded serve_loop.simps [of lib idle_timeout s] it prod.case]
  show ?case
  proof (cases c)
    case Again
    then have "balanced 0 s1" using balanced_iteration [OF it "1.prems"(2)] by simp
    with "1.IH" [OF it [symmetric] Again] unfolded Again show ?thesis by simp
  next
    case Stopped
    then have "balanced 0 s1" using balanced_iteration [OF it "1.prems"(2)] by simp
    with iteration_stops [of lib idle_timeout s s1] it unfolded Stopped show ?thesis by simp
  qed (use unfolded in simp)
qed

subsection \<open>Shutdown\<close>

lemma token_closes: "token_requested s = (b, s') \<Longrightarrow> sv_closed s' = b \<and> (sv_closed s \<longrightarrow> b) \<and> sv_started s' = sv_started s"
  by (auto simp: token_requested_def split: list.splits)

lemma admit_request_closed:
  "admit_request lib st req s = (b, s') \<Longrightarrow> sv_started s' \<noteq> sv_started s \<Longrightarrow> \<not> sv_closed s'"
  by (auto simp: admit_request_def try_reserve_execution_def refuse_def count_rejected_def spawn_execution_def
      split: if_splits prod.splits bool.splits dest!: token_closes)

lemma shutdown_stage_keeps: "shutdown_stage s = (b, s') \<Longrightarrow> sv_started s' = sv_started s \<and> sv_closed s' = sv_closed s"
  by (auto simp: shutdown_stage_def clock_now_def count_rejected_def Let_def split: prod.splits if_splits list.splits)

lemma iteration_closed:
  assumes "iteration lib idle_timeout s = (c, s')" "sv_closed s"
  shows "sv_started s' = sv_started s \<and> sv_closed s'"
proof -
  obtain progressed s1 where dr: "drain_done s = (progressed, s1)" by fastforce
  obtain b s2 where tk: "token_requested s1 = (b, s2)" by fastforce
  have s1: "sv_started s1 = sv_started s" "sv_closed s1" using dr assms(2) by (auto simp: drain_done_def Let_def)
  then have b: "b" "sv_started s2 = sv_started s" "sv_closed s2" using token_closes [OF tk] by auto
  obtain stop s3 where sh: "shutdown_stage s2 = (stop, s3)" by fastforce
  with assms(1) dr tk b(1) have "s' = s3" by (simp add: iteration_def)
  with shutdown_stage_keeps [OF sh] b show ?thesis by simp
qed

lemma serve_loop_closed:
  "serve_loop lib idle_timeout s = (r, s') \<Longrightarrow> sv_closed s \<Longrightarrow> sv_started s' = sv_started s"
proof (induction lib idle_timeout s rule: serve_loop.induct)
  case (1 lib idle_timeout s)
  obtain c s1 where it: "iteration lib idle_timeout s = (c, s1)" by fastforce
  note k = iteration_closed [OF it "1.prems"(2)]
  note unfolded = "1.prems"(1) [unfolded serve_loop.simps [of lib idle_timeout s] it prod.case]
  show ?case using unfolded k "1.IH" [OF it [symmetric]] by (cases c) auto
qed

subsection \<open>One request\<close>

lemma write_all_deadline_errors: "fst (write_all_with_deadline input written deadline original b s) \<noteq> Inl (FrameTooLarge d l)"
proof (induction input written deadline original b s rule: write_all_with_deadline.induct)
  case (1 input written deadline original b s)
  obtain now s1 where n1: "sys_now s = (now, s1)" by fastforce
  let ?t = "timeout_for_deadline (deadline - now) original"
  obtain q1 b1 s2 where bo: "borrow_timeout set_write_timeout ?t b s1 = (q1, b1, s2)" by (metis prod_cases3)
  obtain q2 s3 where wr: "sys_write (drop written input) s2 = (q2, s3)" by fastforce
  obtain now2 s4 where n2: "sys_now s3 = (now2, s4)" by fastforce
  have q1: "q1 \<noteq> Inl (FrameTooLarge d l)"
    using bo by (auto simp: borrow_timeout_def split: if_splits prod.splits sum.splits)
  note unfold = write_all_with_deadline.simps [of input written deadline original b s] n1 bo prod.case Let_def
  show ?case
  proof (cases "written < length input \<and> \<not> deadline \<le> now \<and> (\<exists>u. q1 = Inr u)")
    case False
    then show ?thesis unfolding unfold using q1 by (cases q1) simp_all
  next
    case True
    then obtain u where u: "q1 = Inr u" by blast
    note ih = "1.IH" [OF _ n1 [symmetric] _ refl bo [symmetric] u refl wr [symmetric]]
    show ?thesis
    proof (cases q2)
      case (Inl k)
      with ih(1) True show ?thesis unfolding unfold u wr sum.case by (simp add: n2)
    next
      case (Inr n)
      with ih(2) [OF _ _ _ _ n2 [symmetric]] True show ?thesis unfolding unfold u wr sum.case by (simp add: n2)
    qed
  qed
qed

lemma write_frame_deadline_too_large:
  assumes "write_frame_with_deadline s body limit deadline = (Inl (FrameTooLarge d l), s')"
  shows "\<exists>e. validate_frame_size body limit = Inl e"
proof (rule ccontr)
  assume "\<nexists>e. validate_frame_size body limit = Inl e"
  then obtain v where v: "validate_frame_size body limit = Inr v" by (cases "validate_frame_size body limit") auto
  obtain now s1 where n1: "sys_now s = (now, s1)" by fastforce
  obtain g s2 where g: "get_timeout st_write_timeout s1 = (g, s2)" by fastforce
  obtain original where original: "g = Inr original" "\<not> deadline \<le> now"
    using assms v n1 g by (cases g) (auto simp: write_frame_with_deadline_def split: if_splits)
  obtain q3 b3 s3 where w1: "write_all_with_deadline (to_be_bytes (length body)) 0 deadline original
      \<lparr> bo_current = original, bo_changed = False \<rparr> s2 = (q3, b3, s3)" by (metis prod_cases3)
  obtain q4 b4 s4 where w2: "write_all_with_deadline body 0 deadline original b3 s3 = (q4, b4, s4)" by (metis prod_cases3)
  have "q3 \<noteq> Inl (FrameTooLarge d l)" "q4 \<noteq> Inl (FrameTooLarge d l)"
    using write_all_deadline_errors w1 w2 by (metis fst_conv)+
  then show False
    using assms v n1 g original w1 w2
    by (cases q3; cases q4)
       (auto simp: write_frame_with_deadline_def io_err_def map_err_def result_simps split: if_splits prod.splits sum.splits)
qed

text \<open>What one send leaves on the wire; an encoding that is too large leaves nothing.\<close>

lemma send_within_ok:
  assumes "send_within lib timeout s m = (r, s')"
  shows "(\<exists>k. st_sent s' = st_sent s @ take k (message_frame lib m) \<and> (r = Inr () \<longrightarrow> k = length (message_frame lib m) \<and> is_ok (encode lib m)))
    \<and> (\<forall>d l. r = Inl (FrameTooLarge d l) \<longrightarrow> st_sent s' = st_sent s)"
proof -
  obtain now s1 where n: "sys_now s = (now, s1)" by fastforce
  note sent = sys_now_fields(3) [OF n]
  show ?thesis
  proof (cases "encode lib m")
    case (Inl e)
    then show ?thesis using assms n sent by (auto simp: send_within_def send_message_with_deadline_def)
  next
    case (Inr body)
    let ?limit = "case m of MRequest _ \<Rightarrow> MAX_REQUEST_BYTES | _ \<Rightarrow> MAX_RESPONSE_BYTES"
    have w: "write_frame_with_deadline s1 body ?limit (now + timeout) = (r, s')"
      using assms n Inr by (simp add: send_within_def send_message_with_deadline_def)
    have "validate_frame_size body ?limit = Inr ()"
      using encode_limit [OF Inr] message_limit_u32 [of m] by (auto simp: validate_frame_size_def message_limit_def)
    then have "r \<noteq> Inl (FrameTooLarge d l)" for d l using write_frame_deadline_too_large w by fastforce
    with write_frame_deadline [OF w] sent Inr show ?thesis by (auto simp: message_frame_def is_ok_def)
  qed
qed

lemma take_append_part: "\<exists>j. take k xs = take j (xs @ ys)"
  by (metis append_take_drop_id append_eq_conv_conj append_assoc)

lemma execute_request_ok:
  assumes "execute_request lib timeout counter handler req s = (r, s')"
  shows "\<exists>c k. c \<in> {bounded_completion (hex16 counter) (handler_output handler req), output_limit_completion (hex16 counter)}
    \<and> st_sent s' = st_sent s @ take k (message_frame lib (MAccepted \<lparr> ac_request_id = hex16 counter \<rparr>) @ message_frame lib (MCompleted c))
    \<and> (r = Inr () \<longrightarrow> st_sent s' = st_sent s @ message_frame lib (MAccepted \<lparr> ac_request_id = hex16 counter \<rparr>) @ message_frame lib (MCompleted c)
         \<and> is_ok (encode lib (MAccepted \<lparr> ac_request_id = hex16 counter \<rparr>)) \<and> is_ok (encode lib (MCompleted c)))"
proof -
  let ?id = "hex16 counter"
  let ?a = "MAccepted \<lparr> ac_request_id = ?id \<rparr>" and ?c = "bounded_completion ?id (handler_output handler req)"
  let ?l = "output_limit_completion ?id"
  let ?fa = "message_frame lib ?a"
  obtain q1 s1 where n1: "set_nonblocking False s = (q1, s1)" by fastforce
  obtain q2 s2 where n2: "set_write_timeout (Some timeout) s1 = (q2, s2)" by fastforce
  obtain q3 s3 where n3: "send_within lib timeout s2 ?a = (q3, s3)" by fastforce
  obtain q4 s4 where n4: "send_within lib timeout s3 (MCompleted ?c) = (q4, s4)" by fastforce
  obtain q5 s5 where n5: "send_within lib timeout s4 (MCompleted ?l) = (q5, s5)" by fastforce
  have s2: "st_sent s1 = st_sent s" "st_sent s2 = st_sent s" using control_keeps(3) [OF n1] control_keeps(2) [OF n2] by auto
  note f3 = send_within_ok [OF n3] and f4 = send_within_ok [OF n4] and f5 = send_within_ok [OF n5]
  note unfolded = assms [unfolded execute_request_def sv_io_def n1 prod.case Let_def]
  consider (early) e where "r = Inl e" "s' = s1 \<or> s' = s2"
    | (accepting) e where "r = Inl e" "s' = s3"
    | (completing) "q3 = Inr ()" "s' = s4" "r = Inr () \<longrightarrow> q4 = Inr ()"
    | (limited) d l where "q3 = Inr ()" "q4 = Inl (FrameTooLarge d l)" "s' = s5" "r = Inr () \<longrightarrow> q5 = Inr ()"
    using unfolded n2 n3 n4 n5
    by (cases q1; cases q2; cases q3; cases q4)
       (auto simp: sv_protocol_def map_err_def split: protocol_error.splits sum.splits)
  then show ?thesis
  proof cases
    case early
    then show ?thesis using s2 by (intro exI [of _ ?c] exI [of _ 0]) auto
  next
    case accepting
    obtain k where "st_sent s' = st_sent s @ take k ?fa" using f3 s2 accepting(2) by auto
    moreover obtain j where "take k ?fa = take j (?fa @ message_frame lib (MCompleted ?c))" using take_append_part by blast
    ultimately show ?thesis using accepting(1) by (intro exI [of _ ?c] exI [of _ j]) auto
  next
    case completing
    obtain k where k: "st_sent s4 = st_sent s @ ?fa @ take k (message_frame lib (MCompleted ?c))"
        "q4 = Inr () \<longrightarrow> k = length (message_frame lib (MCompleted ?c)) \<and> is_ok (encode lib (MCompleted ?c))"
      using f3 f4 s2 completing(1) by auto
    then show ?thesis
      using f3 completing by (intro exI [of _ ?c] exI [of _ "length ?fa + k"]) auto
  next
    case limited
    obtain k where k: "st_sent s5 = st_sent s @ ?fa @ take k (message_frame lib (MCompleted ?l))"
        "q5 = Inr () \<longrightarrow> k = length (message_frame lib (MCompleted ?l)) \<and> is_ok (encode lib (MCompleted ?l))"
      using f3 f4 f5 s2 limited(1,2) by auto
    then show ?thesis
      using f3 limited by (intro exI [of _ ?l] exI [of _ "length ?fa + k"]) auto
  qed
qed

lemma hex_digit_inject: "m < 16 \<Longrightarrow> n < 16 \<Longrightarrow> hex_digit m = hex_digit n \<Longrightarrow> m = n"
  by (auto simp: hex_digit_def split: if_splits)

lemma digits_base_inject: "(\<forall>i < k. m div 16 ^ i mod 16 = n div 16 ^ i mod (16 :: nat)) \<Longrightarrow> m mod 16 ^ k = n mod 16 ^ k"
proof (induction k)
  case (Suc k)
  then have "m mod 16 ^ k = n mod 16 ^ k" "m div 16 ^ k mod 16 = n div 16 ^ k mod 16" by auto
  then show ?case by (metis mod_mult2_eq power_Suc2)
qed simp

lemma hex16_inject: "m < 2 ^ 64 \<Longrightarrow> n < 2 ^ 64 \<Longrightarrow> hex16 m = hex16 n \<longleftrightarrow> m = n"
proof
  assume m: "m < 2 ^ 64" and n: "n < 2 ^ 64" and eq: "hex16 m = hex16 n"
  have "m div 16 ^ i mod 16 = n div 16 ^ i mod 16" if "i < 16" for i
    using eq that hex_digit_inject [of "m div 16 ^ i mod 16" "n div 16 ^ i mod 16"] by (auto simp: hex16_def)
  then have "m mod 16 ^ 16 = n mod 16 ^ 16" using digits_base_inject by blast
  moreover have "(16 :: nat) ^ 16 = 2 ^ 64" by simp
  ultimately show "m = n" using m n by simp
qed simp

lemma service_poll_timeout_bound: "service_poll_timeout pending idle_timeout idle_since now idle_now \<le> SHUTDOWN_POLL_BOUND"
  by (simp add: service_poll_timeout_def Let_def)

subsection \<open>Scripts for examples\<close>

text \<open>Two connections: one delivers a request at once, the other one's peer is another user. Shutdown is
  requested later, and the worker finishes while the loop drains.\<close>

definition demo_scripts :: service_state where
  "demo_scripts =
     \<lparr> sv_active = 0, sv_pending = [],
       sv_stats = \<lparr> ls_accepted = 0, ls_rejected = 0, ls_completed = 0, ls_workers_stuck = False \<rparr>,
       sv_shutdown_at = None, sv_idle_since = 0, sv_closed = False, sv_started = [], sv_refused = [],
       sv_looks = [False, False, False, False, False, False, False, True], sv_finished = [0, 0, 0],
       sv_accepts = [Accepts (plain_stream\<lparr> st_reads := [RData (frame_bytes (as_bytes sample_request_doc))] \<rparr>) True,
                     Accepts plain_stream False],
       sv_waits = [], sv_now = 0, sv_ticks = [5, 1] \<rparr>"

section \<open>Properties\<close>

text \<open>C21: the books of the service balance. When the loop returns, nothing is pending, every accepted
  connection was rejected, completed, or is one of the at most eight workers still running, which only
  happens when they are reported stuck; and every execution that was started is completed or running.\<close>

theorem serve_until_accounts:
  assumes "serve_until lib idle_timeout setup scripts = (Inr stats, s)"
  shows "ls_accepted stats = ls_rejected stats + ls_completed stats + sv_active s
    \<and> length (sv_started s) = ls_completed stats + sv_active s \<and> sv_pending s = []
    \<and> sv_active s \<le> 8 \<and> (\<not> ls_workers_stuck stats \<longrightarrow> sv_active s = 0)"
proof -
  obtain u where lp: "serve_loop lib idle_timeout (serve_start scripts) = (Inr u, s)" "stats = sv_stats s"
    using assms by (auto simp: serve_until_def split: option.splits prod.splits sum.splits)
  have "balanced 0 (serve_start scripts)"
    by (auto simp: serve_start_def clock_now_def balanced_def split: list.splits)
  from serve_loop_balanced [OF lp(1) this] lp(2) show ?thesis by (auto simp: balanced_def MAX_ACTIVE_REQUESTS_def)
qed

theorem serve_until_accounts_witness:
  "\<exists>stats s. serve_until sample_request_lib (Some 9) None demo_scripts = (Inr stats, s)
     \<and> ls_accepted stats = 2 \<and> ls_rejected stats = 1 \<and> ls_completed stats = 1 \<and> length (sv_started s) = 1"
proof -
  let ?t = "serve_until sample_request_lib (Some 9) None demo_scripts"
  let ?stats = "\<lparr> ls_accepted = 2, ls_rejected = 1, ls_completed = 1, ls_workers_stuck = False \<rparr>"
  have "fst ?t = Inr ?stats" by code_simp
  then have t: "?t = (Inr ?stats, snd ?t)" by (metis prod.collapse)
  from serve_until_accounts [OF t] have "length (sv_started (snd ?t)) = 1" by simp
  then show ?thesis by (intro exI [of _ ?stats] exI [of _ "snd ?t"] conjI t) simp_all
qed

text \<open>Once the shutdown token is closed the loop starts no further execution, and a request that is
  complete at that moment is counted as rejected instead.\<close>

lemma closed_service_starts_nothing:
  assumes "sv_closed s"
  shows "sv_started (snd (serve_loop lib idle_timeout s)) = sv_started s
    \<and> sv_started (snd (admit_request lib st req s)) = sv_started s
    \<and> ls_rejected (sv_stats (snd (admit_request lib st req s))) = ls_rejected (sv_stats s) + 1"
proof -
  obtain r s' where lp: "serve_loop lib idle_timeout s = (r, s')" by fastforce
  obtain b s1 where tk: "token_requested s = (b, s1)" by fastforce
  have "b" "sv_started s1 = sv_started s" "sv_stats s1 = sv_stats s"
    using assms tk by (auto simp: token_requested_def split: list.splits)
  then show ?thesis
    using serve_loop_closed [OF lp assms] lp tk
    by (auto simp: admit_request_def try_reserve_execution_def refuse_def count_rejected_def)
qed

lemma closed_service_starts_nothing_example:
  "sv_started (snd (serve_loop sample_request_lib None (demo_scripts\<lparr> sv_closed := True \<rparr>))) = []"
  using closed_service_starts_nothing [of "demo_scripts\<lparr> sv_closed := True \<rparr>"] by (simp add: demo_scripts_def)

text \<open>A request is admitted only from one complete frame of at most the request limit that decodes
  strictly, and only before the connection's deadline.\<close>

lemma admission_complete_sound:
  assumes "admission_ok a" and "poll_live_admission lib a = (Complete req, a')"
  shows "st_now (ad_stream a') < ad_expires a
    \<and> (\<exists>bs body. payload (st_reads (ad_stream a)) = bs @ payload (st_reads (ad_stream a'))
         \<and> parse_frame MAX_REQUEST_BYTES (reader_bytes (ad_reader a) @ bs) = Inr (body, [])
         \<and> decode_request lib body = Inr (MRequest req))"
  using poll_live_admission_ok [OF assms] by simp

lemma admission_complete_sound_example:
  "\<exists>req a'. poll_live_admission sample_request_lib
      \<lparr> ad_stream = plain_stream\<lparr> st_reads := [RData (frame_bytes (as_bytes sample_request_doc))], st_ticks := [1, 1] \<rparr>,
        ad_reader = frame_reader_new MAX_REQUEST_BYTES, ad_expires = 3 \<rparr> = (Complete req, a')
     \<and> st_now (ad_stream a') < 3"
proof -
  let ?a = "\<lparr> ad_stream = plain_stream\<lparr> st_reads := [RData (frame_bytes (as_bytes sample_request_doc))], st_ticks := [1, 1] \<rparr>,
        ad_reader = frame_reader_new MAX_REQUEST_BYTES, ad_expires = 3 \<rparr>"
  let ?p = "poll_live_admission sample_request_lib ?a"
  have "\<exists>req. fst ?p = Complete req"
  proof -
    have "(case fst ?p of Complete _ \<Rightarrow> True | _ \<Rightarrow> False)" by code_simp
    then show ?thesis by (auto split: admission_poll.splits)
  qed
  then obtain req where p: "?p = (Complete req, snd ?p)" by (metis prod.collapse)
  from admission_complete_sound [OF admission_new_ok p] p show ?thesis by auto
qed

text \<open>Executing a request sends an acceptance followed by one completion with the same request id:
  the handler's output verbatim (or the report of its panic) when both streams fit, else the fixed
  output-limit completion, never a truncated one. Whatever fails, what was sent is a prefix of that,
  and success means all of it.\<close>

lemma execute_request_sends:
  assumes "execute_request lib timeout counter handler req s = (r, s')"
  shows "\<exists>c k. c \<in> {bounded_completion (hex16 counter) (handler_output handler req), output_limit_completion (hex16 counter)}
    \<and> st_sent s' = st_sent s @ take k (message_frame lib (MAccepted \<lparr> ac_request_id = hex16 counter \<rparr>) @ message_frame lib (MCompleted c))
    \<and> (r = Inr () \<longrightarrow> st_sent s' = st_sent s @ message_frame lib (MAccepted \<lparr> ac_request_id = hex16 counter \<rparr>) @ message_frame lib (MCompleted c)
         \<and> is_ok (encode lib (MAccepted \<lparr> ac_request_id = hex16 counter \<rparr>)) \<and> is_ok (encode lib (MCompleted c)))"
  by (rule execute_request_ok [OF assms])

lemma execute_request_sends_example:
  "\<exists>c k. co_request_id c = hex16 1
     \<and> st_sent (snd (execute_request demo_json 5 1 (\<lambda>_. None) undefined plain_stream))
       = take k (message_frame demo_json (MAccepted \<lparr> ac_request_id = hex16 1 \<rparr>) @ message_frame demo_json (MCompleted c))"
proof -
  obtain r s' where e: "execute_request demo_json 5 1 (\<lambda>_. None) undefined plain_stream = (r, s')" by fastforce
  from execute_request_sends [OF e] obtain c k where
    "c \<in> {bounded_completion (hex16 1) (handler_output (\<lambda>_. None) undefined), output_limit_completion (hex16 1)}"
    "st_sent s' = st_sent plain_stream @ take k (message_frame demo_json (MAccepted \<lparr> ac_request_id = hex16 1 \<rparr>)
       @ message_frame demo_json (MCompleted c))" by blast
  moreover from this(1) have "co_request_id c = hex16 1" by (auto simp: bounded_completion_def output_limit_completion_def)
  ultimately show ?thesis using e by (intro exI [of _ c] exI [of _ k]) (simp add: plain_sent)
qed


definition demo_output :: execution_output where
  "demo_output = \<lparr> eo_exit_code = 0, eo_stdout = lit ''out'', eo_stderr = [] \<rparr>"

definition demo_table :: "(jval \<times> ustr) list" where
  "demo_table =
     [(message_wire (MAccepted \<lparr> ac_request_id = hex16 1 \<rparr>), lit ''{accepted}''),
      (message_wire (MCompleted (bounded_completion (hex16 1) demo_output)), lit ''{completed}''),
      (message_wire (MCompleted (output_limit_completion (hex16 1))), lit ''{limit}'')]"

definition table_lib :: json_lib where
  "table_lib =
     \<lparr> write_json = (\<lambda>w. case map_of demo_table w of None \<Rightarrow> ([], False) | Some doc \<Rightarrow> ([as_bytes doc], True)),
       read_json = (\<lambda>d. case find (\<lambda>(w, doc). doc = d) demo_table of None \<Rightarrow> (JBad, False) | Some (w, _) \<Rightarrow> (w, True)) \<rparr>"

lemma table_lib_faithful:
  "json_faithful table_lib (message_wire (MAccepted \<lparr> ac_request_id = hex16 1 \<rparr>))"
  "json_faithful table_lib (message_wire (MCompleted (bounded_completion (hex16 1) demo_output)))"
  "json_faithful table_lib (message_wire (MCompleted (output_limit_completion (hex16 1))))"
  unfolding json_faithful_def
  by (rule exI [of _ "[as_bytes (lit ''{accepted}'')]"], rule exI [of _ "lit ''{accepted}''"], code_simp)
     (rule exI [of _ "[as_bytes (lit ''{completed}'')]"], rule exI [of _ "lit ''{completed}''"], code_simp,
      rule exI [of _ "[as_bytes (lit ''{limit}'')]"], rule exI [of _ "lit ''{limit}''"], code_simp)




end
