(* ===== verification/Rust_Pattern.thy ===== *)
theory Rust_Pattern
  imports Rust_Text
begin

text \<open>
  Searching a string for a string: \<open>contains\<close>, \<open>find\<close>, \<open>match_indices\<close>, \<open>split_once\<close> with a string,
  \<open>strip_suffix\<close> and \<open>split_inclusive\<close>. The lemmas describe all places where a pattern occurs; they
  are used for patterns that cannot overlap themselves, because their first character does not
  occur in them again.
\<close>

section \<open>Definitions\<close>

fun str_contains :: "'a list \<Rightarrow> 'a list \<Rightarrow> bool" where
  "str_contains pat [] = (pat = [])"
| "str_contains pat (c # s) = (prefix pat (c # s) \<or> str_contains pat s)"

fun str_find :: "'a list \<Rightarrow> 'a list \<Rightarrow> nat option" where
  "str_find pat [] = (if pat = [] then Some 0 else None)"
| "str_find pat (c # s) = (if prefix pat (c # s) then Some 0 else map_option Suc (str_find pat s))"

text \<open>The offsets of the non-overlapping occurrences of a non-empty pattern, from left to right.\<close>

function match_indices :: "'a list \<Rightarrow> nat \<Rightarrow> 'a list \<Rightarrow> nat list" where
  "match_indices pat i s =
     (if s = [] \<or> pat = [] then []
      else if prefix pat s then i # match_indices pat (i + length pat) (drop (length pat) s)
      else match_indices pat (i + 1) (tl s))"
  by pat_completeness auto
termination by (relation "measure (\<lambda>(_, _, s). length s)") auto

declare match_indices.simps [simp del]

definition split_once_str :: "'a list \<Rightarrow> 'a list \<Rightarrow> ('a list \<times> 'a list) option" where
  "split_once_str pat s = map_option (\<lambda>i. (take i s, drop (i + length pat) s)) (str_find pat s)"

definition strip_suffix :: "'a list \<Rightarrow> 'a list \<Rightarrow> 'a list option" where
  "strip_suffix suf s = (if suffix suf s then Some (take (length s - length suf) s) else None)"

fun split_inclusive :: "'a \<Rightarrow> 'a list \<Rightarrow> 'a list \<Rightarrow> 'a list list" where
  "split_inclusive sep cur [] = (if cur = [] then [] else [cur])"
| "split_inclusive sep cur (c # s) =
     (if c = sep then (cur @ [c]) # split_inclusive sep [] s else split_inclusive sep (cur @ [c]) s)"

text \<open>A pattern occurs at an offset. A pattern with its first character nowhere else in it is \<open>headed\<close>.\<close>

definition occurs_at :: "'a list \<Rightarrow> 'a list \<Rightarrow> nat \<Rightarrow> bool" where
  "occurs_at pat s i = (i \<le> length s \<and> prefix pat (drop i s))"

definition headed :: "'a list \<Rightarrow> bool" where
  "headed pat = (pat \<noteq> [] \<and> hd pat \<notin> set (tl pat))"

section \<open>Lemmas\<close>

lemma str_contains_iff: "str_contains pat s \<longleftrightarrow> (\<exists>a b. s = a @ pat @ b)"
proof (induction s)
  case (Cons c s)
  have "(\<exists>a b. c # s = a @ pat @ b) \<longleftrightarrow> prefix pat (c # s) \<or> (\<exists>a b. s = a @ pat @ b)"
  proof
    assume "\<exists>a b. c # s = a @ pat @ b"
    then obtain a b where ab: "c # s = a @ pat @ b" by blast
    then show "prefix pat (c # s) \<or> (\<exists>a b. s = a @ pat @ b)" by (cases a) (auto simp: prefix_def)
  next
    assume "prefix pat (c # s) \<or> (\<exists>a b. s = a @ pat @ b)"
    then show "\<exists>a b. c # s = a @ pat @ b"
      by (metis append_Cons append_Nil prefix_def)
  qed
  with Cons show ?case by simp
qed auto

lemma str_contains_occurs: "str_contains pat s \<longleftrightarrow> (\<exists>i. occurs_at pat s i)"
proof
  assume "str_contains pat s"
  then obtain a b where "s = a @ pat @ b" by (auto simp: str_contains_iff)
  then have "occurs_at pat s (length a)" by (simp add: occurs_at_def)
  then show "\<exists>i. occurs_at pat s i" ..
next
  assume "\<exists>i. occurs_at pat s i"
  then obtain i b where "drop i s = pat @ b" by (auto simp: occurs_at_def prefix_def)
  then have "s = take i s @ pat @ b" by (metis append_take_drop_id)
  then show "str_contains pat s" by (auto simp: str_contains_iff)
qed

lemma str_find_Some:
  "str_find pat s = Some i \<Longrightarrow> occurs_at pat s i \<and> (\<forall>j < i. \<not> occurs_at pat s j)"
proof (induction s arbitrary: i)
  case (Cons c s)
  show ?case
  proof (cases "prefix pat (c # s)")
    case True
    with Cons.prems show ?thesis by (simp add: occurs_at_def)
  next
    case False
    with Cons.prems obtain k where k: "str_find pat s = Some k" "i = Suc k" by auto
    have "\<not> occurs_at pat (c # s) j" if "j < i" for j
      using that k Cons.IH [OF k(1)] False by (cases j) (auto simp: occurs_at_def)
    then show ?thesis using Cons.IH [OF k(1)] k by (auto simp: occurs_at_def)
  qed
qed (auto simp: occurs_at_def split: if_splits)

lemma str_find_None_iff: "str_find pat s = None \<longleftrightarrow> \<not> str_contains pat s"
  by (induction s) auto

lemma occurs_at_append_left: "occurs_at pat a i \<Longrightarrow> occurs_at pat (a @ b) i"
  by (auto simp: occurs_at_def prefix_def)

lemma occurs_at_length: "occurs_at pat s i \<Longrightarrow> i + length pat \<le> length s"
  by (auto simp: occurs_at_def dest: prefix_length_le)

lemma occurs_at_nth:
  "occurs_at pat s i \<longleftrightarrow> i + length pat \<le> length s \<and> (\<forall>k < length pat. s ! (i + k) = pat ! k)"
proof
  assume o: "occurs_at pat s i"
  then obtain b where "drop i s = pat @ b" by (auto simp: occurs_at_def prefix_def)
  then have "s ! (i + k) = pat ! k" if "k < length pat" for k
    using that o by (metis nth_append nth_drop occurs_at_def)
  with occurs_at_length [OF o] show "i + length pat \<le> length s \<and> (\<forall>k < length pat. s ! (i + k) = pat ! k)" by simp
next
  assume r: "i + length pat \<le> length s \<and> (\<forall>k < length pat. s ! (i + k) = pat ! k)"
  then have "take (length pat) (drop i s) = pat" by (intro nth_equalityI) auto
  then have "prefix pat (drop i s)" by (metis take_is_prefix)
  with r show "occurs_at pat s i" by (simp add: occurs_at_def)
qed

text \<open>A headed pattern does not overlap itself.\<close>

lemma headed_no_overlap:
  assumes "headed pat" and "occurs_at pat s i" and "occurs_at pat s j" and "i < j"
  shows "i + length pat \<le> j"
proof (rule ccontr)
  assume "\<not> i + length pat \<le> j"
  with \<open>i < j\<close> obtain k where k: "j = i + k" "0 < k" "k < length pat"
    by (metis add.commute less_imp_add_positive nat_add_left_cancel_less not_le)
  have "pat ! k = s ! j" using assms(2) k by (simp add: occurs_at_nth)
  also have "\<dots> = hd pat" using assms(1,3) by (auto simp: occurs_at_nth headed_def hd_conv_nth dest: spec [of _ 0])
  finally have "hd pat \<in> set (tl pat)" using k by (cases pat) (auto simp: nth_Cons')
  with assms(1) show False by (simp add: headed_def)
qed

lemma occurs_at_drop: "k \<le> length s \<Longrightarrow> occurs_at pat (drop k s) j \<longleftrightarrow> occurs_at pat s (k + j)"
  by (auto simp: occurs_at_def add.commute)

text \<open>For a headed pattern the greedy scan finds every occurrence.\<close>

lemma match_indices_set:
  "headed pat \<Longrightarrow> j \<in> set (match_indices pat i s) \<longleftrightarrow> i \<le> j \<and> occurs_at pat s (j - i)"
proof (induction pat i s rule: match_indices.induct)
  case (1 pat i s)
  note ne = "1.prems" [unfolded headed_def, THEN conjunct1]
  consider (nil) "s = []" | (here) "s \<noteq> []" "prefix pat s" | (later) "s \<noteq> []" "\<not> prefix pat s" by blast
  then show ?case
  proof cases
    case nil
    then have "match_indices pat i s = []" by (simp add: match_indices.simps)
    with nil ne show ?thesis by (simp add: occurs_at_def)
  next
    case here
    have len: "length pat \<le> length s" and o: "occurs_at pat s 0" using here(2) by (simp_all add: prefix_length_le occurs_at_def)
    have "j \<in> set (match_indices pat i s) \<longleftrightarrow> j = i \<or> i + length pat \<le> j \<and> occurs_at pat (drop (length pat) s) (j - (i + length pat))"
      using "1.IH"(1) [OF _ here(2) "1.prems"] here ne by (simp add: match_indices.simps [of pat i s])
    also have "\<dots> \<longleftrightarrow> i \<le> j \<and> occurs_at pat s (j - i)"
    proof (cases "j - i = 0 \<or> \<not> i \<le> j")
      case False
      have "length pat \<le> j - i" if "occurs_at pat s (j - i)"
        using headed_no_overlap [OF "1.prems" o that] False by simp
      moreover have "length pat + (j - (i + length pat)) = j - i" if "i + length pat \<le> j" using that by simp
      ultimately show ?thesis using False len by (auto simp: occurs_at_drop)
    qed (use o ne in auto)
    finally show ?thesis .
  next
    case later
    then have "j \<in> set (match_indices pat i s) \<longleftrightarrow> i + 1 \<le> j \<and> occurs_at pat (drop 1 s) (j - (i + 1))"
      using "1.IH"(2) [OF _ later(2) "1.prems"] ne by (simp add: match_indices.simps [of pat i s] drop_Suc)
    moreover have "1 + (j - (i + 1)) = j - i" if "i + 1 \<le> j" using that by simp
    moreover have "\<not> occurs_at pat s (j - i)" if "i = j" using that later(2) by (simp add: occurs_at_def)
    moreover have "1 \<le> length s" using later(1) by (cases s) auto
    ultimately show ?thesis by (metis Suc_eq_plus1 le_antisym not_less_eq_eq occurs_at_drop le_add1 le_trans)
  qed
qed

lemma match_indices_sorted: "sorted_wrt (<) (match_indices pat i s) \<and> (\<forall>j \<in> set (match_indices pat i s). i \<le> j)"
proof (induction pat i s rule: match_indices.induct)
  case (1 pat i s)
  show ?case
  proof (cases "s = [] \<or> pat = []")
    case False
    then have pos: "0 < length pat" by simp
    show ?thesis
    proof (cases "prefix pat s")
      case True
      then have "match_indices pat i s = i # match_indices pat (i + length pat) (drop (length pat) s)"
        using False by (simp add: match_indices.simps [of pat i s])
      moreover have "i < j" if "j \<in> set (match_indices pat (i + length pat) (drop (length pat) s))" for j
        using "1.IH"(1) [OF False True] pos that by (meson add_leE less_add_same_cancel1 order_less_le_trans)
      ultimately show ?thesis using "1.IH"(1) [OF False True] by (simp add: less_imp_le)
    next
      case nf: False
      then have "match_indices pat i s = match_indices pat (i + 1) (tl s)"
        using False by (simp add: match_indices.simps [of pat i s])
      then show ?thesis using "1.IH"(2) [OF False nf] by fastforce
    qed
  next
    case True
    then have "match_indices pat i s = []" by (auto simp: match_indices.simps [of pat i s])
    then show ?thesis by simp
  qed
qed

text \<open>One match means one occurrence.\<close>

lemma match_indices_single:
  assumes "headed pat"
  shows "match_indices pat 0 s = [i] \<longleftrightarrow> (\<forall>j. occurs_at pat s j \<longleftrightarrow> j = i)"
proof -
  have set: "set (match_indices pat 0 s) = {j. occurs_at pat s j}" using match_indices_set [OF assms] by auto
  have d: "distinct (match_indices pat 0 s)"
    using match_indices_sorted [of pat 0 s] strict_sorted_iff by blast
  show ?thesis
  proof
    assume "match_indices pat 0 s = [i]"
    with set show "\<forall>j. occurs_at pat s j \<longleftrightarrow> j = i" by auto
  next
    assume "\<forall>j. occurs_at pat s j \<longleftrightarrow> j = i"
    with set have "set (match_indices pat 0 s) = {i}" by auto
    moreover from this d have "length (match_indices pat 0 s) = 1" using distinct_card [OF d] by simp
    ultimately show "match_indices pat 0 s = [i]" by (cases "match_indices pat 0 s") auto
  qed
qed

end
