(* ===== verification/Json_Value.thy ===== *)
theory Json_Value
  imports Rust_Text Float64
begin

text \<open>
  The JSON values of \<open>serde_json\<close> the code builds and inspects. An object is the ordered map the crate
  uses by default, and a number has one of its three representations.
\<close>

text \<open>\<open>serde_json::Value\<close> with its three representations of a number.\<close>

datatype json_number = PosInt nat | NegInt int | FloatNumber f64

datatype json_value =
  VNull | VBool bool | VNumber json_number | VString ustr | VArray "json_value list"
  | VObject "(ustr \<times> json_value) list"

fun as_i64 :: "json_number \<Rightarrow> int option" where
  "as_i64 (PosInt n) = (if n < 2 ^ 63 then Some (int n) else None)"
| "as_i64 (NegInt i) = Some i"
| "as_i64 (FloatNumber _) = None"

fun as_u64 :: "json_number \<Rightarrow> nat option" where
  "as_u64 (PosInt n) = Some n"
| "as_u64 _ = None"

fun as_f64 :: "json_number \<Rightarrow> f64 option" where
  "as_f64 (PosInt n) = Some (f64_of_nat n)"
| "as_f64 (NegInt i) = Some (f64_neg (f64_of_nat (nat (- i))))"
| "as_f64 (FloatNumber f) = Some f"

end
