(* ===== verification/Wiki_Schema.thy ===== *)
theory Wiki_Schema
  imports Frontmatter Rust_Number Rust_Pattern Json_Value
begin

text \<open>
  The model of \<open>crates/yams-wiki/src/schema.rs\<close>: slugs, the JSON form of create and update requests,
  their validation, the page renderer, the strict frontmatter parser and change detection. What is
  proved of it is in \<open>Wiki_Page\<close>.
  Unicode normalisation and tables, SHA-256 and the JSON parser are crates: \<open>wiki_lib\<close>. The regular
  expressions are written as scanners, and each is related to its reading as a language where a
  proof needs it. A refusal carries its text; a panic (an index that may miss, \<open>unreachable!\<close>) is an
  outcome of its own, proved not to occur.
\<close>

section \<open>Model\<close>

subsection \<open>Libraries\<close>

datatype general_category =
  Control | Format | LineSeparator | ParagraphSeparator | PrivateUse | SpaceSeparator | Surrogate
  | Unassigned | DecimalNumber | OtherCategory

record wiki_lib =
  wl_nfkd_case_fold :: "ustr \<Rightarrow> ustr"
  wl_combining_class :: "uchar \<Rightarrow> nat"
  wl_category :: "uchar \<Rightarrow> general_category"
  wl_regex_digit :: "uchar \<Rightarrow> bool"
  wl_sha256_hex :: "u8 list \<Rightarrow> ustr"

subsection \<open>Constants and errors\<close>

definition SLUG_MAX_BYTES :: nat where "SLUG_MAX_BYTES = 64"

definition CANONICAL_KEYS :: "ustr list" where
  "CANONICAL_KEYS =
     [lit ''slug'', lit ''title'', lit ''type'', lit ''status'', lit ''owner'', lit ''updated'',
      lit ''verified'', lit ''summary'']"

abbreviation em_dash :: ustr where "em_dash \<equiv> [0x2014]"

datatype slug_problem = SlugEmpty | SlugTooLong | SlugInvalidCharacter

definition slug_char :: "uchar \<Rightarrow> bool" where
  "slug_char c = (is_ascii_lowercase c \<or> is_ascii_digit c \<or> c = dash)"

definition validate_slug :: "ustr \<Rightarrow> (slug_problem, unit) result" where
  "validate_slug v =
     (if v = [] then Inl SlugEmpty
      else if SLUG_MAX_BYTES < utf8_len v then Inl SlugTooLong
      else if list_all slug_char v then Inr ()
      else Inl SlugInvalidCharacter)"

datatype schema_error = Refusal ustr | Panicked

type_synonym 'a schema_result = "(schema_error, 'a) result"

definition refuse_unless :: "bool \<Rightarrow> ustr \<Rightarrow> unit schema_result" where
  "refuse_unless ok msg = (if ok then Inr () else Inl (Refusal msg))"

subsection \<open>Enumerations\<close>

datatype page_type = Gotcha | Pattern | ProjectState | Feature | Workflow | Decision

fun page_type_as_str :: "page_type \<Rightarrow> ustr" where
  "page_type_as_str Gotcha = lit ''gotcha''"
| "page_type_as_str Pattern = lit ''pattern''"
| "page_type_as_str ProjectState = lit ''project-state''"
| "page_type_as_str Feature = lit ''feature''"
| "page_type_as_str Workflow = lit ''workflow''"
| "page_type_as_str Decision = lit ''decision''"

fun page_type_heading :: "page_type \<Rightarrow> ustr" where
  "page_type_heading Gotcha = lit ''Gotchas''"
| "page_type_heading Pattern = lit ''Patterns''"
| "page_type_heading Decision = lit ''Decisions''"
| "page_type_heading Workflow = lit ''Workflow''"
| "page_type_heading ProjectState = lit ''Project state''"
| "page_type_heading Feature = lit ''Features '' @ em_dash @ lit '' architecture pointers''"

definition page_type_table :: "(ustr \<times> page_type) list" where
  "page_type_table =
     [(lit ''gotcha'', Gotcha), (lit ''pattern'', Pattern), (lit ''project-state'', ProjectState),
      (lit ''feature'', Feature), (lit ''workflow'', Workflow), (lit ''decision'', Decision)]"

definition page_types_text :: ustr where
  "page_types_text = lit ''decision | feature | gotcha | pattern | project-state | workflow''"

definition page_type_parse :: "ustr \<Rightarrow> page_type schema_result" where
  "page_type_parse v =
     ok_or (Refusal (lit ''page has type: '' @ v @ lit '' '' @ em_dash @ lit '' expected one of '' @ page_types_text))
       (map_of page_type_table v)"

datatype owner = Claude | Codex | Shared

fun owner_as_str :: "owner \<Rightarrow> ustr" where
  "owner_as_str Claude = lit ''claude''"
| "owner_as_str Codex = lit ''codex''"
| "owner_as_str Shared = lit ''shared''"

definition owner_table :: "(ustr \<times> owner) list" where
  "owner_table = [(lit ''claude'', Claude), (lit ''codex'', Codex), (lit ''shared'', Shared)]"

definition owner_parse :: "ustr \<Rightarrow> owner schema_result" where
  "owner_parse v =
     ok_or (Refusal (lit ''page has owner: '' @ v @ lit '' '' @ em_dash @ lit '' expected one of claude | codex | shared''))
       (map_of owner_table v)"

datatype status = Current | Historical | InProgress

fun status_as_str :: "status \<Rightarrow> ustr" where
  "status_as_str Current = lit ''current''"
| "status_as_str Historical = lit ''historical''"
| "status_as_str InProgress = lit ''in-progress''"

definition status_parse :: "ustr \<Rightarrow> status schema_result" where
  "status_parse v =
     ok_or (Refusal (lit ''page has status: '' @ v @ lit '' '' @ em_dash @ lit '' expected one of current | historical | in-progress''))
       (map_of [(lit ''current'', Current), (lit ''historical'', Historical), (lit ''in-progress'', InProgress)] v)"

subsection \<open>Characters\<close>

definition is_python_space :: "uchar \<Rightarrow> bool" where
  "is_python_space ch =
     ((9 \<le> ch \<and> ch \<le> 0x0D) \<or> (0x1C \<le> ch \<and> ch \<le> 0x20) \<or> ch = 0x85 \<or> ch = 0xA0 \<or> ch = 0x1680
      \<or> (0x2000 \<le> ch \<and> ch \<le> 0x200A) \<or> ch = 0x2028 \<or> ch = 0x2029 \<or> ch = 0x202F \<or> ch = 0x205F \<or> ch = 0x3000)"

definition python_trim :: "ustr \<Rightarrow> ustr" where
  "python_trim v = trim_matches is_python_space v"

definition is_sha256 :: "ustr \<Rightarrow> bool" where
  "is_sha256 v = (utf8_len v = 64 \<and> list_all (\<lambda>c. is_ascii_digit c \<or> (97 \<le> c \<and> c \<le> 102)) v)"

definition is_splitlines_boundary :: "uchar \<Rightarrow> bool" where
  "is_splitlines_boundary ch =
     (ch = nl \<or> ch = cr \<or> ch = 0x0B \<or> ch = 0x0C \<or> ch = 0x1C \<or> ch = 0x1D \<or> ch = 0x1E \<or> ch = 0x85
      \<or> ch = 0x2028 \<or> ch = 0x2029)"

text \<open>\<open>{:0kx}\<close> of a number below \<open>16 ^ k\<close>\<close>

definition hex_width :: "nat \<Rightarrow> nat \<Rightarrow> ustr" where
  "hex_width k n = map (\<lambda>i. let d = n div 16 ^ i mod 16 in if d < 10 then 48 + d else 87 + d) (rev [0..<k])"

abbreviation backslash :: uchar where "backslash \<equiv> 92"

definition python_repr_char :: "uchar \<Rightarrow> ustr" where
  "python_repr_char ch =
     (let escaped = (if ch = tab then [backslash, 116] else if ch = nl then [backslash, 110]
                     else if ch = cr then [backslash, 114]
                     else if ch = 0x2028 then backslash # lit ''u2028'' else if ch = 0x2029 then backslash # lit ''u2029''
                     else if ch \<le> 0xFF then [backslash, 120] @ hex_width 2 ch else [ch])
      in [39] @ escaped @ [39])"

definition is_python_printable :: "wiki_lib \<Rightarrow> uchar \<Rightarrow> bool" where
  "is_python_printable lib ch =
     (ch = sp \<or> wl_category lib ch \<notin> {Control, Format, LineSeparator, ParagraphSeparator, PrivateUse,
                                        SpaceSeparator, Surrogate, Unassigned})"

definition push_python_unicode_escape :: "uchar \<Rightarrow> ustr" where
  "push_python_unicode_escape code =
     (if code \<le> 0xFF then [backslash, 120] @ hex_width 2 code
      else if code \<le> 0xFFFF then [backslash, 117] @ hex_width 4 code
      else [backslash, 85] @ hex_width 8 code)"

definition python_repr_string :: "wiki_lib \<Rightarrow> ustr \<Rightarrow> ustr" where
  "python_repr_string lib v =
     (let quote = (if 39 \<in> set v \<and> 34 \<notin> set v then 34 else 39)
      in [quote]
         @ concat (map (\<lambda>ch. if ch = backslash then [backslash, backslash] else if ch = tab then [backslash, 116]
                            else if ch = nl then [backslash, 110] else if ch = cr then [backslash, 114]
                            else if ch = quote then [backslash, ch]
                            else if \<not> is_python_printable lib ch then push_python_unicode_escape ch
                            else [ch]) v)
         @ [quote])"

subsection \<open>Scalars\<close>

text \<open>The regular expression \<open>\(pages/[^)]+\.md\)\<close>: the class stops at the first closing parenthesis.\<close>

definition link_at :: "ustr \<Rightarrow> bool" where
  "link_at s =
     (case strip_prefix (lit ''(pages/'') s of None \<Rightarrow> False
      | Some r \<Rightarrow>
          (let inner = takeWhile (\<lambda>c. c \<noteq> 41) r
           in length inner < length r \<and> 4 \<le> length inner \<and> suffix (lit ''.md'') inner))"

fun link_is_match :: "ustr \<Rightarrow> bool" where
  "link_is_match [] = False"
| "link_is_match (c # s) = (link_at (c # s) \<or> link_is_match s)"

fun scalar_char_problem :: "ustr \<Rightarrow> ustr option" where
  "scalar_char_problem [] = None"
| "scalar_char_problem (ch # rest) =
     (if is_splitlines_boundary ch then Some (lit ''summary contains a line boundary ('' @ python_repr_char ch @ lit '')'')
      else if ch < 0x20 \<or> (0x7F \<le> ch \<and> ch \<le> 0x9F)
      then Some (lit ''summary contains a control character ('' @ python_repr_char ch @ lit '')'')
      else scalar_char_problem rest)"

definition scalar_problem :: "ustr \<Rightarrow> ustr option" where
  "scalar_problem v =
     (if python_trim v = [] then Some (lit ''summary is empty'')
      else case scalar_char_problem v of
             Some p \<Rightarrow> Some p
           | None \<Rightarrow>
               if str_contains (lit ''<!--'') v \<or> str_contains (lit ''-->'') v
               then Some (lit ''summary contains an HTML comment delimiter'')
               else if str_contains (lit ''(pages/'') v \<and> str_contains (lit ''.md)'') v \<and> link_is_match v
               then Some (lit ''summary contains index-link-shaped text'')
               else None)"

definition validate_frontmatter_scalar :: "ustr \<Rightarrow> ustr \<Rightarrow> unit schema_result" where
  "validate_frontmatter_scalar field v =
     (case scalar_problem v of
        Some problem \<Rightarrow> Inl (Refusal (field @ lit '': '' @ problem))
      | None \<Rightarrow>
          if trim_matches (\<lambda>c. c = 39 \<or> c = 34) (python_trim v) = []
          then Inl (Refusal (field @ lit '': is nothing but quotes and whitespace '' @ em_dash
                      @ lit '' the frontmatter parser strips those, leaving an empty field''))
          else (case find (\<lambda>marker. str_contains marker v) [lit ''```'', lit ''~~~''] of
                  Some marker \<Rightarrow> Inl (Refusal (field @ lit '': contains a code fence marker ('' @ marker @ lit '') '' @ em_dash
                                   @ lit '' a one-line frontmatter scalar cannot open a block''))
                | None \<Rightarrow> Inr ()))"

definition require_nonempty :: "ustr \<Rightarrow> ustr \<Rightarrow> unit schema_result" where
  "require_nonempty field v = refuse_unless (python_trim v \<noteq> []) (field @ lit '' is required'')"

text \<open>Ten characters, hyphens at offsets 4 and 7, decimal numbers of any script elsewhere.\<close>

fun iso_date_loop :: "wiki_lib \<Rightarrow> nat list \<Rightarrow> ustr \<Rightarrow> bool" where
  "iso_date_loop lib [] chars = (chars = [])"
| "iso_date_loop lib (index # rest) [] = False"
| "iso_date_loop lib (index # rest) (ch # chars) =
     ((if index = 4 \<or> index = 7 then ch = dash else wl_category lib ch = DecimalNumber)
      \<and> iso_date_loop lib rest chars)"

definition is_iso_date :: "wiki_lib \<Rightarrow> ustr \<Rightarrow> bool" where
  "is_iso_date lib v = iso_date_loop lib [0..<10] v"

definition validate_today :: "wiki_lib \<Rightarrow> ustr \<Rightarrow> unit schema_result" where
  "validate_today lib today =
     refuse_unless (is_iso_date lib today) (lit ''today: '' @ today @ lit '' '' @ em_dash @ lit '' expected YYYY-MM-DD'')"

subsection \<open>Slugs\<close>

definition slug_step :: "ustr \<times> bool \<Rightarrow> uchar \<Rightarrow> ustr \<times> bool" where
  "slug_step st ch =
     (case st of (slug, pending_separator) \<Rightarrow>
      if is_ascii_lowercase ch \<or> is_ascii_digit ch
      then (slug @ (if pending_separator \<and> slug \<noteq> [] then [dash] else []) @ [ch], False)
      else (slug, True))"

text \<open>The slug is ASCII, so its byte length is its length.\<close>

definition slug_truncate :: "ustr \<Rightarrow> ustr" where
  "slug_truncate slug =
     (if SLUG_MAX_BYTES < length slug
      then (let slug = take SLUG_MAX_BYTES slug
            in case rposition (\<lambda>c. c = dash) slug of Some boundary \<Rightarrow> take boundary slug | None \<Rightarrow> slug)
      else slug)"

definition slugify :: "wiki_lib \<Rightarrow> ustr \<Rightarrow> ustr schema_result" where
  "slugify lib title =
     (let folded = filter (\<lambda>ch. wl_combining_class lib ch = 0) (wl_nfkd_case_fold lib title);
          slug = fst (foldl slug_step ([], False) folded);
          slug = trim_end_matches (\<lambda>c. c = dash) (slug_truncate slug)
      in case validate_slug slug of
           Inr _ \<Rightarrow> Inr slug
         | Inl SlugEmpty \<Rightarrow> Inl (Refusal (lit ''title produces an empty slug''))
         | Inl _ \<Rightarrow> Inl Panicked)"

subsection \<open>Requests\<close>

record create_request =
  cq_title :: ustr
  cq_page_type :: page_type
  cq_owner :: owner
  cq_fact :: ustr
  cq_why :: ustr
  cq_how_to_apply :: ustr
  cq_falsified_by :: ustr
  cq_summary :: ustr
  cq_related :: "ustr list"

record update_request =
  uq_title :: ustr
  uq_page_type :: page_type
  uq_fact :: ustr
  uq_why :: ustr
  uq_how_to_apply :: ustr
  uq_falsified_by :: ustr
  uq_summary :: ustr
  uq_related :: "ustr list"
  uq_update :: bool
  uq_target :: ustr
  uq_expected_sha256 :: "ustr option"

type_synonym json_object = "(ustr \<times> json_value) list"

definition json_object :: "json_value \<Rightarrow> json_object schema_result" where
  "json_object v = (case v of VObject obj \<Rightarrow> Inr obj | _ \<Rightarrow> Inl (Refusal (lit ''payload is not a JSON object'')))"

definition reject_unknown_fields :: "json_object \<Rightarrow> ustr list \<Rightarrow> unit schema_result" where
  "reject_unknown_fields obj allowed =
     (let unknown = filter (\<lambda>k. k \<notin> set allowed) (map fst obj)
      in if unknown = [] then Inr ()
         else Inl (Refusal (lit ''unknown field(s): '' @ join (lit '', '') (sort unknown))))"

definition json_required_string :: "json_object \<Rightarrow> ustr \<Rightarrow> ustr schema_result" where
  "json_required_string obj field =
     (case map_of obj field of
        Some (VString v) \<Rightarrow> if python_trim v \<noteq> [] then Inr v else Inl (Refusal (field @ lit '' is required''))
      | _ \<Rightarrow> Inl (Refusal (field @ lit '' is required'')))"

definition json_string_list :: "json_value list \<Rightarrow> ustr list schema_result" where
  "json_string_list vs =
     try_map (\<lambda>v. case v of VString s \<Rightarrow> Inr s | _ \<Rightarrow> Inl (Refusal (lit ''related must be a list of slugs''))) vs"

fun json_is_python_truthy :: "json_value \<Rightarrow> bool" where
  "json_is_python_truthy VNull = False"
| "json_is_python_truthy (VBool b) = b"
| "json_is_python_truthy (VNumber n) =
     ((case as_i64 n of Some i \<Rightarrow> i \<noteq> 0 | None \<Rightarrow> False) \<or> (case as_u64 n of Some u \<Rightarrow> u \<noteq> 0 | None \<Rightarrow> False)
      \<or> (case as_f64 n of Some f \<Rightarrow> \<not> f64_eq f f64_zero | None \<Rightarrow> False))"
| "json_is_python_truthy (VString s) = (s \<noteq> [])"
| "json_is_python_truthy (VArray vs) = (vs \<noteq> [])"
| "json_is_python_truthy (VObject kvs) = (kvs \<noteq> [])"

definition request_page_type :: "ustr \<Rightarrow> page_type schema_result" where
  "request_page_type v =
     ok_or (Refusal (lit ''type: '' @ v @ lit '' '' @ em_dash @ lit '' expected one of '' @ page_types_text))
       (map_of page_type_table v)"

definition request_owner :: "ustr \<Rightarrow> owner schema_result" where
  "request_owner v =
     ok_or (Refusal (lit ''owner: '' @ v @ lit '' '' @ em_dash @ lit '' expected one of claude | codex | shared''))
       (map_of owner_table v)"

definition CREATE_ALLOWED :: "ustr list" where
  "CREATE_ALLOWED = map lit [''title'', ''type'', ''owner'', ''fact'', ''why'', ''how_to_apply'', ''falsified_by'', ''summary'', ''related'']"

definition UPDATE_ALLOWED :: "ustr list" where
  "UPDATE_ALLOWED = map lit [''title'', ''type'', ''fact'', ''why'', ''how_to_apply'', ''falsified_by'', ''summary'', ''related'', ''update'', ''target'', ''expected_sha256'']"

definition create_related :: "json_object \<Rightarrow> ustr list schema_result" where
  "create_related obj =
     (case map_of obj (lit ''related'') of
        None \<Rightarrow> Inr []
      | Some v \<Rightarrow>
          if \<not> json_is_python_truthy v then Inr []
          else (case v of VArray vs \<Rightarrow> json_string_list vs | _ \<Rightarrow> Inl (Refusal (lit ''related must be a list of slugs''))))"

definition create_from_json :: "wiki_lib \<Rightarrow> json_value \<Rightarrow> create_request schema_result" where
  "create_from_json lib v =
     res_bind (json_object v) (\<lambda>obj.
     res_bind (reject_unknown_fields obj CREATE_ALLOWED) (\<lambda>_.
     res_bind (json_required_string obj (lit ''title'')) (\<lambda>title.
     res_bind (json_required_string obj (lit ''type'')) (\<lambda>page_type.
     res_bind (json_required_string obj (lit ''owner'')) (\<lambda>owner.
     res_bind (json_required_string obj (lit ''fact'')) (\<lambda>fact.
     res_bind (json_required_string obj (lit ''why'')) (\<lambda>why.
     res_bind (json_required_string obj (lit ''how_to_apply'')) (\<lambda>how_to_apply.
     res_bind (json_required_string obj (lit ''falsified_by'')) (\<lambda>falsified_by.
     res_bind (json_required_string obj (lit ''summary'')) (\<lambda>summary.
     res_bind (validate_frontmatter_scalar (lit ''title'') title) (\<lambda>_.
     res_bind (validate_frontmatter_scalar (lit ''summary'') summary) (\<lambda>_.
     res_bind (request_page_type page_type) (\<lambda>page_type.
     res_bind (request_owner owner) (\<lambda>owner.
     res_bind (slugify lib title) (\<lambda>_.
     res_bind (create_related obj) (\<lambda>related.
     Inr \<lparr> cq_title = title, cq_page_type = page_type, cq_owner = owner, cq_fact = fact, cq_why = why,
           cq_how_to_apply = how_to_apply, cq_falsified_by = falsified_by, cq_summary = summary,
           cq_related = related \<rparr>))))))))))))))))"

definition update_related_values :: "json_object \<Rightarrow> json_value list schema_result" where
  "update_related_values obj =
     (case map_of obj (lit ''related'') of
        Some (VArray vs) \<Rightarrow> Inr vs
      | _ \<Rightarrow> Inl (Refusal (lit ''related is required on update; [] clears it'')))"

definition update_expected_sha256 :: "json_object \<Rightarrow> ustr option schema_result" where
  "update_expected_sha256 obj =
     (case map_of obj (lit ''expected_sha256'') of
        None \<Rightarrow> Inr None
      | Some VNull \<Rightarrow> Inr None
      | Some (VString v) \<Rightarrow>
          if is_sha256 v then Inr (Some v) else Inl (Refusal (lit ''expected_sha256 must be 64 lowercase hex characters''))
      | Some _ \<Rightarrow> Inl (Refusal (lit ''expected_sha256 must be 64 lowercase hex characters'')))"

definition refused_on_update :: "ustr \<Rightarrow> ustr" where
  "refused_on_update field =
     field @ lit '' is refused on update '' @ em_dash
     @ lit '' the stored value is preserved; changing it is a deliberate edit''"

definition update_from_json :: "wiki_lib \<Rightarrow> json_value \<Rightarrow> update_request schema_result" where
  "update_from_json lib v =
     res_bind (json_object v) (\<lambda>obj.
     res_bind (refuse_unless (map_of obj (lit ''owner'') = None) (refused_on_update (lit ''owner''))) (\<lambda>_.
     res_bind (refuse_unless (map_of obj (lit ''status'') = None) (refused_on_update (lit ''status''))) (\<lambda>_.
     res_bind (reject_unknown_fields obj UPDATE_ALLOWED) (\<lambda>_.
     res_bind (json_required_string obj (lit ''title'')) (\<lambda>title.
     res_bind (json_required_string obj (lit ''type'')) (\<lambda>page_type.
     res_bind (json_required_string obj (lit ''fact'')) (\<lambda>fact.
     res_bind (json_required_string obj (lit ''why'')) (\<lambda>why.
     res_bind (json_required_string obj (lit ''how_to_apply'')) (\<lambda>how_to_apply.
     res_bind (json_required_string obj (lit ''falsified_by'')) (\<lambda>falsified_by.
     res_bind (json_required_string obj (lit ''summary'')) (\<lambda>summary.
     res_bind (update_related_values obj) (\<lambda>related_values.
     res_bind (refuse_unless (map_of obj (lit ''update'') = Some (VBool True)) (lit ''update must be true'')) (\<lambda>_.
     res_bind (json_required_string obj (lit ''target'')) (\<lambda>target.
     res_bind (update_expected_sha256 obj) (\<lambda>expected_sha256.
     res_bind (validate_frontmatter_scalar (lit ''title'') title) (\<lambda>_.
     res_bind (validate_frontmatter_scalar (lit ''summary'') summary) (\<lambda>_.
     res_bind (request_page_type page_type) (\<lambda>page_type.
     res_bind (slugify lib title) (\<lambda>_.
     res_bind (json_string_list related_values) (\<lambda>related.
     Inr \<lparr> uq_title = title, uq_page_type = page_type, uq_fact = fact, uq_why = why,
           uq_how_to_apply = how_to_apply, uq_falsified_by = falsified_by, uq_summary = summary,
           uq_related = related, uq_update = True, uq_target = target,
           uq_expected_sha256 = expected_sha256 \<rparr>))))))))))))))))))))"

subsection \<open>Rendering\<close>

datatype common_request = Create create_request | Update update_request

fun request_title :: "common_request \<Rightarrow> ustr" where
  "request_title (Create r) = cq_title r"
| "request_title (Update r) = uq_title r"

fun request_page_type_of :: "common_request \<Rightarrow> page_type" where
  "request_page_type_of (Create r) = cq_page_type r"
| "request_page_type_of (Update r) = uq_page_type r"

fun request_fact :: "common_request \<Rightarrow> ustr" where
  "request_fact (Create r) = cq_fact r"
| "request_fact (Update r) = uq_fact r"

fun request_why :: "common_request \<Rightarrow> ustr" where
  "request_why (Create r) = cq_why r"
| "request_why (Update r) = uq_why r"

fun request_how_to_apply :: "common_request \<Rightarrow> ustr" where
  "request_how_to_apply (Create r) = cq_how_to_apply r"
| "request_how_to_apply (Update r) = uq_how_to_apply r"

fun request_falsified_by :: "common_request \<Rightarrow> ustr" where
  "request_falsified_by (Create r) = cq_falsified_by r"
| "request_falsified_by (Update r) = uq_falsified_by r"

fun request_summary :: "common_request \<Rightarrow> ustr" where
  "request_summary (Create r) = cq_summary r"
| "request_summary (Update r) = uq_summary r"

fun request_related :: "common_request \<Rightarrow> ustr list" where
  "request_related (Create r) = cq_related r"
| "request_related (Update r) = uq_related r"

definition field_text :: "ustr \<times> ustr \<Rightarrow> ustr" where
  "field_text kv = fst kv @ [58, sp] @ snd kv @ [nl]"

definition page_values :: "common_request \<Rightarrow> ustr \<Rightarrow> owner \<Rightarrow> status \<Rightarrow> ustr \<Rightarrow> ustr \<Rightarrow> (ustr \<times> ustr) list" where
  "page_values req slug owner status updated verified =
     [(lit ''slug'', slug), (lit ''title'', request_title req), (lit ''type'', page_type_as_str (request_page_type_of req)),
      (lit ''status'', status_as_str status), (lit ''owner'', owner_as_str owner), (lit ''updated'', updated),
      (lit ''verified'', verified), (lit ''summary'', request_summary req)]"

definition page_text :: "common_request \<Rightarrow> ustr" where
  "page_text req =
     [nl] @ request_fact req @ [nl, nl] @ lit ''**Why:** '' @ request_why req
     @ [nl, nl] @ lit ''**How to apply:** '' @ request_how_to_apply req
     @ [nl, nl] @ lit ''**Falsified by:** '' @ request_falsified_by req @ [nl]"

definition related_text :: "common_request \<Rightarrow> ustr" where
  "related_text req =
     (let related = map (\<lambda>slug. lit ''[['' @ slug @ lit '']]'') (retain_first (\<lambda>slug. slug) [] (request_related req))
      in if related = [] then [] else [nl] @ lit ''Related: '' @ join (lit '', '') related @ [nl])"

definition render_page :: "common_request \<Rightarrow> ustr \<Rightarrow> owner \<Rightarrow> status \<Rightarrow> ustr \<Rightarrow> ustr \<Rightarrow> ustr" where
  "render_page req slug owner status updated verified =
     fence @ [nl] @ concat (map field_text (page_values req slug owner status updated verified)) @ fence @ [nl]
     @ page_text req @ related_text req"

text \<open>The three expressions of \<open>first_line_reference\<close>. A fence ends at the first closing marker of its kind.\<close>

definition fence_match :: "ustr \<Rightarrow> ustr option" where
  "fence_match s =
     (if prefix (lit ''```'') s then map_option snd (split_once_str (lit ''```'') (drop 3 s))
      else if prefix (lit ''~~~'') s then map_option snd (split_once_str (lit ''~~~'') (drop 3 s))
      else None)"

lemma fence_match_shorter: "fence_match s = Some r \<Longrightarrow> length r < length s"
  by (auto simp: fence_match_def split_once_str_def prefix_def lit_def split: if_splits)

function strip_fences :: "ustr \<Rightarrow> ustr" where
  "strip_fences [] = []"
| "strip_fences (c # s) = (case fence_match (c # s) of Some rest \<Rightarrow> strip_fences rest | None \<Rightarrow> c # strip_fences s)"
  by pat_completeness auto
termination by (relation "measure length") (auto dest: fence_match_shorter)

definition url_char :: "uchar \<Rightarrow> bool" where
  "url_char c = (\<not> is_whitespace c \<and> \<not> (0x1C \<le> c \<and> c \<le> 0x1F))"

definition url_match :: "ustr \<Rightarrow> ustr option" where
  "url_match s =
     (case (case strip_prefix (lit ''https://'') s of Some r \<Rightarrow> Some r | None \<Rightarrow> strip_prefix (lit ''http://'') s) of
        None \<Rightarrow> None
      | Some r \<Rightarrow> if r \<noteq> [] \<and> url_char (hd r) then Some (dropWhile url_char r) else None)"

lemma url_match_shorter: "url_match s = Some r \<Longrightarrow> length r < length s"
proof -
  assume m: "url_match s = Some r"
  then obtain x where x: "strip_prefix (lit ''https://'') s = Some x \<or> strip_prefix (lit ''http://'') s = Some x"
      "r = dropWhile url_char x" by (auto simp: url_match_def split: option.splits if_splits)
  have "length r \<le> length x" using x(2) by (simp add: length_dropWhile_le)
  moreover have "length x < length s" using x(1) by (auto simp: strip_prefix_def lit_def dest: prefix_length_le split: if_splits)
  ultimately show "length r < length s" by simp
qed

function strip_urls :: "ustr \<Rightarrow> ustr" where
  "strip_urls [] = []"
| "strip_urls (c # s) = (case url_match (c # s) of Some rest \<Rightarrow> strip_urls rest | None \<Rightarrow> c # strip_urls s)"
  by pat_completeness auto
termination by (relation "measure length") (auto dest: url_match_shorter)

definition reference_char :: "uchar \<Rightarrow> bool" where
  "reference_char c = (is_ascii_alphanumeric c \<or> c = underscore \<or> c = dot \<or> c = 47 \<or> c = dash)"

text \<open>The colon is outside the class, so \<open>.py\<close> can only end the greedy run.\<close>

definition reference_at :: "wiki_lib \<Rightarrow> ustr \<Rightarrow> ustr option" where
  "reference_at lib s =
     (let run = takeWhile reference_char s; rest = drop (length run) s
      in if 4 \<le> length run \<and> suffix (lit ''.py'') run \<and> rest \<noteq> [] \<and> hd rest = 58
         then (let digits = takeWhile (wl_regex_digit lib) (tl rest)
               in if digits = [] then None else Some (run @ [58] @ digits))
         else None)"

fun find_reference :: "wiki_lib \<Rightarrow> ustr \<Rightarrow> ustr option" where
  "find_reference lib [] = None"
| "find_reference lib (c # s) = (case reference_at lib (c # s) of Some m \<Rightarrow> Some m | None \<Rightarrow> find_reference lib s)"

definition first_line_reference :: "wiki_lib \<Rightarrow> ustr \<Rightarrow> ustr option" where
  "first_line_reference lib source = find_reference lib (strip_urls (strip_fences source))"

subsection \<open>Request validation\<close>

definition related_check :: "wiki_lib \<Rightarrow> ustr \<Rightarrow> unit \<Rightarrow> ustr \<Rightarrow> unit schema_result" where
  "related_check lib slug u related =
     (case validate_slug related of
        Inl SlugTooLong \<Rightarrow> Inl (Refusal (lit ''related: '' @ python_repr_string lib related @ lit '' '' @ em_dash
                             @ lit '' slug must be at most '' @ decimal SLUG_MAX_BYTES @ lit '' bytes''))
      | Inl _ \<Rightarrow> Inl (Refusal (lit ''related: '' @ python_repr_string lib related @ lit '' is not slug-shaped''))
      | Inr _ \<Rightarrow> refuse_unless (related \<noteq> slug) (lit ''related links the page to itself''))"

definition validate_common :: "wiki_lib \<Rightarrow> common_request \<Rightarrow> ustr schema_result" where
  "validate_common lib req =
     res_bind (try_fold (\<lambda>u (field, v). require_nonempty field v) ()
       [(lit ''title'', request_title req), (lit ''fact'', request_fact req), (lit ''why'', request_why req),
        (lit ''how_to_apply'', request_how_to_apply req), (lit ''falsified_by'', request_falsified_by req),
        (lit ''summary'', request_summary req)]) (\<lambda>_.
     res_bind (validate_frontmatter_scalar (lit ''title'') (request_title req)) (\<lambda>_.
     res_bind (validate_frontmatter_scalar (lit ''summary'') (request_summary req)) (\<lambda>_.
     res_bind (slugify lib (request_title req)) (\<lambda>slug.
     res_bind (try_fold (related_check lib slug) () (request_related req)) (\<lambda>_.
     case first_line_reference lib (render_page req slug Shared Current (lit ''2026-01-01'') (lit ''2026-01-01'')) of
       Some reference \<Rightarrow> Inl (Refusal (lit ''the page cites '' @ reference @ lit '' '' @ em_dash
                                @ lit '' line numbers drift; name the symbol instead''))
     | None \<Rightarrow> Inr slug)))))"

definition validate_create :: "wiki_lib \<Rightarrow> create_request \<Rightarrow> ustr schema_result" where
  "validate_create lib r = validate_common lib (Create r)"

definition validate_update :: "wiki_lib \<Rightarrow> update_request \<Rightarrow> ustr schema_result" where
  "validate_update lib r =
     res_bind (require_nonempty (lit ''target'') (uq_target r)) (\<lambda>_.
     res_bind (refuse_unless (uq_update r) (lit ''update must be true'')) (\<lambda>_.
     res_bind (refuse_unless (case uq_expected_sha256 r of Some e \<Rightarrow> is_sha256 e | None \<Rightarrow> True)
                 (lit ''expected_sha256 must be 64 lowercase hex characters'')) (\<lambda>_.
     res_bind (validate_common lib (Update r)) (\<lambda>slug.
     res_bind (refuse_unless (slug = uq_target r)
                 (lit ''title does not slug to target '' @ em_dash
                  @ lit '' a rename is two pages and a forward link, which yams-wiki catalog owns'')) (\<lambda>_.
     Inr slug)))))"

subsection \<open>The strict parser\<close>

fun python_lines_loop :: "nat \<Rightarrow> ustr \<Rightarrow> ustr \<Rightarrow> (nat \<times> ustr) list" where
  "python_lines_loop start cur [] = (if cur = [] then [] else [(start, cur)])"
| "python_lines_loop start cur (ch # rest) =
     (if \<not> is_splitlines_boundary ch then python_lines_loop start (cur @ [ch]) rest
      else (start, cur)
           # (if ch = cr \<and> rest \<noteq> [] \<and> hd rest = nl then python_lines_loop (start + length cur + 2) [] (tl rest)
              else python_lines_loop (start + length cur + 1) [] rest))"

text \<open>Every line is kept with the offset it starts at.\<close>

definition python_splitlines :: "ustr \<Rightarrow> (nat \<times> ustr) list" where
  "python_splitlines source = python_lines_loop 0 [] source"

definition canonical_key :: "ustr \<Rightarrow> bool" where
  "canonical_key key = (key \<in> set CANONICAL_KEYS)"

definition strict_field_line :: "ustr \<Rightarrow> (ustr \<times> ustr) option" where
  "strict_field_line line =
     (case split_once 58 line of None \<Rightarrow> None
      | Some (key, v) \<Rightarrow>
         (case key of [] \<Rightarrow> None
          | first # rest \<Rightarrow>
              if (is_ascii_alphabetic first \<or> first = underscore)
                 \<and> list_all (\<lambda>ch. is_ascii_alphanumeric ch \<or> ch = underscore \<or> ch = dot \<or> ch = dash) rest
              then Some (key, trim v) else None))"

definition strict_unquote :: "ustr \<Rightarrow> ustr" where
  "strict_unquote v =
     (if 2 \<le> length v \<and> (hd v = 39 \<and> last v = 39 \<or> hd v = 34 \<and> last v = 34) then butlast (tl v) else v)"

definition no_block :: schema_error where
  "no_block = Refusal (lit ''page has no parseable frontmatter block'')"

fun strict_field_loop :: "(ustr, ustr) btree \<Rightarrow> ustr list \<Rightarrow> (ustr, ustr) btree schema_result" where
  "strict_field_loop fs [] = Inr fs"
| "strict_field_loop fs (line # ls) =
     (if trim line = [] then Inl no_block
      else if line \<noteq> [] \<and> (hd line = sp \<or> hd line = tab) then (if fs = [] then Inl no_block else strict_field_loop fs ls)
      else (case strict_field_line line of None \<Rightarrow> Inl no_block
            | Some (key, v) \<Rightarrow>
                if \<not> canonical_key key then Inl (Refusal (lit ''page has unknown frontmatter key: '' @ key))
                else if bt_contains fs key then Inl (Refusal (lit ''page has duplicate frontmatter key: '' @ key))
                else strict_field_loop (bt_insert key (strict_unquote v) fs) ls))"

definition parse_frontmatter_fields :: "ustr \<Rightarrow> (ustr, ustr) btree schema_result" where
  "parse_frontmatter_fields source =
     (let source = parse_source source; lines = map snd (python_splitlines source)
      in case lines of [] \<Rightarrow> Inl no_block
         | first # rest \<Rightarrow>
            if first \<noteq> fence then Inl no_block
            else case position (\<lambda>line. line = fence) rest of None \<Rightarrow> Inl no_block
            | Some i \<Rightarrow>
               res_bind (strict_field_loop [] (take i rest)) (\<lambda>fs.
               case find (\<lambda>key. \<not> bt_contains fs key) CANONICAL_KEYS of
                 Some key \<Rightarrow> Inl (Refusal (lit ''page is missing '' @ key))
               | None \<Rightarrow> Inr fs))"

text \<open>\<open>&fields[key]\<close>: a missing key panics.\<close>

definition field_at :: "(ustr, ustr) btree \<Rightarrow> ustr \<Rightarrow> ustr schema_result" where
  "field_at fs key = ok_or Panicked (bt_get fs key)"

definition required_page_field :: "(ustr, ustr) btree \<Rightarrow> ustr \<Rightarrow> ustr schema_result" where
  "required_page_field fs field =
     res_bind (field_at fs field) (\<lambda>v. if v = [] then Inl (Refusal (lit ''page is missing '' @ field)) else Inr v)"

definition validate_page_slug :: "ustr \<Rightarrow> unit schema_result" where
  "validate_page_slug slug =
     (case validate_slug slug of
        Inr _ \<Rightarrow> Inr ()
      | Inl SlugTooLong \<Rightarrow> Inl (Refusal (lit ''page slug must be at most '' @ decimal SLUG_MAX_BYTES @ lit '' bytes: '' @ slug))
      | Inl _ \<Rightarrow> Inl (Refusal (lit ''page has non-slug value: '' @ slug)))"

record parsed_wiki_page =
  wp_fields :: "(ustr, ustr) btree"
  wp_slug :: ustr
  wp_title :: ustr
  wp_page_type :: page_type
  wp_status :: status
  wp_owner :: owner
  wp_updated :: ustr
  wp_verified :: ustr
  wp_summary :: ustr

definition date_refusal :: "ustr \<Rightarrow> ustr \<Rightarrow> ustr" where
  "date_refusal field v = lit ''page has '' @ field @ lit '': '' @ v @ lit '' '' @ em_dash @ lit '' expected YYYY-MM-DD''"

definition parse_wiki_page :: "wiki_lib \<Rightarrow> ustr \<Rightarrow> parsed_wiki_page schema_result" where
  "parse_wiki_page lib source =
     res_bind (parse_frontmatter_fields source) (\<lambda>fs.
     res_bind (required_page_field fs (lit ''slug'')) (\<lambda>slug.
     res_bind (validate_page_slug slug) (\<lambda>_.
     res_bind (required_page_field fs (lit ''title'')) (\<lambda>title.
     res_bind (validate_frontmatter_scalar (lit ''title'') title) (\<lambda>_.
     res_bind (required_page_field fs (lit ''summary'')) (\<lambda>summary.
     res_bind (validate_frontmatter_scalar (lit ''summary'') summary) (\<lambda>_.
     res_bind (res_bind (field_at fs (lit ''type'')) page_type_parse) (\<lambda>page_type.
     res_bind (res_bind (field_at fs (lit ''status'')) status_parse) (\<lambda>status.
     res_bind (res_bind (field_at fs (lit ''owner'')) owner_parse) (\<lambda>owner.
     res_bind (required_page_field fs (lit ''updated'')) (\<lambda>updated.
     res_bind (required_page_field fs (lit ''verified'')) (\<lambda>verified.
     res_bind (refuse_unless (is_iso_date lib updated) (date_refusal (lit ''updated'') updated)) (\<lambda>_.
     res_bind (refuse_unless (is_iso_date lib verified) (date_refusal (lit ''verified'') verified)) (\<lambda>_.
     res_bind (refuse_unless (\<not> verified < updated)
                 (lit ''page has verified: '' @ verified @ lit '' before updated: '' @ updated @ lit '' '' @ em_dash
                  @ lit '' editing a page verifies it'')) (\<lambda>_.
     Inr \<lparr> wp_fields = fs, wp_slug = slug, wp_title = title, wp_page_type = page_type, wp_status = status,
           wp_owner = owner, wp_updated = updated, wp_verified = verified, wp_summary = summary \<rparr>)))))))))))))))"

definition ensure_rendered_page :: "wiki_lib \<Rightarrow> ustr \<Rightarrow> unit schema_result" where
  "ensure_rendered_page lib page =
     res_bind (parse_wiki_page lib page) (\<lambda>wiki.
     let core = parse_frontmatter page
     in if wp_fields wiki \<noteq> page_fields core
        then (let field = (case find (\<lambda>key. bt_get (wp_fields wiki) key \<noteq> bt_get (page_fields core) key) CANONICAL_KEYS of
                             Some key \<Rightarrow> key | None \<Rightarrow> lit ''frontmatter'')
              in Inl (Refusal (field @ lit '': wiki and search frontmatter parsers disagree about the rendered value'')))
        else refuse_unless (length (wp_fields wiki) = length CANONICAL_KEYS)
               (lit ''rendered page does not contain exactly one of every canonical frontmatter key''))"

subsection \<open>Creating and updating\<close>

definition render_create :: "wiki_lib \<Rightarrow> create_request \<Rightarrow> ustr \<Rightarrow> ustr schema_result" where
  "render_create lib req today =
     res_bind (validate_today lib today) (\<lambda>_.
     res_bind (validate_create lib req) (\<lambda>slug.
     let page = render_page (Create req) slug (cq_owner req) Current today today
     in res_bind (ensure_rendered_page lib page) (\<lambda>_. Inr page)))"

definition validate_update_request :: "wiki_lib \<Rightarrow> update_request \<Rightarrow> ustr \<Rightarrow> unit schema_result" where
  "validate_update_request lib req today =
     res_bind (validate_today lib today) (\<lambda>_. res_bind (validate_update lib req) (\<lambda>_. Inr ()))"

definition recanonicalize_frontmatter :: "ustr \<Rightarrow> (ustr, ustr) btree \<Rightarrow> ustr schema_result" where
  "recanonicalize_frontmatter source fs =
     (let source = parse_source source; lines = python_splitlines source
      in case position (\<lambda>line. snd line = fence) (drop 1 lines) of
           None \<Rightarrow> Inr source
         | Some i \<Rightarrow>
            (let body = (if i + 2 < length lines then drop (fst (lines ! (i + 2))) source else [])
             in res_bind (try_map (\<lambda>key. res_map (\<lambda>v. field_text (key, v)) (field_at fs key)) CANONICAL_KEYS) (\<lambda>fields.
                Inr (fence @ [nl] @ concat fields @ fence @ [nl] @ body))))"

fun without_dates_loop :: "bool \<Rightarrow> bool \<Rightarrow> ustr list \<Rightarrow> ustr list" where
  "without_dates_loop frontmatter ended [] = []"
| "without_dates_loop frontmatter ended (line # ls) =
     (let line_text = (case strip_suffix [nl] line of Some t \<Rightarrow> t | None \<Rightarrow> line)
      in if \<not> frontmatter \<and> line_text = fence then line # without_dates_loop True ended ls
         else if frontmatter \<and> \<not> ended \<and> line_text = fence then line # without_dates_loop frontmatter True ls
         else if \<not> (frontmatter \<and> \<not> ended \<and> (prefix (lit ''updated:'') line_text \<or> prefix (lit ''verified:'') line_text))
         then line # without_dates_loop frontmatter ended ls
         else without_dates_loop frontmatter ended ls)"

definition without_dates :: "ustr \<Rightarrow> ustr" where
  "without_dates source = concat (without_dates_loop False False (split_inclusive nl [] source))"

definition display_missing :: "ustr \<Rightarrow> ustr" where
  "display_missing v = (if v = [] then lit ''(none)'' else v)"

record rendered_update =
  ru_page :: ustr
  ru_content_changed :: bool

definition stored_refusal :: "ustr \<Rightarrow> ustr \<Rightarrow> ustr \<Rightarrow> ustr \<Rightarrow> schema_error" where
  "stored_refusal slug field v expected =
     Refusal (lit ''pages/'' @ slug @ lit ''.md has '' @ field @ lit '': '' @ display_missing v @ lit '' '' @ em_dash
       @ lit '' expected '' @ expected)"

definition stored_page :: "update_request \<Rightarrow> wiki_lib \<Rightarrow> ustr \<Rightarrow> (ustr, ustr) btree \<Rightarrow> (ustr \<times> owner \<times> status \<times> ustr) schema_result" where
  "stored_page req lib today stored =
     res_bind (required_page_field stored (lit ''slug'')) (\<lambda>slug.
     res_bind (validate_page_slug slug) (\<lambda>_.
     res_bind (refuse_unless (slug = uq_target req) (lit ''target does not match stored page slug: '' @ slug)) (\<lambda>_.
     res_bind (field_at stored (lit ''owner'')) (\<lambda>o_text.
     res_bind (map_err (\<lambda>_. stored_refusal slug (lit ''owner'') o_text (lit ''one of claude | codex | shared'')) (owner_parse o_text)) (\<lambda>owner.
     res_bind (field_at stored (lit ''status'')) (\<lambda>s_text.
     res_bind (map_err (\<lambda>_. stored_refusal slug (lit ''status'') s_text (lit ''one of current | historical | in-progress'')) (status_parse s_text)) (\<lambda>status.
     res_bind (field_at stored (lit ''updated'')) (\<lambda>updated.
     if \<not> is_iso_date lib updated \<or> today < updated
     then Inl (stored_refusal slug (lit ''updated'') updated (lit ''YYYY-MM-DD no later than today ('' @ today @ lit '')''))
     else Inr (slug, owner, status, updated)))))))))"

definition render_update :: "wiki_lib \<Rightarrow> update_request \<Rightarrow> ustr \<Rightarrow> ustr \<Rightarrow> rendered_update schema_result" where
  "render_update lib req current today =
     res_bind (validate_today lib today) (\<lambda>_.
     res_bind (validate_update lib req) (\<lambda>_.
     res_bind (refuse_unless (case uq_expected_sha256 req of None \<Rightarrow> True
                              | Some expected \<Rightarrow> wl_sha256_hex lib (as_bytes current) = expected)
                 (lit ''the page changed since it was read'')) (\<lambda>_.
     res_bind (parse_frontmatter_fields current) (\<lambda>stored.
     res_bind (stored_page req lib today stored) (\<lambda>(slug, owner, status, updated).
     res_bind (recanonicalize_frontmatter current stored) (\<lambda>recanonicalized.
     let candidate = render_page (Update req) slug owner status updated today;
         content_changed = (without_dates candidate \<noteq> without_dates recanonicalized);
         page = (if content_changed then render_page (Update req) slug owner status today today else candidate)
     in res_bind (ensure_rendered_page lib page) (\<lambda>_.
        Inr \<lparr> ru_page = page, ru_content_changed = content_changed \<rparr>)))))))"

end
