(* ===== verification/Wiki_Page.thy ===== *)
theory Wiki_Page
  imports Wiki_Schema
begin

text \<open>
  Wiki pages: the strict parser agrees with the search parser of \<open>Frontmatter\<close>, rendered pages parse
  back, slugs are canonical, updates keep what they must and detect changes of content only, and no
  input makes the code of \<open>schema.rs\<close> panic.
\<close>

section \<open>The strict parser and the search parser\<close>

lemma boundary_iff: "is_splitlines_boundary c \<longleftrightarrow> c = nl \<or> explicit_separator c"
  by (auto simp: is_splitlines_boundary_def explicit_separator_def)

lemma plain_char_iff: "plain_char c \<longleftrightarrow> \<not> is_splitlines_boundary c"
  by (auto simp: plain_char_def boundary_iff)

fun line_starts :: "nat \<Rightarrow> (ustr \<times> ustr) list \<Rightarrow> (nat \<times> ustr) list" where
  "line_starts p [] = []"
| "line_starts p ((c, s) # r) = (p, c) # line_starts (p + length c + length s) r"

lemma python_lines_loop_starts: "python_lines_loop start cur s = line_starts start (split_lines cur s)"
proof (induction cur s arbitrary: start rule: split_lines.induct)
  case (2 cur c cs)
  then show ?case by (auto simp: boundary_iff explicit_separator_def)
qed simp

lemma line_starts_contents: "map snd (line_starts p ls) = map fst ls"
  by (induction p ls rule: line_starts.induct) auto

lemma line_starts_append:
  "line_starts p (xs @ ys) = line_starts p xs @ line_starts (p + length (lines_text xs)) ys"
  by (induction p xs rule: line_starts.induct) (auto simp: add.assoc)

lemma python_splitlines_contents: "map snd (python_splitlines s) = map fst (split_lines [] s)"
  by (simp add: python_splitlines_def python_lines_loop_starts line_starts_contents)

lemma strict_field_line_eq: "strict_field_line = field_line"
  by (rule ext)
     (auto simp: strict_field_line_def field_line_def legal_key_def list_all_iff split: option.splits list.splits)

lemma strict_unquote_eq: "strict_unquote = unquote"
  by (rule ext) (simp add: strict_unquote_def unquote_def)

lemma strict_field_loop_agrees:
  assumes "strict_field_loop fs (map content ls) = Inr fs'"
  shows "field_loop fs ls = Some fs'"
  using assms
proof (induction fs ls rule: field_loop.induct)
  case (2 fs l ls)
  then show ?case
    by (auto simp: is_blank_def strict_field_line_eq strict_unquote_eq split: if_splits option.splits)
qed simp

lemma strict_field_loop_keys:
  assumes "strict_field_loop fs ls = Inr fs'" and "bt_wf fs" and "set (map fst fs) \<subseteq> set CANONICAL_KEYS"
  shows "bt_wf fs' \<and> set (map fst fs') \<subseteq> set CANONICAL_KEYS"
  using assms
proof (induction fs ls rule: strict_field_loop.induct)
  case (2 fs line ls)
  then show ?case
    by (auto simp: canonical_key_def bt_insert_wf bt_insert_keys simp del: set_map split: if_splits option.splits; blast)
qed simp

lemma parse_frontmatter_fields_Inr:
  assumes "parse_frontmatter_fields source = Inr fs"
  shows "page_fields (parse_frontmatter source) = fs" and "bt_wf fs" and "set (map fst fs) = set CANONICAL_KEYS"
    and "length fs = 8"
proof -
  let ?ls = "split_lines [] (parse_source source)"
  obtain rest i where ls: "map fst ?ls = fence # rest" and i: "position (\<lambda>l. l = fence) rest = Some i"
    and loop: "strict_field_loop [] (take i rest) = Inr fs" and all: "find (\<lambda>k. \<not> bt_contains fs k) CANONICAL_KEYS = None"
    using assms
    by (auto simp: parse_frontmatter_fields_def python_splitlines_contents Let_def res_bind_Inr_iff
        split: list.splits if_splits option.splits)
  obtain s0 ls' where ls': "?ls = (fence, s0) # ls'" "rest = map fst ls'" using ls by (cases ?ls) auto
  have wf: "bt_wf fs \<and> set (map fst fs) \<subseteq> set CANONICAL_KEYS"
    using strict_field_loop_keys [OF loop] by (simp add: bt_wf_def)
  moreover have "set CANONICAL_KEYS \<subseteq> set (map fst fs)"
    using all by (auto simp: find_None_iff bt_contains_def)
  ultimately show keys: "set (map fst fs) = set CANONICAL_KEYS" and wf: "bt_wf fs" by auto
  have "distinct (map fst fs)" using wf strict_sorted_iff by (auto simp: bt_wf_def)
  then have "length fs = card (set (map fst fs))" by (metis distinct_card length_map)
  also have "\<dots> = 8" unfolding keys by (simp add: CANONICAL_KEYS_def del: lit_inject) (simp add: lit_def)
  finally show "length fs = 8" .
  then have ne: "fs \<noteq> []" by auto
  let ?p = "3 + length s0"
  have lws: "lines_with_separators (parse_source source) = \<lparr>content = fence, separator_end = ?p\<rparr> # with_offsets ?p ls'"
    by (simp add: lines_with_separators_eq ls' numeral_3_eq_3)
  have pos: "position (\<lambda>l. content l = fence) (with_offsets ?p ls') = Some i"
    using i by (simp add: position_content ls'(2) position_map)
  have "map content (take i (with_offsets ?p ls')) = take i rest"
    by (simp add: take_map [symmetric] with_offsets_contents ls'(2))
  then have "field_loop [] (take i (with_offsets ?p ls')) = Some fs"
    using strict_field_loop_agrees loop by metis
  then show "page_fields (parse_frontmatter source) = fs"
    using ne pos by (simp add: parse_frontmatter_def lws)
qed

lemma ensure_rendered_page_iff: "ensure_rendered_page lib page = res_map (\<lambda>_. ()) (parse_wiki_page lib page)"
proof (cases "parse_wiki_page lib page")
  case (Inr p)
  then have "parse_frontmatter_fields page = Inr (wp_fields p)"
    by (auto simp: parse_wiki_page_def res_bind_Inr_iff)
  from parse_frontmatter_fields_Inr [OF this] Inr show ?thesis
    by (simp add: ensure_rendered_page_def refuse_unless_def CANONICAL_KEYS_def)
qed (simp add: ensure_rendered_page_def)


section \<open>Rendered pages\<close>

definition block_text :: "(ustr \<times> ustr) list \<Rightarrow> ustr \<Rightarrow> ustr" where
  "block_text kvs rest = fence @ [nl] @ concat (map field_text kvs) @ fence @ [nl] @ rest"

definition plain_text :: "ustr \<Rightarrow> bool" where
  "plain_text v = (\<forall>c \<in> set v. \<not> is_splitlines_boundary c)"

text \<open>What the parsers make of a value written after a colon.\<close>

definition stored_value :: "ustr \<Rightarrow> ustr" where
  "stored_value v = strict_unquote (trim v)"

definition stored_fields :: "(ustr \<times> ustr) list \<Rightarrow> (ustr, ustr) btree" where
  "stored_fields kvs = fold (\<lambda>(k, v). bt_insert k v) (map (\<lambda>(k, v). (k, stored_value v)) kvs) []"

lemma canonical_key_legal: "canonical_key k \<Longrightarrow> legal_key k"
proof -
  assume "canonical_key k"
  moreover have "list_all legal_key CANONICAL_KEYS" by code_simp
  ultimately show "legal_key k" by (simp add: canonical_key_def list_all_iff)
qed

lemma legal_key_text: "legal_key k \<Longrightarrow> plain_text k"
  using legal_key_plain by (auto simp: plain_text_def plain_char_iff)

lemma split_lines_text: "plain_text x \<Longrightarrow> split_lines [] (x @ nl # rest) = (x, [nl]) # split_lines [] rest"
  using split_lines_plain [of x "[]" rest] by (simp add: plain_text_def plain_char_iff)

lemma split_lines_block:
  assumes "\<forall>(k, v) \<in> set kvs. canonical_key k \<and> plain_text v"
  shows "split_lines [] (concat (map field_text kvs) @ fence @ nl # rest)
       = map (\<lambda>(k, v). (k @ [58, sp] @ v, [nl])) kvs @ (fence, [nl]) # split_lines [] rest"
  using assms
proof (induction kvs)
  case Nil
  have "plain_text fence" by code_simp
  from split_lines_text [OF this] show ?case by simp
next
  case (Cons kv kvs)
  obtain k v where kv: "kv = (k, v)" by (cases kv)
  then have "plain_text k" "plain_text v" using Cons.prems legal_key_text canonical_key_legal by auto
  then have "plain_text (k @ [58, sp] @ v)" by (auto simp: plain_text_def is_splitlines_boundary_def)
  from split_lines_text [OF this] Cons kv show ?case by (simp add: field_text_def)
qed

lemma field_line_text: "legal_key k \<Longrightarrow> field_line (k @ [58, sp] @ v) = Some (k, trim v)"
proof -
  assume k: "legal_key k"
  then have "58 \<notin> set k" using legal_key_plain by blast
  then have "split_once 58 (k @ 58 # sp # v) = Some (k, sp # v)" by (rule split_once_first)
  then show ?thesis using k by (simp add: field_line_def trim_sp)
qed

lemma strict_field_loop_block:
  assumes "\<forall>(k, v) \<in> set kvs. canonical_key k" and "distinct (map fst kvs)" and "\<forall>k \<in> set (map fst kvs). \<not> bt_contains fs k"
    and "bt_wf fs"
  shows "strict_field_loop fs (map (\<lambda>(k, v). k @ [58, sp] @ v) kvs)
       = Inr (fold (\<lambda>(k, v). bt_insert k v) (map (\<lambda>(k, v). (k, stored_value v)) kvs) fs)"
  using assms
proof (induction kvs arbitrary: fs)
  case (Cons kv kvs)
  obtain k v where kv: "kv = (k, v)" by (cases kv)
  with Cons.prems have k: "canonical_key k" "legal_key k" "\<not> bt_contains fs k" using canonical_key_legal by auto
  then obtain c k' where kc: "k = c # k'" by (cases k) (auto simp: legal_key_def)
  have c: "\<not> is_whitespace c" "c \<noteq> sp" "c \<noteq> tab" using legal_key_plain [OF k(2), of c] kc by (auto simp: is_whitespace_def)
  have nb: "trim (k @ [58, sp] @ v) \<noteq> []" using c(1) kc by (auto simp: trim_eq_Nil_iff)
  have "\<forall>k' \<in> set (map fst kvs). \<not> bt_contains (bt_insert k (stored_value v) fs) k'"
    using Cons.prems kv by (auto simp: bt_contains_iff bt.get_ins [OF Cons.prems(4)] simp del: set_map)
  from Cons.IH [OF _ _ this bt_insert_wf [OF Cons.prems(4)]] Cons.prems kv
  have "strict_field_loop (bt_insert k (stored_value v) fs) (map (\<lambda>(k, v). k @ [58, sp] @ v) kvs)
      = Inr (fold (\<lambda>(k, v). bt_insert k v) (map (\<lambda>(k, v). (k, stored_value v)) kvs) (bt_insert k (stored_value v) fs))"
    by simp
  then show ?case
    using nb c k kv field_line_text [OF k(2), of v] by (simp add: kc strict_field_line_eq stored_value_def)
qed simp

lemma stored_fields_get: "distinct (map fst kvs) \<Longrightarrow> bt_get (stored_fields kvs) k = map_option stored_value (map_of kvs k)"
proof -
  assume d: "distinct (map fst kvs)"
  let ?m = "map (\<lambda>(k, v). (k, stored_value v)) kvs"
  have "distinct (map fst ?m)" using d by (simp add: case_prod_beta' comp_def)
  then have "map_of (rev ?m) = map_of ?m" by (rule map_of_rev_distinct)
  moreover have "map_of ?m k = map_option stored_value (map_of kvs k)" by (simp add: map_of_map)
  ultimately show ?thesis using bt.get_fold [OF bt.wf_empty, of ?m k]
    by (simp add: stored_fields_def bt_get_def [of "[]"] split: option.split)
qed

lemma parse_block:
  assumes "map fst kvs = CANONICAL_KEYS" and "\<forall>(k, v) \<in> set kvs. plain_text v"
  shows "parse_frontmatter_fields (block_text kvs rest) = Inr (stored_fields kvs)"
proof -
  have can: "\<forall>(k, v) \<in> set kvs. canonical_key k"
  proof (clarify)
    fix k v assume "(k, v) \<in> set kvs"
    then have "k \<in> set (map fst kvs)" by force
    then show "canonical_key k" by (simp add: canonical_key_def assms(1) del: set_map)
  qed
  have d: "distinct (map fst kvs)" unfolding assms(1) by code_simp
  have src: "parse_source (block_text kvs rest) = block_text kvs rest"
    by (simp add: parse_source_def strip_prefix_def block_text_def)
  have "plain_text fence" by code_simp
  from split_lines_text [OF this, of "concat (map field_text kvs) @ fence @ nl # rest"]
  have sl: "split_lines [] (block_text kvs rest)
      = (fence, [nl]) # map (\<lambda>(k, v). (k @ [58, sp] @ v, [nl])) kvs @ (fence, [nl]) # split_lines [] rest"
    using split_lines_block [of kvs rest] can assms(2) by (simp add: block_text_def case_prod_beta')
  let ?mid = "map (\<lambda>(k, v). k @ [58, sp] @ v) kvs"
  have mid: "map fst (split_lines [] (block_text kvs rest)) = fence # ?mid @ fence # map fst (split_lines [] rest)"
    by (simp add: sl case_prod_beta' comp_def)
  have "\<forall>y \<in> set ?mid. y \<noteq> fence" using can canonical_key_legal render_not_fence by fastforce
  then have pos: "position (\<lambda>l. l = fence) (?mid @ fence # map fst (split_lines [] rest)) = Some (length ?mid)"
    by (intro position_first) auto
  have loop: "strict_field_loop [] ?mid = Inr (stored_fields kvs)"
    using strict_field_loop_block [OF can d, of "[]"] by (simp add: stored_fields_def bt_contains_def bt_wf_def)
  have "bt_contains (stored_fields kvs) k" if "k \<in> set CANONICAL_KEYS" for k
    using that unfolding assms(1) [symmetric] by (simp add: bt_contains_iff stored_fields_get [OF d] map_of_eq_None_iff)
  then have "find (\<lambda>k. \<not> bt_contains (stored_fields kvs) k) CANONICAL_KEYS = None" by (simp add: find_None_iff)
  then show ?thesis
    using pos loop by (simp add: parse_frontmatter_fields_def python_splitlines_contents src mid)
qed

section \<open>Slugs\<close>

definition slug_alnum :: "uchar \<Rightarrow> bool" where
  "slug_alnum c = (is_ascii_lowercase c \<or> is_ascii_digit c)"

text \<open>The maximal runs of slug letters and digits.\<close>

definition slug_words :: "ustr \<Rightarrow> ustr list" where
  "slug_words s = filter (\<lambda>w. w \<noteq> []) (split_by (\<lambda>c. \<not> slug_alnum c) s)"

lemma slug_words_alnum: "w \<in> set (slug_words s) \<Longrightarrow> w \<noteq> [] \<and> (\<forall>c \<in> set w. slug_alnum c)"
  by (auto simp: slug_words_def dest: split_by_word)

lemma slug_loop:
  "foldl slug_step ([], False) s
     = (join [dash] (slug_words s), s \<noteq> [] \<and> last (split_by (\<lambda>c. \<not> slug_alnum c) s) = [])"
proof (induction s rule: rev_induct)
  case Nil
  then show ?case by (simp add: slug_words_def)
next
  case (snoc c s)
  obtain B l where B: "split_by (\<lambda>c. \<not> slug_alnum c) s = B @ [l]" by (metis append_butlast_last_id split_by_ne)
  have ne: "join [dash] (slug_words s) = [] \<longleftrightarrow> slug_words s = []"
    by (rule join_Nil_iff) (use slug_words_alnum in blast)
  have s0: "s = [] \<Longrightarrow> B = [] \<and> l = []" using B by auto
  show ?case
    using snoc ne s0 by (auto simp: slug_step_def slug_alnum_def [symmetric] slug_words_def split_by_snoc B join_snoc)
qed

text \<open>A slug without a hyphen at either end or two in a row.\<close>

definition no_double_dash :: "ustr \<Rightarrow> bool" where
  "no_double_dash s = (\<forall>i. Suc i < length s \<longrightarrow> s ! i = dash \<longrightarrow> s ! Suc i \<noteq> dash)"

definition tidy_slug :: "ustr \<Rightarrow> bool" where
  "tidy_slug s = ((s \<noteq> [] \<longrightarrow> hd s \<noteq> dash \<and> last s \<noteq> dash) \<and> no_double_dash s \<and> (\<forall>c \<in> set s. slug_char c))"

lemma slug_alnum_not_dash: "slug_alnum c \<Longrightarrow> c \<noteq> dash \<and> slug_char c"
  by (auto simp: slug_alnum_def slug_char_def is_ascii_lowercase_def is_ascii_digit_def)

lemma no_double_dash_append:
  "no_double_dash a \<Longrightarrow> no_double_dash b \<Longrightarrow> (a \<noteq> [] \<longrightarrow> b \<noteq> [] \<longrightarrow> last a \<noteq> dash \<or> hd b \<noteq> dash) \<Longrightarrow> no_double_dash (a @ b)"
proof -
  assume a: "no_double_dash a" and b: "no_double_dash b" and ab: "a \<noteq> [] \<longrightarrow> b \<noteq> [] \<longrightarrow> last a \<noteq> dash \<or> hd b \<noteq> dash"
  show ?thesis
    unfolding no_double_dash_def
  proof (intro allI impI)
    fix i assume i: "Suc i < length (a @ b)" "(a @ b) ! i = dash"
    consider "Suc i < length a" | "Suc i = length a" | "length a \<le> i" by linarith
    then show "(a @ b) ! Suc i \<noteq> dash"
    proof cases
      case 1 then show ?thesis using a i by (simp add: no_double_dash_def nth_append)
    next
      case 2
      then have "a \<noteq> []" "b \<noteq> []" using i by auto
      moreover have "last a = dash" using 2 i \<open>a \<noteq> []\<close> by (simp add: nth_append last_conv_nth flip: 2)
      ultimately show ?thesis using ab 2 by (simp add: nth_append hd_conv_nth)
    next
      case 3
      then have "b ! (i - length a) = dash" "Suc (i - length a) < length b" using i by (auto simp: nth_append)
      then show ?thesis using b 3 by (simp add: no_double_dash_def nth_append Suc_diff_le)
    qed
  qed
qed

lemma no_double_dash_none: "dash \<notin> set s \<Longrightarrow> no_double_dash s"
  unfolding no_double_dash_def by (metis nth_mem)

lemma tidy_join:
  "\<forall>w \<in> set ws. w \<noteq> [] \<and> (\<forall>c \<in> set w. slug_alnum c) \<Longrightarrow> tidy_slug (join [dash] ws)"
proof (induction "[dash] :: ustr" ws rule: join.induct)
  case 1
  then show ?case by (simp add: tidy_slug_def no_double_dash_def)
next
  case (2 x)
  then have "dash \<notin> set x" using slug_alnum_not_dash by fastforce
  with 2 show ?case using no_double_dash_none slug_alnum_not_dash hd_in_set [of x] last_in_set [of x]
    by (auto simp: tidy_slug_def)
next
  case (3 x y xs)
  then have x: "x \<noteq> []" "dash \<notin> set x" "\<forall>c \<in> set x. slug_char c" using slug_alnum_not_dash by fastforce+
  have rest: "tidy_slug (join [dash] (y # xs))" using 3 by simp
  have ne: "join [dash] (y # xs) \<noteq> []" using 3(2) join_Nil_iff [of "y # xs" "[dash]"] by simp
  have "no_double_dash ([dash] @ join [dash] (y # xs))"
    using rest ne by (intro no_double_dash_append) (auto simp: tidy_slug_def no_double_dash_def)
  then have "no_double_dash (x @ [dash] @ join [dash] (y # xs))"
    using no_double_dash_append [OF no_double_dash_none [OF x(2)]] x last_in_set [OF x(1)] by fastforce
  moreover have "hd x \<noteq> dash" using x hd_in_set [of x] by metis
  ultimately show ?case using x rest ne by (auto simp: tidy_slug_def slug_char_def)
qed

lemma no_double_dash_prefix: "no_double_dash (a @ b) \<Longrightarrow> no_double_dash a"
  unfolding no_double_dash_def by (metis Suc_lessD length_append nth_append trans_less_add1)

lemma tidy_cut:
  assumes "tidy_slug s"
  shows "tidy_slug (trim_end_matches (\<lambda>c. c = dash) (slug_truncate s)) \<and> length (trim_end_matches (\<lambda>c. c = dash) (slug_truncate s)) \<le> 64
    \<and> prefix (trim_end_matches (\<lambda>c. c = dash) (slug_truncate s)) s"
proof -
  let ?t = "slug_truncate s" and ?D = "\<lambda>c :: uchar. c = dash"
  have t: "prefix ?t s" "length ?t \<le> 64"
    by (auto simp: slug_truncate_def SLUG_MAX_BYTES_def Let_def take_is_prefix split: option.splits)
  obtain e where e: "?t = trim_end_matches ?D ?t @ e" using trim_end_matches_decomp [of ?t ?D] by metis
  let ?r = "trim_end_matches ?D ?t"
  have p: "prefix ?r s" using t(1) e by (metis prefix_def append_assoc)
  then obtain f where f: "s = ?r @ f" by (auto simp: prefix_def)
  have "no_double_dash ?r" using assms f no_double_dash_prefix unfolding tidy_slug_def by metis
  moreover have "?r \<noteq> [] \<longrightarrow> last ?r \<noteq> dash"
    using hd_dropWhile [of ?D "rev ?t"] by (auto simp: trim_end_matches_def last_rev)
  moreover have "?r \<noteq> [] \<longrightarrow> hd ?r \<noteq> dash" using assms f unfolding tidy_slug_def by (metis append_is_Nil_conv hd_append2)
  moreover have "\<forall>c \<in> set ?r. slug_char c" using assms f unfolding tidy_slug_def by (metis UnCI set_append)
  moreover have "length ?r \<le> 64" using t(2) e by (metis length_append le_add1 le_trans)
  ultimately show ?thesis using p by (simp add: tidy_slug_def)
qed

lemma slug_char_len: "\<forall>c \<in> set s. slug_char c \<Longrightarrow> utf8_len s = length s"
  by (induction s) (auto simp: slug_char_def is_ascii_lowercase_def is_ascii_digit_def utf8_char_len_def)

lemma slugify_cases:
  obtains slug where "slugify lib title = Inr slug" "slug \<noteq> []" "tidy_slug slug" "length slug \<le> 64"
    "validate_slug slug = Inr ()"
    "prefix slug (join [dash] (slug_words (filter (\<lambda>ch. wl_combining_class lib ch = 0) (wl_nfkd_case_fold lib title))))"
    | "slugify lib title = Inl (Refusal (lit ''title produces an empty slug''))"
proof -
  let ?w = "slug_words (filter (\<lambda>ch. wl_combining_class lib ch = 0) (wl_nfkd_case_fold lib title))"
  let ?s = "trim_end_matches (\<lambda>c. c = dash) (slug_truncate (join [dash] ?w))"
  have tidy: "tidy_slug ?s" "length ?s \<le> 64" "prefix ?s (join [dash] ?w)"
    using tidy_cut [OF tidy_join [of ?w]] slug_words_alnum by blast+
  have v: "validate_slug ?s = (if ?s = [] then Inl SlugEmpty else Inr ())"
    using tidy slug_char_len [of ?s] by (auto simp: validate_slug_def SLUG_MAX_BYTES_def tidy_slug_def list_all_iff)
  have sl: "slugify lib title = (case validate_slug ?s of Inr _ \<Rightarrow> Inr ?s
      | Inl SlugEmpty \<Rightarrow> Inl (Refusal (lit ''title produces an empty slug'')) | Inl _ \<Rightarrow> Inl Panicked)"
    by (simp add: slugify_def slug_loop Let_def)
  show thesis
  proof (cases "?s = []")
    case True then show thesis using that(2) sl v by simp
  next
    case False then show thesis using that(1) sl v tidy by simp
  qed
qed

section \<open>What a rendered page parses to\<close>

text \<open>What the code relies on of the Unicode tables: a decimal number is neither a line boundary, nor
  white space, nor a quote.\<close>

definition unicode_ok :: "wiki_lib \<Rightarrow> bool" where
  "unicode_ok lib =
     (\<forall>c. wl_category lib c = DecimalNumber \<longrightarrow> \<not> is_splitlines_boundary c \<and> \<not> is_whitespace c \<and> c \<noteq> 34 \<and> c \<noteq> 39)"

lemma render_page_block:
  "render_page req slug owner status updated verified
     = block_text (page_values req slug owner status updated verified) (page_text req @ related_text req)"
  by (simp add: render_page_def block_text_def)

lemma page_values_keys: "map fst (page_values req slug owner status updated verified) = CANONICAL_KEYS"
  by (simp add: page_values_def CANONICAL_KEYS_def)

lemma trim_id: "\<forall>c \<in> set v. \<not> is_whitespace c \<Longrightarrow> trim v = v"
proof -
  assume v: "\<forall>c \<in> set v. \<not> is_whitespace c"
  then have "dropWhile is_whitespace v = v" "dropWhile is_whitespace (rev v) = rev v"
    by (auto simp: dropWhile_eq_self_iff hd_rev)
  then show "trim v = v" by (simp add: trim_def trim_matches_def trim_start_matches_def trim_end_matches_def)
qed

lemma stored_value_id: "\<forall>c \<in> set v. \<not> is_whitespace c \<and> c \<noteq> 34 \<and> c \<noteq> 39 \<Longrightarrow> stored_value v = v"
proof -
  assume v: "\<forall>c \<in> set v. \<not> is_whitespace c \<and> c \<noteq> 34 \<and> c \<noteq> 39"
  then have "trim v = v" using trim_id by blast
  moreover have "strict_unquote v = v" using v by (cases v) (auto simp: strict_unquote_def)
  ultimately show ?thesis by (simp add: stored_value_def)
qed

text \<open>A word: text the parsers keep as it is.\<close>

definition word_text :: "ustr \<Rightarrow> bool" where
  "word_text v = (\<forall>c \<in> set v. \<not> is_splitlines_boundary c \<and> \<not> is_whitespace c \<and> c \<noteq> 34 \<and> c \<noteq> 39)"

lemma word_text_stored [simp]: "word_text v \<Longrightarrow> stored_value v = v"
  by (rule stored_value_id) (simp add: word_text_def)

lemma word_text_plain: "word_text v \<Longrightarrow> plain_text v"
  by (simp add: word_text_def plain_text_def)

lemma slug_word: "validate_slug slug = Inr () \<Longrightarrow> word_text slug"
  by (auto simp: validate_slug_def word_text_def list_all_iff slug_char_def is_ascii_lowercase_def is_ascii_digit_def
      is_splitlines_boundary_def is_whitespace_def split: if_splits)

lemma iso_date_chars:
  "iso_date_loop lib is v \<Longrightarrow> c \<in> set v \<Longrightarrow> c = dash \<or> wl_category lib c = DecimalNumber"
  by (induction lib "is" v rule: iso_date_loop.induct) (auto split: if_splits)

lemma iso_date_word: "unicode_ok lib \<Longrightarrow> is_iso_date lib v \<Longrightarrow> word_text v"
  using iso_date_chars [of lib "[0..<10]" v]
  by (fastforce simp: word_text_def unicode_ok_def is_iso_date_def is_splitlines_boundary_def is_whitespace_def)

lemma page_type_word: "word_text (page_type_as_str t)"
  by (cases t) (simp_all add: word_text_def lit_def is_splitlines_boundary_def is_whitespace_def)

lemma owner_word: "word_text (owner_as_str ow)"
  by (cases ow) (simp_all add: word_text_def lit_def is_splitlines_boundary_def is_whitespace_def)

lemma status_word: "word_text (status_as_str st)"
  by (cases st) (simp_all add: word_text_def lit_def is_splitlines_boundary_def is_whitespace_def)

lemmas enum_words = page_type_word owner_word status_word

lemma page_type_parse_as_str [simp]: "page_type_parse (page_type_as_str t) = Inr t"
  by (cases t) (simp_all add: page_type_parse_def page_type_table_def)

lemma owner_parse_as_str [simp]: "owner_parse (owner_as_str ow) = Inr ow"
  by (cases ow) (simp_all add: owner_parse_def owner_table_def)

lemma status_parse_as_str [simp]: "status_parse (status_as_str st) = Inr st"
  by (cases st) (simp_all add: status_parse_def)

lemma scalar_char_problem_None: "scalar_char_problem v = None \<Longrightarrow> c \<in> set v \<Longrightarrow> \<not> is_splitlines_boundary c \<and> 0x20 \<le> c \<and> \<not> (0x7F \<le> c \<and> c \<le> 0x9F)"
  by (induction v) (auto split: if_splits)

lemma scalar_plain: "validate_frontmatter_scalar f v = Inr () \<Longrightarrow> plain_text v"
  using scalar_char_problem_None
  by (auto simp: validate_frontmatter_scalar_def scalar_problem_def plain_text_def split: option.splits if_splits)

lemma plain_page_values:
  assumes "unicode_ok lib" and "validate_slug slug = Inr ()" and "plain_text (request_title req)"
    and "plain_text (request_summary req)" and "is_iso_date lib updated" and "is_iso_date lib verified"
  shows "\<forall>(k, v) \<in> set (page_values req slug owner status updated verified). plain_text v"
  using assms slug_word [OF assms(2)] iso_date_word [OF assms(1)] enum_words word_text_plain
  by (simp add: page_values_def)

lemma rendered_fields:
  assumes "unicode_ok lib" and "validate_slug slug = Inr ()" and "plain_text (request_title req)"
    and "plain_text (request_summary req)" and "is_iso_date lib updated" and "is_iso_date lib verified"
  shows "parse_frontmatter_fields (render_page req slug owner status updated verified)
      = Inr (stored_fields (page_values req slug owner status updated verified))"
  unfolding render_page_block
  by (rule parse_block [OF page_values_keys plain_page_values [OF assms]])

lemma rendered_get:
  fixes req owner status
  assumes "unicode_ok lib" and "validate_slug slug = Inr ()" and "is_iso_date lib updated" and "is_iso_date lib verified"
  defines "fs \<equiv> stored_fields (page_values req slug owner status updated verified)"
  shows "bt_get fs (lit ''slug'') = Some slug" "bt_get fs (lit ''title'') = Some (stored_value (request_title req))"
    "bt_get fs (lit ''type'') = Some (page_type_as_str (request_page_type_of req))"
    "bt_get fs (lit ''status'') = Some (status_as_str status)" "bt_get fs (lit ''owner'') = Some (owner_as_str owner)"
    "bt_get fs (lit ''updated'') = Some updated" "bt_get fs (lit ''verified'') = Some verified"
    "bt_get fs (lit ''summary'') = Some (stored_value (request_summary req))"
proof -
  have d: "distinct (map fst (page_values req slug owner status updated verified))"
    unfolding page_values_keys by code_simp
  note get = stored_fields_get [OF d, folded fs_def]
  show "bt_get fs (lit ''slug'') = Some slug" using slug_word [OF assms(2)] by (simp add: get, simp add: page_values_def)
  show "bt_get fs (lit ''title'') = Some (stored_value (request_title req))" by (simp add: get, simp add: page_values_def)
  show "bt_get fs (lit ''type'') = Some (page_type_as_str (request_page_type_of req))" by (simp add: get, simp add: page_values_def enum_words)
  show "bt_get fs (lit ''status'') = Some (status_as_str status)" by (simp add: get, simp add: page_values_def enum_words)
  show "bt_get fs (lit ''owner'') = Some (owner_as_str owner)" by (simp add: get, simp add: page_values_def enum_words)
  show "bt_get fs (lit ''updated'') = Some updated" using iso_date_word [OF assms(1,3)] by (simp add: get, simp add: page_values_def)
  show "bt_get fs (lit ''verified'') = Some verified" using iso_date_word [OF assms(1,4)] by (simp add: get, simp add: page_values_def)
  show "bt_get fs (lit ''summary'') = Some (stored_value (request_summary req))" by (simp add: get, simp add: page_values_def)
qed

lemma parse_rendered:
  assumes "unicode_ok lib" and "validate_slug slug = Inr ()" and "plain_text (request_title req)"
    and "plain_text (request_summary req)" and "is_iso_date lib updated" and "is_iso_date lib verified"
    and "parse_wiki_page lib (render_page req slug owner status updated verified) = Inr p"
  shows "wp_fields p = stored_fields (page_values req slug owner status updated verified)
    \<and> wp_slug p = slug \<and> wp_title p = stored_value (request_title req) \<and> wp_page_type p = request_page_type_of req
    \<and> wp_status p = status \<and> wp_owner p = owner \<and> wp_updated p = updated \<and> wp_verified p = verified
    \<and> wp_summary p = stored_value (request_summary req)"
  using assms(7) rendered_fields [OF assms(1-6), of owner status] rendered_get [OF assms(1,2,5,6), where req = req and owner = owner and status = status]
  by (auto simp: parse_wiki_page_def res_bind_Inr_iff required_page_field_def field_at_def split: if_splits)

section \<open>Change detection\<close>

lemma split_inclusive_line: "nl \<notin> set x \<Longrightarrow> split_inclusive nl cur (x @ nl # rest) = (cur @ x @ [nl]) # split_inclusive nl [] rest"
  by (induction x arbitrary: cur) auto

lemma split_inclusive_concat: "concat (split_inclusive nl cur s) = cur @ s"
  by (induction "nl :: uchar" cur s rule: split_inclusive.induct) auto

lemma plain_text_no_nl: "plain_text x \<Longrightarrow> nl \<notin> set x"
  by (auto simp: plain_text_def is_splitlines_boundary_def)

lemma split_inclusive_block:
  assumes "\<forall>(k, v) \<in> set kvs. canonical_key k \<and> plain_text v"
  shows "split_inclusive nl [] (concat (map field_text kvs) @ fence @ nl # rest)
       = map field_text kvs @ (fence @ [nl]) # split_inclusive nl [] rest"
  using assms
proof (induction kvs)
  case Nil
  then show ?case using split_inclusive_line [of fence "[]" rest] by simp
next
  case (Cons kv kvs)
  obtain k v where kv: "kv = (k, v)" by (cases kv)
  have "nl \<notin> set (k @ [58, sp] @ v)"
    using Cons.prems kv plain_text_no_nl legal_key_text canonical_key_legal by auto
  from split_inclusive_line [OF this, of "[]"] Cons kv show ?case by (simp add: field_text_def)
qed

lemma strip_suffix_snoc [simp]: "strip_suffix [c] (x @ [c]) = Some x"
  by (simp add: strip_suffix_def)

lemma without_dates_rest: "without_dates_loop True True ls = ls"
  by (induction ls) (auto simp: Let_def)

definition is_date_key :: "ustr \<Rightarrow> bool" where
  "is_date_key k = (k = lit ''updated'' \<or> k = lit ''verified'')"

lemma date_line:
  assumes "canonical_key k"
  shows "prefix (lit ''updated:'') (k @ [58, sp] @ v) \<or> prefix (lit ''verified:'') (k @ [58, sp] @ v) \<longleftrightarrow> is_date_key k"
  using assms by (auto simp: canonical_key_def CANONICAL_KEYS_def is_date_key_def lit_def)

lemma without_dates_fields:
  assumes "\<forall>(k, v) \<in> set kvs. canonical_key k"
  shows "without_dates_loop True False (map field_text kvs @ ls)
       = map field_text (filter (\<lambda>(k, v). \<not> is_date_key k) kvs) @ without_dates_loop True False ls"
  using assms
proof (induction kvs)
  case (Cons kv kvs)
  obtain k v where kv: "kv = (k, v)" by (cases kv)
  have k: "canonical_key k" using Cons.prems kv by simp
  have "field_text kv = (k @ [58, sp] @ v) @ [nl]" by (simp add: field_text_def kv)
  moreover have "k @ [58, sp] @ v \<noteq> fence" using render_not_fence [OF canonical_key_legal [OF k]] .
  ultimately have "without_dates_loop True False (field_text kv # ls') =
      (if is_date_key k then [] else [field_text kv]) @ without_dates_loop True False ls'" for ls'
    using date_line [OF k, of v] strip_suffix_snoc [of nl "k @ [58, sp] @ v"] by (simp add: Let_def del: append_assoc)
  with Cons kv show ?case by simp
qed simp

lemma without_dates_block:
  assumes "\<forall>(k, v) \<in> set kvs. canonical_key k \<and> plain_text v"
  shows "without_dates (block_text kvs rest)
       = block_text (filter (\<lambda>(k, v). \<not> is_date_key k) kvs) rest"
proof -
  have "split_inclusive nl [] (block_text kvs rest) = (fence @ [nl]) # map field_text kvs @ (fence @ [nl]) # split_inclusive nl [] rest"
    using split_inclusive_block [OF assms, of rest] split_inclusive_line [of fence "[]"] by (simp add: block_text_def)
  moreover have "without_dates_loop False False ((fence @ [nl]) # ls) = (fence @ [nl]) # without_dates_loop True False ls" for ls
    using strip_suffix_snoc [of nl fence] by simp
  moreover have "without_dates_loop True False ((fence @ [nl]) # ls) = (fence @ [nl]) # ls" for ls
    using strip_suffix_snoc [of nl fence] without_dates_rest by simp
  moreover have "\<forall>(k, v) \<in> set kvs. canonical_key k" using assms by auto
  ultimately show ?thesis
    using without_dates_fields [of kvs] split_inclusive_concat [of "[]" rest]
    by (simp add: without_dates_def block_text_def del: without_dates_loop.simps)
qed

text \<open>The lines of the block and where the text after it starts.\<close>

definition block_head :: "(ustr \<times> ustr) list \<Rightarrow> (ustr \<times> ustr) list" where
  "block_head kvs = (fence, [nl]) # map (\<lambda>(k, v). (k @ [58, sp] @ v, [nl])) kvs @ [(fence, [nl])]"

lemma length_block_head: "length (block_head kvs) = length kvs + 2"
  by (simp add: block_head_def)

lemma split_block_text:
  assumes "\<forall>(k, v) \<in> set kvs. canonical_key k \<and> plain_text v"
  shows "split_lines [] (block_text kvs rest) = block_head kvs @ split_lines [] rest"
proof -
  have "plain_text fence" by code_simp
  from split_lines_text [OF this, of "concat (map field_text kvs) @ fence @ nl # rest"] show ?thesis
    using split_lines_block [OF assms, of rest] by (simp add: block_text_def block_head_def)
qed

lemma block_head_text: "lines_text (block_head kvs) @ rest = block_text kvs rest"
proof -
  have "lines_text (map (\<lambda>(k, v). (k @ [58, sp] @ v, [nl])) kvs) = concat (map field_text kvs)"
    by (induction kvs) (auto simp: field_text_def)
  then show ?thesis by (simp add: block_head_def block_text_def)
qed

lemma block_lines:
  assumes "\<forall>(k, v) \<in> set kvs. canonical_key k \<and> plain_text v"
  shows "python_splitlines (block_text kvs rest)
      = line_starts 0 (block_head kvs) @ line_starts (length (lines_text (block_head kvs))) (split_lines [] rest)"
  using line_starts_append [of 0 "block_head kvs" "split_lines [] rest"]
  by (simp add: python_splitlines_def python_lines_loop_starts split_block_text [OF assms])

lemma block_closing_line:
  assumes "\<forall>(k, v) \<in> set kvs. canonical_key k \<and> plain_text v"
  shows "position (\<lambda>l. snd l = fence) (drop 1 (python_splitlines (block_text kvs rest))) = Some (length kvs)"
proof -
  let ?mid = "map (\<lambda>(k, v). k @ [58, sp] @ v) kvs"
  have "\<forall>l \<in> set ?mid. l \<noteq> fence" using assms canonical_key_legal render_not_fence by fastforce
  then have "position (\<lambda>l. l = fence) (?mid @ fence # map fst (split_lines [] rest)) = Some (length ?mid)"
    by (intro position_first) auto
  moreover have "map snd (drop 1 (python_splitlines (block_text kvs rest))) = ?mid @ fence # map fst (split_lines [] rest)"
    by (simp add: drop_map [symmetric] python_splitlines_contents split_block_text [OF assms] block_head_def
        case_prod_beta' comp_def)
  ultimately show ?thesis
    using position_map [of "\<lambda>l. l = fence" snd "drop 1 (python_splitlines (block_text kvs rest))"] by simp
qed

lemma length_line_starts [simp]: "length (line_starts p ls) = length ls"
  by (metis length_map line_starts_contents)

lemma block_body:
  fixes rest
  assumes "\<forall>(k, v) \<in> set kvs. canonical_key k \<and> plain_text v"
  defines "lines \<equiv> python_splitlines (block_text kvs rest)"
  shows "(if length kvs + 2 < length lines then drop (fst (lines ! (length kvs + 2))) (block_text kvs rest) else []) = rest"
proof (cases "split_lines [] rest")
  case Nil
  then have "rest = []" using lines_text_split_lines [of rest] by simp
  moreover have "length lines = length kvs + 2" using Nil by (simp add: lines_def block_lines [OF assms(1)] length_block_head)
  ultimately show ?thesis by simp
next
  case (Cons l ls)
  obtain c e where l: "l = (c, e)" by (cases l)
  let ?n = "length (lines_text (block_head kvs))"
  have "lines ! length (line_starts 0 (block_head kvs)) = hd (line_starts ?n (split_lines [] rest))"
    unfolding lines_def block_lines [OF assms(1)] Cons by (simp add: l nth_append)
  then have "fst (lines ! (length kvs + 2)) = ?n" by (simp add: length_block_head Cons l)
  moreover have "length kvs + 2 < length lines" by (simp add: lines_def block_lines [OF assms(1)] length_block_head Cons)
  moreover have "drop ?n (block_text kvs rest) = rest" unfolding block_head_text [of kvs rest, symmetric] by simp
  ultimately show ?thesis by simp
qed

lemma canonical_values:
  assumes "map fst kvs = CANONICAL_KEYS" and "\<forall>(k, v) \<in> set kvs. plain_text v"
  shows "\<forall>(k, v) \<in> set kvs. canonical_key k \<and> plain_text v"
proof (clarify)
  fix k v assume kv: "(k, v) \<in> set kvs"
  then have "k \<in> set (map fst kvs)" by force
  then show "canonical_key k \<and> plain_text v" using kv assms(2) by (auto simp: canonical_key_def assms(1) simp del: set_map)
qed

lemma field_at_canonical:
  assumes "set (map fst fs) = set CANONICAL_KEYS" and "k \<in> set CANONICAL_KEYS"
  shows "field_at fs k = Inr (the (bt_get fs k))"
proof -
  have "map_of fs k \<noteq> None" using assms(2) unfolding assms(1) [symmetric] by (simp add: map_of_eq_None_iff)
  then show ?thesis by (auto simp: field_at_def bt_get_def)
qed

lemma recanonicalize_block:
  assumes "map fst kvs = CANONICAL_KEYS" and "\<forall>(k, v) \<in> set kvs. plain_text v"
    and "set (map fst fs) = set CANONICAL_KEYS"
  shows "recanonicalize_frontmatter (block_text kvs rest) fs
       = Inr (block_text (map (\<lambda>k. (k, the (bt_get fs k))) CANONICAL_KEYS) rest)"
proof -
  note can = canonical_values [OF assms(1,2)]
  have src: "parse_source (block_text kvs rest) = block_text kvs rest"
    by (simp add: parse_source_def strip_prefix_def block_text_def)
  from field_at_canonical [OF assms(3)] have "try_map (\<lambda>key. res_map (\<lambda>v. field_text (key, v)) (field_at fs key)) CANONICAL_KEYS
      = Inr (map (\<lambda>k. field_text (k, the (bt_get fs k))) CANONICAL_KEYS)"
    by (intro try_map_total) simp
  then show ?thesis
    using block_closing_line [OF can, of rest] block_body [OF can, where rest = rest]
    by (simp add: recanonicalize_frontmatter_def src Let_def block_text_def [of "map _ _"] comp_def)
qed

section \<open>Outcomes\<close>

lemma validate_today_Inr: "validate_today lib today = Inr u \<longleftrightarrow> is_iso_date lib today"
  by (simp add: validate_today_def refuse_unless_def)

lemma validate_common_Inr:
  assumes "validate_common lib req = Inr slug"
  shows "slugify lib (request_title req) = Inr slug" and "validate_slug slug = Inr ()"
    and "validate_frontmatter_scalar (lit ''title'') (request_title req) = Inr ()"
    and "validate_frontmatter_scalar (lit ''summary'') (request_summary req) = Inr ()"
proof -
  show s: "slugify lib (request_title req) = Inr slug"
    and "validate_frontmatter_scalar (lit ''title'') (request_title req) = Inr ()"
    and "validate_frontmatter_scalar (lit ''summary'') (request_summary req) = Inr ()"
    using assms by (auto simp: validate_common_def res_bind_Inr_iff split: option.splits)
  show "validate_slug slug = Inr ()"
    using s by (cases lib "request_title req" rule: slugify_cases) auto
qed

lemma render_create_Inr:
  assumes "render_create lib req today = Inr page"
  obtains slug p where "is_iso_date lib today" "validate_common lib (Create req) = Inr slug"
    "page = render_page (Create req) slug (cq_owner req) Current today today" "parse_wiki_page lib page = Inr p"
proof -
  obtain slug where r: "is_iso_date lib today" "validate_common lib (Create req) = Inr slug"
    "page = render_page (Create req) slug (cq_owner req) Current today today" "ensure_rendered_page lib page = Inr ()"
    using assms by (auto simp: render_create_def validate_create_def validate_today_Inr res_bind_Inr_iff Let_def)
  from r(4) obtain p where "parse_wiki_page lib page = Inr p"
    by (cases "parse_wiki_page lib page") (auto simp: ensure_rendered_page_iff)
  with r that show thesis by blast
qed

lemma owner_parse_Inr: "owner_parse v = Inr ow \<Longrightarrow> v = owner_as_str ow"
  by (auto simp: owner_parse_def owner_table_def split: if_splits)

lemma status_parse_Inr: "status_parse v = Inr st \<Longrightarrow> v = status_as_str st"
  by (auto simp: status_parse_def split: if_splits)

lemma stored_page_Inr:
  assumes "stored_page req lib today stored = Inr (slug, owner, status, updated)"
  shows "bt_get stored (lit ''slug'') = Some slug \<and> slug = uq_target req \<and> validate_slug slug = Inr ()
    \<and> bt_get stored (lit ''owner'') = Some (owner_as_str owner) \<and> bt_get stored (lit ''status'') = Some (status_as_str status)
    \<and> bt_get stored (lit ''updated'') = Some updated \<and> is_iso_date lib updated \<and> \<not> today < updated"
  using assms
  by (auto simp: stored_page_def res_bind_Inr_iff required_page_field_def field_at_def refuse_unless_def
      validate_page_slug_def dest!: owner_parse_Inr status_parse_Inr split: if_splits sum.splits slug_problem.splits)

lemma parse_rendered_total:
  assumes "unicode_ok lib" and "validate_slug slug = Inr ()"
    and "validate_frontmatter_scalar (lit ''title'') (request_title req) = Inr ()" "stored_value (request_title req) = request_title req"
    and "validate_frontmatter_scalar (lit ''summary'') (request_summary req) = Inr ()" "stored_value (request_summary req) = request_summary req"
    and "is_iso_date lib updated" and "is_iso_date lib verified" and "\<not> verified < updated"
  shows "\<exists>p. parse_wiki_page lib (render_page req slug owner status updated verified) = Inr p"
proof -
  have ne: "v \<noteq> []" if "validate_frontmatter_scalar f v = Inr ()" for f v
    using that by (auto simp: validate_frontmatter_scalar_def scalar_problem_def python_trim_def trim_matches_def
        trim_start_matches_def trim_end_matches_def)
  have "slug \<noteq> []" "updated \<noteq> []" "verified \<noteq> []"
    using assms(2,7,8) by (auto simp: validate_slug_def is_iso_date_def upt_rec)
  then show ?thesis
    using rendered_fields [OF assms(1,2) scalar_plain [OF assms(3)] scalar_plain [OF assms(5)] assms(7,8), of owner status]
      rendered_get [OF assms(1,2,7,8), where req = req and owner = owner and status = status]
      ne [OF assms(3)] ne [OF assms(5)] assms
    by (simp add: parse_wiki_page_def required_page_field_def field_at_def validate_page_slug_def refuse_unless_def)
qed

text \<open>Pages rendered from the same content differ in their dates only.\<close>

definition same_content :: "common_request \<Rightarrow> common_request \<Rightarrow> bool" where
  "same_content a b =
     (request_title a = request_title b \<and> request_page_type_of a = request_page_type_of b \<and> request_fact a = request_fact b
      \<and> request_why a = request_why b \<and> request_how_to_apply a = request_how_to_apply b
      \<and> request_falsified_by a = request_falsified_by b \<and> request_summary a = request_summary b
      \<and> request_related a = request_related b)"

lemma same_content_dates:
  assumes "same_content a b" and "\<forall>(k, v) \<in> set (page_values a slug owner status u1 v1). plain_text v"
    and "\<forall>(k, v) \<in> set (page_values b slug owner status u2 v2). plain_text v"
  shows "without_dates (render_page a slug owner status u1 v1) = without_dates (render_page b slug owner status u2 v2)"
proof -
  have "page_text a = page_text b" "related_text a = related_text b"
    using assms(1) by (simp_all add: same_content_def page_text_def related_text_def)
  moreover have "filter (\<lambda>(k, v). \<not> is_date_key k) (page_values a slug owner status u1 v1)
      = filter (\<lambda>(k, v). \<not> is_date_key k) (page_values b slug owner status u2 v2)"
    using assms(1) by (simp add: page_values_def same_content_def is_date_key_def)
  ultimately show ?thesis
    using without_dates_block [OF canonical_values [OF page_values_keys assms(2)]]
      without_dates_block [OF canonical_values [OF page_values_keys assms(3)]]
    by (simp add: render_page_block)
qed

lemma recanonicalize_rendered:
  fixes owner status
  assumes "unicode_ok lib" and "validate_slug slug = Inr ()" and "plain_text (request_title req)"
    and "plain_text (request_summary req)" and "is_iso_date lib updated" and "is_iso_date lib verified"
    and "stored_value (request_title req) = request_title req" "stored_value (request_summary req) = request_summary req"
  defines "page \<equiv> render_page req slug owner status updated verified"
  shows "recanonicalize_frontmatter page (stored_fields (page_values req slug owner status updated verified)) = Inr page"
proof -
  let ?kvs = "page_values req slug owner status updated verified"
  have parse: "parse_frontmatter_fields page = Inr (stored_fields ?kvs)"
    using rendered_fields [OF assms(1-6)] by (simp add: page_def)
  have "map (\<lambda>k. (k, the (bt_get (stored_fields ?kvs) k))) CANONICAL_KEYS = ?kvs"
    using rendered_get [OF assms(1,2,5,6), where req = req and owner = owner and status = status] assms(7,8)
    by (simp add: CANONICAL_KEYS_def page_values_def)
  then show ?thesis
    using recanonicalize_block [OF page_values_keys plain_page_values [OF assms(1-6)] parse_frontmatter_fields_Inr(3) [OF parse]]
    by (simp add: page_def render_page_block)
qed

subsection \<open>Panics\<close>

definition no_panic :: "'a schema_result \<Rightarrow> bool" where
  "no_panic r = (r \<noteq> Inl Panicked)"

lemma no_panic_bind:
  "no_panic r \<Longrightarrow> (\<And>x. r = Inr x \<Longrightarrow> no_panic (f x)) \<Longrightarrow> no_panic (res_bind r f)"
  by (cases r) (auto simp: no_panic_def)

lemma no_panic_simps [simp]: "no_panic (Inr x)" "no_panic (Inl (Refusal m))" "no_panic (refuse_unless b m)"
  "no_panic (ok_or (Refusal m) v)" "no_panic (Inl no_block)"
  by (auto simp: no_panic_def refuse_unless_def ok_or_def no_block_def split: option.splits)

lemma no_panic_slugify: "no_panic (slugify lib title)"
  by (cases lib title rule: slugify_cases) (auto simp: no_panic_def)

lemma no_panic_scalar: "no_panic (validate_frontmatter_scalar f v)"
  by (auto simp: validate_frontmatter_scalar_def split: option.splits)

lemma no_panic_try_fold: "(\<And>s x. no_panic (f s x)) \<Longrightarrow> no_panic (try_fold f s xs)"
proof (induction f s xs rule: try_fold.induct)
  case (2 f s x xs)
  then show ?case using "2.prems" [of s x] by (auto simp: no_panic_def split: sum.splits)
qed simp

lemma no_panic_try_map: "(\<And>x. no_panic (f x)) \<Longrightarrow> no_panic (try_map f xs)"
  unfolding no_panic_def using try_map_Inl by metis

lemma no_panic_page_slug: "no_panic (validate_page_slug s)"
  by (auto simp: validate_page_slug_def split: sum.splits slug_problem.splits)

lemma no_panic_related: "no_panic (related_check lib slug u related)"
  by (auto simp: related_check_def split: sum.splits slug_problem.splits)

lemma no_panic_string: "no_panic (json_required_string obj f)"
  by (auto simp: json_required_string_def split: option.splits json_value.splits)

lemma no_panic_string_list: "no_panic (json_string_list vs)"
  by (auto simp: json_string_list_def intro!: no_panic_try_map split: json_value.splits)

lemma no_panic_json:
  "no_panic (json_object v)" "no_panic (reject_unknown_fields obj allowed)" "no_panic (create_related obj)"
  "no_panic (update_related_values obj)" "no_panic (update_expected_sha256 obj)" "no_panic (request_page_type t)"
  "no_panic (request_owner t)" "no_panic (require_nonempty f t)"
  using no_panic_string_list
  by (auto simp: json_object_def reject_unknown_fields_def create_related_def update_related_values_def Let_def
      update_expected_sha256_def request_page_type_def request_owner_def require_nonempty_def
      split: json_value.splits option.splits)

lemmas no_panic_intros = no_panic_bind no_panic_slugify no_panic_scalar no_panic_try_fold no_panic_page_slug
  no_panic_related no_panic_string no_panic_string_list no_panic_json

lemma no_panic_create_from_json: "no_panic (create_from_json lib v)"
  unfolding create_from_json_def by (intro no_panic_intros) simp

lemma no_panic_update_from_json: "no_panic (update_from_json lib v)"
  unfolding update_from_json_def by (intro no_panic_intros no_panic_simps)

lemma no_panic_common: "no_panic (validate_common lib req)"
  unfolding validate_common_def by (intro no_panic_intros) (auto intro: no_panic_intros split: option.splits)

lemma no_panic_update: "no_panic (validate_update lib req)"
  unfolding validate_update_def by (intro no_panic_intros no_panic_common no_panic_simps)

lemma no_panic_strict_loop: "no_panic (strict_field_loop fs ls)"
  by (induction fs ls rule: strict_field_loop.induct) (auto split: option.splits)

lemma no_panic_fields: "no_panic (parse_frontmatter_fields source)"
  by (auto simp: parse_frontmatter_fields_def Let_def intro!: no_panic_bind no_panic_strict_loop
      split: list.splits option.splits)

lemma no_panic_field_at:
  "set (map fst fs) = set CANONICAL_KEYS \<Longrightarrow> k \<in> set CANONICAL_KEYS \<Longrightarrow> no_panic (field_at fs k)"
  using field_at_canonical [of fs k] by simp

lemma no_panic_required:
  "set (map fst fs) = set CANONICAL_KEYS \<Longrightarrow> k \<in> set CANONICAL_KEYS \<Longrightarrow> no_panic (required_page_field fs k)"
  by (simp add: required_page_field_def no_panic_bind no_panic_field_at)

lemma no_panic_parse: "no_panic (parse_wiki_page lib source)"
proof (cases "parse_frontmatter_fields source")
  case (Inr fs)
  note keys = parse_frontmatter_fields_Inr(3) [OF Inr]
  have can: "lit k \<in> set CANONICAL_KEYS" if "k \<in> {''slug'', ''title'', ''type'', ''status'', ''owner'', ''updated'', ''verified'', ''summary''}" for k
    using that by (auto simp: CANONICAL_KEYS_def)
  show ?thesis
    unfolding parse_wiki_page_def page_type_parse_def status_parse_def owner_parse_def
    by (intro no_panic_bind no_panic_page_slug no_panic_scalar no_panic_fields no_panic_simps
        no_panic_required no_panic_field_at can)
       (use Inr keys in simp_all)
next
  case (Inl e)
  then show ?thesis using no_panic_fields [of source] by (simp add: parse_wiki_page_def no_panic_def)
qed

lemma no_panic_ensure: "no_panic (ensure_rendered_page lib page)"
  using no_panic_parse [of lib page] by (cases "parse_wiki_page lib page") (simp_all add: ensure_rendered_page_iff no_panic_def)

lemma no_panic_create: "no_panic (render_create lib req today)"
  unfolding render_create_def validate_today_def validate_create_def Let_def
  by (intro no_panic_bind no_panic_common no_panic_ensure no_panic_simps)

lemma no_panic_recanonicalize:
  assumes "set (map fst fs) = set CANONICAL_KEYS"
  shows "no_panic (recanonicalize_frontmatter source fs)"
proof -
  have "try_map (\<lambda>key. res_map (\<lambda>v. field_text (key, v)) (field_at fs key)) CANONICAL_KEYS
      = Inr (map (\<lambda>k. field_text (k, the (bt_get fs k))) CANONICAL_KEYS)"
    using field_at_canonical [OF assms] by (intro try_map_total) simp
  then show ?thesis by (auto simp: recanonicalize_frontmatter_def Let_def split: option.splits)
qed

lemma no_panic_map_err: "(\<And>e. g e \<noteq> Panicked) \<Longrightarrow> no_panic (map_err g r)"
  by (cases r) (auto simp: no_panic_def)

lemma no_panic_stored:
  assumes "set (map fst fs) = set CANONICAL_KEYS"
  shows "no_panic (stored_page req lib today fs)"
proof -
  have can: "lit k \<in> set CANONICAL_KEYS" if "k \<in> {''slug'', ''status'', ''owner'', ''updated''}" for k
    using that by (auto simp: CANONICAL_KEYS_def)
  show ?thesis
    unfolding stored_page_def
    by (intro no_panic_bind no_panic_page_slug no_panic_simps no_panic_required [OF assms] no_panic_field_at [OF assms]
        no_panic_map_err can) (auto simp: stored_refusal_def)
qed

lemma no_panic_render_update: "no_panic (render_update lib req current today)"
proof (cases "parse_frontmatter_fields current")
  case (Inr stored)
  note keys = parse_frontmatter_fields_Inr(3) [OF Inr]
  show ?thesis
    unfolding render_update_def validate_today_def Let_def Inr
    by (intro no_panic_bind no_panic_update no_panic_simps)
       (auto intro!: no_panic_bind no_panic_ensure no_panic_recanonicalize [OF keys] no_panic_stored [OF keys])
next
  case (Inl e)
  then show ?thesis
    using no_panic_fields [of current] unfolding render_update_def validate_today_def
    by (intro no_panic_bind no_panic_update no_panic_simps) (simp_all add: no_panic_def)
qed

lemma tidy_trim_end: "tidy_slug s \<Longrightarrow> trim_end_matches (\<lambda>c. c = dash) s = s"
  by (cases s rule: rev_cases) (auto simp: trim_end_matches_def tidy_slug_def)

lemma slugify_short:
  defines "runs \<equiv> \<lambda>lib title. slug_words (filter (\<lambda>ch. wl_combining_class lib ch = 0) (wl_nfkd_case_fold lib title))"
  assumes "length (join [dash] (runs lib title)) \<le> 64"
  shows "slugify lib title = (if runs lib title = [] then Inl (Refusal (lit ''title produces an empty slug''))
    else Inr (join [dash] (runs lib title)))"
proof -
  let ?j = "join [dash] (runs lib title)"
  have w: "\<forall>w \<in> set (runs lib title). w \<noteq> [] \<and> (\<forall>c \<in> set w. slug_alnum c)" using slug_words_alnum by (simp add: runs_def)
  then have tidy: "tidy_slug ?j" by (rule tidy_join)
  have ne: "?j = [] \<longleftrightarrow> runs lib title = []" using w by (intro join_Nil_iff) blast
  have "slug_truncate ?j = ?j" using assms(2) by (simp add: slug_truncate_def SLUG_MAX_BYTES_def)
  then have "trim_end_matches (\<lambda>c. c = dash) (slug_truncate ?j) = ?j" using tidy_trim_end [OF tidy] by simp
  moreover have "validate_slug ?j = (if ?j = [] then Inl SlugEmpty else Inr ())"
    using tidy assms(2) slug_char_len [of ?j] by (auto simp: validate_slug_def SLUG_MAX_BYTES_def tidy_slug_def list_all_iff)
  ultimately show ?thesis using ne by (simp add: slugify_def slug_loop Let_def runs_def)
qed

section \<open>Examples\<close>

definition ascii_lib :: wiki_lib where
  "ascii_lib =
     \<lparr> wl_nfkd_case_fold = map to_ascii_lowercase, wl_combining_class = (\<lambda>_. 0),
       wl_category = (\<lambda>c. if is_ascii_digit c then DecimalNumber else if c < 32 then Control else OtherCategory),
       wl_regex_digit = is_ascii_digit, wl_sha256_hex = (\<lambda>_. []) \<rparr>"

lemma ascii_lib_ok: "unicode_ok ascii_lib"
  by (auto simp: unicode_ok_def ascii_lib_def is_ascii_digit_def is_splitlines_boundary_def is_whitespace_def split: if_splits)

definition sample_create :: create_request where
  "sample_create =
     \<lparr> cq_title = lit ''Night Mode: on!'', cq_page_type = Gotcha, cq_owner = Codex, cq_fact = lit ''It is dark.'',
       cq_why = lit ''Evening'', cq_how_to_apply = lit ''Press N'', cq_falsified_by = lit ''Daylight'',
       cq_summary = lit ''A summary'', cq_related = [lit ''themes'', lit ''colors'', lit ''themes''] \<rparr>"

definition sample_update :: update_request where
  "sample_update =
     \<lparr> uq_title = lit ''Night Mode: on!'', uq_page_type = Gotcha, uq_fact = lit ''It is dark.'',
       uq_why = lit ''Evening'', uq_how_to_apply = lit ''Press N'', uq_falsified_by = lit ''Daylight'',
       uq_summary = lit ''A summary'', uq_related = [lit ''themes'', lit ''colors'', lit ''themes''],
       uq_update = True, uq_target = lit ''night-mode-on'', uq_expected_sha256 = None \<rparr>"

definition sample_wiki_page :: ustr where
  "sample_wiki_page = render_page (Create sample_create) (lit ''night-mode-on'') Codex Current (lit ''2026-02-03'') (lit ''2026-02-03'')"

lemma sample_create_page: "render_create ascii_lib sample_create (lit ''2026-02-03'') = Inr sample_wiki_page"
  unfolding render_create_def ensure_rendered_page_iff by code_simp

section \<open>Properties\<close>

text \<open>C28: slugs. \<open>slugify\<close> either refuses a title without letters and digits or returns a canonical slug: at
  most 64 lower-case letters, digits and hyphens, with no hyphen at an end or next to another. The
  slug is a prefix of the runs of letters and digits of the folded title joined by hyphens, all of it
  when that has at most 64 characters.\<close>

theorem slugify_canonical:
  defines "runs \<equiv> \<lambda>lib title. filter (\<lambda>w. w \<noteq> []) (split_by (\<lambda>c. \<not> (is_ascii_lowercase c \<or> is_ascii_digit c))
      (filter (\<lambda>c. wl_combining_class lib c = 0) (wl_nfkd_case_fold lib title)))"
  shows "case slugify lib title of
      Inl e \<Rightarrow> e = Refusal (lit ''title produces an empty slug'')
    | Inr slug \<Rightarrow> slug \<noteq> [] \<and> length slug \<le> 64 \<and> hd slug \<noteq> dash \<and> last slug \<noteq> dash \<and> no_double_dash slug
        \<and> (\<forall>c \<in> set slug. is_ascii_lowercase c \<or> is_ascii_digit c \<or> c = dash)
        \<and> prefix slug (join [dash] (runs lib title))
        \<and> (length (join [dash] (runs lib title)) \<le> 64 \<longrightarrow> slug = join [dash] (runs lib title))"
proof -
  have r: "runs lib title = slug_words (filter (\<lambda>c. wl_combining_class lib c = 0) (wl_nfkd_case_fold lib title))"
    by (simp add: runs_def slug_words_def slug_alnum_def)
  show ?thesis
  proof (cases lib title rule: slugify_cases)
    case (1 slug)
    have "slug = join [dash] (runs lib title)" if "length (join [dash] (runs lib title)) \<le> 64"
      using 1(1) slugify_short [OF that [unfolded r]] by (simp add: r split: if_splits)
    then show ?thesis using 1 by (auto simp: r tidy_slug_def slug_char_def)
  qed simp
qed

theorem slugify_canonical_witness:
  "slugify ascii_lib (lit ''Night Mode: on!'') = Inr (lit ''night-mode-on'')
   \<and> no_double_dash (lit ''night-mode-on'')"
proof -
  have s: "slugify ascii_lib (lit ''Night Mode: on!'') = Inr (lit ''night-mode-on'')" by code_simp
  with slugify_canonical [of ascii_lib "lit ''Night Mode: on!''"] show ?thesis by simp
qed

text \<open>C26: the two frontmatter parsers agree. Whenever the strict parser of the wiki accepts a page, the
  tolerant parser of the search reads the same fields, and there is exactly one of every canonical
  key; so a rendered page is rejected only for what the strict parser itself finds.\<close>

theorem wiki_parser_agrees:
  assumes "parse_frontmatter_fields source = Inr fs"
  shows "page_fields (parse_frontmatter source) = fs \<and> set (map fst fs) = set CANONICAL_KEYS \<and> length fs = 8
    \<and> ensure_rendered_page lib source = res_map (\<lambda>_. ()) (parse_wiki_page lib source)"
  using parse_frontmatter_fields_Inr [OF assms] ensure_rendered_page_iff by simp

theorem wiki_parser_agrees_witness:
  "\<exists>fs. parse_frontmatter_fields sample_wiki_page = Inr fs \<and> page_fields (parse_frontmatter sample_wiki_page) = fs \<and> length fs = 8"
proof -
  have "is_ok (parse_frontmatter_fields sample_wiki_page)" by code_simp
  then obtain fs where fs: "parse_frontmatter_fields sample_wiki_page = Inr fs" by (cases "parse_frontmatter_fields sample_wiki_page") auto
  from wiki_parser_agrees [OF fs] fs show ?thesis by blast
qed

lemma stored_page_rendered:
  assumes "unicode_ok lib" and "validate_slug slug = Inr ()" and "is_iso_date lib updated" and "is_iso_date lib verified"
    and "slug = uq_target update" and "\<not> today < updated"
  shows "stored_page update lib today (stored_fields (page_values req slug owner status updated verified))
    = Inr (slug, owner, status, updated)"
proof -
  have "slug \<noteq> []" using assms(2) by (auto simp: validate_slug_def)
  then show ?thesis
    using rendered_get [OF assms(1-4), where req = req and owner = owner and status = status] assms
    by (simp add: stored_page_def required_page_field_def field_at_def validate_page_slug_def refuse_unless_def)
qed

text \<open>C24: a created page says what was asked for. The strict parser reads back the type, owner, dates,
  slug of the title, and title and summary up to the trimming and unquoting of scalars; the search
  parser reads the same fields; the page ends with the texts of the request.\<close>

theorem render_create_roundtrip:
  assumes "unicode_ok lib" and "render_create lib req today = Inr page"
  shows "\<exists>p. parse_wiki_page lib page = Inr p \<and> page_fields (parse_frontmatter page) = wp_fields p
    \<and> slugify lib (cq_title req) = Inr (wp_slug p) \<and> wp_title p = unquote (trim (cq_title req))
    \<and> wp_page_type p = cq_page_type req \<and> wp_owner p = cq_owner req \<and> wp_status p = Current
    \<and> wp_updated p = today \<and> wp_verified p = today \<and> wp_summary p = unquote (trim (cq_summary req))
    \<and> suffix (page_text (Create req) @ related_text (Create req)) page"
proof -
  obtain slug p where today: "is_iso_date lib today" and v: "validate_common lib (Create req) = Inr slug"
    and page: "page = render_page (Create req) slug (cq_owner req) Current today today"
    and p: "parse_wiki_page lib page = Inr p" using render_create_Inr [OF assms(2)] by blast
  note com = validate_common_Inr [OF v]
  have fs: "parse_frontmatter_fields page = Inr (wp_fields p)" using p by (auto simp: parse_wiki_page_def res_bind_Inr_iff)
  have "suffix (page_text (Create req) @ related_text (Create req)) page"
    unfolding page render_page_def by (intro suffix_appendI suffix_order.refl)
  then show ?thesis
    using parse_rendered [OF assms(1) com(2) scalar_plain [OF com(3)] scalar_plain [OF com(4)] today today p [unfolded page]]
      p com(1) parse_frontmatter_fields_Inr(1) [OF fs] page
    by (simp add: stored_value_def strict_unquote_eq)
qed

theorem render_create_roundtrip_witness:
  "\<exists>p. parse_wiki_page ascii_lib sample_wiki_page = Inr p \<and> wp_owner p = Codex \<and> wp_updated p = lit ''2026-02-03''"
  using render_create_roundtrip [OF ascii_lib_ok sample_create_page] by (auto simp: sample_create_def)


text \<open>Repeating what a page says is not a change. If a page was created with scalars the parsers keep as
  they are, an update with the same content on a later day keeps its date of change, reports no
  change, and only moves the date of verification.\<close>

lemma update_same_content:
  assumes "unicode_ok lib" and "render_create lib create day = Inr page" and "validate_update lib update = Inr slug"
    and "same_content (Create create) (Update update)"
    and "unquote (trim (cq_title create)) = cq_title create" and "unquote (trim (cq_summary create)) = cq_summary create"
    and "is_iso_date lib today" and "\<not> today < day" and "uq_expected_sha256 update = None"
  shows "render_update lib update page today
    = Inr \<lparr> ru_page = render_page (Update update) slug (cq_owner create) Current day today, ru_content_changed = False \<rparr>"
proof -
  obtain slug' where day: "is_iso_date lib day" and v: "validate_common lib (Create create) = Inr slug'"
    and page: "page = render_page (Create create) slug' (cq_owner create) Current day day"
    using render_create_Inr [OF assms(2)] by blast
  have u: "validate_common lib (Update update) = Inr slug" "slug = uq_target update"
    using assms(3) by (auto simp: validate_update_def res_bind_Inr_iff refuse_unless_def split: if_splits)
  note c = validate_common_Inr [OF v] and n = validate_common_Inr [OF u(1)]
  have slug: "slug' = slug" using c(1) n(1) assms(4) by (simp add: same_content_def)
  have sv: "stored_value (request_title (Create create)) = request_title (Create create)"
    "stored_value (request_summary (Create create)) = request_summary (Create create)"
    using assms(5,6) by (simp_all add: stored_value_def strict_unquote_eq)
  let ?kvs = "page_values (Create create) slug (cq_owner create) Current day day"
  note plain = scalar_plain [OF c(3)] scalar_plain [OF c(4)]
  have fields: "parse_frontmatter_fields page = Inr (stored_fields ?kvs)"
    using rendered_fields [OF assms(1) c(2) plain day day] by (simp add: page slug)
  have sp: "stored_page update lib today (stored_fields ?kvs) = Inr (slug, cq_owner create, Current, day)"
    using stored_page_rendered [OF assms(1) n(2) day day u(2) assms(8)] by simp
  have rec: "recanonicalize_frontmatter page (stored_fields ?kvs) = Inr page"
    using recanonicalize_rendered [OF assms(1) c(2) plain day day sv] by (simp add: page slug)
  have same: "without_dates (render_page (Update update) slug (cq_owner create) Current day today) = without_dates page"
    unfolding page slug
    by (rule same_content_dates [symmetric, OF assms(4) plain_page_values [OF assms(1) n(2) plain day day]
        plain_page_values [OF assms(1) n(2) scalar_plain [OF n(3)] scalar_plain [OF n(4)] day assms(7)]])
  have sv': "stored_value (request_title (Update update)) = request_title (Update update)"
    "stored_value (request_summary (Update update)) = request_summary (Update update)"
    using sv assms(4) by (simp_all add: same_content_def)
  obtain p where "parse_wiki_page lib (render_page (Update update) slug (cq_owner create) Current day today) = Inr p"
    using parse_rendered_total [OF assms(1) n(2) n(3) sv'(1) n(4) sv'(2) day assms(7,8)] by blast
  then show ?thesis
    using assms(3,7,9) fields sp rec same by (simp add: render_update_def validate_today_Inr refuse_unless_def ensure_rendered_page_iff validate_today_def)
qed

lemma update_same_content_example:
  "\<exists>r. render_update ascii_lib sample_update sample_wiki_page (lit ''2026-02-05'') = Inr r \<and> \<not> ru_content_changed r"
proof -
  have "validate_update ascii_lib sample_update = Inr (lit ''night-mode-on'')" by code_simp
  moreover have "same_content (Create sample_create) (Update sample_update)"
    by (simp add: same_content_def sample_create_def sample_update_def)
  moreover have "unquote (trim (cq_title sample_create)) = cq_title sample_create"
    "unquote (trim (cq_summary sample_create)) = cq_summary sample_create" by code_simp+
  moreover have "is_iso_date ascii_lib (lit ''2026-02-05'')" "\<not> lit ''2026-02-05'' < lit ''2026-02-03''" by code_simp+
  moreover have "uq_expected_sha256 sample_update = None" by (simp add: sample_update_def)
  ultimately show ?thesis using update_same_content [OF ascii_lib_ok sample_create_page] by fastforce
qed


text \<open>C27: no input makes the schema code panic: not the JSON of a request, not a title, and not a stored page,
  however damaged; every failure is a refusal with its text.\<close>

theorem wiki_schema_never_panics:
  "slugify lib title \<noteq> Inl Panicked \<and> create_from_json lib v \<noteq> Inl Panicked \<and> update_from_json lib v \<noteq> Inl Panicked
   \<and> parse_wiki_page lib source \<noteq> Inl Panicked \<and> render_create lib create today \<noteq> Inl Panicked
   \<and> render_update lib update source today \<noteq> Inl Panicked"
  using no_panic_slugify [of lib title] no_panic_create_from_json [of lib v] no_panic_update_from_json [of lib v]
    no_panic_parse [of lib source] no_panic_create [of lib create today] no_panic_render_update [of lib update source today]
  by (simp add: no_panic_def)

definition quoted_update :: update_request where
  "quoted_update = sample_update\<lparr> uq_title := [34] @ lit ''Night Mode on'' @ [34] \<rparr>"

definition quoted_page :: ustr where
  "quoted_page = render_page (Update quoted_update) (lit ''night-mode-on'') Codex Current (lit ''2026-02-05'') (lit ''2026-02-05'')"

lemma quoted_update_first:
  "render_update ascii_lib quoted_update sample_wiki_page (lit ''2026-02-05'') = Inr \<lparr> ru_page = quoted_page, ru_content_changed = True \<rparr>"
  unfolding render_update_def ensure_rendered_page_iff by code_simp

lemma quoted_update_again:
  "res_map ru_content_changed (render_update ascii_lib quoted_update quoted_page (lit ''2026-02-06'')) = Inr True"
  unfolding render_update_def ensure_rendered_page_iff by code_simp

text \<open>A quoted title defeats change detection. The same update applied to the page it has just written is
  reported as a change again, because the stored title loses its quotes and the requested one keeps
  them.\<close>

lemma quoted_update_changes_forever:
  "\<exists>r r'. render_update ascii_lib quoted_update sample_wiki_page (lit ''2026-02-05'') = Inr r
     \<and> render_update ascii_lib quoted_update (ru_page r) (lit ''2026-02-06'') = Inr r' \<and> ru_content_changed r'"
proof -
  obtain r' where "render_update ascii_lib quoted_update quoted_page (lit ''2026-02-06'') = Inr r'" "ru_content_changed r'"
    using quoted_update_again by (cases "render_update ascii_lib quoted_update quoted_page (lit ''2026-02-06'')") auto
  then show ?thesis using quoted_update_first by fastforce
qed

end
