(* ===== verification/Wiki_Index.thy ===== *)
theory Wiki_Index
  imports Wiki_Page
begin

text \<open>
  The generated index of a wiki (\<open>crates/yams-wiki/src/index.rs\<close>): the marked region of \<open>INDEX.md\<close>, the
  entries rendered into it, adoption of an index from before the markers, and the reading of a page
  for the index. Offsets are scalar offsets, as everywhere; a slice out of range is a panic.
\<close>

section \<open>Model\<close>

definition BEGIN_MARKER :: ustr where
  "BEGIN_MARKER = lit ''<!-- BEGIN GENERATED INDEX '' @ em_dash @ lit '' edited by yams-wiki catalog, not by hand -->''"

definition END_MARKER :: ustr where
  "END_MARKER = lit ''<!-- END GENERATED INDEX -->''"

definition TYPE_ORDER :: "page_type list" where
  "TYPE_ORDER = [Gotcha, Pattern, Decision, Workflow, ProjectState, Feature]"

definition LEGACY_HEADINGS :: "ustr list" where
  "LEGACY_HEADINGS =
     [lit ''## Gotchas '' @ em_dash @ lit '' tooling and environment'', lit ''## Gotchas '' @ em_dash @ lit '' retrieval traps'',
      lit ''## Decisions'', lit ''## Patterns'', lit ''## Workflow'', lit ''## Features '' @ em_dash @ lit '' architecture pointers'']"

record index_page =
  ip_slug :: ustr
  ip_page_type :: page_type
  ip_summary :: ustr

record index_check =
  ic_canonical :: bool
  ic_diff :: "ustr option"

datatype index_error = Shape ustr | PageError ustr ustr | IndexPanic

type_synonym 'a index_result = "(index_error, 'a) result"

record marker_region =
  head_end :: nat
  tail_start :: nat

definition is_break :: "uchar \<Rightarrow> bool" where
  "is_break c = (c = nl \<or> c = cr)"

definition is_complete_line :: "ustr \<Rightarrow> nat \<Rightarrow> nat \<Rightarrow> bool" where
  "is_complete_line source start stop =
     ((start = 0 \<or> is_break (source ! (start - 1))) \<and> (stop = length source \<or> is_break (source ! stop)))"

definition marker_region_with_begin :: "ustr \<Rightarrow> ustr \<Rightarrow> marker_region index_result" where
  "marker_region_with_begin current begin_marker =
     (let begins = match_indices begin_marker 0 current; ends = match_indices END_MARKER 0 current
      in if length begins \<noteq> 1 then Inl (Shape (lit ''expected exactly one BEGIN marker, found '' @ decimal (length begins)))
         else if length ends \<noteq> 1 then Inl (Shape (lit ''expected exactly one END marker, found '' @ decimal (length ends)))
         else (let start = begins ! 0; stop = ends ! 0
               in if \<not> is_complete_line current start (start + length begin_marker)
                  then Inl (Shape (lit ''BEGIN marker is not a complete line''))
                  else if \<not> is_complete_line current stop (stop + length END_MARKER)
                  then Inl (Shape (lit ''END marker is not a complete line''))
                  else if stop < start + length begin_marker then Inl (Shape (lit ''END marker appears before BEGIN marker''))
                  else Inr \<lparr> head_end = min (start + length begin_marker + 1) (length current), tail_start = stop \<rparr>))"

definition marker_region :: "ustr \<Rightarrow> marker_region index_result" where
  "marker_region current = marker_region_with_begin current BEGIN_MARKER"

definition generated_region :: "ustr \<Rightarrow> ustr index_result" where
  "generated_region current =
     res_bind (marker_region current) (\<lambda>region.
     if head_end region \<le> tail_start region then Inr (slice current (head_end region) (tail_start region)) else Inl IndexPanic)"

text \<open>The name of the predecessor is masked in the source.\<close>

definition masked_brand :: ustr where
  "masked_brand =
     concat (map (\<lambda>masked_pair. let pair = semiring_bit_operations_class.xor masked_pair (0xA5A5 :: 16 word)
                                in [unat (drop_bit 8 pair), unat pair mod 256]) [0xC8CA, 0xCBC0, 0xD1C4])"

definition retired_begin_markers :: "ustr list" where
  "retired_begin_markers =
     [lit ''<!-- BEGIN GENERATED INDEX '' @ em_dash @ lit '' edited by '' @ masked_brand @ lit ''-wiki reindex, not by hand -->'',
      lit ''<!-- BEGIN GENERATED INDEX '' @ em_dash @ lit '' edited by yams-wiki reindex, not by hand -->'']"

subsection \<open>Pages\<close>

fun summary_char_problem :: "ustr \<Rightarrow> ustr option" where
  "summary_char_problem [] = None"
| "summary_char_problem (ch # rest) =
     (if is_splitlines_boundary ch then Some (lit ''summary contains a line boundary'')
      else if ch < 0x20 \<or> (0x7F \<le> ch \<and> ch \<le> 0x9F) then Some (lit ''summary contains a control character'')
      else summary_char_problem rest)"

lemma drop_find_shorter: "str_find (lit ''(pages/'') rest = Some start \<Longrightarrow> length (drop (start + 7) rest) < length rest"
  by (cases rest) (auto simp: lit_def)

function has_index_link_shape :: "ustr \<Rightarrow> bool" where
  "has_index_link_shape rest =
     (case str_find (lit ''(pages/'') rest of
        None \<Rightarrow> False
      | Some start \<Rightarrow>
          (let rest = drop (start + 7) rest
           in (case str_find (lit ''.md)'') rest of Some stop \<Rightarrow> 0 < stop \<and> 41 \<notin> set (take stop rest) | None \<Rightarrow> False)
              \<or> has_index_link_shape rest))"
  by pat_completeness auto
termination by (relation "measure length") (auto dest: drop_find_shorter)

declare has_index_link_shape.simps [simp del]

definition summary_problem :: "ustr \<Rightarrow> ustr option" where
  "summary_problem summary =
     (if trim_matches is_python_space summary = [] then Some (lit ''summary is empty'')
      else case summary_char_problem summary of
             Some p \<Rightarrow> Some p
           | None \<Rightarrow>
               if str_contains (lit ''<!--'') summary \<or> str_contains (lit ''-->'') summary
               then Some (lit ''summary contains an HTML comment delimiter'')
               else if has_index_link_shape summary then Some (lit ''summary contains index-link-shaped text'')
               else None)"

definition slug_bytes_text :: ustr where
  "slug_bytes_text = lit ''slug must be at most '' @ decimal SLUG_MAX_BYTES @ lit '' bytes''"

fun validate_pages_loop :: "ustr list \<Rightarrow> index_page list \<Rightarrow> unit index_result" where
  "validate_pages_loop seen [] = Inr ()"
| "validate_pages_loop seen (page # pages) =
     (case validate_slug (ip_slug page) of
        Inl SlugTooLong \<Rightarrow> Inl (PageError (ip_slug page) slug_bytes_text)
      | Inl _ \<Rightarrow> Inl (PageError (ip_slug page) (lit ''slug is not [a-z0-9-]+''))
      | Inr _ \<Rightarrow>
          if ip_slug page \<in> set seen then Inl (PageError (ip_slug page) (lit ''slug appears more than once''))
          else (case summary_problem (ip_summary page) of
                  Some problem \<Rightarrow> Inl (PageError (ip_slug page) problem)
                | None \<Rightarrow> validate_pages_loop (ip_slug page # seen) pages))"

definition validate_pages :: "index_page list \<Rightarrow> unit index_result" where
  "validate_pages pages = validate_pages_loop [] pages"

definition entry_text :: "index_page \<Rightarrow> ustr" where
  "entry_text page =
     lit ''- ['' @ ip_slug page @ lit ''](pages/'' @ ip_slug page @ lit ''.md) '' @ em_dash @ [sp] @ ip_summary page @ [nl]"

definition slug_cmp :: "index_page \<Rightarrow> index_page \<Rightarrow> ordering" where
  "slug_cmp left right = cmp (ip_slug left) (ip_slug right)"

definition rows_of :: "index_page list \<Rightarrow> page_type \<Rightarrow> index_page list" where
  "rows_of pages page_type = sort_by slug_cmp (filter (\<lambda>page. ip_page_type page = page_type) pages)"

definition group_text :: "page_type \<Rightarrow> index_page list \<Rightarrow> ustr" where
  "group_text page_type rows = lit ''## '' @ page_type_heading page_type @ [nl, nl] @ concat (map entry_text rows)"

definition render_entries :: "index_page list \<Rightarrow> ustr" where
  "render_entries pages =
     (let groups = map (\<lambda>t. group_text t (rows_of pages t)) (filter (\<lambda>t. rows_of pages t \<noteq> []) TYPE_ORDER)
      in if groups = [] then [nl] else join [nl] groups)"

subsection \<open>Rebuilding and checking\<close>

definition rebuild_index :: "ustr \<Rightarrow> index_page list \<Rightarrow> ustr index_result" where
  "rebuild_index current pages =
     res_bind (marker_region current) (\<lambda>region.
     res_bind (validate_pages pages) (\<lambda>_.
     Inr (take (head_end region) current @ [nl] @ render_entries pages @ [nl] @ drop (tail_start region) current)))"

definition unified_diff :: "ustr \<Rightarrow> ustr \<Rightarrow> ustr" where
  "unified_diff current canonical =
     (let current_lines = str_lines current; canonical_lines = str_lines canonical
      in lit ''--- INDEX.md'' @ [nl] @ lit ''+++ canonical INDEX.md'' @ [nl] @ lit ''@@ -1,'' @ decimal (length current_lines)
         @ lit '' +1,'' @ decimal (length canonical_lines) @ lit '' @@'' @ [nl]
         @ concat (map (\<lambda>line. [45] @ line @ [nl]) current_lines)
         @ concat (map (\<lambda>line. [43] @ line @ [nl]) canonical_lines))"

definition compare_index :: "ustr \<Rightarrow> ustr \<Rightarrow> index_check" where
  "compare_index current canonical =
     (if canonical = current then \<lparr> ic_canonical = True, ic_diff = None \<rparr>
      else \<lparr> ic_canonical = False, ic_diff = Some (unified_diff current canonical) \<rparr>)"

definition check_index :: "ustr \<Rightarrow> index_page list \<Rightarrow> index_check index_result" where
  "check_index current pages = res_map (compare_index current) (rebuild_index current pages)"

subsection \<open>Adoption\<close>

fun logical_lines_loop :: "nat \<Rightarrow> ustr \<Rightarrow> ustr \<Rightarrow> (nat \<times> ustr) list" where
  "logical_lines_loop start cur [] = (if cur = [] then [] else [(start, cur)])"
| "logical_lines_loop start cur (c # rest) =
     (if is_break c
      then (start, cur)
           # (if c = cr \<and> rest \<noteq> [] \<and> hd rest = nl then logical_lines_loop (start + length cur + 2) [] (tl rest)
              else logical_lines_loop (start + length cur + 1) [] rest)
      else logical_lines_loop start (cur @ [c]) rest)"

definition index_logical_lines :: "ustr \<Rightarrow> (nat \<times> ustr) list" where
  "index_logical_lines source = logical_lines_loop 0 [] source"

definition is_legacy_entry :: "ustr \<Rightarrow> bool" where
  "is_legacy_entry line =
     (case strip_prefix (lit ''- ['') line of None \<Rightarrow> False | Some rest \<Rightarrow>
      case split_once_str (lit ''](''  ) rest of None \<Rightarrow> False | Some (label, rest) \<Rightarrow>
      case split_once_str (lit '') '' @ em_dash @ [sp]) rest of None \<Rightarrow> False | Some (destination, summary) \<Rightarrow>
      if label = [] \<or> summary_problem summary \<noteq> None then False
      else (case strip_prefix (lit ''pages/'') destination of None \<Rightarrow> False | Some r \<Rightarrow>
            case strip_suffix (lit ''.md'') r of None \<Rightarrow> False | Some slug \<Rightarrow> is_ok (validate_slug slug)))"

definition legacy_line :: "ustr \<Rightarrow> bool" where
  "legacy_line line = (line = [] \<or> line \<in> set LEGACY_HEADINGS \<or> is_legacy_entry line)"

definition adopt_retired :: "ustr \<Rightarrow> ustr \<Rightarrow> ustr index_result" where
  "adopt_retired current retired =
     res_bind (marker_region_with_begin current retired) (\<lambda>_.
     case str_find retired current of
       None \<Rightarrow> Inl IndexPanic
     | Some start \<Rightarrow> Inr (take start current @ BEGIN_MARKER @ drop (start + length retired) current))"

definition adopt_headings :: "ustr \<Rightarrow> ustr index_result" where
  "adopt_headings current =
     (let lines = index_logical_lines current
      in case position (\<lambda>line. snd line \<in> set LEGACY_HEADINGS) lines of
           None \<Rightarrow> Inl (Shape (lit ''no exact legacy heading found''))
         | Some first \<Rightarrow>
            (case position (\<lambda>line. \<not> legacy_line (snd line)) (drop first lines) of
               Some offset \<Rightarrow> Inl (Shape (lit ''legacy line '' @ decimal (first + offset + 1)
                                       @ lit '' is not a known heading, exact entry, or blank''))
             | None \<Rightarrow> Inr (take (fst (lines ! first)) current @ BEGIN_MARKER @ [nl, nl] @ END_MARKER @ [nl])))"

definition adopt_legacy :: "ustr \<Rightarrow> ustr index_result" where
  "adopt_legacy current =
     (if str_contains BEGIN_MARKER current then Inl (Shape (lit ''INDEX.md already contains a generated marker''))
      else (let retired = find (\<lambda>marker. str_contains marker current) retired_begin_markers
            in if retired \<noteq> None \<or> str_contains END_MARKER current
               then adopt_retired current (case retired of Some marker \<Rightarrow> marker | None \<Rightarrow> hd retired_begin_markers)
               else adopt_headings current))"

subsection \<open>Reading a page for the index\<close>

definition has_parent :: "ustr \<Rightarrow> bool" where
  "has_parent path = (2 \<le> length (components path) \<and> last (components path) \<noteq> RootDir)"

definition extension_of :: "ustr \<Rightarrow> ustr option" where
  "extension_of path =
     (case file_name path of None \<Rightarrow> None
      | Some name \<Rightarrow> (case rposition (\<lambda>c. c = dot) name of None \<Rightarrow> None
                     | Some i \<Rightarrow> if i = 0 then None else Some (drop (i + 1) name)))"

definition parse_index_page :: "ustr \<Rightarrow> ustr \<Rightarrow> index_page index_result" where
  "parse_index_page filename source =
     (if has_parent filename \<or> extension_of filename \<noteq> Some (lit ''md'')
      then Inl (PageError filename (lit ''expected an immediate lowercase .md page''))
      else case file_stem filename of
        None \<Rightarrow> Inl (PageError filename (lit ''filename is not valid UTF-8''))
      | Some slug \<Rightarrow>
         (let fs = page_fields (parse_frontmatter source)
          in if fs = [] then Inl (PageError filename (lit ''no parseable frontmatter''))
             else if bt_get fs (lit ''slug'') \<noteq> Some slug then Inl (PageError filename (lit ''declares a mismatched slug''))
             else (case validate_slug slug of
                     Inl SlugTooLong \<Rightarrow> Inl (PageError filename slug_bytes_text)
                   | Inl _ \<Rightarrow> Inl (PageError filename (lit ''filename is not slug-shaped''))
                   | Inr _ \<Rightarrow>
                      (case (case bt_get fs (lit ''type'') of None \<Rightarrow> None | Some t \<Rightarrow> map_of page_type_table t) of
                         None \<Rightarrow> Inl (PageError filename (lit ''has an unknown or missing type''))
                       | Some page_type \<Rightarrow>
                          (let summary = (case bt_get fs (lit ''summary'') of Some s \<Rightarrow> s | None \<Rightarrow> [])
                           in case summary_problem summary of
                                Some problem \<Rightarrow> Inl (PageError filename problem)
                              | None \<Rightarrow> Inr \<lparr> ip_slug = slug, ip_page_type = page_type, ip_summary = summary \<rparr>)))))"

section \<open>Occurrences and line breaks\<close>

lemma occurs_at_append_right: "occurs_at pat (x @ y) (length x + j) \<longleftrightarrow> occurs_at pat y j"
  by (simp add: occurs_at_def)

text \<open>A pattern without line breaks does not cross one.\<close>

definition line_pattern :: "ustr \<Rightarrow> bool" where
  "line_pattern pat = (headed pat \<and> (\<forall>c \<in> set pat. \<not> is_break c))"

lemma occurs_at_lines:
  assumes "line_pattern pat" and "x = [] \<or> is_break (last x) \<or> y = [] \<or> is_break (hd y)"
  shows "occurs_at pat (x @ y) i \<longleftrightarrow> occurs_at pat x i \<or> (length x \<le> i \<and> occurs_at pat y (i - length x))"
proof
  assume o: "occurs_at pat (x @ y) i"
  have pat: "0 < length pat" "\<And>k. k < length pat \<Longrightarrow> \<not> is_break (pat ! k)"
    using assms(1) by (auto simp: line_pattern_def headed_def)
  consider "length x \<le> i" | "i + length pat \<le> length x" | "i < length x" "length x < i + length pat" by linarith
  then show "occurs_at pat x i \<or> (length x \<le> i \<and> occurs_at pat y (i - length x))"
  proof cases
    case 1
    then show ?thesis using o occurs_at_append_right [of pat x y "i - length x"] by simp
  next
    case 2
    have "x ! (i + k) = pat ! k" if "k < length pat" for k
      using o 2 that by (auto simp: occurs_at_nth nth_append dest!: spec [of _ k] split: if_splits)
    with 2 show ?thesis by (simp add: occurs_at_nth)
  next
    case 3
    let ?k = "length x - 1 - i" and ?l = "length x - i"
    have "?k < length pat" "?l < length pat" "i + ?k = length x - 1" "i + ?l = length x" using 3 by auto
    then have "(x @ y) ! (length x - 1) = pat ! ?k" "(x @ y) ! length x = pat ! ?l"
      using o by (metis occurs_at_nth)+
    moreover have "y \<noteq> []" "x \<noteq> []" using o 3 by (auto simp: occurs_at_nth)
    ultimately have "last x = pat ! ?k" "hd y = pat ! ?l"
      by (simp_all add: nth_append last_conv_nth hd_conv_nth)
    then show ?thesis using assms(2) pat(2) \<open>?k < length pat\<close> \<open>?l < length pat\<close> \<open>x \<noteq> []\<close> \<open>y \<noteq> []\<close> by auto
  qed
next
  assume "occurs_at pat x i \<or> (length x \<le> i \<and> occurs_at pat y (i - length x))"
  then show "occurs_at pat (x @ y) i"
    using occurs_at_append_left occurs_at_append_right [of pat x y "i - length x"] by auto
qed

lemma str_contains_lines:
  assumes "line_pattern pat" and "x = [] \<or> is_break (last x) \<or> y = [] \<or> is_break (hd y)"
  shows "str_contains pat (x @ y) \<longleftrightarrow> str_contains pat x \<or> str_contains pat y"
  unfolding str_contains_occurs occurs_at_lines [OF assms] by (metis add.commute add_diff_cancel_right' le_add1 le_add2)

lemma str_contains_hd: "line_pattern pat \<Longrightarrow> hd pat \<notin> set x \<Longrightarrow> str_contains pat (x @ y) \<longleftrightarrow> str_contains pat y"
proof -
  assume p: "line_pattern pat" and x: "hd pat \<notin> set x"
  have "pat \<noteq> []" using p by (simp add: line_pattern_def headed_def)
  then have "\<not> prefix pat (c # s)" if "c \<noteq> hd pat" for c s using that by (cases pat) auto
  then show ?thesis using x by (induction x) auto
qed

lemma line_pattern_markers:
  "line_pattern BEGIN_MARKER" "line_pattern END_MARKER" "\<forall>m \<in> set retired_begin_markers. line_pattern m"
  by code_simp+

section \<open>The marked region\<close>

text \<open>What a located region is: the only occurrences of the two markers, each a line of its own.\<close>

definition located :: "ustr \<Rightarrow> ustr \<Rightarrow> nat \<Rightarrow> nat \<Rightarrow> bool" where
  "located current begin_marker start stop =
     ((\<forall>j. occurs_at begin_marker current j \<longleftrightarrow> j = start) \<and> (\<forall>j. occurs_at END_MARKER current j \<longleftrightarrow> j = stop)
      \<and> is_complete_line current start (start + length begin_marker)
      \<and> is_complete_line current stop (stop + length END_MARKER) \<and> start + length begin_marker \<le> stop)"

lemma located_iff:
  assumes "line_pattern begin_marker"
  shows "marker_region_with_begin current begin_marker = Inr region \<longleftrightarrow>
    (\<exists>start stop. located current begin_marker start stop
       \<and> region = \<lparr> head_end = min (start + length begin_marker + 1) (length current), tail_start = stop \<rparr>)"
proof -
  have h: "headed begin_marker" "headed END_MARKER" using assms line_pattern_markers(2) by (simp_all add: line_pattern_def)
  show ?thesis (is "?l = ?r")
  proof
    assume l: ?l
    then obtain start stop where m: "match_indices begin_marker 0 current = [start]" "match_indices END_MARKER 0 current = [stop]"
      by (auto simp: marker_region_with_begin_def Let_def length_Suc_conv split: if_splits)
    with l match_indices_single [OF h(1)] match_indices_single [OF h(2)] show ?r
      by (intro exI [of _ start] exI [of _ stop]) (auto simp: marker_region_with_begin_def located_def Let_def split: if_splits)
  next
    assume ?r
    then obtain start stop where r: "located current begin_marker start stop"
      "region = \<lparr> head_end = min (start + length begin_marker + 1) (length current), tail_start = stop \<rparr>" by blast
    then have "match_indices begin_marker 0 current = [start]" "match_indices END_MARKER 0 current = [stop]"
      using match_indices_single [OF h(1)] match_indices_single [OF h(2)] unfolding located_def by blast+
    with r show ?l by (simp add: marker_region_with_begin_def located_def)
  qed
qed

lemma END_MARKER_break: "END_MARKER \<noteq> []" "\<not> is_break (hd END_MARKER)" "hd END_MARKER = 60"
  by code_simp+

lemma located_gap:
  assumes "located current begin_marker start stop"
  shows "start + length begin_marker + 1 \<le> stop" and "stop < length current" and "is_break (current ! (start + length begin_marker))"
proof -
  have o: "occurs_at END_MARKER current stop" and le: "start + length begin_marker \<le> stop"
    and line: "is_complete_line current start (start + length begin_marker)" using assms by (auto simp: located_def)
  have len: "0 < length END_MARKER" using END_MARKER_break(1) by simp
  with occurs_at_length [OF o] show st: "stop < length current" by linarith
  then have "start + length begin_marker < length current" using le by linarith
  with line show br: "is_break (current ! (start + length begin_marker))" by (auto simp: is_complete_line_def)
  have "current ! stop = hd END_MARKER" using o len by (auto simp: occurs_at_nth hd_conv_nth dest: spec [of _ 0])
  then have "stop \<noteq> start + length begin_marker" using br END_MARKER_break(2) by auto
  with le show "start + length begin_marker + 1 \<le> stop" by linarith
qed

text \<open>Replacing what is between the markers keeps the region located.\<close>

lemma located_replace:
  assumes loc: "located current BEGIN_MARKER start stop"
    and none: "\<not> str_contains BEGIN_MARKER g" "\<not> str_contains END_MARKER g"
  defines "head \<equiv> take (start + length BEGIN_MARKER + 1) current"
  defines "out \<equiv> head @ ([nl] @ g @ [nl]) @ drop stop current"
  shows "located out BEGIN_MARKER start (length head + length g + 2)"
    and "take (start + length BEGIN_MARKER + 1) out = head"
    and "drop (length head + length g + 2) out = drop stop current"
proof -
  let ?tail = "drop stop current" and ?m = "[nl] @ g @ [nl]" and ?h = "start + length BEGIN_MARKER + 1"
  note gap = located_gap [OF loc]
  have lh: "length head = ?h" using gap by (simp add: head_def)
  have nl: "is_break nl" by (simp add: is_break_def)
  have m: "\<not> str_contains pat ?m" if "line_pattern pat" "\<not> str_contains pat g" for pat
  proof -
    have "\<not> str_contains pat [nl]" using that(1) nl by (cases pat) (auto simp: line_pattern_def headed_def)
    then show ?thesis
      using that str_contains_lines [OF that(1), of "[nl]" "g @ [nl]"] str_contains_lines [OF that(1), of g "[nl]"] nl by simp
  qed
  have occ: "occurs_at pat out j \<longleftrightarrow> occurs_at pat head j \<or> (length head + length g + 2 \<le> j \<and> occurs_at pat ?tail (j - (length head + length g + 2)))"
    if p: "line_pattern pat" "\<not> str_contains pat g" for pat j
  proof -
    have "occurs_at pat out j \<longleftrightarrow> occurs_at pat head j \<or> (length head \<le> j \<and> occurs_at pat (?m @ ?tail) (j - length head))"
      unfolding out_def using nl by (intro occurs_at_lines [OF p(1)]) simp
    also have "occurs_at pat (?m @ ?tail) (j - length head) \<longleftrightarrow> length ?m \<le> j - length head \<and> occurs_at pat ?tail (j - length head - length ?m)"
      using occurs_at_lines [OF p(1), of ?m ?tail "j - length head"] m [OF p] nl by (simp add: str_contains_occurs)
    finally show ?thesis by (auto simp: diff_diff_add)
  qed
  have hd_occ: "occurs_at pat current j" if "occurs_at pat head j" for pat j
    using occurs_at_append_left [OF that, of "drop ?h current"] by (simp add: head_def)
  have tl_occ: "occurs_at pat ?tail j \<longleftrightarrow> occurs_at pat current (stop + j)" for pat j
    using gap by (intro occurs_at_drop) simp
  have b: "occurs_at BEGIN_MARKER current j \<longleftrightarrow> j = start" and e: "occurs_at END_MARKER current j \<longleftrightarrow> j = stop" for j
    using loc by (auto simp: located_def)
  have b_head: "occurs_at BEGIN_MARKER head start"
    using b [of start] gap lh by (auto simp: occurs_at_nth head_def)
  have e_head: "\<not> occurs_at END_MARKER head j" for j
  proof
    assume o: "occurs_at END_MARKER head j"
    then have "j = stop" using hd_occ e by blast
    moreover have "0 < length END_MARKER" using END_MARKER_break(1) by simp
    ultimately show False using occurs_at_length [OF o] lh gap by linarith
  qed
  have "occurs_at BEGIN_MARKER out j \<longleftrightarrow> j = start" for j
    using occ [OF line_pattern_markers(1) none(1), of j] b_head hd_occ [of BEGIN_MARKER j] b tl_occ gap by auto
  moreover have "occurs_at END_MARKER out j \<longleftrightarrow> j = length head + length g + 2" for j
    using occ [OF line_pattern_markers(2) none(2), of j] e_head tl_occ e by auto
  moreover have "is_complete_line out start (start + length BEGIN_MARKER)"
    using loc gap lh by (auto simp: located_def is_complete_line_def out_def nth_append head_def)
  moreover have "is_complete_line out (length head + length g + 2) (length head + length g + 2 + length END_MARKER)"
    using loc gap nl by (auto simp: located_def is_complete_line_def out_def nth_append nth_Cons')
  ultimately show "located out BEGIN_MARKER start (length head + length g + 2)"
    using lh by (simp add: located_def)
  show "take ?h out = head" using lh by (simp add: out_def)
  show "drop (length head + length g + 2) out = ?tail" by (simp add: out_def)
qed

section \<open>Entries\<close>

lemma marker_comment: "pat \<in> {BEGIN_MARKER, END_MARKER} \<Longrightarrow> pat \<noteq> [] \<and> prefix (lit ''<!--'') pat \<and> line_pattern pat \<and> hd pat = 60"
  using line_pattern_markers by (auto simp: BEGIN_MARKER_def END_MARKER_def lit_def)

lemma str_contains_prefix: "str_contains pat s \<Longrightarrow> prefix p pat \<Longrightarrow> str_contains p s"
  unfolding str_contains_iff prefix_def by (metis append.assoc)

lemma summary_problem_None:
  assumes "summary_problem s = None"
  shows "nl \<notin> set s \<and> \<not> str_contains (lit ''<!--'') s"
proof -
  have "summary_char_problem v = None \<Longrightarrow> c \<in> set v \<Longrightarrow> \<not> is_splitlines_boundary c" for v c
    by (induction v) (auto split: if_splits)
  moreover have "summary_char_problem s = None" using assms by (auto simp: summary_problem_def split: if_splits option.splits)
  moreover have "is_splitlines_boundary nl" by (simp add: is_splitlines_boundary_def)
  ultimately have "nl \<notin> set s" by blast
  then show ?thesis using assms by (auto simp: summary_problem_def split: if_splits option.splits)
qed

lemma validate_slug_chars: "validate_slug s = Inr () \<Longrightarrow> \<forall>c \<in> set s. slug_char c"
  by (auto simp: validate_slug_def list_all_iff split: if_splits)

definition page_ok :: "index_page \<Rightarrow> bool" where
  "page_ok page = (validate_slug (ip_slug page) = Inr () \<and> summary_problem (ip_summary page) = None)"

lemma validate_pages_loop_Inr:
  "validate_pages_loop seen pages = Inr u \<longleftrightarrow>
     (\<forall>page \<in> set pages. page_ok page \<and> ip_slug page \<notin> set seen) \<and> distinct (map ip_slug pages)"
proof (induction seen pages rule: validate_pages_loop.induct)
  case (2 seen page pages)
  show ?case
  proof (cases "page_ok page \<and> ip_slug page \<notin> set seen")
    case True
    then have "validate_pages_loop seen (page # pages) = validate_pages_loop (ip_slug page # seen) pages" by (simp add: page_ok_def)
    moreover have "ip_slug page \<notin> ip_slug ` set pages \<longleftrightarrow> (\<forall>p \<in> set pages. ip_slug p \<noteq> ip_slug page)"
      by (metis image_iff)
    ultimately show ?thesis using 2 True by (auto simp: page_ok_def)
  next
    case False
    then show ?thesis by (auto simp: page_ok_def split: sum.splits slug_problem.splits option.splits)
  qed
qed simp

lemma validate_pages_Inr:
  "validate_pages pages = Inr u \<longleftrightarrow> (\<forall>page \<in> set pages. page_ok page) \<and> distinct (map ip_slug pages)"
  by (simp add: validate_pages_def validate_pages_loop_Inr)

lemma entry_no_marker:
  assumes "page_ok page" and "pat \<in> {BEGIN_MARKER, END_MARKER}"
  shows "str_contains pat (entry_text page @ rest) \<longleftrightarrow> str_contains pat rest"
proof -
  note p = marker_comment [OF assms(2)]
  let ?pre = "lit ''- ['' @ ip_slug page @ lit ''](pages/'' @ ip_slug page @ lit ''.md) '' @ em_dash @ [sp]"
  have slug: "60 \<notin> set (ip_slug page)"
    using assms(1) validate_slug_chars [of "ip_slug page"]
    by (auto simp: page_ok_def slug_char_def is_ascii_lowercase_def is_ascii_digit_def)
  then have pre: "hd pat \<notin> set ?pre" using p by (simp add: lit_def)
  have "\<not> str_contains pat (ip_summary page)"
    using assms(1) summary_problem_None [of "ip_summary page"] p str_contains_prefix by (auto simp: page_ok_def)
  moreover have "\<not> str_contains pat [nl]" using p by (cases pat) (auto simp: line_pattern_def is_break_def)
  ultimately have "str_contains pat (ip_summary page @ [nl] @ rest) \<longleftrightarrow> str_contains pat rest"
    using p str_contains_lines [of pat "ip_summary page" "[nl] @ rest"] str_contains_lines [of pat "[nl]" rest]
    by (simp add: is_break_def)
  moreover have "entry_text page @ rest = ?pre @ ip_summary page @ [nl] @ rest" by (simp add: entry_text_def)
  ultimately show ?thesis using str_contains_hd [of pat ?pre] p pre by metis
qed

lemma entries_no_marker:
  assumes "\<forall>page \<in> set rows. page_ok page" and "pat \<in> {BEGIN_MARKER, END_MARKER}"
  shows "str_contains pat (concat (map entry_text rows) @ rest) \<longleftrightarrow> str_contains pat rest"
  using assms(1) entry_no_marker [OF _ assms(2)] by (induction rows) auto

lemma heading_no_lt: "60 \<notin> set (page_type_heading t)"
  by (cases t) (simp_all add: lit_def)

lemma group_no_marker:
  assumes "\<forall>page \<in> set rows. page_ok page" and "pat \<in> {BEGIN_MARKER, END_MARKER}"
  shows "str_contains pat (group_text t rows @ rest) \<longleftrightarrow> str_contains pat rest"
proof -
  note p = marker_comment [OF assms(2)]
  have "hd pat \<notin> set (lit ''## '' @ page_type_heading t @ [nl, nl])" using p heading_no_lt [of t] by (simp add: lit_def)
  from str_contains_hd [OF _ this] p entries_no_marker [OF assms] show ?thesis by (simp add: group_text_def)
qed

lemma join_groups_no_marker:
  assumes "\<forall>t \<in> set ts. \<forall>page \<in> set (rows t). page_ok page" and "pat \<in> {BEGIN_MARKER, END_MARKER}"
  shows "\<not> str_contains pat (join [nl] (map (\<lambda>t. group_text t (rows t)) ts))"
  using assms(1)
proof (induction ts)
  case Nil
  then show ?case using marker_comment [OF assms(2)] by (cases pat) auto
next
  case (Cons t ts)
  note p = marker_comment [OF assms(2)]
  have e: "\<not> str_contains pat []" using p by (cases pat) auto
  show ?case
  proof (cases "ts = []")
    case True
    then show ?thesis using group_no_marker [OF _ assms(2), of "rows t" t "[]"] Cons.prems e by simp
  next
    case False
    let ?j = "join [nl] (map (\<lambda>t. group_text t (rows t)) ts)"
    have "str_contains pat (group_text t (rows t) @ [nl] @ ?j) \<longleftrightarrow> str_contains pat ([nl] @ ?j)"
      using group_no_marker [OF _ assms(2)] Cons.prems by simp
    also have "\<dots> \<longleftrightarrow> str_contains pat ?j" using p by (intro str_contains_hd) auto
    finally show ?thesis using Cons False by (simp add: join_Cons)
  qed
qed

lemma render_entries_no_marker:
  assumes "\<forall>page \<in> set pages. page_ok page" and "pat \<in> {BEGIN_MARKER, END_MARKER}"
  shows "\<not> str_contains pat (render_entries pages)"
proof -
  have "\<not> str_contains pat [nl]" using marker_comment [OF assms(2)] by (cases pat) auto
  moreover have "\<forall>t. \<forall>page \<in> set (rows_of pages t). page_ok page" using assms(1) by (simp add: rows_of_def)
  ultimately show ?thesis
    using join_groups_no_marker [OF _ assms(2), of "filter (\<lambda>t. rows_of pages t \<noteq> []) TYPE_ORDER" "rows_of pages"]
    by (simp add: render_entries_def Let_def)
qed

interpretation slug_order: rust_cmp slug_cmp
  unfolding slug_cmp_def [abs_def] by (intro rust_cmp_intros)

lemma rows_of_sorted: "sorted (map ip_slug (rows_of pages t))"
  using slug_order.sort_by_sorted [of "filter (\<lambda>page. ip_page_type page = t) pages"]
  by (simp add: rows_of_def sorted_map slug_cmp_def not_less)

lemma set_rows_of: "set (rows_of pages t) = {page \<in> set pages. ip_page_type page = t}"
  by (auto simp: rows_of_def)

lemma rows_of_mset: "distinct (map ip_slug pages) \<Longrightarrow> mset pages = mset pages' \<Longrightarrow> rows_of pages' t = rows_of pages t"
proof -
  assume d: "distinct (map ip_slug pages)" and m: "mset pages = mset pages'"
  have d': "distinct (map ip_slug pages')" using d m by (metis mset_eq_imp_distinct_iff mset_map)
  have dr: "distinct (map ip_slug (rows_of ps t))" if "distinct (map ip_slug ps)" for ps
    using that by (simp add: rows_of_def distinct_map_filter)
  have "inj_on ip_slug (set pages)" using d by (simp add: distinct_map)
  moreover have "set (rows_of pages' t) = set (rows_of pages t)" using m by (metis set_rows_of mset_eq_setD)
  ultimately show ?thesis
    using rows_of_sorted dr [OF d] dr [OF d'] set_rows_of [of pages t]
    by (intro map_sorted_distinct_set_unique [of ip_slug]) (auto intro: inj_on_subset)
qed

lemma rows_of_all: "mset (concat (map (rows_of pages) TYPE_ORDER)) = mset pages"
proof -
  have "mset (concat (map (\<lambda>t. filter (\<lambda>page. ip_page_type page = t) pages) TYPE_ORDER)) = mset pages"
  proof (induction pages)
    case (Cons page pages)
    then show ?case by (cases "ip_page_type page") (simp_all add: TYPE_ORDER_def)
  qed (simp add: TYPE_ORDER_def)
  then show ?thesis by (simp add: TYPE_ORDER_def rows_of_def)
qed

subsection \<open>The lines of the index\<close>

definition entry_line :: "index_page \<Rightarrow> ustr" where
  "entry_line page =
     lit ''- ['' @ ip_slug page @ lit ''](pages/'' @ ip_slug page @ lit ''.md) '' @ em_dash @ [sp] @ ip_summary page"

definition is_entry_line :: "ustr \<Rightarrow> bool" where
  "is_entry_line line = prefix (lit ''- ['') line"

lemma entry_line_no_nl: "page_ok page \<Longrightarrow> nl \<notin> set (entry_line page)"
  using validate_slug_chars [of "ip_slug page"] summary_problem_None [of "ip_summary page"]
  by (auto simp: page_ok_def entry_line_def lit_def slug_char_def is_ascii_lowercase_def is_ascii_digit_def)

lemma split_on_line: "nl \<notin> set x \<Longrightarrow> split_on nl (x @ nl # rest) = x # split_on nl rest"
  by (simp add: split_on_append_sep split_on_no_occurrence)

lemma entry_lines:
  "\<forall>page \<in> set rows. page_ok page \<Longrightarrow>
     filter is_entry_line (split_on nl (concat (map entry_text rows) @ rest)) = map entry_line rows @ filter is_entry_line (split_on nl rest)"
proof (induction rows)
  case (Cons page rows)
  have t: "entry_text page = entry_line page @ [nl]" by (simp add: entry_text_def entry_line_def)
  have "is_entry_line (entry_line page)" by (simp add: is_entry_line_def entry_line_def)
  with Cons t split_on_line [OF entry_line_no_nl, of page] show ?case by simp
qed simp

lemma group_lines:
  assumes "\<forall>page \<in> set rows. page_ok page"
  shows "filter is_entry_line (split_on nl (group_text t rows @ rest)) = map entry_line rows @ filter is_entry_line (split_on nl rest)"
proof -
  have h: "nl \<notin> set (lit ''## '' @ page_type_heading t)" "\<not> is_entry_line (lit ''## '' @ page_type_heading t)" "\<not> is_entry_line []"
    by (cases t; simp add: lit_def is_entry_line_def)+
  have "split_on nl (group_text t rows @ rest)
      = (lit ''## '' @ page_type_heading t) # [] # split_on nl (concat (map entry_text rows) @ rest)"
    using split_on_line [OF h(1), of "nl # concat (map entry_text rows) @ rest"] by (simp add: group_text_def)
  then show ?thesis using h entry_lines [OF assms, of rest] by simp
qed

lemma join_lines:
  assumes "\<forall>t \<in> set ts. \<forall>page \<in> set (rows t). page_ok page"
  shows "filter is_entry_line (split_on nl (join [nl] (map (\<lambda>t. group_text t (rows t)) ts))) = map entry_line (concat (map rows ts))"
  using assms
proof (induction ts)
  case Nil
  then show ?case by (simp add: is_entry_line_def lit_def)
next
  case (Cons t ts)
  have e: "\<not> is_entry_line []" by (simp add: is_entry_line_def lit_def)
  have g: "\<forall>page \<in> set (rows t). page_ok page" using Cons.prems by simp
  show ?case
  proof (cases "ts = []")
    case True
    then show ?thesis using group_lines [OF g, of t "[]"] e by simp
  next
    case False
    then show ?thesis
      using group_lines [OF g, of t "[nl] @ join [nl] (map (\<lambda>t. group_text t (rows t)) ts)"] Cons e by (simp add: join_Cons)
  qed
qed

lemma concat_filter_ne: "concat (map f (filter (\<lambda>x. f x \<noteq> []) xs)) = concat (map f xs)"
  by (induction xs) auto

lemma render_entries_lines:
  assumes "\<forall>page \<in> set pages. page_ok page"
  shows "filter is_entry_line (split_on nl (render_entries pages)) = map entry_line (concat (map (rows_of pages) TYPE_ORDER))"
proof -
  let ?ts = "filter (\<lambda>t. rows_of pages t \<noteq> []) TYPE_ORDER"
  have ok: "\<forall>t \<in> set ?ts. \<forall>page \<in> set (rows_of pages t). page_ok page" using assms set_rows_of by blast
  show ?thesis
  proof (cases "?ts = []")
    case True
    then have "concat (map (rows_of pages) TYPE_ORDER) = []" by (simp add: concat_filter_ne [symmetric, of "rows_of pages"])
    moreover have "render_entries pages = [nl]" using True by (simp add: render_entries_def)
    ultimately show ?thesis by (simp add: is_entry_line_def lit_def)
  next
    case False
    then have "render_entries pages = join [nl] (map (\<lambda>t. group_text t (rows_of pages t)) ?ts)" by (simp add: render_entries_def)
    then show ?thesis using join_lines [OF ok] concat_filter_ne [of "rows_of pages" TYPE_ORDER] by simp
  qed
qed

section \<open>Rebuilding\<close>

lemma rebuild_index_Inr:
  assumes "rebuild_index current pages = Inr out"
  obtains start stop where "located current BEGIN_MARKER start stop" "validate_pages pages = Inr ()"
    "out = take (start + length BEGIN_MARKER + 1) current @ ([nl] @ render_entries pages @ [nl]) @ drop stop current"
proof -
  obtain region where r: "marker_region_with_begin current BEGIN_MARKER = Inr region" "validate_pages pages = Inr ()"
    "out = take (head_end region) current @ [nl] @ render_entries pages @ [nl] @ drop (tail_start region) current"
    using assms by (auto simp: rebuild_index_def marker_region_def res_bind_Inr_iff)
  from r(1) obtain start stop where l: "located current BEGIN_MARKER start stop"
    "region = \<lparr> head_end = min (start + length BEGIN_MARKER + 1) (length current), tail_start = stop \<rparr>"
    unfolding located_iff [OF line_pattern_markers(1)] by blast
  with r located_gap [OF l(1)] that [OF l(1)] show thesis by simp
qed

lemma located_region:
  assumes "located current BEGIN_MARKER start stop"
  shows "marker_region current = Inr \<lparr> head_end = start + length BEGIN_MARKER + 1, tail_start = stop \<rparr>"
proof -
  have "min (start + length BEGIN_MARKER + 1) (length current) = start + length BEGIN_MARKER + 1"
    using located_gap [OF assms] by simp
  then show ?thesis
    unfolding marker_region_def located_iff [OF line_pattern_markers(1)] using assms by metis
qed

lemma rebuild_rebuilt:
  assumes "rebuild_index current pages = Inr out"
  shows "rebuild_index out pages' = rebuild_index current pages'"
    and "generated_region out = Inr ([nl] @ render_entries pages @ [nl])"
proof -
  obtain start stop where l: "located current BEGIN_MARKER start stop" "validate_pages pages = Inr ()"
    "out = take (start + length BEGIN_MARKER + 1) current @ ([nl] @ render_entries pages @ [nl]) @ drop stop current"
    using rebuild_index_Inr [OF assms] by blast
  have ok: "\<forall>page \<in> set pages. page_ok page" using l(2) validate_pages_Inr by blast
  have none: "\<not> str_contains BEGIN_MARKER (render_entries pages)" "\<not> str_contains END_MARKER (render_entries pages)"
    using render_entries_no_marker [OF ok] by simp_all
  note rep = located_replace [OF l(1) none, folded l(3)]
  note gap = located_gap [OF l(1)]
  show "rebuild_index out pages' = rebuild_index current pages'"
    using located_region [OF l(1)] located_region [OF rep(1)] rep(2,3) by (simp add: rebuild_index_def)
  show "generated_region out = Inr ([nl] @ render_entries pages @ [nl])"
    using located_region [OF rep(1)] gap by (simp add: generated_region_def slice_def l(3))
qed

section \<open>Adoption\<close>

text \<open>A text composed around the begin marker.\<close>

lemma located_intro:
  assumes x: "x = [] \<or> is_break (last x)" and y: "y \<noteq> []" "is_break (hd y)"
    and none: "\<not> str_contains BEGIN_MARKER x" "\<not> str_contains BEGIN_MARKER y" "\<not> str_contains END_MARKER x"
    and e: "\<And>j. occurs_at END_MARKER y j \<longleftrightarrow> j = k" and line: "is_complete_line y k (k + length END_MARKER)" and k: "0 < k"
  shows "located (x @ BEGIN_MARKER @ y) BEGIN_MARKER (length x) (length x + length BEGIN_MARKER + k)"
proof -
  let ?B = BEGIN_MARKER
  have occ: "occurs_at pat (x @ ?B @ y) j \<longleftrightarrow> occurs_at pat x j
      \<or> (length x \<le> j \<and> (occurs_at pat ?B (j - length x) \<or> (length ?B \<le> j - length x \<and> occurs_at pat y (j - length x - length ?B))))"
    if p: "line_pattern pat" for pat j
    using occurs_at_lines [OF p, of x "?B @ y" j] occurs_at_lines [OF p, of ?B y "j - length x"] x y by auto
  have bb: "occurs_at ?B ?B j \<longleftrightarrow> j = 0" for j using occurs_at_length [of ?B ?B j] by (auto simp: occurs_at_def)
  have "\<not> str_contains END_MARKER ?B" by code_simp
  then have eb: "\<not> occurs_at END_MARKER ?B j" for j by (auto simp: str_contains_occurs)
  have "occurs_at ?B (x @ ?B @ y) j \<longleftrightarrow> j = length x" for j
    using occ [OF line_pattern_markers(1), of j] none bb by (auto simp: str_contains_occurs)
  moreover have "occurs_at END_MARKER (x @ ?B @ y) j \<longleftrightarrow> j = length x + length ?B + k" for j
    using occ [OF line_pattern_markers(2), of j] none eb e by (auto simp: str_contains_occurs)
  moreover have "is_complete_line (x @ ?B @ y) (length x) (length x + length ?B)"
    using x y by (cases "x = []") (auto simp: is_complete_line_def nth_append last_conv_nth hd_conv_nth)
  moreover have "is_complete_line (x @ ?B @ y) (length x + length ?B + k) (length x + length ?B + k + length END_MARKER)"
    using line k by (auto simp: is_complete_line_def nth_append)
  ultimately show ?thesis by (simp add: located_def)
qed

lemma take_line_start:
  "st \<le> length s \<Longrightarrow> st = 0 \<or> is_break (s ! (st - 1)) \<Longrightarrow> take st s = [] \<or> is_break (last (take st s))"
  by (cases "take st s = []") (auto simp: last_conv_nth min_def)

lemma not_contains_part: "\<not> str_contains pat (a @ b) \<Longrightarrow> \<not> str_contains pat a \<and> \<not> str_contains pat b"
  unfolding str_contains_iff by (metis append_assoc)

lemma adopt_retired_located:
  assumes "line_pattern retired" and "\<not> str_contains BEGIN_MARKER current" and "adopt_retired current retired = Inr adopted"
  shows "\<exists>start stop. located adopted BEGIN_MARKER start stop"
proof -
  obtain region i where r: "marker_region_with_begin current retired = Inr region" "str_find retired current = Some i"
    "adopted = take i current @ BEGIN_MARKER @ drop (i + length retired) current"
    using assms(3) by (auto simp: adopt_retired_def res_bind_Inr_iff split: option.splits)
  then obtain start stop where l: "located current retired start stop"
    unfolding located_iff [OF assms(1)] by blast
  note gap = located_gap [OF l]
  have i: "i = start" using str_find_Some [OF r(2)] l by (auto simp: located_def)
  let ?x = "take i current" and ?y = "drop (i + length retired) current"
  have parts: "current = ?x @ drop i current" "current = take (i + length retired) current @ ?y" by simp_all
  have occ: "occurs_at pat ?y j \<longleftrightarrow> occurs_at pat current (i + length retired + j)" for pat j
    using gap i by (intro occurs_at_drop) simp
  have "located (?x @ BEGIN_MARKER @ ?y) BEGIN_MARKER (length ?x) (length ?x + length BEGIN_MARKER + (stop - (i + length retired)))"
  proof (rule located_intro)
    show "?x = [] \<or> is_break (last ?x)"
      using l i gap by (intro take_line_start) (auto simp: located_def is_complete_line_def)
    show "?y \<noteq> []" "is_break (hd ?y)" using gap i by (simp_all add: hd_drop_conv_nth)
    show "\<not> str_contains BEGIN_MARKER ?x" "\<not> str_contains BEGIN_MARKER ?y"
      using assms(2) parts not_contains_part by metis+
    show "\<not> str_contains END_MARKER ?x"
    proof
      assume "str_contains END_MARKER ?x"
      then obtain j where o: "occurs_at END_MARKER ?x j" by (auto simp: str_contains_occurs)
      then have "occurs_at END_MARKER current j" using occurs_at_append_left parts(1) by metis
      then have "j = stop" using l by (simp add: located_def)
      with occurs_at_length [OF o] gap i show False by simp
    qed
    show "occurs_at END_MARKER ?y j \<longleftrightarrow> j = stop - (i + length retired)" for j
      using occ l gap i by (auto simp: located_def)
    show "0 < stop - (i + length retired)" using gap i by simp
    show "is_complete_line ?y (stop - (i + length retired)) (stop - (i + length retired) + length END_MARKER)"
      using l gap i by (auto simp: located_def is_complete_line_def)
  qed
  with r(3) show ?thesis by blast
qed

lemma logical_lines_start:
  assumes "(st, c) \<in> set (logical_lines_loop (length pre) cur rest)" and "pre = [] \<or> is_break (last pre)"
  shows "st \<le> length (pre @ cur @ rest) \<and> (st = 0 \<or> is_break ((pre @ cur @ rest) ! (st - 1)))"
  using assms
proof (induction "length pre" cur rest arbitrary: pre rule: logical_lines_loop.induct)
  case (1 cur)
  then show ?case by (cases "pre = []") (auto simp: nth_append last_conv_nth split: if_splits)
next
  case (2 cur x rest)
  have here: "length pre \<le> length (pre @ cur @ x # rest) \<and> (length pre = 0 \<or> is_break ((pre @ cur @ x # rest) ! (length pre - 1)))"
    using "2.prems"(2) by (cases "pre = []") (auto simp: nth_append last_conv_nth)
  show ?case
  proof (cases "is_break x")
    case False
    then show ?thesis using "2.hyps"(3) [of pre] "2.prems" by simp
  next
    case br: True
    show ?thesis
    proof (cases "x = cr \<and> rest \<noteq> [] \<and> hd rest = nl")
      case True
      then have r: "rest = nl # tl rest" by (cases rest) auto
      have "length pre + length cur + 2 = length (pre @ cur @ [x, nl])" by simp
      from "2.hyps"(1) [OF br True this] have IH:
        "(st, c) \<in> set (logical_lines_loop (length (pre @ cur @ [x, nl])) [] (tl rest)) \<Longrightarrow>
         st \<le> length (pre @ cur @ x # rest) \<and> (st = 0 \<or> is_break ((pre @ cur @ x # rest) ! (st - 1)))"
        using r by (metis append_Cons append_Nil append_assoc is_break_def last.simps last_append list.distinct(1))
      show ?thesis using "2.prems"(1) br True IH here by auto
    next
      case False
      have "length pre + length cur + 1 = length (pre @ cur @ [x])" by simp
      from "2.hyps"(2) [OF br False this] br have IH:
        "(st, c) \<in> set (logical_lines_loop (length (pre @ cur @ [x])) [] rest) \<Longrightarrow>
         st \<le> length (pre @ cur @ x # rest) \<and> (st = 0 \<or> is_break ((pre @ cur @ x # rest) ! (st - 1)))"
        by simp
      show ?thesis using "2.prems"(1) br False IH here by auto
    qed
  qed
qed

lemma empty_region:
  defines "y \<equiv> [nl, nl] @ END_MARKER @ [nl]"
  shows "\<not> str_contains BEGIN_MARKER y" and "occurs_at END_MARKER y j \<longleftrightarrow> j = 2" and "is_complete_line y 2 (2 + length END_MARKER)"
proof -
  show "\<not> str_contains BEGIN_MARKER y" unfolding y_def by code_simp
  have "match_indices END_MARKER 0 y = [2]" unfolding y_def by code_simp
  then show "occurs_at END_MARKER y j \<longleftrightarrow> j = 2"
    using match_indices_single [of END_MARKER y 2] line_pattern_markers(2) by (simp add: line_pattern_def)
  show "is_complete_line y 2 (2 + length END_MARKER)" unfolding y_def by code_simp
qed

lemma adopt_headings_located:
  assumes "\<not> str_contains BEGIN_MARKER current" and "\<not> str_contains END_MARKER current" and "adopt_headings current = Inr adopted"
  shows "\<exists>start stop. located adopted BEGIN_MARKER start stop"
proof -
  let ?lines = "index_logical_lines current"
  obtain first where f: "position (\<lambda>line. snd line \<in> set LEGACY_HEADINGS) ?lines = Some first"
    "adopted = take (fst (?lines ! first)) current @ BEGIN_MARKER @ [nl, nl] @ END_MARKER @ [nl]"
    using assms(3) by (auto simp: adopt_headings_def Let_def split: option.splits)
  obtain st c where st: "?lines ! first = (st, c)" by fastforce
  then have "(st, c) \<in> set ?lines" using position_Some [OF f(1)] by (metis nth_mem)
  then have s: "st \<le> length current \<and> (st = 0 \<or> is_break (current ! (st - 1)))"
    using logical_lines_start [of st c "[]" "[]" current] by (simp add: index_logical_lines_def)
  let ?x = "take st current"
  have parts: "current = ?x @ drop st current" by simp
  have "located (?x @ BEGIN_MARKER @ [nl, nl] @ END_MARKER @ [nl]) BEGIN_MARKER (length ?x) (length ?x + length BEGIN_MARKER + 2)"
  proof (rule located_intro)
    show "?x = [] \<or> is_break (last ?x)" using s by (intro take_line_start) auto
    show "\<not> str_contains BEGIN_MARKER ?x" "\<not> str_contains END_MARKER ?x" using assms(1,2) parts not_contains_part by metis+
  qed (simp_all only: empty_region, simp_all add: is_break_def)
  then show ?thesis using f(2) st by auto
qed

lemma retired_nonempty: "hd retired_begin_markers \<in> set retired_begin_markers"
  by (simp add: retired_begin_markers_def)

lemma adopt_legacy_located:
  assumes "adopt_legacy current = Inr adopted"
  shows "\<exists>start stop. located adopted BEGIN_MARKER start stop"
proof -
  let ?f = "find (\<lambda>marker. str_contains marker current) retired_begin_markers"
  let ?m = "case ?f of Some marker \<Rightarrow> marker | None \<Rightarrow> hd retired_begin_markers"
  have nb: "\<not> str_contains BEGIN_MARKER current" using assms by (auto simp: adopt_legacy_def split: if_splits)
  have "?m \<in> set retired_begin_markers" using retired_nonempty by (auto simp: find_Some_iff split: option.splits)
  then have "line_pattern ?m" using line_pattern_markers(3) by blast
  then show ?thesis
    using assms nb adopt_retired_located [of ?m current adopted] adopt_headings_located [OF nb]
    by (auto simp: adopt_legacy_def Let_def split: if_splits)
qed

section \<open>The two readings of link-shaped text\<close>

abbreviation pages_open :: ustr where "pages_open \<equiv> lit ''(pages/''"

text \<open>The language of \<open>[^)]+\.md\)\<close> followed by anything.\<close>

definition link_tail :: "ustr \<Rightarrow> bool" where
  "link_tail r = (\<exists>x b. r = x @ lit ''.md)'' @ b \<and> x \<noteq> [] \<and> 41 \<notin> set x)"

definition link_occurs :: "ustr \<Rightarrow> nat \<Rightarrow> bool" where
  "link_occurs s p = (occurs_at pages_open s p \<and> link_tail (drop (p + 7) s))"

lemma link_tail_takeWhile:
  "link_tail r \<longleftrightarrow> (let inner = takeWhile (\<lambda>c. c \<noteq> 41) r in length inner < length r \<and> 4 \<le> length inner \<and> suffix (lit ''.md'') inner)"
    (is "_ \<longleftrightarrow> ?r")
proof
  assume "link_tail r"
  then obtain x b where r: "r = x @ lit ''.md)'' @ b" "x \<noteq> []" "41 \<notin> set x" by (auto simp: link_tail_def)
  have "takeWhile (\<lambda>c. c \<noteq> 41) r = x @ lit ''.md''"
  proof -
    have "takeWhile (\<lambda>c. c \<noteq> 41) (x @ lit ''.md)'' @ b) = x @ takeWhile (\<lambda>c. c \<noteq> 41) (lit ''.md)'' @ b)"
      using r(3) by (intro takeWhile_append2) auto
    then show ?thesis by (simp add: r(1) lit_def)
  qed
  moreover have "suffix (lit ''.md'') (x @ lit ''.md'')" by (simp add: suffixI)
  moreover have "4 \<le> length (x @ lit ''.md'')" "length (x @ lit ''.md'') < length r" using r by (cases x; simp)+
  ultimately show ?r by (simp add: Let_def)
next
  let ?i = "takeWhile (\<lambda>c. c \<noteq> 41) r"
  assume ?r
  then obtain x where x: "?i = x @ lit ''.md''" and len: "length ?i < length r" "4 \<le> length ?i"
    by (auto simp: suffix_def Let_def)
  have "takeWhile (\<lambda>c. c \<noteq> 41) r \<noteq> r" using len(1) by (metis less_irrefl)
  then have "\<not> (\<forall>c \<in> set r. c \<noteq> 41)" by (simp only: takeWhile_eq_all_conv) simp
  then obtain b where "dropWhile (\<lambda>c. c \<noteq> 41) r = 41 # b"
    using hd_dropWhile [of "\<lambda>c. c \<noteq> 41" r] by (cases "dropWhile (\<lambda>c. c \<noteq> 41) r") (auto simp: dropWhile_eq_Nil_conv)
  then have "r = ?i @ 41 # b" using takeWhile_dropWhile_id [of "\<lambda>c. c \<noteq> 41" r] by simp
  then have "r = x @ lit ''.md)'' @ b" using x by (simp add: lit_def)
  moreover have "x \<noteq> []" using x len(2) by (auto simp: lit_def)
  moreover have "41 \<notin> set x" using x by (metis UnCI set_append set_takeWhileD)
  ultimately show "link_tail r" by (auto simp: link_tail_def)
qed

lemma link_tail_find:
  "link_tail r \<longleftrightarrow> (case str_find (lit ''.md)'') r of Some stop \<Rightarrow> 0 < stop \<and> 41 \<notin> set (take stop r) | None \<Rightarrow> False)"
proof (cases "str_find (lit ''.md)'') r")
  case None
  then have "\<not> link_tail r" unfolding str_find_None_iff str_contains_iff link_tail_def by blast
  then show ?thesis using None by simp
next
  case (Some stop)
  note occ = str_find_Some [OF Some]
  have len: "length (lit ''.md)'') = 4" by simp
  obtain b where b: "drop stop r = lit ''.md)'' @ b" using occ by (auto simp: occurs_at_def prefix_def)
  then have r: "r = take stop r @ lit ''.md)'' @ b" by (metis append_take_drop_id)
  have st: "stop \<le> length r" using occ by (simp add: occurs_at_def)
  have "0 < stop \<and> 41 \<notin> set (take stop r)" if "link_tail r"
  proof -
    from that obtain x b' where x: "r = x @ lit ''.md)'' @ b'" "x \<noteq> []" "41 \<notin> set x" by (auto simp: link_tail_def)
    have "occurs_at (lit ''.md)'') r (length x)" using x(1) by (simp add: occurs_at_def)
    then have le: "stop \<le> length x" using occ not_le by blast
    have "r ! (stop + 3) = 41" using occ by (auto simp: occurs_at_nth lit_def nth_Cons' dest: spec [of _ 3])
    then have "\<not> stop + 3 < length x" using x by (metis nth_append nth_mem)
    moreover have "r ! (length x + k) \<noteq> 41" if "k < 3" for k
      using that x(1) by (auto simp: nth_append lit_def less_Suc_eq eval_nat_numeral)
    then have "\<not> (length x \<le> stop + 3 \<and> stop + 3 < length x + 3)"
      using \<open>r ! (stop + 3) = 41\<close> by (metis add_diff_inverse_nat nat_add_left_cancel_less not_le)
    ultimately have "stop = length x" using le by linarith
    then show ?thesis using x by simp
  qed
  moreover have "link_tail r" if "0 < stop" "41 \<notin> set (take stop r)"
    unfolding link_tail_def using r that st by (intro exI [of _ "take stop r"] exI [of _ b]) auto
  ultimately show ?thesis using Some by auto
qed

lemma link_at_occurs: "link_at s \<longleftrightarrow> link_occurs s 0"
proof -
  have l: "length pages_open = 7" by simp
  show ?thesis
    unfolding link_at_def link_occurs_def strip_prefix_def occurs_at_def link_tail_takeWhile l by simp
qed

lemma link_is_match_occurs: "link_is_match s \<longleftrightarrow> (\<exists>p. link_occurs s p)"
proof (induction s)
  case Nil
  have "pages_open \<noteq> []" by (simp add: lit_def)
  then show ?case by (auto simp: link_occurs_def occurs_at_def)
next
  case (Cons c s)
  have "link_occurs (c # s) (Suc p) \<longleftrightarrow> link_occurs s p" for p
  proof -
    have "drop (Suc p + 7) (c # s) = drop (p + 7) s" by (metis add_Suc drop_Suc_Cons)
    then show ?thesis unfolding link_occurs_def by (simp add: occurs_at_def)
  qed
  then have "(\<exists>p. link_occurs (c # s) p) \<longleftrightarrow> link_occurs (c # s) 0 \<or> (\<exists>p. link_occurs s p)" by (metis not0_implies_Suc)
  with Cons show ?case by (simp add: link_at_occurs)
qed

lemma has_index_link_shape_occurs: "has_index_link_shape s \<longleftrightarrow> (\<exists>p. link_occurs s p)"
proof (induction s rule: has_index_link_shape.induct)
  case (1 s)
  have h: "headed pages_open" "length pages_open = 7" by (simp_all add: headed_def lit_def)
  show ?case
  proof (cases "str_find pages_open s")
    case None
    then have "\<not> occurs_at pages_open s p" for p by (auto simp: str_find_None_iff str_contains_occurs)
    then show ?thesis using None by (simp add: has_index_link_shape.simps [of s] link_occurs_def)
  next
    case (Some start)
    note occ = str_find_Some [OF Some]
    have len: "start + 7 \<le> length s" using occurs_at_length occ h(2) by metis
    have shift: "link_occurs (drop (start + 7) s) q \<longleftrightarrow> link_occurs s (start + 7 + q)" for q
      using len by (simp add: link_occurs_def occurs_at_drop add_ac)
    have cases: "p = start \<or> (\<exists>q. p = start + 7 + q)" if "link_occurs s p" for p
    proof -
      have o: "occurs_at pages_open s p" using that by (simp add: link_occurs_def)
      then have "start \<le> p" using occ not_le by blast
      then show ?thesis using headed_no_overlap [OF h(1) _ o, of start] occ h(2) le_Suc_ex le_neq_implies_less by metis
    qed
    have "has_index_link_shape s \<longleftrightarrow> link_tail (drop (start + 7) s) \<or> (\<exists>p. link_occurs (drop (start + 7) s) p)"
      using "1.IH" [OF Some refl] unfolding link_tail_find
      by (subst has_index_link_shape.simps) (auto simp: Some Let_def split: option.splits)
    also have "link_tail (drop (start + 7) s) \<longleftrightarrow> link_occurs s start" using occ by (simp add: link_occurs_def)
    finally show ?thesis using shift cases by metis
  qed
qed

lemma char_problem_same: "summary_char_problem v = None \<longleftrightarrow> scalar_char_problem v = None"
  by (induction v) auto

lemma summary_problem_scalar: "summary_problem v = None \<longleftrightarrow> scalar_problem v = None"
proof -
  have "link_is_match v \<Longrightarrow> str_contains pages_open v \<and> str_contains (lit ''.md)'') v"
  proof -
    assume "link_is_match v"
    then obtain p where p: "occurs_at pages_open v p" "link_tail (drop (p + 7) v)" by (auto simp: link_is_match_occurs link_occurs_def)
    then obtain x b where "drop (p + 7) v = x @ lit ''.md)'' @ b" by (auto simp: link_tail_def)
    then have "v = (take (p + 7) v @ x) @ lit ''.md)'' @ b" by (metis append_assoc append_take_drop_id)
    with p(1) show ?thesis unfolding str_contains_iff [of "lit ''.md)''"] str_contains_occurs [of pages_open] by blast
  qed
  moreover have "has_index_link_shape v \<longleftrightarrow> link_is_match v" by (simp add: has_index_link_shape_occurs link_is_match_occurs)
  ultimately show ?thesis
    using char_problem_same [of v]
    by (auto simp: summary_problem_def scalar_problem_def python_trim_def split: option.splits)
qed

section \<open>File names\<close>

lemma slug_file_name:
  assumes "validate_slug slug = Inr ()"
  defines "name \<equiv> slug @ lit ''.md''"
  shows "components name = [Normal name]" and "file_stem name = Some slug" and "extension_of name = Some (lit ''md'')"
    and "\<not> has_parent name"
proof -
  have c: "\<forall>c \<in> set slug. c \<noteq> slash \<and> c \<noteq> dot" and ne: "slug \<noteq> []"
    using validate_slug_chars [OF assms(1)] assms(1)
    by (auto simp: slug_char_def is_ascii_lowercase_def is_ascii_digit_def validate_slug_def)
  then obtain h t where ht: "slug = h # t" "h \<noteq> slash" "h \<noteq> dot" by (cases slug) auto
  have "slash \<notin> set name" using c by (auto simp: name_def lit_def)
  then have "split_on slash name = [name]" by (rule split_on_no_occurrence)
  moreover have "name \<noteq> []" "name \<noteq> [dot]" "name \<noteq> [dot, dot]" "hd name \<noteq> slash" using ht by (auto simp: name_def)
  ultimately show comp: "components name = [Normal name]"
    by (cases name) (auto simp: components_def body_components_def component_of_def)
  have fn: "file_name name = Some name" by (simp add: file_name_def comp)
  have pos: "rposition (\<lambda>c. c = dot) name = Some (length slug)"
  proof (cases "rposition (\<lambda>c. c = dot) name")
    case None
    then show ?thesis by (auto simp: rposition_None_iff name_def lit_def)
  next
    case (Some i)
    note i = rposition_Some [OF Some]
    have "name ! length slug = dot" by (simp add: name_def lit_def nth_append)
    moreover have "name ! j \<noteq> dot" if "j < length slug" for j using that c by (simp add: name_def nth_append)
    moreover have "name ! j \<noteq> dot" if "length slug < j" "j < length name" for j
      using that by (auto simp: name_def nth_append lit_def nth_Cons' split: if_splits)
    moreover have "length slug < length name" by (simp add: name_def)
    ultimately have "i = length slug" using i linorder_neqE_nat by metis
    then show ?thesis using Some by simp
  qed
  show "file_stem name = Some slug" unfolding file_stem_def fn using ne pos by (simp add: stem_of_def name_def)
  show "extension_of name = Some (lit ''md'')" unfolding extension_of_def fn using ne pos by (simp add: name_def lit_def)
  show "\<not> has_parent name" by (simp add: has_parent_def comp)
qed

lemma page_type_table_as_str: "map_of page_type_table (page_type_as_str t) = Some t"
  by (cases t) (simp_all add: page_type_table_def)

section \<open>Order of the pages\<close>

lemma rows_of_group: "filter (\<lambda>page. ip_page_type page = t) (concat (map (rows_of pages) TYPE_ORDER)) = rows_of pages t"
proof -
  have "filter (\<lambda>page. ip_page_type page = t) (rows_of pages t') = (if t' = t then rows_of pages t' else [])" for t'
    using set_rows_of [of pages t'] by (auto simp: filter_empty_conv filter_id_conv)
  then show ?thesis by (cases t) (simp_all add: TYPE_ORDER_def)
qed

lemma rows_of_strict:
  assumes "distinct (map ip_slug pages)"
  shows "sorted_wrt (<) (map ip_slug (rows_of pages t))"
proof -
  have "distinct (map ip_slug (rows_of pages t))" using assms by (simp add: rows_of_def distinct_map_filter)
  then show ?thesis using rows_of_sorted [of pages t] by (simp add: strict_sorted_iff)
qed

lemma rebuild_index_mset:
  assumes "rebuild_index current pages = Inr out" and "mset pages' = mset pages"
  shows "rebuild_index current pages' = Inr out"
proof -
  have v: "validate_pages pages = Inr ()" using rebuild_index_Inr [OF assms(1)] by blast
  then have d: "distinct (map ip_slug pages)" "\<forall>page \<in> set pages. page_ok page" by (simp_all add: validate_pages_Inr)
  have "distinct (map ip_slug pages')" using d(1) assms(2) by (metis mset_eq_imp_distinct_iff mset_map)
  moreover have "set pages' = set pages" using assms(2) by (rule mset_eq_setD)
  ultimately have "validate_pages pages' = Inr ()" using d(2) by (simp add: validate_pages_Inr)
  moreover have "rows_of pages' = rows_of pages" using rows_of_mset [OF d(1) assms(2) [symmetric]] by (rule ext)
  then have "render_entries pages' = render_entries pages" by (simp add: render_entries_def)
  ultimately show ?thesis using assms(1) v by (simp add: rebuild_index_def)
qed

section \<open>Examples\<close>

definition demo_pages :: "index_page list" where
  "demo_pages =
     [\<lparr> ip_slug = lit ''zebra'', ip_page_type = Gotcha, ip_summary = lit ''Striped'' \<rparr>,
      \<lparr> ip_slug = lit ''apple'', ip_page_type = Gotcha, ip_summary = lit ''Round'' \<rparr>]"

definition demo_index :: ustr where
  "demo_index = lit ''# Wiki'' @ [nl] @ BEGIN_MARKER @ [nl] @ lit ''old'' @ [nl] @ END_MARKER @ [nl] @ lit ''after''"

definition rebuilt_demo :: ustr where
  "rebuilt_demo = lit ''# Wiki'' @ [nl] @ BEGIN_MARKER @ [nl, nl] @ render_entries demo_pages @ [nl] @ END_MARKER @ [nl] @ lit ''after''"

lemma rebuild_demo: "rebuild_index demo_index demo_pages = Inr rebuilt_demo"
  by code_simp

definition legacy_demo :: ustr where
  "legacy_demo = lit ''# Wiki'' @ [nl] @ lit ''## Patterns'' @ [nl]"

section \<open>Properties\<close>

text \<open>C29: rebuilding is stable. It replaces exactly the text between the two marker lines and keeps
  everything else; the rebuilt index is canonical for its pages; and rebuilding it for any other list
  of pages gives what rebuilding the original would have given, refusals included.\<close>

theorem rebuild_index_stable:
  assumes "rebuild_index current pages = Inr out"
  shows "(\<exists>pre c old post. current = pre @ BEGIN_MARKER @ [c] @ old @ END_MARKER @ post \<and> (c = nl \<or> c = cr)
      \<and> out = pre @ BEGIN_MARKER @ [c, nl] @ render_entries pages @ [nl] @ END_MARKER @ post)
    \<and> rebuild_index out pages' = rebuild_index current pages'
    \<and> check_index out pages = Inr \<lparr> ic_canonical = True, ic_diff = None \<rparr>
    \<and> generated_region out = Inr ([nl] @ render_entries pages @ [nl])"
proof -
  obtain start stop where l: "located current BEGIN_MARKER start stop"
    "out = take (start + length BEGIN_MARKER + 1) current @ ([nl] @ render_entries pages @ [nl]) @ drop stop current"
    using rebuild_index_Inr [OF assms] by blast
  note gap = located_gap [OF l(1)]
  obtain y where y: "drop start current = BEGIN_MARKER @ y"
    using l(1) by (auto simp: located_def occurs_at_def prefix_def dest: spec [of _ start])
  obtain post where post: "drop stop current = END_MARKER @ post"
    using l(1) by (auto simp: located_def occurs_at_def prefix_def dest: spec [of _ stop])
  let ?c = "current ! (start + length BEGIN_MARKER)" and ?n = "start + length BEGIN_MARKER + 1"
  have "take (start + length BEGIN_MARKER) current = take start current @ BEGIN_MARKER"
    using y by (metis append_eq_conv_conj take_add)
  then have head: "take ?n current = take start current @ BEGIN_MARKER @ [?c]"
    using gap by (simp add: take_Suc_conv_app_nth)
  have "current = take ?n current @ slice current ?n stop @ drop stop current"
    using gap by (simp add: slice_def) (metis append_take_drop_id drop_drop le_add_diff_inverse2)
  with head post have "current = take start current @ BEGIN_MARKER @ [?c] @ slice current ?n stop @ END_MARKER @ post" by simp
  moreover have "out = take start current @ BEGIN_MARKER @ [?c, nl] @ render_entries pages @ [nl] @ END_MARKER @ post"
    using l(2) head post by simp
  moreover have "?c = nl \<or> ?c = cr" using gap(3) by (simp add: is_break_def)
  moreover have "check_index out pages = Inr \<lparr> ic_canonical = True, ic_diff = None \<rparr>"
    using rebuild_rebuilt(1) [OF assms, of pages] assms by (simp add: check_index_def compare_index_def)
  ultimately show ?thesis using rebuild_rebuilt [OF assms] by blast
qed

theorem rebuild_index_stable_witness:
  "check_index rebuilt_demo demo_pages = Inr \<lparr> ic_canonical = True, ic_diff = None \<rparr>
   \<and> rebuild_index rebuilt_demo [] = rebuild_index demo_index []"
  using rebuild_index_stable [OF rebuild_demo] by blast

text \<open>C30: the index lists every page exactly once, and nothing else: its entry lines are those of the
  pages, grouped in the fixed order of types and sorted by slug in a group, whatever order the pages
  were given in.\<close>

theorem index_lists_pages:
  assumes "rebuild_index current pages = Inr out" and "mset pages' = mset pages"
  shows "\<exists>rows. filter (prefix (lit ''- ['')) (split_on nl (render_entries pages)) = map entry_line rows
      \<and> mset rows = mset pages
      \<and> rows = concat (map (\<lambda>t. filter (\<lambda>page. ip_page_type page = t) rows) [Gotcha, Pattern, Decision, Workflow, ProjectState, Feature])
      \<and> (\<forall>t. sorted_wrt (<) (map ip_slug (filter (\<lambda>page. ip_page_type page = t) rows)))
      \<and> rebuild_index current pages' = Inr out"
proof -
  have v: "validate_pages pages = Inr ()" using rebuild_index_Inr [OF assms(1)] by blast
  then have ok: "\<forall>page \<in> set pages. page_ok page" "distinct (map ip_slug pages)" using validate_pages_Inr by auto
  let ?rows = "concat (map (rows_of pages) TYPE_ORDER)"
  have "filter (prefix (lit ''- ['')) (split_on nl (render_entries pages)) = map entry_line ?rows"
    using render_entries_lines [OF ok(1)] by (simp add: is_entry_line_def [abs_def])
  moreover have "?rows = concat (map (\<lambda>t. filter (\<lambda>page. ip_page_type page = t) ?rows) TYPE_ORDER)"
    unfolding rows_of_group ..
  moreover have "\<forall>t. sorted_wrt (<) (map ip_slug (filter (\<lambda>page. ip_page_type page = t) ?rows))"
    unfolding rows_of_group using rows_of_strict [OF ok(2)] by blast
  ultimately show ?thesis
    using rows_of_all [of pages] rebuild_index_mset [OF assms] unfolding TYPE_ORDER_def by blast
qed

theorem index_lists_pages_witness:
  "rebuild_index demo_index (rev demo_pages) = Inr rebuilt_demo"
proof -
  have "mset (rev demo_pages) = mset demo_pages" by simp
  from index_lists_pages [OF rebuild_demo this] show ?thesis by blast
qed

text \<open>Adoption yields an index that can be maintained: it never panics, and whatever it adopts can be
  rebuilt for any valid list of pages.\<close>

lemma adopt_legacy_rebuildable:
  assumes "adopt_legacy current = Inr adopted" and "validate_pages pages = Inr ()"
  shows "\<exists>out. rebuild_index adopted pages = Inr out"
proof -
  obtain start stop where "located adopted BEGIN_MARKER start stop" using adopt_legacy_located [OF assms(1)] by blast
  from located_region [OF this] assms(2) show ?thesis by (simp add: rebuild_index_def)
qed

lemma adopt_legacy_rebuildable_example:
  "\<exists>adopted out. adopt_legacy legacy_demo = Inr adopted \<and> rebuild_index adopted demo_pages = Inr out"
proof -
  have "is_ok (adopt_legacy legacy_demo)" by code_simp
  then obtain adopted where a: "adopt_legacy legacy_demo = Inr adopted" by (cases "adopt_legacy legacy_demo") auto
  have v: "validate_pages demo_pages = Inr ()" by code_simp
  from adopt_legacy_rebuildable [OF a v] a show ?thesis by blast
qed

text \<open>What the writer accepts the index accepts: a created page, filed under its slug, is read for the
  index with the slug, the requested type and the summary the parsers store.\<close>

lemma created_page_indexable:
  assumes "unicode_ok lib" and "render_create lib req today = Inr page" and "slugify lib (cq_title req) = Inr slug"
  shows "parse_index_page (slug @ lit ''.md'') page
    = Inr \<lparr> ip_slug = slug, ip_page_type = cq_page_type req, ip_summary = unquote (trim (cq_summary req)) \<rparr>"
proof -
  obtain p where today: "is_iso_date lib today" and v: "validate_common lib (Create req) = Inr slug"
    and page: "page = render_page (Create req) slug (cq_owner req) Current today today"
    and p: "parse_wiki_page lib page = Inr p"
    using render_create_Inr [OF assms(2)] validate_common_Inr(1) assms(3)
    by (metis Inr_inject request_title.simps(1))
  note com = validate_common_Inr [OF v] and fname = slug_file_name [OF validate_common_Inr(2) [OF v]]
  let ?fs = "stored_fields (page_values (Create req) slug (cq_owner req) Current today today)"
  have fs: "parse_frontmatter_fields page = Inr ?fs"
    unfolding page by (rule rendered_fields [OF assms(1) com(2) scalar_plain [OF com(3)] scalar_plain [OF com(4)] today today])
  note core = parse_frontmatter_fields_Inr [OF fs]
  note get = rendered_get [OF assms(1) com(2) today today, where req = "Create req" and owner = "cq_owner req" and status = Current]
  have "validate_frontmatter_scalar (lit ''summary'') (wp_summary p) = Inr ()" "wp_summary p = stored_value (cq_summary req)"
    using p fs get by (auto simp: parse_wiki_page_def res_bind_Inr_iff required_page_field_def field_at_def split: if_splits)
  then have "summary_problem (stored_value (cq_summary req)) = None"
    by (auto simp: summary_problem_scalar validate_frontmatter_scalar_def split: option.splits)
  moreover have "?fs \<noteq> []" using core(4) by auto
  ultimately show ?thesis
    using fname core(1) get com(2) page_type_table_as_str
    by (simp add: parse_index_page_def stored_value_def strict_unquote_eq)
qed

lemma created_page_indexable_example:
  "parse_index_page (lit ''night-mode-on'' @ lit ''.md'') sample_wiki_page
     = Inr \<lparr> ip_slug = lit ''night-mode-on'', ip_page_type = Gotcha, ip_summary = lit ''A summary'' \<rparr>"
proof -
  have s: "slugify ascii_lib (cq_title sample_create) = Inr (lit ''night-mode-on'')" by code_simp
  have "unquote (trim (lit ''A summary'')) = lit ''A summary''" by code_simp
  with created_page_indexable [OF ascii_lib_ok sample_create_page s] show ?thesis by (simp add: sample_create_def)
qed

lemma adopt_legacy_no_panic: "adopt_legacy current \<noteq> Inl IndexPanic"
proof
  assume a: "adopt_legacy current = Inl IndexPanic"
  then obtain m where m: "adopt_retired current m = Inl IndexPanic" "m \<in> set retired_begin_markers"
    using retired_nonempty
    by (fastforce simp: adopt_legacy_def adopt_headings_def Let_def find_Some_iff split: if_splits option.splits)
  then have "line_pattern m" using line_pattern_markers(3) by blast
  then obtain region where r: "marker_region_with_begin current m = Inr region" "str_find m current = None"
    using m(1) by (auto simp: adopt_retired_def res_bind_Inl_iff marker_region_with_begin_def Let_def split: option.splits if_splits)
  then obtain start stop where "located current m start stop" unfolding located_iff [OF \<open>line_pattern m\<close>] by blast
  then have "occurs_at m current start" by (simp add: located_def)
  with r(2) show False by (auto simp: str_find_None_iff str_contains_occurs)
qed

end
