(* ===== verification/Rust_PathBuf.thy ===== *)
theory Rust_PathBuf
  imports Rust_Path "HOL-Library.List_Lexorder"
begin

text \<open>
  Building and taking apart paths (\<open>join\<close>, \<open>parent\<close>, \<open>pop\<close>, \<open>ancestors\<close>, \<open>starts_with\<close>, \<open>strip_prefix\<close>)
  and the answers of the file system that the code asks for. Two paths are equal when their components
  are, as in \<open>std::path\<close>. A file system is a record of functions, so it does not change while it is read.
\<close>

section \<open>Definitions\<close>

definition path_eq :: "ustr \<Rightarrow> ustr \<Rightarrow> bool" where
  "path_eq p q = (components p = components q)"

definition path_join :: "ustr \<Rightarrow> ustr \<Rightarrow> ustr" where
  "path_join p q =
     (if is_absolute q then q
      else if p \<noteq> [] \<and> last p \<noteq> slash then p @ [slash] @ q else p @ q)"

text \<open>The shortest prefix of the text with one component less.\<close>

definition path_parent :: "ustr \<Rightarrow> ustr option" where
  "path_parent p =
     (let cs = components p
      in if cs = [] \<or> last cs = RootDir then None
         else find (\<lambda>q. components q = butlast cs) (prefixes p))"

definition path_pop :: "ustr \<Rightarrow> ustr" where
  "path_pop p = (case path_parent p of None \<Rightarrow> p | Some q \<Rightarrow> q)"

function ancestors :: "ustr \<Rightarrow> ustr list" where
  "ancestors p = p # (case path_parent p of None \<Rightarrow> [] | Some q \<Rightarrow> if length q < length p then ancestors q else [])"
  by auto
termination by (relation "measure length") auto

declare ancestors.simps [simp del]

definition starts_with_path :: "ustr \<Rightarrow> ustr \<Rightarrow> bool" where
  "starts_with_path p base = prefix (components base) (components p)"

definition strip_prefix_path :: "ustr \<Rightarrow> ustr \<Rightarrow> ustr option" where
  "strip_prefix_path p base =
     (if starts_with_path p base then Some (collect_path (drop (length (components base)) (components p))) else None)"

text \<open>Paths are ordered by their components.\<close>

fun component_key :: "component \<Rightarrow> nat list" where
  "component_key RootDir = [1]"
| "component_key CurDir = [2]"
| "component_key ParentDir = [3]"
| "component_key (Normal s) = 4 # s"

definition path_cmp :: "ustr \<Rightarrow> ustr \<Rightarrow> ordering" where
  "path_cmp p q = cmp (map component_key (components p)) (map component_key (components q))"

subsection \<open>File system\<close>

datatype fs_kind = NotFoundKind | NotADirectoryKind | InvalidFilenameKind | AnotherKind

record fs_error =
  fe_kind :: fs_kind
  fe_text :: ustr

datatype file_type = IsFile | IsDir | IsSymlink | IsOther

record fs_metadata =
  md_type :: file_type
  md_dev :: nat
  md_ino :: nat

record dir_entry =
  de_name :: ustr
  de_metadata :: "(fs_error, fs_metadata) result"

record file_system =
  fs_symlink_metadata :: "ustr \<Rightarrow> (fs_error, fs_metadata) result"
  fs_metadata :: "ustr \<Rightarrow> (fs_error, fs_metadata) result"
  fs_read_link :: "ustr \<Rightarrow> (fs_error, ustr) result"
  fs_canonicalize :: "ustr \<Rightarrow> (fs_error, ustr) result"
  fs_read_dir :: "ustr \<Rightarrow> (fs_error, (fs_error, dir_entry) result list) result"

text \<open>A path as the file system canonicalizes it: absolute, and made of proper names.\<close>

definition proper_name :: "ustr \<Rightarrow> bool" where
  "proper_name n = (n \<noteq> [] \<and> n \<noteq> [dot] \<and> n \<noteq> [dot, dot] \<and> slash \<notin> set n)"

definition abs_path :: "ustr list \<Rightarrow> ustr" where
  "abs_path ns = slash # join [slash] ns"

definition canonical_path :: "ustr \<Rightarrow> bool" where
  "canonical_path p = (\<exists>ns. list_all proper_name ns \<and> p = abs_path ns)"

section \<open>Lemmas\<close>

lemma components_abs_path:
  assumes "list_all proper_name ns"
  shows "components (abs_path ns) = RootDir # map Normal ns"
proof (cases "ns = []")
  case False
  then have "split_on slash (join [slash] ns) = ns"
    using assms by (intro split_on_join) (auto simp: list_all_iff proper_name_def)
  with assms show ?thesis
    by (simp add: components_def abs_path_def body_components_Normal list_all_iff proper_name_def)
qed (simp add: components_def abs_path_def body_components_def)

lemma collect_abs_path:
  "collect_path (RootDir # map Normal ns) = abs_path ns"
  by (simp add: collect_path_def abs_path_def comp_def)

lemma abs_path_inject:
  "list_all proper_name ns \<Longrightarrow> list_all proper_name ms \<Longrightarrow> abs_path ns = abs_path ms \<longleftrightarrow> ns = ms"
  using components_abs_path by (metis inj_map_eq_map inj_def list.inject component.inject)

lemma path_eq_canonical:
  "canonical_path p \<Longrightarrow> canonical_path q \<Longrightarrow> path_eq p q \<longleftrightarrow> p = q"
  unfolding canonical_path_def path_eq_def
  by (auto simp: components_abs_path) (metis inj_map_eq_map inj_def component.inject)

lemma abs_path_snoc:
  "abs_path (ns @ [n]) = (if ns = [] then [slash] else abs_path ns @ [slash]) @ n"
  by (simp add: abs_path_def join_snoc)

lemma join_not_slash: "list_all proper_name ns \<Longrightarrow> ns \<noteq> [] \<Longrightarrow> last (join [slash] ns) \<noteq> slash \<and> join [slash] ns \<noteq> []"
proof (induction ns rule: rev_induct)
  case (snoc n ns)
  then have n: "n \<noteq> []" "slash \<notin> set n" by (simp_all add: proper_name_def)
  then have "last n \<noteq> slash" using last_in_set by metis
  with n show ?case by (cases "ns = []") (simp_all add: join_snoc)
qed simp

lemma path_join_name:
  assumes "list_all proper_name ns" "n \<noteq> []" "hd n \<noteq> slash"
  shows "path_join (abs_path ns) n = abs_path (ns @ [n])"
proof -
  have "\<not> is_absolute n" using assms(2,3) by (simp add: is_absolute_iff)
  then show ?thesis
    using join_not_slash [OF assms(1)] by (cases "ns = []") (simp_all add: path_join_def abs_path_def join_snoc)
qed

lemma prefix_join_snoc: "prefix (abs_path ns) (abs_path (ns @ [n]))"
  by (cases "ns = []") (simp_all add: abs_path_snoc, simp add: abs_path_def)

lemma prefixes_at: "i \<le> length p \<Longrightarrow> prefixes p ! i = take i p"
  by (induction p arbitrary: i) (auto simp: nth_Cons split: nat.splits)

lemma find_prefixes:
  assumes "prefix q p" "P q" "\<And>r. strict_prefix r q \<Longrightarrow> \<not> P r"
  shows "find P (prefixes p) = Some q"
proof -
  have q: "q = take (length q) p" "length q \<le> length p"
    using assms(1) by (auto simp: prefix_def)
  let ?i = "length q"
  note n = prefixes_at [of _ p]
  have "?i < length (prefixes p)" "P (prefixes p ! ?i)" using q assms(2) n by auto
  moreover have "\<not> P (prefixes p ! j)" if "j < ?i" for j
  proof -
    have "prefixes p ! j = take j p" using that q(2) n by simp
    moreover have "strict_prefix (take j p) q"
      using that q by (metis length_take min.absorb2 nat_less_le order_less_imp_le order_trans prefix_order.less_le take_is_prefix take_take min_def)
    ultimately show ?thesis using assms(3) by simp
  qed
  moreover have "prefixes p ! ?i = q" using q n by simp
  ultimately show ?thesis unfolding find_Some_iff by auto
qed

lemma join_length: "length (join [c] xs) = sum_list (map length xs) + (length xs - 1)"
  by (induction "[c]" xs rule: join.induct) auto

lemma join_filter_length: "length (join [c] (filter P xs)) \<le> length (join [c] xs)"
proof -
  have "sum_list (map length (filter P xs)) \<le> sum_list (map length xs)" by (induction xs) auto
  moreover have "length (filter P xs) \<le> length xs" by simp
  ultimately show ?thesis unfolding join_length by linarith
qed

lemma component_text_of: "component_text (component_of s) = s"
  by (simp add: component_of_def)

lemma components_shortest:
  assumes "components r = RootDir # map Normal ns"
  shows "length (abs_path ns) \<le> length r"
proof -
  have "is_absolute r"
  proof (rule ccontr)
    assume "\<not> is_absolute r"
    then have "RootDir \<notin> set (components r)"
      using body_components_no_root by (cases r) (auto simp: components_def is_absolute_def)
    with assms show False by simp
  qed
  then obtain t where t: "r = slash # t" by (auto simp: is_absolute_def)
  then have "map Normal ns = body_components (split_on slash t)" using assms by (simp add: components_def)
  then have "map component_text (map Normal ns) = filter (\<lambda>s. s \<noteq> [] \<and> s \<noteq> [dot]) (split_on slash t)"
    by (simp only: body_components_def map_map comp_def component_text_of) simp
  then have "ns = filter (\<lambda>s. s \<noteq> [] \<and> s \<noteq> [dot]) (split_on slash t)" by (simp add: comp_def)
  then have "length (join [slash] ns) \<le> length (join [slash] (split_on slash t))"
    by (metis join_filter_length)
  then show ?thesis by (simp add: t abs_path_def join_split_on)
qed

lemma path_parent_snoc:
  assumes "list_all proper_name (ns @ [n])"
  shows "path_parent (abs_path (ns @ [n])) = Some (abs_path ns)"
proof -
  have ns: "list_all proper_name ns" using assms by simp
  have "\<not> components r = RootDir # map Normal ns" if "strict_prefix r (abs_path ns)" for r
    using components_shortest [of r ns] prefix_length_less [OF that] by auto
  then have "find (\<lambda>q. components q = RootDir # map Normal ns) (prefixes (abs_path (ns @ [n]))) = Some (abs_path ns)"
    by (intro find_prefixes prefix_join_snoc components_abs_path ns)
  then show ?thesis
    unfolding path_parent_def components_abs_path [OF assms] by (simp add: butlast_append)
qed

lemma path_parent_root: "path_parent (abs_path []) = None"
  by (simp add: path_parent_def components_abs_path)

lemma path_pop_abs: "list_all proper_name ns \<Longrightarrow> path_pop (abs_path ns) = abs_path (butlast ns)"
  by (cases ns rule: rev_cases) (simp_all add: path_pop_def path_parent_root path_parent_snoc)

lemma ancestors_root: "ancestors (abs_path []) = [abs_path []]"
  by (subst ancestors.simps) (simp add: path_parent_root)

lemma abs_path_longer: "list_all proper_name (ns @ [n]) \<Longrightarrow> length (abs_path ns) < length (abs_path (ns @ [n]))"
  by (cases "ns = []") (simp_all add: abs_path_snoc proper_name_def, simp add: abs_path_def)

lemma ancestors_snoc:
  "list_all proper_name (ns @ [n]) \<Longrightarrow> ancestors (abs_path (ns @ [n])) = abs_path (ns @ [n]) # ancestors (abs_path ns)"
  by (subst ancestors.simps) (simp add: path_parent_snoc abs_path_longer del: list_all_append)

text \<open>The ancestors are the paths of the initial segments, the longest first.\<close>

lemma ancestors_abs:
  "list_all proper_name ns \<Longrightarrow> ancestors (abs_path ns) = map abs_path (rev (prefixes ns))"
  by (induction ns rule: rev_induct) (simp_all add: ancestors_root ancestors_snoc prefixes_snoc)

lemma components_of_proper: "Normal s \<in> set (components p) \<Longrightarrow> proper_name s"
proof -
  assume "Normal s \<in> set (components p)"
  then obtain t where "Normal s \<in> set (body_components (split_on slash t))"
    unfolding components_def by (cases p) (auto simp del: split_on.simps split: if_splits)
  then have s: "s \<in> set (split_on slash t)" "s \<noteq> []" "s \<noteq> [dot]" "s \<noteq> [dot, dot]"
    using body_components_normal_iff by auto
  with split_on_no_sep [OF s(1)] show ?thesis by (simp add: proper_name_def)
qed

lemma canonical_absolute: "canonical_path p \<Longrightarrow> is_absolute p"
  by (auto simp: canonical_path_def abs_path_def is_absolute_def)

end
