(* ===== verification/Wiki_Check.thy ===== *)
theory Wiki_Check
  imports Wiki_Index Rust_PathBuf
begin

text \<open>
  Structural validation of a captured wiki (\<open>crates/yams-wiki/src/check.rs\<close>): \<open>validate_wiki\<close>, which
  reads captured bytes only, the report of unsupported constructs, and the preflight. The regular
  expressions are scanners for the leftmost match; the \<open>Debug\<close> text of a string is a parameter.
  Capturing the snapshot through descriptors is not modelled.
\<close>

section \<open>Model\<close>

record check_lib =
  ck_wiki :: wiki_lib
  ck_debug :: "ustr \<Rightarrow> ustr"

datatype captured_page_outcome = Present "u8 list" | NotRegular | Unreadable ustr | SymlinkPage | OutsideCorpus

record captured_page =
  cp_name :: "u8 list"
  cp_outcome :: captured_page_outcome

record wiki_snapshot =
  ws_corpus :: ustr
  ws_index :: "u8 list"
  ws_pages :: "captured_page list"
  ws_isolated :: bool
  ws_isolation_note :: "ustr option"

record wiki_check_report =
  wr_failures :: "ustr list"
  wr_notes :: "ustr list"
  wr_page_count :: nat
  wr_isolated :: bool

record wiki_compat_report =
  wc_violations :: "ustr list"
  wc_page_count :: nat

definition INDEX_NAME :: ustr where "INDEX_NAME = lit ''INDEX.md''"
definition PAGES_NAME :: ustr where "PAGES_NAME = lit ''pages''"
definition SIZE_NOTE :: nat where "SIZE_NOTE = 12288"

text \<open>The texts of errors. The panics of the two types have no text; they do not occur here.\<close>

fun index_error_text :: "index_error \<Rightarrow> ustr" where
  "index_error_text (Shape detail) = lit ''unsafe INDEX.md shape: '' @ detail"
| "index_error_text (PageError page detail) = lit ''invalid index page '' @ page @ lit '': '' @ detail"
| "index_error_text IndexPanic = []"

fun schema_error_text :: "schema_error \<Rightarrow> ustr" where
  "schema_error_text (Refusal msg) = msg"
| "schema_error_text Panicked = []"

definition deduplicate :: "ustr list \<Rightarrow> ustr list" where
  "deduplicate items = retain_first (\<lambda>item. item) [] items"

subsection \<open>Expressions\<close>

text \<open>
  \<open>find_iter\<close>: the leftmost matches that do not overlap, each with its offset. A matcher gives the length of
  the match at the head of a text; no expression here matches the empty text.
\<close>

function find_iter :: "(ustr \<Rightarrow> nat option) \<Rightarrow> nat \<Rightarrow> ustr \<Rightarrow> (nat \<times> ustr) list" where
  "find_iter matcher i s =
     (if s = [] then []
      else case matcher s of
        Some n \<Rightarrow> if n = 0 then find_iter matcher (i + 1) (tl s) else (i, take n s) # find_iter matcher (i + n) (drop n s)
      | None \<Rightarrow> find_iter matcher (i + 1) (tl s))"
  by pat_completeness auto
termination by (relation "measure (\<lambda>(_, _, s). length s)") auto

declare find_iter.simps [simp del]

abbreviation close_bracket :: uchar where "close_bracket \<equiv> 93"

text \<open>\<open>\(pages/([^)]+\.md)\)\<close>\<close>

definition index_link_match :: "ustr \<Rightarrow> nat option" where
  "index_link_match s =
     (if link_at s then Some (7 + length (takeWhile (\<lambda>c. c \<noteq> 41) (drop 7 s)) + 1) else None)"

definition index_link_name :: "ustr \<Rightarrow> ustr" where
  "index_link_name found = drop 7 (butlast found)"

definition index_links :: "ustr \<Rightarrow> ustr list" where
  "index_links index = map (\<lambda>m. index_link_name (snd m)) (find_iter index_link_match 0 index)"

definition line_ref_match :: "wiki_lib \<Rightarrow> ustr \<Rightarrow> nat option" where
  "line_ref_match lib s = map_option length (reference_at lib s)"

text \<open>\<open>\[\[([a-z0-9-]+)(?:#([^\]|]*))?(?:\|[^\]]*)?\]\]\<close> with its two groups\<close>

definition wikilink_parts :: "ustr \<Rightarrow> (ustr \<times> ustr option \<times> nat) option" where
  "wikilink_parts s =
     (case strip_prefix (lit ''[['') s of None \<Rightarrow> None | Some r \<Rightarrow>
        let target = takeWhile slug_char r;
            r1 = drop (length target) r;
            (fragment, r2) = (if r1 \<noteq> [] \<and> hd r1 = 35
              then let f = takeWhile (\<lambda>c. c \<noteq> close_bracket \<and> c \<noteq> 124) (tl r1) in (Some f, drop (length f) (tl r1))
              else (None, r1));
            r3 = (if r2 \<noteq> [] \<and> hd r2 = 124 then dropWhile (\<lambda>c. c \<noteq> close_bracket) r2 else r2)
        in if target \<noteq> [] \<and> prefix (lit '']]'') r3 then Some (target, fragment, length s - (length r3 - 2)) else None)"

definition wikilink_match :: "ustr \<Rightarrow> nat option" where
  "wikilink_match s = map_option (\<lambda>(target, fragment, n). n) (wikilink_parts s)"

definition wikilink_targets :: "ustr \<Rightarrow> ustr list" where
  "wikilink_targets source =
     List.map_filter (\<lambda>(start, found).
       if 0 < start \<and> source ! (start - 1) = 33 then None
       else case wikilink_parts found of
         None \<Rightarrow> None
       | Some (target, fragment, n) \<Rightarrow>
           if (case fragment of None \<Rightarrow> False | Some f \<Rightarrow> f \<noteq> [] \<and> hd f = 94) then None else Some target)
     (find_iter wikilink_match 0 source)"

text \<open>\<open>\[\[([^\]]+)\]\]\<close>, with or without the mark of an embed in front\<close>

definition bracket_run :: "ustr \<Rightarrow> ustr option" where
  "bracket_run s =
     (case strip_prefix (lit ''[['') s of None \<Rightarrow> None | Some r \<Rightarrow>
        let inner = takeWhile (\<lambda>c. c \<noteq> close_bracket) r
        in if inner \<noteq> [] \<and> prefix (lit '']]'') (drop (length inner) r) then Some inner else None)"

definition any_link_match :: "ustr \<Rightarrow> nat option" where
  "any_link_match s = map_option (\<lambda>inner. length inner + 4) (bracket_run s)"

definition embed_match :: "ustr \<Rightarrow> nat option" where
  "embed_match s = (case s of [] \<Rightarrow> None | c # r \<Rightarrow> if c = 33 then map_option Suc (any_link_match r) else None)"

text \<open>\<open>\[\[[a-z0-9-]+#\^[^\]|]*(?:\|[^\]]*)?\]\]\<close>\<close>

definition block_ref_match :: "ustr \<Rightarrow> nat option" where
  "block_ref_match s =
     (case wikilink_parts s of
        Some (target, Some fragment, n) \<Rightarrow> if fragment \<noteq> [] \<and> hd fragment = 94 then Some n else None
      | _ \<Rightarrow> None)"

text \<open>
  \<open>(?m)\s\^[a-zA-Z0-9-]+\s*$\<close>: the trailing white space is the longest run that ends at the end of a line.
\<close>

definition line_end_runs :: "ustr \<Rightarrow> nat list" where
  "line_end_runs r =
     filter (\<lambda>k. drop k r = [] \<or> hd (drop k r) = nl) (rev [0..<Suc (length (takeWhile is_whitespace r))])"

definition block_id_match :: "ustr \<Rightarrow> nat option" where
  "block_id_match s =
     (case s of
        w # c # r \<Rightarrow>
          if is_whitespace w \<and> c = 94
          then let ident = takeWhile (\<lambda>c. is_ascii_alphanumeric c \<or> c = dash) r
               in if ident = [] then None
                  else (case line_end_runs (drop (length ident) r) of [] \<Rightarrow> None | k # _ \<Rightarrow> Some (2 + length ident + k))
          else None
      | _ \<Rightarrow> None)"

definition slug_shaped :: "ustr \<Rightarrow> bool" where
  "slug_shaped s = (s \<noteq> [] \<and> list_all slug_char s)"

subsection \<open>The compatibility report\<close>

definition compat_violations :: "check_lib \<Rightarrow> ustr \<Rightarrow> ustr \<Rightarrow> ustr list" where
  "compat_violations L name source =
     (case parse_wiki_page (ck_wiki L) source of
        Inl e \<Rightarrow> [lit ''pages/'' @ name @ lit '': '' @ schema_error_text e] | Inr _ \<Rightarrow> [])
     @ map (\<lambda>m. lit ''pages/'' @ name @ lit '' uses embed '' @ snd m @ [sp] @ em_dash
              @ lit '' embeds are outside the supported Obsidian profile'') (find_iter embed_match 0 source)
     @ map (\<lambda>m. lit ''pages/'' @ name @ lit '' uses block reference '' @ snd m @ [sp] @ em_dash
              @ lit '' block references are outside the supported Obsidian profile'') (find_iter block_ref_match 0 source)
     @ map (\<lambda>m. lit ''pages/'' @ name @ lit '' uses block ID '' @ trim (snd m) @ [sp] @ em_dash
              @ lit '' block IDs are outside the supported Obsidian profile'') (find_iter block_id_match 0 source)
     @ List.map_filter (\<lambda>m. let inner = take (length (snd m) - 4) (drop 2 (snd m));
                                 target = takeWhile (\<lambda>c. c \<noteq> 124 \<and> c \<noteq> 35) inner
                             in if slug_shaped target then None
                                else Some (lit ''pages/'' @ name @ lit '' links [['' @ inner @ lit '']] '' @ em_dash
                                           @ lit '' target is not a Yams slug'')) (find_iter any_link_match 0 source)"

definition compat_page :: "check_lib \<Rightarrow> captured_page \<Rightarrow> (ustr list) option" where
  "compat_page L page =
     (case from_utf8 (cp_name page) of None \<Rightarrow> None | Some name \<Rightarrow>
        (case cp_outcome page of
           Present bytes \<Rightarrow>
             Some (case from_utf8 bytes of
                     None \<Rightarrow> [lit ''pages/'' @ name @ lit '' is not valid UTF-8'']
                   | Some source \<Rightarrow> compat_violations L name source)
         | _ \<Rightarrow> None))"

definition compat_snapshot :: "check_lib \<Rightarrow> wiki_snapshot \<Rightarrow> wiki_compat_report" where
  "compat_snapshot L snapshot =
     (let pages = List.map_filter (compat_page L) (ws_pages snapshot)
      in \<lparr> wc_violations = deduplicate (concat pages), wc_page_count = length pages \<rparr>)"

subsection \<open>One page\<close>

definition diagnostic_name :: "u8 list \<Rightarrow> ustr" where
  "diagnostic_name name =
     (case from_utf8 name of
        Some s \<Rightarrow> s
      | None \<Rightarrow> concat (map (\<lambda>b. let c = unat b in
          if 0x20 \<le> c \<and> c \<le> 0x7E \<and> c \<noteq> backslash then [c] else [backslash, 120] @ hex_width 2 c) name))"

definition is_not_regular :: "captured_page \<Rightarrow> bool" where
  "is_not_regular page = (cp_outcome page = NotRegular)"

definition page_prefix :: "ustr \<Rightarrow> ustr" where
  "page_prefix name = lit ''pages/'' @ name"

definition name_failures :: "captured_page \<Rightarrow> ustr list" where
  "name_failures page =
     (if from_utf8 (cp_name page) = None
      then [page_prefix (diagnostic_name (cp_name page)) @ lit '' filename is not valid UTF-8'']
      else if is_not_regular page
      then [page_prefix (diagnostic_name (cp_name page)) @ lit '' is not a regular file'']
      else [])"

definition validate_enum_field :: "ustr \<Rightarrow> (ustr, ustr) btree \<Rightarrow> ustr \<Rightarrow> ustr list \<Rightarrow> ustr list" where
  "validate_enum_field name fs field allowed =
     (case bt_get fs field of
        None \<Rightarrow> [page_prefix name @ lit '' is missing '' @ field]
      | Some v \<Rightarrow>
          if v = [] then [page_prefix name @ lit '' is missing '' @ field]
          else if v \<notin> set allowed
          then [page_prefix name @ lit '' has '' @ field @ lit '': '' @ v @ [sp] @ em_dash @ lit '' expected one of ''
                 @ join (lit '' | '') allowed]
          else [])"

definition validate_date_field :: "wiki_lib \<Rightarrow> ustr \<Rightarrow> (ustr, ustr) btree \<Rightarrow> ustr \<Rightarrow> ustr list" where
  "validate_date_field lib name fs field =
     (case bt_get fs field of
        None \<Rightarrow> [page_prefix name @ lit '' is missing '' @ field]
      | Some v \<Rightarrow>
          if v = [] then [page_prefix name @ lit '' is missing '' @ field]
          else if \<not> is_iso_date lib v
          then [page_prefix name @ lit '' has '' @ field @ lit '': '' @ v @ [sp] @ em_dash @ lit '' expected YYYY-MM-DD'']
          else [])"

definition date_order_failures :: "wiki_lib \<Rightarrow> ustr \<Rightarrow> (ustr, ustr) btree \<Rightarrow> ustr list" where
  "date_order_failures lib name fs =
     (case (bt_get fs (lit ''updated''), bt_get fs (lit ''verified'')) of
        (Some updated, Some verified) \<Rightarrow>
          if is_iso_date lib updated \<and> is_iso_date lib verified \<and> verified < updated
          then [page_prefix name @ lit '' has verified: '' @ verified @ lit '' before updated: '' @ updated @ [sp] @ em_dash
                 @ lit '' editing a page verifies it'']
          else []
      | _ \<Rightarrow> [])"

definition slug_field_failures :: "ustr \<Rightarrow> ustr \<Rightarrow> (ustr, ustr) btree \<Rightarrow> ustr list" where
  "slug_field_failures name slug fs =
     (if bt_get fs (lit ''slug'') \<noteq> Some slug
      then [page_prefix name @ lit '' declares slug \"'' @ (case bt_get fs (lit ''slug'') of None \<Rightarrow> lit ''(missing)'' | Some d \<Rightarrow> d)
             @ lit ''\" '' @ em_dash @ lit '' must match the filename'']
      else [])"

definition title_failures :: "ustr \<Rightarrow> (ustr, ustr) btree \<Rightarrow> ustr list" where
  "title_failures name fs =
     (if bt_get fs (lit ''title'') = None \<or> bt_get fs (lit ''title'') = Some []
      then [page_prefix name @ lit '' is missing a title''] else [])"

definition summary_failures :: "ustr \<Rightarrow> (ustr, ustr) btree \<Rightarrow> ustr list" where
  "summary_failures name fs =
     (case bt_get fs (lit ''summary'') of
        None \<Rightarrow> [page_prefix name @ lit '' is missing summary'']
      | Some summary \<Rightarrow>
          if summary = [] then [page_prefix name @ lit '' is missing summary'']
          else (case scalar_problem summary of None \<Rightarrow> [] | Some problem \<Rightarrow> [page_prefix name @ lit '': '' @ problem]))"

definition STATUS_VALUES :: "ustr list" where
  "STATUS_VALUES = [lit ''current'', lit ''historical'', lit ''in-progress'']"

definition TYPE_VALUES :: "ustr list" where
  "TYPE_VALUES = [lit ''decision'', lit ''feature'', lit ''gotcha'', lit ''pattern'', lit ''project-state'', lit ''workflow'']"

definition OWNER_VALUES :: "ustr list" where
  "OWNER_VALUES = [lit ''claude'', lit ''codex'', lit ''shared'']"

definition field_failures :: "wiki_lib \<Rightarrow> ustr \<Rightarrow> ustr \<Rightarrow> (ustr, ustr) btree \<Rightarrow> ustr list" where
  "field_failures lib name slug fs =
     slug_field_failures name slug fs @ title_failures name fs @ summary_failures name fs
     @ validate_enum_field name fs (lit ''status'') STATUS_VALUES
     @ validate_enum_field name fs (lit ''type'') TYPE_VALUES
     @ validate_enum_field name fs (lit ''owner'') OWNER_VALUES
     @ validate_date_field lib name fs (lit ''updated'') @ validate_date_field lib name fs (lit ''verified'')
     @ date_order_failures lib name fs"

text \<open>A web address runs to the next white space.\<close>

lemma dropWhile_address_shorter:
  "prefix (lit ''http://'') s \<or> prefix (lit ''https://'') s \<Longrightarrow> length (dropWhile (\<lambda>c. \<not> is_python_space c) s) < length s"
  by (cases s) (auto simp: lit_def is_python_space_def le_imp_less_Suc length_dropWhile_le)

function strip_addresses :: "ustr \<Rightarrow> ustr" where
  "strip_addresses s =
     (if s = [] then []
      else if prefix (lit ''http://'') s \<or> prefix (lit ''https://'') s
      then strip_addresses (dropWhile (\<lambda>c. \<not> is_python_space c) s)
      else hd s # strip_addresses (tl s))"
  by pat_completeness auto
termination by (relation "measure length") (auto intro!: dropWhile_address_shorter)

declare strip_addresses.simps [simp del]

definition strip_line_ref_exemptions :: "ustr \<Rightarrow> ustr" where
  "strip_line_ref_exemptions source = strip_addresses (strip_fences source)"

definition reference_failures :: "wiki_lib \<Rightarrow> ustr \<Rightarrow> ustr \<Rightarrow> ustr list" where
  "reference_failures lib name source =
     map (\<lambda>m. page_prefix name @ lit '' cites '' @ snd m @ [sp] @ em_dash @ lit '' line numbers drift; name the symbol instead'')
       (find_iter (line_ref_match lib) 0 (strip_line_ref_exemptions source))"

record page_verdict =
  pv_failures :: "ustr list"
  pv_notes :: "ustr list"
  pv_linked :: "ustr list"
  pv_valid :: "(ustr \<times> (ustr, ustr) btree) option"

definition refused_page :: "ustr list \<Rightarrow> ustr list \<Rightarrow> page_verdict" where
  "refused_page failures notes = \<lparr> pv_failures = failures, pv_notes = notes, pv_linked = [], pv_valid = None \<rparr>"

definition check_source :: "wiki_lib \<Rightarrow> ustr list \<Rightarrow> ustr \<Rightarrow> ustr \<Rightarrow> nat \<Rightarrow> ustr \<Rightarrow> page_verdict" where
  "check_source lib slugs name slug byte_len source =
     (let size_notes = (if SIZE_NOTE < byte_len
            then [page_prefix name @ lit '' is '' @ decimal byte_len
                   @ lit '' bytes; an oversized page becomes many competing weak matches that lower the rank of every real answer'']
            else []);
          fs = page_fields (parse_frontmatter source)
      in if fs = [] then refused_page [page_prefix name @ lit '' has no parseable frontmatter block''] size_notes
         else let targets = wikilink_targets source
              in \<lparr> pv_failures = field_failures lib name slug fs @ reference_failures lib name source,
                   pv_notes = size_notes @ map (\<lambda>linked. page_prefix name @ lit '' links [['' @ linked @ lit '']], not yet written'')
                     (filter (\<lambda>linked. linked \<notin> set slugs) targets),
                   pv_linked = filter (\<lambda>linked. linked \<in> set slugs \<and> linked \<noteq> slug) targets,
                   pv_valid = Some (name, fs) \<rparr>)"

definition check_page :: "wiki_lib \<Rightarrow> ustr list \<Rightarrow> captured_page \<Rightarrow> page_verdict" where
  "check_page lib slugs page =
     (case from_utf8 (cp_name page) of None \<Rightarrow> refused_page [] [] | Some name \<Rightarrow>
      case strip_suffix (lit ''.md'') name of None \<Rightarrow> refused_page [] [] | Some slug \<Rightarrow>
      (case cp_outcome page of
         NotRegular \<Rightarrow> refused_page [] []
       | SymlinkPage \<Rightarrow> refused_page [page_prefix name @ lit '' is a symlink '' @ em_dash @ lit '' refused''] []
       | OutsideCorpus \<Rightarrow> refused_page [page_prefix name @ lit '' resolves outside the wiki''] []
       | Unreadable _ \<Rightarrow> refused_page [page_prefix name @ lit '' is not readable''] []
       | Present bytes \<Rightarrow>
           (case from_utf8 bytes of
              None \<Rightarrow> refused_page [page_prefix name @ lit '' is not valid UTF-8''] []
            | Some source \<Rightarrow> check_source lib slugs name slug (length bytes) source)))"

subsection \<open>The generated index\<close>

definition literal_heading :: "ustr \<Rightarrow> ustr option" where
  "literal_heading v = map_option page_type_heading (map_of page_type_table v)"

definition GENERATED_HEADINGS :: "ustr list" where
  "GENERATED_HEADINGS = map page_type_heading TYPE_ORDER"

definition parse_generated_entry :: "ustr \<Rightarrow> (ustr \<times> ustr \<times> ustr) option" where
  "parse_generated_entry line =
     (case strip_prefix (lit ''- ['') line of None \<Rightarrow> None | Some rest \<Rightarrow>
      case split_once_str (lit ''](''  ) rest of None \<Rightarrow> None | Some (label, rest) \<Rightarrow>
      case split_once_str (lit '') '' @ em_dash @ [sp]) rest of None \<Rightarrow> None | Some (destination, shown) \<Rightarrow>
      case strip_prefix (lit ''pages/'') destination of None \<Rightarrow> None | Some r \<Rightarrow>
      case strip_suffix (lit ''.md'') r of None \<Rightarrow> None | Some slug \<Rightarrow>
        if label \<noteq> [] \<and> slug \<noteq> [] \<and> shown \<noteq> [] then Some (label, slug, shown) else None)"

definition check_lines :: "ustr \<Rightarrow> ustr list" where
  "check_lines source = split_by is_splitlines_boundary source"

record index_scan =
  is_failures :: "ustr list"
  is_seen :: "ustr list"
  is_headings :: "ustr list"
  is_section :: "ustr option"
  is_rank :: "nat option"
  is_previous :: "ustr option"

definition index_scan_start :: index_scan where
  "index_scan_start = \<lparr> is_failures = [], is_seen = [], is_headings = [], is_section = None, is_rank = None, is_previous = None \<rparr>"

definition debug_option :: "check_lib \<Rightarrow> ustr option \<Rightarrow> ustr" where
  "debug_option L v = (case v of None \<Rightarrow> lit ''None'' | Some s \<Rightarrow> lit ''Some('' @ ck_debug L s @ lit '')'')"

definition debug_list :: "check_lib \<Rightarrow> ustr list \<Rightarrow> ustr" where
  "debug_list L vs = lit ''['' @ join (lit '', '') (map (ck_debug L) vs) @ lit '']''"

definition scan_heading :: "check_lib \<Rightarrow> index_scan \<Rightarrow> ustr \<Rightarrow> index_scan" where
  "scan_heading L st heading =
     (let st = st\<lparr> is_section := Some heading, is_previous := None \<rparr>
      in case position (\<lambda>h. h = heading) GENERATED_HEADINGS of
        None \<Rightarrow> st\<lparr> is_failures := is_failures st @ [lit ''INDEX.md has unknown generated heading '' @ ck_debug L heading] \<rparr>
      | Some rank \<Rightarrow>
          st\<lparr> is_failures := is_failures st
                @ (if heading \<in> set (is_headings st) then [lit ''INDEX.md repeats generated heading '' @ ck_debug L heading] else [])
                @ (if (case is_rank st of None \<Rightarrow> False | Some last_rank \<Rightarrow> rank \<le> last_rank)
                   then [lit ''INDEX.md generated headings are not in canonical order at '' @ ck_debug L heading] else []),
              is_headings := heading # is_headings st, is_rank := Some rank \<rparr>)"

definition scan_entry :: "check_lib \<Rightarrow> (ustr \<Rightarrow> (ustr \<times> ustr) option) \<Rightarrow> index_scan \<Rightarrow> ustr \<times> ustr \<times> ustr \<Rightarrow> index_scan" where
  "scan_entry L expected st entry =
     (case entry of (label, slug, shown) \<Rightarrow>
        st\<lparr> is_failures := is_failures st
              @ (if (case is_previous st of None \<Rightarrow> False | Some previous \<Rightarrow> slug \<le> previous)
                 then [lit ''INDEX.md entries are not in canonical order at '' @ slug] else [])
              @ (if slug \<in> set (is_seen st) then [lit ''INDEX.md lists '' @ slug @ lit '' more than once''] else [])
              @ (if label \<noteq> slug then [lit ''INDEX.md labels '' @ slug @ lit '' as '' @ ck_debug L label] else [])
              @ (case expected slug of None \<Rightarrow> []
                 | Some (page_type, summary) \<Rightarrow>
                     (if shown \<noteq> summary
                      then [lit ''INDEX.md shows a summary for '' @ slug @ lit '' that its page does not carry''] else [])
                     @ (if is_section st \<noteq> literal_heading page_type
                        then [lit ''INDEX.md places '' @ slug @ lit '' under '' @ debug_option L (is_section st)
                               @ lit '', expected '' @ debug_option L (literal_heading page_type)] else [])),
            is_previous := Some slug, is_seen := slug # is_seen st \<rparr>)"

definition scan_line :: "check_lib \<Rightarrow> (ustr \<Rightarrow> (ustr \<times> ustr) option) \<Rightarrow> index_scan \<Rightarrow> ustr \<Rightarrow> index_scan" where
  "scan_line L expected st line =
     (if line = [] then st
      else case strip_prefix (lit ''## '') line of
        Some heading \<Rightarrow> scan_heading L st heading
      | None \<Rightarrow>
          (case parse_generated_entry line of
             None \<Rightarrow> st\<lparr> is_failures := is_failures st @ [lit ''INDEX.md has non-canonical generated line '' @ ck_debug L line] \<rparr>
           | Some entry \<Rightarrow> scan_entry L expected st entry))"

type_synonym valid_page = "ustr \<times> (ustr, ustr) btree"

definition render_page_of :: "valid_page \<Rightarrow> index_page option" where
  "render_page_of p =
     (case p of (name, fs) \<Rightarrow>
        (case (strip_suffix (lit ''.md'') name, bt_get fs (lit ''type''), bt_get fs (lit ''summary'')) of
           (Some slug, Some t, Some summary) \<Rightarrow>
             (case map_of page_type_table t of None \<Rightarrow> None
              | Some page_type \<Rightarrow> Some \<lparr> ip_slug = slug, ip_page_type = page_type, ip_summary = summary \<rparr>)
         | _ \<Rightarrow> None))"

definition expected_of :: "valid_page \<Rightarrow> (ustr \<times> ustr \<times> ustr) option" where
  "expected_of p =
     (case p of (name, fs) \<Rightarrow>
        (case (strip_suffix (lit ''.md'') name, bt_get fs (lit ''type''), bt_get fs (lit ''summary'')) of
           (Some slug, Some t, Some summary) \<Rightarrow> Some (slug, t, summary)
         | _ \<Rightarrow> None))"

definition symmetric_difference :: "ustr list \<Rightarrow> ustr list \<Rightarrow> ustr list" where
  "symmetric_difference xs ys = sort (remdups (filter (\<lambda>x. x \<notin> set ys) xs @ filter (\<lambda>y. y \<notin> set xs) ys))"

definition rebuild_failures :: "ustr \<Rightarrow> index_page list \<Rightarrow> ustr list" where
  "rebuild_failures index pages =
     (case rebuild_index index pages of
        Inr canonical \<Rightarrow>
          if canonical \<noteq> index
          then [lit ''INDEX.md differs from what catalog would produce '' @ em_dash @ lit '' run `yams-wiki catalog .agents/memory`'']
          else []
      | Inl e \<Rightarrow> [lit ''INDEX.md cannot be verified: '' @ index_error_text e])"

text \<open>The literal scan; the maps and sets are collected as in the code, a later page replacing an earlier one.\<close>

definition literal_failures :: "check_lib \<Rightarrow> ustr \<Rightarrow> valid_page list \<Rightarrow> ustr list" where
  "literal_failures L region pages =
     (let expected = map_of (rev (List.map_filter expected_of pages));
          expected_slugs = map fst (List.map_filter expected_of pages);
          expected_headings = List.map_filter (\<lambda>slug. case expected slug of None \<Rightarrow> None | Some (t, _) \<Rightarrow> literal_heading t) expected_slugs;
          st = foldl (scan_line L expected) index_scan_start (check_lines region)
      in is_failures st
         @ (if set (is_seen st) \<noteq> set expected_slugs
            then [lit ''INDEX.md entry set differs from the pages: '' @ debug_list L (symmetric_difference (is_seen st) expected_slugs)] else [])
         @ (if set (is_headings st) \<noteq> set expected_headings
            then [lit ''INDEX.md generated heading set differs from the page types: ''
                   @ debug_list L (symmetric_difference (is_headings st) expected_headings)] else []))"

definition validate_generated_index :: "check_lib \<Rightarrow> ustr \<Rightarrow> valid_page list \<Rightarrow> ustr list" where
  "validate_generated_index L index pages =
     rebuild_failures index (List.map_filter render_page_of pages)
     @ (case generated_region index of
          Inl e \<Rightarrow> [lit ''INDEX.md cannot be verified: '' @ index_error_text e]
        | Inr region \<Rightarrow> literal_failures L region pages)"

subsection \<open>The whole wiki\<close>

definition sorted_set :: "ustr list \<Rightarrow> ustr list" where
  "sorted_set xs = sort (remdups xs)"

definition page_files_of :: "captured_page list \<Rightarrow> ustr list" where
  "page_files_of pages = sorted_set (List.map_filter (\<lambda>page. from_utf8 (cp_name page)) (filter (\<lambda>page. \<not> is_not_regular page) pages))"

definition orphan_failures :: "ustr \<Rightarrow> ustr list \<Rightarrow> ustr list" where
  "orphan_failures index page_files =
     map (\<lambda>name. page_prefix name @ lit '' is not listed in INDEX.md (orphan page)'')
       (filter (\<lambda>name. \<not> str_contains (lit ''(pages/'' @ name @ lit '')'') index) page_files)"

definition dangling_failures :: "ustr \<Rightarrow> ustr list \<Rightarrow> ustr list" where
  "dangling_failures index page_files =
     map (\<lambda>name. lit ''INDEX.md links pages/'' @ name @ lit '', which does not exist'')
       (filter (\<lambda>name. name \<notin> set page_files) (index_links index))"

definition unreachable_notes :: "ustr list \<Rightarrow> ustr list \<Rightarrow> ustr list" where
  "unreachable_notes page_files linked =
     (if 1 < length page_files
      then List.map_filter (\<lambda>name. case strip_suffix (lit ''.md'') name of
             None \<Rightarrow> None
           | Some slug \<Rightarrow> if slug \<in> set linked then None
                          else Some (page_prefix name @ lit '': no other page links [['' @ slug @ lit '']] '' @ em_dash
                                      @ lit '' unreachable except through INDEX.md'')) page_files
      else [])"

definition isolation_notes :: "wiki_snapshot \<Rightarrow> ustr list" where
  "isolation_notes snapshot =
     (case ws_isolation_note snapshot of None \<Rightarrow> []
      | Some note \<Rightarrow> [lit ''this check ran without isolation ('' @ note
                       @ lit ''); a concurrent write could not have been excluded''])"

definition validate_wiki :: "check_lib \<Rightarrow> wiki_snapshot \<Rightarrow> wiki_check_report" where
  "validate_wiki L snapshot =
     (let pages = ws_pages snapshot;
          page_count = length (filter (\<lambda>page. \<not> is_not_regular page) pages)
      in case from_utf8 (ws_index snapshot) of
        None \<Rightarrow> \<lparr> wr_failures = [path_join (ws_corpus snapshot) INDEX_NAME @ lit '' is not valid UTF-8''],
                    wr_notes = isolation_notes snapshot, wr_page_count = page_count, wr_isolated = ws_isolated snapshot \<rparr>
      | Some index \<Rightarrow>
          let page_files = page_files_of pages;
              slugs = List.map_filter (strip_suffix (lit ''.md'')) page_files;
              verdicts = map (check_page (ck_wiki L) slugs) pages;
              failures = concat (map name_failures pages) @ orphan_failures index page_files @ dangling_failures index page_files
                @ concat (map pv_failures verdicts);
              notes = isolation_notes snapshot @ concat (map pv_notes verdicts)
                @ unreachable_notes page_files (concat (map pv_linked verdicts));
              valid_pages = List.map_filter pv_valid verdicts;
              failures = failures @ (if failures = [] then validate_generated_index L index valid_pages else [])
          in \<lparr> wr_failures = deduplicate failures, wr_notes = deduplicate notes, wr_page_count = page_count,
               wr_isolated = ws_isolated snapshot \<rparr>)"

subsection \<open>Preflight\<close>

definition failed_report :: "ustr \<Rightarrow> wiki_check_report" where
  "failed_report failure = \<lparr> wr_failures = [failure], wr_notes = [], wr_page_count = 0, wr_isolated = False \<rparr>"

definition preflight_entry :: "file_system \<Rightarrow> (ustr \<Rightarrow> bool) \<Rightarrow> file_type \<Rightarrow> ustr \<Rightarrow> ustr option" where
  "preflight_entry fs accessible kind path =
     (case fs_metadata fs path of
        Inr md \<Rightarrow> if md_type md \<noteq> kind then Some (path @ lit '' does not exist'')
                  else if \<not> accessible path then Some (path @ lit '' is not readable'') else None
      | Inl e \<Rightarrow> if fe_kind e = NotFoundKind then Some (path @ lit '' does not exist'') else Some (path @ lit '' is not readable''))"

definition preflight_failure :: "file_system \<Rightarrow> (ustr \<Rightarrow> bool) \<Rightarrow> ustr \<Rightarrow> ustr option" where
  "preflight_failure fs accessible corpus_path =
     (case preflight_entry fs accessible IsDir (path_join corpus_path PAGES_NAME) of
        Some failure \<Rightarrow> Some failure
      | None \<Rightarrow> preflight_entry fs accessible IsFile (path_join corpus_path INDEX_NAME))"

section \<open>Lemmas\<close>

lemma deduplicate_facts [simp]: "set (deduplicate xs) = set xs" "distinct (deduplicate xs)" "deduplicate xs = [] \<longleftrightarrow> xs = []"
  using retain_first_keys [of "\<lambda>x. x" "[]" xs] retain_first_distinct [of "\<lambda>x. x" "[]" xs]
  by (auto simp: deduplicate_def retain_first_Nil_iff)

lemma map_filter_set: "set (List.map_filter f xs) = {y. \<exists>x \<in> set xs. f x = Some y}"
  by (induction xs) (auto simp: List.map_filter_simps split: option.splits)

lemma map_filter_Nil: "List.map_filter f [] = []"
  by (simp add: List.map_filter_simps)

lemma sorted_set_set [simp]: "set (sorted_set xs) = set xs"
  by (simp add: sorted_set_def)

subsection \<open>A clean report\<close>

text \<open>What a page without failures satisfies.\<close>

definition page_sound :: "wiki_lib \<Rightarrow> ustr \<Rightarrow> ustr \<Rightarrow> ustr \<Rightarrow> bool" where
  "page_sound lib name slug source =
     (let fs = page_fields (parse_frontmatter source)
      in bt_get fs (lit ''slug'') = Some slug \<and> (\<exists>title. bt_get fs (lit ''title'') = Some title \<and> title \<noteq> [])
       \<and> (\<exists>summary. bt_get fs (lit ''summary'') = Some summary \<and> scalar_problem summary = None)
       \<and> (\<exists>t. bt_get fs (lit ''type'') = Some (page_type_as_str t)) \<and> (\<exists>s. bt_get fs (lit ''status'') = Some (status_as_str s))
       \<and> (\<exists>w. bt_get fs (lit ''owner'') = Some (owner_as_str w))
       \<and> (\<exists>updated verified. bt_get fs (lit ''updated'') = Some updated \<and> bt_get fs (lit ''verified'') = Some verified
            \<and> is_iso_date lib updated \<and> is_iso_date lib verified \<and> updated \<le> verified)
       \<and> find_iter (line_ref_match lib) 0 (strip_line_ref_exemptions source) = [])"

lemma enum_field_Nil: "validate_enum_field name fs field allowed = [] \<Longrightarrow> \<exists>v \<in> set allowed. bt_get fs field = Some v"
  by (auto simp: validate_enum_field_def split: option.splits if_splits)

lemma date_field_Nil: "validate_date_field lib name fs field = [] \<Longrightarrow> \<exists>v. bt_get fs field = Some v \<and> is_iso_date lib v"
  by (auto simp: validate_date_field_def split: option.splits if_splits)

lemma TYPE_VALUES_set: "v \<in> set TYPE_VALUES \<Longrightarrow> \<exists>t. v = page_type_as_str t"
proof -
  have "set TYPE_VALUES \<subseteq> page_type_as_str ` {Decision, Feature, Gotcha, Pattern, ProjectState, Workflow}" by (simp add: TYPE_VALUES_def)
  then show "v \<in> set TYPE_VALUES \<Longrightarrow> \<exists>t. v = page_type_as_str t" by blast
qed

lemma STATUS_VALUES_set: "v \<in> set STATUS_VALUES \<Longrightarrow> \<exists>s. v = status_as_str s"
proof -
  have "set STATUS_VALUES \<subseteq> status_as_str ` {Current, Historical, InProgress}" by (simp add: STATUS_VALUES_def)
  then show "v \<in> set STATUS_VALUES \<Longrightarrow> \<exists>s. v = status_as_str s" by blast
qed

lemma OWNER_VALUES_set: "v \<in> set OWNER_VALUES \<Longrightarrow> \<exists>w. v = owner_as_str w"
proof -
  have "set OWNER_VALUES \<subseteq> owner_as_str ` {Claude, Codex, Shared}" by (simp add: OWNER_VALUES_def)
  then show "v \<in> set OWNER_VALUES \<Longrightarrow> \<exists>w. v = owner_as_str w" by blast
qed

lemma page_type_of_str: "map_of page_type_table (page_type_as_str t) = Some t"
  by (cases t) (simp_all add: page_type_table_def)

lemma field_failures_Nil:
  assumes "field_failures lib name slug fs = []"
  shows "bt_get fs (lit ''slug'') = Some slug" "\<exists>title. bt_get fs (lit ''title'') = Some title \<and> title \<noteq> []"
    "\<exists>summary. bt_get fs (lit ''summary'') = Some summary \<and> scalar_problem summary = None"
    "\<exists>t. bt_get fs (lit ''type'') = Some (page_type_as_str t)" "\<exists>s. bt_get fs (lit ''status'') = Some (status_as_str s)"
    "\<exists>w. bt_get fs (lit ''owner'') = Some (owner_as_str w)"
    "\<exists>updated verified. bt_get fs (lit ''updated'') = Some updated \<and> bt_get fs (lit ''verified'') = Some verified
            \<and> is_iso_date lib updated \<and> is_iso_date lib verified \<and> updated \<le> verified"
proof -
  have parts: "slug_field_failures name slug fs = []" "title_failures name fs = []" "summary_failures name fs = []"
    "validate_enum_field name fs (lit ''status'') STATUS_VALUES = []" "validate_enum_field name fs (lit ''type'') TYPE_VALUES = []"
    "validate_enum_field name fs (lit ''owner'') OWNER_VALUES = []" "validate_date_field lib name fs (lit ''updated'') = []"
    "validate_date_field lib name fs (lit ''verified'') = []" "date_order_failures lib name fs = []"
    using assms by (simp_all add: field_failures_def)
  show "bt_get fs (lit ''slug'') = Some slug" using parts(1) by (simp add: slug_field_failures_def split: if_splits)
  show "\<exists>title. bt_get fs (lit ''title'') = Some title \<and> title \<noteq> []"
    using parts(2) by (cases "bt_get fs (lit ''title'')") (auto simp: title_failures_def split: if_splits)
  show "\<exists>summary. bt_get fs (lit ''summary'') = Some summary \<and> scalar_problem summary = None"
    using parts(3) by (auto simp: summary_failures_def split: option.splits if_splits)
  show "\<exists>t. bt_get fs (lit ''type'') = Some (page_type_as_str t)" using enum_field_Nil [OF parts(5)] TYPE_VALUES_set by blast
  show "\<exists>s. bt_get fs (lit ''status'') = Some (status_as_str s)" using enum_field_Nil [OF parts(4)] STATUS_VALUES_set by blast
  show "\<exists>w. bt_get fs (lit ''owner'') = Some (owner_as_str w)" using enum_field_Nil [OF parts(6)] OWNER_VALUES_set by blast
  obtain u v where "bt_get fs (lit ''updated'') = Some u" "is_iso_date lib u" "bt_get fs (lit ''verified'') = Some v" "is_iso_date lib v"
    using date_field_Nil [OF parts(7)] date_field_Nil [OF parts(8)] by blast
  then show "\<exists>updated verified. bt_get fs (lit ''updated'') = Some updated \<and> bt_get fs (lit ''verified'') = Some verified
            \<and> is_iso_date lib updated \<and> is_iso_date lib verified \<and> updated \<le> verified"
    using parts(9) by (auto simp: date_order_failures_def split: if_splits)
qed

lemma check_page_Nil:
  assumes "pv_failures (check_page lib slugs page) = []" "\<not> is_not_regular page"
    "from_utf8 (cp_name page) = Some name" "strip_suffix (lit ''.md'') name = Some slug"
  shows "\<exists>bytes source. cp_outcome page = Present bytes \<and> from_utf8 bytes = Some source \<and> page_sound lib name slug source
    \<and> pv_valid (check_page lib slugs page) = Some (name, page_fields (parse_frontmatter source))"
proof -
  obtain bytes where b: "cp_outcome page = Present bytes"
    using assms by (cases "cp_outcome page") (auto simp: check_page_def refused_page_def is_not_regular_def)
  obtain source where s: "from_utf8 bytes = Some source"
    using assms b by (cases "from_utf8 bytes") (auto simp: check_page_def refused_page_def)
  have c: "check_page lib slugs page = check_source lib slugs name slug (length bytes) source"
    using assms(3,4) b s by (simp add: check_page_def)
  have ne: "page_fields (parse_frontmatter source) \<noteq> []"
    using assms(1) unfolding c by (auto simp: check_source_def refused_page_def Let_def)
  then have f: "field_failures lib name slug (page_fields (parse_frontmatter source)) = []" "reference_failures lib name source = []"
    using assms(1) unfolding c by (auto simp: check_source_def Let_def)
  have "page_sound lib name slug source"
    unfolding page_sound_def Let_def using field_failures_Nil [OF f(1)] f(2) by (simp add: reference_failures_def)
  moreover have "pv_valid (check_page lib slugs page) = Some (name, page_fields (parse_frontmatter source))"
    unfolding c using ne by (simp add: check_source_def Let_def)
  ultimately show ?thesis using b s by blast
qed

lemma check_page_valid:
  "pv_valid (check_page lib slugs page) = Some (name, fs) \<Longrightarrow>
     from_utf8 (cp_name page) = Some name \<and> \<not> is_not_regular page
     \<and> (\<exists>slug bytes source. strip_suffix (lit ''.md'') name = Some slug \<and> cp_outcome page = Present bytes
         \<and> from_utf8 bytes = Some source \<and> fs = page_fields (parse_frontmatter source))"
  by (auto simp: check_page_def check_source_def refused_page_def is_not_regular_def Let_def
      split: option.splits captured_page_outcome.splits if_splits)

lemma validate_wiki_Nil:
  assumes "wr_failures (validate_wiki L snapshot) = []"
  obtains index valid where "from_utf8 (ws_index snapshot) = Some index"
    "\<And>page. page \<in> set (ws_pages snapshot) \<Longrightarrow> name_failures page = []"
    "orphan_failures index (page_files_of (ws_pages snapshot)) = []" "dangling_failures index (page_files_of (ws_pages snapshot)) = []"
    "\<And>page. page \<in> set (ws_pages snapshot) \<Longrightarrow>
       pv_failures (check_page (ck_wiki L) (List.map_filter (strip_suffix (lit ''.md'')) (page_files_of (ws_pages snapshot))) page) = []"
    "valid = List.map_filter pv_valid (map (check_page (ck_wiki L)
       (List.map_filter (strip_suffix (lit ''.md'')) (page_files_of (ws_pages snapshot)))) (ws_pages snapshot))"
    "validate_generated_index L index valid = []"
proof -
  obtain index where i: "from_utf8 (ws_index snapshot) = Some index"
    using assms by (cases "from_utf8 (ws_index snapshot)") (auto simp: validate_wiki_def Let_def)
  let ?slugs = "List.map_filter (strip_suffix (lit ''.md'')) (page_files_of (ws_pages snapshot))"
  let ?v = "map (check_page (ck_wiki L) ?slugs) (ws_pages snapshot)"
  let ?f = "concat (map name_failures (ws_pages snapshot)) @ orphan_failures index (page_files_of (ws_pages snapshot))
      @ dangling_failures index (page_files_of (ws_pages snapshot)) @ concat (map pv_failures ?v)"
  have all: "?f @ (if ?f = [] then validate_generated_index L index (List.map_filter pv_valid ?v) else []) = []"
    using assms by (simp add: validate_wiki_def i Let_def del: append_is_Nil_conv) 
  then have f: "?f = []" by blast
  then have g: "validate_generated_index L index (List.map_filter pv_valid ?v) = []" using all unfolding f by simp
  from f have p: "\<forall>page \<in> set (ws_pages snapshot). name_failures page = []" "orphan_failures index (page_files_of (ws_pages snapshot)) = []"
    "dangling_failures index (page_files_of (ws_pages snapshot)) = []" "\<forall>page \<in> set (ws_pages snapshot). pv_failures (check_page (ck_wiki L) ?slugs page) = []"
    by simp_all
  show thesis by (rule that [OF i _ p(2,3) _ refl g]) (use p(1,4) in blast)+
qed

lemma name_failures_Nil: "name_failures page = [] \<Longrightarrow> \<not> is_not_regular page \<and> (\<exists>name. from_utf8 (cp_name page) = Some name)"
  by (auto simp: name_failures_def split: if_splits)

lemma orphan_failures_Nil:
  "orphan_failures index files = [] \<Longrightarrow> name \<in> set files \<Longrightarrow> str_contains (lit ''(pages/'' @ name @ lit '')'') index"
  by (auto simp: orphan_failures_def filter_empty_conv)

lemma dangling_failures_Nil: "dangling_failures index files = [] \<Longrightarrow> name \<in> set (index_links index) \<Longrightarrow> name \<in> set files"
  by (auto simp: dangling_failures_def filter_empty_conv)

lemma rebuild_failures_Nil: "rebuild_failures index pages = [] \<Longrightarrow> rebuild_index index pages = Inr index"
  by (auto simp: rebuild_failures_def split: sum.splits if_splits)

lemma page_files_of_set:
  "name \<in> set (page_files_of pages) \<longleftrightarrow> (\<exists>page \<in> set pages. \<not> is_not_regular page \<and> from_utf8 (cp_name page) = Some name)"
  by (auto simp: page_files_of_def map_filter_set)

text \<open>The row that the index holds for a page, read from the page's own bytes.\<close>

definition index_row :: "captured_page \<Rightarrow> index_page option" where
  "index_row page =
     (case (from_utf8 (cp_name page), cp_outcome page) of
        (Some name, Present bytes) \<Rightarrow>
          (case from_utf8 bytes of None \<Rightarrow> None | Some source \<Rightarrow> render_page_of (name, page_fields (parse_frontmatter source)))
      | _ \<Rightarrow> None)"

lemma render_page_of_sound:
  assumes "page_sound lib name slug source" "strip_suffix (lit ''.md'') name = Some slug"
  shows "\<exists>row. render_page_of (name, page_fields (parse_frontmatter source)) = Some row \<and> ip_slug row = slug"
proof -
  obtain t s where "bt_get (page_fields (parse_frontmatter source)) (lit ''type'') = Some (page_type_as_str t)"
    "bt_get (page_fields (parse_frontmatter source)) (lit ''summary'') = Some s"
    using assms(1) by (auto simp: page_sound_def Let_def)
  then show ?thesis using assms(2) by (simp add: render_page_of_def page_type_of_str)
qed

lemma index_row_of_verdict:
  assumes "pv_failures (check_page lib slugs page) = []" "\<not> is_not_regular page" "from_utf8 (cp_name page) = Some name"
  shows "(case pv_valid (check_page lib slugs page) of None \<Rightarrow> None | Some p \<Rightarrow> render_page_of p)
    = (if strip_suffix (lit ''.md'') name = None then None else index_row page)"
proof (cases "strip_suffix (lit ''.md'') name")
  case None
  then show ?thesis using assms by (simp add: check_page_def refused_page_def)
next
  case (Some slug)
  from check_page_Nil [OF assms Some] Some assms show ?thesis by (auto simp: index_row_def)
qed

lemma index_row_without_suffix:
  assumes "from_utf8 (cp_name page) = Some name" "strip_suffix (lit ''.md'') name = None"
  shows "index_row page = None"
  using assms by (auto simp: index_row_def render_page_of_def split: option.splits captured_page_outcome.splits)

lemma map_filter_verdicts:
  assumes "\<And>page. page \<in> set pages \<Longrightarrow> (case g page of None \<Rightarrow> None | Some p \<Rightarrow> r p) = row page"
  shows "List.map_filter r (List.map_filter g pages) = List.map_filter row pages"
  using assms
proof (induction pages)
  case (Cons page pages)
  have "(case g page of None \<Rightarrow> None | Some p \<Rightarrow> r p) = row page" using Cons.prems by simp
  then show ?case using Cons by (cases "g page"; simp add: List.map_filter_simps split: option.split)
qed (simp add: List.map_filter_simps)

lemma index_rows_of_verdicts:
  assumes "\<And>page. page \<in> set pages \<Longrightarrow> name_failures page = []"
    "\<And>page. page \<in> set pages \<Longrightarrow> pv_failures (check_page lib slugs page) = []"
  shows "List.map_filter render_page_of (List.map_filter pv_valid (map (check_page lib slugs) pages)) = List.map_filter index_row pages"
proof -
  have "List.map_filter pv_valid (map (check_page lib slugs) pages) = List.map_filter (\<lambda>page. pv_valid (check_page lib slugs page)) pages"
    by (simp add: List.map_filter_def filter_map comp_def)
  moreover have "(case pv_valid (check_page lib slugs page) of None \<Rightarrow> None | Some p \<Rightarrow> render_page_of p) = index_row page"
    if p: "page \<in> set pages" for page
  proof -
    obtain name where n: "from_utf8 (cp_name page) = Some name" "\<not> is_not_regular page"
      using name_failures_Nil [OF assms(1) [OF p]] by blast
    show ?thesis using index_row_of_verdict [OF assms(2) [OF p] n(2,1)] index_row_without_suffix [OF n(1)] by simp
  qed
  ultimately show ?thesis by (simp add: map_filter_verdicts)
qed


lemma clean_report_facts:
  assumes "wr_failures (validate_wiki L snapshot) = []"
  shows "\<exists>index. from_utf8 (ws_index snapshot) = Some index
    \<and> rebuild_index index (List.map_filter index_row (ws_pages snapshot)) = Inr index
    \<and> (\<forall>page \<in> set (ws_pages snapshot). \<exists>name. from_utf8 (cp_name page) = Some name
         \<and> str_contains (lit ''(pages/'' @ name @ lit '')'') index
         \<and> (\<forall>slug. strip_suffix (lit ''.md'') name = Some slug \<longrightarrow>
              (\<exists>bytes source. cp_outcome page = Present bytes \<and> from_utf8 bytes = Some source
                 \<and> page_sound (ck_wiki L) name slug source)))
    \<and> (\<forall>name \<in> set (index_links index). \<exists>page \<in> set (ws_pages snapshot). from_utf8 (cp_name page) = Some name)"
proof -
  let ?files = "page_files_of (ws_pages snapshot)"
  obtain index valid where i: "from_utf8 (ws_index snapshot) = Some index"
    and names: "\<And>page. page \<in> set (ws_pages snapshot) \<Longrightarrow> name_failures page = []"
    and orphans: "orphan_failures index ?files = []" and dangling: "dangling_failures index ?files = []"
    and verdicts: "\<And>page. page \<in> set (ws_pages snapshot) \<Longrightarrow>
       pv_failures (check_page (ck_wiki L) (List.map_filter (strip_suffix (lit ''.md'')) ?files) page) = []"
    and valid: "valid = List.map_filter pv_valid (map (check_page (ck_wiki L) (List.map_filter (strip_suffix (lit ''.md'')) ?files)) (ws_pages snapshot))"
    and generated: "validate_generated_index L index valid = []"
    by (rule validate_wiki_Nil [OF assms]) blast
  have rows: "List.map_filter render_page_of valid = List.map_filter index_row (ws_pages snapshot)"
    unfolding valid by (rule index_rows_of_verdicts [OF names verdicts])
  have "rebuild_failures index (List.map_filter render_page_of valid) = []" using generated by (simp add: validate_generated_index_def)
  from rebuild_failures_Nil [OF this] have rebuilt: "rebuild_index index (List.map_filter index_row (ws_pages snapshot)) = Inr index"
    by (simp only: rows)
  have page: "\<exists>name. from_utf8 (cp_name page) = Some name \<and> str_contains (lit ''(pages/'' @ name @ lit '')'') index
         \<and> (\<forall>slug. strip_suffix (lit ''.md'') name = Some slug \<longrightarrow>
              (\<exists>bytes source. cp_outcome page = Present bytes \<and> from_utf8 bytes = Some source
                 \<and> page_sound (ck_wiki L) name slug source))" if p: "page \<in> set (ws_pages snapshot)" for page
  proof -
    obtain name where n: "from_utf8 (cp_name page) = Some name" "\<not> is_not_regular page"
      using name_failures_Nil [OF names [OF p]] by blast
    then have "name \<in> set ?files" using p page_files_of_set by blast
    from n orphan_failures_Nil [OF orphans this] check_page_Nil [OF verdicts [OF p] n(2,1)] show ?thesis by blast
  qed
  have link: "\<exists>page \<in> set (ws_pages snapshot). from_utf8 (cp_name page) = Some name" if "name \<in> set (index_links index)" for name
    using dangling_failures_Nil [OF dangling that] page_files_of_set by blast
  show ?thesis using i rebuilt page link by (intro exI [of _ index]) blast
qed

subsection \<open>Example\<close>

definition sample_check_lib :: check_lib where
  "sample_check_lib = \<lparr> ck_wiki = ascii_lib, ck_debug = (\<lambda>s. s) \<rparr>"

definition sample_index :: ustr where
  "sample_index = (case rebuild_index demo_index [\<lparr> ip_slug = lit ''night-mode-on'', ip_page_type = Gotcha, ip_summary = lit ''A summary'' \<rparr>] of
     Inr index \<Rightarrow> index | Inl _ \<Rightarrow> [])"

definition sample_page_file :: captured_page where
  "sample_page_file = \<lparr> cp_name = as_bytes (lit ''night-mode-on.md''), cp_outcome = Present (as_bytes sample_wiki_page) \<rparr>"

definition sample_snapshot :: wiki_snapshot where
  "sample_snapshot = \<lparr> ws_corpus = lit ''/w'', ws_index = as_bytes sample_index, ws_pages = [sample_page_file],
     ws_isolated = True, ws_isolation_note = None \<rparr>"

definition sample_fields :: "(ustr, ustr) btree" where
  "sample_fields = stored_fields (page_values (Create sample_create) (lit ''night-mode-on'') Codex Current (lit ''2026-02-03'') (lit ''2026-02-03''))"

lemma sample_page_fields: "page_fields (parse_frontmatter sample_wiki_page) = sample_fields"
proof -
  have "parse_frontmatter_fields sample_wiki_page = Inr sample_fields"
    unfolding sample_wiki_page_def sample_fields_def by (rule rendered_fields [OF ascii_lib_ok]; code_simp)
  from parse_frontmatter_fields_Inr(1) [OF this] show ?thesis .
qed

lemma sample_checks:
  "field_failures ascii_lib (lit ''night-mode-on.md'') (lit ''night-mode-on'') sample_fields = []"
  "reference_failures ascii_lib (lit ''night-mode-on.md'') sample_wiki_page = []"
  "sample_fields \<noteq> []"
  by code_simp+

lemma sample_generated:
  "validate_generated_index sample_check_lib sample_index [(lit ''night-mode-on.md'', sample_fields)] = []"
  "orphan_failures sample_index [lit ''night-mode-on.md''] = []"
  "dangling_failures sample_index [lit ''night-mode-on.md''] = []"
  by code_simp+


lemma sample_decodes:
  "from_utf8 (cp_name sample_page_file) = Some (lit ''night-mode-on.md'')"
  "from_utf8 (as_bytes sample_wiki_page) = Some sample_wiki_page" "from_utf8 (ws_index sample_snapshot) = Some sample_index"
  unfolding sample_page_file_def sample_snapshot_def captured_page.simps wiki_snapshot.simps
  by (rule from_utf8_as_bytes, code_simp)+

lemma sample_verdict:
  "pv_failures (check_page ascii_lib slugs sample_page_file) = []"
  "pv_valid (check_page ascii_lib slugs sample_page_file) = Some (lit ''night-mode-on.md'', sample_fields)"
proof -
  have s: "strip_suffix (lit ''.md'') (lit ''night-mode-on.md'') = Some (lit ''night-mode-on'')" by code_simp
  have "check_page ascii_lib slugs sample_page_file
      = check_source ascii_lib slugs (lit ''night-mode-on.md'') (lit ''night-mode-on'') (length (as_bytes sample_wiki_page)) sample_wiki_page"
    by (simp add: check_page_def sample_decodes s, simp add: sample_page_file_def sample_decodes)
  then show "pv_failures (check_page ascii_lib slugs sample_page_file) = []"
    "pv_valid (check_page ascii_lib slugs sample_page_file) = Some (lit ''night-mode-on.md'', sample_fields)"
    using sample_checks by (simp_all add: check_source_def sample_page_fields Let_def)
qed

lemma sample_clean: "wr_failures (validate_wiki sample_check_lib sample_snapshot) = []"
proof -
  have p: "ws_pages sample_snapshot = [sample_page_file]" by (simp add: sample_snapshot_def)
  have r: "\<not> is_not_regular sample_page_file" by (simp add: is_not_regular_def sample_page_file_def)
  have f: "page_files_of [sample_page_file] = [lit ''night-mode-on.md'']"
    using r by (simp add: page_files_of_def sorted_set_def sample_decodes List.map_filter_simps)
  have n: "name_failures sample_page_file = []" using r by (simp add: name_failures_def sample_decodes)
  have l: "ck_wiki sample_check_lib = ascii_lib" by (simp add: sample_check_lib_def)
  show ?thesis
    unfolding validate_wiki_def p
    by (simp add: Let_def sample_decodes f n l sample_verdict sample_generated List.map_filter_simps)
qed


text \<open>
  A summary may hold the beginning of a link without its end. It passes every check of the writer, but in the
  index the expression of the checker runs over the line end to the link of the next entry, and the report
  names a page that nothing refers to.
\<close>

definition open_link_pages :: "index_page list" where
  "open_link_pages =
     [\<lparr> ip_slug = lit ''apple'', ip_page_type = Gotcha, ip_summary = lit ''see (pages/ for more'' \<rparr>,
      \<lparr> ip_slug = lit ''zebra'', ip_page_type = Gotcha, ip_summary = lit ''Striped'' \<rparr>]"

lemma open_link_refused:
  "validate_frontmatter_scalar (lit ''summary'') (lit ''see (pages/ for more'') = Inr ()"
  "case rebuild_index demo_index open_link_pages of
     Inl _ \<Rightarrow> False
   | Inr index \<Rightarrow> rebuild_index index open_link_pages = Inr index
       \<and> length (dangling_failures index [lit ''apple.md'', lit ''zebra.md'']) = 1"
  by code_simp+

section \<open>Properties\<close>

text \<open>A clean report is sound. If \<open>validate_wiki\<close> reports no failure for a captured wiki, the index is
  text and is exactly what rebuilding it from the pages gives; every page has a readable name and is
  linked from the index; every \<open>.md\<close> page was read as text and its frontmatter has the slug of the
  file name, a title, a summary that the index can show, a known type, status and owner, real dates
  with the change not after the verification, and no reference to a source line; and every page
  link of the index leads to a captured page.\<close>

lemma clean_report_sound:
  assumes "wr_failures (validate_wiki L snapshot) = []"
  shows "\<exists>index. from_utf8 (ws_index snapshot) = Some index
    \<and> rebuild_index index (List.map_filter index_row (ws_pages snapshot)) = Inr index
    \<and> (\<forall>page \<in> set (ws_pages snapshot). \<exists>name. from_utf8 (cp_name page) = Some name
         \<and> str_contains (lit ''(pages/'' @ name @ lit '')'') index
         \<and> (\<forall>slug. strip_suffix (lit ''.md'') name = Some slug \<longrightarrow>
              (\<exists>bytes source. cp_outcome page = Present bytes \<and> from_utf8 bytes = Some source
                 \<and> page_sound (ck_wiki L) name slug source)))
    \<and> (\<forall>name \<in> set (index_links index). \<exists>page \<in> set (ws_pages snapshot). from_utf8 (cp_name page) = Some name)"
  by (rule clean_report_facts [OF assms])

lemma clean_report_sound_example:
  "\<exists>index. from_utf8 (ws_index sample_snapshot) = Some index
    \<and> rebuild_index index (List.map_filter index_row [sample_page_file]) = Inr index"
  using clean_report_sound [OF sample_clean] by (auto simp: sample_snapshot_def)

end
