(* ===== verification/Unix_World.thy ===== *)
theory Unix_World
  imports Rust_PathBuf Rust_Number
begin

text \<open>
  System calls in a file system that other processes change. Every call happens at an instant of its own and
  the answers are functions of the instant, so nothing is assumed to stay the same between two calls. A
  descriptor is the object it is open on. The calls that other processes notice are logged.

  The second half says what the answers mean: a \<open>history\<close> gives the real content at every instant, and
  \<open>answers_true\<close> states what the manual pages promise of the answers.
\<close>

section \<open>Calls\<close>

type_synonym instant = nat
type_synonym entry_name = "u8 list"

datatype errno = ENOENT | EEXIST | EACCES | EPERM | EROFS | EAGAIN | EINTR | OtherErrno nat

record identity =
  id_device :: "64 word"
  id_inode :: "64 word"

record unix_stat =
  st_id :: identity
  st_mode :: "32 word"
  st_nlink :: "64 word"
  st_uid :: "32 word"
  st_size :: int
  st_mtime :: int
  st_mtime_nsec :: int
  st_ctime :: int
  st_ctime_nsec :: int

datatype open_flags = OpenExisting | OpenCreateNew

datatype flock_operation = NonBlockingLockShared | NonBlockingLockExclusive | Unlock

datatype unix_effect = Flocked identity flock_operation | Slept nat | Chmodded identity nat

text \<open>The answers of the system. Directories and files are opened without following links.\<close>

record unix_env =
  ue_statat :: "instant \<Rightarrow> identity \<Rightarrow> entry_name \<Rightarrow> (errno, unix_stat) result"
  ue_statat_follow :: "instant \<Rightarrow> identity \<Rightarrow> entry_name \<Rightarrow> (errno, unix_stat) result"
  ue_fstat :: "instant \<Rightarrow> identity \<Rightarrow> (errno, unix_stat) result"
  ue_open_dir :: "instant \<Rightarrow> ustr \<Rightarrow> (errno, identity) result"
  ue_openat_dir :: "instant \<Rightarrow> identity \<Rightarrow> entry_name \<Rightarrow> (errno, identity) result"
  ue_openat :: "instant \<Rightarrow> open_flags \<Rightarrow> identity \<Rightarrow> entry_name \<Rightarrow> (errno, identity) result"
  ue_dir_stream :: "instant \<Rightarrow> identity \<Rightarrow> (errno, unit) result"
  ue_dir_entries :: "instant \<Rightarrow> identity \<Rightarrow> (errno, entry_name) result list"
  ue_read :: "instant \<Rightarrow> identity \<Rightarrow> (ustr, u8 list) result"
  ue_access_write :: "instant \<Rightarrow> identity \<Rightarrow> entry_name \<Rightarrow> (errno, unit) result"
  ue_flock :: "instant \<Rightarrow> identity \<Rightarrow> flock_operation \<Rightarrow> (errno, unit) result"
  ue_fchmod :: "instant \<Rightarrow> identity \<Rightarrow> nat \<Rightarrow> (errno, unit) result"
  ue_canonicalize :: "instant \<Rightarrow> ustr \<Rightarrow> (ustr, ustr) result"
  ue_current_dir :: "instant \<Rightarrow> (ustr, ustr) result"
  ue_clock :: "instant \<Rightarrow> nat"
  ue_uid :: "32 word"
  ue_file_type :: "32 word \<Rightarrow> file_type"
  ue_errno_text :: "errno \<Rightarrow> ustr"

record unix_state =
  us_now :: instant
  us_log :: "(instant \<times> unix_effect) list"

type_synonym 'a unix = "unix_state \<Rightarrow> 'a \<times> unix_state"

definition sys :: "(instant \<Rightarrow> 'a) \<Rightarrow> 'a unix" where
  "sys answer s = (answer (us_now s), s\<lparr> us_now := Suc (us_now s) \<rparr>)"

definition sys_logged :: "unix_effect \<Rightarrow> (instant \<Rightarrow> ('e, 'a) result) \<Rightarrow> ('e, 'a) result unix" where
  "sys_logged effect answer s =
     (answer (us_now s),
      s\<lparr> us_now := Suc (us_now s), us_log := us_log s @ (if is_ok (answer (us_now s)) then [(us_now s, effect)] else []) \<rparr>)"

definition sleep :: "nat \<Rightarrow> unit unix" where
  "sleep duration s = ((), s\<lparr> us_now := Suc (us_now s), us_log := us_log s @ [(us_now s, Slept duration)] \<rparr>)"

text \<open>Sequencing: the \<open>?\<close> operator and a plain sequence of two calls.\<close>

definition u_return :: "'a \<Rightarrow> 'a unix" where
  "u_return x s = (x, s)"

definition u_then :: "'a unix \<Rightarrow> ('a \<Rightarrow> 'b unix) \<Rightarrow> 'b unix" where
  "u_then m k s = (case m s of (x, s') \<Rightarrow> k x s')"

definition u_try :: "('e, 'a) result unix \<Rightarrow> ('a \<Rightarrow> ('e, 'b) result unix) \<Rightarrow> ('e, 'b) result unix" where
  "u_try m k s = (case m s of (Inl e, s') \<Rightarrow> (Inl e, s') | (Inr x, s') \<Rightarrow> k x s')"

definition u_map_err :: "('e \<Rightarrow> 'f) \<Rightarrow> ('e, 'a) result unix \<Rightarrow> ('f, 'a) result unix" where
  "u_map_err f m s = (case m s of (r, s') \<Rightarrow> (map_err f r, s'))"

fun u_for :: "'a list \<Rightarrow> ('a \<Rightarrow> ('e, 'b) result unix) \<Rightarrow> ('e, 'b list) result unix" where
  "u_for [] f s = (Inr [], s)"
| "u_for (x # xs) f s = u_try (f x) (\<lambda>y. u_try (u_for xs f) (\<lambda>ys. u_return (Inr (y # ys)))) s"

section \<open>What a run shows\<close>

text \<open>A run never goes back in time and only adds to the log, and what it adds satisfies \<open>P\<close>.\<close>

definition runs :: "(instant \<times> unix_effect \<Rightarrow> bool) \<Rightarrow> 'a unix \<Rightarrow> bool" where
  "runs P m = (\<forall>s r s'. m s = (r, s') \<longrightarrow> us_now s \<le> us_now s' \<and> (\<exists>new. us_log s' = us_log s @ new \<and> list_all P new))"

abbreviation advances :: "'a unix \<Rightarrow> bool" where
  "advances \<equiv> runs (\<lambda>_. True)"

named_theorems runs_intros

lemma runsD: "runs P m \<Longrightarrow> m s = (r, s') \<Longrightarrow> us_now s \<le> us_now s' \<and> (\<exists>new. us_log s' = us_log s @ new \<and> list_all P new)"
  unfolding runs_def by blast

lemma runs_sys [runs_intros]: "runs P (sys f)"
  by (auto simp: runs_def sys_def)

lemma runs_logged [runs_intros]: "(\<And>t. P (t, e)) \<Longrightarrow> runs P (sys_logged e f)"
  by (auto simp: runs_def sys_logged_def)

lemma runs_sleep: "(\<And>t. P (t, Slept d)) \<Longrightarrow> runs P (sleep d)"
  by (auto simp: runs_def sleep_def)

lemma runs_return [runs_intros]: "runs P (u_return x)"
  by (auto simp: runs_def u_return_def)

lemma runs_step:
  assumes "runs P m" "m s = (r, s1)" "runs P m'" "m' s1 = (r', s2)"
  shows "us_now s \<le> us_now s2 \<and> (\<exists>new. us_log s2 = us_log s @ new \<and> list_all P new)"
proof -
  obtain a b where "us_log s1 = us_log s @ a" "list_all P a" "us_log s2 = us_log s1 @ b" "list_all P b" "us_now s \<le> us_now s1" "us_now s1 \<le> us_now s2"
    using runsD [OF assms(1,2)] runsD [OF assms(3,4)] by blast
  then show ?thesis by (intro conjI exI [of _ "a @ b"]) auto
qed

lemma runs_then [runs_intros]:
  assumes "runs P m" "\<And>x. runs P (k x)"
  shows "runs P (u_then m k)"
  unfolding runs_def
proof (intro allI impI)
  fix s r s' assume run: "u_then m k s = (r, s')"
  obtain x s1 where m: "m s = (x, s1)" by fastforce
  then have "k x s1 = (r, s')" using run by (simp add: u_then_def)
  then show "us_now s \<le> us_now s' \<and> (\<exists>new. us_log s' = us_log s @ new \<and> list_all P new)"
    by (rule runs_step [OF assms(1) m assms(2)])
qed

lemma runs_try [runs_intros]:
  assumes "runs P m" "\<And>x. runs P (k x)"
  shows "runs P (u_try m k)"
  unfolding runs_def
proof (intro allI impI)
  fix s r s' assume run: "u_try m k s = (r, s')"
  obtain q s1 where m: "m s = (q, s1)" by fastforce
  show "us_now s \<le> us_now s' \<and> (\<exists>new. us_log s' = us_log s @ new \<and> list_all P new)"
  proof (cases q)
    case (Inl e)
    then have "s' = s1" using run m by (simp add: u_try_def)
    then show ?thesis using runsD [OF assms(1) m] by simp
  next
    case (Inr x)
    then have "k x s1 = (r, s')" using run m by (simp add: u_try_def)
    then show ?thesis by (rule runs_step [OF assms(1) m assms(2)])
  qed
qed

lemma runs_map_err [runs_intros]: "runs P m \<Longrightarrow> runs P (u_map_err f m)"
  unfolding runs_def u_map_err_def by (auto split: prod.splits)

lemma runs_for [runs_intros]: "(\<And>x. runs P (f x)) \<Longrightarrow> runs P (u_for xs f)"
proof (induction xs)
  case Nil
  have "u_for [] f = u_return (Inr [])" by (rule ext) (simp add: u_return_def)
  then show ?case by (simp add: runs_return)
next
  case (Cons x xs)
  have "u_for (x # xs) f = u_try (f x) (\<lambda>y. u_try (u_for xs f) (\<lambda>ys. u_return (Inr (y # ys))))" by (rule ext) simp
  with Cons show ?case by (simp add: runs_try runs_return)
qed

lemma runs_if [runs_intros]: "(b \<Longrightarrow> runs P m) \<Longrightarrow> (\<not> b \<Longrightarrow> runs P m') \<Longrightarrow> runs P (if b then m else m')"
  by simp

lemma runs_case [runs_intros]:
  "(\<And>e. runs P (f e)) \<Longrightarrow> (\<And>x. runs P (g x)) \<Longrightarrow> runs P (case r of Inl e \<Rightarrow> f e | Inr x \<Rightarrow> g x)"
  by (cases r) auto

text \<open>A run that makes a call takes time.\<close>

definition takes_time :: "'a unix \<Rightarrow> bool" where
  "takes_time m = (\<forall>s r s'. m s = (r, s') \<longrightarrow> us_now s < us_now s')"

lemma takes_time_calls: "takes_time (sys f)" "takes_time (sys_logged e g)"
  by (auto simp: takes_time_def sys_def sys_logged_def)

lemma takes_time_map_err: "takes_time m \<Longrightarrow> takes_time (u_map_err f m)"
  unfolding takes_time_def u_map_err_def by (auto split: prod.splits)

lemma takes_time_then:
  assumes "takes_time m" "\<And>x. runs P (k x)"
  shows "takes_time (u_then m k)"
  unfolding takes_time_def
proof (intro allI impI)
  fix s r s' assume run: "u_then m k s = (r, s')"
  obtain x s1 where m: "m s = (x, s1)" by fastforce
  then have "k x s1 = (r, s')" using run by (simp add: u_then_def)
  from runsD [OF assms(2) this] m assms(1) show "us_now s < us_now s'" unfolding takes_time_def by fastforce
qed

lemma takes_time_try:
  assumes "takes_time m" "\<And>x. runs P (k x)"
  shows "takes_time (u_try m k)"
proof -
  have "u_try m k = u_then m (\<lambda>r. case r of Inl e \<Rightarrow> u_return (Inl e) | Inr x \<Rightarrow> k x)"
    by (rule ext) (simp add: u_try_def u_then_def u_return_def split: prod.split sum.split)
  then show ?thesis using assms by (auto intro!: takes_time_then [of m P] runs_return split: sum.split)
qed

lemma u_try_return: "u_try (u_return (Inr x)) k = k x"
  by (rule ext) (simp add: u_try_def u_return_def)

text \<open>Inversion of a successful run.\<close>

lemma sys_iff: "sys f s = (r, s') \<longleftrightarrow> f (us_now s) = r \<and> s' = s\<lparr> us_now := Suc (us_now s) \<rparr>"
  by (auto simp: sys_def)

lemma u_then_iff: "u_then m k s = (r, s'') \<longleftrightarrow> (\<exists>x s'. m s = (x, s') \<and> k x s' = (r, s''))"
  by (auto simp: u_then_def split: prod.splits)

lemma u_try_iff: "u_try m k s = (Inr y, s'') \<longleftrightarrow> (\<exists>x s'. m s = (Inr x, s') \<and> k x s' = (Inr y, s''))"
  by (auto simp: u_try_def split: prod.splits sum.splits)

lemma u_map_err_iff: "u_map_err f m s = (Inr y, s') \<longleftrightarrow> m s = (Inr y, s')"
  by (auto simp: u_map_err_def split: prod.splits)

lemma u_return_iff: "u_return x s = (y, s') \<longleftrightarrow> y = x \<and> s' = s"
  by (auto simp: u_return_def)

lemmas run_iffs = sys_iff u_then_iff u_try_iff u_map_err_iff u_return_iff

end
