(* ===== verification/Wiki_Lock.thy ===== *)
theory Wiki_Lock
  imports Unix_World
begin

text \<open>
  The advisory lock of a wiki (\<open>crates/yams-wiki/src/lock.rs\<close>): pinning the corpus directory and the lock
  file, \<open>flock\<close> with a deadline, and the checks that the names still lead to the pinned objects. The loop
  may run as long as the clock stands still, so it is a partial function. Test hooks are left out.
\<close>

section \<open>Model\<close>

definition LOCK_NAME :: ustr where "LOCK_NAME = lit ''.write.lock''"
definition LOCK_TIMEOUT :: nat where "LOCK_TIMEOUT = 10 * 10 ^ 9"
definition LOCK_POLL :: nat where "LOCK_POLL = 50 * 10 ^ 6"
definition DURATION_MAX :: nat where "DURATION_MAX = (2 ^ 64 - 1) * 10 ^ 9 + 999999999"

datatype lock_mode = SharedMode | ExclusiveMode

fun lock_mode_text :: "lock_mode \<Rightarrow> ustr" where
  "lock_mode_text SharedMode = lit ''shared''"
| "lock_mode_text ExclusiveMode = lit ''exclusive''"

datatype lock_error = LockBusy ustr lock_mode nat | UnsafeLock ustr ustr

datatype unisolated_reason = ReadOnlyFilesystem | UnwritableCorpus

record unisolated =
  un_corpus :: ustr
  un_reason :: unisolated_reason
  un_corpus_fd :: identity
  un_corpus_identity :: identity
  un_requested_path :: ustr

record pinned_target =
  pt_corpus_fd :: identity
  pt_corpus_identity :: identity
  pt_requested_path :: ustr
  pt_corpus_path :: ustr
  pt_lock_fd :: identity
  pt_lock_identity :: identity
  pt_lock_path :: ustr

datatype open_target_result = IsolatedTarget pinned_target | UnisolatedTarget unisolated | ReboundTarget ustr

datatype binding = CurrentBinding | ReboundBinding

datatype lock_lease = IsolatedLease pinned_target lock_mode | UnisolatedLease unisolated

datatype open_lock_error = OpenUnisolated unisolated_reason | OpenUnsafe ustr | OpenRebound

type_synonym 'a locked = "(lock_error, 'a) result unix"

definition octal_width :: "nat \<Rightarrow> nat \<Rightarrow> ustr" where
  "octal_width k n = map (\<lambda>i. 48 + n div 8 ^ i mod 8) (rev [0..<k])"

definition mode_bits :: "unix_stat \<Rightarrow> nat" where
  "mode_bits st = unat (and (st_mode st) 0xFFF)"

definition file_kind :: "unix_env \<Rightarrow> unix_stat \<Rightarrow> file_type" where
  "file_kind E st = ue_file_type E (st_mode st)"

subsection \<open>Corpus and lock file\<close>

definition absolute_path :: "unix_env \<Rightarrow> ustr \<Rightarrow> ustr locked" where
  "absolute_path E path =
     (if is_absolute path then u_return (Inr path)
      else u_try (u_map_err (\<lambda>e. UnsafeLock path (lit ''could not resolve path: '' @ e)) (sys (ue_current_dir E)))
        (\<lambda>cwd. u_return (Inr (path_join cwd path))))"

definition revalidate_corpus :: "unix_env \<Rightarrow> ustr \<Rightarrow> ustr \<Rightarrow> identity \<Rightarrow> identity \<Rightarrow> binding locked" where
  "revalidate_corpus E requested_path corpus_path corpus_fd ident =
     u_then (sys (\<lambda>t. ue_canonicalize E t requested_path)) (\<lambda>r. case r of
       Inl _ \<Rightarrow> u_return (Inr ReboundBinding)
     | Inr resolved \<Rightarrow>
         if \<not> path_eq resolved corpus_path then u_return (Inr ReboundBinding)
         else u_try (u_map_err (\<lambda>e. UnsafeLock corpus_path (lit ''could not reinspect pinned corpus directory: '' @ ue_errno_text E e))
                (sys (\<lambda>t. ue_fstat E t corpus_fd))) (\<lambda>pinned.
           if file_kind E pinned \<noteq> IsDir \<or> st_id pinned \<noteq> ident then u_return (Inr ReboundBinding)
           else u_then (sys (\<lambda>t. ue_open_dir E t corpus_path)) (\<lambda>r. case r of
             Inl _ \<Rightarrow> u_return (Inr ReboundBinding)
           | Inr named \<Rightarrow>
               u_then (sys (\<lambda>t. ue_fstat E t named)) (\<lambda>r. case r of
                 Inl _ \<Rightarrow> u_return (Inr ReboundBinding)
               | Inr named_stat \<Rightarrow>
                   u_return (Inr (if st_id named_stat \<noteq> ident then ReboundBinding else CurrentBinding))))))"

definition corpus_takes_no_writes :: "unix_env \<Rightarrow> identity \<Rightarrow> bool unix" where
  "corpus_takes_no_writes E corpus_fd =
     u_then (sys (\<lambda>t. ue_statat E t corpus_fd (as_bytes LOCK_NAME))) (\<lambda>r.
       if r \<noteq> Inl ENOENT then u_return False
       else u_then (sys (\<lambda>t. ue_access_write E t corpus_fd (as_bytes (lit ''pages'')))) (\<lambda>w. u_return (\<not> is_ok w)))"

definition classify_lock_open_error :: "unix_env \<Rightarrow> identity \<Rightarrow> errno \<Rightarrow> open_lock_error unix" where
  "classify_lock_open_error E corpus_fd e =
     u_then (if e = EROFS then corpus_takes_no_writes E corpus_fd else u_return False) (\<lambda>read_only.
       if read_only then u_return (OpenUnisolated ReadOnlyFilesystem)
       else u_then (if e = EACCES \<or> e = EPERM then corpus_takes_no_writes E corpus_fd else u_return False) (\<lambda>unwritable.
         u_return (if unwritable then OpenUnisolated UnwritableCorpus
                   else if e = ENOENT then OpenRebound
                   else OpenUnsafe (lit ''could not open without following links: '' @ ue_errno_text E e))))"

definition open_lock_file :: "unix_env \<Rightarrow> identity \<Rightarrow> (open_lock_error, identity \<times> bool) result unix" where
  "open_lock_file E corpus_fd =
     u_then (sys (\<lambda>t. ue_openat E t OpenCreateNew corpus_fd (as_bytes LOCK_NAME))) (\<lambda>r. case r of
       Inr fd \<Rightarrow> u_return (Inr (fd, True))
     | Inl e \<Rightarrow>
         if e = EEXIST
         then u_then (sys (\<lambda>t. ue_openat E t OpenExisting corpus_fd (as_bytes LOCK_NAME))) (\<lambda>r. case r of
                Inr fd \<Rightarrow> u_return (Inr (fd, False))
              | Inl e \<Rightarrow> if e = ENOENT then u_return (Inl OpenRebound)
                         else u_then (classify_lock_open_error E corpus_fd e) (\<lambda>e. u_return (Inl e)))
         else u_then (classify_lock_open_error E corpus_fd e) (\<lambda>e. u_return (Inl e)))"

definition validate_lock_descriptor :: "unix_env \<Rightarrow> identity \<Rightarrow> ustr \<Rightarrow> unix_stat locked" where
  "validate_lock_descriptor E fd path =
     u_try (u_map_err (\<lambda>e. UnsafeLock path (lit ''could not inspect lock: '' @ ue_errno_text E e)) (sys (\<lambda>t. ue_fstat E t fd))) (\<lambda>st.
       u_return
         (if file_kind E st \<noteq> IsFile then Inl (UnsafeLock path (lit ''lock is not a regular file''))
          else if st_uid st \<noteq> ue_uid E \<and> st_uid st \<noteq> 0
          then Inl (UnsafeLock path (lit ''lock is owned by uid '' @ decimal (unat (st_uid st))
                 @ lit '', expected real uid '' @ decimal (unat (ue_uid E)) @ lit '' or root''))
          else if st_nlink st \<noteq> 1
          then Inl (UnsafeLock path (lit ''lock must have exactly one hard link, found '' @ decimal (unat (st_nlink st))))
          else Inr st))"

definition verify_named_lock :: "unix_env \<Rightarrow> identity \<Rightarrow> ustr \<Rightarrow> identity \<Rightarrow> binding locked" where
  "verify_named_lock E corpus_fd path ident =
     u_then (sys (\<lambda>t. ue_statat E t corpus_fd (as_bytes LOCK_NAME))) (\<lambda>r. case r of
       Inr named \<Rightarrow> u_return (Inr (if st_id named \<noteq> ident then ReboundBinding else CurrentBinding))
     | Inl e \<Rightarrow> u_return (if e = ENOENT then Inr ReboundBinding
                          else Inl (UnsafeLock path (lit ''could not inspect named lock: '' @ ue_errno_text E e))))"

definition revalidate_target :: "unix_env \<Rightarrow> pinned_target \<Rightarrow> binding locked" where
  "revalidate_target E target =
     u_try (revalidate_corpus E (pt_requested_path target) (pt_corpus_path target) (pt_corpus_fd target) (pt_corpus_identity target)) (\<lambda>b.
       if b = ReboundBinding then u_return (Inr ReboundBinding)
       else u_try (validate_lock_descriptor E (pt_lock_fd target) (pt_lock_path target)) (\<lambda>st.
         if st_id st \<noteq> pt_lock_identity target then u_return (Inr ReboundBinding)
         else verify_named_lock E (pt_corpus_fd target) (pt_lock_path target) (pt_lock_identity target)))"

text \<open>The part of \<open>open_target\<close> after the lock file was opened.\<close>

definition pin_lock :: "unix_env \<Rightarrow> ustr \<Rightarrow> ustr \<Rightarrow> identity \<Rightarrow> identity \<Rightarrow> identity \<Rightarrow> bool \<Rightarrow> open_target_result locked" where
  "pin_lock E requested_path corpus_path corpus_fd corpus_identity lock_fd created =
     (let lock_path = path_join corpus_path LOCK_NAME
      in u_try (if created
          then u_map_err (\<lambda>e. UnsafeLock lock_path (lit ''could not set new lock permissions to 0600: '' @ ue_errno_text E e))
                 (sys_logged (Chmodded lock_fd 0x180) (\<lambda>t. ue_fchmod E t lock_fd 0x180))
          else u_return (Inr ())) (\<lambda>_.
        u_try (validate_lock_descriptor E lock_fd lock_path) (\<lambda>lock_stat.
        if created \<and> mode_bits lock_stat \<noteq> 0x180
        then u_return (Inl (UnsafeLock lock_path (lit ''new lock mode must be 0600, found '' @ octal_width 4 (mode_bits lock_stat))))
        else u_try (verify_named_lock E corpus_fd lock_path (st_id lock_stat)) (\<lambda>b.
          u_return (Inr (if b = ReboundBinding then ReboundTarget lock_path
            else IsolatedTarget \<lparr> pt_corpus_fd = corpus_fd, pt_corpus_identity = corpus_identity, pt_requested_path = requested_path,
              pt_corpus_path = corpus_path, pt_lock_fd = lock_fd, pt_lock_identity = st_id lock_stat, pt_lock_path = lock_path \<rparr>))))))"

definition use_lock_file ::
  "unix_env \<Rightarrow> ustr \<Rightarrow> ustr \<Rightarrow> identity \<Rightarrow> identity \<Rightarrow> (open_lock_error, identity \<times> bool) result \<Rightarrow> open_target_result locked" where
  "use_lock_file E requested_path corpus_path corpus_fd corpus_identity opened =
     (let lock_path = path_join corpus_path LOCK_NAME
      in case opened of
        Inr (lock_fd, created) \<Rightarrow> pin_lock E requested_path corpus_path corpus_fd corpus_identity lock_fd created
      | Inl e \<Rightarrow>
          (case e of
             OpenRebound \<Rightarrow> u_return (Inr (ReboundTarget lock_path))
           | OpenUnsafe reason \<Rightarrow> u_return (Inl (UnsafeLock lock_path reason))
           | OpenUnisolated reason \<Rightarrow>
               u_try (revalidate_corpus E requested_path corpus_path corpus_fd corpus_identity) (\<lambda>b.
                 u_return (Inr (if b = ReboundBinding then ReboundTarget lock_path
                   else UnisolatedTarget \<lparr> un_corpus = corpus_path, un_reason = reason, un_corpus_fd = corpus_fd,
                     un_corpus_identity = corpus_identity, un_requested_path = requested_path \<rparr>)))))"

definition open_target :: "unix_env \<Rightarrow> ustr \<Rightarrow> open_target_result locked" where
  "open_target E corpus =
     u_try (absolute_path E corpus) (\<lambda>requested_path.
     u_try (u_map_err (\<lambda>e. UnsafeLock corpus (lit ''no memory directory at '' @ corpus @ lit '': '' @ e))
       (sys (\<lambda>t. ue_canonicalize E t requested_path))) (\<lambda>corpus_path.
     u_try (u_map_err (\<lambda>e. UnsafeLock corpus (lit ''no memory directory at '' @ corpus @ lit '': '' @ ue_errno_text E e))
       (sys (\<lambda>t. ue_open_dir E t corpus_path))) (\<lambda>corpus_fd.
     u_try (u_map_err (\<lambda>e. UnsafeLock corpus (lit ''could not inspect memory directory: '' @ ue_errno_text E e))
       (sys (\<lambda>t. ue_fstat E t corpus_fd))) (\<lambda>corpus_stat.
     if file_kind E corpus_stat \<noteq> IsDir then u_return (Inl (UnsafeLock corpus (lit ''memory corpus is not a directory'')))
     else
       u_try (revalidate_corpus E requested_path corpus_path corpus_fd (st_id corpus_stat)) (\<lambda>b.
       if b = ReboundBinding then u_return (Inr (ReboundTarget (path_join corpus_path LOCK_NAME)))
       else u_then (open_lock_file E corpus_fd) (use_lock_file E requested_path corpus_path corpus_fd (st_id corpus_stat)))))))"

subsection \<open>Acquisition\<close>

definition wait_to_retry :: "unix_env \<Rightarrow> nat \<Rightarrow> ustr \<Rightarrow> lock_mode \<Rightarrow> nat \<Rightarrow> unit locked" where
  "wait_to_retry E deadline lock_path mode timeout =
     u_then (sys (ue_clock E)) (\<lambda>now.
       if deadline \<le> now then u_return (Inl (LockBusy lock_path mode timeout))
       else u_then (sleep (min LOCK_POLL (deadline - now))) (\<lambda>_.
         u_then (sys (ue_clock E)) (\<lambda>now.
           u_return (if deadline \<le> now then Inl (LockBusy lock_path mode timeout) else Inr ()))))"

definition unlock_target :: "unix_env \<Rightarrow> pinned_target \<Rightarrow> unit locked" where
  "unlock_target E target =
     u_map_err (\<lambda>e. UnsafeLock (pt_lock_path target) (lit ''could not release rebound lock before reopening: '' @ ue_errno_text E e))
       (sys_logged (Flocked (pt_lock_fd target) Unlock) (\<lambda>t. ue_flock E t (pt_lock_fd target) Unlock))"

fun flock_operation_of :: "lock_mode \<Rightarrow> flock_operation" where
  "flock_operation_of SharedMode = NonBlockingLockShared"
| "flock_operation_of ExclusiveMode = NonBlockingLockExclusive"

text \<open>One round of the two nested loops: a target that is held open stays in the inner loop.\<close>

datatype acquire_round = Finished "(lock_error, lock_lease) result" | NextRound "pinned_target option"

definition finish_with :: "(lock_error, acquire_round) result unix \<Rightarrow> acquire_round unix" where
  "finish_with m s = (case m s of (Inl e, s') \<Rightarrow> (Finished (Inl e), s') | (Inr r, s') \<Rightarrow> (r, s'))"

definition flock_granted :: "unix_env \<Rightarrow> lock_mode \<Rightarrow> nat \<Rightarrow> nat \<Rightarrow> pinned_target \<Rightarrow> acquire_round locked" where
  "flock_granted E mode timeout deadline target =
     (let busy = Inl (LockBusy (pt_lock_path target) mode timeout);
          give_up = u_try (unlock_target E target) (\<lambda>_. u_return busy)
      in u_then (sys (ue_clock E)) (\<lambda>now.
         if deadline \<le> now then give_up
         else u_try (revalidate_target E target) (\<lambda>b.
           if b = CurrentBinding
           then u_then (sys (ue_clock E)) (\<lambda>now.
                  if deadline \<le> now then give_up
                  else u_return (Inr (Finished (Inr (IsolatedLease target mode)))))
           else u_try (unlock_target E target) (\<lambda>_.
                  u_try (wait_to_retry E deadline (pt_lock_path target) mode timeout) (\<lambda>_. u_return (Inr (NextRound None)))))))"

definition flock_busy :: "unix_env \<Rightarrow> lock_mode \<Rightarrow> nat \<Rightarrow> nat \<Rightarrow> pinned_target \<Rightarrow> acquire_round locked" where
  "flock_busy E mode timeout deadline target =
     u_try (wait_to_retry E deadline (pt_lock_path target) mode timeout) (\<lambda>_.
     u_try (revalidate_target E target) (\<lambda>b.
     u_then (sys (ue_clock E)) (\<lambda>now.
       u_return (if deadline \<le> now then Inl (LockBusy (pt_lock_path target) mode timeout)
                 else Inr (NextRound (if b = CurrentBinding then Some target else None))))))"

definition flock_round :: "unix_env \<Rightarrow> lock_mode \<Rightarrow> nat \<Rightarrow> nat \<Rightarrow> pinned_target \<Rightarrow> acquire_round locked" where
  "flock_round E mode timeout deadline target =
     (let operation = flock_operation_of mode
      in u_then (sys_logged (Flocked (pt_lock_fd target) operation) (\<lambda>t. ue_flock E t (pt_lock_fd target) operation)) (\<lambda>r. case r of
           Inr _ \<Rightarrow> flock_granted E mode timeout deadline target
         | Inl e \<Rightarrow>
             if e = EAGAIN then flock_busy E mode timeout deadline target
             else if e = EINTR
             then u_then (sys (ue_clock E)) (\<lambda>now.
                    u_return (if deadline \<le> now then Inl (LockBusy (pt_lock_path target) mode timeout) else Inr (NextRound (Some target))))
             else u_return (Inl (UnsafeLock (pt_lock_path target)
                    (lit ''could not acquire '' @ lock_mode_text mode @ lit '' lock: '' @ ue_errno_text E e)))))"

definition open_round :: "unix_env \<Rightarrow> ustr \<Rightarrow> lock_mode \<Rightarrow> nat \<Rightarrow> nat \<Rightarrow> acquire_round locked" where
  "open_round E corpus mode timeout deadline =
     u_try (open_target E corpus) (\<lambda>opened. case opened of
       IsolatedTarget target \<Rightarrow> u_return (Inr (NextRound (Some target)))
     | UnisolatedTarget u \<Rightarrow> u_return (Inr (Finished (Inr (UnisolatedLease u))))
     | ReboundTarget lock_path \<Rightarrow>
         u_try (wait_to_retry E deadline lock_path mode timeout) (\<lambda>_. u_return (Inr (NextRound None))))"

definition acquire_step :: "unix_env \<Rightarrow> ustr \<Rightarrow> lock_mode \<Rightarrow> nat \<Rightarrow> nat \<Rightarrow> pinned_target option \<Rightarrow> acquire_round unix" where
  "acquire_step E corpus mode timeout deadline held =
     finish_with (case held of None \<Rightarrow> open_round E corpus mode timeout deadline
                  | Some target \<Rightarrow> flock_round E mode timeout deadline target)"

partial_function (option) acquire_loop ::
  "unix_env \<Rightarrow> ustr \<Rightarrow> lock_mode \<Rightarrow> nat \<Rightarrow> nat \<Rightarrow> pinned_target option \<Rightarrow> unix_state
     \<Rightarrow> ((lock_error, lock_lease) result \<times> unix_state) option" where
  "acquire_loop E corpus mode timeout deadline held s =
     (case acquire_step E corpus mode timeout deadline held s of
        (Finished r, s') \<Rightarrow> Some (r, s')
      | (NextRound held', s') \<Rightarrow> acquire_loop E corpus mode timeout deadline held' s')"

definition acquire_lock_with_timeout ::
  "unix_env \<Rightarrow> ustr \<Rightarrow> lock_mode \<Rightarrow> nat \<Rightarrow> unix_state \<Rightarrow> ((lock_error, lock_lease) result \<times> unix_state) option" where
  "acquire_lock_with_timeout E corpus mode timeout s =
     (case sys (ue_clock E) s of (started, s) \<Rightarrow>
        acquire_loop E corpus mode timeout (min (started + timeout) DURATION_MAX) None s)"

subsection \<open>Use of a lease\<close>

definition revalidate_before_commit :: "unix_env \<Rightarrow> pinned_target \<Rightarrow> unit locked" where
  "revalidate_before_commit E target =
     u_try (revalidate_target E target) (\<lambda>b.
       u_return (if b = CurrentBinding then Inr ()
                 else Inl (UnsafeLock (pt_lock_path target) (lit ''wiki corpus or lock identity changed before commit''))))"

definition revalidate_unisolated :: "unix_env \<Rightarrow> unisolated \<Rightarrow> unit locked" where
  "revalidate_unisolated E u =
     u_try (revalidate_corpus E (un_requested_path u) (un_corpus u) (un_corpus_fd u) (un_corpus_identity u)) (\<lambda>b.
       u_return (if b = CurrentBinding then Inr ()
                 else Inl (UnsafeLock (un_corpus u) (lit ''unisolated wiki corpus identity changed during the read''))))"

definition drop_guard :: "unix_env \<Rightarrow> pinned_target \<Rightarrow> unit unix" where
  "drop_guard E target s =
     (case sys_logged (Flocked (pt_lock_fd target) Unlock) (\<lambda>t. ue_flock E t (pt_lock_fd target) Unlock) s of (_, s') \<Rightarrow> ((), s'))"

section \<open>Lemmas\<close>

lemma not_Rebound [simp]: "b \<noteq> ReboundBinding \<longleftrightarrow> b = CurrentBinding"
  by (cases b) auto

lemma u_try_Inl_iff: "u_try m k s = (Inl e, s'') \<longleftrightarrow> m s = (Inl e, s'') \<or> (\<exists>x s'. m s = (Inr x, s') \<and> k x s' = (Inl e, s''))"
  by (auto simp: u_try_def split: prod.splits sum.splits)

lemma sys_logged_iff:
  "sys_logged eff f s = (r, s') \<longleftrightarrow> r = f (us_now s)
     \<and> s' = s\<lparr> us_now := Suc (us_now s), us_log := us_log s @ (if is_ok (f (us_now s)) then [(us_now s, eff)] else []) \<rparr>"
  by (auto simp: sys_logged_def)

subsection \<open>What a successful check saw\<close>

text \<open>From instant \<open>t\<close> on, four calls find the requested path at the pinned corpus directory.\<close>

definition corpus_bound_at :: "unix_env \<Rightarrow> instant \<Rightarrow> ustr \<Rightarrow> ustr \<Rightarrow> identity \<Rightarrow> identity \<Rightarrow> bool" where
  "corpus_bound_at E t requested_path corpus_path corpus_fd ident =
     ((\<exists>resolved. ue_canonicalize E t requested_path = Inr resolved \<and> path_eq resolved corpus_path)
      \<and> (\<exists>pinned. ue_fstat E (t + 1) corpus_fd = Inr pinned \<and> file_kind E pinned = IsDir \<and> st_id pinned = ident)
      \<and> (\<exists>named st. ue_open_dir E (t + 2) corpus_path = Inr named \<and> ue_fstat E (t + 3) named = Inr st \<and> st_id st = ident))"

text \<open>Two calls find the lock file regular, owned by the user or root, with one link, and under its name.\<close>

definition lock_bound_at :: "unix_env \<Rightarrow> instant \<Rightarrow> pinned_target \<Rightarrow> bool" where
  "lock_bound_at E t target =
     ((\<exists>st. ue_fstat E t (pt_lock_fd target) = Inr st \<and> file_kind E st = IsFile \<and> (st_uid st = ue_uid E \<or> st_uid st = 0)
          \<and> st_nlink st = 1 \<and> st_id st = pt_lock_identity target)
      \<and> (\<exists>named. ue_statat E (t + 1) (pt_corpus_fd target) (as_bytes LOCK_NAME) = Inr named \<and> st_id named = pt_lock_identity target))"

lemma revalidate_corpus_current:
  assumes "revalidate_corpus E requested_path corpus_path corpus_fd ident s = (Inr CurrentBinding, s')"
  shows "corpus_bound_at E (us_now s) requested_path corpus_path corpus_fd ident \<and> s' = s\<lparr> us_now := us_now s + 4 \<rparr>"
  using assms
  by (auto simp: revalidate_corpus_def run_iffs corpus_bound_at_def eval_nat_numeral split: sum.splits if_splits)

lemma validate_lock_descriptor_Inr:
  "validate_lock_descriptor E fd path s = (Inr st, s') \<longleftrightarrow>
     ue_fstat E (us_now s) fd = Inr st \<and> file_kind E st = IsFile \<and> (st_uid st = ue_uid E \<or> st_uid st = 0) \<and> st_nlink st = 1
     \<and> s' = s\<lparr> us_now := Suc (us_now s) \<rparr>"
  by (cases "ue_fstat E (us_now s) fd")
    (auto simp: validate_lock_descriptor_def u_try_def u_map_err_def sys_def u_return_def map_err_def)

lemma verify_named_lock_current:
  "verify_named_lock E corpus_fd path ident s = (Inr CurrentBinding, s') \<longleftrightarrow>
     (\<exists>named. ue_statat E (us_now s) corpus_fd (as_bytes LOCK_NAME) = Inr named \<and> st_id named = ident) \<and> s' = s\<lparr> us_now := Suc (us_now s) \<rparr>"
  by (auto simp: verify_named_lock_def run_iffs split: sum.splits if_splits)

lemma revalidate_target_current:
  assumes "revalidate_target E target s = (Inr CurrentBinding, s')"
  shows "corpus_bound_at E (us_now s) (pt_requested_path target) (pt_corpus_path target) (pt_corpus_fd target) (pt_corpus_identity target)
    \<and> lock_bound_at E (us_now s + 4) target \<and> s' = s\<lparr> us_now := us_now s + 6 \<rparr>"
  using assms
  by (auto simp: revalidate_target_def run_iffs lock_bound_at_def validate_lock_descriptor_Inr verify_named_lock_current
      eval_nat_numeral dest!: revalidate_corpus_current split: if_splits)

text \<open>A lease is finished only by the two places of the code that build one.\<close>

lemma flock_granted_lease:
  assumes "flock_granted E mode timeout deadline target s = (Inr (Finished (Inr lease)), s')"
  shows "lease = IsolatedLease target mode \<and> ue_clock E (us_now s) < deadline
    \<and> corpus_bound_at E (us_now s + 1) (pt_requested_path target) (pt_corpus_path target) (pt_corpus_fd target) (pt_corpus_identity target)
    \<and> lock_bound_at E (us_now s + 5) target \<and> ue_clock E (us_now s + 7) < deadline \<and> s' = s\<lparr> us_now := us_now s + 8 \<rparr>"
  using assms
  by (auto simp: flock_granted_def run_iffs Let_def eval_nat_numeral dest!: revalidate_target_current split: if_splits)

lemma flock_round_lease:
  assumes "flock_round E mode timeout deadline target s = (Inr (Finished (Inr lease)), s')"
  shows "lease = IsolatedLease target mode
    \<and> ue_flock E (us_now s) (pt_lock_fd target) (flock_operation_of mode) = Inr ()
    \<and> corpus_bound_at E (us_now s + 2) (pt_requested_path target) (pt_corpus_path target) (pt_corpus_fd target) (pt_corpus_identity target)
    \<and> lock_bound_at E (us_now s + 6) target \<and> ue_clock E (us_now s + 8) < deadline
    \<and> s' = s\<lparr> us_now := us_now s + 9, us_log := us_log s @ [(us_now s, Flocked (pt_lock_fd target) (flock_operation_of mode))] \<rparr>"
proof -
  let ?op = "flock_operation_of mode"
  have ok: "ue_flock E (us_now s) (pt_lock_fd target) ?op = Inr ()"
    using assms by (auto simp: flock_round_def flock_busy_def run_iffs sys_logged_iff Let_def split: sum.splits if_splits)
  let ?s = "s\<lparr> us_now := Suc (us_now s), us_log := us_log s @ [(us_now s, Flocked (pt_lock_fd target) ?op)] \<rparr>"
  have "flock_granted E mode timeout deadline target ?s = (Inr (Finished (Inr lease)), s')"
    using assms ok by (auto simp: flock_round_def u_then_def sys_logged_def Let_def)
  from flock_granted_lease [OF this] ok show ?thesis by (auto simp: eval_nat_numeral)
qed

definition lock_refused_with :: "errno \<Rightarrow> unisolated_reason \<Rightarrow> bool" where
  "lock_refused_with e reason = (case reason of ReadOnlyFilesystem \<Rightarrow> e = EROFS | UnwritableCorpus \<Rightarrow> e = EACCES \<or> e = EPERM)"

text \<open>
  What justifies going on without a lock: opening the lock file was refused, the next two calls find no lock
  file and a pages directory that cannot be written, and the four after them the corpus still in its place.
\<close>

definition unwritable_at :: "unix_env \<Rightarrow> instant \<Rightarrow> unisolated \<Rightarrow> bool" where
  "unwritable_at E t u =
     ((\<exists>flags e. ue_openat E t flags (un_corpus_fd u) (as_bytes LOCK_NAME) = Inl e \<and> lock_refused_with e (un_reason u))
      \<and> ue_statat E (t + 1) (un_corpus_fd u) (as_bytes LOCK_NAME) = Inl ENOENT
      \<and> \<not> is_ok (ue_access_write E (t + 2) (un_corpus_fd u) (as_bytes (lit ''pages'')))
      \<and> corpus_bound_at E (t + 3) (un_requested_path u) (un_corpus u) (un_corpus_fd u) (un_corpus_identity u))"

lemma corpus_takes_no_writes_True:
  "corpus_takes_no_writes E fd s = (True, s') \<longleftrightarrow> ue_statat E (us_now s) fd (as_bytes LOCK_NAME) = Inl ENOENT
     \<and> \<not> is_ok (ue_access_write E (Suc (us_now s)) fd (as_bytes (lit ''pages''))) \<and> s' = s\<lparr> us_now := us_now s + 2 \<rparr>"
  by (auto simp: corpus_takes_no_writes_def run_iffs split: if_splits)

lemma classify_unisolated:
  assumes "classify_lock_open_error E fd e s = (OpenUnisolated reason, s')"
  shows "lock_refused_with e reason \<and> ue_statat E (us_now s) fd (as_bytes LOCK_NAME) = Inl ENOENT
     \<and> \<not> is_ok (ue_access_write E (Suc (us_now s)) fd (as_bytes (lit ''pages''))) \<and> s' = s\<lparr> us_now := us_now s + 2 \<rparr>"
  using assms
  by (auto simp: classify_lock_open_error_def run_iffs corpus_takes_no_writes_True lock_refused_with_def split: if_splits)

lemma open_lock_file_unisolated:
  assumes "open_lock_file E fd s = (Inl (OpenUnisolated reason), s')"
  shows "\<exists>t \<ge> us_now s. (\<exists>flags e. ue_openat E t flags fd (as_bytes LOCK_NAME) = Inl e \<and> lock_refused_with e reason)
     \<and> ue_statat E (t + 1) fd (as_bytes LOCK_NAME) = Inl ENOENT
     \<and> \<not> is_ok (ue_access_write E (t + 2) fd (as_bytes (lit ''pages''))) \<and> s' = s\<lparr> us_now := t + 3 \<rparr>"
proof -
  have *: ?thesis if "classify_lock_open_error E fd e (s\<lparr> us_now := Suc t \<rparr>) = (OpenUnisolated reason, s')" "us_now s \<le> t"
    "ue_openat E t flags fd (as_bytes LOCK_NAME) = Inl e" for e t flags
    using classify_unisolated [OF that(1)] that(2,3) by (intro exI [of _ t]) auto
  show ?thesis
    using assms *
    by (auto simp: open_lock_file_def run_iffs split: sum.splits if_splits)
qed

lemma pin_lock_not_unisolated: "pin_lock E rp cp cfd ident lfd created s \<noteq> (Inr (UnisolatedTarget u), s')"
  by (auto simp: pin_lock_def run_iffs Let_def split: if_splits)

text \<open>Every pause starts before the deadline, ends by it if the clock keeps time, and is short.\<close>

fun pause_ok :: "unix_env \<Rightarrow> nat \<Rightarrow> instant \<times> unix_effect \<Rightarrow> bool" where
  "pause_ok E deadline (t, Slept d) = (d \<le> LOCK_POLL \<and> 0 < t \<and> ue_clock E (t - 1) + d \<le> deadline)"
| "pause_ok E deadline (t, _) = True"

lemma runs_wait_to_retry [runs_intros]: "runs (pause_ok E deadline) (wait_to_retry E deadline path mode timeout)"
  unfolding runs_def wait_to_retry_def u_then_def sys_def sleep_def u_return_def by auto

lemma runs_absolute_path [runs_intros]: "runs P (absolute_path E corpus)"
  unfolding absolute_path_def by (intro runs_intros)

lemma runs_revalidate_corpus [runs_intros]: "runs P (revalidate_corpus E rp cp fd ident)"
  unfolding revalidate_corpus_def by (intro runs_intros)

lemma runs_open_lock_file [runs_intros]: "runs P (open_lock_file E fd)"
  unfolding open_lock_file_def classify_lock_open_error_def corpus_takes_no_writes_def by (intro runs_intros)

lemma runs_lock_checks [runs_intros]: "runs P (validate_lock_descriptor E fd path)" "runs P (verify_named_lock E fd path ident)"
  unfolding validate_lock_descriptor_def verify_named_lock_def by (intro runs_intros)+

lemma runs_revalidate_target [runs_intros]: "runs P (revalidate_target E target)"
  unfolding revalidate_target_def by (intro runs_intros)

lemma runs_unlock [runs_intros]: "runs (pause_ok E deadline) (unlock_target E target)"
  unfolding unlock_target_def by (intro runs_intros) simp

lemma runs_use_lock_file [runs_intros]: "runs (pause_ok E deadline) (use_lock_file E rp cp cfd ident opened)"
  unfolding use_lock_file_def pin_lock_def Let_def
  by (intro runs_intros) (auto intro!: runs_intros split: open_lock_error.split prod.split)

lemma runs_open_target [runs_intros]: "runs (pause_ok E deadline) (open_target E corpus)"
  unfolding open_target_def by (intro runs_intros)

lemma runs_open_round: "runs (pause_ok E deadline) (open_round E corpus mode timeout deadline)"
  unfolding open_round_def by (intro runs_intros) (auto intro!: runs_intros split: open_target_result.split)

lemma runs_flock_round: "runs (pause_ok E deadline) (flock_round E mode timeout deadline target)"
  unfolding flock_round_def flock_granted_def flock_busy_def Let_def by (intro runs_intros) simp

lemma runs_finish_with: "runs P m \<Longrightarrow> runs P (finish_with m)"
  unfolding runs_def finish_with_def by (auto split: prod.splits sum.splits)

lemma runs_acquire_step: "runs (pause_ok E deadline) (acquire_step E corpus mode timeout deadline held)"
  unfolding acquire_step_def by (intro runs_finish_with) (simp add: runs_open_round runs_flock_round split: option.split)

lemma use_lock_file_unisolated:
  assumes "use_lock_file E rp cp cfd ident r s = (Inr (UnisolatedTarget u), s')"
  shows "\<exists>reason. r = Inl (OpenUnisolated reason) \<and> revalidate_corpus E rp cp cfd ident s = (Inr CurrentBinding, s')
    \<and> u = \<lparr> un_corpus = cp, un_reason = reason, un_corpus_fd = cfd, un_corpus_identity = ident, un_requested_path = rp \<rparr>"
proof -
  obtain reason where r: "r = Inl (OpenUnisolated reason)"
    using assms pin_lock_not_unisolated [of E rp cp cfd ident _ _ s u s']
    by (auto simp: use_lock_file_def run_iffs Let_def split: sum.split_asm open_lock_error.split_asm prod.split_asm)
  show ?thesis using assms unfolding r by (auto simp: use_lock_file_def run_iffs Let_def split: if_splits)
qed

lemma open_target_unisolated:
  assumes "open_target E corpus s = (Inr (UnisolatedTarget u), s')"
  shows "\<exists>t \<ge> us_now s. unwritable_at E t u \<and> us_now s' = t + 7"
proof -
  obtain requested_path corpus_path corpus_fd ident opened s0 s1 s2 where
    a: "absolute_path E corpus s = (Inr requested_path, s0)"
    and s1: "revalidate_corpus E requested_path corpus_path corpus_fd ident (s0\<lparr> us_now := Suc (Suc (Suc (us_now s0))) \<rparr>) = (Inr CurrentBinding, s1)"
    and o: "open_lock_file E corpus_fd s1 = (opened, s2)"
    and k: "use_lock_file E requested_path corpus_path corpus_fd ident opened s2 = (Inr (UnisolatedTarget u), s')"
    using assms by (auto simp: open_target_def run_iffs split: if_splits)
  from use_lock_file_unisolated [OF k] obtain reason where l: "open_lock_file E corpus_fd s1 = (Inl (OpenUnisolated reason), s2)"
    and r: "revalidate_corpus E requested_path corpus_path corpus_fd ident s2 = (Inr CurrentBinding, s')"
    and u: "u = \<lparr> un_corpus = corpus_path, un_reason = reason, un_corpus_fd = corpus_fd,
                 un_corpus_identity = ident, un_requested_path = requested_path \<rparr>"
    using o by blast
  obtain t where t: "us_now s1 \<le> t" "\<exists>flags e. ue_openat E t flags corpus_fd (as_bytes LOCK_NAME) = Inl e \<and> lock_refused_with e reason"
    "ue_statat E (t + 1) corpus_fd (as_bytes LOCK_NAME) = Inl ENOENT"
    "\<not> is_ok (ue_access_write E (t + 2) corpus_fd (as_bytes (lit ''pages'')))" "s2 = s1\<lparr> us_now := t + 3 \<rparr>"
    using open_lock_file_unisolated [OF l] by blast
  have "us_now s \<le> us_now s0" using runsD [OF runs_absolute_path a] by blast
  moreover have "us_now s1 = us_now s0 + 7" using revalidate_corpus_current [OF s1] by simp
  ultimately show ?thesis
    using t revalidate_corpus_current [OF r] unfolding unwritable_at_def u by (intro exI [of _ t]) auto
qed

subsection \<open>The loop\<close>

lemma acquire_step_lease:
  assumes "acquire_step E corpus mode timeout deadline held s = (Finished (Inr lease), s')"
  shows "(\<exists>target. held = Some target \<and> flock_round E mode timeout deadline target s = (Inr (Finished (Inr lease)), s'))
    \<or> (\<exists>u. lease = UnisolatedLease u \<and> open_target E corpus s = (Inr (UnisolatedTarget u), s'))"
proof (cases held)
  case None
  then have "open_round E corpus mode timeout deadline s = (Inr (Finished (Inr lease)), s')"
    using assms by (auto simp: acquire_step_def finish_with_def split: prod.splits sum.splits)
  then obtain opened s1 where o: "open_target E corpus s = (Inr opened, s1)"
    and k: "(case opened of IsolatedTarget target \<Rightarrow> u_return (Inr (NextRound (Some target)))
     | UnisolatedTarget u \<Rightarrow> u_return (Inr (Finished (Inr (UnisolatedLease u))))
     | ReboundTarget lock_path \<Rightarrow>
         u_try (wait_to_retry E deadline lock_path mode timeout) (\<lambda>_. u_return (Inr (NextRound None)))) s1 = (Inr (Finished (Inr lease)), s')"
    unfolding open_round_def u_try_iff by blast
  from k o show ?thesis by (cases opened) (auto simp: run_iffs)
next
  case (Some target)
  then show ?thesis using assms by (auto simp: acquire_step_def finish_with_def split: prod.splits sum.splits)
qed

definition extends :: "(instant \<times> unix_effect \<Rightarrow> bool) \<Rightarrow> unix_state \<Rightarrow> unix_state \<Rightarrow> bool" where
  "extends P s s' = (us_now s \<le> us_now s' \<and> (\<exists>new. us_log s' = us_log s @ new \<and> list_all P new))"

lemma extends_trans: "extends P s s1 \<Longrightarrow> extends P s1 s2 \<Longrightarrow> extends P s s2"
  unfolding extends_def by (auto intro: order_trans)

lemma runs_extends: "runs P m \<Longrightarrow> m s = (r, s') \<Longrightarrow> extends P s s'"
  unfolding extends_def by (rule runsD)

text \<open>A result of the loop is the result of its last round.\<close>

lemma acquire_loop_last:
  assumes ret: "acquire_loop E corpus mode timeout deadline held s = Some q"
  shows "\<exists>held s0. extends (pause_ok E deadline) s s0
    \<and> acquire_step E corpus mode timeout deadline held s0 = (Finished (fst q), snd q)"
proof (rule acquire_loop.raw_induct [where P = "\<lambda>E corpus mode timeout deadline held s q.
    \<exists>held s0. extends (pause_ok E deadline) s s0 \<and> acquire_step E corpus mode timeout deadline held s0 = (Finished (fst q), snd q)", OF _ ret])
  fix f E corpus mode timeout deadline held s q
  assume IH: "\<And>E corpus mode timeout deadline held s q. f E corpus mode timeout deadline held s = Some q \<Longrightarrow>
      \<exists>held s0. extends (pause_ok E deadline) s s0 \<and> acquire_step E corpus mode timeout deadline held s0 = (Finished (fst q), snd q)"
    and eq: "(case acquire_step E corpus mode timeout deadline held s of
      (Finished r, s') \<Rightarrow> Some (r, s') | (NextRound held', s') \<Rightarrow> f E corpus mode timeout deadline held' s') = Some q"
  obtain round s1 where st: "acquire_step E corpus mode timeout deadline held s = (round, s1)" by fastforce
  show "\<exists>held s0. extends (pause_ok E deadline) s s0 \<and> acquire_step E corpus mode timeout deadline held s0 = (Finished (fst q), snd q)"
  proof (cases round)
    case (Finished x)
    moreover have "extends (pause_ok E deadline) s s" by (simp add: extends_def)
    ultimately show ?thesis using eq st by (intro exI [of _ held] exI [of _ s]) auto
  next
    case (NextRound held')
    then have "f E corpus mode timeout deadline held' s1 = Some q" using eq st by simp
    from IH [OF this] runs_extends [OF runs_acquire_step st] show ?thesis using extends_trans by blast
  qed
qed

lemma acquire_loop_lease:
  assumes ret: "acquire_loop E corpus mode timeout deadline held s = Some (Inr lease, s')"
  shows "\<exists>held s0. us_now s \<le> us_now s0 \<and> acquire_step E corpus mode timeout deadline held s0 = (Finished (Inr lease), s')"
  using acquire_loop_last [OF ret] by (auto simp: extends_def)

lemma acquire_loop_pauses:
  assumes ret: "acquire_loop E corpus mode timeout deadline held s = Some (r, s')"
  shows "extends (pause_ok E deadline) s s'"
proof -
  obtain held' s0 where e: "extends (pause_ok E deadline) s s0" and st: "acquire_step E corpus mode timeout deadline held' s0 = (Finished r, s')"
    using acquire_loop_last [OF ret] by auto
  from runs_extends [OF runs_acquire_step st] e show ?thesis using extends_trans by blast
qed

subsection \<open>The loop returns\<close>

lemma takes_time_open_target: "takes_time (open_target E corpus)"
proof (cases "is_absolute corpus")
  case True
  then have "absolute_path E corpus = u_return (Inr corpus)" by (simp add: absolute_path_def)
  then show ?thesis
    unfolding open_target_def u_try_return
    by (simp only: u_try_return) (intro takes_time_try [where P = "pause_ok E 0"] takes_time_map_err takes_time_calls runs_intros)
next
  case False
  then have "takes_time (absolute_path E corpus)"
    by (simp only: absolute_path_def if_False simp_thms)
      (intro takes_time_try [where P = "pause_ok E 0"] takes_time_map_err takes_time_calls runs_intros)
  then show ?thesis
    unfolding open_target_def by (intro takes_time_try [where P = "pause_ok E 0"] runs_intros)
qed

lemma takes_time_rounds: "takes_time (open_round E corpus mode timeout deadline)" "takes_time (flock_round E mode timeout deadline target)"
proof -
  have "runs (pause_ok E deadline) (case opened of
       IsolatedTarget target \<Rightarrow> u_return (Inr (NextRound (Some target)))
     | UnisolatedTarget u \<Rightarrow> u_return (Inr (Finished (Inr (UnisolatedLease u))))
     | ReboundTarget lock_path \<Rightarrow> u_try (wait_to_retry E deadline lock_path mode timeout) (\<lambda>_. u_return (Inr (NextRound None))))"
    for opened by (auto intro!: runs_intros split: open_target_result.split)
  then show "takes_time (open_round E corpus mode timeout deadline)"
    unfolding open_round_def by (rule takes_time_try [OF takes_time_open_target])
  show "takes_time (flock_round E mode timeout deadline target)"
    unfolding flock_round_def Let_def flock_granted_def flock_busy_def
    by (intro takes_time_then [where P = "pause_ok E deadline"] takes_time_calls runs_intros)
qed

lemma acquire_step_takes_time:
  assumes "acquire_step E corpus mode timeout deadline held s = (r, s')"
  shows "us_now s < us_now s'"
proof -
  have f: "takes_time (finish_with m)" if "takes_time m" for m
    using that unfolding takes_time_def finish_with_def by (auto split: prod.splits sum.splits)
  have "takes_time (acquire_step E corpus mode timeout deadline held)"
    unfolding acquire_step_def by (intro f) (simp add: takes_time_rounds split: option.split)
  with assms show ?thesis unfolding takes_time_def by blast
qed

lemma late_flock_round:
  assumes late: "\<And>t. us_now s \<le> t \<Longrightarrow> deadline \<le> ue_clock E t"
  shows "flock_round E mode timeout deadline target s \<noteq> (Inr r, s')"
proof
  assume run: "flock_round E mode timeout deadline target s = (Inr r, s')"
  let ?op = "flock_operation_of mode"
  have g: "flock_granted E mode timeout deadline target s1 \<noteq> (Inr r, s')" "flock_busy E mode timeout deadline target s1 \<noteq> (Inr r, s')"
    if "us_now s \<le> us_now s1" for s1
    using late [of "us_now s1"] that
    by (auto simp: flock_granted_def flock_busy_def wait_to_retry_def u_then_def u_try_def sys_def u_return_def Let_def split: prod.splits sum.splits)
  show False
    using run g late
    by (auto simp: flock_round_def run_iffs sys_logged_iff Let_def split: sum.splits if_splits)
qed

lemma acquire_loop_returns:
  assumes "\<And>t. T \<le> t \<Longrightarrow> deadline \<le> ue_clock E t"
  shows "\<exists>r s'. acquire_loop E corpus mode timeout deadline held s = Some (r, s')"
proof (induction "2 * (T - us_now s) + (if held = None then 1 else 0)" arbitrary: held s rule: less_induct)
  case less
  obtain round s1 where st: "acquire_step E corpus mode timeout deadline held s = (round, s1)" by fastforce
  show ?case
  proof (cases round)
    case (Finished r)
    then show ?thesis using st by (simp add: acquire_loop.simps [of E corpus mode timeout deadline held s])
  next
    case (NextRound held')
    have time: "us_now s < us_now s1" by (rule acquire_step_takes_time [OF st])
    have "2 * (T - us_now s1) + (if held' = None then 1 else 0) < 2 * (T - us_now s) + (if held = None then 1 else (0::nat))"
    proof (cases "us_now s < T")
      case True
      then show ?thesis using time by auto
    next
      case late: False
      have "held = None"
      proof (rule ccontr)
        assume "held \<noteq> None"
        then obtain target where h: "held = Some target" by blast
        have "flock_round E mode timeout deadline target s \<noteq> (Inr round, s1)"
          using late assms by (intro late_flock_round) auto
        then show False using st h NextRound by (auto simp: acquire_step_def finish_with_def split: prod.splits sum.splits)
      qed
      moreover have "held' \<noteq> None"
      proof
        assume n: "held' = None"
        have "open_round E corpus mode timeout deadline s = (Inr round, s1)"
          using st \<open>held = None\<close> NextRound by (auto simp: acquire_step_def finish_with_def split: prod.splits sum.splits)
        then obtain opened s0 where o: "open_target E corpus s = (Inr opened, s0)"
          and k: "(case opened of IsolatedTarget target \<Rightarrow> u_return (Inr (NextRound (Some target)))
     | UnisolatedTarget u \<Rightarrow> u_return (Inr (Finished (Inr (UnisolatedLease u))))
     | ReboundTarget lock_path \<Rightarrow>
         u_try (wait_to_retry E deadline lock_path mode timeout) (\<lambda>_. u_return (Inr (NextRound None)))) s0 = (Inr round, s1)"
          unfolding open_round_def u_try_iff by blast
        have "us_now s \<le> us_now s0" using runsD [OF runs_open_target o] by blast
        then have "deadline \<le> ue_clock E (us_now s0)" using late assms by auto
        then show False using k NextRound n
          by (cases opened) (auto simp: run_iffs wait_to_retry_def split: if_splits)
      qed
      ultimately show ?thesis using late time by simp
    qed
    from less [OF this] obtain r s' where "acquire_loop E corpus mode timeout deadline held' s1 = Some (r, s')" by blast
    then show ?thesis using st NextRound by (simp add: acquire_loop.simps [of E corpus mode timeout deadline held s])
  qed
qed


text \<open>The deadline of an acquisition that starts in state \<open>s\<close>.\<close>

definition lock_deadline :: "unix_env \<Rightarrow> nat \<Rightarrow> unix_state \<Rightarrow> nat" where
  "lock_deadline E timeout s = min (ue_clock E (us_now s) + timeout) DURATION_MAX"

lemma acquire_lock_eq:
  "acquire_lock_with_timeout E corpus mode timeout s
     = acquire_loop E corpus mode timeout (lock_deadline E timeout s) None (s\<lparr> us_now := Suc (us_now s) \<rparr>)"
  by (simp add: acquire_lock_with_timeout_def sys_def lock_deadline_def)

section \<open>A file system at rest\<close>

text \<open>Files and directories with their contents, and directory entries; nothing changes and no call fails without cause.\<close>

record static_node =
  sn_id :: identity
  sn_mode :: "32 word"
  sn_bytes :: "u8 list"

definition static_stat :: "static_node \<Rightarrow> unix_stat" where
  "static_stat n = \<lparr> st_id = sn_id n, st_mode = sn_mode n, st_nlink = 1, st_uid = 7, st_size = int (length (sn_bytes n)),
     st_mtime = 0, st_mtime_nsec = 0, st_ctime = 0, st_ctime_nsec = 0 \<rparr>"

definition static_lookup :: "(identity \<times> entry_name \<times> static_node) list \<Rightarrow> identity \<Rightarrow> entry_name \<Rightarrow> (errno, static_node) result" where
  "static_lookup names d n = (case find (\<lambda>(d', n', node). d' = d \<and> n' = n) names of None \<Rightarrow> Inl ENOENT | Some (_, _, node) \<Rightarrow> Inr node)"

definition static_node_of :: "(identity \<times> entry_name \<times> static_node) list \<Rightarrow> identity \<Rightarrow> (errno, static_node) result" where
  "static_node_of names i = (case find (\<lambda>(_, _, n). sn_id n = i) names of None \<Rightarrow> Inl (OtherErrno 9) | Some (_, _, n) \<Rightarrow> Inr n)"

definition posix_file_type :: "32 word \<Rightarrow> file_type" where
  "posix_file_type m =
     (if and m 0xF000 = 0x8000 then IsFile else if and m 0xF000 = 0x4000 then IsDir
      else if and m 0xF000 = 0xA000 then IsSymlink else IsOther)"

definition static_env :: "ustr \<Rightarrow> identity \<Rightarrow> (identity \<times> entry_name \<times> static_node) list \<Rightarrow> unix_env" where
  "static_env root root_id names =
     \<lparr> ue_statat = (\<lambda>t d n. res_map static_stat (static_lookup names d n)),
       ue_statat_follow = (\<lambda>t d n. res_map static_stat (static_lookup names d n)),
       ue_fstat = (\<lambda>t i. res_map static_stat (static_node_of names i)),
       ue_open_dir = (\<lambda>t p. if p = root then Inr root_id else Inl ENOENT),
       ue_openat_dir = (\<lambda>t d n. res_map sn_id (static_lookup names d n)),
       ue_openat = (\<lambda>t flags d n. if flags = OpenCreateNew then Inl EEXIST else res_map sn_id (static_lookup names d n)),
       ue_dir_stream = (\<lambda>t d. Inr ()),
       ue_dir_entries = (\<lambda>t d. map (\<lambda>(_, n, _). Inr n) (filter (\<lambda>(d', _, _). d' = d) names)),
       ue_read = (\<lambda>t i. map_err (\<lambda>_. []) (res_map sn_bytes (static_node_of names i))),
       ue_access_write = (\<lambda>t d n. Inr ()), ue_flock = (\<lambda>t i op. Inr ()), ue_fchmod = (\<lambda>t i m. Inr ()),
       ue_canonicalize = (\<lambda>t p. Inr p), ue_current_dir = (\<lambda>t. Inr root), ue_clock = (\<lambda>t. t), ue_uid = 7,
       ue_file_type = posix_file_type, ue_errno_text = (\<lambda>_. []) \<rparr>"

definition demo_id :: "nat \<Rightarrow> identity" where
  "demo_id i = \<lparr> id_device = 1, id_inode = of_nat i \<rparr>"

text \<open>A corpus at \<open>/w\<close> with its lock, its index and one page; above the root there is only the corpus.\<close>

definition demo_entries :: "entry_name \<Rightarrow> u8 list \<Rightarrow> u8 list \<Rightarrow> (identity \<times> entry_name \<times> static_node) list" where
  "demo_entries page page_bytes index_bytes =
     [(demo_id 2, as_bytes (lit ''w''), \<lparr> sn_id = demo_id 10, sn_mode = 0x41ED, sn_bytes = [] \<rparr>),
      (demo_id 10, as_bytes LOCK_NAME, \<lparr> sn_id = demo_id 11, sn_mode = 0x8180, sn_bytes = [] \<rparr>),
      (demo_id 10, as_bytes (lit ''pages''), \<lparr> sn_id = demo_id 12, sn_mode = 0x41ED, sn_bytes = [] \<rparr>),
      (demo_id 10, as_bytes (lit ''INDEX.md''), \<lparr> sn_id = demo_id 13, sn_mode = 0x81A4, sn_bytes = index_bytes \<rparr>),
      (demo_id 12, page, \<lparr> sn_id = demo_id 14, sn_mode = 0x81A4, sn_bytes = page_bytes \<rparr>)]"

definition demo_env :: "entry_name \<Rightarrow> u8 list \<Rightarrow> u8 list \<Rightarrow> unix_env" where
  "demo_env page page_bytes index_bytes = static_env (lit ''/w'') (demo_id 10) (demo_entries page page_bytes index_bytes)"

definition start_state :: unix_state where
  "start_state = \<lparr> us_now = 0, us_log = [] \<rparr>"

lemma static_env_answers [simp]:
  "ue_statat (static_env r i names) t d n = res_map static_stat (static_lookup names d n)"
  "ue_fstat (static_env r i names) t k = res_map static_stat (static_node_of names k)"
  "ue_open_dir (static_env r i names) t p = (if p = r then Inr i else Inl ENOENT)"
  "ue_openat_dir (static_env r i names) t d n = res_map sn_id (static_lookup names d n)"
  "ue_openat (static_env r i names) t flags d n = (if flags = OpenCreateNew then Inl EEXIST else res_map sn_id (static_lookup names d n))"
  "ue_dir_stream (static_env r i names) t d = Inr ()"
  "ue_dir_entries (static_env r i names) t d = map (\<lambda>(_, n, _). Inr n) (filter (\<lambda>(d', _, _). d' = d) names)"
  "ue_read (static_env r i names) t k = map_err (\<lambda>_. []) (res_map sn_bytes (static_node_of names k))"
  "ue_flock (static_env r i names) t k op = Inr ()" "ue_canonicalize (static_env r i names) t p = Inr p"
  "ue_clock (static_env r i names) t = t" "ue_uid (static_env r i names) = 7"
  "ue_file_type (static_env r i names) = posix_file_type"
  by (simp_all add: static_env_def)

lemma demo_ids [simp]: "demo_id i = demo_id j \<longleftrightarrow> (of_nat i :: 64 word) = of_nat j"
  by (simp add: demo_id_def)

lemma demo_names_distinct [simp]:
  "as_bytes LOCK_NAME \<noteq> as_bytes (lit ''pages'')" "as_bytes LOCK_NAME \<noteq> as_bytes (lit ''INDEX.md'')"
  "as_bytes (lit ''pages'') \<noteq> as_bytes (lit ''INDEX.md'')" "as_bytes (lit ''pages'') \<noteq> as_bytes LOCK_NAME"
  "as_bytes (lit ''INDEX.md'') \<noteq> as_bytes LOCK_NAME" "as_bytes (lit ''INDEX.md'') \<noteq> as_bytes (lit ''pages'')"
  by code_simp+

lemma posix_types [simp]: "posix_file_type 0x8180 = IsFile" "posix_file_type 0x81A4 = IsFile" "posix_file_type 0x41ED = IsDir"
  by (code_simp)+

lemma demo_lookups [simp]:
  "static_lookup (demo_entries page pb ib) (demo_id 10) (as_bytes LOCK_NAME) = Inr \<lparr> sn_id = demo_id 11, sn_mode = 0x8180, sn_bytes = [] \<rparr>"
  "static_lookup (demo_entries page pb ib) (demo_id 10) (as_bytes (lit ''pages'')) = Inr \<lparr> sn_id = demo_id 12, sn_mode = 0x41ED, sn_bytes = [] \<rparr>"
  "static_lookup (demo_entries page pb ib) (demo_id 10) (as_bytes (lit ''INDEX.md'')) = Inr \<lparr> sn_id = demo_id 13, sn_mode = 0x81A4, sn_bytes = ib \<rparr>"
  "static_lookup (demo_entries page pb ib) (demo_id 12) page = Inr \<lparr> sn_id = demo_id 14, sn_mode = 0x81A4, sn_bytes = pb \<rparr>"
  "static_node_of (demo_entries page pb ib) (demo_id 10) = Inr \<lparr> sn_id = demo_id 10, sn_mode = 0x41ED, sn_bytes = [] \<rparr>"
  "static_node_of (demo_entries page pb ib) (demo_id 11) = Inr \<lparr> sn_id = demo_id 11, sn_mode = 0x8180, sn_bytes = [] \<rparr>"
  "static_node_of (demo_entries page pb ib) (demo_id 12) = Inr \<lparr> sn_id = demo_id 12, sn_mode = 0x41ED, sn_bytes = [] \<rparr>"
  "static_node_of (demo_entries page pb ib) (demo_id 13) = Inr \<lparr> sn_id = demo_id 13, sn_mode = 0x81A4, sn_bytes = ib \<rparr>"
  "static_node_of (demo_entries page pb ib) (demo_id 14) = Inr \<lparr> sn_id = demo_id 14, sn_mode = 0x81A4, sn_bytes = pb \<rparr>"
  by (simp_all add: static_lookup_def static_node_of_def demo_entries_def)

definition demo_target :: pinned_target where
  "demo_target = \<lparr> pt_corpus_fd = demo_id 10, pt_corpus_identity = demo_id 10, pt_requested_path = lit ''/w'', pt_corpus_path = lit ''/w'',
     pt_lock_fd = demo_id 11, pt_lock_identity = demo_id 11, pt_lock_path = path_join (lit ''/w'') LOCK_NAME \<rparr>"

lemma demo_revalidate_corpus:
  "revalidate_corpus (demo_env page pb ib) (lit ''/w'') (lit ''/w'') (demo_id 10) (demo_id 10) s
     = (Inr CurrentBinding, s\<lparr> us_now := us_now s + 4 \<rparr>)"
  by (simp add: revalidate_corpus_def demo_env_def u_then_def u_try_def u_map_err_def sys_def u_return_def path_eq_def
      file_kind_def static_stat_def map_err_def res_map_def)

lemma demo_open: "open_target (demo_env page pb ib) (lit ''/w'') s = (Inr (IsolatedTarget demo_target), s\<lparr> us_now := us_now s + 11 \<rparr>)"
proof -
  have a: "is_absolute (lit ''/w'')" by code_simp
  show ?thesis
    using a demo_revalidate_corpus
    by (simp add: open_target_def absolute_path_def open_lock_file_def use_lock_file_def pin_lock_def validate_lock_descriptor_def
      verify_named_lock_def demo_target_def Let_def demo_env_def u_then_def u_try_def u_map_err_def sys_def u_return_def
      file_kind_def static_stat_def map_err_def res_map_def)
qed

lemma demo_revalidate_target: "revalidate_target (demo_env page pb ib) demo_target s = (Inr CurrentBinding, s\<lparr> us_now := us_now s + 6 \<rparr>)"
  using demo_revalidate_corpus
  by (simp add: revalidate_target_def validate_lock_descriptor_def verify_named_lock_def demo_target_def demo_env_def u_then_def u_try_def
      u_map_err_def sys_def u_return_def file_kind_def static_stat_def map_err_def res_map_def)

lemma demo_acquire:
  "acquire_lock_with_timeout (demo_env page pb ib) (lit ''/w'') mode LOCK_TIMEOUT start_state
     = Some (Inr (IsolatedLease demo_target mode), \<lparr> us_now = 21, us_log = [(12, Flocked (demo_id 11) (flock_operation_of mode))] \<rparr>)"
proof -
  have d: "lock_deadline (demo_env page pb ib) LOCK_TIMEOUT start_state = LOCK_TIMEOUT"
    by (simp add: lock_deadline_def demo_env_def start_state_def LOCK_TIMEOUT_def DURATION_MAX_def)
  have c: "ue_clock (demo_env page pb ib) t = t" "ue_flock (demo_env page pb ib) t k op = Inr ()" for t k op by (simp_all add: demo_env_def)
  have l: "pt_lock_fd demo_target = demo_id 11" by (simp add: demo_target_def)
  let ?s = "\<lparr> us_now = 1, us_log = [] \<rparr> :: unix_state"
  have "acquire_step (demo_env page pb ib) (lit ''/w'') mode LOCK_TIMEOUT LOCK_TIMEOUT None ?s
      = (NextRound (Some demo_target), ?s\<lparr> us_now := 12 \<rparr>)"
    by (simp add: acquire_step_def finish_with_def open_round_def u_try_def demo_open u_return_def)
  moreover have "acquire_step (demo_env page pb ib) (lit ''/w'') mode LOCK_TIMEOUT LOCK_TIMEOUT (Some demo_target) (?s\<lparr> us_now := 12 \<rparr>)
      = (Finished (Inr (IsolatedLease demo_target mode)), \<lparr> us_now = 21, us_log = [(12, Flocked (demo_id 11) (flock_operation_of mode))] \<rparr>)"
    by (simp add: acquire_step_def finish_with_def flock_round_def flock_granted_def Let_def u_then_def u_try_def sys_logged_def sys_def
        c l demo_revalidate_target u_return_def LOCK_TIMEOUT_def)
  ultimately show ?thesis
    by (simp add: acquire_lock_eq d [unfolded start_state_def] start_state_def acquire_loop.simps [of _ _ _ _ _ None] acquire_loop.simps [of _ _ _ _ _ "Some demo_target"])
qed

section \<open>Properties\<close>

text \<open>C33: what a lease means. An isolated lease is for the requested mode; the last thing done to any lock was
  the grant at some instant \<open>t\<close>; after the grant, calls at \<open>t + 2\<close> to \<open>t + 7\<close> found the requested path at the
  pinned corpus directory and the pinned file, regular, with one link and owned by the user or root, under
  the name of the lock; and after all that the clock was before the deadline. An unisolated lease is given
  only when the lock file could not be opened for the reason it names, was then found missing beside a
  pages directory without write access, and the corpus was then still in its place.\<close>

theorem lock_lease_justified:
  assumes "acquire_lock_with_timeout E corpus mode timeout s = Some (Inr lease, s')"
  shows "case lease of
      IsolatedLease target m \<Rightarrow> m = mode \<and> (\<exists>t \<ge> us_now s.
        ue_flock E t (pt_lock_fd target) (flock_operation_of mode) = Inr ()
        \<and> last (us_log s') = (t, Flocked (pt_lock_fd target) (flock_operation_of mode))
        \<and> corpus_bound_at E (t + 2) (pt_requested_path target) (pt_corpus_path target) (pt_corpus_fd target) (pt_corpus_identity target)
        \<and> lock_bound_at E (t + 6) target \<and> ue_clock E (t + 8) < lock_deadline E timeout s \<and> us_now s' = t + 9)
    | UnisolatedLease u \<Rightarrow> (\<exists>t \<ge> us_now s. unwritable_at E t u \<and> us_now s' = t + 7)"
proof -
  obtain held s0 where le: "us_now s \<le> us_now s0"
    and st: "acquire_step E corpus mode timeout (lock_deadline E timeout s) held s0 = (Finished (Inr lease), s')"
  proof -
    obtain held s0 where "us_now (s\<lparr> us_now := Suc (us_now s) \<rparr>) \<le> us_now s0"
      "acquire_step E corpus mode timeout (lock_deadline E timeout s) held s0 = (Finished (Inr lease), s')"
      using acquire_loop_lease [OF assms [unfolded acquire_lock_eq]] by blast
    then show thesis by (intro that [of s0 held]) simp_all
  qed
  from acquire_step_lease [OF st] show ?thesis
  proof (elim disjE exE conjE)
    fix target assume "flock_round E mode timeout (lock_deadline E timeout s) target s0 = (Inr (Finished (Inr lease)), s')"
    from flock_round_lease [OF this] le show ?thesis by auto
  next
    fix u assume "lease = UnisolatedLease u" "open_target E corpus s0 = (Inr (UnisolatedTarget u), s')"
    with open_target_unisolated le show ?thesis by fastforce
  qed
qed

theorem lock_lease_justified_witness:
  "\<exists>t. ue_flock (demo_env [] [] []) t (demo_id 11) NonBlockingLockExclusive = Inr ()
     \<and> lock_bound_at (demo_env [] [] []) (t + 6) demo_target \<and> t + 9 = 21"
proof -
  have "acquire_lock_with_timeout (demo_env [] [] []) (lit ''/w'') ExclusiveMode LOCK_TIMEOUT start_state
     = Some (Inr (IsolatedLease demo_target ExclusiveMode), \<lparr> us_now = 21, us_log = [(12, Flocked (demo_id 11) NonBlockingLockExclusive)] \<rparr>)"
    by (simp add: demo_acquire)
  from lock_lease_justified [OF this] show ?thesis by (auto simp: demo_target_def)
qed

text \<open>C34: acquiring a lock ends. Once the clock stays past the deadline the loop returns, whatever the file
  system answers; and every pause on the way is at most 50 ms, starts before the deadline, and is no longer
  than what was left until the deadline.\<close>

theorem lock_wait_bounded:
  assumes "\<And>t. T \<le> t \<Longrightarrow> lock_deadline E timeout s \<le> ue_clock E t"
  shows "\<exists>r s'. acquire_lock_with_timeout E corpus mode timeout s = Some (r, s')
    \<and> (\<exists>new. us_log s' = us_log s @ new
         \<and> (\<forall>t d. (t, Slept d) \<in> set new \<longrightarrow> d \<le> LOCK_POLL \<and> ue_clock E (t - 1) + d \<le> lock_deadline E timeout s))"
proof -
  obtain r s' where run: "acquire_loop E corpus mode timeout (lock_deadline E timeout s) None (s\<lparr> us_now := Suc (us_now s) \<rparr>) = Some (r, s')"
    using acquire_loop_returns [OF assms] by blast
  obtain new where "us_log s' = us_log s @ new" "list_all (pause_ok E (lock_deadline E timeout s)) new"
    using acquire_loop_pauses [OF run] by (auto simp: extends_def)
  with run show ?thesis by (fastforce simp: acquire_lock_eq list_all_iff)
qed

theorem lock_wait_bounded_witness:
  "\<exists>r s'. acquire_lock_with_timeout (demo_env [] [] []) (lit ''/w'') SharedMode LOCK_TIMEOUT start_state = Some (r, s')"
proof -
  have "lock_deadline (demo_env [] [] []) LOCK_TIMEOUT start_state \<le> ue_clock (demo_env [] [] []) t" if "LOCK_TIMEOUT \<le> t" for t
    using that by (simp add: lock_deadline_def demo_env_def start_state_def)
  from lock_wait_bounded [OF this] show ?thesis by blast
qed

end
