(* ===== verification/Wiki_Capture.thy ===== *)
theory Wiki_Capture
  imports Wiki_Check Wiki_Lock
begin

text \<open>
  Capturing a wiki through pinned descriptors and checking it (\<open>crates/yams-wiki/src/check.rs\<close>,
  \<open>capture_wiki\<close> and \<open>check_wiki\<close>). The file system may change between any two calls. Test hooks and the
  counter of accesses are left out; the paths in errors are bytes, and how they are shown is a parameter.
\<close>

section \<open>Model\<close>

datatype check_error =
    LockFailed lock_error
  | UnsafeObject "u8 list" ustr
  | RacedObject "u8 list" ustr
  | CheckIo ustr "u8 list" ustr

record node_state =
  ns_id :: identity
  ns_mode :: "32 word"
  ns_kind :: file_type
  ns_nlink :: "64 word"
  ns_size :: nat
  ns_modified_ns :: int
  ns_changed_ns :: int

record entry_signature =
  es_name :: entry_name
  es_state :: node_state

type_synonym 'a checked = "(check_error, 'a) result unix"

definition timestamp_ns :: "int \<Rightarrow> int \<Rightarrow> int" where
  "timestamp_ns seconds nanoseconds = seconds * 1000000000 + nanoseconds"

definition node_state_of :: "unix_env \<Rightarrow> unix_stat \<Rightarrow> node_state" where
  "node_state_of E st =
     \<lparr> ns_id = st_id st, ns_mode = st_mode st, ns_kind = ue_file_type E (st_mode st), ns_nlink = st_nlink st,
       ns_size = nat (st_size st), ns_modified_ns = timestamp_ns (st_mtime st) (st_mtime_nsec st),
       ns_changed_ns = timestamp_ns (st_ctime st) (st_ctime_nsec st) \<rparr>"

definition join_name :: "u8 list \<Rightarrow> entry_name \<Rightarrow> u8 list" where
  "join_name dir name = dir @ (if dir \<noteq> [] \<and> last dir \<noteq> 47 then [47] else []) @ name"

definition io_error :: "unix_env \<Rightarrow> ustr \<Rightarrow> u8 list \<Rightarrow> errno \<Rightarrow> check_error" where
  "io_error E operation path e = CheckIo operation path (ue_errno_text E e)"

definition named_state :: "unix_env \<Rightarrow> identity \<Rightarrow> entry_name \<Rightarrow> u8 list \<Rightarrow> ustr \<Rightarrow> node_state checked" where
  "named_state E parent name path operation =
     u_try (u_map_err (io_error E operation path) (sys (\<lambda>t. ue_statat E t parent name))) (\<lambda>st. u_return (Inr (node_state_of E st)))"

definition descriptor_state :: "unix_env \<Rightarrow> identity \<Rightarrow> u8 list \<Rightarrow> ustr \<Rightarrow> node_state checked" where
  "descriptor_state E fd path operation =
     u_try (u_map_err (io_error E operation path) (sys (\<lambda>t. ue_fstat E t fd))) (\<lambda>st. u_return (Inr (node_state_of E st)))"

definition raced :: "u8 list \<Rightarrow> ustr \<Rightarrow> 'a checked" where
  "raced path detail = u_return (Inl (RacedObject path detail))"

subsection \<open>Reading the directory\<close>

definition md_suffix :: entry_name where "md_suffix = as_bytes (lit ''.md'')"

definition is_page_entry :: "entry_name \<Rightarrow> bool" where
  "is_page_entry name = (name \<noteq> as_bytes (lit ''.'') \<and> name \<noteq> as_bytes (lit ''..'') \<and> suffix md_suffix name)"

definition byte_order :: "entry_name list \<Rightarrow> entry_name list" where
  "byte_order names = sort_key (map unat) names"

definition read_names :: "unix_env \<Rightarrow> u8 list \<Rightarrow> (errno, entry_name) result list \<Rightarrow> (check_error, entry_name list) result" where
  "read_names E path entries = res_map (filter is_page_entry) (try_map (map_err (io_error E (lit ''read directory entry'') path)) entries)"

definition enumerate_pages :: "unix_env \<Rightarrow> identity \<Rightarrow> u8 list \<Rightarrow> (entry_signature list) checked" where
  "enumerate_pages E directory path =
     u_try (u_map_err (io_error E (lit ''open directory stream'') path) (sys (\<lambda>t. ue_dir_stream E t directory))) (\<lambda>_.
     u_try (sys (\<lambda>t. read_names E path (ue_dir_entries E t directory))) (\<lambda>names.
     u_for (byte_order names) (\<lambda>name.
       u_try (named_state E directory name (join_name path name) (lit ''inspect entry'')) (\<lambda>state.
         u_return (Inr \<lparr> es_name = name, es_state = state \<rparr>)))))"

definition verify_directory_binding :: "unix_env \<Rightarrow> identity \<Rightarrow> entry_name \<Rightarrow> identity \<Rightarrow> node_state \<Rightarrow> u8 list \<Rightarrow> unit checked" where
  "verify_directory_binding E parent name fd expected path =
     u_try (descriptor_state E fd path (lit ''reinspect descriptor'')) (\<lambda>descriptor.
     u_try (named_state E parent name path (lit ''reinspect name'')) (\<lambda>named.
       if ns_id descriptor \<noteq> ns_id expected \<or> ns_id named \<noteq> ns_id expected \<or> ns_kind descriptor \<noteq> IsDir \<or> ns_kind named \<noteq> IsDir
       then raced path (lit ''directory binding changed'')
       else u_return (Inr ())))"

subsection \<open>Reading one file\<close>

definition page_read_failed :: "unix_env \<Rightarrow> identity \<Rightarrow> entry_name \<Rightarrow> u8 list \<Rightarrow> node_state \<Rightarrow> identity \<Rightarrow> ustr \<Rightarrow> captured_page_outcome checked" where
  "page_read_failed E parent name path candidate_state fd e =
     u_try (descriptor_state E fd path (lit ''reinspect unreadable page'')) (\<lambda>after_state.
     u_try (named_state E parent name path (lit ''reinspect unreadable page name'')) (\<lambda>named.
       if after_state \<noteq> candidate_state \<or> named \<noteq> candidate_state then raced path (lit ''unreadable page changed'')
       else u_return (Inr (Unreadable e))))"

definition page_read_done :: "unix_env \<Rightarrow> identity \<Rightarrow> entry_name \<Rightarrow> u8 list \<Rightarrow> node_state \<Rightarrow> identity \<Rightarrow> u8 list \<Rightarrow> captured_page_outcome checked" where
  "page_read_done E parent name path candidate_state fd bytes =
     u_try (descriptor_state E fd path (lit ''reinspect read page'')) (\<lambda>after_state.
     u_try (named_state E parent name path (lit ''reinspect read page name'')) (\<lambda>named.
       if after_state \<noteq> candidate_state \<or> named \<noteq> candidate_state \<or> ns_size after_state \<noteq> length bytes
       then raced path (lit ''page changed while reading'')
       else u_return (Inr (Present bytes))))"

definition capture_page :: "unix_env \<Rightarrow> identity \<Rightarrow> entry_name \<Rightarrow> u8 list \<Rightarrow> node_state \<Rightarrow> captured_page_outcome checked" where
  "capture_page E parent name path candidate_state =
     u_then (sys (\<lambda>t. ue_openat E t OpenExisting parent name)) (\<lambda>opened. case opened of
       Inl e \<Rightarrow>
         u_try (named_state E parent name path (lit ''reinspect unreadable'')) (\<lambda>now_state.
           if now_state \<noteq> candidate_state then raced path (lit ''page changed while opening'')
           else u_return (Inr (Unreadable (ue_errno_text E e))))
     | Inr fd \<Rightarrow>
         u_try (descriptor_state E fd path (lit ''inspect opened page'')) (\<lambda>opened_state.
           if opened_state \<noteq> candidate_state \<or> ns_kind opened_state \<noteq> IsFile then raced path (lit ''page changed while opening'')
           else u_then (sys (\<lambda>t. ue_read E t fd)) (\<lambda>r. case r of
             Inl e \<Rightarrow> page_read_failed E parent name path candidate_state fd e
           | Inr bytes \<Rightarrow> page_read_done E parent name path candidate_state fd bytes)))"

definition capture_index :: "wiki_lib \<Rightarrow> unix_env \<Rightarrow> identity \<Rightarrow> u8 list \<Rightarrow> (u8 list \<times> node_state \<times> ustr) checked" where
  "capture_index W E parent path =
     (let name = as_bytes INDEX_NAME
      in u_try (named_state E parent name path (lit ''inspect'')) (\<lambda>candidate_state.
         if ns_kind candidate_state \<noteq> IsFile then u_return (Inl (UnsafeObject path (lit ''expected a non-symlink regular file'')))
         else
           u_try (u_map_err (io_error E (lit ''open without following links'') path) (sys (\<lambda>t. ue_openat E t OpenExisting parent name))) (\<lambda>fd.
           u_try (descriptor_state E fd path (lit ''inspect opened'')) (\<lambda>opened_state.
           if opened_state \<noteq> candidate_state then raced path (lit ''index changed while opening'')
           else
             u_try (u_map_err (CheckIo (lit ''read'') path) (sys (\<lambda>t. ue_read E t fd))) (\<lambda>bytes.
             u_try (descriptor_state E fd path (lit ''reinspect'')) (\<lambda>after_state.
             u_try (named_state E parent name path (lit ''reinspect name'')) (\<lambda>named.
             if after_state \<noteq> candidate_state \<or> named \<noteq> candidate_state \<or> ns_size after_state \<noteq> length bytes
             then raced path (lit ''index changed while reading'')
             else u_return (Inr (bytes, after_state, wl_sha256_hex W bytes)))))))))"

subsection \<open>The snapshot\<close>

definition capture_entry :: "unix_env \<Rightarrow> identity \<Rightarrow> u8 list \<Rightarrow> entry_signature \<Rightarrow> captured_page checked" where
  "capture_entry E pages_fd pages_path signature =
     u_try (if ns_kind (es_state signature) = IsSymlink
       then u_then (sys (\<lambda>t. ue_statat_follow E t pages_fd (es_name signature))) (\<lambda>r. u_return (Inr (case r of
              Inr st \<Rightarrow> if ue_file_type E (st_mode st) = IsFile then SymlinkPage else NotRegular
            | Inl _ \<Rightarrow> NotRegular)))
       else if ns_kind (es_state signature) \<noteq> IsFile then u_return (Inr NotRegular)
       else capture_page E pages_fd (es_name signature) (join_name pages_path (es_name signature)) (es_state signature))
       (\<lambda>outcome. u_return (Inr \<lparr> cp_name = es_name signature, cp_outcome = outcome \<rparr>))"

text \<open>Pages are captured between two equal enumerations, the index between the second and a third.\<close>

definition enumerate_again :: "unix_env \<Rightarrow> identity \<Rightarrow> u8 list \<Rightarrow> entry_signature list \<Rightarrow> unit checked" where
  "enumerate_again E pages_fd pages_path signatures =
     u_try (enumerate_pages E pages_fd pages_path) (\<lambda>again.
       if again \<noteq> signatures then raced pages_path (lit ''entry or signature set changed'') else u_return (Inr ()))"

definition open_pages :: "unix_env \<Rightarrow> identity \<Rightarrow> u8 list \<Rightarrow> (identity \<times> node_state) checked" where
  "open_pages E corpus_fd pages_path =
     (let name = as_bytes PAGES_NAME
      in u_try (named_state E corpus_fd name pages_path (lit ''inspect'')) (\<lambda>pages_candidate.
         if ns_kind pages_candidate \<noteq> IsDir then u_return (Inl (UnsafeObject pages_path (lit ''expected a non-symlink directory'')))
         else
           u_try (u_map_err (io_error E (lit ''open without following links'') pages_path) (sys (\<lambda>t. ue_openat_dir E t corpus_fd name))) (\<lambda>pages_fd.
           u_try (descriptor_state E pages_fd pages_path (lit ''inspect opened'')) (\<lambda>pages_state.
           if ns_id pages_state \<noteq> ns_id pages_candidate \<or> ns_kind pages_state \<noteq> IsDir
           then raced pages_path (lit ''directory changed while opening'')
           else u_return (Inr (pages_fd, pages_state))))))"

definition capture_from_fd ::
  "wiki_lib \<Rightarrow> unix_env \<Rightarrow> identity \<Rightarrow> ustr \<Rightarrow> bool \<Rightarrow> ustr option \<Rightarrow> unit locked \<Rightarrow> wiki_snapshot checked" where
  "capture_from_fd W E corpus_fd corpus_path isolated isolation_note revalidate_lease =
     (let pages_path = join_name (as_bytes corpus_path) (as_bytes PAGES_NAME);
          index_path = join_name (as_bytes corpus_path) (as_bytes INDEX_NAME)
      in u_try (open_pages E corpus_fd pages_path) (\<lambda>(pages_fd, pages_state).
         u_try (enumerate_pages E pages_fd pages_path) (\<lambda>signatures.
         u_try (u_for (filter (\<lambda>signature. suffix md_suffix (es_name signature)) signatures) (capture_entry E pages_fd pages_path)) (\<lambda>pages.
         u_try (verify_directory_binding E corpus_fd (as_bytes PAGES_NAME) pages_fd pages_state pages_path) (\<lambda>_.
         u_try (enumerate_again E pages_fd pages_path signatures) (\<lambda>_.
         u_try (capture_index W E corpus_fd index_path) (\<lambda>(index, index_state, index_digest).
         u_try (verify_directory_binding E corpus_fd (as_bytes PAGES_NAME) pages_fd pages_state pages_path) (\<lambda>_.
         u_try (enumerate_again E pages_fd pages_path signatures) (\<lambda>_.
         u_try (capture_index W E corpus_fd index_path) (\<lambda>(final_index, final_state, final_digest).
         if final_state \<noteq> index_state \<or> final_digest \<noteq> index_digest \<or> final_index \<noteq> index
         then raced index_path (lit ''identity, metadata, or bytes changed'')
         else
           u_try (u_map_err LockFailed revalidate_lease) (\<lambda>_.
             u_return (Inr \<lparr> ws_corpus = corpus_path, ws_index = index, ws_pages = pages, ws_isolated = isolated,
               ws_isolation_note = isolation_note \<rparr>))))))))))))"

fun isolation_note_of :: "unisolated_reason \<Rightarrow> ustr" where
  "isolation_note_of ReadOnlyFilesystem = lit ''read-only filesystem''"
| "isolation_note_of UnwritableCorpus = lit ''unwritable corpus''"

text \<open>The guard of an isolated lease is dropped at the end, also when the capture fails.\<close>

definition capture_with_lease :: "wiki_lib \<Rightarrow> unix_env \<Rightarrow> lock_lease \<Rightarrow> wiki_snapshot checked" where
  "capture_with_lease W E lease =
     (case lease of
        IsolatedLease target m \<Rightarrow>
          u_then (capture_from_fd W E (pt_corpus_fd target) (pt_corpus_path target) True None (revalidate_before_commit E target)) (\<lambda>r.
            u_then (drop_guard E target) (\<lambda>_. u_return r))
      | UnisolatedLease u \<Rightarrow>
          capture_from_fd W E (un_corpus_fd u) (un_corpus u) False (Some (isolation_note_of (un_reason u))) (revalidate_unisolated E u))"

definition capture_wiki_with_timeout ::
  "wiki_lib \<Rightarrow> unix_env \<Rightarrow> ustr \<Rightarrow> nat \<Rightarrow> unix_state \<Rightarrow> ((check_error, wiki_snapshot) result \<times> unix_state) option" where
  "capture_wiki_with_timeout W E corpus timeout s =
     (case acquire_lock_with_timeout E corpus SharedMode timeout s of
        None \<Rightarrow> None
      | Some (Inl e, s) \<Rightarrow> Some (Inl (LockFailed e), s)
      | Some (Inr lease, s) \<Rightarrow> Some (capture_with_lease W E lease s))"

definition capture_wiki :: "wiki_lib \<Rightarrow> unix_env \<Rightarrow> ustr \<Rightarrow> unix_state \<Rightarrow> ((check_error, wiki_snapshot) result \<times> unix_state) option" where
  "capture_wiki W E corpus = capture_wiki_with_timeout W E corpus LOCK_TIMEOUT"

subsection \<open>The command\<close>

text \<open>How a path and a duration are shown are parameters.\<close>

record show_lib =
  sl_path :: "u8 list \<Rightarrow> ustr"
  sl_duration :: "nat \<Rightarrow> ustr"

fun lock_error_text :: "show_lib \<Rightarrow> lock_error \<Rightarrow> ustr" where
  "lock_error_text D (LockBusy path mode timeout) =
     lit ''wiki lock '' @ path @ lit '' stayed busy for '' @ sl_duration D timeout @ lit '' in '' @ lock_mode_text mode @ lit '' mode''"
| "lock_error_text D (UnsafeLock path reason) = lit ''unsafe wiki lock at '' @ path @ lit '': '' @ reason"

fun check_error_text :: "show_lib \<Rightarrow> check_error \<Rightarrow> ustr" where
  "check_error_text D (LockFailed e) = lock_error_text D e"
| "check_error_text D (UnsafeObject path detail) = lit ''unsafe wiki object at '' @ sl_path D path @ lit '': '' @ detail"
| "check_error_text D (RacedObject path detail) = lit ''wiki changed while capturing '' @ sl_path D path @ lit '': '' @ detail"
| "check_error_text D (CheckIo operation path detail) = lit ''could not '' @ operation @ [sp] @ sl_path D path @ lit '': '' @ detail"

text \<open>The last component of a path that was joined from names.\<close>

definition last_name :: "u8 list \<Rightarrow> entry_name" where
  "last_name path = rev (takeWhile (\<lambda>b. b \<noteq> 47) (rev path))"

fun capture_failure :: "show_lib \<Rightarrow> check_error \<Rightarrow> ustr" where
  "capture_failure D (LockFailed (LockBusy path mode timeout)) =
     lit ''could not obtain a consistent snapshot: '' @ check_error_text D (LockFailed (LockBusy path mode timeout))"
| "capture_failure D (LockFailed (UnsafeLock path reason)) = check_error_text D (LockFailed (UnsafeLock path reason))"
| "capture_failure D (CheckIo operation path detail) =
     (if last_name path = as_bytes INDEX_NAME then sl_path D path @ lit '' is not readable''
      else lit ''could not obtain a consistent snapshot: '' @ check_error_text D (CheckIo operation path detail))"
| "capture_failure D e = lit ''could not obtain a consistent snapshot: '' @ check_error_text D e"

definition check_wiki_with ::
  "check_lib \<Rightarrow> show_lib \<Rightarrow> file_system \<Rightarrow> (ustr \<Rightarrow> bool) \<Rightarrow> unix_env \<Rightarrow> ustr \<Rightarrow> nat \<Rightarrow> unix_state \<Rightarrow> (wiki_check_report \<times> unix_state) option" where
  "check_wiki_with L D fs accessible E corpus timeout s =
     (case preflight_failure fs accessible corpus of
        Some failure \<Rightarrow> Some (failed_report failure, s)
      | None \<Rightarrow>
          (case capture_wiki_with_timeout (ck_wiki L) E corpus timeout s of
             None \<Rightarrow> None
           | Some (Inl e, s) \<Rightarrow> Some (failed_report (capture_failure D e), s)
           | Some (Inr snapshot, s) \<Rightarrow> Some (validate_wiki L snapshot, s)))"

definition compat_wiki ::
  "check_lib \<Rightarrow> unix_env \<Rightarrow> ustr \<Rightarrow> unix_state \<Rightarrow> ((check_error, wiki_compat_report) result \<times> unix_state) option" where
  "compat_wiki L E corpus s =
     (case capture_wiki (ck_wiki L) E corpus s of
        None \<Rightarrow> None
      | Some (Inl e, s) \<Rightarrow> Some (Inl e, s)
      | Some (Inr snapshot, s) \<Rightarrow> Some (Inr (compat_snapshot L snapshot), s))"

section \<open>What the answers mean\<close>

text \<open>The real content of the file system at every instant: directory entries, metadata and bytes.\<close>

record fs_history =
  hs_entry :: "instant \<Rightarrow> identity \<Rightarrow> entry_name \<Rightarrow> identity option"
  hs_stat :: "instant \<Rightarrow> identity \<Rightarrow> unix_stat"
  hs_bytes :: "instant \<Rightarrow> identity \<Rightarrow> u8 list"

text \<open>Answers that succeed tell the truth about their instant.\<close>

definition answers_true :: "unix_env \<Rightarrow> fs_history \<Rightarrow> bool" where
  "answers_true E H =
     ((\<forall>t d n st. ue_statat E t d n = Inr st \<longrightarrow> hs_entry H t d n = Some (st_id st) \<and> hs_stat H t (st_id st) = st)
      \<and> (\<forall>t i st. ue_fstat E t i = Inr st \<longrightarrow> st_id st = i \<and> hs_stat H t i = st)
      \<and> (\<forall>t d names. ue_dir_entries E t d = map Inr names \<longrightarrow>
           set names - {as_bytes (lit ''.''), as_bytes (lit ''..'')} = {n. hs_entry H t d n \<noteq> None}))"

text \<open>
  What the times of a file promise: an object that is found under the same name with the same metadata at two
  instants was under that name, with the same bytes, all the time between, and reads of it gave these bytes.
\<close>

definition changes_show :: "unix_env \<Rightarrow> fs_history \<Rightarrow> bool" where
  "changes_show E H =
     (\<forall>d n i t1 t2 t. hs_entry H t1 d n = Some i \<and> hs_entry H t2 d n = Some i
        \<and> node_state_of E (hs_stat H t1 i) = node_state_of E (hs_stat H t2 i) \<and> t1 \<le> t \<and> t \<le> t2
        \<longrightarrow> hs_entry H t d n = Some i \<and> hs_bytes H t i = hs_bytes H t1 i
          \<and> (\<forall>bytes. ue_read E t i = Inr bytes \<longrightarrow> bytes = hs_bytes H t1 i))"

section \<open>Lemmas\<close>

lemma named_state_Inr:
  "named_state E parent name path op s = (Inr ns, s') \<longleftrightarrow>
     (\<exists>st. ue_statat E (us_now s) parent name = Inr st \<and> ns = node_state_of E st) \<and> s' = s\<lparr> us_now := Suc (us_now s) \<rparr>"
  by (cases "ue_statat E (us_now s) parent name")
    (auto simp: named_state_def u_try_def u_map_err_def sys_def u_return_def map_err_def)

lemma descriptor_state_Inr:
  "descriptor_state E fd path op s = (Inr ns, s') \<longleftrightarrow>
     (\<exists>st. ue_fstat E (us_now s) fd = Inr st \<and> ns = node_state_of E st) \<and> s' = s\<lparr> us_now := Suc (us_now s) \<rparr>"
  by (cases "ue_fstat E (us_now s) fd")
    (auto simp: descriptor_state_def u_try_def u_map_err_def sys_def u_return_def map_err_def)

lemma raced_not_Inr [simp]: "raced path detail s \<noteq> (Inr x, s')"
  by (simp add: raced_def u_return_def)

lemma node_state_simps [simp]: "ns_id (node_state_of E st) = st_id st" "ns_kind (node_state_of E st) = ue_file_type E (st_mode st)"
  by (simp_all add: node_state_of_def)

lemmas capture_iffs = run_iffs named_state_Inr descriptor_state_Inr

lemma runs_state [runs_intros]: "runs P (named_state E parent name path op)" "runs P (descriptor_state E fd path op)" "runs P (raced path detail)"
  unfolding named_state_def descriptor_state_def raced_def by (intro runs_intros)+

lemma runs_enumerate [runs_intros]: "runs P (enumerate_pages E directory path)"
  unfolding enumerate_pages_def by (intro runs_intros)

lemma runs_enumerate_again [runs_intros]: "runs P (enumerate_again E directory path signatures)"
  unfolding enumerate_again_def by (intro runs_intros)

lemma runs_verify [runs_intros]: "runs P (verify_directory_binding E parent name fd expected path)"
  unfolding verify_directory_binding_def by (intro runs_intros)

lemma runs_capture_page [runs_intros]: "runs P (capture_page E parent name path candidate_state)"
  unfolding capture_page_def page_read_failed_def page_read_done_def by (intro runs_intros)

lemma runs_capture_entry [runs_intros]: "runs P (capture_entry E fd path signature)"
  unfolding capture_entry_def by (intro runs_intros)

lemma runs_capture_index [runs_intros]: "runs P (capture_index W E parent path)"
  unfolding capture_index_def Let_def by (intro runs_intros)

text \<open>The elements of a loop that succeeds were computed one after the other.\<close>

lemma u_for_Inr:
  assumes "\<And>x. runs P (f x)" "u_for xs f s = (Inr ys, s')"
  shows "list_all2 (\<lambda>x y. \<exists>a b. us_now s \<le> us_now a \<and> f x a = (Inr y, b) \<and> us_now b \<le> us_now s') xs ys"
  using assms(2)
proof (induction xs arbitrary: s ys)
  case (Cons x xs)
  obtain y s1 ys' where y: "f x s = (Inr y, s1)" "u_for xs f s1 = (Inr ys', s')" "ys = y # ys'"
    using Cons.prems by (auto simp: u_try_iff u_return_iff)
  have le: "us_now s \<le> us_now s1" using runsD [OF assms(1) y(1)] by blast
  have le': "us_now s1 \<le> us_now s'" using runsD [OF runs_for [OF assms(1)] y(2)] by blast
  have "list_all2 (\<lambda>x y. \<exists>a b. us_now s \<le> us_now a \<and> f x a = (Inr y, b) \<and> us_now b \<le> us_now s') xs ys'"
    by (rule list_all2_mono [OF Cons.IH [OF y(2)]]) (use le order_trans in blast)
  then show ?case using y le' by auto
qed simp

text \<open>One enumeration: a listing at one instant and then one look at every page of it.\<close>

definition observed :: "unix_env \<Rightarrow> identity \<Rightarrow> instant \<Rightarrow> instant \<Rightarrow> entry_signature \<Rightarrow> bool" where
  "observed E directory t0 t1 signature =
     (\<exists>t st. t0 \<le> t \<and> t < t1 \<and> ue_statat E t directory (es_name signature) = Inr st \<and> es_state signature = node_state_of E st)"

lemma byte_order_set [simp]: "set (byte_order names) = set names"
  by (simp add: byte_order_def)

lemma try_map_err_Inr: "try_map (map_err f) xs = Inr ys \<Longrightarrow> xs = map Inr ys"
proof (induction xs arbitrary: ys)
  case (Cons x xs)
  then show ?case by (cases x) (auto simp: map_err_def split: sum.splits)
qed simp

lemma enumerate_pages_Inr:
  assumes "enumerate_pages E directory path s = (Inr signatures, s')"
  shows "\<exists>names. ue_dir_entries E (us_now s + 1) directory = map Inr names
    \<and> map es_name signatures = byte_order (filter is_page_entry names)
    \<and> (\<forall>signature \<in> set signatures. observed E directory (us_now s + 2) (us_now s') signature)"
proof -
  let ?f = "\<lambda>name. u_try (named_state E directory name (join_name path name) (lit ''inspect entry'')) (\<lambda>state.
         u_return (Inr \<lparr> es_name = name, es_state = state \<rparr>))"
  let ?s = "s\<lparr> us_now := Suc (Suc (us_now s)) \<rparr>"
  obtain pages where p: "read_names E path (ue_dir_entries E (Suc (us_now s)) directory) = Inr pages"
    and f: "u_for (byte_order pages) ?f ?s = (Inr signatures, s')"
    using assms by (auto simp: enumerate_pages_def run_iffs)
  obtain names where n: "ue_dir_entries E (Suc (us_now s)) directory = map Inr names" "pages = filter is_page_entry names"
    using p by (auto simp: read_names_def res_map_def dest!: try_map_err_Inr split: sum.splits)
  have all: "list_all2 (\<lambda>name y. \<exists>a b. us_now ?s \<le> us_now a \<and> ?f name a = (Inr y, b) \<and> us_now b \<le> us_now s') (byte_order pages) signatures"
    by (rule u_for_Inr [where P = "\<lambda>_. True", OF _ f]) (intro runs_intros)
  have one: "es_name y = name \<and> observed E directory (us_now s + 2) (us_now s') y"
    if "\<exists>a b. us_now ?s \<le> us_now a \<and> ?f name a = (Inr y, b) \<and> us_now b \<le> us_now s'" for name y
    using that by (auto simp: capture_iffs observed_def Suc_le_eq intro!: exI)
  have "map es_name signatures = byte_order pages"
    using all by (induction rule: list_all2_induct) (use one in auto)
  moreover have "\<forall>y \<in> set signatures. observed E directory (us_now s + 2) (us_now s') y"
    using all by (induction rule: list_all2_induct) (use one in auto)
  ultimately show ?thesis using n by auto
qed

lemma enumerate_pages_time:
  assumes "enumerate_pages E directory path s = (Inr signatures, s')"
  shows "us_now s + 2 \<le> us_now s'"
proof -
  let ?f = "\<lambda>name. u_try (named_state E directory name (join_name path name) (lit ''inspect entry'')) (\<lambda>state.
         u_return (Inr \<lparr> es_name = name, es_state = state \<rparr>))"
  have r: "runs (\<lambda>_. True) (?f name)" for name by (intro runs_intros)
  obtain pages where "u_for (byte_order pages) ?f (s\<lparr> us_now := Suc (Suc (us_now s)) \<rparr>) = (Inr signatures, s')"
    using assms by (auto simp: enumerate_pages_def run_iffs)
  from runsD [OF runs_for [OF r] this] show ?thesis by simp
qed

lemma capture_page_Present:
  assumes "capture_page E parent name path candidate_state s = (Inr (Present bytes), s')"
  shows "\<exists>t t' fd st. us_now s \<le> t \<and> t < us_now s' \<and> ue_read E t fd = Inr bytes
    \<and> ue_fstat E t' fd = Inr st \<and> node_state_of E st = candidate_state \<and> ns_kind candidate_state = IsFile \<and> ns_size candidate_state = length bytes"
proof -
  obtain fd st where o: "ue_openat E (us_now s) OpenExisting parent name = Inr fd" "ue_fstat E (Suc (us_now s)) fd = Inr st"
    "node_state_of E st = candidate_state" "ns_kind candidate_state = IsFile"
    and k: "(case ue_read E (Suc (Suc (us_now s))) fd of
             Inl e \<Rightarrow> page_read_failed E parent name path candidate_state fd e
           | Inr bytes \<Rightarrow> page_read_done E parent name path candidate_state fd bytes) (s\<lparr> us_now := Suc (Suc (Suc (us_now s))) \<rparr>) = (Inr (Present bytes), s')"
    using assms by (auto simp: capture_page_def capture_iffs split: sum.splits if_splits)
  obtain b where b: "ue_read E (Suc (Suc (us_now s))) fd = Inr b"
    "page_read_done E parent name path candidate_state fd b (s\<lparr> us_now := Suc (Suc (Suc (us_now s))) \<rparr>) = (Inr (Present bytes), s')"
    using k by (auto simp: page_read_failed_def capture_iffs split: sum.splits if_splits)
  from b(2) have "b = bytes" "ns_size candidate_state = length bytes" "us_now s' = us_now s + 5"
    by (auto simp: page_read_done_def capture_iffs split: if_splits)
  then show ?thesis using o b(1) by (intro exI [of _ "Suc (Suc (us_now s))"] exI [of _ "Suc (us_now s)"] exI [of _ fd] exI [of _ st]) auto
qed

lemma capture_index_Inr:
  assumes "capture_index W E parent path s = (Inr (bytes, state, digest), s')"
  shows "\<exists>t fd st st'. us_now s \<le> t \<and> t < us_now s' \<and> ue_read E t fd = Inr bytes \<and> ue_fstat E (us_now s + 2) fd = Inr st' \<and> node_state_of E st' = state
    \<and> ue_statat E (us_now s) parent (as_bytes INDEX_NAME) = Inr st \<and> state = node_state_of E st \<and> ns_kind state = IsFile"
proof -
  obtain st fd st' where o: "ue_statat E (us_now s) parent (as_bytes INDEX_NAME) = Inr st" "ue_file_type E (st_mode st) = IsFile"
    "ue_fstat E (us_now s + 2) fd = Inr st'" "node_state_of E st' = node_state_of E st" "ue_read E (us_now s + 3) fd = Inr bytes"
    "state = node_state_of E st" "us_now s' = us_now s + 6"
    using assms by (auto simp: capture_index_def capture_iffs Let_def eval_nat_numeral split: if_splits)
  then show ?thesis by (intro exI [of _ "us_now s + 3"] exI [of _ fd] exI [of _ st] exI [of _ st']) auto
qed


lemma capture_entry_Inr:
  assumes "capture_entry E pages_fd path signature s = (Inr page, s')"
  shows "cp_name page = es_name signature
    \<and> (case cp_outcome page of
         Present bytes \<Rightarrow> ns_kind (es_state signature) = IsFile \<and> ns_size (es_state signature) = length bytes
           \<and> (\<exists>t t' fd st. us_now s \<le> t \<and> t < us_now s' \<and> ue_read E t fd = Inr bytes \<and> ue_fstat E t' fd = Inr st
                \<and> node_state_of E st = es_state signature)
       | NotRegular \<Rightarrow> ns_kind (es_state signature) \<noteq> IsFile
       | SymlinkPage \<Rightarrow> ns_kind (es_state signature) = IsSymlink
       | Unreadable _ \<Rightarrow> ns_kind (es_state signature) = IsFile
       | OutsideCorpus \<Rightarrow> False)"
proof -
  consider (link) "ns_kind (es_state signature) = IsSymlink" | (other) "ns_kind (es_state signature) \<noteq> IsSymlink" "ns_kind (es_state signature) \<noteq> IsFile"
    | (regular) "ns_kind (es_state signature) = IsFile" by fastforce
  then show ?thesis
  proof cases
    case link
    then show ?thesis using assms by (auto simp: capture_entry_def run_iffs split: sum.splits if_splits)
  next
    case other
    then show ?thesis using assms by (auto simp: capture_entry_def run_iffs)
  next
    case regular
    then obtain outcome where c: "capture_page E pages_fd (es_name signature) (join_name path (es_name signature)) (es_state signature) s = (Inr outcome, s')"
      and p: "page = \<lparr> cp_name = es_name signature, cp_outcome = outcome \<rparr>"
      using assms by (auto simp: capture_entry_def run_iffs)
    show ?thesis
    proof (cases outcome)
      case (Present bytes)
      from capture_page_Present [OF c [unfolded Present]] show ?thesis using p regular Present by auto
    next
      case (Unreadable e)
      then show ?thesis using p regular by simp
    qed (use c in \<open>auto simp: capture_page_def page_read_failed_def page_read_done_def capture_iffs split: sum.splits if_splits\<close>)
  qed
qed

text \<open>What two sightings of the same signature tell about the time between them.\<close>

lemma unchanged_between:
  assumes "answers_true E H" "changes_show E H"
    and "ue_statat E t1 d n = Inr st1" "ue_statat E t2 d n = Inr st2" "node_state_of E st1 = node_state_of E st2" "t1 \<le> t" "t \<le> t2"
  shows "hs_entry H t d n = Some (st_id st1)" "hs_bytes H t (st_id st1) = hs_bytes H t1 (st_id st1)"
    "ue_read E t (st_id st1) = Inr bytes \<Longrightarrow> bytes = hs_bytes H t1 (st_id st1)"
proof -
  have i: "st_id st2 = st_id st1" using assms(5) by (metis node_state_simps(1))
  have a: "hs_entry H t1 d n = Some (st_id st1)" "hs_stat H t1 (st_id st1) = st1" "hs_entry H t2 d n = Some (st_id st1)" "hs_stat H t2 (st_id st1) = st2"
    using assms(1,3,4) i unfolding answers_true_def by metis+
  have "hs_entry H t d n = Some (st_id st1) \<and> hs_bytes H t (st_id st1) = hs_bytes H t1 (st_id st1)
      \<and> (\<forall>bytes. ue_read E t (st_id st1) = Inr bytes \<longrightarrow> bytes = hs_bytes H t1 (st_id st1))"
    using assms(2) [unfolded changes_show_def, rule_format, of t1 d n "st_id st1" t2 t] a assms(5-7) by simp
  then show "hs_entry H t d n = Some (st_id st1)" "hs_bytes H t (st_id st1) = hs_bytes H t1 (st_id st1)"
    "ue_read E t (st_id st1) = Inr bytes \<Longrightarrow> bytes = hs_bytes H t1 (st_id st1)" by blast+
qed

lemma fstat_id: "answers_true E H \<Longrightarrow> ue_fstat E t fd = Inr st \<Longrightarrow> st_id st = fd"
  unfolding answers_true_def by blast

lemma node_state_id: "node_state_of E st = node_state_of E st' \<Longrightarrow> st_id st = st_id st'"
  by (metis node_state_simps(1))

text \<open>The state of the wiki at one instant, as far as a snapshot shows it.\<close>

definition page_is_at :: "unix_env \<Rightarrow> fs_history \<Rightarrow> instant \<Rightarrow> identity \<Rightarrow> captured_page \<Rightarrow> bool" where
  "page_is_at E H t pages_fd page =
     (\<exists>i. hs_entry H t pages_fd (cp_name page) = Some i
        \<and> (\<forall>bytes. cp_outcome page = Present bytes \<longrightarrow> hs_bytes H t i = bytes))"

definition snapshot_is_at :: "unix_env \<Rightarrow> fs_history \<Rightarrow> instant \<Rightarrow> identity \<Rightarrow> identity \<Rightarrow> wiki_snapshot \<Rightarrow> bool" where
  "snapshot_is_at E H t corpus_fd pages_fd snapshot =
     ((\<exists>i. hs_entry H t corpus_fd (as_bytes INDEX_NAME) = Some i \<and> hs_bytes H t i = ws_index snapshot)
      \<and> set (map cp_name (ws_pages snapshot)) = {n. is_page_entry n \<and> hs_entry H t pages_fd n \<noteq> None}
      \<and> (\<forall>page \<in> set (ws_pages snapshot). page_is_at E H t pages_fd page))"

lemma verify_binding_Inr:
  assumes "verify_directory_binding E parent name fd expected path s = (Inr u, s')"
  shows "\<exists>st. ue_statat E (us_now s + 1) parent name = Inr st \<and> st_id st = ns_id expected \<and> us_now s' = us_now s + 2"
  using assms by (auto simp: verify_directory_binding_def capture_iffs split: if_splits)

lemma page_between:
  assumes "answers_true E H" "changes_show E H"
    and first: "observed E pages_fd a b signature" and again: "observed E pages_fd c d signature"
    and entry: "capture_entry E pages_fd path signature s = (Inr page, s')"
    and order: "b \<le> us_now s" "us_now s' \<le> t" "t \<le> c"
  shows "page_is_at E H t pages_fd page"
proof -
  obtain t1 st1 where 1: "t1 < b" "ue_statat E t1 pages_fd (es_name signature) = Inr st1" "es_state signature = node_state_of E st1"
    using first unfolding observed_def by blast
  obtain t2 st2 where 2: "c \<le> t2" "ue_statat E t2 pages_fd (es_name signature) = Inr st2" "es_state signature = node_state_of E st2"
    using again unfolding observed_def by blast
  have le: "us_now s \<le> us_now s'" using runsD [OF runs_capture_entry entry] by blast
  note between = unchanged_between [OF assms(1,2) 1(2) 2(2)]
  have same: "node_state_of E st1 = node_state_of E st2" using 1(3) 2(3) by simp
  have "hs_bytes H t (st_id st1) = bytes" if p: "cp_outcome page = Present bytes" for bytes
  proof -
    obtain u u' fd st where u: "us_now s \<le> u" "u < us_now s'" "ue_read E u fd = Inr bytes" "ue_fstat E u' fd = Inr st"
      "node_state_of E st = es_state signature" using capture_entry_Inr [OF entry] p by auto
    have "fd = st_id st1" using fstat_id [OF assms(1) u(4)] node_state_id u(5) 1(3) by metis
    then have "bytes = hs_bytes H t1 (st_id st1)" using between(3) [OF same, of u bytes] u 1 2 order le by simp
    then show ?thesis using between(2) [OF same, of t] 1 2 order le by simp
  qed
  moreover have "hs_entry H t pages_fd (cp_name page) = Some (st_id st1)"
    using between(1) [OF same, of t] capture_entry_Inr [OF entry] 1 2 order le by simp
  ultimately show ?thesis unfolding page_is_at_def by blast
qed

lemma index_between:
  assumes "answers_true E H" "changes_show E H"
    and first: "capture_index W E corpus_fd path s = (Inr (index, state, digest), s1)"
    and again: "capture_index W E corpus_fd path s2 = (Inr (index', state, digest'), s3)"
    and order: "us_now s1 \<le> t" "t \<le> us_now s2"
  shows "\<exists>i. hs_entry H t corpus_fd (as_bytes INDEX_NAME) = Some i \<and> hs_bytes H t i = index"
proof -
  obtain u fd st st' where 1: "us_now s \<le> u" "u < us_now s1" "ue_read E u fd = Inr index" "ue_fstat E (us_now s + 2) fd = Inr st'"
    "node_state_of E st' = state" "ue_statat E (us_now s) corpus_fd (as_bytes INDEX_NAME) = Inr st" "state = node_state_of E st"
    using capture_index_Inr [OF first] by blast
  obtain st2 where 2: "ue_statat E (us_now s2) corpus_fd (as_bytes INDEX_NAME) = Inr st2" "state = node_state_of E st2"
    using capture_index_Inr [OF again] by blast
  have same: "node_state_of E st = node_state_of E st2" using 1(7) 2(2) by simp
  have "fd = st_id st" using fstat_id [OF assms(1) 1(4)] node_state_id [of E st' st] 1(5,7) by simp
  note between = unchanged_between [OF assms(1,2) 1(6) 2(1) same]
  have "index = hs_bytes H (us_now s) (st_id st)" using between(3) [of u index] 1 order \<open>fd = st_id st\<close> by simp
  then show ?thesis using between(1,2) [of t] 1 order by simp
qed


lemma enumerate_again_Inr:
  "enumerate_again E pages_fd path signatures s = (Inr u, s') \<longleftrightarrow> enumerate_pages E pages_fd path s = (Inr signatures, s')"
  by (auto simp: enumerate_again_def run_iffs split: if_splits)

lemma open_pages_Inr:
  assumes "open_pages E corpus_fd path s = (Inr (pages_fd, state), s')"
  shows "ns_id state = st_id (projr (ue_fstat E (us_now s + 2) pages_fd)) \<and> is_ok (ue_fstat E (us_now s + 2) pages_fd) \<and> us_now s' = us_now s + 3"
  using assms by (auto simp: open_pages_def capture_iffs Let_def eval_nat_numeral is_ok_def split: if_splits)

lemma capture_from_fd_Inr:
  assumes "capture_from_fd W E corpus_fd corpus_path isolated note revalidate_lease s = (Inr snapshot, s')"
  obtains pages_fd pages_state signatures pages index state digest path index_path s1 s2 s3 s4 s5 s6 s7 s8 s9 where
    "open_pages E corpus_fd path s = (Inr (pages_fd, pages_state), s1)"
    "enumerate_pages E pages_fd path s1 = (Inr signatures, s2)"
    "u_for (filter (\<lambda>signature. suffix md_suffix (es_name signature)) signatures) (capture_entry E pages_fd path) s2 = (Inr pages, s3)"
    "verify_directory_binding E corpus_fd (as_bytes PAGES_NAME) pages_fd pages_state path s3 = (Inr (), s4)"
    "enumerate_pages E pages_fd path s4 = (Inr signatures, s5)"
    "capture_index W E corpus_fd index_path s5 = (Inr (index, state, digest), s6)"
    "verify_directory_binding E corpus_fd (as_bytes PAGES_NAME) pages_fd pages_state path s6 = (Inr (), s7)"
    "enumerate_pages E pages_fd path s7 = (Inr signatures, s8)"
    "capture_index W E corpus_fd index_path s8 = (Inr (index, state, digest), s9)"
    "revalidate_lease s9 = (Inr (), s')"
    "snapshot = \<lparr> ws_corpus = corpus_path, ws_index = index, ws_pages = pages, ws_isolated = isolated, ws_isolation_note = note \<rparr>"
  using assms
  by (auto simp: capture_from_fd_def run_iffs Let_def enumerate_again_Inr split: if_splits)


lemma u_for_member:
  assumes "\<And>x. runs P (f x)" "u_for xs f s = (Inr ys, s')" "y \<in> set ys"
  shows "\<exists>x \<in> set xs. \<exists>a b. us_now s \<le> us_now a \<and> f x a = (Inr y, b) \<and> us_now b \<le> us_now s'"
  using u_for_Inr [OF assms(1,2)] assms(3) by (induction rule: list_all2_induct) auto

lemma listing_pages:
  assumes "answers_true E H" "ue_dir_entries E t d = map Inr names"
  shows "set (filter is_page_entry names) = {n. is_page_entry n \<and> hs_entry H t d n \<noteq> None}"
proof -
  have "set names - {as_bytes (lit ''.''), as_bytes (lit ''..'')} = {n. hs_entry H t d n \<noteq> None}"
    using assms unfolding answers_true_def by blast
  then show ?thesis by (auto simp: is_page_entry_def)
qed

lemma page_entry_suffix: "is_page_entry n \<Longrightarrow> suffix md_suffix n"
  by (simp add: is_page_entry_def)

text \<open>The instant is that of the last listing of the pages directory.\<close>

lemma capture_from_fd_instant:
  assumes "answers_true E H" "changes_show E H"
    and "\<And>s r s'. revalidate_lease s = (r, s') \<Longrightarrow> us_now s \<le> us_now s'"
    and run: "capture_from_fd W E corpus_fd corpus_path isolated note revalidate_lease s = (Inr snapshot, s')"
  shows "\<exists>t pages_fd. us_now s < t \<and> t < us_now s' \<and> snapshot_is_at E H t corpus_fd pages_fd snapshot
    \<and> (\<exists>t' < t. us_now s < t' \<and> hs_entry H t' corpus_fd (as_bytes PAGES_NAME) = Some pages_fd)"
  using run
proof (rule capture_from_fd_Inr)
  fix pages_fd pages_state signatures pages index state digest path index_path s1 s2 s3 s4 s5 s6 s7 s8 s9
  assume open_p: "open_pages E corpus_fd path s = (Inr (pages_fd, pages_state), s1)"
    and e1: "enumerate_pages E pages_fd path s1 = (Inr signatures, s2)"
    and pg: "u_for (filter (\<lambda>signature. suffix md_suffix (es_name signature)) signatures) (capture_entry E pages_fd path) s2 = (Inr pages, s3)"
    and v1: "verify_directory_binding E corpus_fd (as_bytes PAGES_NAME) pages_fd pages_state path s3 = (Inr (), s4)"
    and e2: "enumerate_pages E pages_fd path s4 = (Inr signatures, s5)"
    and i1: "capture_index W E corpus_fd index_path s5 = (Inr (index, state, digest), s6)"
    and v2: "verify_directory_binding E corpus_fd (as_bytes PAGES_NAME) pages_fd pages_state path s6 = (Inr (), s7)"
    and e3: "enumerate_pages E pages_fd path s7 = (Inr signatures, s8)"
    and i2: "capture_index W E corpus_fd index_path s8 = (Inr (index, state, digest), s9)"
    and lease: "revalidate_lease s9 = (Inr (), s')"
    and snap: "snapshot = \<lparr> ws_corpus = corpus_path, ws_index = index, ws_pages = pages, ws_isolated = isolated, ws_isolation_note = note \<rparr>"
  let ?t = "us_now s7 + 1"
  obtain names where n: "ue_dir_entries E ?t pages_fd = map Inr names" "map es_name signatures = byte_order (filter is_page_entry names)"
    and o3: "\<forall>signature \<in> set signatures. observed E pages_fd (us_now s7 + 2) (us_now s8) signature"
    using enumerate_pages_Inr [OF e3] by blast
  have o1: "\<forall>signature \<in> set signatures. observed E pages_fd (us_now s1 + 2) (us_now s2) signature"
    using enumerate_pages_Inr [OF e1] by blast
  have times: "us_now s1 \<le> us_now s2" "us_now s2 \<le> us_now s3" "us_now s4 \<le> us_now s5" "us_now s5 \<le> us_now s6" "us_now s7 + 2 \<le> us_now s8"
    "us_now s8 \<le> us_now s9" "us_now s9 \<le> us_now s'" "us_now s1 = us_now s + 3" "us_now s4 = us_now s3 + 2" "us_now s7 = us_now s6 + 2"
    using runsD [OF runs_enumerate [where P = "\<lambda>_. True"] e1] runsD [OF runs_for [OF runs_capture_entry [where P = "\<lambda>_. True"]] pg]
      runsD [OF runs_enumerate [where P = "\<lambda>_. True"] e2] runsD [OF runs_capture_index [where P = "\<lambda>_. True"] i1]
      enumerate_pages_time [OF e3] runsD [OF runs_capture_index [where P = "\<lambda>_. True"] i2] assms(3) [OF lease]
      open_pages_Inr [OF open_p] verify_binding_Inr [OF v1] verify_binding_Inr [OF v2] by auto
  obtain st where b: "ue_statat E (us_now s6 + 1) corpus_fd (as_bytes PAGES_NAME) = Inr st" "st_id st = ns_id pages_state"
    using verify_binding_Inr [OF v2] by blast
  have "ns_id pages_state = pages_fd" using open_pages_Inr [OF open_p] fstat_id [OF assms(1)] by (auto simp: is_ok_def split: sum.splits)
  then have bound: "hs_entry H (us_now s6 + 1) corpus_fd (as_bytes PAGES_NAME) = Some pages_fd"
    using b assms(1) unfolding answers_true_def by metis
  have idx: "\<exists>i. hs_entry H ?t corpus_fd (as_bytes INDEX_NAME) = Some i \<and> hs_bytes H ?t i = index"
    using index_between [OF assms(1,2) i1 i2] times by simp
  have at: "page_is_at E H ?t pages_fd page" "cp_name page \<in> set (map es_name signatures)" if p: "page \<in> set pages" for page
  proof -
    obtain signature a c where s: "signature \<in> set signatures" "us_now s2 \<le> us_now a" "capture_entry E pages_fd path signature a = (Inr page, c)"
      "us_now c \<le> us_now s3" using u_for_member [OF runs_capture_entry pg p] by auto
    show "page_is_at E H ?t pages_fd page"
      by (rule page_between [OF assms(1,2) o1 [rule_format, OF s(1)] o3 [rule_format, OF s(1)] s(3)]) (use s times in simp_all)
    show "cp_name page \<in> set (map es_name signatures)" using capture_entry_Inr [OF s(3)] s(1) by simp
  qed
  have all: "filter (\<lambda>signature. suffix md_suffix (es_name signature)) signatures = signatures"
  proof -
    have "\<forall>x \<in> set (map es_name signatures). suffix md_suffix x" using n(2) page_entry_suffix by auto
    then show ?thesis by (intro filter_True) auto
  qed
  have "map cp_name pages = map es_name signatures"
    using u_for_Inr [OF runs_capture_entry pg] unfolding all
    by (induction rule: list_all2_induct) (use capture_entry_Inr in auto)
  then have "set (map cp_name pages) = {n. is_page_entry n \<and> hs_entry H ?t pages_fd n \<noteq> None}"
    using n(2) listing_pages [OF assms(1) n(1)] by (metis byte_order_set)
  then have "snapshot_is_at E H ?t corpus_fd pages_fd snapshot"
    unfolding snapshot_is_at_def snap using idx at(1) by simp
  then show ?thesis using bound times by (intro exI [of _ ?t] exI [of _ pages_fd] conjI exI [of _ "us_now s6 + 1"]) auto
qed

text \<open>A suffix of ASCII bytes is a suffix of the decoded text.\<close>

lemma utf8_decode_ascii: "\<forall>b \<in> set suf. b < 0x80 \<Longrightarrow> utf8_decode suf = Some suf"
  by (induction suf) auto

lemma utf8_decode_suffix:
  assumes "\<forall>b \<in> set suf. b < 0x80"
  shows "utf8_decode (x @ suf) = Some name \<Longrightarrow> suffix suf name"
proof (induction x arbitrary: name rule: length_induct)
  case (1 x)
  have nc: "\<not> is_cont b" if "b \<in> set suf" for b using assms that by (auto simp: is_cont_def)
  have step: "\<exists>v y. name = v # y \<and> suffix suf y" if "length r < length x" "map_option (Cons v) (utf8_decode (r @ suf)) = Some name" for r v
    using 1(1) that by auto
  show ?case
  proof (cases x)
    case Nil
    then show ?thesis using 1(2) utf8_decode_ascii [OF assms] by simp
  next
    case (Cons a r)
    have n: "utf8_decode ((a # r) @ suf) = Some name" using 1(2) Cons by simp
    have "\<exists>v r'. length r' < length x \<and> map_option (Cons v) (utf8_decode (r' @ suf)) = Some name"
    proof -
      consider "a < 0x80" | "0xC2 \<le> a" "a \<le> 0xDF" | "0xE0 \<le> a" "a \<le> 0xEF" | "0xF0 \<le> a" "a \<le> 0xF4"
        using n by (fastforce split: if_splits)
      then show ?thesis
      proof cases
        case 1
        then show ?thesis using n Cons by (intro exI [of _ a] exI [of _ r]) simp
      next
        case 2
        then obtain b q where q: "r @ suf = b # q" "is_cont b" "map_option (Cons ((a - 0xC0) * 64 + (b - 0x80))) (utf8_decode q) = Some name"
          using n by (auto split: list.splits if_splits)
        with nc obtain r' where "r = b # r'" by (cases r) auto
        with q Cons show ?thesis by (intro exI exI [of _ r']) auto
      next
        case 3
        then obtain b c q v where q: "r @ suf = b # c # q" "is_cont b" "is_cont c" "map_option (Cons v) (utf8_decode q) = Some name"
          using n by (auto split: list.splits if_splits)
        with nc obtain r1 where r1: "r = b # r1" by (cases r) auto
        with q nc obtain r' where "r1 = c # r'" by (cases r1) auto
        with q Cons r1 show ?thesis by (intro exI [of _ v] exI [of _ r']) auto
      next
        case 4
        then obtain b c d q v where q: "r @ suf = b # c # d # q" "is_cont b" "is_cont c" "is_cont d" "map_option (Cons v) (utf8_decode q) = Some name"
          using n by (auto split: list.splits if_splits)
        with nc obtain r1 where r1: "r = b # r1" by (cases r) auto
        with q nc obtain r2 where r2: "r1 = c # r2" by (cases r1) auto
        with q r1 nc obtain r' where "r2 = d # r'" by (cases r2) auto
        with q Cons r1 r2 show ?thesis by (intro exI [of _ v] exI [of _ r']) auto
      qed
    qed
    then obtain v r' where "length r' < length x" "map_option (Cons v) (utf8_decode (r' @ suf)) = Some name" by blast
    from step [OF this] show ?thesis by (auto intro: suffix_ConsI)
  qed
qed

lemma page_entry_name:
  assumes "is_page_entry n" "from_utf8 n = Some name"
  shows "\<exists>slug. strip_suffix (lit ''.md'') name = Some slug"
proof -
  obtain x where x: "n = x @ md_suffix" using assms(1) by (auto simp: is_page_entry_def suffix_def)
  have m: "map unat md_suffix = lit ''.md''" by code_simp
  have a: "\<forall>b \<in> set (lit ''.md''). b < 0x80" by code_simp
  have "utf8_decode (map unat x @ lit ''.md'') = Some name" using assms(2) x m by (simp add: from_utf8_def)
  from utf8_decode_suffix [OF a this] show ?thesis by (auto simp: suffix_def strip_suffix_def)
qed

subsection \<open>The command\<close>

lemma runs_revalidate_lease: "advances (revalidate_before_commit E target)" "advances (revalidate_unisolated E u)"
  unfolding revalidate_before_commit_def revalidate_unisolated_def by (intro runs_intros)+

lemma drop_guard_time: "drop_guard E target s = (u, s') \<Longrightarrow> us_now s \<le> us_now s'"
  by (auto simp: drop_guard_def sys_logged_def)

lemma capture_wiki_instant:
  assumes "answers_true E H" "changes_show E H"
    and run: "capture_wiki_with_timeout W E corpus timeout s = Some (Inr snapshot, s')"
  shows "\<exists>t corpus_fd pages_fd. us_now s < t \<and> t < us_now s' \<and> snapshot_is_at E H t corpus_fd pages_fd snapshot
    \<and> (\<exists>t' < t. us_now s < t' \<and> hs_entry H t' corpus_fd (as_bytes PAGES_NAME) = Some pages_fd)"
proof -
  obtain lease s1 where l: "acquire_lock_with_timeout E corpus SharedMode timeout s = Some (Inr lease, s1)"
    and c: "capture_with_lease W E lease s1 = (Inr snapshot, s')"
    using run by (auto simp: capture_wiki_with_timeout_def split: option.splits prod.splits sum.splits)
  have le: "us_now s \<le> us_now s1"
    using acquire_loop_pauses [OF l [unfolded acquire_lock_eq]] by (simp add: extends_def)
  obtain cfd path isolated nt reval s2 where f: "capture_from_fd W E cfd path isolated nt reval s1 = (Inr snapshot, s2)" "us_now s2 \<le> us_now s'"
    and r: "\<And>s r s'. reval s = (r, s') \<Longrightarrow> us_now s \<le> us_now s'"
  proof (cases lease)
    case (IsolatedLease target m)
    then obtain s2 u where x: "capture_from_fd W E (pt_corpus_fd target) (pt_corpus_path target) True None (revalidate_before_commit E target) s1 = (Inr snapshot, s2)"
      "drop_guard E target s2 = (u, s')"
      using c by (auto simp: capture_with_lease_def run_iffs)
    show thesis
      by (rule that [OF x(1) drop_guard_time [OF x(2)]]) (use runsD [OF runs_revalidate_lease(1)] in blast)
  next
    case (UnisolatedLease u)
    then have x: "capture_from_fd W E (un_corpus_fd u) (un_corpus u) False (Some (isolation_note_of (un_reason u))) (revalidate_unisolated E u) s1 = (Inr snapshot, s')"
      using c by (simp add: capture_with_lease_def)
    show thesis
      by (rule that [OF x order_refl]) (use runsD [OF runs_revalidate_lease(2)] in blast)
  qed
  have "\<exists>t pages_fd. us_now s1 < t \<and> t < us_now s2 \<and> snapshot_is_at E H t cfd pages_fd snapshot
    \<and> (\<exists>t' < t. us_now s1 < t' \<and> hs_entry H t' cfd (as_bytes PAGES_NAME) = Some pages_fd)"
    by (rule capture_from_fd_instant [OF assms(1,2) _ f(1)]) (rule r)
  then obtain t pages_fd t' where
    "us_now s1 < t" "t < us_now s2" "snapshot_is_at E H t cfd pages_fd snapshot" "t' < t" "us_now s1 < t'"
    "hs_entry H t' cfd (as_bytes PAGES_NAME) = Some pages_fd" by blast
  with le f(2) show ?thesis by (intro exI [of _ t] exI [of _ cfd] exI [of _ pages_fd] conjI exI [of _ t']) auto
qed

text \<open>The wiki below two directories at one instant is sound: its index is what rebuilding it gives, and so on.\<close>

definition wiki_sound_at :: "wiki_lib \<Rightarrow> fs_history \<Rightarrow> instant \<Rightarrow> identity \<Rightarrow> identity \<Rightarrow> bool" where
  "wiki_sound_at W H t corpus_fd pages_fd =
     (\<exists>i index rows. hs_entry H t corpus_fd (as_bytes INDEX_NAME) = Some i \<and> from_utf8 (hs_bytes H t i) = Some index
        \<and> rebuild_index index rows = Inr index
        \<and> (\<forall>n p. is_page_entry n \<and> hs_entry H t pages_fd n = Some p \<longrightarrow>
             (\<exists>name slug source row. from_utf8 n = Some name \<and> strip_suffix (lit ''.md'') name = Some slug
                \<and> from_utf8 (hs_bytes H t p) = Some source \<and> page_sound W name slug source
                \<and> str_contains (lit ''(pages/'' @ name @ lit '')'') index
                \<and> index_row \<lparr> cp_name = n, cp_outcome = Present (hs_bytes H t p) \<rparr> = Some row \<and> row \<in> set rows))
        \<and> (\<forall>name \<in> set (index_links index). \<exists>n. from_utf8 n = Some name \<and> hs_entry H t pages_fd n \<noteq> None))"

lemma index_row_sound:
  assumes "page_sound W name slug source" "from_utf8 (cp_name page) = Some name" "strip_suffix (lit ''.md'') name = Some slug"
    "cp_outcome page = Present bytes" "from_utf8 bytes = Some source"
  shows "\<exists>row. index_row page = Some row"
  using render_page_of_sound [OF assms(1,3)] assms by (auto simp: index_row_def)

lemma clean_snapshot_sound:
  assumes "snapshot_is_at E H t corpus_fd pages_fd snapshot" "wr_failures (validate_wiki L snapshot) = []"
  shows "wiki_sound_at (ck_wiki L) H t corpus_fd pages_fd"
proof -
  obtain i where i: "hs_entry H t corpus_fd (as_bytes INDEX_NAME) = Some i" "hs_bytes H t i = ws_index snapshot"
    and names: "set (map cp_name (ws_pages snapshot)) = {n. is_page_entry n \<and> hs_entry H t pages_fd n \<noteq> None}"
    and pages: "\<And>page. page \<in> set (ws_pages snapshot) \<Longrightarrow> page_is_at E H t pages_fd page"
    using assms(1) unfolding snapshot_is_at_def by blast
  obtain index where x: "from_utf8 (ws_index snapshot) = Some index"
    and rb: "rebuild_index index (List.map_filter index_row (ws_pages snapshot)) = Inr index"
    and pg: "\<And>page. page \<in> set (ws_pages snapshot) \<Longrightarrow> \<exists>name. from_utf8 (cp_name page) = Some name
         \<and> str_contains (lit ''(pages/'' @ name @ lit '')'') index
         \<and> (\<forall>slug. strip_suffix (lit ''.md'') name = Some slug \<longrightarrow>
              (\<exists>bytes source. cp_outcome page = Present bytes \<and> from_utf8 bytes = Some source
                 \<and> page_sound (ck_wiki L) name slug source))"
    and lk: "\<And>name. name \<in> set (index_links index) \<Longrightarrow> \<exists>page \<in> set (ws_pages snapshot). from_utf8 (cp_name page) = Some name"
    using clean_report_facts [OF assms(2)] by blast
  have entry: "\<exists>name slug source row. from_utf8 n = Some name \<and> strip_suffix (lit ''.md'') name = Some slug
                \<and> from_utf8 (hs_bytes H t p) = Some source \<and> page_sound (ck_wiki L) name slug source
                \<and> str_contains (lit ''(pages/'' @ name @ lit '')'') index
                \<and> index_row \<lparr> cp_name = n, cp_outcome = Present (hs_bytes H t p) \<rparr> = Some row
                \<and> row \<in> set (List.map_filter index_row (ws_pages snapshot))"
    if np: "is_page_entry n" "hs_entry H t pages_fd n = Some p" for n p
  proof -
    have "n \<in> set (map cp_name (ws_pages snapshot))" unfolding names using np by simp
    then obtain page where page: "page \<in> set (ws_pages snapshot)" "cp_name page = n" by auto
    obtain name where n: "from_utf8 n = Some name" "str_contains (lit ''(pages/'' @ name @ lit '')'') index"
      and s: "\<And>slug. strip_suffix (lit ''.md'') name = Some slug \<Longrightarrow>
              (\<exists>bytes source. cp_outcome page = Present bytes \<and> from_utf8 bytes = Some source \<and> page_sound (ck_wiki L) name slug source)"
      using pg [OF page(1)] page(2) by blast
    obtain slug where slug: "strip_suffix (lit ''.md'') name = Some slug" using page_entry_name [OF np(1) n(1)] by blast
    obtain bytes source where b: "cp_outcome page = Present bytes" "from_utf8 bytes = Some source" "page_sound (ck_wiki L) name slug source"
      using s [OF slug] by blast
    have bytes: "hs_bytes H t p = bytes" using pages [OF page(1)] np(2) page(2) b(1) unfolding page_is_at_def by auto
    obtain row where row: "index_row page = Some row" using index_row_sound [OF b(3) _ slug b(1,2)] n(1) page(2) by blast
    have "page = \<lparr> cp_name = n, cp_outcome = Present bytes \<rparr>" using page(2) b(1) by simp
    moreover have "row \<in> set (List.map_filter index_row (ws_pages snapshot))" using row page(1) by (auto simp: map_filter_set)
    ultimately show ?thesis using n slug b bytes row by (intro exI [of _ name] exI [of _ slug] exI [of _ source] exI [of _ row]) auto
  qed
  have link: "\<exists>n. from_utf8 n = Some name \<and> hs_entry H t pages_fd n \<noteq> None" if l: "name \<in> set (index_links index)" for name
  proof -
    obtain page where p: "page \<in> set (ws_pages snapshot)" "from_utf8 (cp_name page) = Some name" using lk [OF l] by blast
    have "cp_name page \<in> set (map cp_name (ws_pages snapshot))" using p(1) by simp
    then show ?thesis unfolding names using p(2) by blast
  qed
  show ?thesis unfolding wiki_sound_at_def using i x rb entry link by (intro exI [of _ i] exI [of _ index] exI conjI) (simp | blast)+
qed

section \<open>Example\<close>

definition static_history :: "(identity \<times> entry_name \<times> static_node) list \<Rightarrow> fs_history" where
  "static_history names =
     \<lparr> hs_entry = (\<lambda>t d n. case static_lookup names d n of Inl _ \<Rightarrow> None | Inr node \<Rightarrow> Some (sn_id node)),
       hs_stat = (\<lambda>t i. static_stat (case static_node_of names i of Inr node \<Rightarrow> node | Inl _ \<Rightarrow> \<lparr> sn_id = i, sn_mode = 0, sn_bytes = [] \<rparr>)),
       hs_bytes = (\<lambda>t i. case static_node_of names i of Inr node \<Rightarrow> sn_bytes node | Inl _ \<Rightarrow> []) \<rparr>"

lemma static_lookup_Inr: "static_lookup names d n = Inr node \<Longrightarrow> (d, n, node) \<in> set names"
  by (auto simp: static_lookup_def find_Some_iff split: option.splits) (metis nth_mem)

lemma static_lookup_Inl: "static_lookup names d n = Inl e \<longleftrightarrow> e = ENOENT \<and> (\<forall>node. (d, n, node) \<notin> set names)"
proof (cases "find (\<lambda>(d', n', node). d' = d \<and> n' = n) names")
  case None
  then have "static_lookup names d n = Inl ENOENT" by (simp add: static_lookup_def)
  moreover have "\<forall>node. (d, n, node) \<notin> set names" using None by (auto simp: find_None_iff)
  ultimately show ?thesis by auto
next
  case (Some x)
  then obtain node where "static_lookup names d n = Inr node" by (cases x) (auto simp: static_lookup_def)
  then show ?thesis using static_lookup_Inr [of names d n node] by auto
qed

lemma static_node_of_id: "static_node_of names i = Inr node \<Longrightarrow> sn_id node = i"
  by (auto simp: static_node_of_def find_Some_iff split: option.splits)

lemma static_true:
  assumes "\<And>d n node. (d, n, node) \<in> set names \<Longrightarrow> static_node_of names (sn_id node) = Inr node \<and> n \<noteq> as_bytes (lit ''.'') \<and> n \<noteq> as_bytes (lit ''..'')"
  shows "answers_true (static_env r ri names) (static_history names)"
proof -
  have s: "hs_entry (static_history names) t d n = Some (st_id st) \<and> hs_stat (static_history names) t (st_id st) = st"
    if st: "ue_statat (static_env r ri names) t d n = Inr st" for t d n st
  proof -
    obtain node where node: "static_lookup names d n = Inr node" "st = static_stat node"
      using st by (auto simp: res_map_def split: sum.splits)
    then have "static_node_of names (sn_id node) = Inr node" using assms static_lookup_Inr by blast
    then show ?thesis using node by (simp add: static_history_def static_stat_def)
  qed
  have f: "st_id st = i \<and> hs_stat (static_history names) t i = st" if "ue_fstat (static_env r ri names) t i = Inr st" for t i st
    using that static_node_of_id by (auto simp: res_map_def static_history_def static_stat_def split: sum.splits)
  have l: "set ns - {as_bytes (lit ''.''), as_bytes (lit ''..'')} = {n. hs_entry (static_history names) t d n \<noteq> None}"
    if "ue_dir_entries (static_env r ri names) t d = map Inr ns" for t d ns
  proof -
    have "map Inr ns = map (\<lambda>n. Inr n :: (errno, entry_name) result) (map (\<lambda>(_, n, _). n) (filter (\<lambda>(d', _, _). d' = d) names))"
      using that by (simp add: comp_def case_prod_unfold)
    then have "ns = map (\<lambda>(_, n, _). n) (filter (\<lambda>(d', _, _). d' = d) names)" by (simp only: inj_map_eq_map [OF inj_Inr])
    then have ns: "set ns = {n. \<exists>node. (d, n, node) \<in> set names}" by force
    have "hs_entry (static_history names) t d n \<noteq> None \<longleftrightarrow> (\<exists>node. (d, n, node) \<in> set names)" for n
    proof (cases "static_lookup names d n")
      case (Inl e)
      then show ?thesis using static_lookup_Inl [of names d n e] by (simp add: static_history_def)
    next
      case (Inr node)
      then show ?thesis using static_lookup_Inr [OF Inr] by (auto simp: static_history_def)
    qed
    then show ?thesis unfolding ns using assms by blast
  qed
  show ?thesis unfolding answers_true_def using s f l by blast
qed

lemma static_changes: "changes_show (static_env r ri names) (static_history names)"
  by (auto simp: changes_show_def static_history_def res_map_def map_err_def split: sum.splits)

definition demo_page :: entry_name where "demo_page = as_bytes (lit ''night-mode-on.md'')"

lemma demo_page_facts: "is_page_entry demo_page" "byte_order [demo_page] = [demo_page]" "suffix md_suffix demo_page"
  by (code_simp, simp add: byte_order_def, code_simp)

lemma demo_true: "answers_true (demo_env demo_page pb ib) (static_history (demo_entries demo_page pb ib))"
proof -
  have d: "as_bytes (lit ''w'') \<noteq> as_bytes (lit ''.'')" "as_bytes (lit ''w'') \<noteq> as_bytes (lit ''..'')"
    "as_bytes LOCK_NAME \<noteq> as_bytes (lit ''.'')" "as_bytes LOCK_NAME \<noteq> as_bytes (lit ''..'')"
    "as_bytes (lit ''pages'') \<noteq> as_bytes (lit ''.'')" "as_bytes (lit ''pages'') \<noteq> as_bytes (lit ''..'')"
    "as_bytes (lit ''INDEX.md'') \<noteq> as_bytes (lit ''.'')" "as_bytes (lit ''INDEX.md'') \<noteq> as_bytes (lit ''..'')"
    "demo_page \<noteq> as_bytes (lit ''.'')" "demo_page \<noteq> as_bytes (lit ''..'')"
    by code_simp+
  have n: "(d', n, node) \<in> set (demo_entries demo_page pb ib) \<Longrightarrow>
      static_node_of (demo_entries demo_page pb ib) (sn_id node) = Inr node \<and> n \<noteq> as_bytes (lit ''.'') \<and> n \<noteq> as_bytes (lit ''..'')" for d' n node
    unfolding demo_entries_def using d
    by (elim set_ConsD [THEN disjE] | simp add: static_node_of_def)+
  show ?thesis unfolding demo_env_def by (rule static_true) (rule n)
qed

definition demo_state :: "nat \<Rightarrow> 32 word \<Rightarrow> file_type \<Rightarrow> u8 list \<Rightarrow> node_state" where
  "demo_state i mode kind bytes = \<lparr> ns_id = demo_id i, ns_mode = mode, ns_kind = kind, ns_nlink = 1, ns_size = length bytes, ns_modified_ns = 0, ns_changed_ns = 0 \<rparr>"

lemmas demo_run = u_then_def u_try_def u_map_err_def sys_def u_return_def map_err_def res_map_def named_state_def descriptor_state_def
  demo_env_def node_state_of_def static_stat_def timestamp_ns_def

lemma demo_open_pages:
  "open_pages (demo_env demo_page pb ib) (demo_id 10) path s = (Inr (demo_id 12, demo_state 12 0x41ED IsDir []), s\<lparr> us_now := us_now s + 3 \<rparr>)"
  by (simp add: open_pages_def demo_run PAGES_NAME_def demo_state_def Let_def)

lemma demo_listing: "ue_dir_entries (demo_env demo_page pb ib) t (demo_id 12) = [Inr demo_page]"
  by (simp add: demo_env_def demo_entries_def)

lemma demo_enumerate:
  "enumerate_pages (demo_env demo_page pb ib) (demo_id 12) path s
     = (Inr [\<lparr> es_name = demo_page, es_state = demo_state 14 0x81A4 IsFile pb \<rparr>], s\<lparr> us_now := us_now s + 3 \<rparr>)"
  by (simp add: enumerate_pages_def sys_def u_try_def u_map_err_def map_err_def demo_listing read_names_def demo_page_facts res_map_def)
    (simp add: demo_run demo_state_def demo_page_facts)

lemma demo_entry:
  "capture_entry (demo_env demo_page pb ib) (demo_id 12) path \<lparr> es_name = demo_page, es_state = demo_state 14 0x81A4 IsFile pb \<rparr> s
     = (Inr \<lparr> cp_name = demo_page, cp_outcome = Present pb \<rparr>, s\<lparr> us_now := us_now s + 5 \<rparr>)"
  by (simp add: capture_entry_def capture_page_def page_read_done_def demo_run demo_state_def raced_def)

lemma demo_verify:
  "verify_directory_binding (demo_env demo_page pb ib) (demo_id 10) (as_bytes PAGES_NAME) (demo_id 12) (demo_state 12 0x41ED IsDir []) path s
     = (Inr (), s\<lparr> us_now := us_now s + 2 \<rparr>)"
  by (simp add: verify_directory_binding_def demo_run demo_state_def raced_def PAGES_NAME_def)

lemma demo_index:
  "capture_index W (demo_env demo_page pb ib) (demo_id 10) path s
     = (Inr (ib, demo_state 13 0x81A4 IsFile ib, wl_sha256_hex W ib), s\<lparr> us_now := us_now s + 6 \<rparr>)"
  by (simp add: capture_index_def demo_run demo_state_def raced_def INDEX_NAME_def Let_def)

definition demo_snapshot :: "u8 list \<Rightarrow> u8 list \<Rightarrow> wiki_snapshot" where
  "demo_snapshot pb ib = \<lparr> ws_corpus = lit ''/w'', ws_index = ib, ws_pages = [\<lparr> cp_name = demo_page, cp_outcome = Present pb \<rparr>],
     ws_isolated = True, ws_isolation_note = None \<rparr>"

lemma demo_capture:
  "\<exists>s'. capture_wiki_with_timeout W (demo_env demo_page pb ib) (lit ''/w'') LOCK_TIMEOUT start_state = Some (Inr (demo_snapshot pb ib), s')"
proof -
  have t: "pt_corpus_fd demo_target = demo_id 10" "pt_corpus_path demo_target = lit ''/w''" by (simp_all add: demo_target_def)
  have again: "enumerate_again (demo_env demo_page pb ib) (demo_id 12) path [\<lparr> es_name = demo_page, es_state = demo_state 14 0x81A4 IsFile pb \<rparr>] s
      = (Inr (), s\<lparr> us_now := us_now s + 3 \<rparr>)" for path s
    by (simp add: enumerate_again_def u_try_def demo_enumerate u_return_def)
  have "\<exists>s'. capture_from_fd W (demo_env demo_page pb ib) (demo_id 10) (lit ''/w'') True None (revalidate_before_commit (demo_env demo_page pb ib) demo_target) s
      = (Inr (demo_snapshot pb ib), s')" for s
    by (simp add: capture_from_fd_def Let_def u_try_def demo_open_pages demo_enumerate demo_page_facts demo_entry demo_verify again demo_index
      u_return_def u_map_err_def revalidate_before_commit_def demo_revalidate_target demo_snapshot_def map_err_def)
  then obtain s1 where c: "capture_from_fd W (demo_env demo_page pb ib) (demo_id 10) (lit ''/w'') True None
      (revalidate_before_commit (demo_env demo_page pb ib) demo_target)
      \<lparr> us_now = 21, us_log = [(12, Flocked (demo_id 11) NonBlockingLockShared)] \<rparr> = (Inr (demo_snapshot pb ib), s1)" by blast
  obtain s2 where d: "drop_guard (demo_env demo_page pb ib) demo_target s1 = ((), s2)" by (cases "drop_guard (demo_env demo_page pb ib) demo_target s1") auto
  show ?thesis
    by (simp add: capture_wiki_with_timeout_def demo_acquire capture_with_lease_def t u_then_def c d u_return_def)
qed

section \<open>Properties\<close>




definition demo_metadata :: file_system where
  "demo_metadata =
     \<lparr> fs_symlink_metadata = (\<lambda>p. Inl \<lparr> fe_kind = NotFoundKind, fe_text = [] \<rparr>),
       fs_metadata = (\<lambda>p. Inr \<lparr> md_type = (if p = lit ''/w/pages'' then IsDir else IsFile), md_dev = 0, md_ino = 0 \<rparr>),
       fs_read_link = (\<lambda>p. Inl \<lparr> fe_kind = NotFoundKind, fe_text = [] \<rparr>), fs_canonicalize = (\<lambda>p. Inr p), fs_read_dir = (\<lambda>p. Inr []) \<rparr>"


end
