(* ===== verification/Corpus.thy ===== *)
theory Corpus
  imports Rust_PathBuf Yams_Prelude
begin

text \<open>
  Discovery of the project root and of the corpora (\<open>crates/yams-core/src/corpus.rs\<close>): candidates are
  resolved, confined to a base and pinned by device and inode. The file system is the record
  \<open>file_system\<close>; \<open>fs_canonical\<close> states what \<open>canonicalize\<close> documents. Paths are UTF-8 text, so
  the branches for other paths are not reached.
\<close>

section \<open>Model\<close>

datatype corpus_kind = SharedCorpus | PrivateCorpus | OverrideCorpus

record discovery =
  dv_home :: "ustr option"
  dv_override_dirs :: "ustr list"
  dv_known_roots :: "ustr list"

record node_identity =
  ni_device :: nat
  ni_inode :: nat

definition identity_of :: "fs_metadata \<Rightarrow> node_identity" where
  "identity_of md = \<lparr> ni_device = md_dev md, ni_inode = md_ino md \<rparr>"

record corpus_validation =
  cv_base :: ustr
  cv_relative :: ustr
  cv_expected_base :: node_identity
  cv_expected_root :: node_identity

record corpus =
  co_path :: ustr
  co_kind :: corpus_kind
  co_validation :: corpus_validation

datatype note_kind = EscapesBaseNote | UnreadableNote | NotDirectoryNote | RelativeOverrideNote | InvalidPathNote
  | PrivateSlugCollisionNote

record discovery_note =
  dn_path :: ustr
  dn_kind :: note_kind
  dn_detail :: ustr

record discovery_report =
  dr_corpora :: "corpus list"
  dr_notes :: "discovery_note list"

datatype discovery_error =
  Canonicalize ustr fs_error | Inspect ustr fs_error | NotDirectory ustr | EscapesBase corpus_kind ustr ustr ustr

fun kind_debug :: "corpus_kind \<Rightarrow> ustr" where
  "kind_debug SharedCorpus = lit ''Shared''"
| "kind_debug PrivateCorpus = lit ''Private''"
| "kind_debug OverrideCorpus = lit ''Override''"

fun discovery_error_text :: "discovery_error \<Rightarrow> ustr" where
  "discovery_error_text (Canonicalize path e) = lit ''cannot resolve '' @ path @ lit '': '' @ fe_text e"
| "discovery_error_text (Inspect path e) = lit ''cannot inspect '' @ path @ lit '': '' @ fe_text e"
| "discovery_error_text (NotDirectory path) = lit ''corpus path is not a directory: '' @ path"
| "discovery_error_text (EscapesBase kind path resolved base) =
     kind_debug kind @ lit '' corpus '' @ path @ lit '' resolves to '' @ resolved @ lit '', which is outside its base '' @ base"

definition canonical_directory :: "file_system \<Rightarrow> ustr \<Rightarrow> (discovery_error, ustr) result" where
  "canonical_directory fs path =
     res_bind (map_err (Canonicalize path) (fs_canonicalize fs path)) (\<lambda>canonical.
     res_bind (map_err (Inspect canonical) (fs_metadata fs canonical)) (\<lambda>md.
     if md_type md \<noteq> IsDir then Inl (NotDirectory path) else Inr canonical))"

subsection \<open>The project root\<close>

fun root_search :: "file_system \<Rightarrow> ustr \<Rightarrow> ustr list \<Rightarrow> (discovery_error, ustr) result" where
  "root_search fs cwd [] = Inr cwd"
| "root_search fs cwd (ancestor # rest) =
     (let marker = path_join ancestor (lit ''.git'')
      in case fs_metadata fs marker of
        Inr md \<Rightarrow> if md_type md = IsFile \<or> md_type md = IsDir then canonical_directory fs ancestor
                  else root_search fs cwd rest
      | Inl e \<Rightarrow> if fe_kind e = NotFoundKind then root_search fs cwd rest else Inl (Inspect marker e))"

definition project_root :: "file_system \<Rightarrow> ustr option \<Rightarrow> ustr \<Rightarrow> (discovery_error, ustr) result" where
  "project_root fs explicit cwd =
     (case explicit of
        Some e \<Rightarrow> canonical_directory fs (if is_absolute e then e else path_join cwd e)
      | None \<Rightarrow> res_bind (canonical_directory fs cwd) (\<lambda>canonical_cwd.
          root_search fs canonical_cwd (ancestors canonical_cwd)))"

subsection \<open>Corpora\<close>

definition is_filesystem_root :: "ustr \<Rightarrow> bool" where
  "is_filesystem_root path = (case path_parent path of None \<Rightarrow> True | Some parent \<Rightarrow> parent = [])"

definition safe_relative :: "ustr \<Rightarrow> ustr \<Rightarrow> ustr option" where
  "safe_relative path base =
     (case strip_prefix_path path base of
        None \<Rightarrow> None
      | Some relative \<Rightarrow> if list_all (\<lambda>c. case c of Normal _ \<Rightarrow> True | _ \<Rightarrow> False) (components relative)
                          then Some relative else None)"

definition missing_default_error :: "fs_error \<Rightarrow> bool" where
  "missing_default_error e = (fe_kind e = NotFoundKind \<or> fe_kind e = InvalidFilenameKind)"

definition validated_corpus ::
  "file_system \<Rightarrow> ustr \<Rightarrow> ustr \<Rightarrow> corpus_kind \<Rightarrow> (discovery_error, corpus) result" where
  "validated_corpus fs canonical canonical_base kind =
     (if \<not> starts_with_path canonical canonical_base then Inl (EscapesBase kind canonical canonical canonical_base)
      else res_bind (ok_or (EscapesBase kind canonical canonical canonical_base) (safe_relative canonical canonical_base)) (\<lambda>relative.
      res_bind (map_err (Inspect canonical_base) (fs_metadata fs canonical_base)) (\<lambda>base_metadata.
      res_bind (map_err (Inspect canonical) (fs_metadata fs canonical)) (\<lambda>root_metadata.
      Inr \<lparr> co_path = canonical, co_kind = kind, co_validation =
        \<lparr> cv_base = canonical_base, cv_relative = relative, cv_expected_base = identity_of base_metadata,
          cv_expected_root = identity_of root_metadata \<rparr> \<rparr>))))"

definition corpus_validated :: "file_system \<Rightarrow> ustr \<Rightarrow> corpus_kind \<Rightarrow> (discovery_error, corpus) result" where
  "corpus_validated fs path kind =
     res_bind (canonical_directory fs path) (\<lambda>canonical.
     let base = (case path_parent canonical of None \<Rightarrow> canonical | Some parent \<Rightarrow> parent)
     in res_bind (canonical_directory fs base) (\<lambda>canonical_base. validated_corpus fs canonical canonical_base kind))"

type_synonym discovery_state = "discovery_report \<times> ustr list"

definition add_note :: "discovery_state \<Rightarrow> ustr \<Rightarrow> note_kind \<Rightarrow> ustr \<Rightarrow> discovery_state" where
  "add_note st path kind detail =
     (case st of (report, seen) \<Rightarrow>
        (report\<lparr> dr_notes := dr_notes report @ [\<lparr> dn_path = path, dn_kind = kind, dn_detail = detail \<rparr>] \<rparr>, seen))"

text \<open>The end of \<open>discover_candidate\<close>: confinement, duplicates, and the pinned corpus.\<close>

definition pin_candidate ::
  "file_system \<Rightarrow> ustr \<Rightarrow> corpus_kind \<Rightarrow> ustr \<Rightarrow> ustr \<Rightarrow> fs_metadata \<Rightarrow> discovery_state \<Rightarrow> discovery_state" where
  "pin_candidate fs candidate_path kind canonical base root_metadata st =
     (case canonical_directory fs base of
        Inl e \<Rightarrow> add_note st candidate_path UnreadableNote
          (lit ''cannot validate confinement base '' @ base @ lit '': '' @ discovery_error_text e)
      | Inr canonical_base \<Rightarrow>
          if (path_eq canonical canonical_base \<and> kind \<noteq> OverrideCorpus) \<or> \<not> starts_with_path canonical canonical_base
          then add_note st candidate_path EscapesBaseNote
            (lit ''corpus resolves to '' @ canonical @ lit '', outside confinement base '' @ canonical_base)
          else if list_ex (path_eq canonical) (snd st) then st
          else let st = (fst st, canonical # snd st)
          in case fs_metadata fs canonical_base of
            Inl e \<Rightarrow> add_note st candidate_path UnreadableNote (lit ''cannot pin confinement base: '' @ fe_text e)
          | Inr base_metadata \<Rightarrow>
              (case safe_relative canonical canonical_base of
                 None \<Rightarrow> add_note st candidate_path InvalidPathNote (lit ''resolved corpus has an unsafe relative path'')
               | Some relative \<Rightarrow>
                   ((fst st)\<lparr> dr_corpora := dr_corpora (fst st) @
                     [\<lparr> co_path = canonical, co_kind = kind, co_validation =
                         \<lparr> cv_base = canonical_base, cv_relative = relative,
                           cv_expected_base = identity_of base_metadata, cv_expected_root = identity_of root_metadata \<rparr> \<rparr>] \<rparr>,
                    snd st)))"

text \<open>An override that is a link has to stay strictly below the directory it is configured in.\<close>

definition override_link_check :: "file_system \<Rightarrow> ustr \<Rightarrow> ustr \<Rightarrow> (note_kind \<times> ustr) option" where
  "override_link_check fs candidate_path canonical =
     (case path_parent candidate_path of
        None \<Rightarrow> Some (EscapesBaseNote, lit ''override symlink has no confinement parent'')
      | Some configured_parent \<Rightarrow>
          (case canonical_directory fs configured_parent of
             Inr parent \<Rightarrow>
               if starts_with_path canonical parent \<and> \<not> path_eq canonical parent then None
               else Some (EscapesBaseNote, lit ''override symlink resolves to '' @ canonical
                      @ lit '', outside configured parent '' @ parent)
           | Inl e \<Rightarrow> Some (UnreadableNote, lit ''cannot resolve configured override parent: '' @ discovery_error_text e)))"

definition place_candidate ::
  "file_system \<Rightarrow> ustr \<Rightarrow> ustr option \<Rightarrow> corpus_kind \<Rightarrow> fs_metadata \<Rightarrow> ustr \<Rightarrow> fs_metadata \<Rightarrow> discovery_state \<Rightarrow> discovery_state" where
  "place_candidate fs candidate_path strict_base kind named canonical root_metadata st =
     (if kind = OverrideCorpus \<and> is_filesystem_root canonical
      then add_note st candidate_path EscapesBaseNote (lit ''override corpus cannot be the filesystem root'')
      else case (if kind = OverrideCorpus \<and> md_type named = IsSymlink
                 then override_link_check fs candidate_path canonical else None) of
        Some (note, detail) \<Rightarrow> add_note st candidate_path note detail
      | None \<Rightarrow>
          (case (if kind = OverrideCorpus then Some canonical else strict_base) of
             None \<Rightarrow> add_note st candidate_path InvalidPathNote (lit ''corpus path has no confinement parent'')
           | Some base \<Rightarrow> pin_candidate fs candidate_path kind canonical base root_metadata st))"

definition discover_candidate ::
  "file_system \<Rightarrow> ustr \<Rightarrow> ustr option \<Rightarrow> corpus_kind \<Rightarrow> bool \<Rightarrow> discovery_state \<Rightarrow> discovery_state" where
  "discover_candidate fs candidate_path strict_base kind missing_is_quiet st =
     (case fs_symlink_metadata fs candidate_path of
        Inl e \<Rightarrow> if missing_is_quiet \<and> missing_default_error e then st
                  else add_note st candidate_path UnreadableNote (lit ''cannot inspect corpus path: '' @ fe_text e)
      | Inr named \<Rightarrow>
          if md_type named \<noteq> IsDir \<and> md_type named \<noteq> IsSymlink
          then add_note st candidate_path NotDirectoryNote (lit ''corpus path is not a directory'')
          else (case fs_canonicalize fs candidate_path of
            Inl e \<Rightarrow> add_note st candidate_path UnreadableNote (lit ''cannot resolve corpus path: '' @ fe_text e)
          | Inr canonical \<Rightarrow>
              (case fs_metadata fs canonical of
                 Inl e \<Rightarrow> add_note st candidate_path UnreadableNote
                   (lit ''cannot inspect resolved corpus '' @ canonical @ lit '': '' @ fe_text e)
               | Inr root_metadata \<Rightarrow>
                   if md_type root_metadata \<noteq> IsDir
                   then add_note st candidate_path NotDirectoryNote (lit ''corpus resolves to non-directory '' @ canonical)
                   else place_candidate fs candidate_path strict_base kind named canonical root_metadata st)))"

subsection \<open>Private corpora\<close>

definition claude_slug_text :: "ustr \<Rightarrow> ustr" where
  "claude_slug_text s = map (\<lambda>c. if is_ascii_alphanumeric c then c else 45) s"

definition claude_private_slug :: "ustr \<Rightarrow> ustr option" where
  "claude_private_slug path = Some (claude_slug_text path)"

definition insert_path :: "ustr \<Rightarrow> ustr list \<Rightarrow> ustr list" where
  "insert_path p ps = (if list_ex (path_eq p) ps then ps else ps @ [p])"

definition sibling_collision ::
  "file_system \<Rightarrow> ustr \<Rightarrow> ustr \<Rightarrow> ustr \<Rightarrow> ustr list \<Rightarrow> (fs_error, dir_entry) result \<Rightarrow> ustr list" where
  "sibling_collision fs root parent name collisions entry =
     (case entry of
        Inl _ \<Rightarrow> collisions
      | Inr e \<Rightarrow>
          if de_name e = name \<or> claude_slug_text (de_name e) \<noteq> claude_slug_text name then collisions
          else (case de_metadata e of
            Inl _ \<Rightarrow> collisions
          | Inr md \<Rightarrow>
              if md_type md \<noteq> IsDir then collisions
              else (case fs_canonicalize fs (path_join parent (de_name e)) of
                Inl _ \<Rightarrow> collisions
              | Inr canonical \<Rightarrow> if path_eq canonical root then collisions else insert_path canonical collisions)))"

definition known_collision :: "file_system \<Rightarrow> ustr \<Rightarrow> ustr \<Rightarrow> ustr list \<Rightarrow> ustr \<Rightarrow> ustr list" where
  "known_collision fs root slug collisions other =
     (case fs_canonicalize fs other of
        Inl _ \<Rightarrow> collisions
      | Inr canonical \<Rightarrow>
          if path_eq canonical root then collisions
          else if claude_private_slug canonical = Some slug then insert_path canonical collisions else collisions)"

definition colliding_private_roots :: "file_system \<Rightarrow> ustr \<Rightarrow> ustr list \<Rightarrow> ustr list" where
  "colliding_private_roots fs root known_roots =
     (case claude_private_slug root of
        None \<Rightarrow> []
      | Some slug \<Rightarrow>
          let siblings = (case (path_parent root, file_name root) of
                (Some parent, Some name) \<Rightarrow>
                  (case fs_read_dir fs parent of
                     Inr entries \<Rightarrow> foldl (sibling_collision fs root parent name) [] entries
                   | Inl _ \<Rightarrow> [])
              | _ \<Rightarrow> [])
          in sort_by path_cmp (foldl (known_collision fs root slug) siblings known_roots))"

definition discover_override :: "file_system \<Rightarrow> discovery_state \<Rightarrow> ustr \<Rightarrow> discovery_state" where
  "discover_override fs st configured =
     (if \<not> is_absolute configured
      then add_note st configured RelativeOverrideNote (lit ''override corpus paths must be absolute'')
      else discover_candidate fs configured None OverrideCorpus False st)"

definition discover_private :: "file_system \<Rightarrow> ustr \<Rightarrow> ustr \<Rightarrow> ustr list \<Rightarrow> discovery_state \<Rightarrow> discovery_state" where
  "discover_private fs canonical_root home known_roots st =
     (case claude_private_slug canonical_root of
        None \<Rightarrow> add_note st canonical_root InvalidPathNote (lit ''Claude private-memory discovery requires a UTF-8 project root'')
      | Some slug \<Rightarrow>
          let base = path_join (path_join home (lit ''.claude/projects'')) slug;
              private = path_join base (lit ''memory'');
              collisions = colliding_private_roots fs canonical_root known_roots
          in if collisions = [] then discover_candidate fs private (Some base) PrivateCorpus True st
             else add_note st private PrivateSlugCollisionNote
               (lit ''Claude private slug is shared with '' @ join (lit '', '') collisions))"

definition discover_corpora :: "file_system \<Rightarrow> ustr \<Rightarrow> discovery \<Rightarrow> (discovery_error, discovery_report) result" where
  "discover_corpora fs root d =
     res_bind (canonical_directory fs root) (\<lambda>canonical_root.
     let st = (\<lparr> dr_corpora = [], dr_notes = [] \<rparr>, [])
     in if dv_override_dirs d \<noteq> []
        then Inr (fst (foldl (discover_override fs) st (dv_override_dirs d)))
        else let st = discover_candidate fs (path_join canonical_root (lit ''.agents/memory'')) (Some canonical_root)
                   SharedCorpus True st
             in Inr (fst (case dv_home d of None \<Rightarrow> st
                          | Some home \<Rightarrow> discover_private fs canonical_root home (dv_known_roots d) st)))"

definition corpora_for :: "file_system \<Rightarrow> ustr \<Rightarrow> discovery \<Rightarrow> (discovery_error, corpus list) result" where
  "corpora_for fs root d = res_map dr_corpora (discover_corpora fs root d)"

text \<open>
  What is documented of \<open>canonicalize\<close>: the result is absolute without links, dots or repeated
  separators, and such a path that exists is its own canonical path.
\<close>

definition fs_canonical :: "file_system \<Rightarrow> bool" where
  "fs_canonical fs = (\<forall>p q. fs_canonicalize fs p = Inr q \<longrightarrow> canonical_path q \<and> fs_canonicalize fs q = Inr q)"

subsection \<open>Specification\<close>

text \<open>A canonical path below another one, and what a discovered corpus satisfies.\<close>

definition below :: "ustr \<Rightarrow> ustr list \<Rightarrow> ustr \<Rightarrow> bool" where
  "below base rs path = (\<exists>bs. list_all proper_name bs \<and> list_all proper_name rs \<and> base = abs_path bs \<and> path = abs_path (bs @ rs))"

definition confined :: "corpus \<Rightarrow> bool" where
  "confined c = (\<exists>rs. below (cv_base (co_validation c)) rs (co_path c) \<and> cv_relative (co_validation c) = join [slash] rs
     \<and> (rs = [] \<longleftrightarrow> co_kind c = OverrideCorpus))"

definition pinned :: "file_system \<Rightarrow> corpus \<Rightarrow> bool" where
  "pinned fs c = (\<exists>base root. fs_metadata fs (cv_base (co_validation c)) = Inr base \<and> fs_metadata fs (co_path c) = Inr root
     \<and> md_type base = IsDir \<and> md_type root = IsDir
     \<and> cv_expected_base (co_validation c) = identity_of base \<and> cv_expected_root (co_validation c) = identity_of root)"

text \<open>An override named by a link stays strictly below the directory it is configured in.\<close>

definition link_inside :: "file_system \<Rightarrow> ustr \<Rightarrow> ustr \<Rightarrow> bool" where
  "link_inside fs configured path =
     (\<forall>md. fs_symlink_metadata fs configured = Inr md \<longrightarrow> md_type md = IsSymlink \<longrightarrow>
        (\<exists>parent rs base. path_parent configured = Some parent \<and> canonical_directory fs parent = Inr base
           \<and> below base rs path \<and> rs \<noteq> []))"

inductive candidate_step ::
  "file_system \<Rightarrow> ustr \<Rightarrow> ustr option \<Rightarrow> corpus_kind \<Rightarrow> bool \<Rightarrow> discovery_state \<Rightarrow> discovery_state \<Rightarrow> bool"
  for fs configured base kind quiet where
  noted: "dn_path n = configured \<Longrightarrow>
    candidate_step fs configured base kind quiet (r, s) (r\<lparr> dr_notes := dr_notes r @ [n] \<rparr>, s)"
| missing: "quiet \<Longrightarrow> candidate_step fs configured base kind quiet st st"
| again: "fs_canonicalize fs configured = Inr p \<Longrightarrow> p \<in> set s \<Longrightarrow> candidate_step fs configured base kind quiet (r, s) (r, s)"
| found: "fs_canonicalize fs configured = Inr (co_path c) \<Longrightarrow> co_path c \<notin> set s \<Longrightarrow> co_kind c = kind
    \<Longrightarrow> confined c \<Longrightarrow> pinned fs c
    \<Longrightarrow> (kind = OverrideCorpus \<Longrightarrow> co_path c \<noteq> abs_path [] \<and> link_inside fs configured (co_path c))
    \<Longrightarrow> (kind \<noteq> OverrideCorpus \<Longrightarrow> \<exists>b. base = Some b \<and> canonical_directory fs b = Inr (cv_base (co_validation c)))
    \<Longrightarrow> candidate_step fs configured base kind quiet (r, s) (r\<lparr> dr_corpora := dr_corpora r @ [c] \<rparr>, co_path c # s)"

section \<open>Lemmas\<close>

lemma add_note_step: "candidate_step fs configured base kind quiet st (add_note st configured note detail)"
  using noted [of "\<lparr> dn_path = configured, dn_kind = note, dn_detail = detail \<rparr>" configured fs base kind quiet "fst st" "snd st"]
  by (cases st) (simp add: add_note_def)

lemma add_note_keeps [simp]:
  "dr_corpora (fst (add_note st path kind detail)) = dr_corpora (fst st)" "snd (add_note st path kind detail) = snd st"
  by (simp_all add: add_note_def split: prod.split)

lemma canonical_directory_Inr:
  assumes "fs_canonical fs" "canonical_directory fs path = Inr p"
  shows "fs_canonicalize fs path = Inr p" "canonical_path p" "fs_canonicalize fs p = Inr p"
    "\<exists>md. fs_metadata fs p = Inr md \<and> md_type md = IsDir"
  using assms by (auto simp: canonical_directory_def fs_canonical_def res_bind_Inr_iff split: if_splits)

lemma starts_with_below:
  assumes "canonical_path p" "canonical_path base" "starts_with_path p base"
  shows "\<exists>rs. below base rs p"
proof -
  obtain ns bs where ns: "list_all proper_name ns" "p = abs_path ns" and bs: "list_all proper_name bs" "base = abs_path bs"
    using assms(1,2) by (auto simp: canonical_path_def)
  then have "prefix (map Normal bs) (map Normal ns)"
    using assms(3) by (simp add: starts_with_path_def components_abs_path)
  then obtain zs where "map Normal ns = map Normal bs @ zs" by (auto simp: prefix_def)
  then have "bs = take (length bs) ns"
    by (metis append_eq_conv_conj component.inject inj_def inj_map_eq_map length_map take_map)
  then obtain rs where "ns = bs @ rs" by (metis append_take_drop_id)
  with ns bs have "below base rs p" by (auto simp: below_def intro!: exI [of _ bs])
  then show ?thesis by blast
qed

lemma below_facts:
  assumes "below base rs p"
  shows "canonical_path p" "canonical_path base" "starts_with_path p base" "rs = [] \<longleftrightarrow> p = base"
    "strip_prefix_path p base = Some (join [slash] rs)"
proof -
  obtain bs where b: "list_all proper_name bs" "list_all proper_name rs" "base = abs_path bs" "p = abs_path (bs @ rs)"
    using assms by (auto simp: below_def)
  then show "canonical_path p" "canonical_path base" by (auto simp: canonical_path_def intro: exI [of _ "bs @ rs"])
  show s: "starts_with_path p base" using b by (simp add: starts_with_path_def components_abs_path)
  show "rs = [] \<longleftrightarrow> p = base" using b abs_path_inject [of "bs @ rs" bs] by auto
  have "collect_path (map Normal rs) = join [slash] rs"
    by (cases rs) (simp_all add: collect_path_def comp_def)
  then show "strip_prefix_path p base = Some (join [slash] rs)"
    using s b by (simp add: strip_prefix_path_def components_abs_path)
qed

lemma components_relative:
  assumes "list_all proper_name rs"
  shows "components (join [slash] rs) = map Normal rs"
proof (cases "rs = []")
  case False
  then obtain n ms where rs: "rs = n # ms" by (cases rs) auto
  have split: "split_on slash (join [slash] rs) = rs"
    using assms False by (intro split_on_join) (auto simp: list_all_iff proper_name_def)
  have n: "n \<noteq> []" "slash \<notin> set n" "n \<noteq> [dot]"
    using assms rs by (auto simp: proper_name_def)
  then obtain c t where ct: "join [slash] rs = c # t" "c \<noteq> slash"
    using rs by (cases n; cases ms) auto
  have "components (join [slash] rs) = (if hd rs = [dot] then [CurDir] else []) @ body_components rs"
    unfolding components_def ct(1) using split ct by simp
  then show ?thesis using assms n rs by (simp add: body_components_Normal list_all_iff proper_name_def)
qed (simp add: components_def)

lemma safe_relative_below: "below base rs p \<Longrightarrow> safe_relative p base = Some (join [slash] rs)"
  using below_facts(5) [of base rs p] by (auto simp: safe_relative_def below_def components_relative list_all_iff)

lemma pin_candidate_step:
  assumes fs: "fs_canonical fs" and seen: "\<forall>p \<in> set (snd st). canonical_path p"
    and can: "fs_canonicalize fs configured = Inr canonical"
    and root: "fs_metadata fs canonical = Inr root" "md_type root = IsDir"
    and b: "b = (if kind = OverrideCorpus then canonical else b)" "kind \<noteq> OverrideCorpus \<Longrightarrow> base = Some b"
    and over: "kind = OverrideCorpus \<Longrightarrow> canonical \<noteq> abs_path [] \<and> link_inside fs configured canonical"
  shows "candidate_step fs configured base kind quiet st (pin_candidate fs configured kind canonical b root st)"
proof (cases "canonical_directory fs b")
  case (Inl e)
  then show ?thesis by (simp add: pin_candidate_def add_note_step)
next
  case (Inr cb)
  note d = canonical_directory_Inr [OF fs Inr]
  obtain bmd where bmd: "fs_metadata fs cb = Inr bmd" "md_type bmd = IsDir" using d(4) by auto
  have cc: "canonical_path canonical" "fs_canonicalize fs canonical = Inr canonical"
    using fs can by (auto simp: fs_canonical_def)
  have eq: "path_eq canonical p \<longleftrightarrow> canonical = p" if "canonical_path p" for p
    using path_eq_canonical [OF cc(1) that] .
  show ?thesis
  proof (cases "(path_eq canonical cb \<and> kind \<noteq> OverrideCorpus) \<or> \<not> starts_with_path canonical cb")
    case True
    then show ?thesis by (simp only: pin_candidate_def Inr sum.case if_True add_note_step)
  next
    case False
    obtain rs where rs: "below cb rs canonical" using starts_with_below [OF cc(1) d(2)] False by auto
    have kind: "rs = [] \<longleftrightarrow> kind = OverrideCorpus"
    proof (cases "kind = OverrideCorpus")
      case True
      then have "cb = canonical" using b(1) d(1) cc(2) by simp
      then show ?thesis using below_facts(4) [OF rs] True by simp
    next
      case False': False
      then show ?thesis using below_facts(4) [OF rs] False eq [OF d(2)] by simp
    qed
    show ?thesis
    proof (cases "canonical \<in> set (snd st)")
      case True
      then have "list_ex (path_eq canonical) (snd st)" using eq seen by (auto simp: list_ex_iff)
      then have "pin_candidate fs configured kind canonical b root st = st"
        using False by (auto simp: pin_candidate_def Inr)
      then show ?thesis using again [OF can True, of base kind quiet "fst st"] by simp
    next
      case new: False
      then have n: "\<not> list_ex (path_eq canonical) (snd st)" using eq seen by (auto simp: list_ex_iff)
      define c where "c = \<lparr> co_path = canonical, co_kind = kind, co_validation =
          \<lparr> cv_base = cb, cv_relative = join [slash] rs, cv_expected_base = identity_of bmd, cv_expected_root = identity_of root \<rparr> \<rparr>"
      have "confined c" unfolding confined_def using rs kind by (auto simp: c_def)
      moreover have "pinned fs c" using bmd root by (simp add: pinned_def c_def)
      ultimately have "candidate_step fs configured base kind quiet (fst st, snd st)
          ((fst st)\<lparr> dr_corpora := dr_corpora (fst st) @ [c] \<rparr>, co_path c # snd st)"
        using new can over b(2) Inr by (intro found) (auto simp: c_def)
      moreover have "pin_candidate fs configured kind canonical b root st =
          ((fst st)\<lparr> dr_corpora := dr_corpora (fst st) @ [c] \<rparr>, co_path c # snd st)"
        using False n bmd by (auto simp: pin_candidate_def Inr c_def safe_relative_below [OF rs])
      ultimately show ?thesis by simp
    qed
  qed
qed


lemma canonical_root_root: "canonical_path p \<Longrightarrow> \<not> is_filesystem_root p \<Longrightarrow> p \<noteq> abs_path []"
  by (auto simp: is_filesystem_root_def path_parent_root)

lemma override_link_check_None:
  assumes fs: "fs_canonical fs" and can: "canonical_path canonical" and n: "override_link_check fs configured canonical = None"
  shows "link_inside fs configured canonical"
proof -
  obtain parent p where p: "path_parent configured = Some parent" "canonical_directory fs parent = Inr p"
    "starts_with_path canonical p" "\<not> path_eq canonical p"
    using n by (auto simp: override_link_check_def split: option.splits sum.splits if_splits)
  note cp = canonical_directory_Inr(2) [OF fs p(2)]
  obtain rs where rs: "below p rs canonical" using starts_with_below [OF can cp p(3)] by auto
  moreover have "rs \<noteq> []" using below_facts(4) [OF rs] p(4) path_eq_canonical [OF can cp] by simp
  ultimately show ?thesis using p(1,2) unfolding link_inside_def by blast
qed

lemma place_candidate_step:
  assumes fs: "fs_canonical fs" and seen: "\<forall>p \<in> set (snd st). canonical_path p"
    and can: "fs_canonicalize fs configured = Inr canonical"
    and root: "fs_metadata fs canonical = Inr root" "md_type root = IsDir"
    and named: "fs_symlink_metadata fs configured = Inr named"
  shows "candidate_step fs configured base kind quiet st (place_candidate fs configured base kind named canonical root st)"
proof -
  have cc: "canonical_path canonical" using fs can by (auto simp: fs_canonical_def)
  show ?thesis
  proof (cases "kind = OverrideCorpus")
    case True
    show ?thesis
    proof (cases "is_filesystem_root canonical")
      case False
      show ?thesis
      proof (cases "if md_type named = IsSymlink then override_link_check fs configured canonical else None")
        case None
        then have "link_inside fs configured canonical"
          using override_link_check_None [OF fs cc] named by (auto simp: link_inside_def split: if_splits)
        then have "candidate_step fs configured base kind quiet st (pin_candidate fs configured kind canonical canonical root st)"
          using canonical_root_root [OF cc False] True by (intro pin_candidate_step [OF fs seen can root]) auto
        then show ?thesis using True False None by (simp add: place_candidate_def)
      qed (use True False in \<open>auto simp: place_candidate_def intro: add_note_step\<close>)
    qed (use True in \<open>simp add: place_candidate_def add_note_step\<close>)
  next
    case False
    show ?thesis
    proof (cases base)
      case (Some b)
      have "candidate_step fs configured base kind quiet st (pin_candidate fs configured kind canonical b root st)"
        using Some False by (intro pin_candidate_step [OF fs seen can root]) auto
      then show ?thesis using Some False by (simp add: place_candidate_def)
    qed (use False in \<open>simp add: place_candidate_def add_note_step\<close>)
  qed
qed

lemma discover_candidate_step:
  assumes "fs_canonical fs" "\<forall>p \<in> set (snd st). canonical_path p"
  shows "candidate_step fs configured base kind quiet st (discover_candidate fs configured base kind quiet st)"
  unfolding discover_candidate_def
  using place_candidate_step [OF assms]
  by (auto simp: add_note_step missing split: sum.split)

text \<open>The books of the discovery: the seen paths are those of the corpora, each once.\<close>

definition discovery_ok :: "file_system \<Rightarrow> discovery_state \<Rightarrow> bool" where
  "discovery_ok fs st = (snd st = rev (map co_path (dr_corpora (fst st))) \<and> distinct (snd st)
     \<and> (\<forall>c \<in> set (dr_corpora (fst st)). confined c \<and> pinned fs c))"

lemma discovery_ok_note [simp]: "discovery_ok fs (add_note st path kind detail) = discovery_ok fs st"
  by (simp add: discovery_ok_def)

lemma confined_canonical: "confined c \<Longrightarrow> canonical_path (co_path c)"
  unfolding confined_def using below_facts(1) by blast

lemma discovery_ok_seen: "discovery_ok fs st \<Longrightarrow> \<forall>p \<in> set (snd st). canonical_path p"
  by (auto simp: discovery_ok_def confined_canonical)

lemma candidate_step_ok: "candidate_step fs configured base kind quiet st st' \<Longrightarrow> discovery_ok fs st \<Longrightarrow> discovery_ok fs st'"
  by (induction rule: candidate_step.induct) (auto simp: discovery_ok_def)

lemma candidate_step_mono:
  "candidate_step fs configured base kind quiet st st' \<Longrightarrow>
     set (dr_corpora (fst st)) \<subseteq> set (dr_corpora (fst st')) \<and> set (dr_notes (fst st)) \<subseteq> set (dr_notes (fst st'))"
  by (induction rule: candidate_step.induct) auto

lemma candidate_step_new:
  "candidate_step fs configured base kind quiet st st' \<Longrightarrow> c \<in> set (dr_corpora (fst st')) \<Longrightarrow> c \<notin> set (dr_corpora (fst st)) \<Longrightarrow>
     co_kind c = kind \<and> fs_canonicalize fs configured = Inr (co_path c)
     \<and> (kind = OverrideCorpus \<longrightarrow> co_path c \<noteq> abs_path [] \<and> link_inside fs configured (co_path c))
     \<and> (kind \<noteq> OverrideCorpus \<longrightarrow> (\<exists>b. base = Some b \<and> canonical_directory fs b = Inr (cv_base (co_validation c))))"
  by (induction rule: candidate_step.induct) auto

lemma candidate_step_reported:
  "candidate_step fs configured base kind False st st' \<Longrightarrow> discovery_ok fs st \<Longrightarrow>
     (\<exists>c \<in> set (dr_corpora (fst st')). fs_canonicalize fs configured = Inr (co_path c))
     \<or> (\<exists>n \<in> set (dr_notes (fst st')). dn_path n = configured)"
proof (induction rule: candidate_step.induct)
  case (again p s r)
  then show ?case by (auto simp: discovery_ok_def)
qed auto


lemma discover_override_step:
  assumes "fs_canonical fs" "\<forall>p \<in> set (snd st). canonical_path p"
  shows "candidate_step fs configured None OverrideCorpus False st (discover_override fs st configured)"
  unfolding discover_override_def by (simp add: add_note_step discover_candidate_step [OF assms])

definition override_corpus :: "file_system \<Rightarrow> ustr list \<Rightarrow> corpus \<Rightarrow> bool" where
  "override_corpus fs dirs c = (co_kind c = OverrideCorpus \<and> co_path c \<noteq> abs_path []
     \<and> (\<exists>p \<in> set dirs. fs_canonicalize fs p = Inr (co_path c) \<and> link_inside fs p (co_path c)))"

lemma overrides_fold:
  assumes fs: "fs_canonical fs"
  shows "discovery_ok fs st \<Longrightarrow> let st' = foldl (discover_override fs) st dirs in
     discovery_ok fs st' \<and> set (dr_corpora (fst st)) \<subseteq> set (dr_corpora (fst st')) \<and> set (dr_notes (fst st)) \<subseteq> set (dr_notes (fst st'))
     \<and> (\<forall>c \<in> set (dr_corpora (fst st')). c \<in> set (dr_corpora (fst st)) \<or> override_corpus fs dirs c)
     \<and> (\<forall>p \<in> set dirs. (\<exists>c \<in> set (dr_corpora (fst st')). fs_canonicalize fs p = Inr (co_path c))
                       \<or> (\<exists>n \<in> set (dr_notes (fst st')). dn_path n = p))"
proof (induction dirs arbitrary: st)
  case (Cons d dirs)
  let ?s = "discover_override fs st d"
  note step = discover_override_step [OF fs discovery_ok_seen [OF Cons.prems], of d]
  note ok = candidate_step_ok [OF step Cons.prems]
  note ih = Cons.IH [OF ok]
  note mono = candidate_step_mono [OF step] and new = candidate_step_new [OF step] and rep = candidate_step_reported [OF step Cons.prems]
  show ?case
    using ih mono new rep unfolding Let_def foldl_Cons override_corpus_def
    by (simp only: list.set ball_simps) blast
qed simp

lemma insert_path_ne: "insert_path p ps \<noteq> []"
  by (auto simp: insert_path_def list_ex_iff)

lemma known_collision_Nil:
  "foldl (known_collision fs root slug) acc known = [] \<Longrightarrow>
     acc = [] \<and> (\<forall>k \<in> set known. \<forall>q. fs_canonicalize fs k = Inr q \<longrightarrow> claude_slug_text q = slug \<longrightarrow> path_eq q root)"
proof (induction known arbitrary: acc)
  case (Cons k known)
  then have n: "known_collision fs root slug acc k = []"
    and rest: "\<forall>k \<in> set known. \<forall>q. fs_canonicalize fs k = Inr q \<longrightarrow> claude_slug_text q = slug \<longrightarrow> path_eq q root"
    using Cons.IH by auto
  from n have "acc = [] \<and> (\<forall>q. fs_canonicalize fs k = Inr q \<longrightarrow> claude_slug_text q = slug \<longrightarrow> path_eq q root)"
    by (auto simp: known_collision_def insert_path_ne claude_private_slug_def split: sum.splits if_splits)
  with rest show ?case by simp
qed simp

lemma colliding_Nil:
  assumes "fs_canonical fs" "canonical_path root" "colliding_private_roots fs root known = []"
    "k \<in> set known" "fs_canonicalize fs k = Inr q" "claude_slug_text q = claude_slug_text root"
  shows "q = root"
proof -
  have "path_eq q root"
    using assms(3-6) by (auto simp: colliding_private_roots_def claude_private_slug_def Let_def dest!: known_collision_Nil)
  moreover have "canonical_path q" using assms(1,5) by (simp add: fs_canonical_def)
  ultimately show ?thesis using path_eq_canonical assms(2) by blast
qed

definition private_base :: "ustr \<Rightarrow> ustr \<Rightarrow> ustr" where
  "private_base home root = path_join (path_join home (lit ''.claude/projects'')) (claude_slug_text root)"

text \<open>What every discovered corpus satisfies, by its kind.\<close>

definition corpus_allowed :: "file_system \<Rightarrow> ustr \<Rightarrow> discovery \<Rightarrow> corpus \<Rightarrow> bool" where
  "corpus_allowed fs root d c =
     (confined c \<and> pinned fs c \<and>
      (case co_kind c of
         OverrideCorpus \<Rightarrow> override_corpus fs (dv_override_dirs d) c
       | SharedCorpus \<Rightarrow> dv_override_dirs d = [] \<and> canonical_directory fs root = Inr (cv_base (co_validation c))
       | PrivateCorpus \<Rightarrow> dv_override_dirs d = [] \<and> (\<exists>home r. dv_home d = Some home \<and> canonical_directory fs root = Inr r
           \<and> canonical_directory fs (private_base home r) = Inr (cv_base (co_validation c))
           \<and> (\<forall>k \<in> set (dv_known_roots d). \<forall>q. fs_canonicalize fs k = Inr q \<longrightarrow> claude_slug_text q = claude_slug_text r \<longrightarrow> q = r))))"

lemma discover_corpora_allowed:
  assumes fs: "fs_canonical fs" and r: "discover_corpora fs root d = Inr report"
  shows "distinct (map co_path (dr_corpora report)) \<and> (\<forall>c \<in> set (dr_corpora report). corpus_allowed fs root d c)"
proof -
  let ?init = "(\<lparr> dr_corpora = [], dr_notes = [] \<rparr>, []) :: discovery_state"
  have init: "discovery_ok fs ?init" by (simp add: discovery_ok_def)
  obtain cr where cr: "canonical_directory fs root = Inr cr"
    using r by (auto simp: discover_corpora_def res_bind_Inr_iff)
  show ?thesis
  proof (cases "dv_override_dirs d = []")
    case False
    then have rep: "report = fst (foldl (discover_override fs) ?init (dv_override_dirs d))"
      using r cr by (simp add: discover_corpora_def)
    show ?thesis
      using overrides_fold [OF fs init, of "dv_override_dirs d"] False unfolding rep Let_def
      by (auto simp: discovery_ok_def corpus_allowed_def override_corpus_def)
  next
    case True
    let ?s1 = "discover_candidate fs (path_join cr (lit ''.agents/memory'')) (Some cr) SharedCorpus True ?init"
    have step1: "candidate_step fs (path_join cr (lit ''.agents/memory'')) (Some cr) SharedCorpus True ?init ?s1"
      by (rule discover_candidate_step [OF fs]) simp
    have ok1: "discovery_ok fs ?s1" by (rule candidate_step_ok [OF step1 init])
    have "canonical_directory fs cr = Inr x \<Longrightarrow> x = cr" for x
      using canonical_directory_Inr(1) [OF fs, of cr x] canonical_directory_Inr(3) [OF fs cr] by simp
    then have k1: "\<forall>c \<in> set (dr_corpora (fst ?s1)). corpus_allowed fs root d c"
      using candidate_step_new [OF step1] ok1 True cr by (auto simp: corpus_allowed_def discovery_ok_def)
    show ?thesis
    proof (cases "dv_home d")
      case None
      then show ?thesis using r cr True ok1 k1 by (auto simp: discover_corpora_def Let_def discovery_ok_def)
    next
      case (Some home)
      let ?s2 = "discover_private fs cr home (dv_known_roots d) ?s1"
      have rep: "report = fst ?s2" using r cr True Some by (simp add: discover_corpora_def Let_def)
      show ?thesis
      proof (cases "colliding_private_roots fs cr (dv_known_roots d) = []")
        case col: True
        let ?m = "path_join (private_base home cr) (lit ''memory'')"
        have s2: "?s2 = discover_candidate fs ?m (Some (private_base home cr)) PrivateCorpus True ?s1"
          using col by (simp add: discover_private_def claude_private_slug_def private_base_def Let_def)
        have step: "candidate_step fs ?m (Some (private_base home cr)) PrivateCorpus True ?s1 ?s2"
          unfolding s2 by (rule discover_candidate_step [OF fs discovery_ok_seen [OF ok1]])
        note u = colliding_Nil [OF fs canonical_directory_Inr(2) [OF fs cr] col]
        show ?thesis
          using candidate_step_ok [OF step ok1] candidate_step_new [OF step] k1 True Some cr u unfolding rep
          by (auto simp: discovery_ok_def corpus_allowed_def)
      next
        case False
        then have "discovery_ok fs ?s2 \<and> dr_corpora (fst ?s2) = dr_corpora (fst ?s1)"
          using ok1 by (simp add: discover_private_def claude_private_slug_def Let_def)
        with k1 show ?thesis unfolding rep by (auto simp: discovery_ok_def)
      qed
    qed
  qed
qed


subsection \<open>The project root\<close>

definition git_marked :: "file_system \<Rightarrow> ustr \<Rightarrow> bool" where
  "git_marked fs dir = (\<exists>md. fs_metadata fs (path_join dir (lit ''.git'')) = Inr md \<and> (md_type md = IsFile \<or> md_type md = IsDir))"

lemma root_search_Inr:
  assumes "root_search fs cwd as = Inr p"
  shows "(p = cwd \<and> (\<forall>a \<in> set as. \<not> git_marked fs a))
     \<or> (\<exists>xs a ys. as = xs @ a # ys \<and> (\<forall>x \<in> set xs. \<not> git_marked fs x) \<and> git_marked fs a \<and> canonical_directory fs a = Inr p)"
  using assms
proof (induction as)
  case (Cons a as)
  show ?case
  proof (cases "git_marked fs a")
    case True
    then have "canonical_directory fs a = Inr p" using Cons.prems by (auto simp: git_marked_def Let_def)
    with True show ?thesis by (intro disjI2 exI [of _ "[]"] exI [of _ a] exI [of _ as]) simp
  next
    case False
    then have "root_search fs cwd as = Inr p"
      using Cons.prems by (auto simp: git_marked_def Let_def split: sum.splits if_splits)
    from Cons.IH [OF this] False show ?thesis
      by (elim disjE exE) (auto, metis append_Cons set_ConsD)
  qed
qed simp

lemma project_root_nearest:
  assumes fs: "fs_canonical fs" and r: "project_root fs None cwd = Inr p"
  shows "\<exists>ns k. list_all proper_name ns \<and> fs_canonicalize fs cwd = Inr (abs_path ns) \<and> k \<le> length ns
    \<and> (\<forall>j. k < j \<longrightarrow> j \<le> length ns \<longrightarrow> \<not> git_marked fs (abs_path (take j ns)))
    \<and> (if \<exists>j \<le> length ns. git_marked fs (abs_path (take j ns))
       then git_marked fs (abs_path (take k ns)) \<and> fs_canonicalize fs (abs_path (take k ns)) = Inr p else p = abs_path ns)"
proof -
  obtain cc where cc: "canonical_directory fs cwd = Inr cc" and s: "root_search fs cc (ancestors cc) = Inr p"
    using r by (auto simp: project_root_def res_bind_Inr_iff)
  note d = canonical_directory_Inr [OF fs cc]
  obtain ns where ns: "list_all proper_name ns" "cc = abs_path ns" using d(2) by (auto simp: canonical_path_def)
  let ?g = "\<lambda>j. git_marked fs (abs_path (take j ns))"
  have pre: "take j ns \<in> set (prefixes ns)" for j by (simp add: take_is_prefix)
  have nth: "rev (prefixes ns) ! i = take (length ns - i) ns" if "i \<le> length ns" for i
    using that prefixes_at [of "length ns - i" ns] by (simp add: rev_nth)
  from root_search_Inr [OF s] show ?thesis
  proof (elim disjE exE conjE)
    assume "p = cc" "\<forall>a \<in> set (ancestors cc). \<not> git_marked fs a"
    have "\<not> ?g j" for j
      using \<open>\<forall>a \<in> set (ancestors cc). \<not> git_marked fs a\<close> pre [of j] by (simp only: ns ancestors_abs set_map set_rev) blast
    then show ?thesis using ns d(1) \<open>p = cc\<close> by (intro exI [of _ ns] exI [of _ "length ns"]) auto
  next
    fix xs a ys
    assume as: "ancestors cc = xs @ a # ys" "\<forall>x \<in> set xs. \<not> git_marked fs x" "git_marked fs a" "canonical_directory fs a = Inr p"
    have m: "map abs_path (rev (prefixes ns)) = xs @ a # ys" using as(1) ns by (simp add: ancestors_abs)
    from arg_cong [OF m, of length] have len: "length xs \<le> length ns" by simp
    let ?k = "length ns - length xs"
    have at_i: "(xs @ a # ys) ! i = abs_path (take (length ns - i) ns)" if "i \<le> length ns" for i
      using nth [OF that] that unfolding m [symmetric] by (subst nth_map) simp_all
    have a: "a = abs_path (take ?k ns)" using at_i [OF len] by simp
    have "\<not> ?g j" if "?k < j" "j \<le> length ns" for j
    proof -
      have "length ns - j < length xs" using that by linarith
      then have "xs ! (length ns - j) = abs_path (take j ns)" using at_i [of "length ns - j"] that by (simp add: nth_append)
      then show ?thesis using as(2) \<open>length ns - j < length xs\<close> nth_mem by metis
    qed
    then show ?thesis using ns d(1) as(3) canonical_directory_Inr(1) [OF fs as(4)] unfolding a
      by (intro exI [of _ ns] exI [of _ ?k]) auto
  qed
qed

definition demo_dirs :: "ustr list list" where
  "demo_dirs = [[lit ''p''], [lit ''p'', lit ''q''], [lit ''p'', lit ''.agents'', lit ''memory''], [lit ''p'', lit ''.git'']]"

definition demo_fs :: file_system where
  "demo_fs =
     (let lookup = (\<lambda>p. if p \<in> set (map abs_path demo_dirs) then Inr \<lparr> md_type = IsDir, md_dev = 1, md_ino = length p \<rparr>
                        else Inl \<lparr> fe_kind = NotFoundKind, fe_text = [] \<rparr>)
      in \<lparr> fs_symlink_metadata = lookup, fs_metadata = lookup, fs_read_link = (\<lambda>_. Inl \<lparr> fe_kind = AnotherKind, fe_text = [] \<rparr>),
           fs_canonicalize = (\<lambda>p. if p \<in> set (map abs_path demo_dirs) then Inr p
                                   else Inl \<lparr> fe_kind = NotFoundKind, fe_text = [] \<rparr>),
           fs_read_dir = (\<lambda>_. Inr []) \<rparr>)"

lemma demo_fs_canonical: "fs_canonical demo_fs"
proof -
  have "list_all (list_all proper_name) demo_dirs" by code_simp
  then show ?thesis by (auto simp: fs_canonical_def demo_fs_def Let_def canonical_path_def list_all_iff split: if_splits)
qed

section \<open>Properties\<close>

text \<open>C37: Every corpus discovery returns is confined and pinned: its canonical path lies below its canonical
  base (strictly, unless it is an override, which is its own base), the recorded relative path joins the
  two, both are directories, and the recorded identities are those of the two directories. No path is returned
  twice. A shared corpus has the project root as base; a private one has the directory of the project's
  slug, and no other known project resolves to that slug; an override is one of the configured paths,
  is not the filesystem root, and when it is a link stays strictly below the directory it is configured in.\<close>

theorem discover_corpora_confined:
  assumes "fs_canonical fs" "discover_corpora fs root d = Inr report"
  shows "distinct (map co_path (dr_corpora report)) \<and> (\<forall>c \<in> set (dr_corpora report). corpus_allowed fs root d c)"
  by (rule discover_corpora_allowed [OF assms])

theorem discover_corpora_confined_witness:
  "\<exists>report c. discover_corpora demo_fs (lit ''/p'') \<lparr> dv_home = None, dv_override_dirs = [], dv_known_roots = [] \<rparr> = Inr report
     \<and> dr_corpora report = [c] \<and> co_path c = lit ''/p/.agents/memory'' \<and> confined c"
proof -
  let ?d = "\<lparr> dv_home = None, dv_override_dirs = [], dv_known_roots = [] \<rparr>"
  have r: "discover_corpora demo_fs (lit ''/p'') ?d = Inr \<lparr> dr_corpora = [\<lparr> co_path = lit ''/p/.agents/memory'', co_kind = SharedCorpus,
      co_validation = \<lparr> cv_base = lit ''/p'', cv_relative = lit ''.agents/memory'', cv_expected_base = \<lparr> ni_device = 1, ni_inode = 2 \<rparr>,
        cv_expected_root = \<lparr> ni_device = 1, ni_inode = 17 \<rparr> \<rparr> \<rparr>], dr_notes = [] \<rparr>" by code_simp
  show ?thesis using discover_corpora_confined [OF demo_fs_canonical r] r by (auto simp: corpus_allowed_def)
qed

text \<open>C38: No configured override is dropped silently: each one is the canonical path of a returned corpus or
  carries a note of the report.\<close>

theorem override_dirs_reported:
  assumes "fs_canonical fs" "discover_corpora fs root d = Inr report" "configured \<in> set (dv_override_dirs d)"
  shows "(\<exists>c \<in> set (dr_corpora report). co_kind c = OverrideCorpus \<and> fs_canonicalize fs configured = Inr (co_path c))
    \<or> (\<exists>n \<in> set (dr_notes report). dn_path n = configured)"
proof -
  let ?init = "(\<lparr> dr_corpora = [], dr_notes = [] \<rparr>, []) :: discovery_state"
  have "dv_override_dirs d \<noteq> []" using assms(3) by auto
  then have "report = fst (foldl (discover_override fs) ?init (dv_override_dirs d))"
    using assms(2) by (auto simp: discover_corpora_def res_bind_Inr_iff)
  then show ?thesis
    using overrides_fold [OF assms(1), of ?init "dv_override_dirs d"] assms(3)
    by (auto simp: Let_def discovery_ok_def override_corpus_def)
qed

theorem override_dirs_reported_witness:
  "\<exists>report. discover_corpora demo_fs (lit ''/p'') \<lparr> dv_home = None, dv_override_dirs = [lit ''x'', lit ''/p/q''], dv_known_roots = [] \<rparr> = Inr report
     \<and> map co_path (dr_corpora report) = [lit ''/p/q''] \<and> (\<exists>n \<in> set (dr_notes report). dn_path n = lit ''x'')"
proof -
  let ?d = "\<lparr> dv_home = None, dv_override_dirs = [lit ''x'', lit ''/p/q''], dv_known_roots = [] \<rparr>"
  have c: "res_map (\<lambda>r. map co_path (dr_corpora r)) (discover_corpora demo_fs (lit ''/p'') ?d) = Inr [lit ''/p/q'']" by code_simp
  then obtain report where r: "discover_corpora demo_fs (lit ''/p'') ?d = Inr report" by (cases "discover_corpora demo_fs (lit ''/p'') ?d") auto
  have "fs_canonicalize demo_fs (lit ''x'') = Inl \<lparr> fe_kind = NotFoundKind, fe_text = [] \<rparr>" by code_simp
  with override_dirs_reported [OF demo_fs_canonical r, of "lit ''x''"] c r show ?thesis by auto
qed

text \<open>Without an explicit path the project root is the nearest directory above the working directory, itself
  included, that holds a \<open>.git\<close> file or directory, and the canonical working directory when there is none.\<close>

lemma project_root_is_nearest:
  assumes "fs_canonical fs" "project_root fs None cwd = Inr p"
  shows "\<exists>ns k. list_all proper_name ns \<and> fs_canonicalize fs cwd = Inr (abs_path ns) \<and> k \<le> length ns
    \<and> (\<forall>j. k < j \<longrightarrow> j \<le> length ns \<longrightarrow> \<not> git_marked fs (abs_path (take j ns)))
    \<and> (if \<exists>j \<le> length ns. git_marked fs (abs_path (take j ns))
       then git_marked fs (abs_path (take k ns)) \<and> fs_canonicalize fs (abs_path (take k ns)) = Inr p else p = abs_path ns)"
  by (rule project_root_nearest [OF assms])

lemma project_root_is_nearest_example:
  "project_root demo_fs None (lit ''/p/q'') = Inr (lit ''/p'')
   \<and> (\<exists>ns. fs_canonicalize demo_fs (lit ''/p/q'') = Inr (abs_path ns) \<and> list_all proper_name ns)"
proof -
  have r: "project_root demo_fs None (lit ''/p/q'') = Inr (lit ''/p'')" by code_simp
  show ?thesis using project_root_is_nearest [OF demo_fs_canonical r] r by blast
qed

end
