(* ===== verification/Render.thy ===== *)
theory Render
  imports Cli_Args Json_Value Rust_Pattern Corpus
begin

text \<open>
  Rendering of search responses (\<open>crates/yams-cli/src/render.rs\<close>): JSON that keeps every string as it is,
  and terminal text in which each field is sanitized and the total is bounded. The pretty printer of
  \<open>serde_json\<close> and the table of format characters are parameters; the decimal text of a float is the
  standard library's and is computed. An \<open>expect\<close> that fails is \<open>RenderPanic\<close>.
\<close>

section \<open>Model\<close>

record view_explanation =
  ve_dense_rank :: "nat option"
  ve_bm25_rank :: "nat option"
  ve_rrf_score :: "f64 option"

record view_hit =
  vh_name :: ustr
  vh_path :: ustr
  vh_score :: f64
  vh_text :: ustr
  vh_snippet :: ustr
  vh_clipped_start :: bool
  vh_clipped_end :: bool
  vh_corpus :: corpus_kind
  vh_exact :: bool
  vh_status :: "ustr option"
  vh_explanation :: "view_explanation option"

record gate_entry =
  ge_path :: ustr
  ge_score :: f64

record view_gate =
  vg_baseline :: f64
  vg_min_score :: f64
  vg_max_gap :: f64
  vg_no_hits :: bool
  vg_floor_fired :: bool
  vg_top :: "f64 option"
  vg_floor_dropped :: "gate_entry list"
  vg_gap_dropped :: "gate_entry list"
  vg_rescued :: "gate_entry list"

record view_search_explanation =
  se_query :: ustr
  se_applied :: bool
  se_gate :: "view_gate option"

record view_response =
  vr_hits :: "view_hit list"
  vr_explanation :: "view_search_explanation option"

record project_response =
  pr_project :: ustr
  pr_hits :: "view_hit list"

datatype styling = Plain | Ansi

record text_options =
  to_full :: bool
  to_show_path :: bool
  to_indent :: nat
  to_styling :: styling

definition options_single :: "bool \<Rightarrow> styling \<Rightarrow> text_options" where
  "options_single full styling = \<lparr> to_full = full, to_show_path = True, to_indent = 0, to_styling = styling \<rparr>"

definition options_grouped :: "bool \<Rightarrow> styling \<Rightarrow> text_options" where
  "options_grouped full styling = \<lparr> to_full = full, to_show_path = False, to_indent = 2, to_styling = styling \<rparr>"

datatype render_error =
  NonFinite ustr | JsonError ustr | MissingHitExplanation ustr | InvalidRank ustr | OutputLimit | RenderPanic

type_synonym 'a render_result = "(render_error, 'a) result"

record render_lib =
  rl_is_format :: "uchar \<Rightarrow> bool"
  rl_pretty :: "json_value \<Rightarrow> (ustr, ustr) result"

subsection \<open>The bounded buffer\<close>

record bounded_buffer =
  bb_inner :: ustr
  bb_cap :: nat
  bb_overflowed :: bool

definition DIRECT_STREAM_CAP :: nat where "DIRECT_STREAM_CAP = 4 * 1024 * 1024"

definition buffer_new :: "nat \<Rightarrow> bounded_buffer" where
  "buffer_new cap = \<lparr> bb_inner = [], bb_cap = cap, bb_overflowed = False \<rparr>"

definition write_str :: "ustr \<Rightarrow> bounded_buffer \<Rightarrow> bool \<times> bounded_buffer" where
  "write_str v b =
     (if bb_overflowed b \<or> bb_cap b < utf8_len (bb_inner b) + utf8_len v
      then (False, b\<lparr> bb_overflowed := True \<rparr>)
      else (True, b\<lparr> bb_inner := bb_inner b @ v \<rparr>))"

text \<open>A formatted write is the write of its pieces, each after the other; the first refusal ends it.\<close>

definition write_piece :: "bounded_buffer \<Rightarrow> ustr \<Rightarrow> bounded_buffer render_result" where
  "write_piece b v = (case write_str v b of (True, b) \<Rightarrow> Inr b | (False, _) \<Rightarrow> Inl OutputLimit)"

definition write_fmt :: "ustr list \<Rightarrow> bounded_buffer \<Rightarrow> bounded_buffer render_result" where
  "write_fmt pieces b = try_fold write_piece b pieces"

subsection \<open>Numbers\<close>

fun zero_padded :: "nat \<Rightarrow> nat \<Rightarrow> ustr" where
  "zero_padded k n = (if k = 0 then [] else zero_padded (k - 1) (n div 10) @ [48 + n mod 10])"

declare zero_padded.simps [simp del]

definition fixed_digits :: "nat \<Rightarrow> rat \<Rightarrow> ustr" where
  "fixed_digits precision q =
     (let n = nat (round_half_even (q * 10 ^ precision))
      in decimal (n div 10 ^ precision) @ (if precision = 0 then [] else [dot] @ zero_padded precision (n mod 10 ^ precision)))"

text \<open>\<open>{:.p}\<close> and \<open>{:+.p}\<close> of a float.\<close>

fun format_fixed :: "bool \<Rightarrow> nat \<Rightarrow> f64 \<Rightarrow> ustr" where
  "format_fixed with_sign precision (Fin s q) = (if s then [45] else if with_sign then [43] else []) @ fixed_digits precision q"
| "format_fixed with_sign precision (Inf s) = (if s then [45] else if with_sign then [43] else []) @ lit ''inf''"
| "format_fixed with_sign precision (NaN s) = lit ''NaN''"

definition require_finite :: "ustr \<Rightarrow> f64 \<Rightarrow> unit render_result" where
  "require_finite field v = (if is_finite v then Inr () else Inl (NonFinite field))"

definition text_number :: "ustr \<Rightarrow> f64 \<Rightarrow> nat \<Rightarrow> ustr render_result" where
  "text_number field v precision = (if \<not> is_finite v then Inl (NonFinite field) else Inr (format_fixed False precision v))"

definition text_score :: "ustr \<Rightarrow> f64 \<Rightarrow> ustr render_result" where
  "text_score field v = (if \<not> is_finite v then Inl (NonFinite field) else Inr (format_fixed False 4 v))"

definition json_float :: "f64 \<Rightarrow> json_value render_result" where
  "json_float v = (if is_finite v then Inr (VNumber (FloatNumber v)) else Inl RenderPanic)"

definition finite_four :: "ustr \<Rightarrow> f64 \<Rightarrow> json_value render_result" where
  "finite_four field v = (if \<not> is_finite v then Inl (NonFinite field) else json_float (round_dec4 v))"

definition finite_number :: "ustr \<Rightarrow> f64 \<Rightarrow> json_value render_result" where
  "finite_number field v = (if \<not> is_finite v then Inl (NonFinite field) else json_float v)"

subsection \<open>Validation\<close>

definition validate_rank :: "ustr \<Rightarrow> nat option \<Rightarrow> unit render_result" where
  "validate_rank field rank = (if rank = Some 0 then Inl (InvalidRank field) else Inr ())"

definition finite_option :: "ustr \<Rightarrow> f64 option \<Rightarrow> unit render_result" where
  "finite_option field v = (case v of None \<Rightarrow> Inr () | Some x \<Rightarrow> require_finite field x)"

definition validate_view_hit :: "view_hit \<Rightarrow> unit render_result" where
  "validate_view_hit hit =
     res_bind (require_finite (lit ''score'') (vh_score hit)) (\<lambda>_.
     case vh_explanation hit of None \<Rightarrow> Inr ()
     | Some e \<Rightarrow>
         res_bind (validate_rank (lit ''dense_rank'') (ve_dense_rank e)) (\<lambda>_.
         res_bind (validate_rank (lit ''bm25_rank'') (ve_bm25_rank e)) (\<lambda>_.
         finite_option (lit ''rrf_score'') (ve_rrf_score e))))"

definition validate_entries :: "ustr \<Rightarrow> gate_entry list \<Rightarrow> unit render_result" where
  "validate_entries field entries = try_fold (\<lambda>_ e. require_finite field (ge_score e)) () entries"

definition validate_gate :: "view_gate \<Rightarrow> unit render_result" where
  "validate_gate gate =
     res_bind (require_finite (lit ''baseline'') (vg_baseline gate)) (\<lambda>_.
     res_bind (require_finite (lit ''min_score'') (vg_min_score gate)) (\<lambda>_.
     res_bind (require_finite (lit ''max_gap'') (vg_max_gap gate)) (\<lambda>_.
     res_bind (require_finite (lit ''margin'') (f64_sub (vg_baseline gate) (vg_min_score gate))) (\<lambda>_.
     res_bind (finite_option (lit ''top'') (vg_top gate)) (\<lambda>_.
     res_bind (validate_entries (lit ''floor_dropped.score'') (vg_floor_dropped gate)) (\<lambda>_.
     res_bind (validate_entries (lit ''gap_dropped.score'') (vg_gap_dropped gate)) (\<lambda>_.
     validate_entries (lit ''rescued.score'') (vg_rescued gate))))))))"

definition validate_hits :: "view_hit list \<Rightarrow> unit render_result" where
  "validate_hits hits = try_fold (\<lambda>_ hit. validate_view_hit hit) () hits"

definition validate_response :: "view_response \<Rightarrow> unit render_result" where
  "validate_response response =
     res_bind (validate_hits (vr_hits response)) (\<lambda>_.
     case vr_explanation response of
       None \<Rightarrow> Inr ()
     | Some e \<Rightarrow> (case se_gate e of None \<Rightarrow> Inr () | Some gate \<Rightarrow> validate_gate gate))"

subsection \<open>Text\<close>

abbreviation em_dash :: uchar where "em_dash \<equiv> 0x2014"

definition sanitized :: "render_lib \<Rightarrow> ustr \<Rightarrow> terminal_text \<Rightarrow> ustr" where
  "sanitized L s t = cow_str (sanitize_terminal (rl_is_format L) s t)"

definition rank_text :: "nat option \<Rightarrow> ustr" where
  "rank_text rank = (case rank of None \<Rightarrow> [em_dash] | Some r \<Rightarrow> lit ''#'' @ decimal r)"

fun corpus_name :: "corpus_kind \<Rightarrow> ustr" where
  "corpus_name SharedCorpus = lit ''shared''"
| "corpus_name PrivateCorpus = lit ''private''"
| "corpus_name OverrideCorpus = lit ''override''"

definition text_labels :: "render_lib \<Rightarrow> view_hit \<Rightarrow> ustr" where
  "text_labels L hit =
     (let labels = (if vh_corpus hit \<noteq> SharedCorpus then [corpus_name (vh_corpus hit)] else [])
            @ (case vh_status hit of None \<Rightarrow> []
               | Some status \<Rightarrow> if status \<noteq> [] \<and> status \<noteq> lit ''current'' then [sanitized L status Inline] else [])
      in if labels = [] then [] else lit ''  ['' @ join (lit '', '') labels @ lit '']'')"

definition take_chars :: "ustr \<Rightarrow> nat \<Rightarrow> ustr \<times> bool" where
  "take_chars input width = (take width input, drop width input \<noteq> [])"

definition push_indented_multiline :: "ustr \<Rightarrow> ustr \<Rightarrow> bounded_buffer \<Rightarrow> bounded_buffer render_result" where
  "push_indented_multiline indent body b =
     (if body = [] then write_fmt [indent, lit ''  '' @ [nl]] b
      else try_fold (\<lambda>b line.
             res_bind (write_fmt [indent, lit ''  '', line] b) (\<lambda>b.
             if line \<noteq> [] \<and> last line = nl then Inr b else write_piece b [nl])) b (split_inclusive nl [] body))"

definition push_gate_entry ::
  "render_lib \<Rightarrow> ustr \<Rightarrow> ustr \<Rightarrow> ustr \<Rightarrow> gate_entry \<Rightarrow> ustr \<Rightarrow> bounded_buffer \<Rightarrow> bounded_buffer render_result" where
  "push_gate_entry L indent gate action entry note b =
     res_bind (text_score (lit ''gate_entry.score'') (ge_score entry)) (\<lambda>score.
     write_fmt [indent, lit ''  '', gate, lit '' '', action, lit ''  '', score, lit ''  '',
       sanitized L (ge_path entry) Inline, note, [nl]] b)"

definition gate_summary :: "ustr \<Rightarrow> bool \<Rightarrow> view_gate \<Rightarrow> ustr list" where
  "gate_summary indent hypothetical gate =
     (if vg_no_hits gate
      then [indent, lit ''  no hits reached the gate '' @ [em_dash] @ lit '' nothing to decide on'' @ [nl]]
      else if vg_floor_fired gate
      then [indent, lit ''  floor '', if hypothetical then lit ''would drop'' else lit ''drops'',
            lit '' everything unmarked: the corpus-wide best is under it'' @ [nl]]
      else if vg_gap_dropped gate \<noteq> [] \<or> vg_rescued gate \<noteq> []
      then [indent, lit ''  floor cleared; the gap '', if hypothetical then lit ''would have decided'' else lit ''decided'',
            lit '' the rest'' @ [nl]]
      else [indent, lit ''  both gates '', if hypothetical then lit ''would pass'' else lit ''pass'',
            lit '' everything'' @ [nl]])"

definition push_explanation_text ::
  "render_lib \<Rightarrow> view_search_explanation \<Rightarrow> nat \<Rightarrow> bounded_buffer \<Rightarrow> bounded_buffer render_result" where
  "push_explanation_text L explanation indentation b =
     (let indent = replicate indentation sp
      in case se_gate explanation of
        None \<Rightarrow> write_fmt [indent, lit ''gate: not consulted '' @ [em_dash] @ lit '' this corpus holds no vectors'' @ [nl]] b
      | Some gate \<Rightarrow>
          res_bind (text_score (lit ''baseline'') (vg_baseline gate)) (\<lambda>baseline.
          res_bind (text_number (lit ''min_score'') (vg_min_score gate) 2) (\<lambda>min_score.
          res_bind (text_number (lit ''max_gap'') (vg_max_gap gate) 2) (\<lambda>max_gap.
          let margin_value = f64_sub (vg_baseline gate) (vg_min_score gate)
          in if \<not> is_finite margin_value then Inl (NonFinite (lit ''margin''))
          else let note = if se_applied explanation then [] else lit ''   (shown anyway: --no-gate)'';
                   hypothetical = \<not> se_applied explanation;
                   dropped = if hypothetical then lit ''would drop'' else lit ''dropped'';
                   kept = if hypothetical then lit ''would keep'' else lit ''kept''
          in res_bind (write_fmt [indent, lit ''baseline '', baseline, lit ''   floor '', min_score, lit ''   gap '', max_gap,
               lit ''   margin '', format_fixed True 4 margin_value, note, [nl]] b) (\<lambda>b.
             res_bind (write_fmt (gate_summary indent hypothetical gate) b) (\<lambda>b.
             res_bind (try_fold (\<lambda>b entry. push_gate_entry L indent (lit ''floor'') dropped entry [] b) b
               (vg_floor_dropped gate)) (\<lambda>b.
             res_bind (try_fold (\<lambda>b entry. push_gate_entry L indent (lit ''gap  '') dropped entry [] b) b
               (vg_gap_dropped gate)) (\<lambda>b.
             try_fold (\<lambda>b entry. push_gate_entry L indent (lit ''rescue'') kept entry (lit ''  (exact identifier)'') b) b
               (vg_rescued gate)))))))))"

definition count_title :: "render_lib \<Rightarrow> (ustr, nat) btree \<Rightarrow> view_hit \<Rightarrow> (ustr, nat) btree" where
  "count_title L counts hit =
     (let title = sanitized L (vh_name hit) Inline
      in bt_insert title ((case bt_get counts title of None \<Rightarrow> 0 | Some n \<Rightarrow> n) + 1) counts)"

text \<open>The body of the loop over the hits: the heading, the path, the text, and the rank signals.\<close>

definition push_heading ::
  "render_lib \<Rightarrow> text_options \<Rightarrow> (ustr, nat) btree \<Rightarrow> view_hit \<Rightarrow> bounded_buffer \<Rightarrow> bounded_buffer render_result" where
  "push_heading L options seen hit b =
     (let indent = replicate (to_indent options) sp;
          (bold, reset) = (case to_styling options of Plain \<Rightarrow> ([], []) | Ansi \<Rightarrow> (esc # lit ''[1m'', esc # lit ''[0m''))
      in res_bind (text_score (lit ''score'') (vh_score hit)) (\<lambda>score.
         let title = sanitized L (vh_name hit) Inline;
             path = sanitized L (vh_path hit) Inline;
             labels = text_labels L hit;
             lead_break = if to_indent options = 0 then [nl] else []
         in res_bind (write_fmt [lead_break, indent, bold, title, reset, lit ''  ('', score, lit '')'', labels, [nl]] b) (\<lambda>b.
            res_bind (if to_show_path options then Inr True
                      else case bt_get seen title of None \<Rightarrow> Inl RenderPanic | Some n \<Rightarrow> Inr (1 < n)) (\<lambda>show_path.
            if show_path then write_fmt [indent, lit ''  '', path, [nl]] b else Inr b))))"

definition push_body :: "render_lib \<Rightarrow> text_options \<Rightarrow> view_hit \<Rightarrow> bounded_buffer \<Rightarrow> bounded_buffer render_result" where
  "push_body L options hit b =
     (let indent = replicate (to_indent options) sp;
          width = 280 - 2 * to_indent options
      in if to_full options
         then push_indented_multiline indent (sanitized L (vh_text hit) Multiline) b
         else let (body, narrowed) = take_chars (vh_snippet hit) width;
                  lead = if vh_clipped_start hit then lit ''...'' else [];
                  trail = if vh_clipped_end hit \<or> narrowed then lit ''...'' else []
              in write_fmt [indent, lit ''  '', lead, sanitized L body Inline, trail, [nl]] b)"

definition push_ranks ::
  "text_options \<Rightarrow> view_search_explanation option \<Rightarrow> view_hit \<Rightarrow> bounded_buffer \<Rightarrow> bounded_buffer render_result" where
  "push_ranks options explanation hit b =
     (if explanation = None then Inr b
      else case vh_explanation hit of
        None \<Rightarrow> Inl (MissingHitExplanation (vh_path hit))
      | Some e \<Rightarrow>
          res_bind (case ve_rrf_score e of None \<Rightarrow> Inr [em_dash]
                    | Some score \<Rightarrow> if \<not> is_finite score then Inl (NonFinite (lit ''rrf_score''))
                                    else Inr (format_fixed False 5 score)) (\<lambda>rrf.
          write_fmt [replicate (to_indent options) sp, lit ''    dense '', rank_text (ve_dense_rank e),
            lit ''   bm25 '', rank_text (ve_bm25_rank e), lit ''   rrf '', rrf, [nl]] b))"

definition push_hit ::
  "render_lib \<Rightarrow> text_options \<Rightarrow> view_search_explanation option \<Rightarrow> (ustr, nat) btree \<Rightarrow> bounded_buffer \<Rightarrow> view_hit
     \<Rightarrow> bounded_buffer render_result" where
  "push_hit L options explanation seen b hit =
     res_bind (push_heading L options seen hit b) (\<lambda>b.
     res_bind (push_body L options hit b) (push_ranks options explanation hit))"

definition render_text_inner ::
  "render_lib \<Rightarrow> view_hit list \<Rightarrow> view_search_explanation option \<Rightarrow> text_options \<Rightarrow> bounded_buffer
     \<Rightarrow> bounded_buffer render_result" where
  "render_text_inner L hits explanation options b =
     (if hits = []
      then res_bind (write_piece b (case explanation of
               Some e \<Rightarrow> if se_gate e \<noteq> None then lit ''no confident match'' @ [nl] else lit ''no results'' @ [nl]
             | None \<Rightarrow> lit ''no results'' @ [nl])) (\<lambda>b.
           case explanation of None \<Rightarrow> Inr b | Some e \<Rightarrow> push_explanation_text L e (to_indent options) b)
      else let seen = foldl (count_title L) [] hits
           in res_bind (case explanation of None \<Rightarrow> Inr b
                        | Some e \<Rightarrow> push_explanation_text L e (to_indent options) b) (\<lambda>b.
              res_bind (try_fold (push_hit L options explanation seen) b hits) (\<lambda>b.
              if to_indent options = 0 then write_piece b [nl] else Inr b)))"

definition finish_text_output :: "render_lib \<Rightarrow> bounded_buffer \<Rightarrow> ustr" where
  "finish_text_output L b = sanitized L (bb_inner b) RenderedFrame"

text \<open>The capacity is an argument, so that the limit can be studied; the code passes \<open>DIRECT_STREAM_CAP\<close>.\<close>

definition render_text_capped :: "render_lib \<Rightarrow> nat \<Rightarrow> view_response \<Rightarrow> text_options \<Rightarrow> ustr render_result" where
  "render_text_capped L cap response options =
     res_bind (validate_response response) (\<lambda>_.
     res_map (finish_text_output L)
       (render_text_inner L (vr_hits response) (vr_explanation response) options (buffer_new cap)))"

definition render_text :: "render_lib \<Rightarrow> view_response \<Rightarrow> text_options \<Rightarrow> ustr render_result" where
  "render_text L = render_text_capped L DIRECT_STREAM_CAP"

definition push_group ::
  "render_lib \<Rightarrow> bool \<Rightarrow> styling \<Rightarrow> bounded_buffer \<Rightarrow> project_response \<Rightarrow> bounded_buffer render_result" where
  "push_group L full styling b grp =
     (let (underline, reset) = (case styling of Plain \<Rightarrow> ([], []) | Ansi \<Rightarrow> (esc # lit ''[4m'', esc # lit ''[0m''))
      in if pr_hits grp = [] then Inr b
         else res_bind (write_fmt [[nl], underline, sanitized L (pr_project grp) Inline, reset, [nl]] b)
                (render_text_inner L (pr_hits grp) None (options_grouped full styling)))"

definition validate_groups :: "project_response list \<Rightarrow> unit render_result" where
  "validate_groups groups = try_fold (\<lambda>_ grp. validate_hits (pr_hits grp)) () groups"

definition render_all_text_capped ::
  "render_lib \<Rightarrow> nat \<Rightarrow> project_response list \<Rightarrow> bool \<Rightarrow> styling \<Rightarrow> ustr render_result" where
  "render_all_text_capped L cap groups full styling =
     res_bind (validate_groups groups) (\<lambda>_.
     if groups = [] then Inr (lit ''no results'' @ [nl])
     else res_bind (try_fold (push_group L full styling) (buffer_new cap) groups) (\<lambda>b.
          if bb_inner b = [] then Inr (lit ''no results'' @ [nl])
          else res_map (finish_text_output L) (write_piece b [nl])))"

definition render_all_text :: "render_lib \<Rightarrow> project_response list \<Rightarrow> bool \<Rightarrow> styling \<Rightarrow> ustr render_result" where
  "render_all_text L = render_all_text_capped L DIRECT_STREAM_CAP"

definition render_diagnostic :: "render_lib \<Rightarrow> ustr \<Rightarrow> ustr" where
  "render_diagnostic L msg = sanitized L msg Inline @ [nl]"

subsection \<open>JSON\<close>

definition object_of :: "(ustr \<times> json_value) list \<Rightarrow> json_value" where
  "object_of entries = VObject (foldl (\<lambda>m (k, v). bt_insert k v m) [] entries)"

definition rank_json :: "nat option \<Rightarrow> json_value" where
  "rank_json rank = (case rank of None \<Rightarrow> VNull | Some r \<Rightarrow> VNumber (PosInt r))"

definition hit_explanation_json :: "view_explanation \<Rightarrow> json_value render_result" where
  "hit_explanation_json e =
     res_bind (case ve_rrf_score e of None \<Rightarrow> Inr VNull | Some score \<Rightarrow> finite_number (lit ''rrf_score'') score) (\<lambda>rrf.
     Inr (object_of [(lit ''dense_rank'', rank_json (ve_dense_rank e)), (lit ''bm25_rank'', rank_json (ve_bm25_rank e)),
       (lit ''rrf_score'', rrf)]))"

definition hit_json :: "view_hit \<Rightarrow> bool \<Rightarrow> ustr option \<Rightarrow> json_value render_result" where
  "hit_json hit include_explanation project =
     res_bind (finite_four (lit ''score'') (vh_score hit)) (\<lambda>score.
     res_bind (if \<not> include_explanation then Inr []
               else case vh_explanation hit of
                 None \<Rightarrow> Inl (MissingHitExplanation (vh_path hit))
               | Some e \<Rightarrow> res_map (\<lambda>v. [(lit ''explain'', v)]) (hit_explanation_json e)) (\<lambda>explain.
     Inr (object_of ([(lit ''name'', VString (vh_name hit)), (lit ''path'', VString (vh_path hit)), (lit ''score'', score),
        (lit ''text'', VString (vh_text hit)), (lit ''snippet'', VString (vh_snippet hit)),
        (lit ''clipped_start'', VBool (vh_clipped_start hit)), (lit ''clipped_end'', VBool (vh_clipped_end hit)),
        (lit ''corpus'', VString (corpus_name (vh_corpus hit))), (lit ''exact'', VBool (vh_exact hit))]
       @ (case vh_status hit of None \<Rightarrow> [] | Some status \<Rightarrow> [(lit ''status'', VString status)])
       @ (case project of None \<Rightarrow> [] | Some p \<Rightarrow> [(lit ''project'', VString p)]) @ explain))))"

definition gate_entries_json :: "ustr \<Rightarrow> gate_entry list \<Rightarrow> json_value render_result" where
  "gate_entries_json field entries =
     res_map VArray (try_map (\<lambda>entry.
       res_bind (finite_four field (ge_score entry)) (\<lambda>score.
       Inr (object_of [(lit ''path'', VString (ge_path entry)), (lit ''score'', score)]))) entries)"

definition gate_json :: "view_gate \<Rightarrow> json_value render_result" where
  "gate_json gate =
     res_bind (finite_four (lit ''baseline'') (vg_baseline gate)) (\<lambda>baseline.
     res_bind (finite_number (lit ''min_score'') (vg_min_score gate)) (\<lambda>min_score.
     res_bind (finite_number (lit ''max_gap'') (vg_max_gap gate)) (\<lambda>max_gap.
     res_bind (finite_four (lit ''margin'') (f64_sub (vg_baseline gate) (vg_min_score gate))) (\<lambda>margin.
     res_bind (case vg_top gate of None \<Rightarrow> Inr VNull | Some score \<Rightarrow> finite_four (lit ''top'') score) (\<lambda>top_score.
     res_bind (gate_entries_json (lit ''floor_dropped.score'') (vg_floor_dropped gate)) (\<lambda>floor_dropped.
     res_bind (gate_entries_json (lit ''gap_dropped.score'') (vg_gap_dropped gate)) (\<lambda>gap_dropped.
     res_bind (gate_entries_json (lit ''rescued.score'') (vg_rescued gate)) (\<lambda>rescued.
     Inr (object_of [(lit ''baseline'', baseline), (lit ''min_score'', min_score), (lit ''max_gap'', max_gap),
       (lit ''margin'', margin), (lit ''no_hits'', VBool (vg_no_hits gate)), (lit ''floor_fired'', VBool (vg_floor_fired gate)),
       (lit ''top'', top_score), (lit ''floor_dropped'', floor_dropped), (lit ''gap_dropped'', gap_dropped),
       (lit ''rescued'', rescued)])))))))))"

definition explain_json :: "view_hit list \<Rightarrow> view_search_explanation \<Rightarrow> json_value render_result" where
  "explain_json hits explanation =
     res_bind (case se_gate explanation of None \<Rightarrow> Inr VNull | Some gate \<Rightarrow> gate_json gate) (\<lambda>gate.
     res_bind (try_map (\<lambda>hit. hit_json hit True None) hits) (\<lambda>hits.
     Inr (object_of [(lit ''query'', VString (se_query explanation)), (lit ''applied'', VBool (se_applied explanation)),
       (lit ''gate'', gate), (lit ''hits'', VArray hits)])))"

definition json_line :: "render_lib \<Rightarrow> json_value \<Rightarrow> ustr render_result" where
  "json_line L v =
     res_bind (map_err JsonError (rl_pretty L v)) (\<lambda>serialized. Inr (concat (map escape_c1 serialized) @ [nl]))"

definition response_value :: "view_response \<Rightarrow> json_value render_result" where
  "response_value response =
     (case vr_explanation response of
        Some explanation \<Rightarrow> explain_json (vr_hits response) explanation
      | None \<Rightarrow> res_map VArray (try_map (\<lambda>hit. hit_json hit False None) (vr_hits response)))"

definition render_json :: "render_lib \<Rightarrow> view_response \<Rightarrow> ustr render_result" where
  "render_json L response =
     res_bind (validate_response response) (\<lambda>_. res_bind (response_value response) (json_line L))"

definition render_all_json :: "render_lib \<Rightarrow> project_response list \<Rightarrow> ustr render_result" where
  "render_all_json L groups =
     res_bind (validate_groups groups) (\<lambda>_.
     res_bind (try_map (\<lambda>(project, hit). hit_json hit False (Some project))
       (concat (map (\<lambda>grp. map (Pair (pr_project grp)) (pr_hits grp)) groups))) (\<lambda>hits.
     json_line L (VArray hits)))"

end
