(* ===== verification/Render_Output.thy ===== *)
theory Render_Output
  imports Render
begin

text \<open>
  What the renderers of \<open>Render\<close> promise. A reference text is built for every part without a buffer;
  \<open>appends\<close> says that an action adds a text when it fits and fails with the limit otherwise, and
  composes along the writes of the code. The safety lemmas show the reference text to be a frame the
  terminal sanitizer keeps; the JSON lemmas show what the built values hold.
\<close>

subsection \<open>Reference text\<close>

text \<open>The text of each part without a buffer: what an unbounded rendering would hold.\<close>

definition title_of :: "render_lib \<Rightarrow> view_hit \<Rightarrow> ustr" where
  "title_of L hit = sanitized L (vh_name hit) Inline"

definition indented_text :: "ustr \<Rightarrow> ustr \<Rightarrow> ustr" where
  "indented_text indent body =
     (if body = [] then indent @ lit ''  '' @ [nl]
      else concat (map (\<lambda>line. indent @ lit ''  '' @ line @ (if last line = nl then [] else [nl])) (split_inclusive nl [] body)))"

definition gate_entry_text :: "render_lib \<Rightarrow> ustr \<Rightarrow> ustr \<Rightarrow> ustr \<Rightarrow> ustr \<Rightarrow> gate_entry \<Rightarrow> ustr" where
  "gate_entry_text L indent gate action note entry =
     indent @ lit ''  '' @ gate @ lit '' '' @ action @ lit ''  '' @ format_fixed False 4 (ge_score entry) @ lit ''  ''
       @ sanitized L (ge_path entry) Inline @ note @ [nl]"

definition gate_text :: "render_lib \<Rightarrow> ustr \<Rightarrow> bool \<Rightarrow> view_gate \<Rightarrow> ustr" where
  "gate_text L indent hypothetical gate =
     indent @ lit ''baseline '' @ format_fixed False 4 (vg_baseline gate) @ lit ''   floor ''
       @ format_fixed False 2 (vg_min_score gate) @ lit ''   gap '' @ format_fixed False 2 (vg_max_gap gate)
       @ lit ''   margin '' @ format_fixed True 4 (f64_sub (vg_baseline gate) (vg_min_score gate))
       @ (if hypothetical then lit ''   (shown anyway: --no-gate)'' else []) @ [nl]
     @ concat (gate_summary indent hypothetical gate)
     @ (let dropped = if hypothetical then lit ''would drop'' else lit ''dropped'';
            kept = if hypothetical then lit ''would keep'' else lit ''kept''
        in concat (map (gate_entry_text L indent (lit ''floor'') dropped []) (vg_floor_dropped gate))
         @ concat (map (gate_entry_text L indent (lit ''gap  '') dropped []) (vg_gap_dropped gate))
         @ concat (map (gate_entry_text L indent (lit ''rescue'') kept (lit ''  (exact identifier)'')) (vg_rescued gate)))"

definition explanation_text :: "render_lib \<Rightarrow> nat \<Rightarrow> view_search_explanation \<Rightarrow> ustr" where
  "explanation_text L indentation e =
     (let indent = replicate indentation sp
      in case se_gate e of
        None \<Rightarrow> indent @ lit ''gate: not consulted '' @ [em_dash] @ lit '' this corpus holds no vectors'' @ [nl]
      | Some gate \<Rightarrow> gate_text L indent (\<not> se_applied e) gate)"

definition heading_text :: "render_lib \<Rightarrow> text_options \<Rightarrow> view_hit list \<Rightarrow> view_hit \<Rightarrow> ustr" where
  "heading_text L options hits hit =
     (let indent = replicate (to_indent options) sp;
          ansi = to_styling options = Ansi
      in (if to_indent options = 0 then [nl] else []) @ indent @ (if ansi then esc # lit ''[1m'' else [])
         @ title_of L hit @ (if ansi then esc # lit ''[0m'' else [])
         @ lit ''  ('' @ format_fixed False 4 (vh_score hit) @ lit '')'' @ text_labels L hit @ [nl]
         @ (if to_show_path options \<or> 1 < length (filter (\<lambda>h. title_of L h = title_of L hit) hits)
            then indent @ lit ''  '' @ sanitized L (vh_path hit) Inline @ [nl] else []))"

definition body_text :: "render_lib \<Rightarrow> text_options \<Rightarrow> view_hit \<Rightarrow> ustr" where
  "body_text L options hit =
     (let indent = replicate (to_indent options) sp; width = 280 - 2 * to_indent options
      in if to_full options then indented_text indent (sanitized L (vh_text hit) Multiline)
         else indent @ lit ''  '' @ (if vh_clipped_start hit then lit ''...'' else [])
            @ sanitized L (take width (vh_snippet hit)) Inline
            @ (if vh_clipped_end hit \<or> width < length (vh_snippet hit) then lit ''...'' else []) @ [nl])"

definition ranks_text :: "text_options \<Rightarrow> view_hit \<Rightarrow> ustr" where
  "ranks_text options hit =
     (case vh_explanation hit of None \<Rightarrow> []
      | Some e \<Rightarrow> replicate (to_indent options) sp @ lit ''    dense '' @ rank_text (ve_dense_rank e)
          @ lit ''   bm25 '' @ rank_text (ve_bm25_rank e) @ lit ''   rrf ''
          @ (case ve_rrf_score e of None \<Rightarrow> [em_dash] | Some score \<Rightarrow> format_fixed False 5 score) @ [nl])"

definition hits_text ::
  "render_lib \<Rightarrow> view_hit list \<Rightarrow> view_search_explanation option \<Rightarrow> text_options \<Rightarrow> ustr" where
  "hits_text L hits explanation options =
     (let why = (case explanation of None \<Rightarrow> [] | Some e \<Rightarrow> explanation_text L (to_indent options) e)
      in if hits = []
         then (if (case explanation of None \<Rightarrow> False | Some e \<Rightarrow> se_gate e \<noteq> None)
               then lit ''no confident match'' else lit ''no results'') @ [nl] @ why
         else why @ concat (map (\<lambda>hit. heading_text L options hits hit @ body_text L options hit
                 @ (if explanation = None then [] else ranks_text options hit)) hits)
              @ (if to_indent options = 0 then [nl] else []))"

definition grouped_text :: "render_lib \<Rightarrow> bool \<Rightarrow> styling \<Rightarrow> project_response \<Rightarrow> ustr" where
  "grouped_text L full styling grp =
     (if pr_hits grp = [] then []
      else [nl] @ (if styling = Ansi then esc # lit ''[4m'' else []) @ sanitized L (pr_project grp) Inline
        @ (if styling = Ansi then esc # lit ''[0m'' else []) @ [nl]
        @ hits_text L (pr_hits grp) None (options_grouped full styling))"

definition groups_text :: "render_lib \<Rightarrow> project_response list \<Rightarrow> bool \<Rightarrow> styling \<Rightarrow> ustr" where
  "groups_text L groups full styling = concat (map (grouped_text L full styling) groups) @ [nl]"

section \<open>Lemmas\<close>

subsection \<open>Bounded writing\<close>

text \<open>An action appends a text if it does so whenever the text fits, and fails with the limit otherwise.\<close>

definition appends :: "ustr \<Rightarrow> (bounded_buffer \<Rightarrow> bounded_buffer render_result) \<Rightarrow> bool" where
  "appends T act = (\<forall>b. \<not> bb_overflowed b \<and> utf8_len (bb_inner b) \<le> bb_cap b \<longrightarrow>
     act b = (if utf8_len (bb_inner b) + utf8_len T \<le> bb_cap b then Inr (b\<lparr> bb_inner := bb_inner b @ T \<rparr>) else Inl OutputLimit))"

lemma appends_Inr: "appends [] Inr"
  by (simp add: appends_def)

lemma appends_piece: "appends v (\<lambda>b. write_piece b v)"
  by (simp add: appends_def write_piece_def write_str_def)

lemma appends_bind:
  assumes "appends S f" "appends T g"
  shows "appends (S @ T) (\<lambda>b. res_bind (f b) g)"
  unfolding appends_def
proof (intro allI impI)
  fix b :: bounded_buffer assume b: "\<not> bb_overflowed b \<and> utf8_len (bb_inner b) \<le> bb_cap b"
  then have f: "f b = (if utf8_len (bb_inner b) + utf8_len S \<le> bb_cap b then Inr (b\<lparr> bb_inner := bb_inner b @ S \<rparr>) else Inl OutputLimit)"
    using assms(1) by (simp add: appends_def)
  show "res_bind (f b) g = (if utf8_len (bb_inner b) + utf8_len (S @ T) \<le> bb_cap b
      then Inr (b\<lparr> bb_inner := bb_inner b @ S @ T \<rparr>) else Inl OutputLimit)"
    using assms(2) b by (auto simp: f appends_def)
qed

lemma appends_fold:
  "(\<And>x. x \<in> set xs \<Longrightarrow> appends (t x) (\<lambda>b. f b x)) \<Longrightarrow> appends (concat (map t xs)) (\<lambda>b. try_fold f b xs)"
proof (induction xs)
  case (Cons x xs)
  have "appends (t x @ concat (map t xs)) (\<lambda>b. res_bind (f b x) (\<lambda>b. try_fold f b xs))"
    using Cons by (intro appends_bind) auto
  then show ?case by (simp add: res_bind_def)
qed (simp add: appends_Inr)

lemma appends_fmt: "appends (concat pieces) (write_fmt pieces)"
  using appends_fold [of pieces "\<lambda>x. x" write_piece] appends_piece
  by (simp add: write_fmt_def [abs_def])

lemma appends_fmtI: "T = concat pieces \<Longrightarrow> appends T (write_fmt pieces)"
  using appends_fmt by simp

lemma appends_fmt_bind:
  "appends T g \<Longrightarrow> appends (concat pieces @ T) (\<lambda>b. res_bind (write_fmt pieces b) g)"
  by (rule appends_bind [OF appends_fmt])

lemma appends_new:
  assumes "appends T act"
  shows "act (buffer_new cap) =
     (if utf8_len T \<le> cap then Inr \<lparr> bb_inner = T, bb_cap = cap, bb_overflowed = False \<rparr> else Inl OutputLimit)"
  using assms by (simp add: appends_def buffer_new_def)

lemma split_inclusive_nonempty: "line \<in> set (split_inclusive sep cur s) \<Longrightarrow> line \<noteq> []"
  by (induction sep cur s rule: split_inclusive.induct) (auto split: if_splits)

lemma appends_multiline: "appends (indented_text indent body) (push_indented_multiline indent body)"
proof (cases "body = []")
  case True
  then show ?thesis by (simp add: indented_text_def push_indented_multiline_def [abs_def] appends_fmtI)
next
  case False
  have "appends (concat (map (\<lambda>line. indent @ lit ''  '' @ line @ (if last line = nl then [] else [nl])) (split_inclusive nl [] body)))
     (\<lambda>b. try_fold (\<lambda>b line. res_bind (write_fmt [indent, lit ''  '', line] b) (\<lambda>b.
             if line \<noteq> [] \<and> last line = nl then Inr b else write_piece b [nl])) b (split_inclusive nl [] body))"
  proof (rule appends_fold)
    fix line assume "line \<in> set (split_inclusive nl [] body)"
    then have ne: "line \<noteq> []" by (rule split_inclusive_nonempty)
    have "appends (if last line = nl then [] else [nl]) (\<lambda>b. if line \<noteq> [] \<and> last line = nl then Inr b else write_piece b [nl])"
      using ne appends_Inr appends_piece [of "[nl]"] by simp
    from appends_fmt_bind [OF this, of "[indent, lit ''  '', line]"]
    show "appends (indent @ lit ''  '' @ line @ (if last line = nl then [] else [nl]))
       (\<lambda>b. res_bind (write_fmt [indent, lit ''  '', line] b) (\<lambda>b. if line \<noteq> [] \<and> last line = nl then Inr b else write_piece b [nl]))"
      by simp
  qed
  with False show ?thesis by (simp add: indented_text_def push_indented_multiline_def [abs_def])
qed

lemma appends_entry:
  "is_finite (ge_score entry) \<Longrightarrow> appends (gate_entry_text L indent gate action note entry) (push_gate_entry L indent gate action entry note)"
  by (simp add: push_gate_entry_def [abs_def] text_score_def gate_entry_text_def appends_fmtI)


lemma validate_entries_Inr: "validate_entries field entries = Inr u \<Longrightarrow> entry \<in> set entries \<Longrightarrow> is_finite (ge_score entry)"
  unfolding validate_entries_def
  by (induction entries) (auto simp: require_finite_def split: if_splits)

lemma require_finite_Inr [simp]: "require_finite field v = Inr u \<longleftrightarrow> is_finite v"
  by (simp add: require_finite_def)

lemma finite_option_Inr [simp]: "finite_option field v = Inr u \<longleftrightarrow> (\<forall>x. v = Some x \<longrightarrow> is_finite x)"
  by (auto simp: finite_option_def split: option.split)

lemma validate_gate_Inr:
  assumes "validate_gate gate = Inr u"
  shows "is_finite (vg_baseline gate)" "is_finite (vg_min_score gate)" "is_finite (vg_max_gap gate)"
    "is_finite (f64_sub (vg_baseline gate) (vg_min_score gate))" "\<And>x. vg_top gate = Some x \<Longrightarrow> is_finite x"
    "\<And>e. e \<in> set (vg_floor_dropped gate) \<union> set (vg_gap_dropped gate) \<union> set (vg_rescued gate) \<Longrightarrow> is_finite (ge_score e)"
  using assms by (auto simp: validate_gate_def res_bind_Inr_iff dest: validate_entries_Inr)

lemma validate_view_hit_Inr:
  assumes "validate_view_hit hit = Inr u"
  shows "is_finite (vh_score hit)" "\<And>e x. vh_explanation hit = Some e \<Longrightarrow> ve_rrf_score e = Some x \<Longrightarrow> is_finite x"
  using assms by (auto simp: validate_view_hit_def res_bind_Inr_iff)

lemma validate_hits_Inr: "validate_hits hits = Inr u \<longleftrightarrow> (\<forall>hit \<in> set hits. validate_view_hit hit = Inr ())"
  unfolding validate_hits_def by (induction hits) (auto split: sum.split)

lemma validate_groups_Inr: "validate_groups groups = Inr u \<longleftrightarrow> (\<forall>grp \<in> set groups. validate_hits (pr_hits grp) = Inr ())"
  unfolding validate_groups_def by (induction groups) (auto split: sum.split)

lemma validate_response_Inr:
  "validate_response response = Inr u \<longleftrightarrow> (\<forall>hit \<in> set (vr_hits response). validate_view_hit hit = Inr ())
     \<and> (\<forall>e gate. vr_explanation response = Some e \<longrightarrow> se_gate e = Some gate \<longrightarrow> validate_gate gate = Inr ())"
  by (auto simp: validate_response_def res_bind_Inr_iff validate_hits_Inr split: option.split)

lemma appends_explanation:
  assumes "\<And>gate. se_gate e = Some gate \<Longrightarrow> validate_gate gate = Inr ()"
  shows "appends (explanation_text L indentation e) (push_explanation_text L e indentation)"
proof (cases "se_gate e")
  case None
  then show ?thesis by (simp add: explanation_text_def push_explanation_text_def [abs_def] Let_def appends_fmtI)
next
  case (Some gate)
  note v = validate_gate_Inr [OF assms [OF Some]]
  let ?i = "replicate indentation sp"
  let ?d = "if \<not> se_applied e then lit ''would drop'' else lit ''dropped''"
  let ?k = "if \<not> se_applied e then lit ''would keep'' else lit ''kept''"
  have entries: "appends (concat (map (gate_entry_text L ?i g a n) entries))
      (\<lambda>b. try_fold (\<lambda>b entry. push_gate_entry L ?i g a entry n b) b entries)"
    if "\<And>x. x \<in> set entries \<Longrightarrow> is_finite (ge_score x)" for g a n entries
    using that by (intro appends_fold appends_entry)
  have "appends (concat [?i, lit ''baseline '', format_fixed False 4 (vg_baseline gate), lit ''   floor '',
        format_fixed False 2 (vg_min_score gate), lit ''   gap '', format_fixed False 2 (vg_max_gap gate), lit ''   margin '',
        format_fixed True 4 (f64_sub (vg_baseline gate) (vg_min_score gate)),
        if se_applied e then [] else lit ''   (shown anyway: --no-gate)'', [nl]]
      @ concat (gate_summary ?i (\<not> se_applied e) gate)
      @ concat (map (gate_entry_text L ?i (lit ''floor'') ?d []) (vg_floor_dropped gate))
      @ concat (map (gate_entry_text L ?i (lit ''gap  '') ?d []) (vg_gap_dropped gate))
      @ concat (map (gate_entry_text L ?i (lit ''rescue'') ?k (lit ''  (exact identifier)'')) (vg_rescued gate)))
    (push_explanation_text L e indentation)"
    unfolding push_explanation_text_def Some
    by (simp only: Let_def option.case text_score_def text_number_def v simp_thms if_False res_bind_simps)
      (intro appends_fmt_bind appends_bind entries v; simp)
  moreover have "explanation_text L indentation e = concat [?i, lit ''baseline '', format_fixed False 4 (vg_baseline gate), lit ''   floor '',
        format_fixed False 2 (vg_min_score gate), lit ''   gap '', format_fixed False 2 (vg_max_gap gate), lit ''   margin '',
        format_fixed True 4 (f64_sub (vg_baseline gate) (vg_min_score gate)),
        if se_applied e then [] else lit ''   (shown anyway: --no-gate)'', [nl]]
      @ concat (gate_summary ?i (\<not> se_applied e) gate)
      @ concat (map (gate_entry_text L ?i (lit ''floor'') ?d []) (vg_floor_dropped gate))
      @ concat (map (gate_entry_text L ?i (lit ''gap  '') ?d []) (vg_gap_dropped gate))
      @ concat (map (gate_entry_text L ?i (lit ''rescue'') ?k (lit ''  (exact identifier)'')) (vg_rescued gate))"
    by (simp add: explanation_text_def gate_text_def Some Let_def)
  ultimately show ?thesis by simp
qed

lemma count_titles:
  "bt_wf (foldl (count_title L) [] hits) \<and> bt_get (foldl (count_title L) [] hits) t =
     (let n = length (filter (\<lambda>h. title_of L h = t) hits) in if n = 0 then None else Some n)"
proof (induction hits arbitrary: t rule: rev_induct)
  case (snoc hit hits)
  let ?m = "foldl (count_title L) [] hits"
  have step: "foldl (count_title L) [] (hits @ [hit]) =
      bt_insert (title_of L hit) ((case bt_get ?m (title_of L hit) of None \<Rightarrow> 0 | Some n \<Rightarrow> n) + 1) ?m"
    by (simp add: count_title_def Let_def title_of_def)
  have wf: "bt_wf ?m" and get: "\<And>t. bt_get ?m t =
      (let n = length (filter (\<lambda>h. title_of L h = t) hits) in if n = 0 then None else Some n)"
    using snoc by auto
  have put: "bt_get (bt_insert k v ?m) t = (if t = k then Some v else bt_get ?m t)" for k v t
    by (simp add: bt_get_def bt_insert_get [OF wf])
  show ?case unfolding step using bt_insert_wf [OF wf] by (auto simp: put get Let_def)
qed (simp add: bt_get_def bt_wf_def)

lemma appends_heading:
  assumes "is_finite (vh_score hit)" "hit \<in> set hits"
  shows "appends (heading_text L options hits hit) (push_heading L options (foldl (count_title L) [] hits) hit)"
proof -
  have n: "length (filter (\<lambda>h. title_of L h = title_of L hit) hits) \<noteq> 0"
    using assms(2) by (auto simp: filter_empty_conv)
  let ?i = "replicate (to_indent options) sp"
  let ?p = "to_show_path options \<or> 1 < length (filter (\<lambda>h. title_of L h = title_of L hit) hits)"
  have path: "appends (if ?p then ?i @ lit ''  '' @ sanitized L (vh_path hit) Inline @ [nl] else [])
     (\<lambda>b. if ?p then write_fmt [?i, lit ''  '', sanitized L (vh_path hit) Inline, [nl]] b else Inr b)"
    by (cases ?p) (auto simp: appends_Inr intro: appends_fmtI)
  have "push_heading L options (foldl (count_title L) [] hits) hit =
     (\<lambda>b. res_bind (write_fmt [if to_indent options = 0 then [nl] else [], ?i,
         if to_styling options = Ansi then esc # lit ''[1m'' else [], title_of L hit,
         if to_styling options = Ansi then esc # lit ''[0m'' else [], lit ''  ('', format_fixed False 4 (vh_score hit), lit '')'',
         text_labels L hit, [nl]] b)
       (\<lambda>b. if ?p then write_fmt [?i, lit ''  '', sanitized L (vh_path hit) Inline, [nl]] b else Inr b))"
    using n assms(1)
    by (intro ext) (cases "to_styling options"; cases "to_show_path options";
      simp add: push_heading_def text_score_def Let_def count_titles flip: title_of_def)
  with appends_fmt_bind [OF path, of "[if to_indent options = 0 then [nl] else [], ?i,
         if to_styling options = Ansi then esc # lit ''[1m'' else [], title_of L hit,
         if to_styling options = Ansi then esc # lit ''[0m'' else [], lit ''  ('', format_fixed False 4 (vh_score hit), lit '')'',
         text_labels L hit, [nl]]"]
  show ?thesis by (simp add: heading_text_def Let_def)
qed

lemma appends_body: "appends (body_text L options hit) (push_body L options hit)"
  by (auto simp: body_text_def push_body_def [abs_def] take_chars_def Let_def appends_multiline intro!: appends_fmtI)

lemma appends_ranks:
  assumes "validate_view_hit hit = Inr ()" "explanation \<noteq> None \<Longrightarrow> vh_explanation hit \<noteq> None"
  shows "appends (if explanation = None then [] else ranks_text options hit) (push_ranks options explanation hit)"
proof (cases "explanation = None")
  case False
  then obtain e where e: "vh_explanation hit = Some e" using assms(2) by auto
  then show ?thesis
    using False validate_view_hit_Inr(2) [OF assms(1) e]
    by (auto simp: push_ranks_def [abs_def] ranks_text_def intro!: appends_fmtI split: option.split)
qed (simp add: push_ranks_def [abs_def] appends_Inr)

lemma appends_hit:
  assumes "validate_view_hit hit = Inr ()" "explanation \<noteq> None \<Longrightarrow> vh_explanation hit \<noteq> None" "hit \<in> set hits"
  shows "appends (heading_text L options hits hit @ body_text L options hit
                 @ (if explanation = None then [] else ranks_text options hit))
     (\<lambda>b. push_hit L options explanation (foldl (count_title L) [] hits) b hit)"
  unfolding push_hit_def
  by (intro appends_bind appends_heading appends_body appends_ranks assms validate_view_hit_Inr(1) [OF assms(1)])

lemma appends_inner:
  assumes "\<And>hit. hit \<in> set hits \<Longrightarrow> validate_view_hit hit = Inr ()"
    and "\<And>hit. hit \<in> set hits \<Longrightarrow> explanation \<noteq> None \<Longrightarrow> vh_explanation hit \<noteq> None"
    and "\<And>e gate. explanation = Some e \<Longrightarrow> se_gate e = Some gate \<Longrightarrow> validate_gate gate = Inr ()"
  shows "appends (hits_text L hits explanation options) (render_text_inner L hits explanation options)"
proof -
  let ?why = "case explanation of None \<Rightarrow> [] | Some e \<Rightarrow> explanation_text L (to_indent options) e"
  have why: "appends ?why (\<lambda>b. case explanation of None \<Rightarrow> Inr b | Some e \<Rightarrow> push_explanation_text L e (to_indent options) b)"
    using assms(3) appends_Inr by (cases explanation) (auto intro: appends_explanation)
  show ?thesis
  proof (cases "hits = []")
    case True
    have "appends ((case explanation of
               Some e \<Rightarrow> if se_gate e \<noteq> None then lit ''no confident match'' @ [nl] else lit ''no results'' @ [nl]
             | None \<Rightarrow> lit ''no results'' @ [nl]) @ ?why) (render_text_inner L hits explanation options)"
      using appends_bind [OF appends_piece why] True by (simp add: render_text_inner_def [abs_def])
    with True show ?thesis by (auto simp: hits_text_def split: option.splits)
  next
    case False
    have "appends (concat (map (\<lambda>hit. heading_text L options hits hit @ body_text L options hit
                 @ (if explanation = None then [] else ranks_text options hit)) hits))
       (\<lambda>b. try_fold (push_hit L options explanation (foldl (count_title L) [] hits)) b hits)"
      using assms(1,2) by (intro appends_fold appends_hit) auto
    moreover have "appends (if to_indent options = 0 then [nl] else []) (\<lambda>b. if to_indent options = 0 then write_piece b [nl] else Inr b)"
      using appends_piece [of "[nl]"] appends_Inr by simp
    ultimately show ?thesis
      using False appends_bind [OF why appends_bind] by (simp add: render_text_inner_def [abs_def] hits_text_def Let_def)
  qed
qed

lemma appends_group:
  assumes "validate_hits (pr_hits grp) = Inr ()"
  shows "appends (grouped_text L full styling grp) (\<lambda>b. push_group L full styling b grp)"
proof (cases "pr_hits grp = []")
  case False
  have "appends (hits_text L (pr_hits grp) None (options_grouped full styling))
      (render_text_inner L (pr_hits grp) None (options_grouped full styling))"
    using assms by (intro appends_inner) (auto simp: validate_hits_Inr)
  from appends_fmt_bind [OF this, of "[[nl], if styling = Ansi then esc # lit ''[4m'' else [], sanitized L (pr_project grp) Inline,
       if styling = Ansi then esc # lit ''[0m'' else [], [nl]]"]
  show ?thesis using False by (cases styling) (auto simp: push_group_def [abs_def] grouped_text_def)
qed (simp add: push_group_def [abs_def] grouped_text_def appends_Inr)


subsection \<open>Safe text\<close>

text \<open>The table of format characters holds no printable ASCII character and not the dash of the fixed texts.\<close>

definition format_ok :: "(uchar \<Rightarrow> bool) \<Rightarrow> bool" where
  "format_ok f = ((\<forall>c. 32 \<le> c \<and> c < 127 \<longrightarrow> \<not> f c) \<and> \<not> f em_dash)"

abbreviation safe_text :: "render_lib \<Rightarrow> ustr \<Rightarrow> bool" where
  "safe_text L \<equiv> safe_frame (rl_is_format L) RenderedFrame"

lemma safe_frame_append: "safe_frame f t a \<Longrightarrow> safe_frame f t b \<Longrightarrow> safe_frame f t (a @ b)"
  by (induction rule: safe_frame.induct) (auto intro: safe_frame.intros)

lemma safe_frame_concat: "(\<And>s. s \<in> set ss \<Longrightarrow> safe_frame f t s) \<Longrightarrow> safe_frame f t (concat ss)"
  by (induction ss) (auto intro: safe_nil safe_frame_append)

lemma safe_frame_if: "(b \<Longrightarrow> safe_frame f t x) \<Longrightarrow> (\<not> b \<Longrightarrow> safe_frame f t y) \<Longrightarrow> safe_frame f t (if b then x else y)"
  by simp

lemma safe_frame_chars: "\<forall>c \<in> set s. passes f t c \<Longrightarrow> safe_frame f t s"
  by (induction s) (auto intro: safe_frame.intros)

lemma safe_frame_char: "passes f t c \<Longrightarrow> safe_frame f t [c]"
  by (rule safe_frame_chars) simp

lemma safe_ascii:
  "format_ok (rl_is_format L) \<Longrightarrow> \<forall>c \<in> set s. 32 \<le> c \<and> c < 127 \<Longrightarrow> safe_text L s"
  by (rule safe_frame_chars) (auto simp: passes_def format_ok_def)

lemma safe_lit:
  "format_ok (rl_is_format L) \<Longrightarrow> list_all (\<lambda>c. 32 \<le> (of_char c :: nat) \<and> (of_char c :: nat) < 127) s \<Longrightarrow> safe_text L (lit s)"
  by (rule safe_ascii) (auto simp: lit_def list_all_iff)

lemma safe_newline: "safe_text L [nl]"
  by (rule safe_frame_char) (simp add: passes_def)

lemma safe_dash: "format_ok (rl_is_format L) \<Longrightarrow> safe_text L [em_dash]"
  by (rule safe_frame_char) (simp add: passes_def format_ok_def)

lemma safe_newline_Cons: "safe_text L s \<Longrightarrow> safe_text L (nl # s)"
  by (rule safe_char) (simp add: passes_def)

lemma safe_dash_Cons: "format_ok (rl_is_format L) \<Longrightarrow> safe_text L s \<Longrightarrow> safe_text L (em_dash # s)"
  by (rule safe_char) (simp add: passes_def format_ok_def)

lemma safe_indent: "format_ok (rl_is_format L) \<Longrightarrow> safe_text L (replicate n sp)"
  by (rule safe_ascii) auto

lemma safe_style_text: "style \<in> set SAFE_STYLES \<Longrightarrow> safe_text L style"
  using safe_style_tok [of RenderedFrame style _ "[]"] safe_nil by simp

lemma sanitized_set: "t \<noteq> RenderedFrame \<Longrightarrow> c \<in> set (sanitized L s t) \<Longrightarrow> passes (rl_is_format L) RenderedFrame c"
  by (auto simp: sanitized_def cow_str_sanitize sanitize_loop_plain passes_def)

lemma safe_sanitized: "t \<noteq> RenderedFrame \<Longrightarrow> safe_text L (sanitized L s t)"
  by (rule safe_frame_chars) (blast dest: sanitized_set)

lemma decimal_ascii: "c \<in> set (decimal n) \<Longrightarrow> 48 \<le> c \<and> c < 58"
proof (induction n rule: decimal.induct)
  case (1 n)
  then show ?case by (cases "n < 10") (auto simp: decimal.simps [of n])
qed

lemma zero_padded_ascii: "c \<in> set (zero_padded k n) \<Longrightarrow> 48 \<le> c \<and> c < 58"
proof (induction k n rule: zero_padded.induct)
  case (1 k n)
  then show ?case by (cases "k = 0") (auto simp: zero_padded.simps [of k n] zero_padded.simps [of 0])
qed

lemma safe_fixed: "format_ok (rl_is_format L) \<Longrightarrow> safe_text L (format_fixed with_sign precision v)"
  by (rule safe_ascii, assumption, cases v)
    (auto simp: fixed_digits_def Let_def lit_def dest!: decimal_ascii zero_padded_ascii)

lemma safe_decimal: "format_ok (rl_is_format L) \<Longrightarrow> safe_text L (decimal n)"
  by (rule safe_ascii) (auto dest!: decimal_ascii)

lemma split_inclusive_set: "line \<in> set (split_inclusive sep cur s) \<Longrightarrow> set line \<subseteq> set cur \<union> set s"
  by (induction sep cur s rule: split_inclusive.induct) (auto split: if_splits)

lemmas safe_intros = safe_frame_append safe_frame_concat safe_frame_if safe_newline safe_newline_Cons safe_dash safe_dash_Cons safe_indent
  safe_sanitized safe_fixed safe_decimal safe_lit safe_nil

lemma safe_multiline:
  assumes "format_ok (rl_is_format L)" "\<forall>c \<in> set body. passes (rl_is_format L) RenderedFrame c" "safe_text L indent"
  shows "safe_text L (indented_text indent body)"
proof -
  have "safe_text L line" if "line \<in> set (split_inclusive nl [] body)" for line
    using split_inclusive_set [OF that] assms(2) by (intro safe_frame_chars) auto
  then show ?thesis using assms(1,3) unfolding indented_text_def
    by (auto intro!: safe_intros)
qed

lemma safe_labels:
  assumes "format_ok (rl_is_format L)"
  shows "safe_text L (text_labels L hit)"
proof -
  have c: "safe_text L (corpus_name k)" for k using assms by (cases k) (auto intro!: safe_lit)
  have j: "safe_text L (join (lit '', '') xs)" if "\<forall>x \<in> set xs. safe_text L x" for xs
    using that assms by (induction "lit '', ''" xs rule: join.induct) (auto intro!: safe_intros)
  show ?thesis unfolding text_labels_def Let_def using assms c
    by (auto intro!: safe_intros j split: option.splits)
qed


lemma safe_entry: "format_ok (rl_is_format L) \<Longrightarrow> safe_text L indent \<Longrightarrow> safe_text L gate \<Longrightarrow> safe_text L action
    \<Longrightarrow> safe_text L note \<Longrightarrow> safe_text L (gate_entry_text L indent gate action note entry)"
  unfolding gate_entry_text_def by (auto intro!: safe_intros)

lemma safe_summary:
  assumes "format_ok (rl_is_format L)" "safe_text L indent"
  shows "safe_text L (concat (gate_summary indent hypothetical gate))"
  using assms unfolding gate_summary_def
  by (auto intro!: safe_intros)

lemma safe_explanation:
  assumes "format_ok (rl_is_format L)"
  shows "safe_text L (explanation_text L indentation e)"
proof -
  have i: "safe_text L (replicate indentation sp)" by (rule safe_indent [OF assms])
  have "safe_text L (gate_text L (replicate indentation sp) h gate)" for h gate
    unfolding gate_text_def Let_def
    by (intro safe_intros safe_summary i assms) (auto intro!: safe_entry i assms safe_intros)
  then show ?thesis unfolding explanation_text_def Let_def using i assms
    by (cases "se_gate e") (auto intro!: safe_intros)
qed

lemma safe_hits:
  assumes "format_ok (rl_is_format L)"
  shows "safe_text L (hits_text L hits explanation options)"
proof -
  note i = safe_indent [OF assms]
  have esc: "safe_text L (esc # lit ''[0m'')" "safe_text L (esc # lit ''[1m'')" "safe_text L (esc # lit ''[4m'')"
    by (auto intro!: safe_style_text simp: SAFE_STYLES_def)
  have body: "safe_text L (body_text L options hit)" for hit
    unfolding body_text_def Let_def
    by (intro safe_frame_if safe_multiline assms i safe_intros ballI ballI) (auto elim!: sanitized_set [rotated])
  have head: "safe_text L (heading_text L options hits hit)" for hit
    unfolding heading_text_def Let_def title_of_def
    by (intro safe_intros assms esc safe_labels) auto
  have rank: "safe_text L (rank_text r)" for r
    using assms by (cases r) (auto simp: rank_text_def intro!: safe_intros)
  have ranks: "safe_text L (ranks_text options hit)" for hit
    unfolding ranks_text_def using assms
    by (auto intro!: safe_intros rank split: option.split)
  show ?thesis unfolding hits_text_def Let_def
    using assms body head ranks safe_explanation [OF assms]
    by (auto intro!: safe_intros split: option.split)
qed

lemma safe_groups:
  assumes "format_ok (rl_is_format L)"
  shows "safe_text L (groups_text L groups full styling)"
proof -
  have esc: "safe_text L (esc # lit ''[0m'')" "safe_text L (esc # lit ''[4m'')"
    by (auto intro!: safe_style_text simp: SAFE_STYLES_def)
  have "safe_text L (grouped_text L full styling grp)" for grp
    unfolding grouped_text_def by (intro safe_intros esc safe_hits assms) simp_all
  then show ?thesis unfolding groups_text_def by (auto intro!: safe_intros)
qed

lemma finish_safe:
  "safe_text L (bb_inner b) \<Longrightarrow> finish_text_output L b = bb_inner b"
  by (simp add: finish_text_output_def sanitized_def cow_str_sanitize sanitize_loop_fixed)

subsection \<open>JSON lemmas\<close>

lemma round_dec4_finite:
  assumes "is_finite x" "f64_wf x"
  shows "is_finite (round_dec4 x)"
proof -
  obtain s q where x: "x = Fin s q" using assms(1) by (auto simp: is_finite_iff)
  with assms(2) have q: "0 \<le> q" "q < f64_overflow" "round_mag q = q" by auto
  let ?d = "of_int (round_half_even (q * 10000)) / 10000 :: rat"
  show ?thesis
  proof (cases "q \<le> power_int 2 53")
    case True
    have "(of_int (round_half_even (q * 10000)) :: rat) \<le> of_int \<lfloor>q * 10000\<rfloor> + 1"
      using round_half_even_bounds(2) [of "q * 10000"] by linarith
    also have "\<dots> \<le> q * 10000 + 1" by simp
    finally have "?d \<le> q + 1" by simp
    also have "\<dots> \<le> power_int 2 53 + power_int 2 53" using True power_int_2_mono [of 0 53] by simp
    also have "\<dots> = power_int 2 54" using power_int_2_Suc [of 53] by simp
    finally have hi: "?d \<le> power_int 2 54" .
    have "0 \<le> ?d" using q(1) round_half_even_ge [of 0 "q * 10000"] by simp
    from f64_of_mag_small [OF this hi, of s] show ?thesis by (simp add: x)
  next
    case False
    then have pos: "0 < q" and big: "power_int 2 53 < q" using q(1) by (auto simp: order_le_less)
    have "(power_int 2 53 :: rat) < power_int 2 (floor_log2 q + 1)"
      using big floor_log2_bounds(2) [OF pos] by linarith
    then have e: "53 \<le> floor_log2 q" unfolding power_int_2_less_iff by simp
    then have "ulp q = of_int (2 ^ nat (floor_log2 q - 52))" by (simp add: ulp_def pow_int_of_int)
    then obtain n where n: "q = of_int n" using q(3) pos unfolding round_mag_def by (metis less_irrefl of_int_mult)
    have "?d = q" by (simp add: n) (metis of_int_mult of_int_numeral round_half_even_of_int nonzero_mult_div_cancel_right zero_neq_numeral)
    then show ?thesis using q by (simp add: x f64_of_mag_def)
  qed
qed


text \<open>Members of an object, and the hits of a rendered value.\<close>

fun json_get :: "json_value \<Rightarrow> ustr \<Rightarrow> json_value option" where
  "json_get (VObject m) k = map_of m k"
| "json_get _ _ = None"

definition json_hits :: "bool \<Rightarrow> json_value \<Rightarrow> json_value option" where
  "json_hits explained v = (if explained then json_get v (lit ''hits'') else Some v)"

text \<open>Every float of a response is a value the machine can hold.\<close>

definition hit_wf :: "view_hit \<Rightarrow> bool" where
  "hit_wf hit = (f64_wf (vh_score hit) \<and> (\<forall>e x. vh_explanation hit = Some e \<longrightarrow> ve_rrf_score e = Some x \<longrightarrow> f64_wf x))"

definition gate_wf :: "view_gate \<Rightarrow> bool" where
  "gate_wf gate = (f64_wf (vg_baseline gate) \<and> f64_wf (vg_min_score gate) \<and> f64_wf (vg_max_gap gate)
     \<and> (\<forall>x. vg_top gate = Some x \<longrightarrow> f64_wf x)
     \<and> (\<forall>e \<in> set (vg_floor_dropped gate) \<union> set (vg_gap_dropped gate) \<union> set (vg_rescued gate). f64_wf (ge_score e)))"

definition response_wf :: "view_response \<Rightarrow> bool" where
  "response_wf response = ((\<forall>hit \<in> set (vr_hits response). hit_wf hit)
     \<and> (\<forall>e gate. vr_explanation response = Some e \<longrightarrow> se_gate e = Some gate \<longrightarrow> gate_wf gate))"

text \<open>What the object of a hit holds: the strings as they are, the score rounded to four places.\<close>

definition hit_object :: "view_hit \<Rightarrow> json_value \<Rightarrow> bool" where
  "hit_object hit v =
     (json_get v (lit ''name'') = Some (VString (vh_name hit)) \<and> json_get v (lit ''path'') = Some (VString (vh_path hit))
    \<and> json_get v (lit ''text'') = Some (VString (vh_text hit)) \<and> json_get v (lit ''snippet'') = Some (VString (vh_snippet hit))
    \<and> json_get v (lit ''score'') = Some (VNumber (FloatNumber (round_dec4 (vh_score hit))))
    \<and> json_get v (lit ''clipped_start'') = Some (VBool (vh_clipped_start hit))
    \<and> json_get v (lit ''clipped_end'') = Some (VBool (vh_clipped_end hit))
    \<and> json_get v (lit ''exact'') = Some (VBool (vh_exact hit))
    \<and> json_get v (lit ''corpus'') = Some (VString (corpus_name (vh_corpus hit)))
    \<and> json_get v (lit ''status'') = map_option VString (vh_status hit))"

lemma object_get:
  "json_get (object_of entries) k = map_of (rev entries) k"
proof -
  have "bt_wf (foldl (\<lambda>m (k, v). bt_insert k v m) [] es) \<and>
      map_of (foldl (\<lambda>m (k, v). bt_insert k v m) [] es) = map_of (rev es)" for es :: "(ustr \<times> json_value) list"
    by (induction es rule: rev_induct) (auto simp: bt_wf_def bt_insert_wf [unfolded bt_wf_def] bt_insert_get [unfolded bt_wf_def] map_add_def fun_eq_iff)
  then show ?thesis by (simp add: object_of_def)
qed

lemma finite_four_Inr: "is_finite x \<Longrightarrow> f64_wf x \<Longrightarrow> finite_four field x = Inr (VNumber (FloatNumber (round_dec4 x)))"
  by (simp add: finite_four_def json_float_def round_dec4_finite)

lemma finite_number_Inr: "is_finite x \<Longrightarrow> finite_number field x = Inr (VNumber (FloatNumber x))"
  by (simp add: finite_number_def json_float_def)

lemma hit_explanation_json_Inr:
  assumes "\<And>x. ve_rrf_score e = Some x \<Longrightarrow> is_finite x"
  shows "\<exists>v. hit_explanation_json e = Inr v"
  using assms by (auto simp: hit_explanation_json_def finite_number_Inr split: option.split)

lemma hit_json_Inr:
  assumes "validate_view_hit hit = Inr ()" "hit_wf hit" "explained \<Longrightarrow> vh_explanation hit \<noteq> None"
  shows "\<exists>v. hit_json hit explained project = Inr v \<and> hit_object hit v
    \<and> json_get v (lit ''project'') = map_option VString project"
proof -
  have four: "finite_four (lit ''score'') (vh_score hit) = Inr (VNumber (FloatNumber (round_dec4 (vh_score hit))))"
    using assms(2) validate_view_hit_Inr(1) [OF assms(1)] by (intro finite_four_Inr) (auto simp: hit_wf_def)
  obtain ex where ex: "(if \<not> explained then Inr []
               else case vh_explanation hit of
                 None \<Rightarrow> Inl (MissingHitExplanation (vh_path hit))
               | Some e \<Rightarrow> res_map (\<lambda>v. [(lit ''explain'', v)]) (hit_explanation_json e)) = Inr ex"
    and keys: "set (map fst ex) \<subseteq> {lit ''explain''}"
  proof (cases explained)
    case True
    then obtain e where e: "vh_explanation hit = Some e" using assms(3) by auto
    obtain v where "hit_explanation_json e = Inr v"
      using hit_explanation_json_Inr validate_view_hit_Inr(2) [OF assms(1) e] by blast
    with True e that show thesis by simp
  qed (use that in simp)
  have other: "map_of (rev ex) (lit k) = None" if "k \<noteq> ''explain''" for k
    using keys that by (auto simp: map_of_eq_None_iff)
  show ?thesis
    unfolding hit_json_def four res_bind_simps ex hit_object_def
    by (cases project; cases "vh_status hit") (simp_all add: object_get map_add_def other)
qed

lemma gate_entries_json_Inr:
  "(\<And>e. e \<in> set entries \<Longrightarrow> is_finite (ge_score e) \<and> f64_wf (ge_score e)) \<Longrightarrow> \<exists>v. gate_entries_json field entries = Inr v"
  unfolding gate_entries_json_def
  by (subst try_map_total [where g = "\<lambda>entry. object_of [(lit ''path'', VString (ge_path entry)),
       (lit ''score'', VNumber (FloatNumber (round_dec4 (ge_score entry))))]"]) (auto simp: finite_four_Inr)

lemma gate_json_Inr:
  assumes "validate_gate gate = Inr ()" "gate_wf gate"
  shows "\<exists>v. gate_json gate = Inr v"
proof -
  note v = validate_gate_Inr [OF assms(1)]
  have w: "f64_wf (vg_baseline gate)" "f64_wf (f64_sub (vg_baseline gate) (vg_min_score gate))"
    using assms(2) by (auto simp: gate_wf_def f64_sub_def f64_add_wf f64_neg_wf)
  have "\<exists>t. (case vg_top gate of None \<Rightarrow> Inr VNull | Some score \<Rightarrow> finite_four (lit ''top'') score) = Inr t"
    using v(5) assms(2) by (auto simp: gate_wf_def finite_four_Inr split: option.split)
  moreover have "\<exists>v. gate_entries_json (lit ''floor_dropped.score'') (vg_floor_dropped gate) = Inr v"
    "\<exists>v. gate_entries_json (lit ''gap_dropped.score'') (vg_gap_dropped gate) = Inr v"
    "\<exists>v. gate_entries_json (lit ''rescued.score'') (vg_rescued gate) = Inr v"
    using v(6) assms(2) by (auto intro!: gate_entries_json_Inr simp: gate_wf_def)
  ultimately show ?thesis
    unfolding gate_json_def using v w by (auto simp: finite_four_Inr finite_number_Inr)
qed

lemma hits_json_Inr:
  assumes "\<forall>hit \<in> set hits. validate_view_hit hit = Inr () \<and> hit_wf hit \<and> (explained \<longrightarrow> vh_explanation hit \<noteq> None)"
  shows "\<exists>objs. try_map (\<lambda>hit. hit_json hit explained None) hits = Inr objs \<and> list_all2 hit_object hits objs"
  using assms
proof (induction hits)
  case (Cons hit hits)
  then obtain v where "hit_json hit explained None = Inr v" "hit_object hit v"
    using hit_json_Inr [of hit explained None] by auto
  with Cons show ?case by auto
qed simp

lemma response_value_Inr:
  assumes "validate_response response = Inr ()" "response_wf response"
    and "vr_explanation response \<noteq> None \<Longrightarrow> \<forall>hit \<in> set (vr_hits response). vh_explanation hit \<noteq> None"
  shows "\<exists>v objs. response_value response = Inr v \<and> json_hits (vr_explanation response \<noteq> None) v = Some (VArray objs)
    \<and> list_all2 hit_object (vr_hits response) objs
    \<and> (\<forall>e. vr_explanation response = Some e \<longrightarrow> json_get v (lit ''query'') = Some (VString (se_query e)))"
proof -
  have hits: "\<forall>hit \<in> set (vr_hits response). validate_view_hit hit = Inr () \<and> hit_wf hit"
    and gates: "\<And>e gate. vr_explanation response = Some e \<Longrightarrow> se_gate e = Some gate \<Longrightarrow> validate_gate gate = Inr () \<and> gate_wf gate"
    using assms(1,2) by (auto simp: validate_response_Inr response_wf_def)
  show ?thesis
  proof (cases "vr_explanation response")
    case None
    then show ?thesis using hits_json_Inr [of "vr_hits response" False] hits by (auto simp: response_value_def json_hits_def)
  next
    case (Some e)
    obtain g where g: "(case se_gate e of None \<Rightarrow> Inr VNull | Some gate \<Rightarrow> gate_json gate) = Inr g"
      using gate_json_Inr gates [OF Some] by (cases "se_gate e") auto
    obtain objs where "try_map (\<lambda>hit. hit_json hit True None) (vr_hits response) = Inr objs" "list_all2 hit_object (vr_hits response) objs"
      using hits_json_Inr [of "vr_hits response" True] hits assms(3) Some by auto
    with Some g show ?thesis by (simp add: response_value_def explain_json_def json_hits_def object_get)
  qed
qed

lemma escape_c1_range: "c \<in> set (escape_c1 x) \<Longrightarrow> \<not> (0x7F \<le> c \<and> c \<le> 0x9F)"
  by (auto simp: escape_c1_def hex04_def hex_digit_def lit_def split: if_splits)

lemma json_line_Inr:
  "json_line L v = Inr out \<Longrightarrow> \<exists>s. rl_pretty L v = Inr s \<and> out = concat (map escape_c1 s) @ [nl]
     \<and> (\<forall>c \<in> set out. \<not> (0x7F \<le> c \<and> c \<le> 0x9F))"
  by (auto simp: json_line_def res_bind_Inr_iff dest: escape_c1_range)

definition demo_render_lib :: render_lib where
  "demo_render_lib = \<lparr> rl_is_format = (\<lambda>c. c = 0x202E), rl_pretty = (\<lambda>v. Inr [91, 0x85, 93]) \<rparr>"

definition demo_hit :: view_hit where
  "demo_hit = \<lparr> vh_name = esc # lit ''[1mA'', vh_path = lit ''a.md'', vh_score = f64_one, vh_text = lit ''x'',
     vh_snippet = lit ''x'', vh_clipped_start = False, vh_clipped_end = True, vh_corpus = PrivateCorpus, vh_exact = False,
     vh_status = Some (lit ''draft''), vh_explanation = None \<rparr>"

definition demo_response :: view_response where
  "demo_response = \<lparr> vr_hits = [demo_hit], vr_explanation = None \<rparr>"

lemma demo_response_valid: "validate_response demo_response = Inr ()" "response_wf demo_response"
  "format_ok (rl_is_format demo_render_lib)"
proof -
  show "validate_response demo_response = Inr ()" by code_simp
  show "response_wf demo_response" by (simp add: response_wf_def demo_response_def demo_hit_def hit_wf_def f64_consts)
  show "format_ok (rl_is_format demo_render_lib)" by (simp add: format_ok_def demo_render_lib_def)
qed

section \<open>Properties\<close>

text \<open>C35: The text of a valid response is rendered whole or not at all. It is the reference text, built
  without a buffer: the gate's verdict, and for every hit its sanitized title, score and labels, its
  path and its body. For every capacity the renderer returns exactly that text when it fits, and
  the limit error otherwise; the text is a safe frame, so the last sanitizing pass changes nothing.\<close>

theorem render_text_whole:
  assumes "format_ok (rl_is_format L)" "validate_response response = Inr ()"
    and "vr_explanation response \<noteq> None \<longrightarrow> (\<forall>hit \<in> set (vr_hits response). vh_explanation hit \<noteq> None)"
  shows "safe_frame (rl_is_format L) RenderedFrame (hits_text L (vr_hits response) (vr_explanation response) options)
    \<and> render_text_capped L cap response options =
        (let T = hits_text L (vr_hits response) (vr_explanation response) options
         in if utf8_len T \<le> cap then Inr T else Inl OutputLimit)"
proof -
  let ?T = "hits_text L (vr_hits response) (vr_explanation response) options"
  have safe: "safe_text L ?T" by (rule safe_hits [OF assms(1)])
  have "appends ?T (render_text_inner L (vr_hits response) (vr_explanation response) options)"
    using assms(2,3) by (intro appends_inner) (auto simp: validate_response_Inr)
  from appends_new [OF this, of cap] safe show ?thesis
    by (simp add: render_text_capped_def assms(2) finish_safe Let_def)
qed

theorem render_text_whole_witness:
  "render_text_capped demo_render_lib 57 demo_response (options_single False Ansi) =
      Inr ([nl, esc] @ lit ''[1m[1mA'' @ [esc] @ lit ''[0m  (1.0000)  [private, draft]'' @ [nl] @ lit ''  a.md'' @ [nl]
        @ lit ''  x...'' @ [nl, nl])
   \<and> render_text_capped demo_render_lib 56 demo_response (options_single False Ansi) = Inl OutputLimit"
proof -
  have T: "hits_text demo_render_lib (vr_hits demo_response) (vr_explanation demo_response) (options_single False Ansi) =
      [nl, esc] @ lit ''[1m[1mA'' @ [esc] @ lit ''[0m  (1.0000)  [private, draft]'' @ [nl] @ lit ''  a.md'' @ [nl]
        @ lit ''  x...'' @ [nl, nl]" by code_simp
  have "utf8_len (hits_text demo_render_lib (vr_hits demo_response) (vr_explanation demo_response) (options_single False Ansi)) = 57"
    unfolding T by code_simp
  moreover have "vr_explanation demo_response \<noteq> None \<longrightarrow> (\<forall>hit \<in> set (vr_hits demo_response). vh_explanation hit \<noteq> None)"
    by (simp add: demo_response_def)
  ultimately show ?thesis
    using render_text_whole [OF demo_response_valid(3,1), of "options_single False Ansi"] by (simp add: Let_def T)
qed

text \<open>C36: JSON keeps what the response holds. For a valid response the value is always built, no
  \<open>expect\<close> fails, and the array of hits has one object per hit in order, with the strings unchanged and
  the score rounded to four places. The line printed is the serialized value in which every
  character of the control range \<open>0x7f\<close>--\<open>0x9f\<close> is escaped.\<close>

theorem render_json_retains:
  assumes "validate_response response = Inr ()" "response_wf response"
    and "vr_explanation response \<noteq> None \<longrightarrow> (\<forall>hit \<in> set (vr_hits response). vh_explanation hit \<noteq> None)"
  shows "\<exists>v objs. json_hits (vr_explanation response \<noteq> None) v = Some (VArray objs)
    \<and> list_all2 hit_object (vr_hits response) objs
    \<and> (\<forall>e. vr_explanation response = Some e \<longrightarrow> json_get v (lit ''query'') = Some (VString (se_query e)))
    \<and> render_json L response = (case rl_pretty L v of Inl e \<Rightarrow> Inl (JsonError e)
        | Inr s \<Rightarrow> Inr (concat (map escape_c1 s) @ [nl]))
    \<and> (\<forall>out c. render_json L response = Inr out \<longrightarrow> c \<in> set out \<longrightarrow> c < 0x7F \<or> 0x9F < c)"
proof -
  obtain v objs where v: "response_value response = Inr v" "json_hits (vr_explanation response \<noteq> None) v = Some (VArray objs)"
    "list_all2 hit_object (vr_hits response) objs"
    "\<forall>e. vr_explanation response = Some e \<longrightarrow> json_get v (lit ''query'') = Some (VString (se_query e))"
    using response_value_Inr [OF assms(1,2)] assms(3) by blast
  then have r: "render_json L response = json_line L v" by (simp add: render_json_def assms(1))
  have "json_line L v = (case rl_pretty L v of Inl e \<Rightarrow> Inl (JsonError e) | Inr s \<Rightarrow> Inr (concat (map escape_c1 s) @ [nl]))"
    by (cases "rl_pretty L v") (simp_all add: json_line_def)
  moreover have "\<forall>out c. json_line L v = Inr out \<longrightarrow> c \<in> set out \<longrightarrow> c < 0x7F \<or> 0x9F < c"
    using json_line_Inr by (metis not_le)
  ultimately show ?thesis using v(2-4) unfolding r by blast
qed

theorem render_json_retains_witness:
  "(\<exists>v obj. v = VArray [obj] \<and> json_get obj (lit ''name'') = Some (VString (esc # lit ''[1mA'')))
   \<and> render_json demo_render_lib demo_response = Inr (lit [CHR ''['', CHR 0x5C] @ lit ''u0085]'' @ [nl])"
proof -
  obtain v objs where v: "json_hits False v = Some (VArray objs)" "list_all2 hit_object [demo_hit] objs"
    "render_json demo_render_lib demo_response = (case rl_pretty demo_render_lib v of Inl e \<Rightarrow> Inl (JsonError e)
        | Inr s \<Rightarrow> Inr (concat (map escape_c1 s) @ [nl]))"
    using render_json_retains [OF demo_response_valid(1,2), of demo_render_lib] by (auto simp: demo_response_def)
  moreover have "concat (map escape_c1 [91, 0x85, 93]) = lit [CHR ''['', CHR 0x5C] @ lit ''u0085]''" by code_simp
  ultimately show ?thesis by (auto simp: json_hits_def demo_render_lib_def list_all2_Cons1 hit_object_def demo_hit_def)
qed

text \<open>The grouped renderer has the same contract over the groups that hold a hit.\<close>

lemma render_all_text_whole:
  assumes "format_ok (rl_is_format L)" "validate_groups groups = Inr ()"
  shows "render_all_text_capped L cap groups full styling =
     (let T = groups_text L groups full styling
      in if \<forall>grp \<in> set groups. pr_hits grp = [] then Inr (lit ''no results'' @ [nl])
         else if utf8_len T \<le> cap then Inr T else Inl OutputLimit)"
proof -
  let ?G = "concat (map (grouped_text L full styling) groups)"
  have a: "appends ?G (\<lambda>b. try_fold (push_group L full styling) b groups)"
    using assms(2) by (intro appends_fold appends_group) (auto simp: validate_groups_Inr)
  have empty: "?G = [] \<longleftrightarrow> (\<forall>grp \<in> set groups. pr_hits grp = [])"
    by (auto simp: grouped_text_def)
  have g: "try_fold (push_group L full styling) (buffer_new cap) groups =
      (if utf8_len ?G \<le> cap then Inr \<lparr> bb_inner = ?G, bb_cap = cap, bb_overflowed = False \<rparr> else Inl OutputLimit)"
    by (rule appends_new [OF a])
  have safe: "safe_text L (?G @ [nl])" using safe_groups [OF assms(1)] by (simp add: groups_text_def)
  show ?thesis
  proof (cases "?G = []")
    case True
    then have "utf8_len ?G = 0" by (simp only: utf8_len_Nil)
    with True show ?thesis using empty assms(2)
      by (cases "groups = []") (simp_all only: render_all_text_capped_def assms(2) g, simp_all)
  next
    case False
    then have "groups \<noteq> []" by auto
    with False show ?thesis
      using empty by (auto simp: render_all_text_capped_def assms(2) g Let_def groups_text_def write_piece_def write_str_def
          finish_safe safe)
  qed
qed

end
