(* ===== verification/Layout.thy ===== *)
theory Layout
  imports Corpus Rust_Number
begin

text \<open>
  The environment and the runtime layout of the command-line tool (\<open>crates/yams-cli/src/layout.rs\<close>):
  every configured path is expanded, made absolute and resolved through symbolic links without having to
  exist. Link resolution recurses into the target of each link; its depth is bounded by 40, which with the
  number of components left is the measure of termination.
\<close>

section \<open>Model\<close>

datatype dirs_override = AbsentDirs | SetEmptyDirs ustr | NonEmptyDirs ustr

datatype resolved_dirs = AbsentResolved | SetEmptyResolved ustr | NonEmptyResolved "ustr list"

record environment =
  ev_home :: "ustr option"
  ev_dirs :: dirs_override
  ev_allow_net :: "ustr option"
  ev_no_service :: "ustr option"
  ev_service_socket :: "ustr option"

definition nonempty :: "ustr option \<Rightarrow> ustr option" where
  "nonempty v = (case v of None \<Rightarrow> None | Some s \<Rightarrow> if s = [] then None else Some s)"

text \<open>The variables arrive as a list and are collected into a map, so the last value of a name counts.\<close>

definition resolve_variable :: "(ustr \<Rightarrow> ustr option) \<Rightarrow> ustr \<Rightarrow> ustr option" where
  "resolve_variable variables variable = nonempty (variables variable)"

definition resolve_dirs :: "(ustr \<Rightarrow> ustr option) \<Rightarrow> dirs_override" where
  "resolve_dirs variables =
     (let v = variables (lit ''YAMS_DIRS'')
      in case nonempty v of
        Some s \<Rightarrow> NonEmptyDirs s
      | None \<Rightarrow> if v \<noteq> None then SetEmptyDirs (lit ''YAMS_DIRS'') else AbsentDirs)"

definition environment_resolve :: "(ustr \<times> ustr) list \<Rightarrow> environment" where
  "environment_resolve entries =
     (let variables = map_of (rev entries)
      in \<lparr> ev_home = resolve_variable variables (lit ''YAMS_HOME''), ev_dirs = resolve_dirs variables,
           ev_allow_net = resolve_variable variables (lit ''YAMS_ALLOW_NET''),
           ev_no_service = resolve_variable variables (lit ''YAMS_NO_SERVICE''),
           ev_service_socket = resolve_variable variables (lit ''YAMS_SERVICE_SOCKET'') \<rparr>)"

definition environment_dirs :: "environment \<Rightarrow> ustr option" where
  "environment_dirs e = (case ev_dirs e of NonEmptyDirs v \<Rightarrow> Some v | _ \<Rightarrow> None)"

definition environment_allow_net :: "environment \<Rightarrow> bool" where
  "environment_allow_net e = (ev_allow_net e = Some (lit ''1''))"

definition environment_no_service :: "environment \<Rightarrow> bool" where
  "environment_no_service e = (ev_no_service e = Some (lit ''1''))"

datatype platform = MacOs | UnsupportedOs ustr

record runtime_inputs =
  ri_cwd :: ustr
  ri_home :: ustr
  ri_temporary_directory :: ustr
  ri_uid :: nat
  ri_platform :: platform

record runtime_layout =
  rt_cwd :: ustr
  rt_application_support_dir :: ustr
  rt_query_log :: ustr
  rt_cache_dir :: ustr
  rt_store_dir :: ustr
  rt_indexes_dir :: ustr
  rt_vectors_path :: ustr
  rt_model_cache_dir :: ustr
  rt_model_lock_dir :: ustr
  rt_runtime_dir :: ustr
  rt_service_socket :: ustr
  rt_corpus_dirs :: resolved_dirs

datatype layout_error =
  CurrentDirectory fs_error | MissingHome | RelativeInput ustr | ResolvePath ustr fs_error | SymlinkLoop ustr
  | ProjectError discovery_error | UnsupportedPlatform ustr

definition require_absolute :: "ustr \<Rightarrow> ustr \<Rightarrow> (layout_error, unit) result" where
  "require_absolute name path = (if is_absolute path then Inr () else Inl (RelativeInput name))"

text \<open>\<open>~\<close> as the first component; the rest is the path of the remaining components.\<close>

definition expand_tilde :: "ustr \<Rightarrow> ustr \<Rightarrow> (layout_error, ustr) result" where
  "expand_tilde path home =
     (case components path of
        Normal name # rest \<Rightarrow>
          if name = lit ''~''
          then if home = [] then Inl MissingHome
               else res_bind (require_absolute (lit ''HOME'') home) (\<lambda>_. Inr (path_join home (collect_path rest)))
          else Inr path
      | _ \<Rightarrow> Inr path)"

text \<open>
  The loop over the components of a path. A link is resolved by the same function on its target, one
  level deeper, and its result replaces what is resolved so far.
\<close>

function resolve_components ::
  "file_system \<Rightarrow> nat \<Rightarrow> ustr \<Rightarrow> component list \<Rightarrow> (layout_error, ustr) result" where
  "resolve_components fs depth resolved [] = Inr resolved"
| "resolve_components fs depth resolved (RootDir # rest) = resolve_components fs depth (path_join resolved [slash]) rest"
| "resolve_components fs depth resolved (CurDir # rest) = resolve_components fs depth resolved rest"
| "resolve_components fs depth resolved (ParentDir # rest) = resolve_components fs depth (path_pop resolved) rest"
| "resolve_components fs depth resolved (Normal name # rest) =
     (let link_candidate = path_join resolved name
      in case fs_symlink_metadata fs link_candidate of
        Inr md \<Rightarrow>
          if md_type md = IsSymlink
          then (case fs_read_link fs link_candidate of
                  Inl e \<Rightarrow> Inl (ResolvePath link_candidate e)
                | Inr target \<Rightarrow>
                    let target = (if is_absolute target then target else path_join resolved target)
                    in if 40 < depth + 1 then Inl (SymlinkLoop target)
                       else (case resolve_components fs (depth + 1) [] (components target) of
                               Inl e \<Rightarrow> Inl e
                             | Inr resolved \<Rightarrow> resolve_components fs depth resolved rest))
          else resolve_components fs depth link_candidate rest
      | Inl e \<Rightarrow>
          if fe_kind e = NotFoundKind \<or> fe_kind e = NotADirectoryKind
          then resolve_components fs depth link_candidate rest
          else Inl (ResolvePath link_candidate e))"
  by pat_completeness auto
termination
  by (relation "measures [\<lambda>(fs, depth, resolved, cs). 41 - depth, \<lambda>(fs, depth, resolved, cs). length cs]") auto

definition resolve_absolute_weak :: "file_system \<Rightarrow> ustr \<Rightarrow> nat \<Rightarrow> (layout_error, ustr) result" where
  "resolve_absolute_weak fs absolute depth =
     (if 40 < depth then Inl (SymlinkLoop absolute) else resolve_components fs depth [] (components absolute))"

definition resolve_compatible :: "file_system \<Rightarrow> ustr \<Rightarrow> ustr \<Rightarrow> ustr \<Rightarrow> (layout_error, ustr) result" where
  "resolve_compatible fs cwd path home =
     res_bind (expand_tilde path home) (\<lambda>expanded.
     resolve_absolute_weak fs (if is_absolute expanded then expanded else path_join cwd expanded) 0)"

definition resolve_project_path :: "file_system \<Rightarrow> ustr option \<Rightarrow> runtime_inputs \<Rightarrow> (layout_error, ustr) result" where
  "resolve_project_path fs explicit inputs =
     res_bind (require_absolute (lit ''current directory'') (ri_cwd inputs)) (\<lambda>_.
     res_bind (resolve_compatible fs (ri_cwd inputs) (ri_cwd inputs) (ri_home inputs)) (\<lambda>cwd.
     res_bind (case nonempty explicit of
         None \<Rightarrow> Inr None
       | Some path \<Rightarrow> res_map Some (resolve_compatible fs cwd path (ri_home inputs))) (\<lambda>explicit.
     map_err ProjectError (project_root fs explicit cwd))))"

text \<open>The three base directories: one when \<open>YAMS_HOME\<close> is set, the platform's otherwise.\<close>

definition base_directories ::
  "file_system \<Rightarrow> ustr \<Rightarrow> ustr option \<Rightarrow> runtime_inputs \<Rightarrow> (layout_error, ustr \<times> ustr \<times> ustr) result" where
  "base_directories fs cwd explicit_home inputs =
     (case explicit_home of
        Some base \<Rightarrow> Inr (base, base, base)
      | None \<Rightarrow>
          (case ri_platform inputs of
             UnsupportedOs p \<Rightarrow> Inl (UnsupportedPlatform p)
           | MacOs \<Rightarrow>
               if ri_home inputs = [] then Inl MissingHome
               else res_bind (require_absolute (lit ''HOME'') (ri_home inputs)) (\<lambda>_.
                    res_bind (require_absolute (lit ''TMPDIR'') (ri_temporary_directory inputs)) (\<lambda>_.
                    res_bind (resolve_compatible fs cwd (ri_home inputs) (ri_home inputs)) (\<lambda>home.
                    res_bind (resolve_compatible fs cwd (ri_temporary_directory inputs) (ri_home inputs)) (\<lambda>temporary.
                    Inr (path_join (path_join (path_join home (lit ''Library'')) (lit ''Application Support'')) (lit ''yams''),
                         path_join home (lit ''Library/Caches/yams''),
                         path_join temporary (lit ''yams-'' @ decimal (ri_uid inputs)))))))))"

definition split_paths :: "ustr \<Rightarrow> ustr list" where
  "split_paths s = split_on 58 s"

definition resolve_corpus_dirs :: "file_system \<Rightarrow> ustr \<Rightarrow> ustr \<Rightarrow> dirs_override \<Rightarrow> (layout_error, resolved_dirs) result" where
  "resolve_corpus_dirs fs cwd home dirs =
     (case dirs of
        AbsentDirs \<Rightarrow> Inr AbsentResolved
      | SetEmptyDirs variable \<Rightarrow> Inr (SetEmptyResolved variable)
      | NonEmptyDirs paths \<Rightarrow>
          res_map NonEmptyResolved (try_map (\<lambda>path. resolve_compatible fs cwd path home)
            (filter (\<lambda>path. path \<noteq> []) (split_paths paths))))"

definition layout_resolve :: "file_system \<Rightarrow> environment \<Rightarrow> runtime_inputs \<Rightarrow> (layout_error, runtime_layout) result" where
  "layout_resolve fs environment inputs =
     res_bind (require_absolute (lit ''current directory'') (ri_cwd inputs)) (\<lambda>_.
     res_bind (resolve_compatible fs (ri_cwd inputs) (ri_cwd inputs) (ri_home inputs)) (\<lambda>cwd.
     res_bind (case ev_home environment of
         None \<Rightarrow> Inr None
       | Some path \<Rightarrow> res_map Some (resolve_compatible fs cwd path (ri_home inputs))) (\<lambda>explicit_home.
     res_bind (base_directories fs cwd explicit_home inputs) (\<lambda>(application_support_dir, cache_dir, runtime_dir).
     let store_dir = path_join cache_dir (lit ''rust-v1'')
     in res_bind (case ev_service_socket environment of
            None \<Rightarrow> Inr (path_join runtime_dir (lit ''service.sock''))
          | Some path \<Rightarrow> resolve_compatible fs cwd path (ri_home inputs)) (\<lambda>service_socket.
        res_bind (resolve_corpus_dirs fs cwd (ri_home inputs) (ev_dirs environment)) (\<lambda>corpus_dirs.
        Inr \<lparr> rt_cwd = cwd, rt_application_support_dir = application_support_dir,
              rt_query_log = path_join application_support_dir (lit ''queries.jsonl''), rt_cache_dir = cache_dir,
              rt_store_dir = store_dir, rt_indexes_dir = path_join store_dir (lit ''indexes''),
              rt_vectors_path = path_join store_dir (lit ''vectors.sqlite3''),
              rt_model_cache_dir = path_join store_dir (lit ''models''),
              rt_model_lock_dir = path_join store_dir (lit ''locks''), rt_runtime_dir = runtime_dir,
              rt_service_socket = service_socket, rt_corpus_dirs = corpus_dirs \<rparr>))))))"

subsection \<open>Specification\<close>

text \<open>
  A name is settled when the file system shows no link there. A clean path is absolute, made of
  proper names, and settled at each of its initial segments.
\<close>

definition settled :: "file_system \<Rightarrow> ustr \<Rightarrow> bool" where
  "settled fs p = (case fs_symlink_metadata fs p of
       Inr md \<Rightarrow> md_type md \<noteq> IsSymlink
     | Inl e \<Rightarrow> fe_kind e = NotFoundKind \<or> fe_kind e = NotADirectoryKind)"

definition clean :: "file_system \<Rightarrow> ustr \<Rightarrow> bool" where
  "clean fs p = (\<exists>ns. list_all proper_name ns \<and> p = abs_path ns
     \<and> (\<forall>k. 0 < k \<longrightarrow> k \<le> length ns \<longrightarrow> settled fs (abs_path (take k ns))))"

text \<open>Resolution by the text of the path alone: names are pushed, \<open>..\<close> takes the last one away.\<close>

fun lexical_push :: "ustr list \<Rightarrow> component \<Rightarrow> ustr list" where
  "lexical_push ns RootDir = []"
| "lexical_push ns CurDir = ns"
| "lexical_push ns ParentDir = butlast ns"
| "lexical_push ns (Normal n) = ns @ [n]"

definition lexical_path :: "ustr \<Rightarrow> ustr" where
  "lexical_path p = abs_path (foldl lexical_push [] (components p))"

section \<open>Lemmas\<close>

definition proper_components :: "component list \<Rightarrow> bool" where
  "proper_components cs = (\<forall>n. Normal n \<in> set cs \<longrightarrow> proper_name n)"

lemma proper_components: "proper_components (components p)"
  by (simp add: proper_components_def components_of_proper)

lemma proper_components_Cons [simp]:
  "proper_components (c # cs) \<longleftrightarrow> proper_components cs \<and> (\<forall>n. c = Normal n \<longrightarrow> proper_name n)"
  by (auto simp: proper_components_def)

lemma clean_root: "clean fs (abs_path [])"
  by (auto simp: clean_def intro: exI [of _ "[]"])

lemma join_root: "path_join r [slash] = abs_path []"
  by (simp add: path_join_def is_absolute_def abs_path_def)

lemma clean_pop: "clean fs p \<Longrightarrow> clean fs (path_pop p)"
  unfolding clean_def
proof (elim exE conjE)
  fix ns assume ns: "list_all proper_name ns" "p = abs_path ns"
    "\<forall>k. 0 < k \<longrightarrow> k \<le> length ns \<longrightarrow> settled fs (abs_path (take k ns))"
  have "list_all proper_name (butlast ns)" using ns(1) by (auto simp: list_all_iff dest: in_set_butlastD)
  moreover have "path_pop p = abs_path (butlast ns)" using ns by (simp add: path_pop_abs)
  moreover have "settled fs (abs_path (take k (butlast ns)))" if "0 < k" "k \<le> length (butlast ns)" for k
    using ns(3) that by (simp add: take_butlast)
  ultimately show "\<exists>ns. list_all proper_name ns \<and> path_pop p = abs_path ns
     \<and> (\<forall>k. 0 < k \<longrightarrow> k \<le> length ns \<longrightarrow> settled fs (abs_path (take k ns)))" by blast
qed

lemma proper_join: "list_all proper_name ns \<Longrightarrow> proper_name n \<Longrightarrow> path_join (abs_path ns) n = abs_path (ns @ [n])"
  by (cases n) (auto intro!: path_join_name simp: proper_name_def)

lemma clean_join:
  assumes "clean fs p" "proper_name n" "settled fs (path_join p n)"
  shows "clean fs (path_join p n)"
proof -
  obtain ns where ns: "list_all proper_name ns" "p = abs_path ns"
    "\<forall>k. 0 < k \<longrightarrow> k \<le> length ns \<longrightarrow> settled fs (abs_path (take k ns))"
    using assms(1) by (auto simp: clean_def)
  have j: "path_join p n = abs_path (ns @ [n])" using ns assms(2) by (simp add: proper_join)
  have "settled fs (abs_path (take k (ns @ [n])))" if "0 < k" "k \<le> length (ns @ [n])" for k
    using ns(3) that assms(3) j by (cases "k \<le> length ns") (auto simp: not_le le_Suc_eq)
  then show ?thesis unfolding clean_def using ns assms(2) j by (intro exI [of _ "ns @ [n]"]) simp
qed

lemma clean_absolute: "clean fs p \<Longrightarrow> is_absolute p" and clean_canonical: "clean fs p \<Longrightarrow> canonical_path p"
  by (auto simp: clean_def canonical_path_def abs_path_def is_absolute_def)

lemma join_absolute: "is_absolute p \<Longrightarrow> is_absolute (path_join p q)"
  by (auto simp: path_join_def is_absolute_def)

lemma resolve_components_clean:
  "resolve_components fs depth r cs = Inr p \<Longrightarrow> proper_components cs
     \<Longrightarrow> clean fs r \<or> (\<exists>ds. cs = RootDir # ds) \<Longrightarrow> clean fs p"
proof (induction fs depth r cs arbitrary: p rule: resolve_components.induct)
  case (2 fs depth r rest)
  then show ?case using clean_root by (simp add: join_root)
next
  case (4 fs depth r rest)
  then show ?case using clean_pop by simp
next
  case (5 fs depth r name rest)
  from "5.prems"(2,3) have r: "clean fs r" and n: "proper_name name" and rest: "proper_components rest" by auto
  let ?c = "path_join r name"
  show ?case
  proof (cases "fs_symlink_metadata fs ?c")
    case (Inl e)
    then have e: "fe_kind e = NotFoundKind \<or> fe_kind e = NotADirectoryKind"
      using "5.prems"(1) by (auto simp: Let_def split: if_splits)
    then have "clean fs ?c" using Inl by (intro clean_join [OF r n]) (simp add: settled_def)
    moreover have "resolve_components fs depth ?c rest = Inr p" using "5.prems"(1) Inl e by simp
    ultimately show ?thesis using "5.IH"(1) [OF refl Inl e] rest by blast
  next
    case (Inr md)
    show ?thesis
    proof (cases "md_type md = IsSymlink")
      case False
      then have "clean fs ?c" using Inr by (intro clean_join [OF r n]) (simp add: settled_def)
      moreover have "resolve_components fs depth ?c rest = Inr p" using "5.prems"(1) Inr False by simp
      ultimately show ?thesis using "5.IH"(4) [OF refl Inr False] rest by blast
    next
      case True
      obtain t where t: "fs_read_link fs ?c = Inr t"
        using "5.prems"(1) Inr True by (auto simp: Let_def split: sum.splits)
      let ?t = "if is_absolute t then t else path_join r t"
      have d: "\<not> 40 < depth + 1" using "5.prems"(1) Inr True t by (auto simp: Let_def split: if_splits)
      obtain q where q: "resolve_components fs (depth + 1) [] (components ?t) = Inr q"
        and p: "resolve_components fs depth q rest = Inr p"
        using "5.prems"(1) Inr True t d by (auto simp: Let_def split: sum.splits)
      have "is_absolute ?t" using clean_absolute [OF r] join_absolute by simp
      then have "\<exists>ds. components ?t = RootDir # ds" by (rule components_absolute)
      then have "clean fs q" using "5.IH"(2) [OF refl Inr True t refl d q proper_components] by blast
      then show ?thesis using "5.IH"(3) [OF refl Inr True t refl d q p rest] by blast
    qed
  qed
qed auto

lemma resolve_settled:
  assumes "list_all proper_name (ns @ ms)" "\<forall>k. length ns < k \<longrightarrow> k \<le> length (ns @ ms) \<longrightarrow> settled fs (abs_path (take k (ns @ ms)))"
  shows "resolve_components fs depth (abs_path ns) (map Normal ms) = Inr (abs_path (ns @ ms))"
  using assms
proof (induction ms arbitrary: ns)
  case (Cons m ms)
  have j: "path_join (abs_path ns) m = abs_path (ns @ [m])" using Cons.prems(1) by (intro proper_join) simp_all
  have "settled fs (abs_path (ns @ [m]))" using Cons.prems(2) [rule_format, of "Suc (length ns)"] by simp
  moreover have "resolve_components fs depth (abs_path (ns @ [m])) (map Normal ms) = Inr (abs_path ((ns @ [m]) @ ms))"
    using Cons.prems by (intro Cons.IH) simp_all
  ultimately show ?case
    by (auto simp: j settled_def Let_def simp del: append_assoc split: sum.splits) simp_all
qed simp

lemma resolve_clean_id: "clean fs p \<Longrightarrow> depth \<le> 40 \<Longrightarrow> resolve_absolute_weak fs p depth = Inr p"
  unfolding clean_def resolve_absolute_weak_def
  using resolve_settled [of "[]" _ fs depth] by (auto simp: components_abs_path join_root)

lemma resolve_absolute_clean:
  "is_absolute p \<Longrightarrow> resolve_absolute_weak fs p depth = Inr q \<Longrightarrow> clean fs q"
  using resolve_components_clean [OF _ proper_components, of fs depth "[]" p q] components_absolute [of p]
  by (auto simp: resolve_absolute_weak_def split: if_splits)

lemma expand_tilde_absolute:
  "expand_tilde path home = Inr e \<Longrightarrow> e = path \<or> is_absolute e"
  by (auto simp: expand_tilde_def require_absolute_def join_absolute split: list.splits component.splits if_splits)

lemma resolve_compatible_clean:
  assumes "is_absolute cwd" "resolve_compatible fs cwd path home = Inr p"
  shows "clean fs p"
  using assms join_absolute resolve_absolute_clean
  by (fastforce simp: resolve_compatible_def res_bind_Inr_iff split: if_splits)

lemma resolve_lexical:
  assumes "\<And>q. settled fs q"
  shows "proper_components cs \<Longrightarrow> list_all proper_name ns \<Longrightarrow>
    resolve_components fs depth (abs_path ns) cs = Inr (abs_path (foldl lexical_push ns cs))"
proof (induction cs arbitrary: ns)
  case (Cons c cs)
  show ?case
  proof (cases c)
    case RootDir
    then show ?thesis using Cons by (simp add: join_root)
  next
    case CurDir
    then show ?thesis using Cons by simp
  next
    case ParentDir
    have "list_all proper_name (butlast ns)" using Cons.prems(2) by (auto simp: list_all_iff dest: in_set_butlastD)
    then show ?thesis using Cons ParentDir by (simp add: path_pop_abs)
  next
    case (Normal n)
    then have j: "path_join (abs_path ns) n = abs_path (ns @ [n])" using Cons.prems by (intro proper_join) simp_all
    have "resolve_components fs depth (abs_path (ns @ [n])) cs = Inr (abs_path (foldl lexical_push (ns @ [n]) cs))"
      using Cons.prems Normal by (intro Cons.IH) simp_all
    then show ?thesis using assms [of "abs_path (ns @ [n])"] Normal
      by (auto simp: j settled_def Let_def split: sum.splits)
  qed
qed simp


lemma expand_absolute: "is_absolute p \<Longrightarrow> expand_tilde p home = Inr p"
  by (auto simp: expand_tilde_def dest!: components_absolute)

lemma below_name: "canonical_path p \<Longrightarrow> proper_name n \<Longrightarrow> below p [n] (path_join p n)"
  unfolding canonical_path_def below_def using proper_join by auto

lemma below_path:
  assumes "canonical_path p" "list_all proper_name ms" "ms \<noteq> []"
  shows "below p ms (path_join p (join [slash] ms))"
proof -
  obtain ns where ns: "list_all proper_name ns" "p = abs_path ns" using assms(1) by (auto simp: canonical_path_def)
  obtain m r where ms: "ms = m # r" using assms(3) by (cases ms) auto
  have "m \<noteq> []" "hd m \<noteq> slash" using assms(2) ms by (auto simp: proper_name_def neq_Nil_conv)
  then have j: "join [slash] ms \<noteq> []" "hd (join [slash] ms) \<noteq> slash" using ms by (cases r; simp)+
  have "join [slash] (ns @ ms) = (if ns = [] then [] else join [slash] ns @ [slash]) @ join [slash] ms"
    using assms(3) by (induction "[slash]" ns rule: join.induct) (auto simp: neq_Nil_conv)
  then have "path_join p (join [slash] ms) = abs_path (ns @ ms)"
    using j join_not_slash [OF ns(1)] by (cases "ns = []") (auto simp: path_join_def ns abs_path_def is_absolute_iff)
  with ns assms(2) show ?thesis by (auto simp: below_def)
qed

lemma layout_names_proper:
  "proper_name (lit ''rust-v1'')" "proper_name (lit ''indexes'')" "proper_name (lit ''vectors.sqlite3'')" "proper_name (lit ''models'')" "proper_name (lit ''locks'')" "proper_name (lit ''queries.jsonl'')" "proper_name (lit ''service.sock'')" "proper_name (lit ''Library'')" "proper_name (lit ''Application Support'')" "proper_name (lit ''Caches'')" "proper_name (lit ''yams'')"
  by code_simp+

lemma uid_name: "proper_name (lit ''yams-'' @ decimal n)"
proof -
  have "c \<in> set (decimal n) \<Longrightarrow> 48 \<le> c \<and> c < 58" for c
  proof (induction n rule: decimal.induct)
    case (1 n)
    then show ?case by (cases "n < 10") (auto simp: decimal.simps [of n])
  qed
  then have "slash \<notin> set (decimal n)" by force
  then show ?thesis by (auto simp: proper_name_def lit_def)
qed

lemma base_directories_default:
  assumes cwd: "is_absolute cwd" and b: "base_directories fs cwd None inputs = Inr (a, c, r)"
  shows "ri_platform inputs = MacOs \<and> (\<exists>home temporary. clean fs home \<and> clean fs temporary
    \<and> below home [lit ''Library'', lit ''Application Support'', lit ''yams''] a
    \<and> below home [lit ''Library'', lit ''Caches'', lit ''yams''] c
    \<and> below temporary [lit ''yams-'' @ decimal (ri_uid inputs)] r)"
proof -
  have os: "ri_platform inputs = MacOs" using b by (cases "ri_platform inputs") (simp_all add: base_directories_def)
  obtain home temporary where h: "resolve_compatible fs cwd (ri_home inputs) (ri_home inputs) = Inr home"
    "resolve_compatible fs cwd (ri_temporary_directory inputs) (ri_home inputs) = Inr temporary"
    and a: "a = path_join (path_join (path_join home (lit ''Library'')) (lit ''Application Support'')) (lit ''yams'')"
      "c = path_join home (lit ''Library/Caches/yams'')" "r = path_join temporary (lit ''yams-'' @ decimal (ri_uid inputs))"
    using b os by (auto simp: base_directories_def res_bind_Inr_iff split: if_splits)
  note cl = resolve_compatible_clean [OF cwd h(1)] resolve_compatible_clean [OF cwd h(2)]
  obtain ns where ns: "list_all proper_name ns" "home = abs_path ns" using cl(1) by (auto simp: clean_def)
  note p = layout_names_proper
  have "a = abs_path (ns @ [lit ''Library'', lit ''Application Support'', lit ''yams''])"
    using ns p by (simp add: a proper_join)
  then have "below home [lit ''Library'', lit ''Application Support'', lit ''yams''] a"
    using ns p by (auto simp: below_def)
  moreover have "lit ''Library/Caches/yams'' = join [slash] [lit ''Library'', lit ''Caches'', lit ''yams'']" by code_simp
  then have "below home [lit ''Library'', lit ''Caches'', lit ''yams''] c"
    using below_path [OF clean_canonical [OF cl(1)], of "[lit ''Library'', lit ''Caches'', lit ''yams'']"] p
    by (simp only: a) simp
  moreover have "below temporary [lit ''yams-'' @ decimal (ri_uid inputs)] r"
    unfolding a by (rule below_name [OF clean_canonical [OF cl(2)] uid_name])
  ultimately show ?thesis using os cl by blast
qed


lemma below_canonical: "below base rs p \<Longrightarrow> canonical_path p"
  by (rule below_facts(1))

lemma base_directories_absolute:
  assumes cwd: "is_absolute cwd" and e: "\<And>h. home = Some h \<Longrightarrow> clean fs h"
    and b: "base_directories fs cwd home inputs = Inr (a, c, r)"
  shows "canonical_path a \<and> canonical_path c \<and> canonical_path r"
proof (cases home)
  case None
  then show ?thesis using base_directories_default [OF cwd b [unfolded None]] below_canonical by blast
next
  case (Some h)
  then show ?thesis using e [OF Some] b clean_canonical by (auto simp: base_directories_def)
qed

lemma resolve_corpus_dirs_clean:
  assumes "is_absolute cwd" "resolve_corpus_dirs fs cwd home dirs = Inr (NonEmptyResolved ps)" "p \<in> set ps"
  shows "clean fs p"
  using assms try_map_Inr_set resolve_compatible_clean
  by (fastforce simp: resolve_corpus_dirs_def res_map_def split: dirs_override.splits sum.splits)

section \<open>Properties\<close>

definition demo_links :: file_system where
  "demo_links = demo_fs\<lparr> fs_symlink_metadata := (\<lambda>p.
       if p = lit ''/p/l'' then Inr \<lparr> md_type = IsSymlink, md_dev = 1, md_ino = 9 \<rparr> else fs_symlink_metadata demo_fs p),
     fs_read_link := (\<lambda>p. Inr (lit ''q/../q'')) \<rparr>"

text \<open>C39: A resolved path is canonical text with no link in it: absolute, without dots or repeated separators,
  and at every initial segment the file system shows something other than a link, or nothing. Resolving it
  again, from any directory and with any home, gives it back.\<close>

theorem resolved_path_is_clean:
  assumes "is_absolute cwd" "resolve_compatible fs cwd path home = Inr p"
  shows "(\<exists>ns. list_all proper_name ns \<and> p = abs_path ns
       \<and> (\<forall>k. 0 < k \<longrightarrow> k \<le> length ns \<longrightarrow> settled fs (abs_path (take k ns))))
    \<and> resolve_compatible fs cwd' p home' = Inr p"
proof -
  have c: "clean fs p" by (rule resolve_compatible_clean [OF assms])
  then have "resolve_compatible fs cwd' p home' = Inr p"
    using clean_absolute [OF c] by (simp add: resolve_compatible_def expand_absolute resolve_clean_id)
  with c show ?thesis unfolding clean_def by blast
qed

theorem resolved_path_is_clean_witness:
  "resolve_compatible demo_links (lit ''/p'') (lit ''./l//x'') [] = Inr (lit ''/p/q/x'')
   \<and> resolve_compatible demo_links (lit ''/'') (lit ''/p/q/x'') [] = Inr (lit ''/p/q/x'')"
proof -
  have a: "is_absolute (lit ''/p'')" by code_simp
  have r: "resolve_compatible demo_links (lit ''/p'') (lit ''./l//x'') [] = Inr (lit ''/p/q/x'')" by code_simp
  show ?thesis using resolved_path_is_clean [OF a r] r by blast
qed



text \<open>A resolved layout is one tree of canonical paths: the store, index, vector, model and lock paths are
  names below the cache directory, the query log below the support directory, the default socket below the
  runtime directory. With \<open>YAMS_HOME\<close> all three bases are the one resolved directory, so nothing of the
  store lies outside it; without it they are the platform's directories below the resolved home and temporary
  directories. A configured socket and every configured corpus directory is resolved and link-free.\<close>

lemma layout_is_one_tree:
  assumes "layout_resolve fs environment inputs = Inr l"
  shows "clean fs (rt_cwd l)
    \<and> below (rt_cache_dir l) [lit ''rust-v1''] (rt_store_dir l) \<and> below (rt_store_dir l) [lit ''indexes''] (rt_indexes_dir l)
    \<and> below (rt_store_dir l) [lit ''vectors.sqlite3''] (rt_vectors_path l) \<and> below (rt_store_dir l) [lit ''models''] (rt_model_cache_dir l)
    \<and> below (rt_store_dir l) [lit ''locks''] (rt_model_lock_dir l)
    \<and> below (rt_application_support_dir l) [lit ''queries.jsonl''] (rt_query_log l)
    \<and> (case ev_service_socket environment of None \<Rightarrow> below (rt_runtime_dir l) [lit ''service.sock''] (rt_service_socket l)
       | Some _ \<Rightarrow> clean fs (rt_service_socket l))
    \<and> (case ev_home environment of
         Some _ \<Rightarrow> clean fs (rt_cache_dir l) \<and> rt_application_support_dir l = rt_cache_dir l \<and> rt_runtime_dir l = rt_cache_dir l
       | None \<Rightarrow> ri_platform inputs = MacOs \<and> (\<exists>home temporary. clean fs home \<and> clean fs temporary
           \<and> below home [lit ''Library'', lit ''Caches'', lit ''yams''] (rt_cache_dir l)
           \<and> below home [lit ''Library'', lit ''Application Support'', lit ''yams''] (rt_application_support_dir l)
           \<and> below temporary [lit ''yams-'' @ decimal (ri_uid inputs)] (rt_runtime_dir l)))
    \<and> (case rt_corpus_dirs l of NonEmptyResolved ps \<Rightarrow> list_all (clean fs) ps | _ \<Rightarrow> True)"
proof -
  obtain cwd home a c r socket dirs where
    abs: "is_absolute (ri_cwd inputs)" and cwd: "resolve_compatible fs (ri_cwd inputs) (ri_cwd inputs) (ri_home inputs) = Inr cwd"
    and home: "(case ev_home environment of None \<Rightarrow> Inr None
       | Some path \<Rightarrow> res_map Some (resolve_compatible fs cwd path (ri_home inputs))) = Inr home"
    and base: "base_directories fs cwd home inputs = Inr (a, c, r)"
    and socket: "(case ev_service_socket environment of None \<Rightarrow> Inr (path_join r (lit ''service.sock''))
          | Some path \<Rightarrow> resolve_compatible fs cwd path (ri_home inputs)) = Inr socket"
    and dirs: "resolve_corpus_dirs fs cwd (ri_home inputs) (ev_dirs environment) = Inr dirs"
    and l: "l = \<lparr> rt_cwd = cwd, rt_application_support_dir = a, rt_query_log = path_join a (lit ''queries.jsonl''), rt_cache_dir = c,
        rt_store_dir = path_join c (lit ''rust-v1''), rt_indexes_dir = path_join (path_join c (lit ''rust-v1'')) (lit ''indexes''),
        rt_vectors_path = path_join (path_join c (lit ''rust-v1'')) (lit ''vectors.sqlite3''),
        rt_model_cache_dir = path_join (path_join c (lit ''rust-v1'')) (lit ''models''),
        rt_model_lock_dir = path_join (path_join c (lit ''rust-v1'')) (lit ''locks''), rt_runtime_dir = r,
        rt_service_socket = socket, rt_corpus_dirs = dirs \<rparr>"
    using assms by (auto simp: layout_resolve_def require_absolute_def res_bind_Inr_iff Let_def split: if_splits prod.splits)
  have ccwd: "clean fs cwd" by (rule resolve_compatible_clean [OF abs cwd])
  note acwd = clean_absolute [OF ccwd]
  have h: "clean fs h" if "home = Some h" for h
    using home that resolve_compatible_clean [OF acwd] by (auto simp: res_map_def split: option.splits sum.splits)
  have can: "canonical_path a" "canonical_path c" "canonical_path r" using base_directories_absolute [OF acwd h base] by auto
  note p = layout_names_proper
  have store: "below c [lit ''rust-v1''] (path_join c (lit ''rust-v1''))" by (rule below_name [OF can(2) p(1)])
  note below_store = below_name [OF below_canonical [OF store]]
  have bases: "case ev_home environment of
         Some _ \<Rightarrow> clean fs c \<and> a = c \<and> r = c
       | None \<Rightarrow> ri_platform inputs = MacOs \<and> (\<exists>home temporary. clean fs home \<and> clean fs temporary
           \<and> below home [lit ''Library'', lit ''Caches'', lit ''yams''] c
           \<and> below home [lit ''Library'', lit ''Application Support'', lit ''yams''] a
           \<and> below temporary [lit ''yams-'' @ decimal (ri_uid inputs)] r)"
  proof (cases "ev_home environment")
    case None
    then have "home = None" using home by simp
    from base_directories_default [OF acwd base [unfolded this]] None show ?thesis by simp blast
  next
    case (Some path)
    then obtain x where "home = Some x" using home by (auto simp: res_map_def split: sum.splits)
    with h base Some show ?thesis by (auto simp: base_directories_def)
  qed
  have "case ev_service_socket environment of None \<Rightarrow> below r [lit ''service.sock''] socket | Some _ \<Rightarrow> clean fs socket"
    using socket below_name [OF can(3) p(7)] resolve_compatible_clean [OF acwd] by (cases "ev_service_socket environment") auto
  moreover have "case dirs of NonEmptyResolved ps \<Rightarrow> list_all (clean fs) ps | _ \<Rightarrow> True"
    using resolve_corpus_dirs_clean [OF acwd] dirs by (cases dirs) (auto simp: list_all_iff)
  moreover have "below a [lit ''queries.jsonl''] (path_join a (lit ''queries.jsonl''))" by (rule below_name [OF can(1) p(6)])
  ultimately show ?thesis
    unfolding l runtime_layout.select_convs using ccwd store bases below_store p(2-5) by blast
qed

lemma layout_is_one_tree_example:
  "\<exists>l. layout_resolve demo_fs (environment_resolve [(lit ''YAMS_HOME'', lit ''q''), (lit ''YAMS_DIRS'', [])])
      \<lparr> ri_cwd = lit ''/p'', ri_home = [], ri_temporary_directory = [], ri_uid = 5, ri_platform = UnsupportedOs (lit ''linux'') \<rparr> = Inr l
     \<and> rt_cache_dir l = lit ''/p/q'' \<and> below (lit ''/p/q'') [lit ''rust-v1''] (rt_store_dir l)"
proof -
  let ?e = "environment_resolve [(lit ''YAMS_HOME'', lit ''q''), (lit ''YAMS_DIRS'', [])]"
  let ?i = "\<lparr> ri_cwd = lit ''/p'', ri_home = [], ri_temporary_directory = [], ri_uid = 5, ri_platform = UnsupportedOs (lit ''linux'') \<rparr>"
  have c: "res_map rt_cache_dir (layout_resolve demo_fs ?e ?i) = Inr (lit ''/p/q'')" by code_simp
  then obtain l where l: "layout_resolve demo_fs ?e ?i = Inr l" by (cases "layout_resolve demo_fs ?e ?i") auto
  show ?thesis using layout_is_one_tree [OF l] c l by auto
qed

end
