(* ===== verification/Spec2Isabelle.thy ===== *)
theory Spec2Isabelle
  imports Chunk Search Service Wiki_Capture Render_Output Layout
begin

text \<open>
  Verification of Yams, an offline memory search for coding agents.

  \<^bold>\<open>The program.\<close> Pages of Markdown are parsed (\<open>frontmatter.rs\<close>), cut into chunks (\<open>chunk.rs\<close>) and
  embedded. A query is turned into terms (\<open>snippet.rs\<close>), pages are ranked by dense and lexical scores
  that are fused (\<open>rank.rs\<close>), a confidence gate selects what is shown (\<open>select.rs\<close>), and \<open>search.rs\<close>
  composes these steps. Text that reaches a terminal passes the sanitizer (\<open>sanitize.rs\<close>). The command
  line (\<open>yams-cli\<close>) parses its arguments (\<open>args.rs\<close>) and hands a request either to a running service
  (\<open>client.rs\<close>) or executes it itself. Client and service speak a framed JSON protocol
  (\<open>yams-protocol\<close>: \<open>message.rs\<close>, \<open>json.rs\<close>, \<open>frame.rs\<close>, \<open>peer.rs\<close>); the service (\<open>yams-service\<close>) admits
  connections, executes requests and shuts down cooperatively.

  \<^bold>\<open>The theories.\<close>
  \<^item> \<open>Yams_Prelude\<close>: results, fallible iteration, comparators and the stable sort, ordered maps. Two
    interfaces are locales: \<open>rust_cmp\<close>, interpreted on every comparator the code sorts by, and
    \<open>ordered_map\<close>, interpreted on the sorted association lists that model \<open>BTreeMap\<close>.
  \<^item> \<open>Rust_Text\<close>, \<open>Rust_Path\<close>, \<open>Rust_Number\<close>, \<open>Float64\<close>: the parts of the standard library the code uses.
    Text is a list of code points with its UTF-8 encoding and strict decoding; \<open>Float64\<close> is binary64
    on exact rationals with rounding to nearest even, overflow and signed zeros.
  \<^item> \<open>Frontmatter\<close>, \<open>Chunk\<close>, \<open>Sanitize\<close>, \<open>Snippet\<close>, \<open>Rank\<close>, \<open>Select\<close>, \<open>Search\<close>: one per file of
    \<open>yams-core/src\<close>.
  \<^item> \<open>Message\<close>, \<open>Json_Wire\<close>, \<open>Transport\<close>, \<open>Frame\<close>: the protocol. \<open>Transport\<close> is the socket: scripts of
    what reads, writes, polls, control calls and the clock answer.
  \<^item> \<open>Cli_Args\<close>: \<open>args.rs\<close>. \<open>Client\<close>: \<open>client.rs\<close>, \<open>peer.rs\<close>, \<open>yams-runtime\<close> and the service's way back from
    an operation to a request.
  \<^item> \<open>Channel\<close>: the locale \<open>message_channel\<close>, what a sender and a receiver promise each other, with its
    instances for requests and responses over frames.
  \<^item> \<open>Service\<close>: \<open>yams-service/src/service.rs\<close>.

  \<^bold>\<open>Conventions.\<close> A Rust \<open>Result\<close> is a sum with the error on the left, a panic of checked arithmetic or
  indexing is an explicit outcome, structs are records, enums are datatypes, and each operation keeps
  the order of the code's checks. Loops are total functions; where a loop is driven by a socket, its
  script shrinks with every step, so the termination proofs are the claim that it returns for every
  finite behaviour of the system. No fuel is used.

  \<^bold>\<open>Parameters.\<close> Code outside the repository is an argument: \<open>serde_json\<close> (\<open>json_lib\<close>), Clap, the Unicode
  category tables, \<open>ryu\<close>, the text of I/O errors and floats (\<open>cli_lib\<close>, \<open>client_lib\<close>), and \<open>ln_1p\<close>. What is
  relied on of them is stated as a named predicate (\<open>json_faithful\<close>, \<open>cli_lib_ok\<close>, \<open>clap_counts\<close>,
  \<open>f64_text_ok\<close>), each shown to hold for a concrete instance by a witness.

  \<^bold>\<open>Not modelled.\<close> File-system traversal (\<open>scan\<close>, \<open>corpus\<close>, \<open>yams-fs\<close>), the SQLite store
  (\<open>yams-store\<close>), the embedding model (\<open>yams-embed\<close>), the wiki writer and initializer (\<open>yams-wiki\<close>) and
  the process entry points: they are dominated by system calls, SQL and a neural network.
\<close>

end
